(* ===== verification/Prelude.thy ===== *)
theory Prelude
  imports Complex_Main "HOL-Library.Word"
begin

text \<open>
  Shared vocabulary of the development: machine integers at the width the Rust sources use,
  the saturating operations of the standard library, durations and instants, the part of
  IEEE-754 division the sources rely on, and the list lemmas several components use.

  Rust durations and instants have nanosecond resolution: both are natural numbers of
  nanoseconds here, an instant counted from the start of the platform's monotonic clock.
  \<open>saturating_sub\<close> on durations is subtraction on \<open>nat\<close>.
\<close>

type_synonym u8 = "8 word"
type_synonym u16 = "16 word"
type_synonym u32 = "32 word"
type_synonym u64 = "64 word"
type_synonym usize = "64 word"

type_synonym duration = nat
type_synonym instant = nat

named_theorems bounds_simps \<open>arithmetic facts on the fixed-width operations\<close>
named_theorems inv_simps \<open>definitions of the components' well-formedness invariants\<close>

section \<open>Saturating and truncating integer operations\<close>

definition saturating_sub_u64 :: "u64 \<Rightarrow> u64 \<Rightarrow> u64" where
  "saturating_sub_u64 a b = (if a < b then 0 else a - b)"

definition as_u64 :: "nat \<Rightarrow> u64" where
  "as_u64 n = of_nat n"

definition nanos_per_milli :: nat where
  "nanos_per_milli = 1000000"

definition as_millis :: "duration \<Rightarrow> nat" where
  "as_millis d = d div nanos_per_milli"

definition from_millis :: "u64 \<Rightarrow> duration" where
  "from_millis ms = unat ms * nanos_per_milli"

definition from_secs :: "u64 \<Rightarrow> duration" where
  "from_secs s = unat s * 1000000000"

lemma saturating_sub_u64_unat [bounds_simps]:
  "unat (saturating_sub_u64 a b) = unat a - unat b"
  by (auto simp: saturating_sub_u64_def unat_sub_if' word_less_nat_alt)

lemma word_inc_le [bounds_simps]: "(x::'a::len word) < m \<Longrightarrow> x + 1 \<le> m"
  by (metis inc_le)

lemma one_le_u64_pos [bounds_simps]: "(1::u64) \<le> m \<Longrightarrow> 0 < m"
  by unat_arith

lemma unat_of_nat_u64 [bounds_simps]: "n < 2 ^ 64 \<Longrightarrow> unat (of_nat n :: u64) = n"
  by (simp add: unat_of_nat)

section \<open>Correctly rounded division of small counts\<close>

text \<open>
  \<open>a as f64 / b as f64\<close> for counts \<open>a \<le> b\<close>: the quotient is scaled by a power of two into
  \<open>[2^52, 2^53]\<close>, rounded to the nearest integer with ties to even, and scaled back, which is
  the IEEE-754 binary64 result for a normal quotient. Counts below \<open>2^53\<close> convert exactly.
\<close>

definition round_half_even :: "nat \<Rightarrow> nat \<Rightarrow> nat" where
  "round_half_even n b =
     (let q = n div b; r = n mod b
      in if 2 * r < b then q else if b < 2 * r then q + 1 else if even q then q else q + 1)"

function f64_scale :: "nat \<Rightarrow> nat \<Rightarrow> nat" where
  "f64_scale a b = (if a = 0 \<or> b \<le> a then 0 else Suc (f64_scale (2 * a) b))"
  by pat_completeness auto
termination
  by (relation "measure (\<lambda>(a, b). b - a)") auto

declare f64_scale.simps [simp del]

definition f64_ratio :: "nat \<Rightarrow> nat \<Rightarrow> rat" where
  "f64_ratio a b =
     (if a = 0 then 0
      else let k = 52 + f64_scale a b
           in of_nat (round_half_even (a * 2 ^ k) b) / 2 ^ k)"

datatype f64 = NaN | NegInf | Fin rat | PosInf

text \<open>\<open>x >= y\<close> on \<open>f64\<close>: every comparison with NaN is false.\<close>

fun f64_ge :: "f64 \<Rightarrow> f64 \<Rightarrow> bool" where
  "f64_ge NaN _ = False"
| "f64_ge _ NaN = False"
| "f64_ge PosInf _ = True"
| "f64_ge _ NegInf = True"
| "f64_ge (Fin x) (Fin y) = (y \<le> x)"
| "f64_ge _ _ = False"

lemma round_half_even_ge: "0 < b \<Longrightarrow> c * b \<le> n \<Longrightarrow> c \<le> round_half_even n b"
proof -
  assume "0 < b" "c * b \<le> n"
  then have "c \<le> n div b" by (simp add: less_eq_div_iff_mult_less_eq)
  then show ?thesis by (simp add: round_half_even_def Let_def)
qed

lemma round_half_even_le: "0 < b \<Longrightarrow> n \<le> c * b \<Longrightarrow> round_half_even n b \<le> c"
proof (cases "n = c * b")
  case False
  assume "0 < b" "n \<le> c * b"
  with False have "n div b < c" by (simp add: div_less_iff_less_mult)
  then show ?thesis by (simp add: round_half_even_def Let_def)
qed (simp add: round_half_even_def)

lemma round_half_even_less:
  assumes "0 < b" "2 * n + b < 2 * c * b"
  shows "round_half_even n b < c"
proof -
  let ?q = "n div b" and ?r = "n mod b"
  have n: "n = ?q * b + ?r" by simp
  have "n < c * b" using assms by linarith
  then have q: "?q < c" using assms(1) by (simp add: div_less_iff_less_mult)
  show ?thesis
  proof (cases "2 * ?r < b")
    case True
    then show ?thesis using q by (simp add: round_half_even_def)
  next
    case False
    have "2 * (?q * b) + 2 * ?r + b < 2 * c * b" using assms(2) n by linarith
    with False have "2 * ((?q + 1) * b) < 2 * (c * b)" by (simp add: algebra_simps)
    then have "?q + 1 < c" by (metis mult_less_cancel2 nat_mult_less_cancel_disj)
    then show ?thesis by (simp add: round_half_even_def Let_def)
  qed
qed

lemma f64_ratio_bounds:
  assumes "0 < b" "a \<le> b"
  shows "0 \<le> f64_ratio a b" "f64_ratio a b \<le> 1"
proof -
  let ?k = "52 + f64_scale a b"
  have "round_half_even (a * 2 ^ ?k) b \<le> 2 ^ ?k"
    using assms by (intro round_half_even_le) (simp_all add: mult.commute)
  then have "(of_nat (round_half_even (a * 2 ^ ?k) b) :: rat) \<le> of_nat (2 ^ ?k)"
    by (rule of_nat_mono)
  then show "f64_ratio a b \<le> 1" by (simp add: f64_ratio_def Let_def)
qed (simp add: f64_ratio_def Let_def)

lemma f64_ratio_half:
  assumes "0 < b" "b < 2 ^ 52"
  shows "1 / 2 \<le> f64_ratio a b \<longleftrightarrow> b \<le> 2 * a"
proof (cases "a = 0")
  case True
  then show ?thesis using assms by (simp add: f64_ratio_def)
next
  case False
  define j where "j = 51 + f64_scale a b"
  have j: "52 + f64_scale a b = Suc j" by (simp add: j_def)
  define h :: nat where "h = 2 ^ j"
  have hpow: "(2::nat) ^ Suc j = 2 * h" by (simp add: h_def)
  define m where "m = round_half_even (a * (2 * h)) b"
  have ratio: "f64_ratio a b = of_nat m / of_nat (2 * h)"
    using False unfolding f64_ratio_def Let_def j m_def hpow [symmetric] by simp
  have "0 < h" by (simp add: h_def)
  then have half: "1 / 2 \<le> f64_ratio a b \<longleftrightarrow> h \<le> m"
    unfolding ratio by (simp add: field_simps)
  show ?thesis
  proof (cases "b \<le> 2 * a")
    case True
    then have "h * b \<le> a * (2 * h)" by (simp add: mult.commute)
    then have "h \<le> m" using assms(1) m_def round_half_even_ge by blast
    then show ?thesis using half True by simp
  next
    case False
    have "(2::nat) ^ 51 \<le> 2 ^ j" by (rule power_increasing) (simp_all add: j_def)
    then have big: "b < 2 * h" using assms(2) by (simp add: h_def)
    have "2 * (a * (2 * h)) + b < (2 * a + 1) * (2 * h)"
      using big by (simp add: algebra_simps)
    also have "\<dots> \<le> b * (2 * h)" using False by (intro mult_right_mono) auto
    finally have "2 * (a * (2 * h)) + b < 2 * h * b" by (simp add: mult.commute)
    then have "m < h" unfolding m_def by (rule round_half_even_less [OF assms(1)])
    then show ?thesis using half False by simp
  qed
qed

section \<open>Invariants of transition systems\<close>

text \<open>
  The interface every stateful component of the development implements: a step relation, the
  states it may start in, and an invariant each step keeps. Reachability facts are proved once
  here and obtained by interpretation.
\<close>

locale invariant_system =
  fixes init :: "'s \<Rightarrow> bool"
    and step :: "'s \<Rightarrow> 's \<Rightarrow> bool"
    and inv :: "'s \<Rightarrow> bool"
  assumes init_inv: "init s \<Longrightarrow> inv s"
    and step_inv: "inv s \<Longrightarrow> step s t \<Longrightarrow> inv t"
begin

lemma steps_inv: "step\<^sup>*\<^sup>* s t \<Longrightarrow> inv s \<Longrightarrow> inv t"
  by (induction rule: rtranclp_induct) (auto intro: step_inv)

lemma reachable_inv: "init s \<Longrightarrow> step\<^sup>*\<^sup>* s t \<Longrightarrow> inv t"
  by (auto intro: steps_inv init_inv)

end

section \<open>List and option lemmas shared by the components\<close>

lemma map_filter_append: "List.map_filter f (xs @ ys) = List.map_filter f xs @ List.map_filter f ys"
  by (induction xs) (auto simp: map_filter_simps split: option.splits)

lemma option_else_Some_iff:
  "(case a of None \<Rightarrow> b | Some i \<Rightarrow> Some i) = Some x \<longleftrightarrow> a = Some x \<or> (a = None \<and> b = Some x)"
  by (cases a) auto

lemma option_else_None_iff:
  "(case a of None \<Rightarrow> b | Some i \<Rightarrow> Some i) = None \<longleftrightarrow> a = None \<and> b = None"
  by (cases a) auto

lemma count_filter_le [simp]: "length (filter P xs) \<le> length xs"
  by (rule length_filter_le)

lemma filter_dropWhile_count:
  "length (filter P xs) =
     length (filter P (takeWhile Q xs)) + length (filter P (dropWhile Q xs))"
  by (metis filter_append length_append takeWhile_dropWhile_id)

end
