(* ===== verification/Float64.thy ===== *)
theory Float64
  imports Prelude
begin

text \<open>
  The part of IEEE-754 binary64 arithmetic the sources use on token counts: products and
  quotients rounded to nearest, ceilings, and the saturating casts back to integers.
\<close>

section \<open>Floating-point operations\<close>

text \<open>
  Rounding of a non-negative rational to a 53-bit significand, ties to even. Exponents are not
  bounded: the sources cast the products to integers at once, where a result too small or too
  large for a \<open>f64\<close> gives the same value as the exact one.
\<close>

fun floor_log2 :: "nat \<Rightarrow> nat" where
  "floor_log2 n = (if n < 2 then 0 else Suc (floor_log2 (n div 2)))"

declare floor_log2.simps [simp del]

definition f64_round_pos :: "nat \<Rightarrow> nat \<Rightarrow> rat" where
  "f64_round_pos n d =
     (if n = 0 then 0
      else if n < d then f64_ratio n d
      else
        let l = floor_log2 (n div d)
        in if l \<le> 52 then of_nat (round_half_even (n * 2 ^ (52 - l)) d) / 2 ^ (52 - l)
           else of_nat (round_half_even n (d * 2 ^ (l - 52)) * 2 ^ (l - 52)))"

definition f64_round :: "rat \<Rightarrow> rat" where
  "f64_round x =
     (let (n, d) = quotient_of x
      in if n < 0 then - f64_round_pos (nat (- n)) (nat d) else f64_round_pos (nat n) (nat d))"

fun f64_mul :: "f64 \<Rightarrow> f64 \<Rightarrow> f64" where
  "f64_mul NaN _ = NaN"
| "f64_mul _ NaN = NaN"
| "f64_mul (Fin x) (Fin y) = Fin (f64_round (x * y))"
| "f64_mul (Fin x) PosInf = (if x = 0 then NaN else if x < 0 then NegInf else PosInf)"
| "f64_mul (Fin x) NegInf = (if x = 0 then NaN else if x < 0 then PosInf else NegInf)"
| "f64_mul PosInf (Fin y) = (if y = 0 then NaN else if y < 0 then NegInf else PosInf)"
| "f64_mul NegInf (Fin y) = (if y = 0 then NaN else if y < 0 then PosInf else NegInf)"
| "f64_mul PosInf PosInf = PosInf"
| "f64_mul NegInf NegInf = PosInf"
| "f64_mul PosInf NegInf = NegInf"
| "f64_mul NegInf PosInf = NegInf"

text \<open>\<open>as\<close> casts from \<open>f64\<close> saturate and send NaN to 0.\<close>

definition f64_as_nat :: "nat \<Rightarrow> f64 \<Rightarrow> nat" where
  "f64_as_nat bound x = (case x of
     NaN \<Rightarrow> 0 | NegInf \<Rightarrow> 0 | PosInf \<Rightarrow> bound
   | Fin r \<Rightarrow> if r \<le> 0 then 0 else min bound (nat \<lfloor>r\<rfloor>))"

definition f64_ceil :: "f64 \<Rightarrow> f64" where
  "f64_ceil x = (case x of Fin r \<Rightarrow> Fin (of_int \<lceil>r\<rceil>) | _ \<Rightarrow> x)"

section \<open>Lemmas\<close>

lemma floor_log2_le: "0 < q \<Longrightarrow> q < 2 ^ k \<Longrightarrow> floor_log2 q < k"
proof (induction q arbitrary: k rule: floor_log2.induct)
  case (1 n)
  show ?case
  proof (cases "n < 2")
    case True
    then show ?thesis using 1(2,3) by (cases k) (auto simp: floor_log2.simps [of n])
  next
    case False
    then obtain j where k: "k = Suc j" using 1(3) by (cases k) auto
    have "n div 2 < 2 ^ j" using 1(3) k by (simp add: div_less_iff_less_mult)
    then have "floor_log2 (n div 2) < j" using 1(1) False by auto
    then show ?thesis using False k by (simp add: floor_log2.simps [of n])
  qed
qed

lemma f64_round_pos_le:
  assumes "0 < d" "n \<le> m * d" "0 < m" "m < 2 ^ 52"
  shows "f64_round_pos n d \<le> of_nat m"
proof (cases "n < d")
  case True
  then have "f64_ratio n d \<le> 1" using f64_ratio_bounds(2) assms(1) by simp
  also have "1 \<le> (of_nat m :: rat)" using assms(3) by (simp add: Suc_leI)
  finally show ?thesis using True by (simp add: f64_round_pos_def)
next
  case False
  let ?q = "n div d" and ?l = "floor_log2 (n div d)"
  have "?q \<le> m" using assms(1,2) by (metis div_le_mono div_mult_self_is_m)
  moreover have "0 < ?q" using False assms(1) by (simp add: div_greater_zero_iff)
  ultimately have l: "?l \<le> 52" using floor_log2_le [of ?q 52] assms(4) by simp
  have "round_half_even (n * 2 ^ (52 - ?l)) d \<le> m * 2 ^ (52 - ?l)"
    using assms(1,2) by (intro round_half_even_le) (auto simp: mult.assoc mult.commute [of d])
  then have "(of_nat (round_half_even (n * 2 ^ (52 - ?l)) d) :: rat) \<le> of_nat (m * 2 ^ (52 - ?l))"
    by (rule of_nat_mono)
  then show ?thesis using False l assms(1)
    by (simp add: f64_round_pos_def Let_def divide_le_eq)
qed

lemma f64_round_le:
  assumes "0 \<le> x" "x \<le> of_nat m" "0 < m" "m < 2 ^ 52"
  shows "f64_round x \<le> of_nat m"
proof -
  obtain n d where q: "quotient_of x = (n, d)" by fastforce
  have x: "x = of_int n / of_int d" by (rule quotient_of_div [OF q])
  have d: "0 < d" by (rule quotient_of_denom_pos [OF q])
  have n: "0 \<le> n" using assms(1) d by (simp add: x zero_le_divide_iff)
  have "of_int n \<le> (of_nat m * of_int d :: rat)" using assms(2) d by (simp add: x divide_le_eq)
  then have "n \<le> int m * d" by (metis of_int_le_iff of_int_mult of_int_of_nat_eq)
  then have "nat n \<le> m * nat d" using d by (simp add: nat_le_iff nat_mult_distrib)
  then show ?thesis using n d f64_round_pos_le [OF _ _ assms(3,4)] by (simp add: f64_round_def q)
qed

end
