(* ===== verification/Rust_Strings.thy ===== *)
theory Rust_Strings
  imports Prelude
begin

text \<open>
  The operations of Rust's \<open>str\<close> the sources use. A string is the list of its Unicode scalar
  values; \<open>lit\<close> turns an ASCII literal into one. Lengths in the sources that count bytes are
  \<open>utf8_len\<close>.
\<close>

type_synonym rchar = nat
type_synonym rstring = "nat list"

definition lit :: "string \<Rightarrow> rstring" where
  "lit s = map of_char s"

abbreviation nl :: rchar where "nl \<equiv> 10"
abbreviation cr :: rchar where "cr \<equiv> 13"
abbreviation sq :: rchar where "sq \<equiv> 39"
abbreviation dq :: rchar where "dq \<equiv> 34"

definition char_utf8_len :: "rchar \<Rightarrow> nat" where
  "char_utf8_len c = (if c < 128 then 1 else if c < 2048 then 2 else if c < 65536 then 3 else 4)"

definition utf8_len :: "rstring \<Rightarrow> nat" where
  "utf8_len s = sum_list (map char_utf8_len s)"

text \<open>\<open>char::is_whitespace\<close>: the Unicode property \<open>White_Space\<close>.\<close>

definition is_whitespace :: "rchar \<Rightarrow> bool" where
  "is_whitespace c \<longleftrightarrow>
     (9 \<le> c \<and> c \<le> 13) \<or> c = 32 \<or> c = 133 \<or> c = 160 \<or> c = 5760 \<or> (8192 \<le> c \<and> c \<le> 8202)
     \<or> c = 8232 \<or> c = 8233 \<or> c = 8239 \<or> c = 8287 \<or> c = 12288"

definition trim_start :: "rstring \<Rightarrow> rstring" where
  "trim_start s = dropWhile is_whitespace s"

definition trim_end :: "rstring \<Rightarrow> rstring" where
  "trim_end s = rev (dropWhile is_whitespace (rev s))"

definition trim :: "rstring \<Rightarrow> rstring" where
  "trim s = trim_end (trim_start s)"

definition starts_with :: "rstring \<Rightarrow> rstring \<Rightarrow> bool" where
  "starts_with s p \<longleftrightarrow> take (length p) s = p"

definition ends_with :: "rstring \<Rightarrow> rstring \<Rightarrow> bool" where
  "ends_with s p \<longleftrightarrow> starts_with (rev s) (rev p)"

definition strip_prefix :: "rstring \<Rightarrow> rstring \<Rightarrow> rstring option" where
  "strip_prefix p s = (if starts_with s p then Some (drop (length p) s) else None)"

text \<open>\<open>s.split(c)\<close>: always at least one piece.\<close>

fun split_on :: "rchar \<Rightarrow> rstring \<Rightarrow> rstring list" where
  "split_on c [] = [[]]"
| "split_on c (x # xs) =
     (if x = c then [] # split_on c xs
      else case split_on c xs of [] \<Rightarrow> [[x]] | y # ys \<Rightarrow> (x # y) # ys)"

text \<open>\<open>s.split_inclusive('\n')\<close>: the terminator stays with its piece, no empty last piece.\<close>

fun split_inclusive :: "rstring \<Rightarrow> rstring list" where
  "split_inclusive [] = []"
| "split_inclusive (x # xs) =
     (if x = nl then [x] # split_inclusive xs
      else case split_inclusive xs of [] \<Rightarrow> [[x]] | y # ys \<Rightarrow> (x # y) # ys)"

text \<open>\<open>str::lines\<close>: a line ends at a line feed, or a carriage return and a line feed.\<close>

definition strip_line_end :: "rstring \<Rightarrow> rstring" where
  "strip_line_end l =
     (if l \<noteq> [] \<and> last l = nl then
        let l' = butlast l in if l' \<noteq> [] \<and> last l' = cr then butlast l' else l'
      else l)"

definition lines :: "rstring \<Rightarrow> rstring list" where
  "lines s = map strip_line_end (split_inclusive s)"

fun join :: "rstring \<Rightarrow> rstring list \<Rightarrow> rstring" where
  "join sep [] = []"
| "join sep [x] = x"
| "join sep (x # y # ys) = x @ sep @ join sep (y # ys)"

text \<open>\<open>str::parse\<close> for unsigned integers below \<open>bound\<close>: an optional plus sign and decimal digits.\<close>

definition is_digit :: "rchar \<Rightarrow> bool" where
  "is_digit c \<longleftrightarrow> 48 \<le> c \<and> c \<le> 57"

definition digits_value :: "rstring \<Rightarrow> nat" where
  "digits_value ds = foldl (\<lambda>acc d. 10 * acc + (d - 48)) 0 ds"

definition parse_unsigned :: "nat \<Rightarrow> rstring \<Rightarrow> nat option" where
  "parse_unsigned bound s =
     (let ds = (case s of c # cs \<Rightarrow> if c = 43 then cs else s | [] \<Rightarrow> [])
      in if ds \<noteq> [] \<and> list_all is_digit ds \<and> digits_value ds < bound
         then Some (digits_value ds) else None)"

text \<open>\<open>str::split_once\<close> with a character and with a string pattern, \<open>str::splitn\<close>, the
  bytes of a string in UTF-8, and the decimal rendering of an unsigned integer.\<close>

fun split_once :: "rchar \<Rightarrow> rstring \<Rightarrow> (rstring \<times> rstring) option" where
  "split_once c [] = None"
| "split_once c (x # xs) =
     (if x = c then Some ([], xs)
      else map_option (\<lambda>(a, b). (x # a, b)) (split_once c xs))"

fun split_once_str :: "rstring \<Rightarrow> rstring \<Rightarrow> (rstring \<times> rstring) option" where
  "split_once_str p [] = (if p = [] then Some ([], []) else None)"
| "split_once_str p (x # xs) =
     (if starts_with (x # xs) p then Some ([], drop (length p) (x # xs))
      else map_option (\<lambda>(a, b). (x # a, b)) (split_once_str p xs))"

fun splitn :: "nat \<Rightarrow> rchar \<Rightarrow> rstring \<Rightarrow> rstring list" where
  "splitn 0 c s = []"
| "splitn (Suc 0) c s = [s]"
| "splitn (Suc (Suc n)) c s =
     (case split_once c s of None \<Rightarrow> [s] | Some (a, b) \<Rightarrow> a # splitn (Suc n) c b)"

definition utf8_char :: "rchar \<Rightarrow> u8 list" where
  "utf8_char c =
     (if c < 128 then [of_nat c]
      else if c < 2048 then [of_nat (192 + c div 64), of_nat (128 + c mod 64)]
      else if c < 65536 then
        [of_nat (224 + c div 4096), of_nat (128 + c div 64 mod 64), of_nat (128 + c mod 64)]
      else [of_nat (240 + c div 262144), of_nat (128 + c div 4096 mod 64),
            of_nat (128 + c div 64 mod 64), of_nat (128 + c mod 64)])"

definition utf8_bytes :: "rstring \<Rightarrow> u8 list" where
  "utf8_bytes s = concat (map utf8_char s)"

fun dec :: "nat \<Rightarrow> rstring" where
  "dec n = (if n < 10 then [48 + n] else dec (n div 10) @ [48 + n mod 10])"

declare dec.simps [simp del]

text \<open>Slices: \<open>get\<close> with an index and with a range.\<close>

definition vec_get :: "'a list \<Rightarrow> nat \<Rightarrow> 'a option" where
  "vec_get xs i = (if i < length xs then Some (xs ! i) else None)"

definition vec_range :: "'a list \<Rightarrow> nat \<Rightarrow> nat \<Rightarrow> 'a list option" where
  "vec_range xs a b = (if a \<le> b \<and> b \<le> length xs then Some (take (b - a) (drop a xs)) else None)"

section \<open>Lemmas\<close>

lemma lit_simps [simp]: "lit [] = []" "lit (c # cs) = of_char c # lit cs" "length (lit s) = length s"
  by (simp_all add: lit_def)

lemma starts_with_append [simp]: "starts_with (p @ s) p"
  by (simp add: starts_with_def)

lemma starts_with_Nil [simp]: "starts_with s []"
  by (simp add: starts_with_def)

lemma starts_with_Cons [simp]:
  "starts_with s (c # p) \<longleftrightarrow> (\<exists>s'. s = c # s' \<and> starts_with s' p)"
  by (cases s) (auto simp: starts_with_def)

lemma strip_prefix_append [simp]: "strip_prefix p (p @ s) = Some s"
  by (simp add: strip_prefix_def)

lemma strip_prefix_Some_iff: "strip_prefix p s = Some r \<longleftrightarrow> s = p @ r"
  by (auto simp: strip_prefix_def starts_with_def) (metis append_take_drop_id)

lemma split_on_nonempty [simp]: "split_on c s \<noteq> []"
  by (induction s) (auto split: list.splits)

lemma join_split_on [simp]: "join [c] (split_on c s) = s"
proof (induction s)
  case (Cons x xs)
  then show ?case
    by (cases "split_on c xs"; cases "tl (split_on c xs)")
      (auto split: list.splits simp: neq_Nil_conv)
qed simp

lemma join_Cons: "xs \<noteq> [] \<Longrightarrow> join sep (x # xs) = x @ sep @ join sep xs"
  by (cases xs) auto

lemma split_on_append_sep: "c \<notin> set l \<Longrightarrow> split_on c (l @ c # s) = l # split_on c s"
  by (induction l) auto

lemma split_on_no_sep: "c \<notin> set l \<Longrightarrow> split_on c l = [l]"
  by (induction l) auto

lemma split_on_join:
  "ls \<noteq> [] \<Longrightarrow> \<forall>l \<in> set ls. c \<notin> set l \<Longrightarrow> split_on c (join [c] ls) = ls"
proof (induction ls)
  case (Cons l ls)
  then show ?case
    by (cases "ls = []") (auto simp: join_Cons split_on_append_sep split_on_no_sep)
qed simp

lemma split_on_elem_no_sep: "l \<in> set (split_on c s) \<Longrightarrow> c \<notin> set l"
  by (induction s arbitrary: l) (auto split: if_splits list.splits)

lemma split_inclusive_line:
  "nl \<notin> set l \<Longrightarrow> split_inclusive (l @ nl # s) = (l @ [nl]) # split_inclusive s"
  by (induction l) auto

lemma split_inclusive_last: "l \<noteq> [] \<Longrightarrow> nl \<notin> set l \<Longrightarrow> split_inclusive l = [l]"
proof (induction l)
  case (Cons x l)
  then show ?case by (cases l) auto
qed simp

text \<open>Text lines: what \<open>lines\<close> gives back from a joined text.\<close>

definition text_line :: "rstring \<Rightarrow> bool" where
  "text_line l \<longleftrightarrow> nl \<notin> set l \<and> (l = [] \<or> last l \<noteq> cr)"

lemma strip_line_end_line: "text_line l \<Longrightarrow> strip_line_end (l @ [nl]) = l"
  by (auto simp: strip_line_end_def text_line_def)

lemma strip_line_end_id: "nl \<notin> set l \<Longrightarrow> strip_line_end l = l"
  using last_in_set by (fastforce simp: strip_line_end_def)

lemma lines_join:
  assumes "\<forall>l \<in> set ls. text_line l" "ls \<noteq> []" "last ls \<noteq> []"
  shows "lines (join [nl] ls) = ls"
  using assms
proof (induction ls)
  case (Cons l ls)
  show ?case
  proof (cases "ls = []")
    case True
    with Cons.prems show ?thesis
      by (simp add: lines_def split_inclusive_last strip_line_end_id text_line_def)
  next
    case False
    then have "lines (join [nl] (l # ls)) = l # lines (join [nl] ls)"
      using Cons.prems
      by (simp add: join_Cons lines_def split_inclusive_line strip_line_end_line text_line_def)
    then show ?thesis using Cons False by simp
  qed
qed simp

lemma trim_id:
  assumes "s \<noteq> []" "\<not> is_whitespace (hd s)" "\<not> is_whitespace (last s)"
  shows "trim s = s"
proof -
  have "trim_start s = s" using assms by (cases s) (auto simp: trim_start_def)
  moreover have "trim_end s = s"
    using assms by (cases s rule: rev_cases) (auto simp: trim_end_def)
  ultimately show ?thesis by (simp add: trim_def)
qed

lemma trim_end_idem [simp]: "trim_end (trim_end s) = trim_end s"
  by (simp add: trim_end_def)

lemma trim_start_ws [simp]: "list_all is_whitespace w \<Longrightarrow> trim_start (w @ s) = trim_start s"
  by (simp add: trim_start_def dropWhile_append2 list_all_iff)

lemma trim_end_ws [simp]: "list_all is_whitespace w \<Longrightarrow> trim_end (s @ w) = trim_end s"
  by (auto simp: trim_end_def list_all_iff intro!: dropWhile_append2)

lemma trim_surround:
  assumes "list_all is_whitespace pre" "list_all is_whitespace post"
  shows "trim (pre @ s @ post) = trim s"
proof (cases "list_all is_whitespace s")
  case True
  then have "trim_start (s @ post) = []" "trim_start s = []"
    using assms by (simp_all add: trim_start_def list_all_iff)
  then show ?thesis using assms by (simp add: trim_def)
next
  case False
  then have "trim_start (s @ post) = trim_start s @ post"
    by (auto simp: trim_start_def list_all_iff dropWhile_append1)
  then show ?thesis using assms by (simp add: trim_def)
qed

lemma trim_inner:
  assumes "\<not> list_all is_whitespace a" "\<not> list_all is_whitespace b"
  shows "trim (a @ v @ b) = trim_start a @ v @ trim_end b"
proof -
  have "trim_start (a @ v @ b) = trim_start a @ v @ b"
    using assms by (auto simp: trim_start_def list_all_iff dropWhile_append1)
  moreover have "trim_end ((trim_start a @ v) @ b) = (trim_start a @ v) @ trim_end b"
    using assms by (auto simp: trim_end_def list_all_iff dropWhile_append1)
  ultimately show ?thesis by (simp add: trim_def)
qed

lemma utf8_bytes_simps [simp]:
  "utf8_bytes [] = []" "utf8_bytes (c # s) = utf8_char c @ utf8_bytes s"
  "utf8_bytes (s @ t) = utf8_bytes s @ utf8_bytes t"
  by (simp_all add: utf8_bytes_def)

lemma split_once_append [simp]: "c \<notin> set a \<Longrightarrow> split_once c (a @ c # b) = Some (a, b)"
  by (induction a) auto

lemma split_once_None [simp]: "split_once c s = None \<longleftrightarrow> c \<notin> set s"
  by (induction s) auto

lemma split_once_SomeD: "split_once c s = Some (a, b) \<Longrightarrow> s = a @ c # b \<and> c \<notin> set a"
  by (induction s arbitrary: a) (auto split: if_splits)

lemma digits_value_snoc: "digits_value (ds @ [d]) = 10 * digits_value ds + (d - 48)"
  by (simp add: digits_value_def)

lemma dec_digits: "list_all is_digit (dec n) \<and> dec n \<noteq> [] \<and> digits_value (dec n) = n"
proof (induction n rule: dec.induct)
  case (1 n)
  show ?case
  proof (cases "n < 10")
    case True
    then show ?thesis by (subst (1 2 3) dec.simps) (simp add: is_digit_def digits_value_def)
  next
    case False
    then have "dec n = dec (n div 10) @ [48 + n mod 10]"
      by (subst dec.simps) simp
    moreover have "n mod 10 < 10" by simp
    ultimately show ?thesis
      using 1 False by (simp add: digits_value_snoc is_digit_def)
  qed
qed

lemma dec_set: "c \<in> set (dec n) \<Longrightarrow> 48 \<le> c \<and> c \<le> 57"
  using dec_digits [of n] by (auto simp: list_all_iff is_digit_def)

lemma dec_nonempty [simp]: "dec n \<noteq> []"
  using dec_digits by blast

lemma parse_unsigned_dec [simp]: "n < bound \<Longrightarrow> parse_unsigned bound (dec n) = Some n"
proof -
  assume n: "n < bound"
  obtain c cs where d: "dec n = c # cs" by (meson dec_nonempty neq_Nil_conv)
  have "c \<noteq> 43" using dec_set [of c n] d by auto
  with d n dec_digits [of n] show ?thesis by (simp add: parse_unsigned_def)
qed

lemma dec_inject [simp]: "dec m = dec n \<longleftrightarrow> m = n"
  by (metis dec_digits)

lemma vec_range_all [simp]: "vec_range xs 0 (length xs) = Some xs"
  by (simp add: vec_range_def)

end
