(* ===== verification/Json_Codec.thy ===== *)
theory Json_Codec
  imports Float64 Rust_Strings "HOL-Library.Monad_Syntax"
begin

text \<open>
  Values of the wire format and the rules by which \<open>serde\<close> reads and writes the fields of a struct:
  required fields, \<open>Option\<close> fields (a missing key and \<open>null\<close> are both \<open>None\<close>), \<open>default\<close> fields,
  the \<open>skip_serializing_if\<close> attributes used by the sources, and enums tagged by a \<open>type\<close> key. Unknown
  keys are ignored and a repeated key is an error. Keys are the bytes of their text. The text of a
  number or a string is the business of \<open>serde_json\<close> and is not modelled.
\<close>

datatype json =
    JNull
  | JBool bool
  | JInt int
  | JFloat f64
  | JStr rstring
  | JArr "json list"
  | JObj "(string \<times> json) list"

type_synonym fields = "(string \<times> json) list"

section \<open>Reading fields\<close>

definition entries :: "string \<Rightarrow> fields \<Rightarrow> json list" where
  "entries k kvs = map snd (filter (\<lambda>e. fst e = k) kvs)"

fun required :: "(json \<Rightarrow> 'a option) \<Rightarrow> json list \<Rightarrow> 'a option" where
  "required rd [v] = rd v"
| "required rd _ = None"

fun optional :: "(json \<Rightarrow> 'a option) \<Rightarrow> json list \<Rightarrow> 'a option option" where
  "optional rd [] = Some None"
| "optional rd [v] = (if v = JNull then Some None else map_option Some (rd v))"
| "optional rd _ = None"

fun defaulted :: "'a \<Rightarrow> (json \<Rightarrow> 'a option) \<Rightarrow> json list \<Rightarrow> 'a option" where
  "defaulted d rd [] = Some d"
| "defaulted d rd [v] = rd v"
| "defaulted d rd _ = None"

fun dec_list :: "(json \<Rightarrow> 'a option) \<Rightarrow> json \<Rightarrow> 'a list option" where
  "dec_list rd (JArr vs) = those (map rd vs)"
| "dec_list rd _ = None"

fun dec_struct :: "(fields \<Rightarrow> 'a option) \<Rightarrow> json \<Rightarrow> 'a option" where
  "dec_struct f (JObj kvs) = f kvs"
| "dec_struct f _ = None"

text \<open>An internally tagged enum: the tag selects the reader of the other fields.\<close>

definition dec_tagged :: "(string \<times> (fields \<Rightarrow> 'a option)) list \<Rightarrow> json \<Rightarrow> 'a option" where
  "dec_tagged table = dec_struct (\<lambda>kvs.
     case entries ''type'' kvs of
       [JStr t] \<Rightarrow> (case find (\<lambda>e. lit (fst e) = t) table of Some e \<Rightarrow> snd e kvs | None \<Rightarrow> None)
     | _ \<Rightarrow> None)"

section \<open>Writing fields\<close>

fun enc_option :: "('a \<Rightarrow> json) \<Rightarrow> 'a option \<Rightarrow> json" where
  "enc_option enc None = JNull"
| "enc_option enc (Some x) = enc x"

definition enc_list :: "('a \<Rightarrow> json) \<Rightarrow> 'a list \<Rightarrow> json" where
  "enc_list enc xs = JArr (map enc xs)"

definition enc_tagged :: "string \<Rightarrow> fields \<Rightarrow> json" where
  "enc_tagged tag kvs = JObj ((''type'', JStr (lit tag)) # kvs)"

fun list_of_option :: "'a option \<Rightarrow> 'a list" where
  "list_of_option None = []"
| "list_of_option (Some x) = [x]"

text \<open>\<open>skip_serializing_if\<close> with \<open>Option::is_none\<close>, \<open>Not::not\<close> and \<open>Vec::is_empty\<close>.\<close>

definition skip_none :: "('a \<Rightarrow> json) \<Rightarrow> string \<Rightarrow> 'a option \<Rightarrow> fields" where
  "skip_none enc k v = map (\<lambda>x. (k, enc x)) (list_of_option v)"

definition skip_false :: "string \<Rightarrow> bool \<Rightarrow> fields" where
  "skip_false k b = (if b then [(k, JBool b)] else [])"

definition skip_empty :: "('a \<Rightarrow> json) \<Rightarrow> string \<Rightarrow> 'a list \<Rightarrow> fields" where
  "skip_empty enc k xs = (if xs = [] then [] else [(k, enc_list enc xs)])"

section \<open>Codecs\<close>

text \<open>
  What one type promises to the structs that hold it: reading what was written gives the value back,
  and nothing that is written is \<open>null\<close>, which an \<open>Option\<close> would take for \<open>None\<close>.
\<close>

locale codec =
  fixes enc :: "'a \<Rightarrow> json"
    and rd :: "json \<Rightarrow> 'a option"
    and ok :: "'a \<Rightarrow> bool"
  assumes dec_enc: "ok x \<Longrightarrow> rd (enc x) = Some x"
    and enc_not_null: "ok x \<Longrightarrow> enc x \<noteq> JNull"
begin

lemma required_enc: "ok x \<Longrightarrow> required rd [enc x] = Some x"
  by (simp add: dec_enc)

lemma optional_enc: "pred_option ok v \<Longrightarrow> optional rd [enc_option enc v] = Some v"
  by (cases v) (simp_all add: dec_enc enc_not_null)

lemma optional_skip: "pred_option ok v \<Longrightarrow> optional rd (map enc (list_of_option v)) = Some v"
  by (cases v) (simp_all add: dec_enc enc_not_null)

lemma those_enc: "list_all ok xs \<Longrightarrow> those (map rd (map enc xs)) = Some xs"
  by (induction xs) (simp_all add: dec_enc)

lemma list_enc: "list_all ok xs \<Longrightarrow> dec_list rd (enc_list enc xs) = Some xs"
  using those_enc by (simp add: enc_list_def)

lemma defaulted_skip_empty:
  "list_all ok xs \<Longrightarrow> defaulted [] (dec_list rd) (if xs = [] then [] else [enc_list enc xs]) = Some xs"
  by (simp add: list_enc)

lemma required_list: "list_all ok xs \<Longrightarrow> required (dec_list rd) [enc_list enc xs] = Some xs"
  by (simp add: list_enc)

end

text \<open>A field is found among the fields written before and after it.\<close>

lemma entries_simps [simp]:
  "entries k [] = []"
  "entries k ((k', v) # kvs) = (if k' = k then v # entries k kvs else entries k kvs)"
  "entries k (kvs @ kvs') = entries k kvs @ entries k kvs'"
  "entries k (skip_none enc k' o') = (if k' = k then map enc (list_of_option o') else [])"
  "entries k (skip_false k' b) = (if k' = k then (if b then [JBool b] else []) else [])"
  "entries k (skip_empty enc' k' xs) = (if k' = k then (if xs = [] then [] else [enc_list enc' xs]) else [])"
  by (simp_all add: entries_def skip_none_def skip_false_def skip_empty_def filter_map comp_def)

lemma dec_enc_tagged:
  "dec_tagged table (enc_tagged tag kvs) =
     (case find (\<lambda>e. lit (fst e) = lit tag) table of Some e \<Rightarrow> snd e ((''type'', JStr (lit tag)) # kvs) | None \<Rightarrow> None)"
  if "entries ''type'' kvs = []"
  using that by (simp add: dec_tagged_def enc_tagged_def split: option.splits del: lit_simps)

section \<open>Scalars\<close>

fun enc_bool :: "bool \<Rightarrow> json" where "enc_bool b = JBool b"

fun dec_bool :: "json \<Rightarrow> bool option" where
  "dec_bool (JBool b) = Some b"
| "dec_bool _ = None"

fun dec_str :: "json \<Rightarrow> rstring option" where
  "dec_str (JStr s) = Some s"
| "dec_str _ = None"

definition enc_uint :: "'w :: len word \<Rightarrow> json" where
  "enc_uint w = JInt (uint w)"

fun dec_uint :: "json \<Rightarrow> 'w :: len word option" where
  "dec_uint (JInt n) = (if 0 \<le> n \<and> n < 2 ^ LENGTH('w) then Some (word_of_int n) else None)"
| "dec_uint _ = None"

definition i64_ok :: "int \<Rightarrow> bool" where
  "i64_ok n \<longleftrightarrow> - (2 ^ 63) \<le> n \<and> n < 2 ^ 63"

fun dec_i64 :: "json \<Rightarrow> int option" where
  "dec_i64 (JInt n) = (if i64_ok n then Some n else None)"
| "dec_i64 _ = None"

text \<open>A float that is not finite is written as \<open>null\<close>; an integer is read as a float.\<close>

definition f64_finite :: "f64 \<Rightarrow> bool" where
  "f64_finite x \<longleftrightarrow> (case x of Fin _ \<Rightarrow> True | _ \<Rightarrow> False)"

definition enc_f64 :: "f64 \<Rightarrow> json" where
  "enc_f64 x = (if f64_finite x then JFloat x else JNull)"

fun dec_f64 :: "json \<Rightarrow> f64 option" where
  "dec_f64 (JFloat x) = Some x"
| "dec_f64 (JInt n) = Some (Fin (f64_round (of_int n)))"
| "dec_f64 _ = None"

text \<open>An enum of unit variants is written as the name of the variant.\<close>

definition enc_name :: "('a \<Rightarrow> string) \<Rightarrow> 'a \<Rightarrow> json" where
  "enc_name name x = JStr (lit (name x))"

definition dec_name :: "('a \<Rightarrow> string) \<Rightarrow> 'a list \<Rightarrow> json \<Rightarrow> 'a option" where
  "dec_name name variants v = (case v of JStr s \<Rightarrow> find (\<lambda>x. lit (name x) = s) variants | _ \<Rightarrow> None)"

abbreviation any :: "'a \<Rightarrow> bool" where "any \<equiv> \<lambda>_. True"

interpretation cbool: codec JBool dec_bool any
  by unfold_locales simp_all

interpretation cstr: codec JStr dec_str any
  by unfold_locales simp_all

interpretation cuint: codec enc_uint dec_uint any
  by unfold_locales (simp_all add: enc_uint_def unsigned_less uint_lt2p)

interpretation ci64: codec JInt dec_i64 i64_ok
  by unfold_locales simp_all

interpretation cf64: codec enc_f64 dec_f64 f64_finite
  by unfold_locales (simp_all add: enc_f64_def)

lemma lit_inject [simp]: "lit s = lit t \<longleftrightarrow> s = t"
  by (simp add: lit_def inj_map_eq_map [OF inj_of_char])

lemma dec_enc_name:
  assumes "x \<in> set variants" "inj_on name (set variants)"
  shows "dec_name name variants (enc_name name x) = Some x"
proof -
  have "find (\<lambda>y. lit (name y) = lit (name x)) variants = Some x"
    using assms by (induction variants) (auto dest: inj_onD)
  then show ?thesis by (simp add: dec_name_def enc_name_def)
qed

lemma defaulted_skip_false: "defaulted False dec_bool (if b then [JBool b] else []) = Some b"
  by simp

lemma required_names:
  "dec_name name variants (enc_name name x) = Some x \<Longrightarrow> required (dec_name name variants) [enc_name name x] = Some x"
  by simp

lemma pred_option_any [simp]: "pred_option any v" "list_all any xs"
  by (simp_all add: pred_option_def list_all_iff)

declare required.simps [simp del] optional.simps [simp del] defaulted.simps [simp del]

lemmas field_rules =
  cbool.required_enc cbool.optional_enc cbool.optional_skip
  cstr.required_enc cstr.optional_enc cstr.optional_skip cstr.required_list cstr.defaulted_skip_empty
  cuint.required_enc cuint.optional_enc cuint.optional_skip
  ci64.optional_skip cf64.optional_skip defaulted_skip_false

end
