(* ===== verification/Text_Search.thy ===== *)
theory Text_Search
  imports Rust_Strings
begin

text \<open>
  Searching in strings: \<open>str::find\<close>, \<open>contains\<close>, \<open>split\<close> and \<open>matches\<close> with a string pattern
  and \<open>to_ascii_lowercase\<close>. The sources only search for non-empty ASCII patterns and cut at the
  positions found, so that positions may count characters instead of bytes.
\<close>

section \<open>Definitions\<close>

fun find_str :: "rstring \<Rightarrow> rstring \<Rightarrow> nat option" where
  "find_str p [] = (if p = [] then Some 0 else None)"
| "find_str p (x # xs) =
     (if starts_with (x # xs) p then Some 0 else map_option Suc (find_str p xs))"

definition contains_str :: "rstring \<Rightarrow> rstring \<Rightarrow> bool" where
  "contains_str s p \<longleftrightarrow> find_str p s \<noteq> None"

function split_str :: "rstring \<Rightarrow> rstring \<Rightarrow> rstring list" where
  "split_str p s =
     (case find_str p s of
        None \<Rightarrow> [s]
      | Some i \<Rightarrow> if p = [] then [s] else take i s # split_str p (drop (i + length p) s))"
  by pat_completeness auto
termination
proof (relation "measure (\<lambda>(p, s). length s)")
  fix p s :: rstring and i
  assume "find_str p s = Some i" "p \<noteq> []"
  then have "s \<noteq> []" by (cases s) auto
  with \<open>p \<noteq> []\<close> show "((p, drop (i + length p) s), p, s) \<in> measure (\<lambda>(p, s). length s)" by simp
qed simp

declare split_str.simps [simp del]

text \<open>\<open>str::replace\<close> and \<open>str::rfind\<close>.\<close>

definition replace_str :: "rstring \<Rightarrow> rstring \<Rightarrow> rstring \<Rightarrow> rstring" where
  "replace_str p r s = join r (split_str p s)"

fun rfind_str :: "rstring \<Rightarrow> rstring \<Rightarrow> nat option" where
  "rfind_str p [] = (if p = [] then Some 0 else None)"
| "rfind_str p (x # xs) =
     (case rfind_str p xs of
        Some i \<Rightarrow> Some (Suc i)
      | None \<Rightarrow> if starts_with (x # xs) p then Some 0 else None)"

definition matches_count :: "rstring \<Rightarrow> rstring \<Rightarrow> nat" where
  "matches_count p s = length (split_str p s) - 1"

definition to_ascii_lowercase :: "rstring \<Rightarrow> rstring" where
  "to_ascii_lowercase s = map (\<lambda>c. if 65 \<le> c \<and> c \<le> 90 then c + 32 else c) s"

section \<open>Lemmas\<close>

text \<open>An occurrence of a pattern at a position.\<close>

definition occurs :: "rstring \<Rightarrow> rstring \<Rightarrow> nat \<Rightarrow> bool" where
  "occurs p s i \<longleftrightarrow> i \<le> length s \<and> starts_with (drop i s) p"

lemma occurs_0_Cons: "occurs p (x # xs) 0 \<longleftrightarrow> starts_with (x # xs) p"
  by (simp add: occurs_def)

lemma occurs_Suc_Cons [simp]: "occurs p (x # xs) (Suc i) \<longleftrightarrow> occurs p xs i"
  by (simp add: occurs_def)

lemma occurs_Nil: "p \<noteq> [] \<Longrightarrow> \<not> occurs p [] i"
  by (simp add: occurs_def starts_with_def)

lemma find_str_None: "find_str p s = None \<longleftrightarrow> (\<forall>i. \<not> occurs p s i)"
proof (induction s)
  case Nil
  then show ?case by (auto simp: occurs_def starts_with_def)
next
  case (Cons x xs)
  show ?case
  proof
    assume n: "find_str p (x # xs) = None"
    show "\<forall>i. \<not> occurs p (x # xs) i"
    proof
      fix i
      show "\<not> occurs p (x # xs) i"
        using n Cons by (cases i) (auto simp: occurs_0_Cons split: if_splits)
    qed
  next
    assume a: "\<forall>i. \<not> occurs p (x # xs) i"
    then have "\<not> starts_with (x # xs) p" using occurs_0_Cons by blast
    moreover have "\<forall>i. \<not> occurs p xs i" using a occurs_Suc_Cons by blast
    ultimately show "find_str p (x # xs) = None" using Cons by simp
  qed
qed

lemma find_str_Some: "find_str p s = Some i \<longleftrightarrow> occurs p s i \<and> (\<forall>j < i. \<not> occurs p s j)"
proof (induction s arbitrary: i)
  case Nil
  then show ?case by (auto simp: occurs_def starts_with_def)
next
  case (Cons x xs)
  show ?case
  proof (cases "starts_with (x # xs) p")
    case True
    then have "occurs p (x # xs) 0" by (simp add: occurs_0_Cons)
    then show ?thesis using True by auto
  next
    case False
    then have "\<not> occurs p (x # xs) 0" by (simp add: occurs_0_Cons)
    then show ?thesis using False Cons.IH
      by (cases i) (auto simp: less_Suc_eq_0_disj)
  qed
qed

lemma contains_str_iff: "contains_str s p \<longleftrightarrow> (\<exists>i. occurs p s i)"
  by (simp add: contains_str_def find_str_None)

lemma starts_with_length: "starts_with s p \<Longrightarrow> length p \<le> length s"
  unfolding starts_with_def by (metis length_take min.cobounded1)

lemma occurs_length: "occurs p s i \<Longrightarrow> i + length p \<le> length s"
  using starts_with_length [of "drop i s" p] by (auto simp: occurs_def)

lemma starts_with_appendI: "starts_with s p \<Longrightarrow> starts_with (s @ t) p"
  using starts_with_length [of s p] by (simp add: starts_with_def)

lemma starts_with_append_long: "length p \<le> length s \<Longrightarrow> starts_with (s @ t) p \<longleftrightarrow> starts_with s p"
  by (simp add: starts_with_def)

lemma starts_with_stop: "starts_with (s @ c # t) p \<Longrightarrow> c \<notin> set p \<Longrightarrow> starts_with s p"
proof (induction p arbitrary: s)
  case (Cons a p)
  then show ?case by (cases s) auto
qed simp

lemma starts_with_stop_tl:
  "starts_with (s @ c # t) p \<Longrightarrow> s \<noteq> [] \<Longrightarrow> c \<notin> set (tl p) \<Longrightarrow> starts_with s p"
  by (cases s; cases p) (auto dest: starts_with_stop)

lemma occurs_middle: "occurs p v i \<Longrightarrow> occurs p (u @ v @ w) (length u + i)"
  by (auto simp: occurs_def intro: starts_with_appendI)

lemma occurs_append_right: "occurs p (u @ v) (length u + i) \<longleftrightarrow> occurs p v i"
  by (simp add: occurs_def)

lemma occurs_drop: "i \<le> length s \<Longrightarrow> occurs p (drop i s) j \<longleftrightarrow> occurs p s (i + j)"
  by (auto simp: occurs_def add.commute)

lemma occurs_append_left:
  "i + length p \<le> length u \<Longrightarrow> occurs p (u @ v) i \<longleftrightarrow> occurs p u i"
  by (auto simp: occurs_def starts_with_append_long)

lemma occurs_stop: "occurs p (u @ c # v) i \<Longrightarrow> c \<notin> set p \<Longrightarrow> p \<noteq> [] \<Longrightarrow>
    occurs p u i \<or> (\<exists>j. i = Suc (length u + j) \<and> occurs p v j)"
proof -
  assume a: "occurs p (u @ c # v) i" "c \<notin> set p" "p \<noteq> []"
  show ?thesis
  proof (cases "i \<le> length u")
    case True
    then have "starts_with (drop i u @ c # v) p" using a(1) by (simp add: occurs_def)
    then show ?thesis using True a(2) starts_with_stop by (auto simp: occurs_def)
  next
    case False
    then obtain j where "i = Suc (length u + j)" by (metis add_Suc_right less_imp_Suc_add not_le)
    moreover then have "occurs p v j" using a(1) by (simp add: occurs_def)
    ultimately show ?thesis by blast
  qed
qed

lemma occurs_hd: "occurs (a # p) s i \<Longrightarrow> i < length s \<and> s ! i = a"
  by (auto simp: occurs_def) (metis drop_eq_Nil hd_drop_conv_nth list.sel(1) not_less list.distinct(1))+

lemma trim_substring: "\<exists>u w. s = u @ trim s @ w \<and> list_all is_whitespace u \<and> list_all is_whitespace w"
proof -
  have start: "s = takeWhile is_whitespace s @ trim_start s" by (simp add: trim_start_def)
  have tail: "t = trim_end t @ rev (takeWhile is_whitespace (rev t))" for t
    by (metis rev_append rev_rev_ident takeWhile_dropWhile_id trim_end_def)
  have "s = takeWhile is_whitespace s @ trim s @ rev (takeWhile is_whitespace (rev (trim_start s)))"
    using start tail [of "trim_start s"] by (simp add: trim_def)
  then show ?thesis by (metis list_all_iff set_rev set_takeWhileD)
qed

lemma trim_ws [simp]: "list_all is_whitespace w \<Longrightarrow> trim w = []"
  using trim_surround [of w "[]" "[]"] by (simp add: trim_def trim_start_def trim_end_def)

section \<open>Replacement\<close>

text \<open>A text without the pattern.\<close>

definition free_of :: "rstring \<Rightarrow> rstring \<Rightarrow> bool" where
  "free_of p s \<longleftrightarrow> (\<forall>i. \<not> occurs p s i)"

lemma free_of_find: "free_of p s \<longleftrightarrow> find_str p s = None"
  by (simp add: free_of_def find_str_None)

lemma free_of_contains: "free_of p s \<longleftrightarrow> \<not> contains_str s p"
  by (simp add: free_of_def contains_str_iff)

lemma free_of_substring: "free_of p (u @ v @ w) \<Longrightarrow> free_of p v"
  unfolding free_of_def by (metis occurs_middle)

lemma free_of_trim: "free_of p s \<Longrightarrow> free_of p (trim s)"
  using trim_substring [of s] free_of_substring by metis

lemma free_of_stop: "free_of q u \<Longrightarrow> free_of q v \<Longrightarrow> c \<notin> set q \<Longrightarrow> q \<noteq> [] \<Longrightarrow> free_of q (u @ c # v)"
  using occurs_stop [of q u c v] unfolding free_of_def by blast

lemma split_str_cut:
  assumes "find_str p s = Some i" "p \<noteq> []"
  shows "s = take i s @ p @ drop (i + length p) s"
proof -
  have "take (length p) (drop i s) = p"
    using assms(1) by (simp add: find_str_Some occurs_def starts_with_def)
  then have "drop i s = p @ drop (i + length p) s"
    by (metis add.commute append_take_drop_id drop_drop)
  then show ?thesis by (metis append_take_drop_id)
qed

lemma split_str_nonempty [simp]: "split_str p s \<noteq> []"
  by (subst split_str.simps) (auto split: option.splits)

lemma replace_str_step:
  "find_str p s = Some i \<Longrightarrow> p \<noteq> [] \<Longrightarrow>
   replace_str p r s = take i s @ r @ replace_str p r (drop (i + length p) s)"
  unfolding replace_str_def by (subst split_str.simps) (simp add: join_Cons)

lemma replace_str_free: "free_of p s \<Longrightarrow> replace_str p r s = s"
  unfolding replace_str_def by (subst split_str.simps) (simp add: free_of_find)

text \<open>
  Induction over the occurrences a replacement visits: the text is free of the pattern, or it
  is a prefix without the pattern, the pattern, and a shorter rest.
\<close>

lemma replace_induct [consumes 1, case_names free step]:
  assumes "p \<noteq> []"
    and free: "\<And>s. free_of p s \<Longrightarrow> P s"
    and step: "\<And>u v. find_str p (u @ p @ v) = Some (length u) \<Longrightarrow> P v \<Longrightarrow> P (u @ p @ v)"
  shows "P s"
proof (induction "length s" arbitrary: s rule: less_induct)
  case less
  show ?case
  proof (cases "find_str p s")
    case None
    then show ?thesis using free free_of_find by blast
  next
    case (Some i)
    let ?u = "take i s" and ?v = "drop (i + length p) s"
    have s: "s = ?u @ p @ ?v" by (rule split_str_cut [OF Some assms(1)])
    have "i \<le> length s" using Some by (simp add: find_str_Some occurs_def)
    then have "length ?u = i" by simp
    moreover have "length ?v < length s"
      using assms(1) arg_cong [OF s, of length] by (cases p) auto
    ultimately show ?thesis using step [of ?u ?v] less Some s by metis
  qed
qed

lemma replace_str_at:
  "find_str p (u @ p @ v) = Some (length u) \<Longrightarrow> p \<noteq> [] \<Longrightarrow>
   replace_str p r (u @ p @ v) = u @ r @ replace_str p r v"
  using replace_str_step [of p "u @ p @ v" "length u" r] by simp

text \<open>
  A replacement that keeps a prefix and a suffix of the pattern around a foreign character
  creates no occurrence of another pattern.
\<close>

lemma replace_str_keeps_free:
  assumes p: "p \<noteq> []" "p = a @ a'" "p = b' @ b" and q: "q \<noteq> []" "c \<notin> set q"
    and x: "x = [] \<or> x = b"
  shows "free_of q (x @ s) \<Longrightarrow> free_of q (x @ replace_str p (a @ c # b) s)"
  using x
proof (induction s arbitrary: x rule: replace_induct [OF p(1)])
  case (1 s)
  then show ?case by (simp add: replace_str_free)
next
  case (2 u v)
  have "free_of q (x @ u @ a)"
    using free_of_substring [of q "[]" "x @ u @ a" "a' @ v"] 2(3) p(2) by simp
  moreover have "free_of q (b @ v)"
    using free_of_substring [of q "x @ u @ b'" "b @ v" "[]"] 2(3) p(3) by simp
  then have "free_of q (b @ replace_str p (a @ c # b) v)" using 2(2) by blast
  ultimately show ?case
    using replace_str_at [OF 2(1) p(1), of "a @ c # b"] free_of_stop [OF _ _ q(2,1)] by fastforce
qed

lemma occurs_hd_notin:
  assumes "occurs (h # t) (x @ s) j" "h \<notin> set x"
  shows "length x \<le> j \<and> occurs (h # t) s (j - length x)"
proof -
  have "(x @ s) ! j = h" using occurs_hd [OF assms(1)] by simp
  then have "length x \<le> j" using assms(2) by (metis leI nth_append nth_mem)
  then show ?thesis using assms(1) occurs_append_right [of "h # t" x s "j - length x"] by simp
qed

text \<open>Putting a foreign character behind the first character removes every occurrence.\<close>

lemma replace_str_removes:
  assumes p: "p = h # t" "h \<notin> set t" "t \<noteq> []" "c \<notin> set p" and x: "x = [] \<or> x = t"
  shows "free_of p (x @ replace_str p (h # c # t) s)"
proof -
  have "p \<noteq> []" using p(1) by simp
  then show ?thesis using x
  proof (induction s arbitrary: x rule: replace_induct)
    case (free s)
    have "h \<notin> set x" using free(2) p(2) by auto
    then have "free_of p (x @ s)"
      using free(1) occurs_hd_notin [of h t x s] p(1) unfolding free_of_def by blast
    then show ?case using free(1) by (simp add: replace_str_free)
  next
    case (step u v)
    have "free_of p (x @ u @ [h])"
    proof -
      have "\<not> occurs p (x @ u @ [h]) j" for j
      proof
        assume o: "occurs p (x @ u @ [h]) j"
        have "h \<notin> set x" using step(3) p(2) by auto
        then have o': "occurs p (u @ [h]) (j - length x)"
          using occurs_hd_notin o p(1) by blast
        let ?j = "j - length x"
        have "0 < length t" using p(3) by simp
        moreover have "?j + length t \<le> length u" using occurs_length [OF o'] p(1) by simp
        ultimately have "?j < length u" by linarith
        moreover have "starts_with (drop ?j u @ h # []) p"
          using o' \<open>?j < length u\<close> by (simp add: occurs_def)
        ultimately have "starts_with (drop ?j u @ h # []) p" "?j < length u" by simp_all
        then have "starts_with (drop ?j u) p" using starts_with_stop_tl [of "drop ?j u" h "[]" p] p(1,2)
          by simp
        then have "occurs p (u @ p @ v) ?j"
          using \<open>?j < length u\<close> by (auto simp: occurs_def intro: starts_with_appendI)
        then show False using step(1) \<open>?j < length u\<close> by (simp add: find_str_Some)
      qed
      then show ?thesis by (simp add: free_of_def)
    qed
    moreover have "free_of p (t @ replace_str p (h # c # t) v)" using step(2) by blast
    ultimately have "free_of p ((x @ u @ [h]) @ c # (t @ replace_str p (h # c # t) v))"
      using p(1,4) by (intro free_of_stop) auto
    then show ?case using replace_str_at [OF step(1), of "h # c # t"] p(1) by simp
  qed
qed

lemma length_replace_str:
  assumes "p \<noteq> []" "length r < length p"
  shows "length (replace_str p r s) \<le> length s \<and>
    (contains_str s p \<longrightarrow> length (replace_str p r s) < length s)"
proof (induction s rule: replace_induct [OF assms(1)])
  case (1 s)
  then show ?case by (simp add: replace_str_free free_of_contains)
next
  case (2 u v)
  then show ?case using replace_str_at [OF 2(1) assms(1), of r] assms(2) by simp
qed

lemma trim_idem [simp]: "trim (trim s) = trim s"
proof (cases "trim s = []")
  case True
  then show ?thesis using trim_ws [of "[]"] by simp
next
  case False
  let ?t = "trim_start s"
  have t: "?t \<noteq> []" using False by (auto simp: trim_def trim_end_def)
  obtain w where w: "?t = trim s @ w"
    by (metis trim_def trim_end_def rev_append rev_rev_ident takeWhile_dropWhile_id)
  have "\<not> is_whitespace (hd ?t)" using t by (simp add: trim_start_def hd_dropWhile)
  then have "\<not> is_whitespace (hd (trim s))" using w False by simp
  moreover have "\<not> is_whitespace (last (trim s))"
    using False by (simp add: trim_def trim_end_def last_rev hd_dropWhile)
  ultimately show ?thesis using False by (intro trim_id)
qed

end
