(* ===== verification/Prompt_Queue.thy ===== *)
theory Prompt_Queue
  imports Json_Codec Text_Search
begin

text \<open>
  The rows of a session's prompt queue: where an input comes from and what that allows
  (\<open>xai-grok-shell/src/session/mod.rs\<close>, \<open>acp_session_impl/queue_mutation.rs\<close>, \<open>xai-agent-lifecycle\<close>), the
  row itself (\<open>InputItem\<close>), the rules by which several follow-ups become one prompt
  (\<open>xai-prompt-queue/src/combine.rs\<close>) and the form of the queue on the wire (\<open>types.rs\<close>).

  The content blocks are types of the agent client protocol: a text with its metadata, an image, or
  another block. Images, other blocks, tool overrides and the fields of a row that the queue only
  carries (mode, schema, trace, acknowledgement channels) are values of an opaque type. The channel on
  which a prompt is answered is a number.
\<close>

section \<open>Origins and policies\<close>

datatype input_authority = HumanIntent | ModelAuthoredUntrusted | RuntimeControl

fun is_human_intent :: "input_authority \<Rightarrow> bool" where
  "is_human_intent HumanIntent = True"
| "is_human_intent _ = False"

datatype turn_boundary = Conversational | MidTurn | NoBoundary

datatype analytics_class = HumanPrompt | AgentMessage | RuntimeWake

fun is_human_prompt :: "analytics_class \<Rightarrow> bool" where
  "is_human_prompt HumanPrompt = True"
| "is_human_prompt _ = False"

datatype compaction_class = HumanAnchor | ConversationalAgentAnchor | RuntimeEphemera

datatype queue_policy = VisibleProtected | VisibleEditable | Hidden

fun queue_policy_is_visible :: "queue_policy \<Rightarrow> bool" where
  "queue_policy_is_visible VisibleProtected = True"
| "queue_policy_is_visible VisibleEditable = True"
| "queue_policy_is_visible Hidden = False"

fun queue_policy_is_editable :: "queue_policy \<Rightarrow> bool" where
  "queue_policy_is_editable VisibleEditable = True"
| "queue_policy_is_editable _ = False"

datatype shutdown_policy = Drain | CancelWithProducer | DropEphemeral

datatype slash_authority = HumanCatalog | ModelAuthored | Inert

record input_policy =
  ip_authority :: input_authority
  ip_slash :: slash_authority
  ip_turn_boundary :: turn_boundary
  ip_analytics :: analytics_class
  ip_compaction :: compaction_class
  ip_queue :: queue_policy
  ip_shutdown :: shutdown_policy

datatype prompt_origin =
    OUser
  | OTaskCompleted rstring
  | OSubagentCompleted rstring
  | OParentAgentMessage rstring rstring
  | OParentHumanMessage rstring rstring
  | OWorkflowCompleted rstring
  | ONotificationDrain
  | OGoalSummary
  | OGoalClassifierNudge
  | OSchedulerFired
  | OPlanResume

definition origin_from_prompt_id :: "rstring \<Rightarrow> prompt_origin" where
  "origin_from_prompt_id pid =
     (case strip_prefix (lit ''task-completed-'') pid of Some t \<Rightarrow> OTaskCompleted t | None \<Rightarrow>
     (case strip_prefix (lit ''subagent-completed-'') pid of Some t \<Rightarrow> OSubagentCompleted t | None \<Rightarrow>
     (case strip_prefix (lit ''parent-agent-message-'') pid of Some t \<Rightarrow> OParentAgentMessage t [] | None \<Rightarrow>
     (case strip_prefix (lit ''parent-message-'') pid of Some t \<Rightarrow> OParentHumanMessage t [] | None \<Rightarrow>
     (case strip_prefix (lit ''workflow-completed-'') pid of Some t \<Rightarrow> OWorkflowCompleted t | None \<Rightarrow>
      if starts_with pid (lit ''notifications-'') then ONotificationDrain
      else if starts_with pid (lit ''goal-summary-'') then OGoalSummary
      else if starts_with pid (lit ''goal-classifier-nudge-'') then OGoalClassifierNudge
      else if starts_with pid (lit ''scheduler-fired-'') then OSchedulerFired
      else if starts_with pid (lit ''plan-resume-'') then OPlanResume
      else OUser)))))"

definition parent_policy :: "slash_authority \<Rightarrow> input_policy" where
  "parent_policy slash = \<lparr>ip_authority = ModelAuthoredUntrusted, ip_slash = slash,
     ip_turn_boundary = Conversational, ip_analytics = AgentMessage,
     ip_compaction = ConversationalAgentAnchor, ip_queue = VisibleProtected, ip_shutdown = Drain\<rparr>"

definition runtime_policy :: "shutdown_policy \<Rightarrow> input_policy" where
  "runtime_policy shutdown = \<lparr>ip_authority = RuntimeControl, ip_slash = Inert,
     ip_turn_boundary = Conversational, ip_analytics = RuntimeWake,
     ip_compaction = RuntimeEphemera, ip_queue = Hidden, ip_shutdown = shutdown\<rparr>"

fun origin_policy :: "prompt_origin \<Rightarrow> input_policy" where
  "origin_policy OUser = \<lparr>ip_authority = HumanIntent, ip_slash = HumanCatalog,
     ip_turn_boundary = Conversational, ip_analytics = HumanPrompt,
     ip_compaction = HumanAnchor, ip_queue = VisibleEditable, ip_shutdown = Drain\<rparr>"
| "origin_policy (OParentAgentMessage m p) = parent_policy ModelAuthored"
| "origin_policy (OParentHumanMessage m p) = parent_policy Inert"
| "origin_policy (OTaskCompleted t) = runtime_policy CancelWithProducer"
| "origin_policy (OSubagentCompleted t) = runtime_policy CancelWithProducer"
| "origin_policy (OWorkflowCompleted t) = runtime_policy CancelWithProducer"
| "origin_policy OSchedulerFired = runtime_policy CancelWithProducer"
| "origin_policy ONotificationDrain = runtime_policy DropEphemeral"
| "origin_policy OGoalSummary = runtime_policy DropEphemeral"
| "origin_policy OGoalClassifierNudge = runtime_policy DropEphemeral"
| "origin_policy OPlanResume = runtime_policy DropEphemeral"

definition origin_is_synthetic :: "prompt_origin \<Rightarrow> bool" where
  "origin_is_synthetic org \<longleftrightarrow> org \<noteq> OUser"

fun is_auto_wake :: "prompt_origin \<Rightarrow> bool" where
  "is_auto_wake (OTaskCompleted t) = True"
| "is_auto_wake (OSubagentCompleted t) = True"
| "is_auto_wake (OWorkflowCompleted t) = True"
| "is_auto_wake (OParentAgentMessage m p) = True"
| "is_auto_wake (OParentHumanMessage m p) = True"
| "is_auto_wake ONotificationDrain = True"
| "is_auto_wake _ = False"

fun hide_user_echo_from_scrollback :: "prompt_origin \<Rightarrow> bool" where
  "hide_user_echo_from_scrollback OUser = False"
| "hide_user_echo_from_scrollback (OParentAgentMessage m p) = False"
| "hide_user_echo_from_scrollback (OParentHumanMessage m p) = False"
| "hide_user_echo_from_scrollback OSchedulerFired = False"
| "hide_user_echo_from_scrollback OPlanResume = False"
| "hide_user_echo_from_scrollback _ = True"

fun completion_id :: "prompt_origin \<Rightarrow> rstring option" where
  "completion_id (OTaskCompleted t) = Some t"
| "completion_id (OSubagentCompleted t) = Some t"
| "completion_id (OWorkflowCompleted t) = Some t"
| "completion_id _ = None"

definition is_preemptible_runtime_wake :: "prompt_origin \<Rightarrow> bool" where
  "is_preemptible_runtime_wake org \<longleftrightarrow> ip_shutdown (origin_policy org) \<noteq> Drain"

text \<open>What the generic queue controls may do with a row.\<close>

record queue_mutation_policy =
  qm_visible :: bool
  qm_editable :: bool

definition qm_hidden :: queue_mutation_policy where
  "qm_hidden = \<lparr>qm_visible = False, qm_editable = False\<rparr>"

definition qm_is_protected :: "queue_mutation_policy \<Rightarrow> bool" where
  "qm_is_protected p \<longleftrightarrow> qm_visible p \<and> \<not> qm_editable p"

fun qm_of_policy :: "queue_policy \<Rightarrow> queue_mutation_policy" where
  "qm_of_policy VisibleProtected = \<lparr>qm_visible = True, qm_editable = False\<rparr>"
| "qm_of_policy VisibleEditable = \<lparr>qm_visible = True, qm_editable = True\<rparr>"
| "qm_of_policy Hidden = qm_hidden"

definition qm_from_input_origin :: "prompt_origin \<Rightarrow> queue_mutation_policy" where
  "qm_from_input_origin org = qm_of_policy (ip_queue (origin_policy org))"

section \<open>Rows\<close>

record text_block =
  tb_text :: rstring
  tb_meta :: "fields option"

datatype 'x content_block = CText text_block | CImage 'x | COther 'x

fun text_of :: "'x content_block \<Rightarrow> text_block option" where
  "text_of (CText t) = Some t"
| "text_of _ = None"

fun is_image_block :: "'x content_block \<Rightarrow> bool" where
  "is_image_block (CImage x) = True"
| "is_image_block _ = False"

definition text_blocks :: "'x content_block list \<Rightarrow> text_block list" where
  "text_blocks blocks = List.map_filter text_of blocks"

record queue_entry_meta =
  qe_id :: rstring
  qe_version :: u64
  qe_owner :: "rstring option"
  qe_last_editor :: "rstring option"
  qe_kind :: rstring
  qe_text :: rstring
  qe_combined_texts :: "rstring list option"

record 'x input_item =
  prompt_id :: rstring
  prompt_blocks :: "'x content_block list"
  input_origin :: prompt_origin
  tool_overrides_update :: "'x option"
  respond_to :: nat
  queue_meta :: "queue_entry_meta option"
  mutation_policy :: queue_mutation_policy
  item_send_now :: bool
  carried :: 'x

definition is_queue_visible :: "'x input_item \<Rightarrow> bool" where
  "is_queue_visible i = qm_visible (mutation_policy i)"

definition is_queue_editable :: "'x input_item \<Rightarrow> bool" where
  "is_queue_editable i = qm_editable (mutation_policy i)"

definition is_queue_protected :: "'x input_item \<Rightarrow> bool" where
  "is_queue_protected i = qm_is_protected (mutation_policy i)"

definition editable_queue_meta_matches :: "rstring \<Rightarrow> u64 \<Rightarrow> rstring option \<Rightarrow> 'x input_item \<Rightarrow> bool" where
  "editable_queue_meta_matches qid expected_version owner i \<longleftrightarrow>
     is_queue_editable i \<and>
     (case queue_meta i of None \<Rightarrow> False
      | Some m \<Rightarrow> qe_id m = qid \<and> qe_version m = expected_version \<and>
          (case owner of None \<Rightarrow> True | Some ow \<Rightarrow> qe_owner m = Some ow))"

definition has_queue_id :: "rstring \<Rightarrow> 'x input_item \<Rightarrow> bool" where
  "has_queue_id qid i \<longleftrightarrow> (case queue_meta i of None \<Rightarrow> False | Some m \<Rightarrow> qe_id m = qid)"

section \<open>Block metadata\<close>

text \<open>\<open>PromptBlockMeta\<close>: the derived reader of an optional string, and the first command in the blocks.\<close>

definition meta_from_value :: "fields \<Rightarrow> rstring option option" where
  "meta_from_value m = optional dec_str (entries ''bash_command'' m)"

definition meta_bash :: "rstring \<Rightarrow> fields" where
  "meta_bash command = skip_none JStr ''bash_command'' (Some command)"

definition block_command :: "text_block \<Rightarrow> rstring option" where
  "block_command t = Option.bind (Option.bind (tb_meta t) meta_from_value) id"

definition extract_bash_command :: "'x content_block list \<Rightarrow> rstring option" where
  "extract_bash_command blocks =
     (case List.map_filter block_command (text_blocks blocks) of [] \<Rightarrow> None | c # _ \<Rightarrow> Some c)"

text \<open>The compact form of an expanded prompt, when it is not blank.\<close>

definition display_text :: "text_block \<Rightarrow> rstring option" where
  "display_text t =
     (case Option.bind (tb_meta t) (\<lambda>m. map_of m ''displayText'') of
        Some (JStr s) \<Rightarrow> if trim s = [] then None else Some (trim s)
      | _ \<Rightarrow> None)"

definition has_display_text :: "text_block \<Rightarrow> bool" where
  "has_display_text t \<longleftrightarrow> display_text t \<noteq> None"

definition trimmed_texts :: "'x content_block list \<Rightarrow> rstring list" where
  "trimmed_texts blocks = filter (\<lambda>s. s \<noteq> []) (map (trim \<circ> tb_text) (text_blocks blocks))"

definition queue_text_from_blocks :: "'x content_block list \<Rightarrow> rstring" where
  "queue_text_from_blocks blocks =
     (case List.map_filter display_text (text_blocks blocks) of
        display # _ \<Rightarrow> display
      | [] \<Rightarrow> join [nl, nl] (trimmed_texts blocks))"

section \<open>Combining follow-ups\<close>

definition TEXT_SEPARATOR :: rstring where "TEXT_SEPARATOR = [nl, nl]"

record combine_gate =
  cg_id :: rstring
  cg_is_plain_prompt :: bool
  cg_is_synthetic :: bool
  cg_is_expanded_skill :: bool
  cg_is_bash :: bool
  cg_has_images :: bool
  cg_text :: rstring

definition can_merge_front :: "combine_gate \<Rightarrow> bool" where
  "can_merge_front g \<longleftrightarrow> cg_is_plain_prompt g \<and> \<not> cg_is_synthetic g \<and> \<not> cg_is_expanded_skill g \<and>
     \<not> cg_is_bash g \<and> cg_text g \<noteq> []"

definition can_merge_follower :: "rstring list \<Rightarrow> combine_gate \<Rightarrow> bool" where
  "can_merge_follower skip_ids g \<longleftrightarrow> can_merge_front g \<and> \<not> cg_has_images g \<and> cg_id g \<notin> set skip_ids"

fun combine_prefix_len :: "combine_gate list \<Rightarrow> rstring list \<Rightarrow> nat" where
  "combine_prefix_len [] skip_ids = 0"
| "combine_prefix_len (front # rest) skip_ids =
     (if \<not> can_merge_front front then 1 else 1 + length (takeWhile (can_merge_follower skip_ids) rest))"

definition join_texts :: "rstring list \<Rightarrow> rstring" where
  "join_texts texts = join TEXT_SEPARATOR (filter (\<lambda>t. t \<noteq> []) texts)"

definition is_combined :: "rstring list \<Rightarrow> bool" where
  "is_combined segs \<longleftrightarrow> 2 \<le> length segs"

definition map_insert :: "string \<Rightarrow> json \<Rightarrow> fields \<Rightarrow> fields" where
  "map_insert k v m = filter (\<lambda>e. fst e \<noteq> k) m @ [(k, v)]"

definition stamp_combined_display_texts :: "rstring list \<Rightarrow> fields \<Rightarrow> fields" where
  "stamp_combined_display_texts segs m =
     (if is_combined segs then map_insert ''combinedDisplayTexts'' (JArr (map JStr segs)) m else m)"

text \<open>What a row says to the rules.\<close>

definition combine_gate_of :: "'x input_item \<Rightarrow> combine_gate" where
  "combine_gate_of i =
     (let blocks = prompt_blocks i;
          is_bash = (extract_bash_command blocks \<noteq> None);
          is_plain = is_queue_editable i \<and> map_option qe_kind (queue_meta i) = Some (lit ''prompt'') \<and> \<not> is_bash;
          has_text = (\<exists>t\<in>set (text_blocks blocks). tb_text t \<noteq> []);
          non_text_non_image = (\<exists>b\<in>set blocks. text_of b = None \<and> \<not> is_image_block b);
          meta_text = (case queue_meta i of Some m \<Rightarrow> qe_text m | None \<Rightarrow> [])
      in \<lparr>cg_id = prompt_id i,
          cg_is_plain_prompt = is_plain \<and> has_text \<and> \<not> non_text_non_image \<and> tool_overrides_update i = None,
          cg_is_synthetic = origin_is_synthetic (input_origin i),
          cg_is_expanded_skill = (\<exists>t\<in>set (text_blocks blocks). has_display_text t),
          cg_is_bash = is_bash,
          cg_has_images = (\<exists>b\<in>set blocks. is_image_block b),
          cg_text =
            (if meta_text = [] then
               (case filter (\<lambda>s. s \<noteq> []) (map tb_text (text_blocks blocks)) of [] \<Rightarrow> [] | s # _ \<Rightarrow> s)
             else meta_text)\<rparr>)"

definition joined_text_blocks :: "'x content_block list \<Rightarrow> rstring" where
  "joined_text_blocks blocks = join_texts (filter (\<lambda>s. s \<noteq> []) (map tb_text (text_blocks blocks)))"

fun map_first_text :: "(text_block \<Rightarrow> text_block) \<Rightarrow> 'x content_block list \<Rightarrow> 'x content_block list" where
  "map_first_text f [] = []"
| "map_first_text f (CText t # bs) = CText (f t) # bs"
| "map_first_text f (b # bs) = b # map_first_text f bs"

definition map_last_text :: "(text_block \<Rightarrow> text_block) \<Rightarrow> 'x content_block list \<Rightarrow> 'x content_block list" where
  "map_last_text f bs = rev (map_first_text f (rev bs))"

definition push_extra :: "rstring \<Rightarrow> text_block \<Rightarrow> text_block" where
  "push_extra extra t =
     t\<lparr>tb_text := (if tb_text t = [] then [] else tb_text t @ TEXT_SEPARATOR) @ extra\<rparr>"

definition push_segment :: "rstring \<Rightarrow> queue_entry_meta \<Rightarrow> queue_entry_meta" where
  "push_segment extra m =
     m\<lparr>qe_combined_texts := Some (case qe_combined_texts m of Some segs \<Rightarrow> segs @ [extra] | None \<Rightarrow> [qe_text m, extra])\<rparr>"

definition stamp_combined_display_texts_meta :: "'x input_item \<Rightarrow> 'x input_item" where
  "stamp_combined_display_texts_meta i =
     (case Option.bind (queue_meta i) qe_combined_texts of
        None \<Rightarrow> i
      | Some segs \<Rightarrow>
          i\<lparr>prompt_blocks := map_first_text
              (\<lambda>t. t\<lparr>tb_meta := Some (stamp_combined_display_texts segs (case tb_meta t of Some m \<Rightarrow> m | None \<Rightarrow> []))\<rparr>)
              (prompt_blocks i)\<rparr>)"

definition append_text_to_prompt :: "rstring \<Rightarrow> 'x input_item \<Rightarrow> 'x input_item" where
  "append_text_to_prompt extra i =
     (if extra = [] then i
      else
        let i1 = i\<lparr>queue_meta := map_option (push_segment extra) (queue_meta i)\<rparr>;
            i2 = i1\<lparr>prompt_blocks := map_last_text (push_extra extra) (prompt_blocks i1)\<rparr>;
            i3 = i2\<lparr>queue_meta := map_option (\<lambda>m. m\<lparr>qe_text := queue_text_from_blocks (prompt_blocks i2)\<rparr>) (queue_meta i2)\<rparr>
        in stamp_combined_display_texts_meta i3)"

text \<open>
  The loop removes the second row \<open>n - 1\<close> times: each is answered and its text goes to the front. The
  result is the queue and the rows answered as removed.
\<close>

fun absorb_followers :: "nat \<Rightarrow> 'x input_item \<Rightarrow> 'x input_item list \<Rightarrow> 'x input_item list \<times> 'x input_item list" where
  "absorb_followers 0 front rest = (front # rest, [])"
| "absorb_followers (Suc k) front [] = ([front], [])"
| "absorb_followers (Suc k) front (next # rest) =
     (let (q, removed) = absorb_followers k (append_text_to_prompt (joined_text_blocks (prompt_blocks next)) front) rest
      in (q, next # removed))"

fun combine_front_pending_inputs ::
  "'x input_item list \<Rightarrow> rstring list \<Rightarrow> 'x input_item list \<times> 'x input_item list" where
  "combine_front_pending_inputs (front # next # rest) skip_ids =
     (let pending = front # next # rest; n = combine_prefix_len (map combine_gate_of pending) skip_ids
      in if n < 2 then (pending, []) else absorb_followers (n - 1) front (next # rest))"
| "combine_front_pending_inputs pending skip_ids = (pending, [])"

section \<open>Editing a row\<close>

definition saturating_succ :: "u64 \<Rightarrow> u64" where
  "saturating_succ v = (if v = - 1 then v else v + 1)"

definition apply_queued_prompt_edit :: "rstring \<Rightarrow> rstring option \<Rightarrow> 'x input_item \<Rightarrow> 'x input_item" where
  "apply_queued_prompt_edit new_text editor i =
     (let meta = (if extract_bash_command (prompt_blocks i) \<noteq> None then Some (meta_bash new_text) else None)
      in i\<lparr>prompt_blocks := CText \<lparr>tb_text = new_text, tb_meta = meta\<rparr> # filter is_image_block (prompt_blocks i),
           queue_meta := map_option (\<lambda>m. m\<lparr>qe_text := new_text, qe_combined_texts := None,
             qe_version := saturating_succ (qe_version m), qe_last_editor := editor\<rparr>) (queue_meta i)\<rparr>)"

section \<open>The queue on the wire\<close>

record queue_entry_wire =
  qw_id :: rstring
  qw_version :: u64
  qw_owner :: "rstring option"
  qw_last_editor :: "rstring option"
  qw_kind :: rstring
  qw_text :: rstring
  qw_combined_texts :: "rstring list option"
  qw_position :: usize

record queue_changed =
  qc_session_id :: rstring
  qc_entries :: "queue_entry_wire list"
  qc_running_prompt_id :: "rstring option"
  qc_running_text :: "rstring option"
  qc_running_kind :: "rstring option"
  qc_running_combined_texts :: "rstring list option"

definition enc_queue_entry :: "queue_entry_wire \<Rightarrow> json" where
  "enc_queue_entry e = JObj
     ([(''id'', JStr (qw_id e)), (''version'', enc_uint (qw_version e))]
      @ skip_none JStr ''owner'' (qw_owner e) @ skip_none JStr ''lastEditor'' (qw_last_editor e)
      @ [(''kind'', JStr (qw_kind e)), (''text'', JStr (qw_text e))]
      @ skip_none (enc_list JStr) ''combinedTexts'' (qw_combined_texts e)
      @ [(''position'', enc_uint (qw_position e))])"

definition read_queue_entry :: "fields \<Rightarrow> queue_entry_wire option" where
  "read_queue_entry kvs = do {
     eid \<leftarrow> required dec_str (entries ''id'' kvs);
     version \<leftarrow> defaulted 0 dec_uint (entries ''version'' kvs);
     owner \<leftarrow> optional dec_str (entries ''owner'' kvs);
     last_editor \<leftarrow> optional dec_str (entries ''lastEditor'' kvs);
     kind \<leftarrow> defaulted [] dec_str (entries ''kind'' kvs);
     txt \<leftarrow> defaulted [] dec_str (entries ''text'' kvs);
     combined \<leftarrow> optional (dec_list dec_str) (entries ''combinedTexts'' kvs);
     position \<leftarrow> defaulted 0 dec_uint (entries ''position'' kvs);
     Some \<lparr>qw_id = eid, qw_version = version, qw_owner = owner, qw_last_editor = last_editor, qw_kind = kind,
           qw_text = txt, qw_combined_texts = combined, qw_position = position\<rparr> }"

definition enc_queue_changed :: "queue_changed \<Rightarrow> json" where
  "enc_queue_changed p = JObj
     ([(''sessionId'', JStr (qc_session_id p)), (''entries'', enc_list enc_queue_entry (qc_entries p))]
      @ skip_none JStr ''runningPromptId'' (qc_running_prompt_id p) @ skip_none JStr ''runningText'' (qc_running_text p)
      @ skip_none JStr ''runningKind'' (qc_running_kind p)
      @ skip_none (enc_list JStr) ''runningCombinedTexts'' (qc_running_combined_texts p))"

definition read_queue_changed :: "fields \<Rightarrow> queue_changed option" where
  "read_queue_changed kvs = do {
     session_id \<leftarrow> required dec_str (entries ''sessionId'' kvs);
     rows \<leftarrow> defaulted [] (dec_list (dec_struct read_queue_entry)) (entries ''entries'' kvs);
     running \<leftarrow> optional dec_str (entries ''runningPromptId'' kvs);
     running_text \<leftarrow> optional dec_str (entries ''runningText'' kvs);
     running_kind \<leftarrow> optional dec_str (entries ''runningKind'' kvs);
     running_combined \<leftarrow> optional (dec_list dec_str) (entries ''runningCombinedTexts'' kvs);
     Some \<lparr>qc_session_id = session_id, qc_entries = rows, qc_running_prompt_id = running,
           qc_running_text = running_text, qc_running_kind = running_kind,
           qc_running_combined_texts = running_combined\<rparr> }"

record running_prompt_display =
  rd_id :: rstring
  rd_text :: rstring
  rd_kind :: rstring
  rd_combined_texts :: "rstring list option"

definition running_display_from_item :: "'x input_item \<Rightarrow> running_prompt_display" where
  "running_display_from_item i =
     \<lparr>rd_id = prompt_id i,
      rd_text = (case queue_meta i of Some m \<Rightarrow> qe_text m | None \<Rightarrow> queue_text_from_blocks (prompt_blocks i)),
      rd_kind = (case queue_meta i of Some m \<Rightarrow> qe_kind m | None \<Rightarrow> lit ''prompt''),
      rd_combined_texts =
        (case Option.bind (queue_meta i) qe_combined_texts of
           Some segs \<Rightarrow> if 2 \<le> length segs then Some segs else None
         | None \<Rightarrow> None)\<rparr>"

definition wire_of :: "queue_entry_meta \<Rightarrow> nat \<Rightarrow> queue_entry_wire" where
  "wire_of m position =
     \<lparr>qw_id = qe_id m, qw_version = qe_version m, qw_owner = qe_owner m, qw_last_editor = qe_last_editor m,
      qw_kind = qe_kind m, qw_text = qe_text m, qw_combined_texts = qe_combined_texts m,
      qw_position = of_nat position\<rparr>"

fun queue_wire_from :: "rstring option \<Rightarrow> queue_entry_wire list \<Rightarrow> 'x input_item list \<Rightarrow> queue_entry_wire list" where
  "queue_wire_from running_id out [] = out"
| "queue_wire_from running_id out (i # rest) =
     (if \<not> is_queue_visible i then queue_wire_from running_id out rest
      else case queue_meta i of
        None \<Rightarrow> queue_wire_from running_id out rest
      | Some m \<Rightarrow>
          if running_id = Some (qe_id m) then queue_wire_from running_id out rest
          else queue_wire_from running_id (out @ [wire_of m (length out)]) rest)"

definition build_queue_wire :: "rstring option \<Rightarrow> 'x input_item list \<Rightarrow> queue_entry_wire list" where
  "build_queue_wire running_id pending = queue_wire_from running_id [] pending"

definition renumber :: "queue_entry_wire list \<Rightarrow> queue_entry_wire list" where
  "renumber es = map (\<lambda>(i, e). e\<lparr>qw_position := of_nat i\<rparr>) (enumerate 0 es)"

definition queue_changed_payload ::
  "rstring \<Rightarrow> rstring option \<Rightarrow> 'x input_item list \<Rightarrow> running_prompt_display option \<Rightarrow> queue_changed" where
  "queue_changed_payload session_id running_id pending running =
     \<lparr>qc_session_id = session_id,
      qc_entries =
        (let es = build_queue_wire running_id pending
         in case running of None \<Rightarrow> es | Some r \<Rightarrow> renumber (filter (\<lambda>e. qw_id e \<noteq> rd_id r) es)),
      qc_running_prompt_id = map_option rd_id running,
      qc_running_text = map_option rd_text running,
      qc_running_kind = map_option rd_kind running,
      qc_running_combined_texts = Option.bind running rd_combined_texts\<rparr>"

definition broadcast_payload :: "rstring \<Rightarrow> rstring option \<Rightarrow> 'x input_item list \<Rightarrow> queue_changed" where
  "broadcast_payload session_id running_id pending =
     queue_changed_payload session_id running_id pending
       (Option.bind running_id (\<lambda>pid. map_option running_display_from_item (find (\<lambda>i. prompt_id i = pid) pending)))"


section \<open>Laws of the wire\<close>

lemma defaulted_uint: "defaulted 0 dec_uint [enc_uint w] = Some w"
  by (simp add: defaulted.simps cuint.dec_enc)

lemma defaulted_str: "defaulted [] dec_str [JStr s] = Some s"
  by (simp add: defaulted.simps)

interpretation cstrs: codec "enc_list JStr" "dec_list dec_str" any
  by unfold_locales (simp_all add: cstr.list_enc, simp add: enc_list_def)

lemmas wire_rules = defaulted_uint defaulted_str cstrs.optional_skip

interpretation cqentry: codec enc_queue_entry "dec_struct read_queue_entry" any
  by unfold_locales
    (simp_all add: enc_queue_entry_def read_queue_entry_def field_rules wire_rules)

interpretation cqchanged: codec enc_queue_changed "dec_struct read_queue_changed" any
  by unfold_locales
    (simp_all add: enc_queue_changed_def read_queue_changed_def field_rules wire_rules defaulted.simps cqentry.list_enc)

definition listed :: "rstring option \<Rightarrow> 'x input_item list \<Rightarrow> queue_entry_meta list" where
  "listed running_id pending =
     filter (\<lambda>m. running_id \<noteq> Some (qe_id m))
       (List.map_filter (\<lambda>i. if is_queue_visible i then queue_meta i else None) pending)"

lemma queue_wire_from_eq:
  "queue_wire_from running_id out pending =
     out @ map (\<lambda>(k, m). wire_of m k) (enumerate (length out) (listed running_id pending))"
  by (induction running_id out pending rule: queue_wire_from.induct)
    (auto simp: listed_def List.map_filter_def split: option.splits)

lemma build_queue_wire_eq:
  "build_queue_wire running_id pending = map (\<lambda>(k, m). wire_of m k) (enumerate 0 (listed running_id pending))"
  by (simp add: build_queue_wire_def queue_wire_from_eq)

lemma renumber_filter_wire:
  "renumber (filter (\<lambda>e. qw_id e \<noteq> r) (map (\<lambda>(k, m). wire_of m k) (enumerate n ms))) =
     map (\<lambda>(k, m). wire_of m k) (enumerate 0 (filter (\<lambda>m. qe_id m \<noteq> r) ms))"
proof -
  have "map (\<lambda>(i, e). e\<lparr>qw_position := of_nat i\<rparr>)
          (enumerate j (filter (\<lambda>e. qw_id e \<noteq> r) (map (\<lambda>(k, m). wire_of m k) (enumerate n ms))))
      = map (\<lambda>(k, m). wire_of m k) (enumerate j (filter (\<lambda>m. qe_id m \<noteq> r) ms))" for j
    by (induction ms arbitrary: j n) (simp_all add: wire_of_def)
  then show ?thesis by (simp add: renumber_def)
qed

lemma payload_entries:
  "qc_entries (queue_changed_payload session_id running_id pending running) =
     map (\<lambda>(k, m). wire_of m k) (enumerate 0
       (case running of None \<Rightarrow> listed running_id pending
        | Some r \<Rightarrow> filter (\<lambda>m. qe_id m \<noteq> rd_id r) (listed running_id pending)))"
  by (simp add: queue_changed_payload_def build_queue_wire_eq renumber_filter_wire split: option.splits)

lemma broadcast_entries:
  "qc_entries (broadcast_payload session_id running_id pending) =
     map (\<lambda>(k, m). wire_of m k) (enumerate 0 (listed running_id pending))"
proof (cases "Option.bind running_id (\<lambda>pid. map_option running_display_from_item (find (\<lambda>i. prompt_id i = pid) pending))")
  case None
  then show ?thesis by (simp add: broadcast_payload_def payload_entries)
next
  case (Some r)
  then have "running_id = Some (rd_id r)"
    by (auto simp: running_display_from_item_def bind_eq_Some_conv dest!: find_Some_iff [THEN iffD1])
  then have "filter (\<lambda>m. qe_id m \<noteq> rd_id r) (listed running_id pending) = listed running_id pending"
    by (auto simp: listed_def intro!: filter_cong)
  with Some show ?thesis by (simp add: broadcast_payload_def payload_entries)
qed


text \<open>A broadcast is read back as itself; the running row is never listed.\<close>

theorem broadcast_roundtrip:
  "dec_struct read_queue_changed (enc_queue_changed (broadcast_payload sid running_id pending)) =
     Some (broadcast_payload sid running_id pending) \<and>
   list_all (\<lambda>e. running_id \<noteq> Some (qw_id e)) (qc_entries (broadcast_payload sid running_id pending))"
proof -
  have "list_all (\<lambda>e. running_id \<noteq> Some (qw_id e)) (map (\<lambda>(k, m). wire_of m k) (enumerate n ms))"
    if "list_all (\<lambda>m. running_id \<noteq> Some (qe_id m)) ms" for n ms
    using that by (induction ms arbitrary: n) (simp_all add: wire_of_def)
  moreover have "list_all (\<lambda>m. running_id \<noteq> Some (qe_id m)) (listed running_id pending)"
    by (simp add: listed_def list_all_iff)
  ultimately show ?thesis by (simp only: broadcast_entries cqchanged.dec_enc simp_thms)
qed

section \<open>Laws of combining\<close>

lemma join_snoc_append: "join sep (xs @ [y @ z]) = join sep (xs @ [y]) @ z"
  by (induction xs) (simp_all add: join_Cons)

lemma join_texts_snoc: "xs \<noteq> [] \<Longrightarrow> join sep (xs @ [y]) = join sep xs @ sep @ y"
proof (induction xs)
  case (Cons x xs)
  then show ?case by (cases "xs = []") (simp_all add: join_Cons)
qed simp

abbreviation texts :: "'x content_block list \<Rightarrow> rstring list" where
  "texts blocks \<equiv> map tb_text (text_blocks blocks)"

lemma text_blocks_simps [simp]:
  "text_blocks [] = []"
  "text_blocks (b # bs) = (case text_of b of Some t \<Rightarrow> t # text_blocks bs | None \<Rightarrow> text_blocks bs)"
  "text_blocks (bs @ bs') = text_blocks bs @ text_blocks bs'"
  by (simp_all add: text_blocks_def map_filter_simps map_filter_append split: option.split)

lemma text_blocks_rev [simp]: "text_blocks (rev bs) = rev (text_blocks bs)"
  by (induction bs) (simp_all split: option.split)

lemma text_blocks_map_first_text:
  "text_blocks (map_first_text f bs) = (case text_blocks bs of [] \<Rightarrow> [] | t # ts \<Rightarrow> f t # ts)"
  by (induction f bs rule: map_first_text.induct) auto

lemma text_blocks_map_last_text:
  "text_blocks (map_last_text f bs) = (if text_blocks bs = [] then [] else butlast (text_blocks bs) @ [f (last (text_blocks bs))])"
  by (cases "text_blocks bs" rule: rev_cases) (simp_all add: map_last_text_def text_blocks_map_first_text)

lemma texts_stamp [simp]: "texts (prompt_blocks (stamp_combined_display_texts_meta i)) = texts (prompt_blocks i)"
  by (simp add: stamp_combined_display_texts_meta_def text_blocks_map_first_text split: option.split list.split)

lemma texts_append_text:
  "texts (prompt_blocks (append_text_to_prompt extra i)) =
     (if extra = [] then texts (prompt_blocks i) else texts (map_last_text (push_extra extra) (prompt_blocks i)))"
  by (simp add: append_text_to_prompt_def Let_def)

lemma joined_push_last:
  assumes "filter (\<lambda>s. s \<noteq> []) (texts bs) \<noteq> []" "extra \<noteq> []"
  shows "joined_text_blocks (map_last_text (push_extra extra) bs) = joined_text_blocks bs @ TEXT_SEPARATOR @ extra"
proof (cases "texts bs" rule: rev_cases)
  case (snoc ts t)
  have new: "texts (map_last_text (push_extra extra) bs) = ts @ [(if t = [] then [] else t @ TEXT_SEPARATOR) @ extra]"
    using snoc by (cases "text_blocks bs" rule: rev_cases) (simp_all add: text_blocks_map_last_text push_extra_def)
  show ?thesis
  proof (cases "t = []")
    case True
    with assms snoc show ?thesis
      unfolding joined_text_blocks_def join_texts_def new by (simp add: join_texts_snoc)
  next
    case False
    with assms snoc show ?thesis
      unfolding joined_text_blocks_def join_texts_def new
      using join_snoc_append [of TEXT_SEPARATOR "filter (\<lambda>s. s \<noteq> []) ts" t "TEXT_SEPARATOR @ extra"] by simp
  qed
qed (use assms in simp)

lemma joined_nonempty: "joined_text_blocks bs \<noteq> [] \<longleftrightarrow> (\<exists>t\<in>set (text_blocks bs). tb_text t \<noteq> [])"
proof -
  have "join sep (filter (\<lambda>s. s \<noteq> []) ts) \<noteq> [] \<longleftrightarrow> (\<exists>s\<in>set ts. s \<noteq> [])" for sep ts
    by (induction ts) (auto simp: join_Cons, metis (mono_tags) filter_empty_conv join.simps(2) join_Cons append_is_Nil_conv)
  then show ?thesis by (simp add: joined_text_blocks_def join_texts_def)
qed

lemma joined_append_text:
  assumes "joined_text_blocks (prompt_blocks i) \<noteq> []" "extra \<noteq> []"
  shows "joined_text_blocks (prompt_blocks (append_text_to_prompt extra i)) =
    joined_text_blocks (prompt_blocks i) @ TEXT_SEPARATOR @ extra"
proof -
  have "filter (\<lambda>s. s \<noteq> []) (texts (prompt_blocks i)) \<noteq> []"
    using assms(1) by (auto simp: joined_nonempty filter_empty_conv)
  from joined_push_last [OF this assms(2)] assms(2) show ?thesis
    unfolding joined_text_blocks_def texts_append_text by simp
qed

lemma append_text_fields [simp]:
  "prompt_id (append_text_to_prompt extra i) = prompt_id i"
  "input_origin (append_text_to_prompt extra i) = input_origin i"
  "tool_overrides_update (append_text_to_prompt extra i) = tool_overrides_update i"
  "respond_to (append_text_to_prompt extra i) = respond_to i"
  "mutation_policy (append_text_to_prompt extra i) = mutation_policy i"
  "item_send_now (append_text_to_prompt extra i) = item_send_now i"
  "carried (append_text_to_prompt extra i) = carried i"
  by (simp_all add: append_text_to_prompt_def stamp_combined_display_texts_meta_def Let_def split: option.split)

lemma append_text_meta:
  "queue_meta (append_text_to_prompt extra i) =
     (if extra = [] then queue_meta i
      else map_option (\<lambda>m. (push_segment extra m)\<lparr>qe_text := queue_text_from_blocks (map_last_text (push_extra extra) (prompt_blocks i))\<rparr>)
        (queue_meta i))"
  by (simp add: append_text_to_prompt_def stamp_combined_display_texts_meta_def Let_def map_option.compositionality comp_def
      split: option.split)

lemma append_text_meta_id [simp]:
  "map_option qe_id (queue_meta (append_text_to_prompt extra i)) = map_option qe_id (queue_meta i)"
  by (simp add: append_text_meta push_segment_def map_option.compositionality comp_def)

definition same_row :: "'x input_item \<Rightarrow> 'x input_item \<Rightarrow> bool" where
  "same_row i j \<longleftrightarrow> prompt_id i = prompt_id j \<and> input_origin i = input_origin j \<and> respond_to i = respond_to j \<and>
     mutation_policy i = mutation_policy j \<and> item_send_now i = item_send_now j \<and> carried i = carried j \<and>
     map_option qe_id (queue_meta i) = map_option qe_id (queue_meta j)"

lemma same_row_refl [simp]: "same_row i i"
  by (simp add: same_row_def)

lemma same_row_trans: "same_row i j \<Longrightarrow> same_row j k \<Longrightarrow> same_row i k"
  by (simp add: same_row_def)

lemma same_row_append [simp]: "same_row (append_text_to_prompt extra i) i"
  by (simp add: same_row_def)

lemma join_map_Cons2: "join sep (x # y # zs) = join sep ((x @ sep @ y) # zs)"
  by (cases zs) simp_all

lemma absorb_followers_spec:
  assumes "k \<le> length rest" "joined_text_blocks (prompt_blocks front) \<noteq> []"
    "\<forall>i\<in>set (take k rest). joined_text_blocks (prompt_blocks i) \<noteq> []"
  shows "\<exists>front'. absorb_followers k front rest = (front' # drop k rest, take k rest) \<and> same_row front' front \<and>
    joined_text_blocks (prompt_blocks front') =
      join TEXT_SEPARATOR (map (\<lambda>i. joined_text_blocks (prompt_blocks i)) (front # take k rest))"
  using assms
proof (induction k front rest rule: absorb_followers.induct)
  case (3 k front next_row rest)
  let ?extra = "joined_text_blocks (prompt_blocks next_row)"
  let ?front = "append_text_to_prompt ?extra front"
  have joined: "joined_text_blocks (prompt_blocks ?front) = joined_text_blocks (prompt_blocks front) @ TEXT_SEPARATOR @ ?extra"
    using 3(3,4) by (intro joined_append_text) simp_all
  obtain front' where "absorb_followers k ?front rest = (front' # drop k rest, take k rest)" "same_row front' ?front"
    "joined_text_blocks (prompt_blocks front') = join TEXT_SEPARATOR (map (\<lambda>i. joined_text_blocks (prompt_blocks i)) (?front # take k rest))"
    using 3 joined by auto
  then show ?case
    using joined same_row_trans [OF _ same_row_append]
    by (auto simp: join_map_Cons2 [symmetric] simp del: join.simps)
qed simp_all

end
