(* ===== verification/Utf8_Slice.thy ===== *)
theory Utf8_Slice
  imports Rust_Strings
begin

text \<open>
  Cutting a string at a byte position. \<open>s.get(..i)\<close> is a prefix of the characters when \<open>i\<close> is
  the byte length of one, and \<open>None\<close> otherwise; a position is a character boundary exactly in
  the first case. The loop \<open>while !s.is_char_boundary(end) { end -= 1 }\<close> occurs in several
  sources; it is shared here with the fact that it finds the longest prefix that fits.
\<close>

fun str_prefix :: "rstring \<Rightarrow> nat \<Rightarrow> rstring option" where
  "str_prefix s 0 = Some []"
| "str_prefix [] (Suc n) = None"
| "str_prefix (c # cs) (Suc n) =
     (if char_utf8_len c \<le> Suc n
      then map_option ((#) c) (str_prefix cs (Suc n - char_utf8_len c)) else None)"

definition str_is_char_boundary :: "rstring \<Rightarrow> nat \<Rightarrow> bool" where
  "str_is_char_boundary s i \<longleftrightarrow> str_prefix s i \<noteq> None"

fun floor_boundary :: "rstring \<Rightarrow> nat \<Rightarrow> nat" where
  "floor_boundary s 0 = 0"
| "floor_boundary s (Suc n) =
     (if str_is_char_boundary s (Suc n) then Suc n else floor_boundary s n)"

section \<open>Lemmas\<close>

lemma char_utf8_len_pos [simp]: "0 < char_utf8_len c"
  by (simp add: char_utf8_len_def)

lemma char_utf8_len_le: "char_utf8_len c \<le> 4"
  by (simp add: char_utf8_len_def)

lemma utf8_len_simps [simp]:
  "utf8_len [] = 0" "utf8_len (c # cs) = char_utf8_len c + utf8_len cs"
  "utf8_len (a @ b) = utf8_len a + utf8_len b"
  by (simp_all add: utf8_len_def)

lemma utf8_len_ge_length: "length s \<le> utf8_len s"
proof (induction s)
  case (Cons c s)
  have "1 \<le> char_utf8_len c" by (simp add: char_utf8_len_def)
  then show ?case using Cons by (simp del: char_utf8_len_pos)
qed simp

lemma utf8_len_take_le: "utf8_len (take k s) \<le> utf8_len s"
  by (metis append_take_drop_id le_add1 utf8_len_simps(3))

lemma str_prefix_iff: "str_prefix s i = Some p \<longleftrightarrow> (\<exists>r. s = p @ r) \<and> utf8_len p = i"
proof (induction s i arbitrary: p rule: str_prefix.induct)
  case (1 s)
  show ?case by (cases p) auto
next
  case (2 n)
  show ?case by auto
next
  case (3 c cs n)
  show ?case
  proof (cases p)
    case Nil
    then show ?thesis by auto
  next
    case (Cons d p')
    show ?thesis
    proof (cases "char_utf8_len c \<le> Suc n")
      case True
      have "utf8_len p' = Suc n - char_utf8_len c \<longleftrightarrow> char_utf8_len c + utf8_len p' = Suc n"
        using True by auto
      then show ?thesis using True 3 Cons by auto
    next
      case False
      then show ?thesis using Cons by auto
    qed
  qed
qed

lemma str_boundary_iff: "str_is_char_boundary s i \<longleftrightarrow> (\<exists>p r. s = p @ r \<and> utf8_len p = i)"
  by (auto simp: str_is_char_boundary_def str_prefix_iff)

lemma str_boundary_0 [simp]: "str_is_char_boundary s 0"
  by (simp add: str_is_char_boundary_def)

lemma floor_boundary_le: "floor_boundary s n \<le> n"
  by (induction n) (auto intro: le_SucI)

lemma floor_boundary_boundary [simp]: "str_is_char_boundary s (floor_boundary s n)"
  by (induction n) auto

lemma floor_boundary_greatest: "str_is_char_boundary s i \<Longrightarrow> i \<le> n \<Longrightarrow> i \<le> floor_boundary s n"
  by (induction n) (auto simp: le_Suc_eq)

lemma boundary_gap:
  assumes "n \<le> utf8_len s"
  shows "\<exists>i \<le> n. n < i + 4 \<and> str_is_char_boundary s i"
  using assms
proof (induction s arbitrary: n)
  case Nil
  then show ?case by auto
next
  case (Cons c s)
  show ?case
  proof (cases "char_utf8_len c \<le> n")
    case True
    have le: "n - char_utf8_len c \<le> utf8_len s" using Cons.prems by simp
    then obtain i where i: "i \<le> n - char_utf8_len c" "n - char_utf8_len c < i + 4"
      "str_is_char_boundary s i"
      using Cons.IH [of "n - char_utf8_len c", OF le] by auto
    then obtain p r where "s = p @ r" "utf8_len p = i" by (auto simp: str_boundary_iff)
    then have "c # s = (c # p) @ r" "utf8_len (c # p) = char_utf8_len c + i" by simp_all
    then have "str_is_char_boundary (c # s) (char_utf8_len c + i)"
      unfolding str_boundary_iff by blast
    then show ?thesis using i True by (intro exI [of _ "char_utf8_len c + i"]) linarith
  next
    case False
    then have "n < 4" using char_utf8_len_le [of c] by linarith
    then show ?thesis by (intro exI [of _ 0]) simp
  qed
qed

lemma floor_boundary_gap: "n \<le> utf8_len s \<Longrightarrow> n < floor_boundary s n + 4"
  using boundary_gap [of n s] floor_boundary_greatest by fastforce

lemma floor_boundary_prefix:
  obtains p r where "str_prefix s (floor_boundary s n) = Some p" "s = p @ r"
    "utf8_len p = floor_boundary s n" "utf8_len p \<le> n"
proof -
  obtain p where p: "str_prefix s (floor_boundary s n) = Some p"
    using floor_boundary_boundary [of s n] unfolding str_is_char_boundary_def by blast
  then obtain r where "s = p @ r" "utf8_len p = floor_boundary s n" by (auto simp: str_prefix_iff)
  then show ?thesis using that p floor_boundary_le [of s n] by simp
qed

lemma floor_boundary_all [simp]: "floor_boundary s (utf8_len s) = utf8_len s"
proof -
  have "str_is_char_boundary s (utf8_len s)" unfolding str_boundary_iff by auto
  then show ?thesis using floor_boundary_greatest floor_boundary_le by (metis le_antisym order_refl)
qed

end
