(* ===== verification/Interjection.thy ===== *)
theory Interjection
  imports Utf8_Slice
begin

text \<open>
  The queue of out-of-band events and the framing of messages that reach a running turn
  (\<open>xai-interjection-core/src/events.rs\<close>, \<open>buffer.rs\<close>, \<open>format.rs\<close>). The queue is behind a mutex; every
  operation here is one critical section on its contents.
\<close>

section \<open>The event queue\<close>

type_synonym 'e event_queue = "'e list"

definition push_event :: "'e \<Rightarrow> 'e event_queue \<Rightarrow> 'e event_queue" where
  "push_event e q = q @ [e]"

definition push_capped :: "'e \<Rightarrow> nat \<Rightarrow> 'e event_queue \<Rightarrow> 'e event_queue" where
  "push_capped e cap q =
     (let q' = q @ [e] in if cap < length q' then drop (length q' - cap) q' else q')"

definition drain_matching :: "('e \<Rightarrow> bool) \<Rightarrow> 'e event_queue \<Rightarrow> 'e event_queue \<times> 'e list" where
  "drain_matching wanted q = (let (matched, kept) = partition wanted q in (kept, matched))"

definition drain_all :: "'e event_queue \<Rightarrow> 'e event_queue \<times> 'e list" where
  "drain_all q = ([], q)"

definition restore_front :: "'e list \<Rightarrow> 'e event_queue \<Rightarrow> 'e event_queue" where
  "restore_front events q = (if events = [] then q else events @ q)"

definition clear_events :: "'e event_queue \<Rightarrow> 'e event_queue" where
  "clear_events q = []"

section \<open>Framing\<close>

definition LARGE_PROMPT_THRESHOLD :: nat where "LARGE_PROMPT_THRESHOLD = 25000"

definition INTERJECTION_NOTE :: rstring where
  "INTERJECTION_NOTE = lit ''The user sent a message while you were working:''"

definition INTERRUPT_NOTE :: rstring where
  "INTERRUPT_NOTE = lit ''The user interrupted the previous turn:''"

definition UNFINISHED_TASKS_REMINDER :: rstring where
  "UNFINISHED_TASKS_REMINDER = lit ''Make sure to complete any unfinished tasks from previous turns.''"

definition user_query :: "rstring \<Rightarrow> rstring" where
  "user_query user_message = lit ''<user_query>'' @ [nl] @ user_message @ [nl] @ lit ''</user_query>''"

definition frame_user_turn :: "rstring \<Rightarrow> rstring \<Rightarrow> rstring" where
  "frame_user_turn note_text assembled = note_text @ [nl] @ assembled @ [nl] @ UNFINISHED_TASKS_REMINDER"

fun char_indices :: "nat \<Rightarrow> rstring \<Rightarrow> (nat \<times> rchar) list" where
  "char_indices i [] = []"
| "char_indices i (c # cs) = (i, c) # char_indices (i + char_utf8_len c) cs"

definition cut_end :: "rstring \<Rightarrow> nat" where
  "cut_end s =
     (case takeWhile (\<lambda>(i, c). i < LARGE_PROMPT_THRESHOLD) (char_indices 0 s) of
        [] \<Rightarrow> utf8_len s
      | started \<Rightarrow> (let (i, c) = last started in i + char_utf8_len c))"

text \<open>\<open>None\<close> is the panic of a slice that is not at a character boundary.\<close>

definition truncated_query :: "rstring \<Rightarrow> rstring option" where
  "truncated_query s =
     (if utf8_len s \<le> LARGE_PROMPT_THRESHOLD then Some s
      else map_option (\<lambda>p. p @ lit ''... [truncated]'') (str_prefix s (cut_end s)))"

definition format_steered_query :: "rstring \<Rightarrow> rstring \<Rightarrow> rstring option" where
  "format_steered_query note_text s = map_option (\<lambda>t. frame_user_turn note_text (user_query t)) (truncated_query s)"

definition format_interjection :: "rstring \<Rightarrow> rstring option" where
  "format_interjection = format_steered_query INTERJECTION_NOTE"

definition format_interrupt :: "rstring \<Rightarrow> rstring option" where
  "format_interrupt = format_steered_query INTERRUPT_NOTE"

type_synonym 'x pending_interjection = "rstring \<times> 'x list"

definition drain_formatted ::
  "(rstring \<Rightarrow> rstring) \<Rightarrow> 'x pending_interjection event_queue \<Rightarrow> 'x pending_interjection event_queue \<times> (rstring option \<times> 'x list) list" where
  "drain_formatted sanitize_text q =
     (let (q', entries) = drain_all q in (q', map (\<lambda>(s, atts). (format_interjection (sanitize_text s), atts)) entries))"

section \<open>The queue as a buffer\<close>

text \<open>
  What a consumer of the queue relies on: pushes append, a drain takes everything in order, and what an
  aborted consumer puts back is where it was.
\<close>

locale event_buffer =
  fixes push :: "'e \<Rightarrow> 'q \<Rightarrow> 'q"
    and drain :: "'q \<Rightarrow> 'q \<times> 'e list"
    and restore :: "'e list \<Rightarrow> 'q \<Rightarrow> 'q"
    and contents :: "'q \<Rightarrow> 'e list"
  assumes contents_push: "contents (push e q) = contents q @ [e]"
    and contents_drain: "contents (fst (drain q)) = []" "snd (drain q) = contents q"
    and contents_restore: "contents (restore es q) = es @ contents q"
begin

lemma aborted_drain:
  "contents (restore (snd (drain q)) (fold push later (fst (drain q)))) = contents (fold push later q)"
proof -
  have "contents (fold push es q') = contents q' @ es" for es q'
    by (induction es arbitrary: q') (simp_all add: contents_push)
  then show ?thesis by (simp add: contents_restore contents_drain)
qed

lemma drained_in_order: "snd (drain (fold push es (fst (drain q)))) = es"
proof -
  have "contents (fold push es q') = contents q' @ es" for q'
    by (induction es arbitrary: q') (simp_all add: contents_push)
  then show ?thesis by (simp add: contents_drain)
qed

end

interpretation event_queue: event_buffer push_event drain_all restore_front "\<lambda>q. q"
  by unfold_locales (simp_all add: push_event_def drain_all_def restore_front_def)

text \<open>
  A drain that is aborted and restored is as if it had not happened, whatever was pushed meanwhile.
\<close>

theorem aborted_drain_restores:
  "restore_front (snd (drain_all q)) (fold push_event later (fst (drain_all q))) = fold push_event later q"
  by (rule event_queue.aborted_drain)

lemma push_capped_eq: "push_capped e cap q = drop (Suc (length q) - cap) (q @ [e])"
  by (simp add: push_capped_def Let_def del: drop_append)

lemma push_capped_bounded: "length (push_capped e cap q) \<le> cap"
  by (simp add: push_capped_eq del: drop_append)

lemma drain_matching_eq: "drain_matching wanted q = (filter (\<lambda>e. \<not> wanted e) q, filter wanted q)"
  by (simp add: drain_matching_def partition_filter_conv comp_def)

section \<open>Truncation\<close>

lemma started_prefix:
  "takeWhile (\<lambda>(i, c). i < m) (char_indices n s) = char_indices n (take k s) \<and> k \<le> length s"
  if "k = length (takeWhile (\<lambda>(i, c). i < m) (char_indices n s))"
  using that
proof (induction s arbitrary: n k)
  case (Cons c s)
  then show ?case by (cases "n < m") (auto split: nat.splits)
qed simp

lemma char_indices_snoc: "char_indices n (p @ [c]) = char_indices n p @ [(n + utf8_len p, c)]"
  by (induction p arbitrary: n) (simp_all add: add.assoc)

lemma cut_end_prefix:
  assumes "s \<noteq> []"
  shows "\<exists>p c r. s = p @ c # r \<and> cut_end s = utf8_len p + char_utf8_len c \<and> utf8_len p < LARGE_PROMPT_THRESHOLD"
proof -
  let ?w = "takeWhile (\<lambda>(i, c). i < LARGE_PROMPT_THRESHOLD) (char_indices 0 s)"
  have w: "?w = char_indices 0 (take (length ?w) s)" using started_prefix [OF refl] by blast
  have ne: "?w \<noteq> []" using assms by (cases s) (simp_all add: LARGE_PROMPT_THRESHOLD_def)
  then have "take (length ?w) s \<noteq> []" using w by (metis char_indices.simps(1))
  then obtain p c where pc: "take (length ?w) s = p @ [c]" by (metis rev_exhaust)
  then have last: "last ?w = (utf8_len p, c)" using w by (simp add: char_indices_snoc)
  then have "cut_end s = utf8_len p + char_utf8_len c"
    using ne by (cases ?w) (simp_all add: cut_end_def)
  moreover have "utf8_len p < LARGE_PROMPT_THRESHOLD"
    using last_in_set [OF ne] last set_takeWhileD by fastforce
  moreover have "s = p @ c # drop (length ?w) s"
    using append_take_drop_id [of "length ?w" s] pc by simp
  ultimately show ?thesis by blast
qed

text \<open>
  Framing a message never panics. A message within the threshold is kept as it is; a longer one keeps a
  prefix that ends with the character that reaches the threshold, so at most three bytes more.
\<close>

theorem truncated_query_bounds:
  "\<exists>kept rest. s = kept @ rest \<and>
     truncated_query s = Some (if utf8_len s \<le> LARGE_PROMPT_THRESHOLD then s else kept @ lit ''... [truncated]'') \<and>
     utf8_len kept \<le> LARGE_PROMPT_THRESHOLD + 3"
proof (cases "utf8_len s \<le> LARGE_PROMPT_THRESHOLD")
  case True
  then show ?thesis by (intro exI [of _ s] exI [of _ "[]"]) (simp add: truncated_query_def)
next
  case False
  then have "s \<noteq> []" by auto
  then obtain p c r where cut: "s = p @ c # r" "cut_end s = utf8_len p + char_utf8_len c" "utf8_len p < LARGE_PROMPT_THRESHOLD"
    using cut_end_prefix by blast
  then have "str_prefix s (cut_end s) = Some (p @ [c])"
    by (simp add: str_prefix_iff)
  moreover have "utf8_len (p @ [c]) \<le> LARGE_PROMPT_THRESHOLD + 3"
    using cut(3) char_utf8_len_le [of c] by simp
  ultimately show ?thesis using False cut(1) by (intro exI [of _ "p @ [c]"] exI [of _ r]) (simp add: truncated_query_def)
qed

end
