(* ===== verification/Queue_Ops.thy ===== *)
theory Queue_Ops
  imports Prompt_Queue Interjection
begin

text \<open>
  The handlers of the prompt queue (\<open>acp_session_impl/prompt_queue.rs\<close>, with \<open>State\<close> of \<open>acp_session.rs\<close>, the
  finalization gate of \<open>turn_task.rs\<close>, the promoter of \<open>notification_drain.rs\<close>, the interjection buffer of
  \<open>interjection.rs\<close> and the row handling of \<open>turn_end.rs\<close>, \<open>cancel.rs\<close> and \<open>tool_calls.rs\<close>). Every definition is
  one section of code that holds the state lock. What the handlers do outside the state is a list of
  effects. What they read from outside (configuration, goal status, clock, fresh identifiers, trackers) is
  an argument. Tracing, telemetry and the export of traces are left out.
\<close>

section \<open>State\<close>

record agent_task =
  at_prompt_id :: rstring
  at_epoch :: nat
  at_identity :: nat

datatype finalization_binding = TaskBinding agent_task | NoTask "rstring option"

record finalization_lease =
  fl_token :: u64
  fl_binding :: finalization_binding

datatype 'x prompt_reply = RemovedFromQueue | TurnReply 'x | CancelledReply bool

datatype 'x queue_effect =
    Answered nat "'x prompt_reply"
  | SenderDropped nat prompt_origin
  | QueueChanged queue_changed
  | PlannerSteered rstring
  | InterjectionShown rstring rstring
  | ReservationReleased rstring
  | SideCallsInvalidated
  | HistoryAppended rstring bool
  | OverridesApplied "'x option"
  | WakeGateCleared
  | InterjectionsSubmitted "(rstring \<times> 'x list) list"

record 'x queue_state =
  session_id :: rstring
  running_task :: "agent_task option"
  next_token :: u64
  active_token :: "u64 option"
  pending_inputs :: "'x input_item list"
  edit_holds :: "(rstring \<times> instant) list"
  notifications_suppressed :: bool
  hook_block_hold :: bool
  rewindable :: bool
  front_message_committed :: bool
  pending_interjections :: "'x pending_interjection event_queue"
  draining :: "'x pending_interjection list"
  effects :: "'x queue_effect list"

definition queue_init :: "rstring \<Rightarrow> 'x queue_state" where
  "queue_init sid = \<lparr>session_id = sid, running_task = None, next_token = 0, active_token = None,
     pending_inputs = [], edit_holds = [], notifications_suppressed = False, hook_block_hold = False,
     rewindable = False, front_message_committed = False, pending_interjections = [], draining = [],
     effects = []\<rparr>"

definition emit :: "'x queue_effect \<Rightarrow> 'x queue_state \<Rightarrow> 'x queue_state" where
  "emit e s = s\<lparr>effects := effects s @ [e]\<rparr>"

definition emits :: "'x queue_effect list \<Rightarrow> 'x queue_state \<Rightarrow> 'x queue_state" where
  "emits es s = s\<lparr>effects := effects s @ es\<rparr>"

definition running_prompt_id :: "'x queue_state \<Rightarrow> rstring option" where
  "running_prompt_id s = map_option at_prompt_id (running_task s)"

definition arm_hook_block_hold :: "'x queue_state \<Rightarrow> 'x queue_state" where
  "arm_hook_block_hold s = s\<lparr>hook_block_hold := True\<rparr>"

definition take_hook_block_hold :: "'x queue_state \<Rightarrow> 'x queue_state \<times> bool" where
  "take_hook_block_hold s = (s\<lparr>hook_block_hold := False\<rparr>, hook_block_hold s)"

definition is_session_idle_for_injection :: "'x queue_state \<Rightarrow> bool" where
  "is_session_idle_for_injection s \<longleftrightarrow> running_task s = None \<and> active_token s = None \<and>
     pending_inputs s = [] \<and> \<not> notifications_suppressed s \<and> \<not> hook_block_hold s"

definition state_is_busy :: "'x queue_state \<Rightarrow> bool" where
  "state_is_busy s \<longleftrightarrow> running_task s \<noteq> None \<or> active_token s \<noteq> None \<or> pending_inputs s \<noteq> []"

text \<open>Rows that match are taken out, except the running turn's own row.\<close>

definition sweep_pending_inputs ::
  "('x input_item \<Rightarrow> bool) \<Rightarrow> 'x queue_state \<Rightarrow> 'x queue_state \<times> 'x input_item list" where
  "sweep_pending_inputs drop_if s =
     (let out = (\<lambda>i. running_prompt_id s \<noteq> Some (prompt_id i) \<and> drop_if i)
      in (s\<lparr>pending_inputs := filter (\<lambda>i. \<not> out i) (pending_inputs s)\<rparr>, filter out (pending_inputs s)))"

definition broadcast_queue_changed :: "'x queue_state \<Rightarrow> 'x queue_state" where
  "broadcast_queue_changed s =
     emit (QueueChanged (broadcast_payload (session_id s) (running_prompt_id s) (pending_inputs s))) s"

definition broadcast_queue_changed_promoting :: "running_prompt_display \<Rightarrow> 'x queue_state \<Rightarrow> 'x queue_state" where
  "broadcast_queue_changed_promoting r s =
     emit (QueueChanged (queue_changed_payload (session_id s) (running_prompt_id s) (pending_inputs s) (Some r))) s"

definition respond_removed_prompt :: "'x input_item \<Rightarrow> 'x queue_state \<Rightarrow> 'x queue_state" where
  "respond_removed_prompt i = emit (Answered (respond_to i) RemovedFromQueue)"

text \<open>Senders that are dropped unanswered, with the reservations of their completions.\<close>

definition drop_senders :: "bool \<Rightarrow> 'x input_item list \<Rightarrow> 'x queue_state \<Rightarrow> 'x queue_state" where
  "drop_senders has_reservations rows s =
     emits (map (\<lambda>i. SenderDropped (respond_to i) (input_origin i)) rows)
       (emits (if has_reservations then map ReservationReleased (List.map_filter (completion_id \<circ> input_origin) rows)
               else []) s)"

section \<open>Edit holds\<close>

definition hold_insert :: "rstring \<Rightarrow> instant \<Rightarrow> (rstring \<times> instant) list \<Rightarrow> (rstring \<times> instant) list" where
  "hold_insert hid t holds = (hid, t) # filter (\<lambda>h. fst h \<noteq> hid) holds"

definition hold_remove :: "rstring \<Rightarrow> (rstring \<times> instant) list \<Rightarrow> (rstring \<times> instant) list" where
  "hold_remove hid holds = filter (\<lambda>h. fst h \<noteq> hid) holds"

definition EDIT_HOLD_TTL :: duration where
  "EDIT_HOLD_TTL = 10 * 60 * 1000000000"

definition expire_older_than :: "instant \<Rightarrow> duration \<Rightarrow> (rstring \<times> instant) list \<Rightarrow> (rstring \<times> instant) list" where
  "expire_older_than now ttl holds = filter (\<lambda>h. now - snd h < ttl) holds"

definition has_editable_row :: "'x queue_state \<Rightarrow> rstring \<Rightarrow> bool" where
  "has_editable_row s qid \<longleftrightarrow> (\<exists>i\<in>set (pending_inputs s). is_queue_editable i \<and> has_queue_id qid i)"

definition has_protected_row :: "'x queue_state \<Rightarrow> rstring \<Rightarrow> bool" where
  "has_protected_row s qid \<longleftrightarrow> (\<exists>i\<in>set (pending_inputs s). is_queue_protected i \<and> has_queue_id qid i)"

definition clear_hold_unless_protected :: "rstring \<Rightarrow> 'x queue_state \<Rightarrow> 'x queue_state" where
  "clear_hold_unless_protected qid s =
     (if has_protected_row s qid then s else s\<lparr>edit_holds := hold_remove qid (edit_holds s)\<rparr>)"

definition handle_hold_edit :: "rstring \<Rightarrow> instant \<Rightarrow> 'x queue_state \<Rightarrow> 'x queue_state" where
  "handle_hold_edit qid now s =
     (if has_editable_row s qid then s\<lparr>edit_holds := hold_insert qid now (edit_holds s)\<rparr> else s)"

definition handle_release_edit :: "rstring \<Rightarrow> 'x queue_state \<Rightarrow> 'x queue_state" where
  "handle_release_edit qid s =
     (if has_editable_row s qid then s\<lparr>edit_holds := hold_remove qid (edit_holds s)\<rparr> else s)"

definition release_hook_block_hold :: "'x queue_state \<Rightarrow> 'x queue_state" where
  "release_hook_block_hold s = fst (take_hook_block_hold s)"

section \<open>Questions about the queue\<close>

definition is_running_prompt :: "'x queue_state \<Rightarrow> rstring \<Rightarrow> bool" where
  "is_running_prompt s pid \<longleftrightarrow> running_prompt_id s = Some pid"

definition front_is_running :: "'x queue_state \<Rightarrow> bool" where
  "front_is_running s =
     (case pending_inputs s of [] \<Rightarrow> False | front # _ \<Rightarrow> running_prompt_id s = Some (prompt_id front))"

definition front_awaiting_commit :: "'x queue_state \<Rightarrow> bool" where
  "front_awaiting_commit s \<longleftrightarrow> \<not> front_message_committed s \<and> front_is_running s"

definition mark_front_message_committed :: "'x queue_state \<Rightarrow> 'x queue_state" where
  "mark_front_message_committed s = s\<lparr>front_message_committed := True\<rparr>"

definition send_now_insert_index :: "'x queue_state \<Rightarrow> nat" where
  "send_now_insert_index s =
     (let base = (if front_is_running s then 1 else 0)
      in base + length (takeWhile item_send_now (drop base (pending_inputs s))))"

definition send_now_cancels_running_turn :: "'x queue_state \<Rightarrow> bool \<Rightarrow> bool" where
  "send_now_cancels_running_turn s goal_active \<longleftrightarrow>
     running_prompt_id s \<noteq> None \<and> \<not> goal_active \<and> \<not> front_awaiting_commit s"

definition has_runnable_queued_user_row :: "instant \<Rightarrow> 'x queue_state \<Rightarrow> bool" where
  "has_runnable_queued_user_row now s =
     (case find (\<lambda>i. running_prompt_id s \<noteq> Some (prompt_id i) \<and> \<not> origin_is_synthetic (input_origin i)) (pending_inputs s) of
        None \<Rightarrow> False
      | Some i \<Rightarrow> (case map_of (edit_holds s) (prompt_id i) of
            Some since \<Rightarrow> EDIT_HOLD_TTL \<le> now - since
          | None \<Rightarrow> True))"

definition has_pending_goal_continuation :: "'x queue_state \<Rightarrow> bool" where
  "has_pending_goal_continuation s \<longleftrightarrow>
     (\<exists>i\<in>set (pending_inputs s). input_origin i \<in> {OGoalSummary, OGoalClassifierNudge})"

section \<open>Interjections\<close>

definition insert_at :: "nat \<Rightarrow> 'a \<Rightarrow> 'a list \<Rightarrow> 'a list" where
  "insert_at n x xs = take n xs @ x # drop n xs"

definition enqueue_prompt_as_planner_steering :: "'x input_item \<Rightarrow> 'x queue_state \<Rightarrow> 'x queue_state" where
  "enqueue_prompt_as_planner_steering i = emit (PlannerSteered (join [nl, nl] (trimmed_texts (prompt_blocks i))))"

fun image_of :: "'x content_block \<Rightarrow> 'x option" where
  "image_of (CImage x) = Some x"
| "image_of _ = None"

definition enqueue_prompt_as_interjection :: "'x input_item \<Rightarrow> 'x queue_state \<Rightarrow> 'x queue_state" where
  "enqueue_prompt_as_interjection i s =
     (let txt = join [nl, nl] (trimmed_texts (prompt_blocks i));
          attachments = List.map_filter image_of (prompt_blocks i)
      in respond_removed_prompt i
           (emit (InterjectionShown txt (prompt_id i))
             (s\<lparr>pending_interjections := push_event (txt, attachments) (pending_interjections s)\<rparr>)))"

text \<open>An interjection that missed its turn becomes a hidden prompt.\<close>

definition fallback_item :: "rstring \<times> nat \<times> 'x \<Rightarrow> rstring \<times> 'x list \<Rightarrow> bool \<Rightarrow> 'x input_item" where
  "fallback_item fresh entry front =
     \<lparr>prompt_id = lit ''interject-fallback-'' @ fst fresh,
      prompt_blocks = CText \<lparr>tb_text = fst entry, tb_meta = None\<rparr> # map CImage (snd entry),
      input_origin = OUser, tool_overrides_update = None, respond_to = fst (snd fresh), queue_meta = None,
      mutation_policy = qm_hidden, item_send_now = front, carried = snd (snd fresh)\<rparr>"

definition queue_interjection_fallback_prompt ::
  "rstring \<times> nat \<times> 'x \<Rightarrow> rstring \<times> 'x list \<Rightarrow> bool \<Rightarrow> 'x queue_state \<Rightarrow> 'x queue_state" where
  "queue_interjection_fallback_prompt fresh entry front s =
     (let s1 = emit SideCallsInvalidated s; i = fallback_item fresh entry front
      in if front then
           s1\<lparr>pending_inputs := insert_at (if front_is_running s1 then 1 else 0) i (pending_inputs s1)\<rparr>
         else s1\<lparr>pending_inputs := pending_inputs s1 @ [i]\<rparr>)"

text \<open>The entries are queued from the last to the first, each in front of the one before.\<close>

definition flush_stranded_interjections ::
  "(nat \<Rightarrow> rstring \<times> nat \<times> 'x) \<Rightarrow> 'x queue_state \<Rightarrow> 'x queue_state \<times> nat" where
  "flush_stranded_interjections fresh s =
     (let (buffer, stranded) = drain_all (pending_interjections s)
      in (fold (\<lambda>(n, entry). queue_interjection_fallback_prompt (fresh n) entry True)
            (rev (enumerate 0 stranded)) (s\<lparr>pending_interjections := buffer\<rparr>), length stranded))"

text \<open>
  The drain of the buffer into the running turn takes the entries into a guard. They are submitted
  to the chat state, or an abort or a failed submission restores them ahead of later ones.
\<close>

definition drain_take :: "'x queue_state \<Rightarrow> 'x queue_state" where
  "drain_take s =
     (let (buffer, entries) = drain_all (pending_interjections s)
      in s\<lparr>draining := draining s @ entries, pending_interjections := buffer\<rparr>)"

definition drain_submit :: "'x queue_state \<Rightarrow> 'x queue_state" where
  "drain_submit s =
     (if draining s = [] then s else emit (InterjectionsSubmitted (draining s)) (s\<lparr>draining := []\<rparr>))"

definition drain_restore :: "'x queue_state \<Rightarrow> 'x queue_state" where
  "drain_restore s = s\<lparr>pending_interjections := restore_front (draining s) (pending_interjections s), draining := []\<rparr>"

section \<open>Queueing a prompt\<close>

record 'x queue_request =
  rq_blocks :: "'x content_block list"
  rq_prompt_id :: rstring
  rq_origin :: prompt_origin
  rq_client_identifier :: "rstring option"
  rq_send_now :: bool
  rq_tool_overrides_update :: "'x option"
  rq_respond_to :: nat
  rq_carried :: 'x

record queue_env =
  env_is_subagent :: bool
  env_has_reservations :: bool
  env_follow_up_steer :: bool
  env_goal_active :: bool
  env_blocked_in_wait :: bool

definition queue_kind :: "prompt_origin \<Rightarrow> 'x content_block list \<Rightarrow> rstring" where
  "queue_kind org blocks =
     (case org of
        OParentAgentMessage _ _ \<Rightarrow> lit ''parent_agent_message''
      | OParentHumanMessage _ _ \<Rightarrow> lit ''parent_agent_message''
      | _ \<Rightarrow> if extract_bash_command blocks \<noteq> None then lit ''bash'' else lit ''prompt'')"

definition item_of_request :: "'x queue_request \<Rightarrow> 'x input_item" where
  "item_of_request rq =
     (let policy = qm_from_input_origin (rq_origin rq)
      in \<lparr>prompt_id = rq_prompt_id rq, prompt_blocks = rq_blocks rq, input_origin = rq_origin rq,
          tool_overrides_update = rq_tool_overrides_update rq, respond_to = rq_respond_to rq,
          queue_meta =
            (if \<not> qm_visible policy then None
             else Some \<lparr>qe_id = rq_prompt_id rq, qe_version = 0, qe_owner = rq_client_identifier rq,
               qe_last_editor = None, qe_kind = queue_kind (rq_origin rq) (rq_blocks rq),
               qe_text = queue_text_from_blocks (rq_blocks rq), qe_combined_texts = None\<rparr>),
          mutation_policy = policy, item_send_now = False, carried = rq_carried rq\<rparr>)"

text \<open>A user prompt takes the place of queued wakes, when one of them carries a completion.\<close>

definition preempt_wakes :: "bool \<Rightarrow> 'x queue_state \<Rightarrow> 'x queue_state" where
  "preempt_wakes has_reservations s =
     (if \<exists>i\<in>set (pending_inputs s). completion_id (input_origin i) \<noteq> None \<and> running_prompt_id s \<noteq> Some (prompt_id i)
      then let (s1, dropped) = sweep_pending_inputs (\<lambda>i. is_preemptible_runtime_wake (input_origin i)) s
           in drop_senders has_reservations dropped s1
      else s)"

definition commit_queued_delivery :: "'x input_item \<Rightarrow> 'x queue_state \<Rightarrow> 'x queue_state" where
  "commit_queued_delivery i s = broadcast_queue_changed (s\<lparr>pending_inputs := pending_inputs s @ [i]\<rparr>)"

definition insert_send_now :: "'x input_item \<Rightarrow> 'x queue_state \<Rightarrow> 'x queue_state" where
  "insert_send_now i s =
     s\<lparr>pending_inputs := insert_at (send_now_insert_index s) (i\<lparr>item_send_now := True\<rparr>) (pending_inputs s)\<rparr>"

definition held_user_queue :: "'x queue_state \<Rightarrow> bool" where
  "held_user_queue s \<longleftrightarrow>
     (\<exists>i\<in>set (pending_inputs s). ip_shutdown (origin_policy (input_origin i)) = Drain \<and>
        Some (prompt_id i) \<noteq> running_prompt_id s)"

definition record_prompt :: "queue_env \<Rightarrow> 'x queue_request \<Rightarrow> 'x queue_state \<Rightarrow> 'x queue_state" where
  "record_prompt env rq s =
     (let policy = origin_policy (rq_origin rq);
          raw = join [nl, nl] (map (trim \<circ> tb_text) (text_blocks (rq_blocks rq)));
          s1 = (if is_human_intent (ip_authority policy) then emit SideCallsInvalidated s else s)
      in if is_human_prompt (ip_analytics policy) \<and> raw \<noteq> [] \<and> \<not> env_is_subagent env
         then emit (HistoryAppended raw (extract_bash_command (rq_blocks rq) \<noteq> None)) s1 else s1)"

definition queue_input :: "queue_env \<Rightarrow> 'x queue_request \<Rightarrow> 'x queue_state \<Rightarrow> 'x queue_state \<times> bool" where
  "queue_input env rq s0 =
     (let s1 = record_prompt env rq s0;
          s = (if is_human_intent (ip_authority (origin_policy (rq_origin rq)))
               then preempt_wakes (env_has_reservations env) s1 else s1);
          item = item_of_request rq;
          turn_running = (running_prompt_id s \<noteq> None);
          auto_send_now = (env_follow_up_steer env \<and> turn_running \<and> env_blocked_in_wait env \<and> \<not> held_user_queue s);
          send_now = (is_queue_editable item \<and> (rq_send_now rq \<or> auto_send_now));
          cancel_running_turn = (send_now \<and> send_now_cancels_running_turn s (env_goal_active env));
          merge_into_goal = (send_now \<and> turn_running \<and> env_goal_active env \<and> extract_bash_command (rq_blocks rq) = None)
      in (if merge_into_goal then
            broadcast_queue_changed (enqueue_prompt_as_interjection item (enqueue_prompt_as_planner_steering item s))
          else if send_now then broadcast_queue_changed (insert_send_now item s)
          else commit_queued_delivery item s,
          cancel_running_turn))"

section \<open>Queue controls\<close>

fun position :: "('a \<Rightarrow> bool) \<Rightarrow> 'a list \<Rightarrow> nat option" where
  "position P [] = None"
| "position P (x # xs) = (if P x then Some 0 else map_option Suc (position P xs))"

definition remove_at :: "nat \<Rightarrow> 'a list \<Rightarrow> 'a list" where
  "remove_at n xs = take n xs @ drop (Suc n) xs"

lemma position_Some: "position P xs = Some k \<Longrightarrow> k < length xs \<and> P (xs ! k)"
  by (induction xs arbitrary: k) (auto split: if_splits)

lemma length_remove_at: "k < length xs \<Longrightarrow> length (remove_at k xs) < length xs"
  by (simp add: remove_at_def)

text \<open>
  The rows that go into the running turn: the first row that is not the running one and is visible or
  from a user, as long as that row may be promoted.
\<close>

definition may_promote :: "rstring option \<Rightarrow> (rstring \<times> instant) list \<Rightarrow> 'x input_item \<Rightarrow> bool" where
  "may_promote running_owner holds i \<longleftrightarrow>
     is_queue_editable i \<and> extract_bash_command (prompt_blocks i) = None \<and> \<not> item_send_now i \<and>
     prompt_id i \<notin> fst ` set holds \<and> Option.bind (queue_meta i) qe_owner = running_owner \<and>
     tool_overrides_update i = None"

function promote_prefix ::
  "rstring option \<Rightarrow> rstring option \<Rightarrow> (rstring \<times> instant) list \<Rightarrow> 'x input_item list \<Rightarrow> 'x input_item list \<times> 'x input_item list"
where
  "promote_prefix running_id running_owner holds pending =
     (case position (\<lambda>i. Some (prompt_id i) \<noteq> running_id \<and>
              (is_queue_visible i \<or> \<not> origin_is_synthetic (input_origin i))) pending of
        None \<Rightarrow> (pending, [])
      | Some pos \<Rightarrow>
          if may_promote running_owner holds (pending ! pos) then
            (let (kept, promoted) = promote_prefix running_id running_owner holds (remove_at pos pending)
             in (kept, pending ! pos # promoted))
          else (pending, []))"
  by pat_completeness auto
termination
  by (relation "measure (\<lambda>(_, _, _, pending). length pending)")
    (auto dest!: position_Some simp: length_remove_at)

declare promote_prefix.simps [simp del]

definition promote_queued_as_interjections :: "bool \<Rightarrow> 'x queue_state \<Rightarrow> 'x queue_state" where
  "promote_queued_as_interjections goal_active s =
     (case running_prompt_id s of
        None \<Rightarrow> s
      | Some running_id \<Rightarrow>
          if is_auto_wake (origin_from_prompt_id running_id) then s
          else
            let running_owner = Option.bind (find (\<lambda>i. prompt_id i = running_id) (pending_inputs s))
                  (\<lambda>i. Option.bind (queue_meta i) qe_owner);
                (kept, promoted) = promote_prefix (Some running_id) running_owner (edit_holds s) (pending_inputs s)
            in if promoted = [] then s
               else broadcast_queue_changed
                 (fold (\<lambda>i st. enqueue_prompt_as_interjection i
                      (if goal_active then enqueue_prompt_as_planner_steering i st else st))
                    promoted (s\<lparr>pending_inputs := kept\<rparr>)))"

definition remove_pending_row :: "nat \<Rightarrow> 'x queue_state \<Rightarrow> 'x queue_state" where
  "remove_pending_row pos s =
     (if pos < length (pending_inputs s) then
        let i = pending_inputs s ! pos
        in clear_hold_unless_protected (prompt_id i)
             (respond_removed_prompt i (s\<lparr>pending_inputs := remove_at pos (pending_inputs s)\<rparr>))
      else s)"

definition handle_remove_queued_prompt ::
  "rstring \<Rightarrow> u64 \<Rightarrow> rstring option \<Rightarrow> 'x queue_state \<Rightarrow> 'x queue_state \<times> bool" where
  "handle_remove_queued_prompt qid expected_version owner s =
     (case (if is_running_prompt s qid then None
            else position (editable_queue_meta_matches qid expected_version owner) (pending_inputs s)) of
        Some pos \<Rightarrow> (broadcast_queue_changed (remove_pending_row pos s), True)
      | None \<Rightarrow> (broadcast_queue_changed (clear_hold_unless_protected qid s), False))"

definition not_blank :: "rstring option \<Rightarrow> rstring option" where
  "not_blank t = (case t of Some x \<Rightarrow> if trim x = [] then None else Some x | None \<Rightarrow> None)"

record send_now_outcome =
  cancel_running_turn :: bool
  mutated :: bool

text \<open>The last branch before the no-op is the fallback that saves an edit when the row was not promoted.\<close>

definition handle_interject_queued_prompt ::
  "bool \<Rightarrow> rstring \<Rightarrow> u64 \<Rightarrow> rstring option \<Rightarrow> rstring option \<Rightarrow> 'x queue_state \<Rightarrow> 'x queue_state \<times> send_now_outcome" where
  "handle_interject_queued_prompt goal_active qid expected_version owner new_text s =
     (let turn_running = (running_prompt_id s \<noteq> None);
          cancel_decision = send_now_cancels_running_turn s goal_active;
          row_matches = editable_queue_meta_matches qid expected_version owner;
          running_is_row = (running_prompt_id s = Some qid);
          pos = (if running_is_row then None else position row_matches (pending_inputs s));
          (s1, out) =
            (case pos of
               Some k \<Rightarrow>
                 let row = pending_inputs s ! k;
                     item = (case not_blank new_text of Some t \<Rightarrow> apply_queued_prompt_edit t owner row | None \<Rightarrow> row);
                     s' = s\<lparr>pending_inputs := remove_at k (pending_inputs s)\<rparr>
                 in if turn_running \<and> goal_active \<and> extract_bash_command (prompt_blocks item) = None
                    then (enqueue_prompt_as_interjection item (enqueue_prompt_as_planner_steering item s'),
                          \<lparr>cancel_running_turn = False, mutated = True\<rparr>)
                    else (insert_send_now item s', \<lparr>cancel_running_turn = cancel_decision, mutated = True\<rparr>)
             | None \<Rightarrow>
                 (case (if running_is_row then None
                        else Option.bind (not_blank new_text) (\<lambda>t. map_option (Pair t) (position row_matches (pending_inputs s)))) of
                    Some (t, k) \<Rightarrow>
                      (s\<lparr>pending_inputs := (pending_inputs s)[k := apply_queued_prompt_edit t owner (pending_inputs s ! k)]\<rparr>,
                       \<lparr>cancel_running_turn = False, mutated = True\<rparr>)
                  | None \<Rightarrow> (s, \<lparr>cancel_running_turn = False, mutated = False\<rparr>)))
      in (broadcast_queue_changed (clear_hold_unless_protected qid s1), out))"

text \<open>Rows that may be moved give up their slots, are sorted by the wanted order and fill the slots again.\<close>

definition is_reorderable :: "rstring option \<Rightarrow> 'x input_item \<Rightarrow> bool" where
  "is_reorderable running_id i \<longleftrightarrow> is_queue_editable i \<and>
     (case queue_meta i of None \<Rightarrow> False | Some m \<Rightarrow> running_id \<noteq> Some (qe_id m))"

definition order_key :: "rstring list \<Rightarrow> 'x input_item \<Rightarrow> nat" where
  "order_key ordered_ids i =
     (case Option.bind (queue_meta i) (\<lambda>m. position (\<lambda>x. x = qe_id m) ordered_ids) of
        Some k \<Rightarrow> k | None \<Rightarrow> 2 ^ 64 - 1)"

fun fill_slots :: "('a \<Rightarrow> bool) \<Rightarrow> 'a list \<Rightarrow> 'a list \<Rightarrow> 'a list" where
  "fill_slots P [] queued = []"
| "fill_slots P (x # xs) queued =
     (if P x then (case queued of [] \<Rightarrow> fill_slots P xs [] | q # qs \<Rightarrow> q # fill_slots P xs qs)
      else x # fill_slots P xs queued)"

definition queue_ids :: "'x input_item list \<Rightarrow> rstring list" where
  "queue_ids pending = map qe_id (List.map_filter queue_meta pending)"

definition handle_reorder_queue :: "rstring list \<Rightarrow> 'x queue_state \<Rightarrow> 'x queue_state \<times> bool" where
  "handle_reorder_queue ordered_ids s =
     (let movable = is_reorderable (running_prompt_id s);
          queued = sort_key (order_key ordered_ids) (filter movable (pending_inputs s));
          s' = s\<lparr>pending_inputs := fill_slots movable (pending_inputs s) queued\<rparr>
      in (broadcast_queue_changed s', queue_ids (pending_inputs s) \<noteq> queue_ids (pending_inputs s')))"

definition survives_clear :: "rstring option \<Rightarrow> rstring option \<Rightarrow> 'x input_item \<Rightarrow> bool" where
  "survives_clear running_id owner i \<longleftrightarrow> \<not> is_queue_editable i \<or>
     (case queue_meta i of None \<Rightarrow> True
      | Some m \<Rightarrow> running_id = Some (qe_id m) \<or> (case owner of None \<Rightarrow> False | Some ow \<Rightarrow> qe_owner m \<noteq> Some ow))"

definition handle_clear_queue :: "rstring option \<Rightarrow> 'x queue_state \<Rightarrow> 'x queue_state \<times> bool" where
  "handle_clear_queue owner s =
     (let keep = survives_clear (running_prompt_id s) owner;
          cleared = filter (\<lambda>i. \<not> keep i) (pending_inputs s)
      in (broadcast_queue_changed
            (fold respond_removed_prompt cleared (s\<lparr>pending_inputs := filter keep (pending_inputs s)\<rparr>)),
          cleared \<noteq> []))"

definition handle_edit_queued_prompt ::
  "rstring \<Rightarrow> rstring \<Rightarrow> rstring option \<Rightarrow> 'x queue_state \<Rightarrow> 'x queue_state \<times> bool" where
  "handle_edit_queued_prompt qid new_text editor s =
     (let pos = (if trim new_text = [] \<or> is_running_prompt s qid then None
                 else position (\<lambda>i. is_queue_editable i \<and> has_queue_id qid i) (pending_inputs s));
          s1 = (case pos of None \<Rightarrow> s
                | Some k \<Rightarrow> s\<lparr>pending_inputs := (pending_inputs s)[k := apply_queued_prompt_edit new_text editor (pending_inputs s ! k)]\<rparr>);
          s2 = clear_hold_unless_protected qid s1
      in (if pos \<noteq> None then broadcast_queue_changed s2 else s2, pos \<noteq> None))"

section \<open>Turns\<close>

definition drop_pending_items_for_consumed_completions :: "bool \<Rightarrow> rstring list \<Rightarrow> 'x queue_state \<Rightarrow> 'x queue_state" where
  "drop_pending_items_for_consumed_completions has_reservations consumed_ids s =
     (if consumed_ids = [] then s
      else
        let (s1, dropped) = sweep_pending_inputs (\<lambda>i. case completion_id (input_origin i) of
                Some c \<Rightarrow> c \<in> set consumed_ids | None \<Rightarrow> False) s
        in drop_senders has_reservations dropped s1)"

definition drop_pending_synthetic_items :: "bool \<Rightarrow> 'x queue_state \<Rightarrow> 'x queue_state" where
  "drop_pending_synthetic_items has_reservations s =
     (let wake = (\<lambda>i. is_preemptible_runtime_wake (input_origin i))
      in drop_senders has_reservations (filter wake (pending_inputs s))
           (s\<lparr>pending_inputs := filter (\<lambda>i. \<not> wake i) (pending_inputs s)\<rparr>))"

definition rsplit_once :: "rchar \<Rightarrow> rstring \<Rightarrow> (rstring \<times> rstring) option" where
  "rsplit_once c txt = map_option (\<lambda>(a, b). (rev b, rev a)) (split_once c (rev txt))"

definition is_stale_front ::
  "rstring list \<Rightarrow> (rstring \<Rightarrow> nat \<Rightarrow> bool) \<Rightarrow> bool \<Rightarrow> prompt_origin \<Rightarrow> bool" where
  "is_stale_front reported unreported goal_loop_active org =
     (case org of
        OSubagentCompleted sid \<Rightarrow> sid \<in> set reported
      | OWorkflowCompleted cid \<Rightarrow>
          (case Option.bind (rsplit_once 45 cid) (\<lambda>(run_id, revision).
              map_option (Pair run_id) (parse_unsigned (2 ^ 64) revision)) of
             Some (run_id, revision) \<Rightarrow> \<not> unreported run_id revision
           | None \<Rightarrow> True)
      | OGoalSummary \<Rightarrow> \<not> goal_loop_active
      | OGoalClassifierNudge \<Rightarrow> \<not> goal_loop_active
      | _ \<Rightarrow> False)"

fun drop_stale_fronts :: "(prompt_origin \<Rightarrow> bool) \<Rightarrow> 'x input_item list \<Rightarrow> 'x input_item list \<times> 'x input_item list" where
  "drop_stale_fronts stale [] = ([], [])"
| "drop_stale_fronts stale (i # rest) =
     (if stale (input_origin i) then let (kept, gone) = drop_stale_fronts stale rest in (kept, i # gone)
      else (i # rest, []))"

record start_env =
  se_combine :: bool
  se_stale :: "prompt_origin \<Rightarrow> bool"
  se_now :: instant
  se_epoch :: nat
  se_identity :: nat
  se_has_gate :: bool

definition collect_holds :: "instant \<Rightarrow> 'x queue_state \<Rightarrow> 'x queue_state" where
  "collect_holds now s =
     (if edit_holds s = [] then s
      else s\<lparr>edit_holds := expire_older_than now EDIT_HOLD_TTL
             (filter (\<lambda>h. fst h \<in> prompt_id ` set (pending_inputs s)) (edit_holds s))\<rparr>)"

definition start_front :: "start_env \<Rightarrow> 'x input_item \<Rightarrow> 'x input_item list \<Rightarrow> 'x queue_state \<Rightarrow> 'x queue_state" where
  "start_front env front rest s =
     (let running_display = running_display_from_item front;
          s1 = emit (OverridesApplied (tool_overrides_update front))
                 (s\<lparr>pending_inputs := front\<lparr>tool_overrides_update := None\<rparr> # rest\<rparr>);
          s2 = (if is_human_intent (ip_authority (origin_policy (input_origin front)))
                then (if se_has_gate env then emit WakeGateCleared s1 else s1)\<lparr>notifications_suppressed := False\<rparr>
                else s1);
          s3 = broadcast_queue_changed_promoting running_display (s2\<lparr>rewindable := True, front_message_committed := False\<rparr>)
      in s3\<lparr>running_task := Some \<lparr>at_prompt_id = prompt_id front, at_epoch = se_epoch env, at_identity = se_identity env\<rparr>\<rparr>)"

definition discard_stale :: "start_env \<Rightarrow> 'x queue_state \<Rightarrow> 'x queue_state" where
  "discard_stale env s =
     (let (kept, gone) = drop_stale_fronts (se_stale env) (pending_inputs s)
      in collect_holds (se_now env) (fold respond_removed_prompt gone (s\<lparr>pending_inputs := kept\<rparr>)))"

definition merge_front :: "start_env \<Rightarrow> 'x queue_state \<Rightarrow> 'x queue_state" where
  "merge_front env s =
     (if se_combine env then
        let (q, removed) = combine_front_pending_inputs (pending_inputs s) (map fst (edit_holds s))
        in fold respond_removed_prompt removed (s\<lparr>pending_inputs := q\<rparr>)
      else s)"

definition front_held :: "'x queue_state \<Rightarrow> bool" where
  "front_held s = (case pending_inputs s of [] \<Rightarrow> False | front # _ \<Rightarrow> prompt_id front \<in> fst ` set (edit_holds s))"

definition promote_front :: "start_env \<Rightarrow> 'x queue_state \<Rightarrow> 'x queue_state" where
  "promote_front env s =
     (if front_held s then s
      else let s1 = merge_front env s
           in case pending_inputs s1 of [] \<Rightarrow> s1 | front # rest \<Rightarrow> start_front env front rest s1)"

definition maybe_start_running_task :: "start_env \<Rightarrow> 'x queue_state \<Rightarrow> 'x queue_state" where
  "maybe_start_running_task env s =
     (if running_task s \<noteq> None \<or> active_token s \<noteq> None \<or> pending_inputs s = [] \<or> hook_block_hold s then s
      else promote_front env (discard_stale env s))"

section \<open>The end of a turn\<close>

definition front_prompt_id :: "'x queue_state \<Rightarrow> rstring option" where
  "front_prompt_id s = (case pending_inputs s of [] \<Rightarrow> None | i # _ \<Rightarrow> Some (prompt_id i))"

fun matches_task :: "finalization_binding \<Rightarrow> agent_task \<Rightarrow> bool" where
  "matches_task (TaskBinding t) task = (t = task)"
| "matches_task (NoTask _) task = False"

definition gate_claim :: "finalization_binding \<Rightarrow> 'x queue_state \<Rightarrow> 'x queue_state \<times> finalization_lease option" where
  "gate_claim binding s =
     (if active_token s \<noteq> None then (s, None)
      else let token = next_token s + 1
           in (s\<lparr>next_token := token, active_token := Some token\<rparr>, Some \<lparr>fl_token = token, fl_binding = binding\<rparr>))"

definition claim_task_finalization :: "agent_task \<Rightarrow> 'x queue_state \<Rightarrow> 'x queue_state \<times> finalization_lease option" where
  "claim_task_finalization task s =
     (if front_prompt_id s \<noteq> Some (at_prompt_id task) \<or> running_task s \<noteq> Some task then (s, None)
      else gate_claim (TaskBinding task) s)"

definition claim_cancel_finalization :: "'x queue_state \<Rightarrow> 'x queue_state \<times> finalization_lease option" where
  "claim_cancel_finalization s =
     (case running_task s of
        Some task \<Rightarrow>
          if front_prompt_id s \<noteq> Some (at_prompt_id task) then (s, None) else gate_claim (TaskBinding task) s
      | None \<Rightarrow> gate_claim (NoTask (front_prompt_id s)) s)"

definition finalization_matches :: "finalization_lease \<Rightarrow> 'x queue_state \<Rightarrow> bool" where
  "finalization_matches lease s \<longleftrightarrow> active_token s = Some (fl_token lease)"

definition finalization_binding_is_current :: "finalization_lease \<Rightarrow> 'x queue_state \<Rightarrow> bool" where
  "finalization_binding_is_current lease s \<longleftrightarrow> finalization_matches lease s \<and>
     (case fl_binding lease of
        TaskBinding task \<Rightarrow> front_prompt_id s = Some (at_prompt_id task) \<and> running_task s = Some task
      | NoTask pid \<Rightarrow> running_task s = None \<and> front_prompt_id s = pid)"

definition release_finalizing_task :: "finalization_lease \<Rightarrow> 'x queue_state \<Rightarrow> 'x queue_state \<times> bool" where
  "release_finalizing_task lease s =
     (case running_task s of
        Some task \<Rightarrow>
          if finalization_matches lease s \<and> matches_task (fl_binding lease) task
          then (s\<lparr>running_task := None\<rparr>, True) else (s, False)
      | None \<Rightarrow> (s, False))"

definition finish_finalization :: "finalization_lease \<Rightarrow> 'x queue_state \<Rightarrow> 'x queue_state \<times> bool" where
  "finish_finalization lease s =
     (if \<not> finalization_matches lease s \<or> running_task s \<noteq> None then (s, False)
      else (s\<lparr>active_token := None\<rparr>, True))"

definition finish_finalization_lease :: "finalization_lease \<Rightarrow> 'x queue_state \<Rightarrow> 'x queue_state \<times> bool" where
  "finish_finalization_lease lease s =
     (case fl_binding lease of
        TaskBinding _ \<Rightarrow>
          (let (s1, ok) = release_finalizing_task lease s in if ok then finish_finalization lease s1 else (s1, False))
      | NoTask _ \<Rightarrow> finish_finalization lease s)"

text \<open>A message of the parent that a turn did not take, and the protected row it becomes.\<close>

record 'x parent_message =
  pm_prompt_id :: rstring
  pm_message_id :: rstring
  pm_sender_session_id :: rstring
  pm_from_human :: bool
  pm_text :: rstring
  pm_respond_to :: nat
  pm_carried :: 'x

definition into_input :: "'x parent_message \<Rightarrow> 'x input_item" where
  "into_input pm =
     (let blocks = [CText \<lparr>tb_text = pm_text pm, tb_meta = None\<rparr>]
      in \<lparr>prompt_id = pm_prompt_id pm, prompt_blocks = blocks,
          input_origin = (if pm_from_human pm then OParentHumanMessage (pm_message_id pm) (pm_sender_session_id pm)
                          else OParentAgentMessage (pm_message_id pm) (pm_sender_session_id pm)),
          tool_overrides_update = None, respond_to = pm_respond_to pm,
          queue_meta = Some \<lparr>qe_id = pm_prompt_id pm, qe_version = 0, qe_owner = None, qe_last_editor = None,
            qe_kind = lit ''parent_agent_message'', qe_text = queue_text_from_blocks blocks, qe_combined_texts = None\<rparr>,
          mutation_policy = \<lparr>qm_visible = True, qm_editable = False\<rparr>, item_send_now = False, carried = pm_carried pm\<rparr>)"

text \<open>
  The completed front is answered and leaves the queue; messages of the parent that the turn did not
  take become rows behind the others.
\<close>

definition completion_pop :: "rstring \<Rightarrow> 'x prompt_reply \<Rightarrow> 'x parent_message list \<Rightarrow> 'x queue_state \<Rightarrow> 'x queue_state \<times> bool" where
  "completion_pop pid result fallbacks s =
     (let (s1, owned, listed_row) =
            (case pending_inputs s of
               [] \<Rightarrow> (s, False, False)
             | i # rest \<Rightarrow>
                 if prompt_id i = pid
                 then (emit (Answered (respond_to i) result) (s\<lparr>pending_inputs := rest\<rparr>), True, queue_meta i \<noteq> None)
                 else (s, False, False));
          s2 = s1\<lparr>pending_inputs := pending_inputs s1 @ map into_input fallbacks\<rparr>
      in (if listed_row \<or> fallbacks \<noteq> [] then broadcast_queue_changed s2 else s2, owned))"

definition handle_completion ::
  "agent_task \<Rightarrow> 'x prompt_reply \<Rightarrow> 'x parent_message list \<Rightarrow> 'x queue_state \<Rightarrow> 'x queue_state \<times> bool" where
  "handle_completion task result fallbacks s =
     (case claim_task_finalization task s of
        (s1, None) \<Rightarrow> (s1, False)
      | (s1, Some lease) \<Rightarrow>
          let (s2, owned) = completion_pop (at_prompt_id task) result fallbacks s1;
              (s3, finished) = finish_finalization_lease lease s2
          in (s3, finished \<and> owned))"

text \<open>
  A cancel takes the first row as the running turn. A stop also answers the queued wakes of tasks and
  workflows; a teardown takes every row.
\<close>

definition is_task_wake :: "prompt_origin \<Rightarrow> bool" where
  "is_task_wake org = (case org of OTaskCompleted _ \<Rightarrow> True | OWorkflowCompleted _ \<Rightarrow> True | _ \<Rightarrow> False)"

definition cancel_rows ::
  "bool \<Rightarrow> bool \<Rightarrow> 'x input_item list \<Rightarrow> 'x input_item list \<times> 'x input_item list \<times> 'x input_item list" where
  "cancel_rows kill_background_tasks suppress_task_wakes pending =
     (if kill_background_tasks then ([], [], pending)
      else
        let gone = (\<lambda>i. suppress_task_wakes \<and> is_task_wake (input_origin i)); behind = drop 1 pending
        in (filter (\<lambda>i. \<not> gone i) behind, filter gone behind, take 1 pending))"

definition answer_cancelled :: "bool \<Rightarrow> bool \<Rightarrow> 'x input_item list \<Rightarrow> 'x queue_state \<Rightarrow> 'x queue_state" where
  "answer_cancelled has_reservations tore_down_task rows s =
     fold (\<lambda>(idx, i) st.
         emit (Answered (respond_to i) (CancelledReply (tore_down_task \<and> idx = 0)))
           (case completion_id (input_origin i) of
              Some c \<Rightarrow> if has_reservations then emit (ReservationReleased c) st else st
            | None \<Rightarrow> st))
       (enumerate 0 rows) s"

definition cancel_queue :: "bool \<Rightarrow> bool \<Rightarrow> bool \<Rightarrow> 'x parent_message list \<Rightarrow> 'x queue_state \<Rightarrow> 'x queue_state" where
  "cancel_queue has_reservations kill_background_tasks suppress_task_wakes fallbacks s =
     (let s1 = s\<lparr>pending_inputs := pending_inputs s @ map into_input fallbacks\<rparr>;
          (kept, removed, cancelled) = cancel_rows kill_background_tasks suppress_task_wakes (pending_inputs s1);
          s2 = fold respond_removed_prompt removed (s1\<lparr>pending_inputs := kept\<rparr>);
          s3 = (if fallbacks \<noteq> [] then broadcast_queue_changed s2 else s2)
      in answer_cancelled has_reservations (running_task s \<noteq> None) cancelled s3)"

end
