(* ===== verification/Queue_Steps.thy ===== *)
theory Queue_Steps
  imports Queue_Ops "HOL-Library.Multiset"
begin

text \<open>
  Runs of the prompt queue: any sequence of the handlers of \<open>Queue_Ops\<close>, as the session's command loop and
  its turn task interleave them. What the end of a turn does under separate locks of the state, the claim
  of the finalization, the pop of the finished row and the release, are separate steps, so that other
  handlers run between them. A lease of the finalization gate travels with the step that uses it, so
  a run may also present stale ones.
\<close>

section \<open>Steps\<close>

datatype 'x queue_op =
    QInput queue_env "'x queue_request"
  | QFallback "rstring \<times> nat \<times> 'x" "rstring \<times> 'x list" bool
  | QFlush "nat \<Rightarrow> rstring \<times> nat \<times> 'x"
  | QDrainTake
  | QDrainSubmit
  | QDrainRestore
  | QPromoteHeld bool
  | QRemove rstring u64 "rstring option"
  | QInterject bool rstring u64 "rstring option" "rstring option"
  | QReorder "rstring list"
  | QClear "rstring option"
  | QEdit rstring rstring "rstring option"
  | QHold rstring instant
  | QReleaseEdit rstring
  | QArmHook
  | QReleaseHook
  | QCommitted
  | QConsumed bool "rstring list"
  | QDropSynthetic bool
  | QStart start_env
  | QClaimCompletion agent_task
  | QCompletionPop rstring "'x prompt_reply" "'x parent_message list"
  | QClaimCancel
  | QCancel bool bool bool "'x parent_message list"
  | QFinish finalization_lease

fun queue_step :: "'x queue_op \<Rightarrow> 'x queue_state \<Rightarrow> 'x queue_state" where
  "queue_step (QInput env rq) s = fst (queue_input env rq s)"
| "queue_step (QFallback fresh entry front) s = queue_interjection_fallback_prompt fresh entry front s"
| "queue_step (QFlush fresh) s = fst (flush_stranded_interjections fresh s)"
| "queue_step QDrainTake s = drain_take s"
| "queue_step QDrainSubmit s = drain_submit s"
| "queue_step QDrainRestore s = drain_restore s"
| "queue_step (QPromoteHeld goal) s = promote_queued_as_interjections goal s"
| "queue_step (QRemove qid v owner) s = fst (handle_remove_queued_prompt qid v owner s)"
| "queue_step (QInterject goal qid v owner txt) s = fst (handle_interject_queued_prompt goal qid v owner txt s)"
| "queue_step (QReorder ids) s = fst (handle_reorder_queue ids s)"
| "queue_step (QClear owner) s = fst (handle_clear_queue owner s)"
| "queue_step (QEdit qid txt editor) s = fst (handle_edit_queued_prompt qid txt editor s)"
| "queue_step (QHold qid now) s = handle_hold_edit qid now s"
| "queue_step (QReleaseEdit qid) s = handle_release_edit qid s"
| "queue_step QArmHook s = arm_hook_block_hold s"
| "queue_step QReleaseHook s = release_hook_block_hold s"
| "queue_step QCommitted s = mark_front_message_committed s"
| "queue_step (QConsumed rv ids) s = drop_pending_items_for_consumed_completions rv ids s"
| "queue_step (QDropSynthetic rv) s = drop_pending_synthetic_items rv s"
| "queue_step (QStart env) s = maybe_start_running_task env s"
| "queue_step (QClaimCompletion task) s = fst (claim_task_finalization task s)"
| "queue_step (QCompletionPop pid result fallbacks) s = fst (completion_pop pid result fallbacks s)"
| "queue_step QClaimCancel s = fst (claim_cancel_finalization s)"
| "queue_step (QCancel rv kill suppress fallbacks) s = cancel_queue rv kill suppress fallbacks s"
| "queue_step (QFinish lease) s = fst (finish_finalization_lease lease s)"

definition run_queue :: "'x queue_op list \<Rightarrow> 'x queue_state \<Rightarrow> 'x queue_state" where
  "run_queue ops s = fold queue_step ops s"

lemma completion_is_three_steps:
  assumes "snd (claim_task_finalization task s) = Some lease"
  shows "fst (handle_completion task result fallbacks s) =
    run_queue [QClaimCompletion task, QCompletionPop (at_prompt_id task) result fallbacks, QFinish lease] s"
  using assms by (cases "claim_task_finalization task s") (simp add: handle_completion_def run_queue_def case_prod_unfold Let_def)

section \<open>Where every answer channel is\<close>

fun settled :: "'x queue_effect \<Rightarrow> nat option" where
  "settled (Answered ch r) = Some ch"
| "settled (SenderDropped ch org) = Some ch"
| "settled _ = None"

definition chans :: "'x input_item list \<Rightarrow> nat multiset" where
  "chans q = mset (map respond_to q)"

definition ledger :: "'x queue_state \<Rightarrow> nat multiset" where
  "ledger s = chans (pending_inputs s) + mset (List.map_filter settled (effects s))"

fun accepted :: "'x queue_op \<Rightarrow> 'x queue_state \<Rightarrow> nat multiset" where
  "accepted (QInput env rq) s = {#rq_respond_to rq#}"
| "accepted (QFallback fresh entry front) s = {#fst (snd fresh)#}"
| "accepted (QFlush fresh) s = mset (map (\<lambda>n. fst (snd (fresh n))) [0..<length (pending_interjections s)])"
| "accepted (QCompletionPop pid result fallbacks) s = chans (map into_input fallbacks)"
| "accepted (QCancel rv kill suppress fallbacks) s = chans (map into_input fallbacks)"
| "accepted _ s = {#}"

fun accepted_in :: "'x queue_op list \<Rightarrow> 'x queue_state \<Rightarrow> nat multiset" where
  "accepted_in [] s = {#}"
| "accepted_in (op # ops) s = accepted op s + accepted_in ops (queue_step op s)"

lemma map_filter_settled_simps [simp]:
  "List.map_filter settled [] = []"
  "List.map_filter settled (e # es) = (case settled e of Some ch \<Rightarrow> ch # List.map_filter settled es | None \<Rightarrow> List.map_filter settled es)"
  "List.map_filter settled (es @ es') = List.map_filter settled es @ List.map_filter settled es'"
  by (simp_all add: map_filter_simps map_filter_append split: option.split)

lemma ledger_emit [simp]:
  "ledger (emit e s) = ledger s + (case settled e of Some ch \<Rightarrow> {#ch#} | None \<Rightarrow> {#})"
  by (simp add: ledger_def emit_def split: option.split)

lemma ledger_emits: "ledger (emits es s) = ledger s + mset (List.map_filter settled es)"
  by (simp add: ledger_def emits_def)

lemma ledger_other [simp]:
  "ledger (s\<lparr>edit_holds := h\<rparr>) = ledger s"
  "ledger (s\<lparr>pending_interjections := p\<rparr>) = ledger s"
  "ledger (s\<lparr>draining := d\<rparr>) = ledger s"
  "ledger (s\<lparr>running_task := t\<rparr>) = ledger s"
  "ledger (s\<lparr>active_token := a\<rparr>) = ledger s"
  "ledger (s\<lparr>next_token := n\<rparr>) = ledger s"
  "ledger (s\<lparr>hook_block_hold := b\<rparr>) = ledger s"
  "ledger (s\<lparr>notifications_suppressed := b\<rparr>) = ledger s"
  "ledger (s\<lparr>rewindable := b\<rparr>) = ledger s"
  "ledger (s\<lparr>front_message_committed := b\<rparr>) = ledger s"
  by (simp_all add: ledger_def)

lemma ledger_pending_eq: "ledger (s\<lparr>pending_inputs := q\<rparr>) = chans q + mset (List.map_filter settled (effects s))"
  by (simp add: ledger_def)

lemma chans_simps [simp]:
  "chans [] = {#}" "chans (i # q) = add_mset (respond_to i) (chans q)" "chans (q @ q') = chans q + chans q'"
  by (simp_all add: chans_def)

lemma mset_respond_to [simp]: "image_mset respond_to (mset q) = chans q"
  by (simp add: chans_def)

lemma chans_filter: "chans (filter (\<lambda>i. \<not> P i) q) + chans (filter P q) = chans q"
  by (induction q) simp_all

lemma chans_insert_at [simp]: "chans (insert_at n i q) = add_mset (respond_to i) (chans q)"
proof -
  have "chans (take n q) + chans (drop n q) = chans q"
    unfolding chans_simps(3) [symmetric] by simp
  then show ?thesis by (simp add: insert_at_def)
qed

lemma chans_remove_at: "k < length q \<Longrightarrow> add_mset (respond_to (q ! k)) (chans (remove_at k q)) = chans q"
  by (subst (2) id_take_nth_drop [of k q]) (simp_all add: remove_at_def)

lemma chans_update: "respond_to i = respond_to (q ! k) \<Longrightarrow> chans (q[k := i]) = chans q"
  unfolding chans_def by (metis list_update_id map_update)

lemma fold_respond_removed:
  "fold respond_removed_prompt rows s = emits (map (\<lambda>i. Answered (respond_to i) RemovedFromQueue) rows) s"
  by (induction rows arbitrary: s) (simp_all add: respond_removed_prompt_def emit_def emits_def)

lemma map_filter_all: "(\<And>x. x \<in> set xs \<Longrightarrow> f x = Some (g x)) \<Longrightarrow> List.map_filter f xs = map g xs"
  by (induction xs) (simp_all add: map_filter_simps)

lemma settled_removed [simp]: "List.map_filter settled (map (\<lambda>i. Answered (respond_to i) r) rows) = map respond_to rows"
  by (induction rows) simp_all

lemma settled_dropped [simp]:
  "List.map_filter settled (map (\<lambda>i. SenderDropped (respond_to i) (input_origin i)) rows) = map respond_to rows"
  by (induction rows) simp_all

lemma settled_reservations [simp]: "List.map_filter settled (map ReservationReleased cs) = []"
  by (induction cs) simp_all

lemma ledger_broadcast [simp]: "ledger (broadcast_queue_changed s) = ledger s"
  by (simp add: broadcast_queue_changed_def)

lemma ledger_drop_senders: "ledger (drop_senders rv rows s) = ledger s + chans rows"
  by (simp add: drop_senders_def ledger_emits)

lemma ledger_clear_hold [simp]: "ledger (clear_hold_unless_protected qid s) = ledger s"
  by (simp add: clear_hold_unless_protected_def)

lemma ledger_interjection [simp]:
  "ledger (enqueue_prompt_as_interjection i s) = add_mset (respond_to i) (ledger s)"
  "ledger (enqueue_prompt_as_planner_steering i s) = ledger s"
  by (simp_all add: enqueue_prompt_as_interjection_def enqueue_prompt_as_planner_steering_def respond_removed_prompt_def Let_def)

lemma ledger_insert_send_now [simp]: "ledger (insert_send_now i s) = add_mset (respond_to i) (ledger s)"
  by (simp add: insert_send_now_def ledger_def)

lemma ledger_sweep:
  "sweep_pending_inputs P s = (s', dropped) \<Longrightarrow> ledger s' + chans dropped = ledger s"
proof -
  assume sw: "sweep_pending_inputs P s = (s', dropped)"
  let ?out = "\<lambda>i. running_prompt_id s \<noteq> Some (prompt_id i) \<and> P i"
  have "ledger s' + chans dropped =
      chans (filter (\<lambda>i. \<not> ?out i) (pending_inputs s)) + chans (filter ?out (pending_inputs s)) + mset (List.map_filter settled (effects s))"
    using sw by (auto simp: sweep_pending_inputs_def ledger_def Let_def)
  then show ?thesis unfolding chans_filter by (simp add: ledger_def)
qed

lemma ledger_sweep_drop:
  "ledger (case sweep_pending_inputs P s of (s1, dropped) \<Rightarrow> drop_senders rv dropped s1) = ledger s"
  by (cases "sweep_pending_inputs P s") (simp add: ledger_drop_senders ledger_sweep)

lemma ledger_preempt [simp]: "ledger (preempt_wakes rv s) = ledger s"
  by (simp add: preempt_wakes_def ledger_sweep_drop)

lemma ledger_record_prompt [simp]: "ledger (record_prompt env rq s) = ledger s"
  by (simp add: record_prompt_def Let_def)

lemma ledger_queue_input: "ledger (fst (queue_input env rq s)) = add_mset (rq_respond_to rq) (ledger s)"
proof -
  have "respond_to (item_of_request rq) = rq_respond_to rq"
    by (simp add: item_of_request_def Let_def)
  moreover have "ledger (commit_queued_delivery i s') = add_mset (respond_to i) (ledger s')" for i :: "'a input_item" and s'
    by (simp add: commit_queued_delivery_def ledger_pending_eq) (simp add: ledger_def)
  ultimately show ?thesis by (simp add: queue_input_def Let_def)
qed

lemma ledger_fallback: "ledger (queue_interjection_fallback_prompt fresh entry front s) = add_mset (fst (snd fresh)) (ledger s)"
proof -
  have "respond_to (fallback_item fresh entry b) = fst (snd fresh)" for b
    by (simp add: fallback_item_def)
  then show ?thesis
    by (simp add: queue_interjection_fallback_prompt_def Let_def ledger_pending_eq emit_def) (simp add: ledger_def)
qed

lemma ledger_flush:
  "ledger (fst (flush_stranded_interjections fresh s)) = ledger s + accepted (QFlush fresh) s"
proof -
  let ?chan = "\<lambda>n. fst (snd (fresh n))"
  have folded: "ledger (fold (\<lambda>(n, entry). queue_interjection_fallback_prompt (fresh n) entry True) es s')
      = ledger s' + image_mset ?chan (mset (map fst es))" for es s'
    by (induction es arbitrary: s') (auto simp: ledger_fallback)
  have "map fst (enumerate 0 xs) = [0..<length xs]" for xs :: "(rstring \<times> 'a list) list"
    by simp
  then have "mset (map fst (rev (enumerate 0 xs))) = mset [0..<length xs]" for xs :: "(rstring \<times> 'a list) list"
    by (simp only: rev_map [symmetric] mset_rev)
  then show ?thesis
    unfolding flush_stranded_interjections_def drain_all_def Let_def prod.case fst_conv folded by (simp del: mset_upt)
qed

lemma ledger_promote_prefix:
  "promote_prefix r ow holds q = (kept, promoted) \<Longrightarrow> chans kept + chans promoted = chans q"
proof (induction r ow holds q arbitrary: kept promoted rule: promote_prefix.induct)
  case (1 r ow holds q)
  show ?case
  proof (cases "position (\<lambda>i. Some (prompt_id i) \<noteq> r \<and> (is_queue_visible i \<or> \<not> origin_is_synthetic (input_origin i))) q")
    case None
    with 1(2) show ?thesis by (simp add: promote_prefix.simps)
  next
    case (Some k)
    show ?thesis
    proof (cases "may_promote ow holds (q ! k)")
      case True
      obtain kept' promoted' where rec: "promote_prefix r ow holds (remove_at k q) = (kept', promoted')" by fastforce
      with 1(2) Some True have "kept = kept'" "promoted = q ! k # promoted'"
        by (auto simp: promote_prefix.simps [of r ow holds q])
      with 1(1) [OF Some True rec] position_Some [OF Some] show ?thesis
        by (simp add: chans_remove_at)
    next
      case False
      with 1(2) Some show ?thesis by (simp add: promote_prefix.simps [of r ow holds q])
    qed
  qed
qed

lemma ledger_promote [simp]: "ledger (promote_queued_as_interjections goal s) = ledger s"
proof -
  have folded: "ledger (fold (\<lambda>i st. enqueue_prompt_as_interjection i (if goal then enqueue_prompt_as_planner_steering i st else st)) rows s')
      = ledger s' + chans rows" for rows s'
    by (induction rows arbitrary: s') simp_all
  have "ledger (s\<lparr>pending_inputs := kept\<rparr>) + chans promoted = ledger s"
    if "promote_prefix r ow (edit_holds s) (pending_inputs s) = (kept, promoted)" for r ow kept promoted
    using ledger_promote_prefix [OF that] by (simp add: ledger_def)
  then show ?thesis
    by (simp add: promote_queued_as_interjections_def Let_def case_prod_unfold folded split: option.split)
qed


lemma ledger_remove_row: "ledger (remove_pending_row pos s) = ledger s"
  by (simp add: remove_pending_row_def Let_def respond_removed_prompt_def ledger_pending_eq)
    (simp add: ledger_def chans_remove_at flip: union_mset_add_mset_left)

lemma ledger_remove: "ledger (fst (handle_remove_queued_prompt qid v owner s)) = ledger s"
  by (simp add: handle_remove_queued_prompt_def ledger_remove_row split: option.split)

lemma edit_fields [simp]:
  "prompt_id (apply_queued_prompt_edit t ed i) = prompt_id i"
  "input_origin (apply_queued_prompt_edit t ed i) = input_origin i"
  "tool_overrides_update (apply_queued_prompt_edit t ed i) = tool_overrides_update i"
  "respond_to (apply_queued_prompt_edit t ed i) = respond_to i"
  "mutation_policy (apply_queued_prompt_edit t ed i) = mutation_policy i"
  "item_send_now (apply_queued_prompt_edit t ed i) = item_send_now i"
  "map_option qe_id (queue_meta (apply_queued_prompt_edit t ed i)) = map_option qe_id (queue_meta i)"
  by (simp_all add: apply_queued_prompt_edit_def Let_def map_option.compositionality comp_def)

lemma ledger_pending_update:
  "respond_to i = respond_to (pending_inputs s ! k) \<Longrightarrow> ledger (s\<lparr>pending_inputs := (pending_inputs s)[k := i]\<rparr>) = ledger s"
  by (simp add: ledger_pending_eq chans_update) (simp add: ledger_def)

lemma ledger_pending_remove:
  "k < length (pending_inputs s) \<Longrightarrow>
     add_mset (respond_to (pending_inputs s ! k)) (ledger (s\<lparr>pending_inputs := remove_at k (pending_inputs s)\<rparr>)) = ledger s"
  by (simp add: ledger_pending_eq chans_remove_at flip: union_mset_add_mset_left) (simp add: ledger_def)

lemma ledger_interject: "ledger (fst (handle_interject_queued_prompt goal qid v owner txt s)) = ledger s"
  by (auto simp: handle_interject_queued_prompt_def Let_def ledger_pending_update ledger_pending_remove
      dest!: position_Some split: option.split)

lemma ledger_edit: "ledger (fst (handle_edit_queued_prompt qid t ed s)) = ledger s"
  by (simp add: handle_edit_queued_prompt_def Let_def ledger_pending_update split: option.split)

lemma mset_fill_slots:
  "length queued = length (filter P xs) \<Longrightarrow> mset (fill_slots P xs queued) = mset (filter (\<lambda>x. \<not> P x) xs) + mset queued"
  by (induction P xs queued rule: fill_slots.induct) (auto split: list.split)

definition reordered :: "rstring list \<Rightarrow> rstring option \<Rightarrow> 'x input_item list \<Rightarrow> 'x input_item list" where
  "reordered ids running_id q =
     fill_slots (is_reorderable running_id) q (sort_key (order_key ids) (filter (is_reorderable running_id) q))"

lemma reorder_eq:
  "handle_reorder_queue ids s =
     (let s' = s\<lparr>pending_inputs := reordered ids (running_prompt_id s) (pending_inputs s)\<rparr>
      in (broadcast_queue_changed s', queue_ids (pending_inputs s) \<noteq> queue_ids (pending_inputs s')))"
  by (simp add: handle_reorder_queue_def reordered_def Let_def)

lemma mset_reordered: "mset (reordered ids running_id q) = mset q"
  by (simp add: reordered_def mset_fill_slots union_commute flip: multiset_partition)

lemma ledger_reorder: "ledger (fst (handle_reorder_queue ids s)) = ledger s"
proof -
  have "chans (reordered ids (running_prompt_id s) (pending_inputs s)) = chans (pending_inputs s)"
    unfolding mset_respond_to [symmetric] mset_reordered ..
  then show ?thesis by (simp add: reorder_eq Let_def ledger_pending_eq) (simp add: ledger_def)
qed

lemma ledger_fold_removed: "ledger (fold respond_removed_prompt rows s) = ledger s + chans rows"
  by (simp add: fold_respond_removed ledger_emits)

lemma ledger_clear: "ledger (fst (handle_clear_queue owner s)) = ledger s"
  using chans_filter [of "\<lambda>i. \<not> survives_clear (running_prompt_id s) owner i" "pending_inputs s"]
  by (simp add: handle_clear_queue_def Let_def ledger_fold_removed ledger_pending_eq)
    (simp add: ledger_def)

lemma ledger_consumed: "ledger (drop_pending_items_for_consumed_completions rv ids s) = ledger s"
  by (simp add: drop_pending_items_for_consumed_completions_def Let_def ledger_sweep_drop)

lemma ledger_drop_synthetic: "ledger (drop_pending_synthetic_items rv s) = ledger s"
  using chans_filter [of "\<lambda>i. is_preemptible_runtime_wake (input_origin i)" "pending_inputs s"]
  by (simp add: drop_pending_synthetic_items_def Let_def ledger_drop_senders ledger_pending_eq)
    (simp add: ledger_def)


lemma chans_drop_stale: "drop_stale_fronts stale q = (kept, gone) \<Longrightarrow> chans kept + chans gone = chans q"
  by (induction stale q arbitrary: kept gone rule: drop_stale_fronts.induct) (fastforce split: if_splits prod.splits)+

lemma chans_absorb: "absorb_followers k front rest = (q, removed) \<Longrightarrow> chans q + chans removed = add_mset (respond_to front) (chans rest)"
  by (induction k front rest arbitrary: q removed rule: absorb_followers.induct) (fastforce split: prod.splits)+

lemma chans_combine: "combine_front_pending_inputs q skip = (q', removed) \<Longrightarrow> chans q' + chans removed = chans q"
  by (induction q skip rule: combine_front_pending_inputs.induct)
    (auto simp: Let_def simp del: absorb_followers.simps split: if_splits dest: chans_absorb)

lemma ledger_start_front:
  assumes "pending_inputs s = front # rest"
  shows "ledger (start_front env front rest s) = ledger s"
  using assms
  by (simp add: start_front_def Let_def broadcast_queue_changed_promoting_def ledger_pending_eq) (simp add: ledger_def)

lemma ledger_take_rows:
  "chans kept + chans gone = chans (pending_inputs s) \<Longrightarrow>
     ledger (fold respond_removed_prompt gone (s\<lparr>pending_inputs := kept\<rparr>)) = ledger s"
  by (simp add: ledger_fold_removed ledger_pending_eq) (simp add: ledger_def ac_simps)

lemma collect_holds_fields [simp]:
  "pending_inputs (collect_holds now s) = pending_inputs s" "effects (collect_holds now s) = effects s"
  "running_task (collect_holds now s) = running_task s" "session_id (collect_holds now s) = session_id s"
  by (simp_all add: collect_holds_def)

lemma ledger_collect_holds [simp]: "ledger (collect_holds now s) = ledger s"
  by (simp add: ledger_def)

lemma fold_removed_fields [simp]:
  "pending_inputs (fold respond_removed_prompt rows s) = pending_inputs s"
  "running_task (fold respond_removed_prompt rows s) = running_task s"
  "edit_holds (fold respond_removed_prompt rows s) = edit_holds s"
  by (simp_all add: fold_respond_removed emits_def)

lemma ledger_discard_stale: "ledger (discard_stale env s) = ledger s"
  by (cases "drop_stale_fronts (se_stale env) (pending_inputs s)")
    (simp add: discard_stale_def ledger_take_rows chans_drop_stale)

lemma ledger_merge_front: "ledger (merge_front env s) = ledger s"
  by (cases "combine_front_pending_inputs (pending_inputs s) (map fst (edit_holds s))")
    (simp add: merge_front_def ledger_take_rows chans_combine)

lemma ledger_promote_front: "ledger (promote_front env s) = ledger s"
  using ledger_merge_front [of env s] ledger_start_front [of "merge_front env s"]
  by (simp add: promote_front_def Let_def split: list.split)

lemma ledger_start: "ledger (maybe_start_running_task env s) = ledger s"
  by (simp add: maybe_start_running_task_def ledger_promote_front ledger_discard_stale)

lemma ledger_gate [simp]:
  "ledger (fst (gate_claim b s)) = ledger s" "ledger (fst (claim_task_finalization t s)) = ledger s"
  "ledger (fst (claim_cancel_finalization s)) = ledger s" "ledger (fst (finish_finalization l s)) = ledger s"
  "ledger (fst (release_finalizing_task l s)) = ledger s"
  by (simp_all add: gate_claim_def claim_task_finalization_def claim_cancel_finalization_def
      finish_finalization_def release_finalizing_task_def Let_def split: option.split)

lemma ledger_finish [simp]: "ledger (fst (finish_finalization_lease l s)) = ledger s"
  using ledger_gate(5) [of l s]
  by (cases "release_finalizing_task l s")
    (simp add: finish_finalization_lease_def split: finalization_binding.split)

lemma ledger_append: "ledger (s\<lparr>pending_inputs := pending_inputs s @ q\<rparr>) = ledger s + chans q"
  by (simp add: ledger_def)

lemma ledger_pop: "ledger (fst (completion_pop pid result fallbacks s)) = ledger s + chans (map into_input fallbacks)"
  by (cases "pending_inputs s")
    (auto simp: completion_pop_def Let_def ledger_pending_eq emit_def, auto simp: ledger_def)

lemma ledger_answer_cancelled: "ledger (answer_cancelled rv tore rows s) = ledger s + chans rows"
proof -
  have "ledger (fold (\<lambda>(idx, i) st. emit (Answered (respond_to i) (CancelledReply (tore \<and> idx = 0)))
           (case completion_id (input_origin i) of
              Some c \<Rightarrow> if rv then emit (ReservationReleased c) st else st | None \<Rightarrow> st)) (enumerate n rows) s)
      = ledger s + chans rows" for n
    by (induction rows arbitrary: n s) (simp_all split: option.split)
  then show ?thesis by (simp add: answer_cancelled_def)
qed

lemma chans_cancel_rows:
  "cancel_rows kill suppress q = (kept, removed, cancelled) \<Longrightarrow> chans kept + chans removed + chans cancelled = chans q"
  using chans_filter [of "\<lambda>i. suppress \<and> is_task_wake (input_origin i)" "drop 1 q"]
  by (cases q) (auto simp: cancel_rows_def Let_def split: if_splits)

lemma ledger_cancel: "ledger (cancel_queue rv kill suppress fallbacks s) = ledger s + chans (map into_input fallbacks)"
proof -
  obtain kept removed cancelled where rows:
    "cancel_rows kill suppress (pending_inputs s @ map into_input fallbacks) = (kept, removed, cancelled)" by (metis prod_cases3)
  then have "chans kept + chans removed + chans cancelled = chans (pending_inputs s) + chans (map into_input fallbacks)"
    using chans_cancel_rows [OF rows] by simp
  then have "chans (pending_inputs s) + chans (map into_input fallbacks) = chans kept + chans removed + chans cancelled" by simp
  with rows show ?thesis
    by (simp add: cancel_queue_def Let_def ledger_answer_cancelled ledger_fold_removed ledger_pending_eq)
      (cases "fallbacks = []"; simp add: ledger_def ac_simps)
qed

lemma ledger_step: "ledger (queue_step op s) = ledger s + accepted op s"
  by (cases op)
    (simp_all add: ledger_queue_input ledger_fallback ledger_flush ledger_remove ledger_interject ledger_reorder
      ledger_clear ledger_edit ledger_consumed ledger_drop_synthetic ledger_start ledger_pop ledger_cancel
      drain_take_def drain_all_def drain_submit_def drain_restore_def handle_hold_edit_def handle_release_edit_def
      arm_hook_block_hold_def release_hook_block_hold_def take_hook_block_hold_def mark_front_message_committed_def
      del: accepted.simps(3))


section \<open>Rows and drops in every run\<close>

definition row_ok :: "'x input_item \<Rightarrow> bool" where
  "row_ok i \<longleftrightarrow> (case queue_meta i of None \<Rightarrow> \<not> is_queue_editable i | Some m \<Rightarrow> qe_id m = prompt_id i \<and> is_queue_visible i)"

fun drop_ok :: "'x queue_effect \<Rightarrow> bool" where
  "drop_ok (SenderDropped ch org) = is_preemptible_runtime_wake org"
| "drop_ok _ = True"

definition queue_inv :: "'x queue_state \<Rightarrow> bool" where
  "queue_inv s \<longleftrightarrow> list_all row_ok (pending_inputs s) \<and> list_all drop_ok (effects s)"

lemma queue_inv_simps [simp]:
  "queue_inv (emit e s) \<longleftrightarrow> queue_inv s \<and> drop_ok e"
  "queue_inv (emits es s) \<longleftrightarrow> queue_inv s \<and> list_all drop_ok es"
  "queue_inv (s\<lparr>edit_holds := h\<rparr>) = queue_inv s"
  "queue_inv (s\<lparr>pending_interjections := p\<rparr>) = queue_inv s"
  "queue_inv (s\<lparr>draining := d\<rparr>) = queue_inv s"
  "queue_inv (s\<lparr>running_task := t\<rparr>) = queue_inv s"
  "queue_inv (s\<lparr>active_token := a\<rparr>) = queue_inv s"
  "queue_inv (s\<lparr>next_token := n\<rparr>) = queue_inv s"
  "queue_inv (s\<lparr>hook_block_hold := b\<rparr>) = queue_inv s"
  "queue_inv (s\<lparr>notifications_suppressed := b\<rparr>) = queue_inv s"
  "queue_inv (s\<lparr>rewindable := b\<rparr>) = queue_inv s"
  "queue_inv (s\<lparr>front_message_committed := b\<rparr>) = queue_inv s"
  by (auto simp: queue_inv_def emit_def emits_def)

lemma queue_inv_rows: "queue_inv s \<Longrightarrow> list_all row_ok q \<Longrightarrow> queue_inv (s\<lparr>pending_inputs := q\<rparr>)"
  by (simp add: queue_inv_def)

lemma queue_invD: "queue_inv s \<Longrightarrow> list_all row_ok (pending_inputs s)"
  by (simp add: queue_inv_def)

lemma list_all_parts [intro]:
  "list_all P xs \<Longrightarrow> list_all P (filter Q xs)"
  "list_all P xs \<Longrightarrow> list_all P (remove_at k xs)"
  "list_all P xs \<Longrightarrow> list_all P (drop k xs)"
  "list_all P xs \<Longrightarrow> P x \<Longrightarrow> list_all P (insert_at k x xs)"
  "list_all P xs \<Longrightarrow> P x \<Longrightarrow> list_all P (xs[k := x])"
  by (auto simp: list_all_iff remove_at_def insert_at_def dest!: in_set_takeD in_set_dropD
      dest: set_update_subset_insert [THEN subsetD])

lemma row_ok_same: "same_row i j \<Longrightarrow> row_ok j \<Longrightarrow> row_ok i"
  by (auto simp: same_row_def row_ok_def is_queue_visible_def is_queue_editable_def split: option.splits)

lemma row_ok_edit [simp]: "row_ok (apply_queued_prompt_edit t ed i) = row_ok i"
  by (cases "queue_meta i")
    (simp_all add: row_ok_def is_queue_visible_def is_queue_editable_def apply_queued_prompt_edit_def Let_def)

lemma row_ok_flags [simp]:
  "row_ok (i\<lparr>item_send_now := b\<rparr>) = row_ok i" "row_ok (i\<lparr>tool_overrides_update := t\<rparr>) = row_ok i"
  by (simp_all add: row_ok_def is_queue_visible_def is_queue_editable_def split: option.split)

lemma row_ok_made [simp]:
  "row_ok (item_of_request rq)" "row_ok (fallback_item fresh entry front)" "row_ok (into_input pm)"
  by (simp_all add: row_ok_def item_of_request_def fallback_item_def into_input_def Let_def is_queue_visible_def
      is_queue_editable_def qm_hidden_def qm_from_input_origin_def)
    (cases "ip_queue (origin_policy (rq_origin rq))"; simp add: qm_hidden_def)

lemma queue_inv_broadcast [simp]: "queue_inv (broadcast_queue_changed s) = queue_inv s"
  by (simp add: broadcast_queue_changed_def)

lemma queue_inv_clear_hold [simp]: "queue_inv (clear_hold_unless_protected qid s) = queue_inv s"
  by (simp add: clear_hold_unless_protected_def)

lemma queue_inv_removed [simp]:
  "queue_inv (respond_removed_prompt i s) = queue_inv s"
  "queue_inv (fold respond_removed_prompt rows s) = queue_inv s"
  by (simp_all add: respond_removed_prompt_def fold_respond_removed list_all_iff)

lemma queue_inv_interjection [simp]:
  "queue_inv (enqueue_prompt_as_interjection i s) = queue_inv s"
  "queue_inv (enqueue_prompt_as_planner_steering i s) = queue_inv s"
  by (simp_all add: enqueue_prompt_as_interjection_def enqueue_prompt_as_planner_steering_def Let_def)

lemma queue_inv_insert_send_now: "queue_inv s \<Longrightarrow> row_ok i \<Longrightarrow> queue_inv (insert_send_now i s)"
  by (auto simp: insert_send_now_def intro!: queue_inv_rows dest: queue_invD)

lemma queue_inv_drop_senders:
  "queue_inv s \<Longrightarrow> list_all (is_preemptible_runtime_wake \<circ> input_origin) rows \<Longrightarrow> queue_inv (drop_senders rv rows s)"
  by (auto simp: drop_senders_def list_all_iff)

lemma queue_inv_sweep:
  assumes "queue_inv s" "\<And>i. P i \<Longrightarrow> is_preemptible_runtime_wake (input_origin i)"
  shows "queue_inv (case sweep_pending_inputs P s of (s1, dropped) \<Rightarrow> drop_senders rv dropped s1)"
proof -
  have "list_all row_ok (pending_inputs s)" by (rule queue_invD [OF assms(1)])
  then show ?thesis
    using assms by (auto simp: sweep_pending_inputs_def Let_def list_all_iff intro!: queue_inv_drop_senders queue_inv_rows)
qed

lemma completion_is_wake: "completion_id org = Some c \<Longrightarrow> is_preemptible_runtime_wake org"
  by (cases org) (simp_all add: is_preemptible_runtime_wake_def runtime_policy_def)

lemma queue_inv_input: "queue_inv s \<Longrightarrow> queue_inv (fst (queue_input env rq s))"
proof -
  assume inv: "queue_inv s"
  have recorded: "queue_inv (record_prompt env rq s)"
    using inv by (simp add: record_prompt_def Let_def)
  then have "queue_inv (preempt_wakes rv (record_prompt env rq s))" for rv
    by (simp add: preempt_wakes_def queue_inv_sweep)
  moreover have "queue_inv (commit_queued_delivery (item_of_request rq) s')" if "queue_inv s'" for s'
    using that queue_invD [OF that] by (auto simp: commit_queued_delivery_def intro!: queue_inv_rows)
  ultimately show ?thesis
    using recorded by (simp add: queue_input_def Let_def queue_inv_insert_send_now)
qed

lemma queue_inv_fallback: "queue_inv s \<Longrightarrow> queue_inv (queue_interjection_fallback_prompt fresh entry front s)"
  using queue_invD [of s]
  by (auto simp: queue_interjection_fallback_prompt_def Let_def intro!: queue_inv_rows) (auto simp: emit_def)

lemma queue_inv_flush: "queue_inv s \<Longrightarrow> queue_inv (fst (flush_stranded_interjections fresh s))"
proof -
  have "queue_inv s' \<Longrightarrow> queue_inv (fold (\<lambda>(n, entry). queue_interjection_fallback_prompt (fresh n) entry True) es s')" for es s'
    by (induction es arbitrary: s') (auto simp: queue_inv_fallback)
  then show "queue_inv s \<Longrightarrow> ?thesis" by (simp add: flush_stranded_interjections_def drain_all_def)
qed

lemma promote_prefix_rows:
  "promote_prefix r ow holds q = (kept, promoted) \<Longrightarrow> list_all P q \<Longrightarrow> list_all P kept"
proof (induction r ow holds q arbitrary: kept promoted rule: promote_prefix.induct)
  case (1 r ow holds q)
  then show ?case
    by (subst (asm) promote_prefix.simps) (auto simp: list_all_parts Let_def split: option.splits if_splits prod.splits)
qed

lemma queue_inv_promote: "queue_inv s \<Longrightarrow> queue_inv (promote_queued_as_interjections goal s)"
proof -
  assume inv: "queue_inv s"
  have folded: "queue_inv (fold (\<lambda>i st. enqueue_prompt_as_interjection i (if goal then enqueue_prompt_as_planner_steering i st else st)) rows s') = queue_inv s'"
    for rows s'
    by (induction rows arbitrary: s') simp_all
  show ?thesis
    using inv promote_prefix_rows [OF prod.collapse [symmetric] queue_invD [OF inv]]
    by (auto simp: promote_queued_as_interjections_def Let_def case_prod_unfold folded intro!: queue_inv_rows split: option.split)
qed


lemma queue_inv_remove: "queue_inv s \<Longrightarrow> queue_inv (fst (handle_remove_queued_prompt qid v owner s))"
  using queue_invD [of s]
  by (auto simp: handle_remove_queued_prompt_def remove_pending_row_def Let_def intro!: queue_inv_rows split: option.split)

lemma row_ok_nth: "queue_inv s \<Longrightarrow> k < length (pending_inputs s) \<Longrightarrow> row_ok (pending_inputs s ! k)"
  by (simp add: queue_inv_def list_all_length)

lemma queue_inv_interject: "queue_inv s \<Longrightarrow> queue_inv (fst (handle_interject_queued_prompt goal qid v owner txt s))"
  using queue_invD [of s]
  by (auto simp: handle_interject_queued_prompt_def Let_def row_ok_nth
      intro!: queue_inv_rows queue_inv_insert_send_now dest!: position_Some split: option.split)

lemma queue_inv_edit: "queue_inv s \<Longrightarrow> queue_inv (fst (handle_edit_queued_prompt qid t ed s))"
  using queue_invD [of s]
  by (auto simp: handle_edit_queued_prompt_def Let_def row_ok_nth intro!: queue_inv_rows dest!: position_Some split: option.split)

lemma queue_inv_reorder: "queue_inv s \<Longrightarrow> queue_inv (fst (handle_reorder_queue ids s))"
  using queue_invD [of s] mset_eq_setD [OF mset_reordered [of ids "running_prompt_id s" "pending_inputs s"]]
  by (auto simp: reorder_eq Let_def list_all_iff intro!: queue_inv_rows)

lemma queue_inv_clear: "queue_inv s \<Longrightarrow> queue_inv (fst (handle_clear_queue owner s))"
  using queue_invD [of s] by (auto simp: handle_clear_queue_def Let_def intro!: queue_inv_rows)

lemma queue_inv_consumed: "queue_inv s \<Longrightarrow> queue_inv (drop_pending_items_for_consumed_completions rv ids s)"
  by (auto simp: drop_pending_items_for_consumed_completions_def Let_def completion_is_wake
      intro!: queue_inv_sweep split: option.splits)

lemma queue_inv_drop_synthetic: "queue_inv s \<Longrightarrow> queue_inv (drop_pending_synthetic_items rv s)"
  using queue_invD [of s]
  by (auto simp: drop_pending_synthetic_items_def Let_def list_all_iff intro!: queue_inv_drop_senders queue_inv_rows)

lemma rows_drop_stale: "drop_stale_fronts stale q = (kept, gone) \<Longrightarrow> list_all P q \<Longrightarrow> list_all P kept"
  by (induction stale q arbitrary: kept gone rule: drop_stale_fronts.induct) (auto split: if_splits prod.splits)

lemma rows_absorb:
  "absorb_followers k front rest = (q, removed) \<Longrightarrow> row_ok front \<Longrightarrow> list_all row_ok rest \<Longrightarrow> list_all row_ok q"
  by (induction k front rest arbitrary: q removed rule: absorb_followers.induct)
    (auto split: prod.splits intro: row_ok_same [OF same_row_append])

lemma rows_combine:
  "combine_front_pending_inputs q skip = (q', removed) \<Longrightarrow> list_all row_ok q \<Longrightarrow> list_all row_ok q'"
  by (induction q skip rule: combine_front_pending_inputs.induct)
    (auto simp: Let_def simp del: absorb_followers.simps split: if_splits dest: rows_absorb)

lemma queue_inv_collect_holds [simp]: "queue_inv (collect_holds now s) = queue_inv s"
  by (simp add: queue_inv_def)

lemma queue_inv_discard_stale: "queue_inv s \<Longrightarrow> queue_inv (discard_stale env s)"
  by (cases "drop_stale_fronts (se_stale env) (pending_inputs s)")
    (auto simp: discard_stale_def intro!: queue_inv_rows dest: rows_drop_stale queue_invD)

lemma queue_inv_merge_front: "queue_inv s \<Longrightarrow> queue_inv (merge_front env s)"
  by (cases "combine_front_pending_inputs (pending_inputs s) (map fst (edit_holds s))")
    (auto simp: merge_front_def intro!: queue_inv_rows dest: rows_combine queue_invD)

lemma queue_inv_start_front: "queue_inv s \<Longrightarrow> pending_inputs s = front # rest \<Longrightarrow> queue_inv (start_front env front rest s)"
  using queue_invD [of s]
  by (auto simp: start_front_def Let_def broadcast_queue_changed_promoting_def intro!: queue_inv_rows)

lemma queue_inv_start: "queue_inv s \<Longrightarrow> queue_inv (maybe_start_running_task env s)"
proof -
  have "queue_inv (promote_front env s')" if "queue_inv s'" for s' :: "'a queue_state"
    using queue_inv_merge_front [OF that, of env] that
    by (auto simp: promote_front_def Let_def intro: queue_inv_start_front split: list.split)
  then show "queue_inv s \<Longrightarrow> ?thesis" by (simp add: maybe_start_running_task_def queue_inv_discard_stale)
qed

lemma queue_inv_gate [simp]:
  "queue_inv (fst (gate_claim b s)) = queue_inv s" "queue_inv (fst (claim_task_finalization t s)) = queue_inv s"
  "queue_inv (fst (claim_cancel_finalization s)) = queue_inv s" "queue_inv (fst (finish_finalization l s)) = queue_inv s"
  "queue_inv (fst (release_finalizing_task l s)) = queue_inv s"
  by (simp_all add: gate_claim_def claim_task_finalization_def claim_cancel_finalization_def
      finish_finalization_def release_finalizing_task_def Let_def split: option.split)

lemma queue_inv_finish [simp]: "queue_inv (fst (finish_finalization_lease l s)) = queue_inv s"
  using queue_inv_gate(5) [of l s]
  by (cases "release_finalizing_task l s")
    (simp add: finish_finalization_lease_def split: finalization_binding.split)

lemma queue_inv_pop: "queue_inv s \<Longrightarrow> queue_inv (fst (completion_pop pid result fallbacks s))"
  by (cases "pending_inputs s")
    (auto simp: completion_pop_def Let_def emit_def queue_inv_def list_all_iff broadcast_queue_changed_def)

lemma queue_inv_answer_cancelled: "queue_inv (answer_cancelled rv tore rows s) = queue_inv s"
proof -
  have "queue_inv (fold (\<lambda>(idx, i) st. emit (Answered (respond_to i) (CancelledReply (tore \<and> idx = 0)))
           (case completion_id (input_origin i) of
              Some c \<Rightarrow> if rv then emit (ReservationReleased c) st else st | None \<Rightarrow> st)) (enumerate n rows) s) = queue_inv s" for n
    by (induction rows arbitrary: n s) (simp_all split: option.split)
  then show ?thesis by (simp add: answer_cancelled_def)
qed

lemma queue_inv_cancel: "queue_inv s \<Longrightarrow> queue_inv (cancel_queue rv kill suppress fallbacks s)"
proof -
  assume inv: "queue_inv s"
  obtain kept removed cancelled where rows:
    "cancel_rows kill suppress (pending_inputs s @ map into_input fallbacks) = (kept, removed, cancelled)" by (metis prod_cases3)
  have "list_all row_ok (pending_inputs s @ map into_input fallbacks)"
    using queue_invD [OF inv] by (auto simp: list_all_iff)
  with rows have "list_all row_ok kept"
    by (simp add: cancel_rows_def Let_def list_all_parts split: if_splits) (metis list_all_parts(1,3) list_all_append)
  with inv rows show ?thesis
    by (simp add: cancel_queue_def Let_def queue_inv_answer_cancelled queue_inv_rows)
qed

lemma queue_inv_step: "queue_inv s \<Longrightarrow> queue_inv (queue_step op s)"
  by (cases op)
    (simp_all add: queue_inv_input queue_inv_fallback queue_inv_flush queue_inv_promote queue_inv_remove queue_inv_interject
      queue_inv_reorder queue_inv_clear queue_inv_edit queue_inv_consumed queue_inv_drop_synthetic queue_inv_start
      queue_inv_pop queue_inv_cancel drain_take_def drain_all_def drain_submit_def drain_restore_def handle_hold_edit_def
      handle_release_edit_def arm_hook_block_hold_def release_hook_block_hold_def take_hook_block_hold_def
      mark_front_message_committed_def)

lemma queue_inv_run: "queue_inv s \<Longrightarrow> queue_inv (run_queue ops s)"
  by (induction ops arbitrary: s) (simp_all add: run_queue_def queue_inv_step)

lemma channels_run: "ledger (run_queue ops s) = ledger s + accepted_in ops s"
  by (induction ops arbitrary: s) (simp_all add: run_queue_def ledger_step)

end
