(* ===== verification/Queue_Runs.thy ===== *)
theory Queue_Runs
  imports Queue_Steps
begin

text \<open>
  What the prompt queue guarantees over the runs of \<open>Queue_Steps\<close>: prompts are settled once, the controls
  spare the running turn, reordering, combining, holding, editing and sending now do what they promise,
  completions free the turn, and interjections are neither lost nor reordered.
\<close>

section \<open>Controls and the running turn\<close>

fun is_control :: "'x queue_op \<Rightarrow> bool" where
  "is_control (QPromoteHeld goal) = True"
| "is_control (QRemove qid v owner) = True"
| "is_control (QInterject goal qid v owner txt) = True"
| "is_control (QReorder ids) = True"
| "is_control (QClear owner) = True"
| "is_control (QEdit qid txt editor) = True"
| "is_control (QHold qid now) = True"
| "is_control (QReleaseEdit qid) = True"
| "is_control _ = False"

abbreviation pinned :: "'x input_item list \<Rightarrow> 'x input_item list" where
  "pinned q \<equiv> filter (\<lambda>i. \<not> is_queue_editable i) q"

lemma filter_remove_at: "k < length xs \<Longrightarrow> \<not> P (xs ! k) \<Longrightarrow> filter P (remove_at k xs) = filter P xs"
  by (subst (2) id_take_nth_drop [of k xs]) (simp_all add: remove_at_def)

lemma filter_insert_at: "\<not> P x \<Longrightarrow> filter P (insert_at k x xs) = filter P xs"
  by (simp add: insert_at_def) (metis append_take_drop_id filter_append)

lemma filter_update: "\<not> P (xs ! k) \<Longrightarrow> \<not> P x \<Longrightarrow> filter P (xs[k := x]) = filter P xs"
  by (induction xs arbitrary: k) (auto split: nat.splits)

lemma editable_same [simp]:
  "is_queue_editable (apply_queued_prompt_edit t ed i) = is_queue_editable i"
  "is_queue_editable (i\<lparr>item_send_now := b\<rparr>) = is_queue_editable i"
  by (simp_all add: is_queue_editable_def)

text \<open>A front that stays, with the rows behind it that no control may touch.\<close>

definition spares :: "'x input_item \<Rightarrow> 'x input_item list \<Rightarrow> 'x input_item list \<Rightarrow> bool" where
  "spares r rest q \<longleftrightarrow> (\<exists>rest'. q = r # rest' \<and> pinned rest' = pinned rest)"

lemma sparesI: "pinned rest' = pinned rest \<Longrightarrow> spares r rest (r # rest')"
  by (simp add: spares_def)

lemma remove_at_Cons [simp]: "remove_at (Suc k) (x # xs) = x # remove_at k xs"
  by (simp add: remove_at_def)

lemma insert_at_Cons [simp]: "insert_at (Suc k) y (x # xs) = x # insert_at k y xs"
  by (simp add: insert_at_def)

lemma spares_promote_prefix:
  "promote_prefix (Some (prompt_id r)) ow holds (r # rest) = (kept, promoted) \<Longrightarrow> spares r rest kept"
proof (induction "length rest" arbitrary: rest kept promoted rule: less_induct)
  case less
  let ?Q = "\<lambda>i. Some (prompt_id i) \<noteq> Some (prompt_id r) \<and> (is_queue_visible i \<or> \<not> origin_is_synthetic (input_origin i))"
  show ?case
  proof (cases "position ?Q rest")
    case None
    with less(2) show ?thesis by (auto simp: promote_prefix.simps [of _ _ _ "r # rest"] sparesI)
  next
    case (Some k)
    show ?thesis
    proof (cases "may_promote ow holds (rest ! k)")
      case True
      obtain kept' promoted' where rec: "promote_prefix (Some (prompt_id r)) ow holds (r # remove_at k rest) = (kept', promoted')"
        by fastforce
      have k: "k < length rest" using position_Some [OF Some] by simp
      have "spares r (remove_at k rest) kept'"
        by (rule less(1) [OF _ rec]) (simp add: length_remove_at k)
      moreover have "pinned (remove_at k rest) = pinned rest"
        using True k by (intro filter_remove_at) (simp_all add: may_promote_def)
      moreover have "kept = kept'"
        using less(2) Some True rec by (simp add: promote_prefix.simps [of _ _ _ "r # rest"])
      ultimately show ?thesis by (simp add: spares_def)
    next
      case False
      with less(2) Some show ?thesis by (auto simp: promote_prefix.simps [of _ _ _ "r # rest"] sparesI)
    qed
  qed
qed

lemma pending_inputs_keep [simp]:
  "pending_inputs (emit e s) = pending_inputs s" "pending_inputs (emits es s) = pending_inputs s"
  "pending_inputs (broadcast_queue_changed s) = pending_inputs s"
  "pending_inputs (respond_removed_prompt i s) = pending_inputs s"
  "pending_inputs (clear_hold_unless_protected qid s) = pending_inputs s"
  "pending_inputs (enqueue_prompt_as_interjection i s) = pending_inputs s"
  "pending_inputs (enqueue_prompt_as_planner_steering i s) = pending_inputs s"
  by (simp_all add: emit_def emits_def broadcast_queue_changed_def respond_removed_prompt_def clear_hold_unless_protected_def
      enqueue_prompt_as_interjection_def enqueue_prompt_as_planner_steering_def Let_def)

lemma pending_inputs_fold [simp]:
  "pending_inputs (fold (\<lambda>i st. enqueue_prompt_as_interjection i (if goal then enqueue_prompt_as_planner_steering i st else st)) rows s)
     = pending_inputs s"
  by (induction rows arbitrary: s) simp_all

lemma spares_promote:
  assumes "pending_inputs s = r # rest" "running_prompt_id s = Some (prompt_id r)"
  shows "spares r rest (pending_inputs (promote_queued_as_interjections goal s))"
proof -
  have "spares r rest (fst (promote_prefix (Some (prompt_id r)) ow (edit_holds s) (r # rest)))" for ow
    by (metis prod.collapse spares_promote_prefix)
  then show ?thesis
    using assms by (simp add: promote_queued_as_interjections_def Let_def case_prod_unfold sparesI)
qed

lemma row_not_matched:
  assumes "row_ok r" "qid \<noteq> prompt_id r"
  shows "\<not> has_queue_id qid r" "\<not> editable_queue_meta_matches qid v owner r"
  using assms by (auto simp: row_ok_def has_queue_id_def editable_queue_meta_matches_def split: option.splits)

lemma spares_insert_send_now:
  assumes "pending_inputs s = r # rest" "running_prompt_id s = Some (prompt_id r)" "is_queue_editable i"
  shows "spares r rest (pending_inputs (insert_send_now i s))"
  using assms by (simp add: insert_send_now_def send_now_insert_index_def front_is_running_def sparesI filter_insert_at)

lemma spares_remove:
  assumes "row_ok r" "pending_inputs s = r # rest" "running_prompt_id s = Some (prompt_id r)"
  shows "spares r rest (pending_inputs (fst (handle_remove_queued_prompt qid v owner s)))"
proof (cases "qid = prompt_id r")
  case False
  show ?thesis
  proof (cases "position (editable_queue_meta_matches qid v owner) rest")
    case (Some k)
    then have "k < length rest" "is_queue_editable (rest ! k)"
      using position_Some [OF Some] by (simp_all add: editable_queue_meta_matches_def)
    with Some assms False row_not_matched [OF assms(1) False] show ?thesis
      by (simp add: handle_remove_queued_prompt_def is_running_prompt_def remove_pending_row_def Let_def sparesI filter_remove_at)
  qed (use assms False row_not_matched [OF assms(1) False] in
      \<open>simp add: handle_remove_queued_prompt_def is_running_prompt_def sparesI\<close>)
qed (use assms in \<open>simp add: handle_remove_queued_prompt_def is_running_prompt_def sparesI\<close>)

lemma spares_interject:
  assumes "row_ok r" "pending_inputs s = r # rest" "running_prompt_id s = Some (prompt_id r)"
  shows "spares r rest (pending_inputs (fst (handle_interject_queued_prompt goal qid v owner txt s)))"
proof (cases "qid = prompt_id r")
  case False
  show ?thesis
  proof (cases "position (editable_queue_meta_matches qid v owner) rest")
    case (Some k)
    let ?s = "s\<lparr>pending_inputs := r # remove_at k rest\<rparr>"
    have k: "k < length rest" "is_queue_editable (rest ! k)"
      using position_Some [OF Some] by (simp_all add: editable_queue_meta_matches_def)
    then have "pinned (remove_at k rest) = pinned rest" by (simp add: filter_remove_at)
    then have moved: "spares r rest (pending_inputs (insert_send_now i ?s))" if "is_queue_editable i" for i
      using spares_insert_send_now [of ?s r "remove_at k rest" i] assms(3) that
      by (simp add: spares_def running_prompt_id_def)
    have "editable_queue_meta_matches qid v owner r = False" using row_not_matched [OF assms(1) False] by simp
    with Some assms False k show ?thesis
      by (auto simp: handle_interject_queued_prompt_def Let_def sparesI filter_remove_at intro!: moved split: option.split)
  qed (use assms False row_not_matched [OF assms(1) False] in
      \<open>simp add: handle_interject_queued_prompt_def Let_def sparesI split: option.split\<close>)
qed (use assms in \<open>simp add: handle_interject_queued_prompt_def Let_def sparesI\<close>)

lemma spares_edit:
  assumes "row_ok r" "pending_inputs s = r # rest" "running_prompt_id s = Some (prompt_id r)"
  shows "spares r rest (pending_inputs (fst (handle_edit_queued_prompt qid t ed s)))"
proof (cases "qid = prompt_id r")
  case False
  show ?thesis
  proof (cases "position (\<lambda>i. is_queue_editable i \<and> has_queue_id qid i) rest")
    case (Some k)
    then have "is_queue_editable (rest ! k)" using position_Some [OF Some] by simp
    with Some assms False row_not_matched [OF assms(1) False] show ?thesis
      by (simp add: handle_edit_queued_prompt_def is_running_prompt_def Let_def sparesI filter_update)
  qed (use assms False row_not_matched [OF assms(1) False] in
      \<open>simp add: handle_edit_queued_prompt_def is_running_prompt_def Let_def sparesI\<close>)
qed (use assms in \<open>simp add: handle_edit_queued_prompt_def is_running_prompt_def Let_def sparesI\<close>)

lemma pinned_fill_slots:
  assumes "list_all is_queue_editable queued" "\<And>i. P i \<Longrightarrow> is_queue_editable i"
  shows "pinned (fill_slots P xs queued) = pinned xs"
  using assms(1)
proof (induction xs arbitrary: queued)
  case (Cons x xs)
  then show ?case using assms(2) [of x] by (cases queued) auto
qed simp

lemma spares_reorder:
  assumes "row_ok r" "pending_inputs s = r # rest" "running_prompt_id s = Some (prompt_id r)"
  shows "spares r rest (pending_inputs (fst (handle_reorder_queue ids s)))"
proof -
  let ?P = "is_reorderable (running_prompt_id s)"
  have "\<not> ?P r" using assms by (auto simp: row_ok_def is_reorderable_def split: option.splits)
  moreover have "pinned (fill_slots ?P rest (sort_key (order_key ids) (filter ?P rest))) = pinned rest"
    by (rule pinned_fill_slots) (auto simp: list_all_iff is_reorderable_def)
  ultimately show ?thesis using assms by (simp add: handle_reorder_queue_def Let_def sparesI)
qed

lemma spares_clear:
  assumes "row_ok r" "pending_inputs s = r # rest" "running_prompt_id s = Some (prompt_id r)"
  shows "spares r rest (pending_inputs (fst (handle_clear_queue owner s)))"
proof -
  let ?K = "survives_clear (running_prompt_id s) owner"
  have "?K r" using assms by (auto simp: row_ok_def survives_clear_def split: option.splits)
  moreover have "pinned (filter ?K rest) = pinned rest"
    by (auto simp: survives_clear_def intro: filter_cong)
  ultimately show ?thesis using assms by (simp add: handle_clear_queue_def Let_def sparesI)
qed

lemma spares_control:
  assumes "queue_inv s" "pending_inputs s = r # rest" "running_prompt_id s = Some (prompt_id r)" "is_control op"
  shows "spares r rest (pending_inputs (queue_step op s))"
proof -
  have "row_ok r" using queue_invD [OF assms(1)] assms(2) by simp
  with assms show ?thesis
    by (cases op) (simp_all add: spares_promote spares_remove spares_interject spares_reorder spares_clear spares_edit
        handle_hold_edit_def handle_release_edit_def sparesI)
qed


lemma running_task_keep [simp]:
  "running_task (emit e s) = running_task s" "running_task (emits es s) = running_task s"
  "running_task (broadcast_queue_changed s) = running_task s"
  "running_task (respond_removed_prompt i s) = running_task s"
  "running_task (clear_hold_unless_protected qid s) = running_task s"
  "running_task (enqueue_prompt_as_interjection i s) = running_task s"
  "running_task (enqueue_prompt_as_planner_steering i s) = running_task s"
  "running_task (insert_send_now i s) = running_task s"
  by (simp_all add: emit_def emits_def broadcast_queue_changed_def respond_removed_prompt_def clear_hold_unless_protected_def
      enqueue_prompt_as_interjection_def enqueue_prompt_as_planner_steering_def insert_send_now_def Let_def)

lemma running_task_fold [simp]:
  "running_task (fold (\<lambda>i st. enqueue_prompt_as_interjection i (if goal then enqueue_prompt_as_planner_steering i st else st)) rows s)
     = running_task s"
  by (induction rows arbitrary: s) simp_all

lemma running_task_control:
  assumes "is_control op"
  shows "running_task (queue_step op s) = running_task s"
proof -
  have "running_task (promote_queued_as_interjections goal s) = running_task s" for goal
    by (simp add: promote_queued_as_interjections_def Let_def case_prod_unfold split: option.split)
  moreover have "running_task (fst (handle_interject_queued_prompt goal qid v owner nt s)) = running_task s" for goal qid v owner nt
    by (auto simp: handle_interject_queued_prompt_def Let_def split: option.split)
  ultimately show ?thesis
    using assms
    by (cases op) (simp_all add: handle_remove_queued_prompt_def remove_pending_row_def reorder_eq handle_clear_queue_def
        handle_edit_queued_prompt_def handle_hold_edit_def handle_release_edit_def Let_def split: option.split)
qed

section \<open>Reordering\<close>

lemma fill_slots_pinned:
  "length queued = length (filter P xs) \<Longrightarrow> list_all P queued \<Longrightarrow>
     map (\<lambda>i. if P i then None else Some i) (fill_slots P xs queued) = map (\<lambda>i. if P i then None else Some i) xs"
  by (induction P xs queued rule: fill_slots.induct) (auto split: list.splits)

lemma filter_fill_slots:
  "length queued = length (filter P xs) \<Longrightarrow> list_all P queued \<Longrightarrow> filter P (fill_slots P xs queued) = queued"
  by (induction P xs queued rule: fill_slots.induct) (auto split: list.split)

lemma fill_slots_fill_slots:
  "length queued = length (filter P xs) \<Longrightarrow> list_all P queued \<Longrightarrow> length queued' = length queued \<Longrightarrow>
     fill_slots P (fill_slots P xs queued) queued' = fill_slots P xs queued'"
  by (induction P xs queued arbitrary: queued' rule: fill_slots.induct) (auto split: list.split)

lemma filter_reordered:
  "filter (is_reorderable running_id) (reordered ids running_id q) = sort_key (order_key ids) (filter (is_reorderable running_id) q)"
  unfolding reordered_def by (rule filter_fill_slots) (simp_all add: list_all_iff)

lemma reordered_idem: "reordered ids running_id (reordered ids running_id q) = reordered ids running_id q"
proof -
  let ?P = "is_reorderable running_id"
  let ?sorted = "sort_key (order_key ids) (filter ?P q)"
  have "sort_key (order_key ids) ?sorted = ?sorted"
    by (simp add: sort_key_id_if_sorted)
  then have "reordered ids running_id (reordered ids running_id q) = fill_slots ?P (reordered ids running_id q) ?sorted"
    unfolding reordered_def [of ids running_id "reordered ids running_id q"] filter_reordered by simp
  also have "\<dots> = reordered ids running_id q"
    unfolding reordered_def by (rule fill_slots_fill_slots) (simp_all add: list_all_iff)
  finally show ?thesis .
qed

lemma pending_reorder: "pending_inputs (fst (handle_reorder_queue ids s)) = reordered ids (running_prompt_id s) (pending_inputs s)"
  by (simp add: reorder_eq Let_def)

lemma running_reorder: "running_prompt_id (fst (handle_reorder_queue ids s)) = running_prompt_id s"
  by (simp add: reorder_eq Let_def running_prompt_id_def)

section \<open>Starting a turn\<close>

lemma drop_stale_fronts_eq: "drop_stale_fronts stale q = (dropWhile (stale \<circ> input_origin) q, takeWhile (stale \<circ> input_origin) q)"
  by (induction q) simp_all

lemma combine_front_row:
  assumes "combine_front_pending_inputs (front # rest) skip = (q, removed)"
  shows "\<exists>front' kept. q = front' # kept \<and> same_row front' front"
proof -
  have "\<exists>front' kept. fst (absorb_followers k front rest) = front' # kept \<and> same_row front' front" for k rest
    by (induction k front rest rule: absorb_followers.induct)
      (auto simp: case_prod_unfold Let_def intro: same_row_trans [OF _ same_row_append])
  then have "\<exists>front' kept. q = front' # kept \<and> same_row front' front" if "absorb_followers k front rest' = (q, removed)" for k rest'
    using that by (metis fst_conv)
  with assms show ?thesis
    by (cases rest) (auto simp: Let_def simp del: absorb_followers.simps combine_prefix_len.simps split: if_splits)
qed

lemma start_front_result:
  "running_prompt_id (start_front env front rest s) = Some (prompt_id front)"
  "pending_inputs (start_front env front rest s) = front\<lparr>tool_overrides_update := None\<rparr> # rest"
  by (simp_all add: start_front_def Let_def running_prompt_id_def broadcast_queue_changed_promoting_def emit_def)

lemma discard_stale_result:
  "pending_inputs (discard_stale env s) = dropWhile (se_stale env \<circ> input_origin) (pending_inputs s)"
  "running_task (discard_stale env s) = running_task s"
  "set (edit_holds (discard_stale env s)) =
     {h \<in> set (edit_holds s). fst h \<in> prompt_id ` set (dropWhile (se_stale env \<circ> input_origin) (pending_inputs s))
        \<and> se_now env - snd h < EDIT_HOLD_TTL}"
  by (auto simp: discard_stale_def drop_stale_fronts_eq collect_holds_def expire_older_than_def)

lemma merge_front_row:
  assumes "pending_inputs s = front # rest"
  shows "\<exists>front' kept. pending_inputs (merge_front env s) = front' # kept \<and> same_row front' front"
  using assms combine_front_row [of front rest "map fst (edit_holds s)"]
  by (cases "combine_front_pending_inputs (front # rest) (map fst (edit_holds s))") (auto simp: merge_front_def)

definition live_hold :: "instant \<Rightarrow> 'x queue_state \<Rightarrow> rstring \<Rightarrow> bool" where
  "live_hold now s pid \<longleftrightarrow> (\<exists>t. (pid, t) \<in> set (edit_holds s) \<and> now - t < EDIT_HOLD_TTL)"

lemma front_held_iff:
  assumes "dropWhile (se_stale env \<circ> input_origin) (pending_inputs s) = i # rest"
  shows "front_held (discard_stale env s) = live_hold (se_now env) s (prompt_id i)"
  using assms by (auto simp: front_held_def discard_stale_result live_hold_def image_iff)

lemma start_of_front:
  assumes "running_task s = None" "active_token s = None" "\<not> hook_block_hold s"
    and "dropWhile (se_stale env \<circ> input_origin) (pending_inputs s) = i # rest"
  shows "live_hold (se_now env) s (prompt_id i) \<Longrightarrow>
      running_task (maybe_start_running_task env s) = None \<and> pending_inputs (maybe_start_running_task env s) = i # rest"
    and "\<not> live_hold (se_now env) s (prompt_id i) \<Longrightarrow>
      running_prompt_id (maybe_start_running_task env s) = Some (prompt_id i) \<and>
      (\<exists>i' rest'. pending_inputs (maybe_start_running_task env s) = i' # rest' \<and> same_row i' i)"
proof -
  have "pending_inputs s \<noteq> []" using assms(4) by auto
  with assms have start: "maybe_start_running_task env s = promote_front env (discard_stale env s)"
    by (simp add: maybe_start_running_task_def)
  show "live_hold (se_now env) s (prompt_id i) \<Longrightarrow>
      running_task (maybe_start_running_task env s) = None \<and> pending_inputs (maybe_start_running_task env s) = i # rest"
    using assms by (simp add: start promote_front_def front_held_iff discard_stale_result)
  assume free: "\<not> live_hold (se_now env) s (prompt_id i)"
  obtain i' rest' where merged: "pending_inputs (merge_front env (discard_stale env s)) = i' # rest'" "same_row i' i"
    using merge_front_row [of "discard_stale env s" i rest env] assms(4) by (auto simp: discard_stale_result)
  have "same_row (i'\<lparr>tool_overrides_update := None\<rparr>) i" "prompt_id i' = prompt_id i"
    using merged(2) by (simp_all add: same_row_def)
  with merged(1) free assms(4) show "running_prompt_id (maybe_start_running_task env s) = Some (prompt_id i) \<and>
      (\<exists>i' rest'. pending_inputs (maybe_start_running_task env s) = i' # rest' \<and> same_row i' i)"
    by (simp add: start promote_front_def front_held_iff start_front_result Let_def)
qed


section \<open>Ending a turn\<close>

fun answered_on :: "'x queue_effect \<Rightarrow> nat option" where
  "answered_on (Answered ch r) = Some ch"
| "answered_on _ = None"

fun dropped_row :: "'x queue_effect \<Rightarrow> (nat \<times> prompt_origin) option" where
  "dropped_row (SenderDropped ch org) = Some (ch, org)"
| "dropped_row _ = None"

definition answered :: "'x queue_state \<Rightarrow> nat list" where
  "answered s = List.map_filter answered_on (effects s)"

definition dropped :: "'x queue_state \<Rightarrow> (nat \<times> prompt_origin) list" where
  "dropped s = List.map_filter dropped_row (effects s)"

lemma settled_split: "mset (List.map_filter settled es) = mset (List.map_filter answered_on es) + mset (map fst (List.map_filter dropped_row es))"
proof (induction es)
  case (Cons e es)
  then show ?case by (cases e) (simp_all add: map_filter_simps)
qed (simp add: map_filter_simps)

lemma drop_ok_dropped: "list_all drop_ok es \<Longrightarrow> filter (\<lambda>d. \<not> is_preemptible_runtime_wake (snd d)) (List.map_filter dropped_row es) = []"
proof (induction es)
  case (Cons e es)
  then show ?case by (cases e) (simp_all add: map_filter_simps)
qed (simp add: map_filter_simps)

text \<open>A completion of the running turn answers its row once, and both the task and the gate are free again.\<close>

lemma completion_settles_turn:
  assumes "running_task s = Some task" "active_token s = None" "pending_inputs s = i # rest" "prompt_id i = at_prompt_id task"
  shows "\<exists>s'. handle_completion task result fallbacks s = (s', True) \<and> pending_inputs s' = rest @ map into_input fallbacks \<and>
    running_task s' = None \<and> active_token s' = None \<and> answered s' = answered s @ [respond_to i]"
  using assms
  by (auto simp: handle_completion_def claim_task_finalization_def front_prompt_id_def gate_claim_def Let_def completion_pop_def
      finish_finalization_lease_def release_finalizing_task_def finish_finalization_def finalization_matches_def
      broadcast_queue_changed_def emit_def answered_def map_filter_append map_filter_simps)

lemma stale_completion_ignored:
  "running_task s \<noteq> Some task \<Longrightarrow> handle_completion task result fallbacks s = (s, False)"
  by (simp add: handle_completion_def claim_task_finalization_def)

section \<open>Stranded interjections\<close>

text \<open>
  A flush queues every stranded interjection in the order of arrival, behind the running turn and ahead
  of everything else, and an aborted drain gives back what it took, ahead of later entries.
\<close>

lemma flush_behind_running:
  assumes "pending_inputs s = r # rest" "running_prompt_id s = Some (prompt_id r)"
  shows "pending_inputs (fst (flush_stranded_interjections fresh s)) =
    r # map (\<lambda>(n, entry). fallback_item (fresh n) entry True) (enumerate 0 (pending_interjections s)) @ rest"
proof -
  have "pending_inputs (fold (\<lambda>(n, entry). queue_interjection_fallback_prompt (fresh n) entry True) (rev es) s') =
      r # map (\<lambda>(n, entry). fallback_item (fresh n) entry True) es @ rest"
    if "pending_inputs s' = r # rest" "running_prompt_id s' = Some (prompt_id r)" for es s'
  proof -
    have "pending_inputs (fold (\<lambda>(n, entry). queue_interjection_fallback_prompt (fresh n) entry True) (rev es) s') =
        r # map (\<lambda>(n, entry). fallback_item (fresh n) entry True) es @ rest \<and>
        running_prompt_id (fold (\<lambda>(n, entry). queue_interjection_fallback_prompt (fresh n) entry True) (rev es) s') = Some (prompt_id r)"
      using that(2) by (induction es)
        (auto simp: that(1) queue_interjection_fallback_prompt_def Let_def front_is_running_def running_prompt_id_def insert_at_def)
    then show ?thesis by simp
  qed
  then show ?thesis
    using assms by (simp add: flush_stranded_interjections_def drain_all_def running_prompt_id_def)
qed

lemma drain_restored:
  "pending_interjections (drain_restore ((drain_take s)\<lparr>pending_interjections := later\<rparr>)) =
     draining s @ pending_interjections s @ later"
  by (simp add: drain_restore_def drain_take_def drain_all_def restore_front_def)


section \<open>Editing and sending now\<close>

text \<open>
  An edit replaces the text, keeps the images, a command stays a command with the new text, and the owner
  stays; the version grows until it is saturated.
\<close>

lemma meta_bash_roundtrip: "meta_from_value (meta_bash c) = Some (Some c)"
  by (simp add: meta_from_value_def meta_bash_def cstr.optional_skip [of "Some c", simplified])

lemma edit_keeps_kind_and_images:
  "extract_bash_command (prompt_blocks (apply_queued_prompt_edit t ed i)) =
     (if extract_bash_command (prompt_blocks i) = None then None else Some t)"
  "filter is_image_block (prompt_blocks (apply_queued_prompt_edit t ed i)) = filter is_image_block (prompt_blocks i)"
  "map_option qe_owner (queue_meta (apply_queued_prompt_edit t ed i)) = map_option qe_owner (queue_meta i)"
proof -
  have "text_blocks (filter is_image_block bs) = []" for bs :: "'a content_block list"
    by (induction bs) (auto elim: is_image_block.elims)
  then show "extract_bash_command (prompt_blocks (apply_queued_prompt_edit t ed i)) =
     (if extract_bash_command (prompt_blocks i) = None then None else Some t)"
    by (simp add: apply_queued_prompt_edit_def Let_def extract_bash_command_def block_command_def meta_bash_roundtrip map_filter_simps)
qed (simp_all add: apply_queued_prompt_edit_def Let_def map_option.compositionality comp_def)

lemma saturating_succ_grows: "v \<noteq> - 1 \<Longrightarrow> v < saturating_succ v" "saturating_succ (- 1) = - 1"
  by (simp_all add: saturating_succ_def inc_less_eq_self_iff_eq flip: not_le)

text \<open>
  A row is changed by a send-now request exactly when it is queued, not running, and matches the version
  and the owner; in every other case the rows stay as they are, so an edit sent along is not kept.
\<close>

lemma position_None: "position P xs = None \<longleftrightarrow> (\<forall>x\<in>set xs. \<not> P x)"
  by (induction xs) auto

lemma interject_mutates_iff:
  "mutated (snd (handle_interject_queued_prompt goal qid v owner nt s)) \<longleftrightarrow>
     running_prompt_id s \<noteq> Some qid \<and> (\<exists>i\<in>set (pending_inputs s). editable_queue_meta_matches qid v owner i)"
  "\<not> mutated (snd (handle_interject_queued_prompt goal qid v owner nt s)) \<Longrightarrow>
     pending_inputs (fst (handle_interject_queued_prompt goal qid v owner nt s)) = pending_inputs s"
proof -
  let ?pos = "position (editable_queue_meta_matches qid v owner) (pending_inputs s)"
  have none: "handle_interject_queued_prompt goal qid v owner nt s =
      (broadcast_queue_changed (clear_hold_unless_protected qid s), \<lparr>cancel_running_turn = False, mutated = False\<rparr>)"
    if "running_prompt_id s = Some qid \<or> ?pos = None"
    using that by (auto simp: handle_interject_queued_prompt_def Let_def split: option.split)
  have some: "mutated (snd (handle_interject_queued_prompt goal qid v owner nt s))"
    if "running_prompt_id s \<noteq> Some qid" "?pos = Some k" for k
    using that by (simp add: handle_interject_queued_prompt_def Let_def)
  show "mutated (snd (handle_interject_queued_prompt goal qid v owner nt s)) \<longleftrightarrow>
     running_prompt_id s \<noteq> Some qid \<and> (\<exists>i\<in>set (pending_inputs s). editable_queue_meta_matches qid v owner i)"
    using none some position_None [of "editable_queue_meta_matches qid v owner" "pending_inputs s"]
    by (cases "running_prompt_id s = Some qid"; cases ?pos) auto
  show "pending_inputs (fst (handle_interject_queued_prompt goal qid v owner nt s)) = pending_inputs s"
    if "\<not> mutated (snd (handle_interject_queued_prompt goal qid v owner nt s))"
    using none some that by (cases "running_prompt_id s = Some qid"; cases ?pos) auto
qed

section \<open>What holds in every run\<close>

text \<open>C4.
  Every prompt is settled once. In any sequence of the queue's handlers, the channels of the prompts
  that were accepted are exactly the channels of the rows still queued, the channels that were answered
  and the channels that were dropped unanswered, with multiplicity. So no prompt is lost and none is
  answered twice. Only runtime wakes are ever dropped unanswered, never a row of a user or of the parent
  agent.
\<close>

theorem every_prompt_settled_once:
  "let s = run_queue ops (queue_init sid) in
     mset (map respond_to (pending_inputs s)) + mset (answered s) + mset (map fst (dropped s)) = accepted_in ops (queue_init sid) \<and>
     filter (\<lambda>d. \<not> is_preemptible_runtime_wake (snd d)) (dropped s) = []"
proof -
  let ?s = "run_queue ops (queue_init sid) :: 'a queue_state"
  have "ledger (queue_init sid :: 'a queue_state) = {#}" "queue_inv (queue_init sid :: 'a queue_state)"
    by (simp_all add: queue_init_def ledger_def queue_inv_def)
  then have "ledger ?s = accepted_in ops (queue_init sid)" "list_all drop_ok (effects ?s)"
    using channels_run [of ops "queue_init sid"] queue_inv_run [of "queue_init sid" ops] by (simp_all add: queue_inv_def)
  then show ?thesis
    by (simp add: Let_def ledger_def answered_def dropped_def settled_split drop_ok_dropped add.assoc)
qed

text \<open>C5.
  The controls of the queue never touch the running turn. In every reachable state whose front row is
  the running turn, promoting held rows, removing, sending now, reordering, clearing, editing, holding and
  releasing leave the front row and the running task as they are, and leave the rows behind it that are
  hidden or protected unchanged and in order.
\<close>

theorem controls_spare_running_turn:
  assumes "pending_inputs (run_queue ops (queue_init sid)) = r # rest"
    and "running_prompt_id (run_queue ops (queue_init sid)) = Some (prompt_id r)"
    and "is_control op"
  shows "\<exists>rest'. pending_inputs (queue_step op (run_queue ops (queue_init sid))) = r # rest' \<and>
      filter (\<lambda>i. \<not> is_queue_editable i) rest' = filter (\<lambda>i. \<not> is_queue_editable i) rest \<and>
      running_task (queue_step op (run_queue ops (queue_init sid))) = running_task (run_queue ops (queue_init sid))"
proof -
  have "queue_inv (run_queue ops (queue_init sid) :: 'a queue_state)"
    by (rule queue_inv_run) (simp add: queue_init_def queue_inv_def)
  from spares_control [OF this assms] running_task_control [OF assms(3)] show ?thesis
    by (simp add: spares_def)
qed

text \<open>C6.
  Reordering the queue permutes it. Rows that may not be moved (hidden, protected, or running) keep their
  slots, the others fill the remaining slots sorted by their place in the wanted order, with unnamed ones
  behind and equal ones in their old order. Asking twice is asking once.
\<close>

theorem reorder_is_pinned_sort:
  "let q = pending_inputs s; q' = pending_inputs (fst (handle_reorder_queue ids s)); movable = is_reorderable (running_prompt_id s) in
     mset q' = mset q \<and>
     filter movable q' = sort_key (order_key ids) (filter movable q) \<and>
     map (\<lambda>i. if movable i then None else Some i) q' = map (\<lambda>i. if movable i then None else Some i) q \<and>
     pending_inputs (fst (handle_reorder_queue ids (fst (handle_reorder_queue ids s)))) = q'"
proof -
  let ?P = "is_reorderable (running_prompt_id s)"
  have "map (\<lambda>i. if ?P i then None else Some i) (reordered ids (running_prompt_id s) (pending_inputs s)) =
      map (\<lambda>i. if ?P i then None else Some i) (pending_inputs s)"
    unfolding reordered_def by (rule fill_slots_pinned) (simp_all add: list_all_iff)
  then show ?thesis
    by (simp only: Let_def pending_reorder running_reorder mset_reordered filter_reordered reordered_idem simp_thms)
qed

text \<open>C7.
  An edit hold delays a turn but never parks the queue. When no turn runs or is being finished and no hook
  holds the queue, the first row that is not stale is started, merged with its followers or not, unless it
  is under a hold younger than ten minutes; then nothing is started and the row stays in front.
\<close>

theorem hold_delays_but_never_parks:
  assumes "running_task s = None" "active_token s = None" "\<not> hook_block_hold s"
    and "dropWhile (se_stale env \<circ> input_origin) (pending_inputs s) = i # rest"
  shows "if \<exists>t. (prompt_id i, t) \<in> set (edit_holds s) \<and> se_now env - t < 600000000000
    then running_task (maybe_start_running_task env s) = None \<and> pending_inputs (maybe_start_running_task env s) = i # rest
    else running_prompt_id (maybe_start_running_task env s) = Some (prompt_id i) \<and>
      (\<exists>i' rest'. pending_inputs (maybe_start_running_task env s) = i' # rest' \<and> same_row i' i)"
  using start_of_front [OF assms] by (simp add: live_hold_def EDIT_HOLD_TTL_def)

text \<open>The rows a front may absorb.\<close>

definition plain_follower :: "rstring list \<Rightarrow> 'x input_item \<Rightarrow> bool" where
  "plain_follower skip_ids i \<longleftrightarrow> input_origin i = OUser \<and> is_queue_editable i \<and> prompt_id i \<notin> set skip_ids \<and>
     extract_bash_command (prompt_blocks i) = None \<and> tool_overrides_update i = None \<and>
     list_all (\<lambda>b. text_of b \<noteq> None) (prompt_blocks i) \<and> joined_text_blocks (prompt_blocks i) \<noteq> []"

lemma follower_is_plain: "can_merge_follower skip_ids (combine_gate_of i) \<Longrightarrow> plain_follower skip_ids i"
  by (auto simp: plain_follower_def can_merge_follower_def can_merge_front_def combine_gate_of_def Let_def
      origin_is_synthetic_def joined_nonempty list_all_iff)

lemma mergeable_front_text: "can_merge_front (combine_gate_of i) \<Longrightarrow> joined_text_blocks (prompt_blocks i) \<noteq> []"
  by (auto simp: can_merge_front_def combine_gate_of_def Let_def joined_nonempty)

lemma combine_front_eq:
  "combine_front_pending_inputs (front # rest) skip_ids =
     (let n = length (takeWhile (can_merge_follower skip_ids \<circ> combine_gate_of) rest)
      in if can_merge_front (combine_gate_of front) \<and> n \<noteq> 0 then absorb_followers n front rest else (front # rest, []))"
  by (cases rest) (simp_all add: Let_def takeWhile_map comp_def del: absorb_followers.simps)

text \<open>C8.
  Combining queued follow-ups loses no text. The front row absorbs a prefix of the rows behind it: its text
  becomes the texts of all of them in order, one blank line apart, it stays the same row otherwise, and the
  absorbed rows are the ones answered as removed. Each is a plain text prompt of a user: not a command,
  without an image, without overrides, not blank and not under an edit hold.
\<close>

theorem combine_keeps_every_text:
  assumes "combine_front_pending_inputs (front # rest) skip_ids = (q, removed)"
  shows "\<exists>front' kept. q = front' # kept \<and> rest = removed @ kept \<and> same_row front' front \<and>
    joined_text_blocks (prompt_blocks front') =
      join TEXT_SEPARATOR (map (\<lambda>i. joined_text_blocks (prompt_blocks i)) (front # removed)) \<and>
    list_all (plain_follower skip_ids) removed"
proof (cases "can_merge_front (combine_gate_of front)")
  case True
  let ?n = "length (takeWhile (can_merge_follower skip_ids \<circ> combine_gate_of) rest)"
  have plain: "list_all (plain_follower skip_ids) (take ?n rest)"
    using set_takeWhileD [of _ "can_merge_follower skip_ids \<circ> combine_gate_of" rest]
    by (auto simp: list_all_iff takeWhile_eq_take [symmetric] intro: follower_is_plain)
  then obtain front' where "absorb_followers ?n front rest = (front' # drop ?n rest, take ?n rest)" "same_row front' front"
    "joined_text_blocks (prompt_blocks front') =
       join TEXT_SEPARATOR (map (\<lambda>i. joined_text_blocks (prompt_blocks i)) (front # take ?n rest))"
    using absorb_followers_spec [of ?n rest front] mergeable_front_text [OF True]
    by (auto simp: length_takeWhile_le list_all_iff plain_follower_def)
  with assms True plain show ?thesis
    by (auto simp: combine_front_eq Let_def simp del: combine_front_pending_inputs.simps split: if_splits)
qed (use assms in \<open>auto simp: combine_front_eq Let_def simp del: combine_front_pending_inputs.simps\<close>)


section \<open>Witnesses\<close>

definition queue_demo_request :: "nat \<Rightarrow> nat queue_request" where
  "queue_demo_request n = \<lparr>rq_blocks = [CText \<lparr>tb_text = [n], tb_meta = None\<rparr>], rq_prompt_id = [n], rq_origin = OUser,
     rq_client_identifier = None, rq_send_now = False, rq_tool_overrides_update = None, rq_respond_to = n, rq_carried = 0\<rparr>"

definition queue_demo_env :: queue_env where
  "queue_demo_env = \<lparr>env_is_subagent = False, env_has_reservations = False, env_follow_up_steer = False, env_goal_active = False, env_blocked_in_wait = False\<rparr>"

definition queue_demo_start :: start_env where
  "queue_demo_start = \<lparr>se_combine = False, se_stale = (\<lambda>_. False), se_now = 0, se_epoch = 0, se_identity = 0, se_has_gate = False\<rparr>"

definition queue_demo_run :: "nat queue_op list" where
  "queue_demo_run = [QInput queue_demo_env (queue_demo_request 65), QStart queue_demo_start, QInput queue_demo_env (queue_demo_request 66)]"

abbreviation queue_demo_row :: "nat \<Rightarrow> nat input_item" where "queue_demo_row n \<equiv> item_of_request (queue_demo_request n)"

lemma queue_demo_row_fields [simp]:
  "input_origin (queue_demo_row n) = OUser" "prompt_id (queue_demo_row n) = [n]" "tool_overrides_update (queue_demo_row n) = None"
  "mutation_policy (queue_demo_row n) = \<lparr>qm_visible = True, qm_editable = True\<rparr>"
  by (simp_all add: item_of_request_def queue_demo_request_def Let_def qm_from_input_origin_def)

lemma no_override [simp]: "tool_overrides_update i = None \<Longrightarrow> i\<lparr>tool_overrides_update := None\<rparr> = i"
  by (cases i) simp

lemma queue_fields [simp]:
  "edit_holds (emit e s) = edit_holds s" "active_token (emit e s) = active_token s" "hook_block_hold (emit e s) = hook_block_hold s"
  by (simp_all add: emit_def)

lemma record_prompt_effects: "\<exists>es. record_prompt env rq s = s\<lparr>effects := es\<rparr>"
  by (auto simp: record_prompt_def Let_def emit_def intro: exI [of _ "effects s"])

lemma queue_demo_request_fields [simp]:
  "rq_origin (queue_demo_request n) = OUser" "rq_send_now (queue_demo_request n) = False"
  by (simp_all add: queue_demo_request_def)

lemma queue_demo_input:
  assumes "list_all (\<lambda>i. input_origin i = OUser) (pending_inputs s)"
  shows "\<exists>es. fst (queue_input queue_demo_env (queue_demo_request n) s) =
      s\<lparr>pending_inputs := pending_inputs s @ [queue_demo_row n], effects := es\<rparr>"
proof -
  obtain es where rec: "record_prompt queue_demo_env (queue_demo_request n) s = s\<lparr>effects := es\<rparr>"
    using record_prompt_effects by blast
  have "preempt_wakes rv (s\<lparr>effects := es\<rparr>) = s\<lparr>effects := es\<rparr>" for rv
    using assms by (auto simp: preempt_wakes_def list_all_iff)
  then have "fst (queue_input queue_demo_env (queue_demo_request n) s) = commit_queued_delivery (queue_demo_row n) (s\<lparr>effects := es\<rparr>)"
    by (simp add: queue_input_def rec [unfolded queue_demo_env_def] Let_def queue_demo_env_def)
  then show ?thesis by (auto simp: commit_queued_delivery_def broadcast_queue_changed_def emit_def)
qed

lemma queue_demo_start_row:
  assumes "running_task s = None" "active_token s = None" "\<not> hook_block_hold s" "edit_holds s = []"
    "pending_inputs s = queue_demo_row n # rest"
  shows "pending_inputs (maybe_start_running_task queue_demo_start s) = queue_demo_row n # rest"
    "running_prompt_id (maybe_start_running_task queue_demo_start s) = Some [n]"
  using assms
  by (simp_all add: maybe_start_running_task_def promote_front_def discard_stale_def drop_stale_fronts_eq front_held_def merge_front_def queue_demo_start_def
      collect_holds_def start_front_result)

lemma queue_demo_reached:
  "pending_inputs (run_queue queue_demo_run (queue_init [])) = [queue_demo_row 65, queue_demo_row 66]"
  "running_prompt_id (run_queue queue_demo_run (queue_init [])) = Some (prompt_id (queue_demo_row 65))"
proof -
  obtain es where one: "fst (queue_input queue_demo_env (queue_demo_request 65) (queue_init [])) = (queue_init [])\<lparr>pending_inputs := [queue_demo_row 65], effects := es\<rparr>"
    using queue_demo_input [of "queue_init []" 65] by (auto simp: queue_init_def)
  let ?s = "maybe_start_running_task queue_demo_start ((queue_init [])\<lparr>pending_inputs := [queue_demo_row 65], effects := es\<rparr>)"
  have s: "pending_inputs ?s = [queue_demo_row 65]" "running_prompt_id ?s = Some [65]"
    by (intro queue_demo_start_row; simp add: queue_init_def)+
  obtain es' where "fst (queue_input queue_demo_env (queue_demo_request 66) ?s) = ?s\<lparr>pending_inputs := [queue_demo_row 65, queue_demo_row 66], effects := es'\<rparr>"
    using queue_demo_input [of ?s 66] s by auto
  then show "pending_inputs (run_queue queue_demo_run (queue_init [])) = [queue_demo_row 65, queue_demo_row 66]"
    "running_prompt_id (run_queue queue_demo_run (queue_init [])) = Some (prompt_id (queue_demo_row 65))"
    using s by (simp_all add: run_queue_def queue_demo_run_def one running_prompt_id_def)
qed

theorem controls_spare_running_turn_witness:
  "\<exists>rest'. pending_inputs (queue_step (QClear None) (run_queue queue_demo_run (queue_init []))) = queue_demo_row 65 # rest' \<and>
      filter (\<lambda>i. \<not> is_queue_editable i) rest' = filter (\<lambda>i. \<not> is_queue_editable i) [queue_demo_row 66] \<and>
      running_task (queue_step (QClear None) (run_queue queue_demo_run (queue_init []))) = running_task (run_queue queue_demo_run (queue_init []))"
  by (rule controls_spare_running_turn [OF queue_demo_reached]) simp

theorem hold_delays_but_never_parks_witness:
  "running_prompt_id (maybe_start_running_task (queue_demo_start\<lparr>se_now := 600000000000\<rparr>)
     ((queue_init [])\<lparr>pending_inputs := [queue_demo_row 65], edit_holds := [([65], 0)]\<rparr>)) = Some [65] \<and>
   running_task (maybe_start_running_task queue_demo_start
     ((queue_init [])\<lparr>pending_inputs := [queue_demo_row 65], edit_holds := [([65], 0)]\<rparr>)) = None"
  using hold_delays_but_never_parks [of "(queue_init [])\<lparr>pending_inputs := [queue_demo_row 65], edit_holds := [([65], 0)]\<rparr>"
      "queue_demo_start\<lparr>se_now := 600000000000\<rparr>" "queue_demo_row 65" "[]"]
    hold_delays_but_never_parks [of "(queue_init [])\<lparr>pending_inputs := [queue_demo_row 65], edit_holds := [([65], 0)]\<rparr>" queue_demo_start "queue_demo_row 65" "[]"]
  by (simp add: queue_init_def queue_demo_start_def)

theorem combine_keeps_every_text_witness:
  "joined_text_blocks (prompt_blocks (hd (fst (combine_front_pending_inputs [queue_demo_row 65, queue_demo_row 66] [])))) = [65, 10, 10, 66]"
proof -
  have gates: "can_merge_front (combine_gate_of (queue_demo_row n))" "can_merge_follower [] (combine_gate_of (queue_demo_row n))" if "n = 65 \<or> n = 66" for n
    using that
    by (auto simp: can_merge_front_def can_merge_follower_def combine_gate_of_def item_of_request_def queue_demo_request_def Let_def
        extract_bash_command_def block_command_def map_filter_simps is_queue_editable_def qm_from_input_origin_def queue_kind_def
        origin_is_synthetic_def has_display_text_def display_text_def)
  have "snd (combine_front_pending_inputs [queue_demo_row 65, queue_demo_row 66] []) = [queue_demo_row 66]"
    using gates [of 65] gates [of 66] by (simp add: combine_front_eq del: combine_front_pending_inputs.simps)
  then obtain q where "combine_front_pending_inputs [queue_demo_row 65, queue_demo_row 66] [] = (q, [queue_demo_row 66])" by (metis prod.collapse)
  with combine_keeps_every_text [OF this] show ?thesis
    by (auto simp: joined_text_blocks_def item_of_request_def queue_demo_request_def Let_def join_texts_def TEXT_SEPARATOR_def simp del: combine_front_pending_inputs.simps)
qed

end
