(* ===== verification/Sliding_Window.thy ===== *)
theory Sliding_Window
  imports Prelude
begin

text \<open>
  The bounded sliding window of \<open>xai-circuit-breaker/src/window.rs\<close>: a queue of
  \<open>(timestamp, is_failure)\<close> samples with an incrementally maintained failure count. The
  count is a \<open>usize\<close> and its decrements wrap, so that it never underflows is a consequence of
  the invariant and not of the model.
\<close>

definition MAX_WINDOW_ENTRIES :: nat where
  "MAX_WINDOW_ENTRIES = 10000"

record sliding_window =
  entries :: "(instant \<times> bool) list"
  failures :: usize

definition window_new :: sliding_window where
  "window_new = \<lparr>entries = [], failures = 0\<rparr>"

definition window_push :: "bool \<Rightarrow> instant \<Rightarrow> sliding_window \<Rightarrow> sliding_window" where
  "window_push is_failure ts w =
     (let w1 = (if MAX_WINDOW_ENTRIES \<le> length (entries w) then
                  (case entries w of
                     [] \<Rightarrow> w
                   | (_, was_failure) # rest \<Rightarrow>
                       w\<lparr>entries := rest,
                         failures := (if was_failure then failures w - 1 else failures w)\<rparr>)
                else w);
          w2 = w1\<lparr>entries := entries w1 @ [(ts, is_failure)]\<rparr>
      in if is_failure then w2\<lparr>failures := failures w2 + 1\<rparr> else w2)"

text \<open>The eviction loop: pop from the front while the timestamp lies before the cutoff.\<close>

fun evict_loop :: "instant \<Rightarrow> (instant \<times> bool) list \<Rightarrow> usize
    \<Rightarrow> (instant \<times> bool) list \<times> usize" where
  "evict_loop cutoff [] f = ([], f)"
| "evict_loop cutoff ((ts, was_failure) # rest) f =
     (if ts < cutoff then evict_loop cutoff rest (if was_failure then f - 1 else f)
      else ((ts, was_failure) # rest, f))"

text \<open>\<open>now.checked_sub(window)\<close> is \<open>None\<close> when the cutoff would lie before the clock's start.\<close>

definition window_evict :: "duration \<Rightarrow> instant \<Rightarrow> sliding_window \<Rightarrow> sliding_window" where
  "window_evict window now w =
     (if now < window then w
      else let (es, f) = evict_loop (now - window) (entries w) (failures w)
           in w\<lparr>entries := es, failures := f\<rparr>)"

definition window_error_rate :: "sliding_window \<Rightarrow> rat" where
  "window_error_rate w =
     (if entries w = [] then 0 else f64_ratio (unat (failures w)) (length (entries w)))"

definition window_sample_count :: "sliding_window \<Rightarrow> nat" where
  "window_sample_count w = length (entries w)"

definition window_clear :: "sliding_window \<Rightarrow> sliding_window" where
  "window_clear w = w\<lparr>entries := [], failures := 0\<rparr>"

section \<open>The counter agrees with the queue\<close>

definition count_failures :: "(instant \<times> bool) list \<Rightarrow> nat" where
  "count_failures es = length (filter snd es)"

definition window_inv :: "sliding_window \<Rightarrow> bool" where
  [inv_simps]: "window_inv w \<longleftrightarrow>
     failures w = of_nat (count_failures (entries w)) \<and> length (entries w) \<le> MAX_WINDOW_ENTRIES"

lemma count_failures_simps [simp]:
  "count_failures [] = 0"
  "count_failures ((t, b) # es) = (if b then Suc (count_failures es) else count_failures es)"
  "count_failures (es @ fs) = count_failures es + count_failures fs"
  by (simp_all add: count_failures_def)

lemma count_failures_le: "count_failures es \<le> length es"
  by (simp add: count_failures_def)

lemma window_inv_unat:
  assumes "window_inv w"
  shows "unat (failures w) = count_failures (entries w)"
proof -
  have "count_failures (entries w) < 2 ^ 64"
    using assms count_failures_le [of "entries w"]
    by (simp add: window_inv_def MAX_WINDOW_ENTRIES_def)
  then show ?thesis using assms by (simp add: window_inv_def unat_of_nat_u64)
qed

lemma window_new_inv [simp]: "window_inv window_new"
  by (simp add: window_inv_def window_new_def)

lemma window_clear_inv [simp]: "window_inv (window_clear w)"
  by (simp add: window_inv_def window_clear_def)

lemma window_push_inv: "window_inv w \<Longrightarrow> window_inv (window_push b ts w)"
  by (cases "entries w")
    (auto simp: window_inv_def window_push_def MAX_WINDOW_ENTRIES_def Let_def split: if_splits)

lemma window_push_entries:
  "entries (window_push b ts w) =
     (if MAX_WINDOW_ENTRIES \<le> length (entries w) then tl (entries w) else entries w) @ [(ts, b)]"
  by (cases "entries w") (auto simp: window_push_def MAX_WINDOW_ENTRIES_def Let_def)

lemma evict_loop_dropWhile:
  "evict_loop c es f =
     (dropWhile (\<lambda>(t, _). t < c) es, f - of_nat (count_failures (takeWhile (\<lambda>(t, _). t < c) es)))"
  by (induction c es f rule: evict_loop.induct) auto

lemma window_evict_entries:
  "entries (window_evict d now w) =
     (if now < d then entries w else dropWhile (\<lambda>(t, _). t < now - d) (entries w))"
  by (simp add: window_evict_def evict_loop_dropWhile)

lemma window_evict_inv: "window_inv w \<Longrightarrow> window_inv (window_evict d now w)"
proof (cases "now < d")
  case False
  assume inv: "window_inv w"
  let ?P = "\<lambda>(t, _::bool). t < now - d"
  have "length (dropWhile ?P (entries w)) \<le> length (entries w)"
    by (rule length_dropWhile_le)
  moreover have "count_failures (entries w) =
      count_failures (takeWhile ?P (entries w)) + count_failures (dropWhile ?P (entries w))"
    unfolding count_failures_def by (rule filter_dropWhile_count)
  ultimately show ?thesis
    using inv False by (simp add: window_inv_def window_evict_def evict_loop_dropWhile)
qed (simp add: window_evict_def)

lemma window_error_rate_eq:
  "window_inv w \<Longrightarrow> window_error_rate w =
     (if entries w = [] then 0 else f64_ratio (count_failures (entries w)) (length (entries w)))"
  by (simp add: window_error_rate_def window_inv_unat)

lemma window_error_rate_bounds:
  assumes "window_inv w"
  shows "0 \<le> window_error_rate w" "window_error_rate w \<le> 1"
  using assms f64_ratio_bounds [of "length (entries w)" "count_failures (entries w)"]
  by (auto simp: window_error_rate_eq count_failures_le)

lemma window_error_rate_half:
  assumes "window_inv w" "entries w \<noteq> []"
  shows "1 / 2 \<le> window_error_rate w \<longleftrightarrow>
    length (entries w) \<le> 2 * count_failures (entries w)"
  using assms f64_ratio_half [of "length (entries w)" "count_failures (entries w)"]
  by (simp add: window_error_rate_eq window_inv_def MAX_WINDOW_ENTRIES_def)

section \<open>Samples in time order\<close>

text \<open>
  With timestamps in the order they were taken (the clock is monotonic), what survives an
  eviction is exactly the samples inside the window.
\<close>

definition window_sorted :: "sliding_window \<Rightarrow> bool" where
  "window_sorted w \<longleftrightarrow> sorted (map fst (entries w))"

lemma dropWhile_sorted_filter:
  "sorted (map fst es) \<Longrightarrow> dropWhile (\<lambda>(t, _). t < (c::nat)) es = filter (\<lambda>(t, _). c \<le> t) es"
proof (induction es)
  case (Cons e es)
  then show ?case
    by (cases e) (auto intro!: filter_True [symmetric])
qed simp

lemma window_evict_sorted:
  "window_sorted w \<Longrightarrow> d \<le> now \<Longrightarrow>
     entries (window_evict d now w) = filter (\<lambda>(t, _). now - d \<le> t) (entries w)"
  by (simp add: window_evict_entries window_sorted_def dropWhile_sorted_filter)

end
