(* ===== verification/Circuit_Breaker.thy ===== *)
theory Circuit_Breaker
  imports Sliding_Window
begin

text \<open>
  The circuit breaker of \<open>xai-circuit-breaker/src\<close>: its configuration (\<open>config.rs\<close>), the
  states and outcomes (\<open>state.rs\<close>), the telemetry callbacks (\<open>observer.rs\<close>) and the breaker
  itself (\<open>breaker.rs\<close>), here with every operation running to completion before the next
  begins. The interleaving of the atomic accesses is the subject of theory
  \<open>Breaker_Concurrent\<close>.

  Every call of \<open>clock.now()\<close> is an argument of the operation that makes it, in the order the
  code makes them, so that two readings within one operation may differ. Observer callbacks
  are appended to the field \<open>events\<close> in the order they are made, each with the observer that
  receives it (\<open>None\<close> is \<open>NOOP_OBSERVER\<close>).
\<close>

section \<open>States, outcomes, configuration\<close>

datatype breaker_state = Closed | Open | HalfOpen

fun state_as_u8 :: "breaker_state \<Rightarrow> u8" where
  "state_as_u8 Closed = 0"
| "state_as_u8 Open = 1"
| "state_as_u8 HalfOpen = 2"

definition from_u8 :: "u8 \<Rightarrow> breaker_state" where
  "from_u8 v = (if v = 0 then Closed else if v = 1 then Open else if v = 2 then HalfOpen else Closed)"

datatype outcome = Success | Failure

record breaker_open =
  retry_after :: duration

record breaker_config =
  window_duration :: duration
  min_samples :: usize
  error_rate_threshold :: f64
  open_duration :: duration
  half_open_max_probes :: usize
  failure_codes :: "u16 set"
  enabled :: bool

definition DEFAULT_FAILURE_CODES :: "u16 list" where
  "DEFAULT_FAILURE_CODES = [429, 500, 502, 503, 504]"

definition default_failure_codes :: "u16 set" where
  "default_failure_codes = set DEFAULT_FAILURE_CODES"

definition config_server :: breaker_config where
  "config_server =
     \<lparr>window_duration = from_secs 60, min_samples = 10, error_rate_threshold = Fin (1 / 2),
      open_duration = from_secs 10, half_open_max_probes = 1,
      failure_codes = default_failure_codes, enabled = True\<rparr>"

definition config_client :: breaker_config where
  "config_client =
     \<lparr>window_duration = from_secs 60, min_samples = 5, error_rate_threshold = Fin (1 / 2),
      open_duration = from_secs 60, half_open_max_probes = 1,
      failure_codes = {401}, enabled = True\<rparr>"

definition config_is_failure_status :: "breaker_config \<Rightarrow> u16 \<Rightarrow> bool" where
  "config_is_failure_status c status \<longleftrightarrow> status \<in> failure_codes c"

section \<open>The breaker\<close>

datatype obs_event =
    OnStateChange breaker_state breaker_state string
  | OnProbeAdmission bool
  | OnOutcome outcome breaker_state

record circuit_breaker =
  config :: breaker_config
  state_u8 :: u8
  baseline :: instant
  opened_at_millis :: u64
  half_open_probes :: usize
  probe_claimed_at_millis :: u64
  is_open_fast :: bool
  window :: sliding_window
  observer :: "nat option"
  events :: "(nat option \<times> obs_event) list"

definition with_clock :: "breaker_config \<Rightarrow> instant \<Rightarrow> circuit_breaker" where
  "with_clock cfg now =
     \<lparr>config = cfg\<lparr>half_open_max_probes := max (half_open_max_probes cfg) 1\<rparr>,
      state_u8 = state_as_u8 Closed, baseline = now, opened_at_millis = 0,
      half_open_probes = 0, probe_claimed_at_millis = 0, is_open_fast = False,
      window = window_new, observer = None, events = []\<rparr>"

text \<open>\<open>OnceLock::set\<close>: the first observer installed wins.\<close>

definition with_observer :: "nat \<Rightarrow> circuit_breaker \<Rightarrow> circuit_breaker" where
  "with_observer ob b = (case observer b of None \<Rightarrow> b\<lparr>observer := Some ob\<rparr> | Some _ \<Rightarrow> b)"

definition notify :: "obs_event \<Rightarrow> circuit_breaker \<Rightarrow> circuit_breaker" where
  "notify e b = b\<lparr>events := events b @ [(observer b, e)]\<rparr>"

definition state :: "circuit_breaker \<Rightarrow> breaker_state" where
  "state b = from_u8 (state_u8 b)"

definition is_open :: "circuit_breaker \<Rightarrow> bool" where
  "is_open b = is_open_fast b"

definition elapsed_millis :: "instant \<Rightarrow> circuit_breaker \<Rightarrow> u64" where
  "elapsed_millis now b = as_u64 (as_millis (now - baseline b))"

definition error_rate :: "instant \<Rightarrow> circuit_breaker \<Rightarrow> rat \<times> circuit_breaker" where
  "error_rate now b =
     (let w = window_evict (window_duration (config b)) now (window b)
      in (window_error_rate w, b\<lparr>window := w\<rparr>))"

definition is_failure_status :: "u16 \<Rightarrow> circuit_breaker \<Rightarrow> bool" where
  "is_failure_status status b = config_is_failure_status (config b) status"

definition force_half_open :: "circuit_breaker \<Rightarrow> circuit_breaker" where
  "force_half_open b =
     (let prev = state b;
          b1 = b\<lparr>state_u8 := state_as_u8 HalfOpen, is_open_fast := False, half_open_probes := 0\<rparr>
      in if prev \<noteq> HalfOpen then notify (OnStateChange prev HalfOpen ''force_half_open'') b1 else b1)"

definition trip :: "breaker_state \<Rightarrow> string \<Rightarrow> instant \<Rightarrow> circuit_breaker \<Rightarrow> circuit_breaker" where
  "trip prev reason now b =
     (let b1 = b\<lparr>state_u8 := state_as_u8 Open, opened_at_millis := elapsed_millis now b,
                 half_open_probes := 0, is_open_fast := True\<rparr>
      in if prev \<noteq> Open then notify (OnStateChange prev Open reason) b1 else b1)"

definition close :: "breaker_state \<Rightarrow> string \<Rightarrow> circuit_breaker \<Rightarrow> circuit_breaker" where
  "close prev reason b =
     (let b1 = b\<lparr>state_u8 := state_as_u8 Closed, window := window_clear (window b),
                 half_open_probes := 0, is_open_fast := False\<rparr>
      in if prev \<noteq> Closed then notify (OnStateChange prev Closed reason) b1 else b1)"

definition cas_state ::
    "breaker_state \<Rightarrow> breaker_state \<Rightarrow> circuit_breaker \<Rightarrow> bool \<times> circuit_breaker" where
  "cas_state fro to b =
     (if state_u8 b = state_as_u8 fro then (True, b\<lparr>state_u8 := state_as_u8 to\<rparr>) else (False, b))"

definition HALF_OPEN_PROBE_BACKOFF :: duration where
  "HALF_OPEN_PROBE_BACKOFF = from_millis 50"

definition try_half_open_probe ::
    "instant \<Rightarrow> circuit_breaker \<Rightarrow> (breaker_open + unit) \<times> circuit_breaker" where
  "try_half_open_probe clk b =
     (let now = elapsed_millis clk b;
          prev = half_open_probes b;
          b1 = b\<lparr>half_open_probes := prev + 1\<rparr>
      in if prev < half_open_max_probes (config b)
         then (Inr (), notify (OnProbeAdmission True) (b1\<lparr>probe_claimed_at_millis := now\<rparr>))
         else
           let b2 = b1\<lparr>half_open_probes := half_open_probes b1 - 1\<rparr>;
               lease_millis = as_u64 (as_millis (open_duration (config b)));
               claimed = probe_claimed_at_millis b2
           in if lease_millis \<le> saturating_sub_u64 now claimed
              then (Inr (), notify (OnProbeAdmission True) (b2\<lparr>probe_claimed_at_millis := now\<rparr>))
              else (Inl \<lparr>retry_after = min HALF_OPEN_PROBE_BACKOFF (open_duration (config b))\<rparr>,
                    notify (OnProbeAdmission False) b2))"

text \<open>
  \<open>t1\<close> is the reading of \<open>check_open\<close> itself, \<open>t2\<close> that of the probe, \<open>t3\<close> that of the
  retry hint after a lost race.
\<close>

definition check_open ::
    "instant \<Rightarrow> instant \<Rightarrow> instant \<Rightarrow> circuit_breaker \<Rightarrow> (breaker_open + unit) \<times> circuit_breaker"
where
  "check_open t1 t2 t3 b =
     (let elapsed = from_millis (saturating_sub_u64 (elapsed_millis t1 b) (opened_at_millis b))
      in if open_duration (config b) \<le> elapsed then
           let (won, b1) = cas_state Open HalfOpen b
           in if won then
                try_half_open_probe t2
                  (notify (OnStateChange Open HalfOpen ''open_elapsed'') (b1\<lparr>is_open_fast := False\<rparr>))
              else (case state b1 of
                  Closed \<Rightarrow> (Inr (), b1)
                | HalfOpen \<Rightarrow> try_half_open_probe t2 b1
                | Open \<Rightarrow>
                    let elapsed' =
                      from_millis (saturating_sub_u64 (elapsed_millis t3 b1) (opened_at_millis b1))
                    in (Inl \<lparr>retry_after = open_duration (config b1) - elapsed'\<rparr>, b1))
         else (Inl \<lparr>retry_after = open_duration (config b) - elapsed\<rparr>, b))"

definition check ::
    "instant \<Rightarrow> instant \<Rightarrow> instant \<Rightarrow> circuit_breaker \<Rightarrow> (breaker_open + unit) \<times> circuit_breaker"
where
  "check t1 t2 t3 b =
     (if \<not> enabled (config b) then (Inr (), b)
      else case state b of
          Closed \<Rightarrow> (Inr (), b)
        | Open \<Rightarrow> check_open t1 t2 t3 b
        | HalfOpen \<Rightarrow> try_half_open_probe t2 b)"

text \<open>\<open>now\<close> is the reading at the start of \<open>record\<close>, \<open>t2\<close> that of \<open>trip\<close>.\<close>

definition record_outcome :: "outcome \<Rightarrow> instant \<Rightarrow> instant \<Rightarrow> circuit_breaker \<Rightarrow> circuit_breaker"
where
  "record_outcome outcome now t2 b =
     (if \<not> enabled (config b) then b
      else
        let is_failure = (outcome = Failure);
            prev_state = state b;
            pushed = window_evict (window_duration (config b)) now
                       (window_push is_failure now (window b));
            b1 = (case prev_state of
                Closed \<Rightarrow>
                  let b' = b\<lparr>window := pushed\<rparr>
                  in if unat (min_samples (config b)) \<le> window_sample_count pushed
                        \<and> f64_ge (Fin (window_error_rate pushed)) (error_rate_threshold (config b))
                     then trip prev_state ''trip'' t2 b' else b'
              | HalfOpen \<Rightarrow>
                  if is_failure then trip prev_state ''probe_failure'' t2 b
                  else close prev_state ''probe_success'' b
              | Open \<Rightarrow> b\<lparr>window := pushed\<rparr>)
        in notify (OnOutcome outcome (state b1)) b1)"

section \<open>Invariant\<close>

definition breaker_inv :: "circuit_breaker \<Rightarrow> bool" where
  "breaker_inv b \<longleftrightarrow>
     state_u8 b \<in> {0, 1, 2}
     \<and> (is_open_fast b \<longleftrightarrow> state b = Open)
     \<and> (state b \<noteq> HalfOpen \<longrightarrow> half_open_probes b = 0)
     \<and> half_open_probes b \<le> half_open_max_probes (config b)
     \<and> 1 \<le> half_open_max_probes (config b)
     \<and> window_inv (window b)"

lemma from_state_as_u8 [simp]: "from_u8 (state_as_u8 s) = s"
  by (cases s) (simp_all add: from_u8_def)

lemma from_u8_simps [simp]: "from_u8 0 = Closed" "from_u8 1 = Open" "from_u8 2 = HalfOpen"
  by (simp_all add: from_u8_def)

lemma state_as_u8_valid [simp]: "state_as_u8 s \<in> {0, 1, 2}"
  by (cases s) simp_all

lemma state_as_u8_from: "v \<in> {0, 1, 2} \<Longrightarrow> state_as_u8 (from_u8 v) = v"
  by (auto simp: from_u8_def)

lemma state_update [simp]: "state (b\<lparr>state_u8 := v\<rparr>) = from_u8 v"
  by (simp add: state_def)

lemma state_cong [simp]:
  "state (b\<lparr>opened_at_millis := x1\<rparr>) = state b"
  "state (b\<lparr>half_open_probes := x2\<rparr>) = state b"
  "state (b\<lparr>probe_claimed_at_millis := x1\<rparr>) = state b"
  "state (b\<lparr>is_open_fast := x3\<rparr>) = state b"
  "state (b\<lparr>window := x4\<rparr>) = state b"
  "state (b\<lparr>events := x5\<rparr>) = state b"
  "state (b\<lparr>observer := x6\<rparr>) = state b"
  by (simp_all add: state_def)

lemma notify_simps [simp]:
  "config (notify e b) = config b" "state_u8 (notify e b) = state_u8 b"
  "baseline (notify e b) = baseline b" "opened_at_millis (notify e b) = opened_at_millis b"
  "half_open_probes (notify e b) = half_open_probes b"
  "probe_claimed_at_millis (notify e b) = probe_claimed_at_millis b"
  "is_open_fast (notify e b) = is_open_fast b" "window (notify e b) = window b"
  "observer (notify e b) = observer b" "state (notify e b) = state b"
  by (simp_all add: notify_def state_def)

lemma notify_inv [simp]: "breaker_inv (notify e b) = breaker_inv b"
  by (simp add: breaker_inv_def)

lemmas probe_defs = try_half_open_probe_def Let_def

lemma with_clock_inv: "breaker_inv (with_clock cfg now)"
  by (simp add: breaker_inv_def with_clock_def state_def from_u8_def)

lemma with_observer_inv: "breaker_inv b \<Longrightarrow> breaker_inv (with_observer ob b)"
  by (auto simp: breaker_inv_def with_observer_def state_def split: option.splits)

lemma error_rate_inv: "breaker_inv b \<Longrightarrow> breaker_inv (snd (error_rate now b))"
  by (simp add: breaker_inv_def error_rate_def Let_def window_evict_inv)

lemma force_half_open_inv: "breaker_inv b \<Longrightarrow> breaker_inv (force_half_open b)"
  by (auto simp: breaker_inv_def force_half_open_def Let_def state_def from_u8_def)

lemma trip_inv: "breaker_inv b \<Longrightarrow> breaker_inv (trip prev r now b)"
  by (auto simp: breaker_inv_def trip_def Let_def state_def from_u8_def)

lemma close_inv: "breaker_inv b \<Longrightarrow> breaker_inv (close prev r b)"
  by (auto simp: breaker_inv_def close_def Let_def state_def from_u8_def)

lemma probe_frame [simp]:
  "config (snd (try_half_open_probe t b)) = config b"
  "state_u8 (snd (try_half_open_probe t b)) = state_u8 b"
  "is_open_fast (snd (try_half_open_probe t b)) = is_open_fast b"
  "window (snd (try_half_open_probe t b)) = window b"
  "state (snd (try_half_open_probe t b)) = state b"
  "opened_at_millis (snd (try_half_open_probe t b)) = opened_at_millis b"
  "baseline (snd (try_half_open_probe t b)) = baseline b"
  by (simp_all add: probe_defs state_def)

lemma probe_probes:
  "half_open_probes (snd (try_half_open_probe t b)) =
     (if half_open_probes b < half_open_max_probes (config b)
      then half_open_probes b + 1 else half_open_probes b)"
  by (simp add: probe_defs)

lemma probe_inv:
  "breaker_inv b \<Longrightarrow> state b = HalfOpen \<Longrightarrow> breaker_inv (snd (try_half_open_probe t b))"
  by (simp add: breaker_inv_def probe_probes word_inc_le)

text \<open>Run alone, \<open>check_open\<close> wins its compare-and-swap: the byte it expects is the one it read.\<close>

lemma state_Open_byte: "breaker_inv b \<Longrightarrow> state b = Open \<Longrightarrow> state_u8 b = state_as_u8 Open"
  unfolding breaker_inv_def state_def by (metis state_as_u8_from)

lemma check_open_eq:
  assumes "breaker_inv b" "state b = Open"
  shows "check_open t1 t2 t3 b =
    (let elapsed = from_millis (saturating_sub_u64 (elapsed_millis t1 b) (opened_at_millis b))
     in if open_duration (config b) \<le> elapsed then
          try_half_open_probe t2 (notify (OnStateChange Open HalfOpen ''open_elapsed'')
            (b\<lparr>state_u8 := state_as_u8 HalfOpen, is_open_fast := False\<rparr>))
        else (Inl \<lparr>retry_after = open_duration (config b) - elapsed\<rparr>, b))"
  using state_Open_byte [OF assms] by (simp add: check_open_def cas_state_def Let_def)

lemma check_open_inv:
  assumes "breaker_inv b" "state b = Open"
  shows "breaker_inv (snd (check_open t1 t2 t3 b))"
proof -
  let ?b = "notify (OnStateChange Open HalfOpen ''open_elapsed'')
              (b\<lparr>state_u8 := state_as_u8 HalfOpen, is_open_fast := False\<rparr>)"
  have "breaker_inv ?b"
    using assms by (simp add: breaker_inv_def state_def from_u8_def)
  moreover have "state ?b = HalfOpen" by (simp add: state_def)
  ultimately have "breaker_inv (snd (try_half_open_probe t2 ?b))" by (rule probe_inv)
  then show ?thesis using assms by (simp add: check_open_eq Let_def)
qed

lemma check_inv: "breaker_inv b \<Longrightarrow> breaker_inv (snd (check t1 t2 t3 b))"
  by (auto simp: check_def check_open_inv probe_inv split: breaker_state.splits)

lemma window_update_inv: "breaker_inv b \<Longrightarrow> window_inv w \<Longrightarrow> breaker_inv (b\<lparr>window := w\<rparr>)"
  by (simp add: breaker_inv_def)

lemma record_outcome_inv: "breaker_inv b \<Longrightarrow> breaker_inv (record_outcome oc now t2 b)"
proof -
  assume inv: "breaker_inv b"
  have w: "window_inv (window_evict d now (window_push f now (window b)))" for d f
    using inv by (simp add: breaker_inv_def window_evict_inv window_push_inv)
  show ?thesis
    using inv w by (cases "state b")
      (simp_all add: record_outcome_def Let_def trip_inv close_inv window_update_inv)
qed

section \<open>Runs of operations\<close>

inductive breaker_step :: "circuit_breaker \<Rightarrow> circuit_breaker \<Rightarrow> bool" where
  check_step: "breaker_step b (snd (check t1 t2 t3 b))"
| record_step: "breaker_step b (record_outcome oc now t2 b)"
| error_rate_step: "breaker_step b (snd (error_rate now b))"
| observer_step: "breaker_step b (with_observer ob b)"
| force_step: "breaker_step b (force_half_open b)"

definition breaker_init :: "circuit_breaker \<Rightarrow> bool" where
  "breaker_init b \<longleftrightarrow> (\<exists>cfg now. b = with_clock cfg now)"

interpretation breaker: invariant_system breaker_init breaker_step breaker_inv
proof unfold_locales
  show "breaker_init b \<Longrightarrow> breaker_inv b" for b
    by (auto simp: breaker_init_def with_clock_inv)
  show "breaker_inv b \<Longrightarrow> breaker_step b c \<Longrightarrow> breaker_inv c" for b c
    by (erule breaker_step.cases)
      (simp_all add: check_inv record_outcome_inv error_rate_inv with_observer_inv force_half_open_inv)
qed

lemma lease_elapsed:
  assumes "baseline b + (unat c + as_millis d) * nanos_per_milli \<le> t"
    and "as_millis (t - baseline b) < 2 ^ 64"
  shows "as_u64 (as_millis d) \<le> saturating_sub_u64 (elapsed_millis t b) c"
proof -
  have "(unat c + as_millis d) * nanos_per_milli \<le> t - baseline b" using assms(1) by simp
  then have le: "unat c + as_millis d \<le> as_millis (t - baseline b)"
    by (simp add: as_millis_def nanos_per_milli_def less_eq_div_iff_mult_less_eq)
  then have "as_millis d < 2 ^ 64" using assms(2) by linarith
  with le assms(2) show ?thesis
    by (simp add: word_le_nat_alt saturating_sub_u64_unat elapsed_millis_def as_u64_def
        unat_of_nat_u64)
qed

section \<open>Properties\<close>

text \<open>C14. In every state reachable from a fresh breaker by any sequence of \<open>check\<close>,
  \<open>record\<close>, \<open>error_rate\<close>, \<open>with_observer\<close> and \<open>force_half_open\<close>, the lock-free mirror agrees
  with the state, the probe counter is within the configured maximum and zero outside
  \<open>HalfOpen\<close>, and the window's incremental failure counter is the number of failures queued,
  of at most \<open>MAX_WINDOW_ENTRIES\<close> samples.\<close>

theorem breaker_reachable:
  assumes "breaker_init b" "breaker_step\<^sup>*\<^sup>* b c"
  shows "(is_open c \<longleftrightarrow> state c = Open)
    \<and> half_open_probes c \<le> half_open_max_probes (config c)
    \<and> (half_open_probes c \<noteq> 0 \<longrightarrow> state c = HalfOpen)
    \<and> unat (failures (window c)) = count_failures (entries (window c))
    \<and> length (entries (window c)) \<le> MAX_WINDOW_ENTRIES"
proof -
  have inv: "breaker_inv c" using assms by (rule breaker.reachable_inv)
  then have "window_inv (window c)" by (simp add: breaker_inv_def)
  then show ?thesis
    using inv window_inv_unat by (auto simp: breaker_inv_def is_open_def window_inv_def)
qed

theorem breaker_reachable_witness:
  "is_open (trip Closed ''trip'' 5 (with_clock config_server 0)) \<and>
   is_open (record_outcome Failure 7 5 (force_half_open (with_clock config_server 0)))"
proof -
  let ?b = "with_clock config_server 0"
  have "breaker_step\<^sup>*\<^sup>* ?b (record_outcome Failure 7 5 (force_half_open ?b))"
    by (meson breaker_step.force_step breaker_step.record_step r_into_rtranclp rtranclp.rtrancl_into_rtrancl)
  moreover have "breaker_init ?b" by (auto simp: breaker_init_def)
  moreover have "state (record_outcome Failure 7 5 (force_half_open ?b)) = Open"
    by (simp add: record_outcome_def force_half_open_def with_clock_def config_server_def
        trip_def Let_def state_def)
  ultimately have "is_open (record_outcome Failure 7 5 (force_half_open ?b))"
    using breaker_reachable by blast
  then show ?thesis by (simp add: trip_def is_open_def Let_def)
qed

text \<open>C15. \<open>check\<close> on an open breaker: before the cool-down has elapsed it rejects, changes
  nothing and advertises exactly the positive remainder of the cool-down; once it has elapsed
  it moves to \<open>HalfOpen\<close>, clears the fast mirror and admits the caller as the first probe.\<close>

theorem check_on_open:
  assumes "breaker_inv b" "enabled (config b)" "state b = Open"
    and "e = from_millis (saturating_sub_u64 (elapsed_millis t1 b) (opened_at_millis b))"
  shows "(e < open_duration (config b) \<longrightarrow>
           check t1 t2 t3 b = (Inl \<lparr>retry_after = open_duration (config b) - e\<rparr>, b)
           \<and> 0 < open_duration (config b) - e)
    \<and> (open_duration (config b) \<le> e \<longrightarrow>
           fst (check t1 t2 t3 b) = Inr () \<and> state (snd (check t1 t2 t3 b)) = HalfOpen
           \<and> \<not> is_open (snd (check t1 t2 t3 b)) \<and> half_open_probes (snd (check t1 t2 t3 b)) = 1)"
proof -
  have "half_open_probes b = 0" "0 < half_open_max_probes (config b)"
    using assms(1,3) by (auto simp: breaker_inv_def one_le_u64_pos)
  then show ?thesis
    using assms by (auto simp: check_def check_open_eq Let_def try_half_open_probe_def is_open_def)
qed

theorem check_on_open_witness:
  "fst (check 3000000000 0 0 (trip Closed ''trip'' 0 (with_clock config_server 0)))
     = Inl \<lparr>retry_after = 7000000000\<rparr>
   \<and> fst (check 10000000000 10000000000 0 (trip Closed ''trip'' 0 (with_clock config_server 0)))
     = Inr ()"
proof -
  let ?b = "trip Closed ''trip'' 0 (with_clock config_server 0)"
  have inv: "breaker_inv ?b" by (intro trip_inv with_clock_inv)
  have en: "enabled (config ?b)" and st: "state ?b = Open"
    by (simp_all add: trip_def with_clock_def config_server_def Let_def state_def)
  have d: "open_duration (config ?b) = 10000000000" and o: "opened_at_millis ?b = 0"
    and bl: "baseline ?b = 0"
    by (simp_all add: trip_def with_clock_def config_server_def from_secs_def Let_def
        elapsed_millis_def as_millis_def as_u64_def)
  have e: "from_millis (saturating_sub_u64 (elapsed_millis 3000000000 ?b) (opened_at_millis ?b)) = 3000000000"
    "from_millis (saturating_sub_u64 (elapsed_millis 10000000000 ?b) (opened_at_millis ?b)) = 10000000000"
    unfolding o by (simp_all add: elapsed_millis_def bl as_millis_def nanos_per_milli_def as_u64_def
        from_millis_def saturating_sub_u64_def)
  show ?thesis
    using check_on_open [OF inv en st e(1) [symmetric], of 0 0]
      check_on_open [OF inv en st e(2) [symmetric], of 10000000000 0] d by simp
qed

text \<open>C16. Admission in \<open>HalfOpen\<close>: a caller is admitted exactly when a probe slot is free or the
  most recent claim is at least one cool-down old; a rejected caller is told to come back after
  at most 50 ms and at most one cool-down, and leaves every counter as it was.\<close>

theorem half_open_admission:
  assumes "breaker_inv b" "enabled (config b)" "state b = HalfOpen"
  shows "(fst (check t1 t2 t3 b) = Inr () \<longleftrightarrow>
            half_open_probes b < half_open_max_probes (config b)
            \<or> as_u64 (as_millis (open_duration (config b)))
                \<le> saturating_sub_u64 (elapsed_millis t2 b) (probe_claimed_at_millis b))
    \<and> (\<forall>err. fst (check t1 t2 t3 b) = Inl err \<longrightarrow>
          retry_after err \<le> 50000000 \<and> retry_after err \<le> open_duration (config b)
          \<and> snd (check t1 t2 t3 b) = notify (OnProbeAdmission False) b)"
  using assms by (auto simp: check_def probe_defs HALF_OPEN_PROBE_BACKOFF_def from_millis_def
      nanos_per_milli_def)

theorem half_open_admission_witness:
  "fst (check 0 0 0 (force_half_open (with_clock config_server 0))) = Inr ()"
proof -
  let ?b = "force_half_open (with_clock config_server 0)"
  have inv: "breaker_inv ?b" by (intro force_half_open_inv with_clock_inv)
  have "enabled (config ?b)" "state ?b = HalfOpen"
    by (simp_all add: force_half_open_def with_clock_def config_server_def Let_def state_def)
  moreover have "half_open_probes ?b < half_open_max_probes (config ?b)"
    by (simp add: force_half_open_def with_clock_def config_server_def Let_def max_def)
  ultimately show ?thesis using half_open_admission [OF inv] by blast
qed

text \<open>A breaker in \<open>HalfOpen\<close> is never stuck: even if every probe's owner vanished without
  recording, a \<open>check\<close> made one cool-down after the last claim is admitted.\<close>

theorem half_open_never_stuck:
  assumes "breaker_inv b" "enabled (config b)" "state b = HalfOpen"
    and "baseline b + (unat (probe_claimed_at_millis b) + as_millis (open_duration (config b)))
           * nanos_per_milli \<le> t2"
    and "as_millis (t2 - baseline b) < 2 ^ 64"
  shows "fst (check t1 t2 t3 b) = Inr ()"
  using lease_elapsed [OF assms(4,5)] assms(1-3) by (simp add: check_def probe_defs)

theorem half_open_never_stuck_witness:
  "fst (check 0 20000000000 0
     (snd (check 0 0 0 (force_half_open (with_clock config_server 0))))) = Inr ()"
proof -
  let ?b = "snd (check 0 0 0 (force_half_open (with_clock config_server 0)))"
  have inv: "breaker_inv ?b" by (intro check_inv force_half_open_inv with_clock_inv)
  have en: "enabled (config ?b)" and st: "state ?b = HalfOpen"
    and d: "open_duration (config ?b) = 10000000000" and c: "probe_claimed_at_millis ?b = 0"
    and bl: "baseline ?b = 0"
    by (simp_all add: check_def probe_defs force_half_open_def with_clock_def config_server_def
        from_secs_def state_def elapsed_millis_def as_millis_def as_u64_def)
  show ?thesis
    by (rule half_open_never_stuck [OF inv en st])
      (simp_all add: d c bl as_millis_def nanos_per_milli_def)
qed

text \<open>A closed breaker with the presets' threshold of one half trips on a recorded outcome
  exactly when the window after the push and the eviction holds at least \<open>min_samples\<close> samples,
  at least half of them failures.\<close>

theorem closed_trips_iff:
  assumes "breaker_inv b" "enabled (config b)" "state b = Closed"
    and "error_rate_threshold (config b) = Fin (1 / 2)"
    and "0 < min_samples (config b)"
    and "es = entries (window_evict (window_duration (config b)) now
                (window_push (oc = Failure) now (window b)))"
  shows "state (record_outcome oc now t2 b) = Open \<longleftrightarrow>
    unat (min_samples (config b)) \<le> length es \<and> length es \<le> 2 * count_failures es"
proof -
  let ?w = "window_evict (window_duration (config b)) now (window_push (oc = Failure) now (window b))"
  have w: "window_inv ?w"
    using assms(1) by (simp add: breaker_inv_def window_evict_inv window_push_inv)
  have n: "unat (min_samples (config b)) \<le> length es \<Longrightarrow> es \<noteq> []"
    using assms(5) by (auto simp: word_gt_0 unat_eq_0)
  have "state (record_outcome oc now t2 b) = Open \<longleftrightarrow>
      unat (min_samples (config b)) \<le> length es \<and> 1 / 2 \<le> window_error_rate ?w"
    using assms by (simp add: record_outcome_def Let_def trip_def window_sample_count_def)
  then show ?thesis using window_error_rate_half [OF w] n assms(6) by auto
qed

theorem closed_trips_iff_witness:
  "state (record_outcome Failure 7 7 (with_clock (config_server\<lparr>min_samples := 1\<rparr>) 0)) = Open"
proof -
  let ?b = "with_clock (config_server\<lparr>min_samples := 1\<rparr>) 0"
  have inv: "breaker_inv ?b" by (rule with_clock_inv)
  have h: "enabled (config ?b)" "state ?b = Closed" "error_rate_threshold (config ?b) = Fin (1 / 2)"
    "0 < min_samples (config ?b)"
    by (simp_all add: with_clock_def config_server_def state_def)
  have es: "[(7, True)] = entries (window_evict (window_duration (config ?b)) 7
                (window_push (Failure = Failure) 7 (window ?b)))"
    by (simp add: with_clock_def config_server_def from_secs_def window_evict_entries
        window_push_entries window_new_def MAX_WINDOW_ENTRIES_def)
  show ?thesis
    using closed_trips_iff [OF inv h es, of 7] by (simp add: with_clock_def)
qed

text \<open>Recovery: once the cool-down of an open breaker has elapsed, a \<open>check\<close> followed by the
  recorded outcome of that probe settles the breaker, closed with an empty window after a
  success, open again with the cool-down restarted after a failure.\<close>

theorem probe_settles:
  assumes "breaker_inv b" "enabled (config b)" "state b = Open"
    and "open_duration (config b)
           \<le> from_millis (saturating_sub_u64 (elapsed_millis t1 b) (opened_at_millis b))"
  shows "let b1 = snd (check t1 t2 t3 b);
             bs = record_outcome Success now t4 b1;
             bf = record_outcome Failure now t4 b1
         in state bs = Closed \<and> entries (window bs) = [] \<and> \<not> is_open bs
            \<and> state bf = Open \<and> is_open bf \<and> opened_at_millis bf = elapsed_millis t4 b
            \<and> half_open_probes bf = 0"
proof -
  let ?b1 = "snd (check t1 t2 t3 b)"
  have "state ?b1 = HalfOpen" "config ?b1 = config b" "baseline ?b1 = baseline b"
    using assms by (simp_all add: check_def check_open_eq Let_def)
  then show ?thesis
    using assms(2) by (simp add: record_outcome_def Let_def close_def trip_def is_open_def
        window_clear_def elapsed_millis_def)
qed

theorem probe_settles_witness:
  "state (record_outcome Success 0 0 (snd (check 10000000000 0 0
     (trip Closed ''trip'' 0 (with_clock config_server 0))))) = Closed"
proof -
  let ?b = "trip Closed ''trip'' 0 (with_clock config_server 0)"
  have inv: "breaker_inv ?b" by (intro trip_inv with_clock_inv)
  have h: "enabled (config ?b)" "state ?b = Open"
    by (simp_all add: trip_def with_clock_def config_server_def Let_def state_def)
  have d: "open_duration (config ?b)
      \<le> from_millis (saturating_sub_u64 (elapsed_millis 10000000000 ?b) (opened_at_millis ?b))"
    by (simp add: trip_def with_clock_def config_server_def from_secs_def Let_def elapsed_millis_def
        as_millis_def nanos_per_milli_def as_u64_def from_millis_def saturating_sub_u64_def)
  show ?thesis using probe_settles [OF inv h d] by (simp add: Let_def)
qed

end
