(* ===== verification/Breaker_Registry.thy ===== *)
theory Breaker_Registry
  imports Circuit_Breaker Rust_Strings
begin

text \<open>
  The registry of circuit breakers (\<open>xai-circuit-breaker/src/registry.rs\<close>): one breaker per key, made when
  it is first asked for. Breakers are shared: the registry holds references, here positions in a store
  of breakers that only grows.
\<close>

record breaker_registry =
  reg_config :: breaker_config
  reg_breakers :: "(rstring \<times> nat) list"
  reg_store :: "circuit_breaker list"

definition registry_new :: "breaker_config \<Rightarrow> breaker_registry" where
  "registry_new cfg = \<lparr>reg_config = cfg, reg_breakers = [], reg_store = []\<rparr>"

definition registry_get :: "rstring \<Rightarrow> instant \<Rightarrow> breaker_registry \<Rightarrow> breaker_registry \<times> nat option" where
  "registry_get key now r =
     (if \<not> enabled (reg_config r) then (r, None)
      else case map_of (reg_breakers r) key of
        Some cb \<Rightarrow> (r, Some cb)
      | None \<Rightarrow>
          (let cb = length (reg_store r)
           in (r\<lparr>reg_breakers := (key, cb) # reg_breakers r, reg_store := reg_store r @ [with_clock (reg_config r) now]\<rparr>,
               Some cb)))"

text \<open>What happens between two requests: callers work on the breakers they hold.\<close>

datatype registry_op = Get rstring instant | Use nat "circuit_breaker \<Rightarrow> circuit_breaker"

fun registry_step :: "registry_op \<Rightarrow> breaker_registry \<Rightarrow> breaker_registry" where
  "registry_step (Get key now) r = fst (registry_get key now r)"
| "registry_step (Use cb f) r = r\<lparr>reg_store := (reg_store r)[cb := f (reg_store r ! cb)]\<rparr>"

definition registry_inv :: "breaker_registry \<Rightarrow> bool" where
  "registry_inv r \<longleftrightarrow> inj_on snd (set (reg_breakers r)) \<and> snd ` set (reg_breakers r) \<subseteq> {..<length (reg_store r)}"

lemma registry_inv_step: "registry_inv r \<Longrightarrow> registry_inv (registry_step op r)"
  by (cases op) (auto simp: registry_inv_def registry_get_def Let_def inj_on_def split: option.split)

lemma registry_inv_run: "registry_inv r \<Longrightarrow> registry_inv (fold registry_step ops r)"
  by (induction ops arbitrary: r) (simp_all add: registry_inv_step)

lemma registry_config_run: "reg_config (fold registry_step ops r) = reg_config r"
proof (induction ops arbitrary: r)
  case (Cons op ops)
  have "reg_config (registry_step op r) = reg_config r"
    by (cases op) (auto simp: registry_get_def Let_def split: option.split)
  with Cons show ?case by simp
qed simp

lemma registry_keeps: "map_of (reg_breakers r) key = Some cb \<Longrightarrow> map_of (reg_breakers (fold registry_step ops r)) key = Some cb"
proof (induction ops arbitrary: r)
  case (Cons op ops)
  have "map_of (reg_breakers (registry_step op r)) key = Some cb"
    using Cons.prems by (cases op) (auto simp: registry_get_def Let_def split: option.split)
  with Cons show ?case by simp
qed simp

text \<open>
  An enabled registry answers every request, the same key with the same breaker for ever, whatever is
  asked and done in between, and different keys with different breakers; a disabled one answers none.
\<close>

theorem registry_one_breaker_per_key:
  fixes cfg ops ops' now now' key key'
  defines "r1 \<equiv> fold registry_step ops (registry_new cfg)"
  defines "r2 \<equiv> fold registry_step ops' (fst (registry_get key now r1))"
  shows "if enabled cfg then \<exists>cb cb'. snd (registry_get key now r1) = Some cb \<and> snd (registry_get key' now' r2) = Some cb' \<and>
      (cb = cb' \<longleftrightarrow> key = key')
    else snd (registry_get key now r1) = None"
proof (cases "enabled cfg")
  case True
  have inv1: "registry_inv r1" unfolding r1_def by (rule registry_inv_run) (simp add: registry_new_def registry_inv_def)
  have r1': "fst (registry_get key now r1) = registry_step (Get key now) r1" by simp
  have inv2: "registry_inv r2" unfolding r2_def r1' by (intro registry_inv_run registry_inv_step inv1)
  have en: "enabled (reg_config r1)" "enabled (reg_config r2)"
    using True registry_config_run [of "Get key now # ops'" r1]
    unfolding r1_def r2_def by (simp_all add: registry_config_run registry_new_def)
  obtain cb where cb: "snd (registry_get key now r1) = Some cb" "map_of (reg_breakers (fst (registry_get key now r1))) key = Some cb"
    using en(1) by (cases "map_of (reg_breakers r1) key") (auto simp: registry_get_def Let_def)
  have kept: "map_of (reg_breakers r2) key = Some cb"
    unfolding r2_def using cb(2) by (rule registry_keeps)
  obtain cb' where cb': "snd (registry_get key' now' r2) = Some cb'" "map_of (reg_breakers (fst (registry_get key' now' r2))) key' = Some cb'"
    using en(2) by (cases "map_of (reg_breakers r2) key'") (auto simp: registry_get_def Let_def)
  have inv3: "registry_inv (fst (registry_get key' now' r2))"
    using registry_inv_step [OF inv2, of "Get key' now'"] by simp
  have kept': "map_of (reg_breakers (fst (registry_get key' now' r2))) key = Some cb"
    using registry_keeps [OF kept, of "[Get key' now']"] by simp
  have "cb = cb' \<longleftrightarrow> key = key'"
    using map_of_SomeD [OF kept'] map_of_SomeD [OF cb'(2)] kept' cb'(2) inv3
    by (auto simp: registry_inv_def dest: inj_onD [of snd _ "(key, cb')" "(key', cb')"])
  with True cb(1) cb'(1) show ?thesis by simp
qed (simp add: registry_get_def r1_def registry_config_run registry_new_def)

end
