(* ===== verification/Compaction_Select.thy ===== *)
theory Compaction_Select
  imports Rust_Strings "HOL-Library.Monad_Syntax"
begin

text \<open>
  The split point of a conversation compaction (\<open>xai-grok-compaction\<close>: \<open>item.rs\<close>,
  \<open>select.rs\<close>). The conversation is a list over an arbitrary item type; the traits
  \<open>CompactionItem\<close> and \<open>CompactionItemBuilder\<close> are records of their methods. Token counts are
  \<open>u32\<close> and their sums saturate as in the source; list positions (\<open>usize\<close>) are natural
  numbers. The outer \<open>None\<close> of a result is a panic on an index out of range;
  \<open>debug_assert_eq\<close> is not part of a release build.
\<close>

section \<open>Saturating sums\<close>

definition saturating_add_u32 :: "u32 \<Rightarrow> u32 \<Rightarrow> u32" where
  "saturating_add_u32 a b = (if unat a + unat b < 2 ^ 32 then a + b else 0xFFFFFFFF)"

definition sum_counts :: "u32 list \<Rightarrow> u32" where
  "sum_counts counts = foldl saturating_add_u32 0 counts"

text \<open>\<open>xs[at..]\<close> and \<open>Vec::split_off\<close>: both panic behind the end.\<close>

definition slice_from :: "'a list \<Rightarrow> nat \<Rightarrow> 'a list option" where
  "slice_from xs i = (if i \<le> length xs then Some (drop i xs) else None)"

section \<open>The item traits\<close>

datatype compaction_role = System | Developer | User | Assistant | Tool

record compaction_file_ref =
  file_id :: rstring
  file_name :: rstring

record 't item_ops =
  role :: "'t \<Rightarrow> compaction_role"
  item_text :: "'t \<Rightarrow> rstring option"
  is_tool_result :: "'t \<Rightarrow> bool"
  has_tool_requests :: "'t \<Rightarrow> bool"
  is_compaction_summary :: "'t \<Rightarrow> bool"
  attachment_refs :: "'t \<Rightarrow> compaction_file_ref list"

record 't builder_ops = "'t item_ops" +
  compaction_summary_item :: "rstring \<Rightarrow> 't"
  strip_tool_content :: "'t \<Rightarrow> 't option"
  truncate_payload_for_compaction :: "'t \<Rightarrow> u32 \<Rightarrow> 't"

section \<open>Selecting the split point\<close>

record split_plan =
  split_idx :: nat
  tokens_to_compact :: u32

fun keep_loop :: "u32 list \<Rightarrow> u32 \<Rightarrow> nat \<Rightarrow> u32 \<Rightarrow> nat \<Rightarrow> nat option" where
  "keep_loop counts target 0 kept split = Some split"
| "keep_loop counts target (Suc i) kept split =
     do { c \<leftarrow> vec_get counts i;
          if target < saturating_add_u32 kept c then Some (i + 1)
          else keep_loop counts target i (saturating_add_u32 kept c) i }"

function snap_loop :: "('t, 'z) item_ops_scheme \<Rightarrow> 't list \<Rightarrow> nat \<Rightarrow> nat" where
  "snap_loop ops items idx =
     (if idx < length items \<and> is_tool_result ops (items ! idx)
      then snap_loop ops items (idx + 1) else idx)"
  by pat_completeness auto
termination
  by (relation "measure (\<lambda>(_, items, idx). length items - idx)") auto

declare snap_loop.simps [simp del]

definition snap_to_safe_boundary :: "('t, 'z) item_ops_scheme \<Rightarrow> 't list \<Rightarrow> nat \<Rightarrow> nat" where
  "snap_to_safe_boundary ops items candidate =
     (if length items \<le> candidate then length items
      else if \<not> is_tool_result ops (items ! candidate) then candidate
      else snap_loop ops items candidate)"

definition select_turns_to_compact ::
  "('t, 'z) item_ops_scheme \<Rightarrow> u32 list \<Rightarrow> 't list \<Rightarrow> u32 \<Rightarrow> u32 \<Rightarrow> split_plan option option" where
  "select_turns_to_compact ops item_token_counts items target min_compactable =
     (if items = [] then Some None
      else do {
        idx \<leftarrow> keep_loop item_token_counts target (length items) 0 (length items);
        if idx = 0 then Some None
        else
          let safe = snap_to_safe_boundary ops items idx
          in if length items \<le> safe then Some None
             else do {
               compacted \<leftarrow> vec_range item_token_counts 0 safe;
               let tokens = sum_counts compacted
               in if tokens < min_compactable then Some None
                  else Some (Some \<lparr>split_idx = safe, tokens_to_compact = tokens\<rparr>) } })"

section \<open>Lemmas\<close>

abbreviation u32_max :: nat where "u32_max \<equiv> 4294967295"

definition token_sum :: "u32 list \<Rightarrow> nat" where
  "token_sum counts = sum_list (map unat counts)"

lemma token_sum_simps [simp]:
  "token_sum [] = 0" "token_sum (c # cs) = unat c + token_sum cs"
  "token_sum (cs @ ds) = token_sum cs + token_sum ds"
  by (simp_all add: token_sum_def)

lemma saturating_add_u32_unat [bounds_simps]:
  "unat (saturating_add_u32 a b) = min u32_max (unat a + unat b)"
proof (cases "unat a + unat b < 2 ^ 32")
  case True
  then have "unat (a + b) = unat a + unat b" by (simp add: unat_word_ariths(1))
  then show ?thesis using True by (simp add: saturating_add_u32_def)
next
  case False
  then show ?thesis by (simp add: saturating_add_u32_def)
qed

lemma u32_le_max [simp]: "unat (x :: u32) \<le> u32_max"
  using unsigned_less [of x, where 'a = nat] by simp

lemma sum_counts_unat [bounds_simps]: "unat (sum_counts counts) = min u32_max (token_sum counts)"
proof -
  have "unat (foldl saturating_add_u32 a counts) = min u32_max (unat a + token_sum counts)" for a
    by (induction counts arbitrary: a) (auto simp: saturating_add_u32_unat min_def antisym)
  then show ?thesis by (simp add: sum_counts_def)
qed

text \<open>The suffix from \<open>i\<close> fits the target, in the saturating arithmetic of the source.\<close>

definition fits_from :: "u32 list \<Rightarrow> u32 \<Rightarrow> nat \<Rightarrow> bool" where
  "fits_from counts target i \<longleftrightarrow> min u32_max (token_sum (drop i counts)) \<le> unat target"

lemma fits_from_mono: "fits_from counts target i \<Longrightarrow> i \<le> j \<Longrightarrow> fits_from counts target j"
proof -
  assume a: "fits_from counts target i" "i \<le> j"
  have "drop i counts = take (j - i) (drop i counts) @ drop j counts"
    using a(2) by (metis append_take_drop_id drop_drop le_add_diff_inverse2)
  then have "token_sum (drop j counts) \<le> token_sum (drop i counts)"
    by (metis le_add2 token_sum_simps(3))
  then show ?thesis using a(1) by (auto simp: fits_from_def)
qed

lemma keep_loop_spec:
  assumes "i \<le> length counts" "unat kept = min u32_max (token_sum (drop i counts))"
    "fits_from counts target i"
  shows "\<exists>k. keep_loop counts target i kept i = Some k \<and> k \<le> i \<and> fits_from counts target k \<and>
    (\<forall>j < k. \<not> fits_from counts target j)"
  using assms
proof (induction i arbitrary: kept)
  case (Suc i)
  let ?kept = "saturating_add_u32 kept (counts ! i)"
  have d: "drop i counts = counts ! i # drop (Suc i) counts"
    using Suc.prems(1) by (simp add: Cons_nth_drop_Suc)
  have kept: "unat ?kept = min u32_max (token_sum (drop i counts))"
    using Suc.prems(2) unfolding d by (simp add: saturating_add_u32_unat min_def)
  have over: "target < ?kept \<longleftrightarrow> \<not> fits_from counts target i"
    by (simp only: fits_from_def word_less_nat_alt kept not_le)
  show ?case
  proof (cases "target < ?kept")
    case True
    then have "\<not> fits_from counts target j" if "j < Suc i" for j
      using that over fits_from_mono [of counts target j i] by auto
    then show ?thesis using True Suc.prems by (auto simp: vec_get_def)
  next
    case False
    then have "fits_from counts target i" using over by simp
    then show ?thesis using Suc.IH [OF _ kept] False Suc.prems(1) by (auto simp: vec_get_def)
  qed
qed simp

lemma snap_loop_spec:
  "idx \<le> length items \<Longrightarrow>
   idx \<le> snap_loop ops items idx \<and> snap_loop ops items idx \<le> length items \<and>
   (\<forall>j. idx \<le> j \<and> j < snap_loop ops items idx \<longrightarrow> is_tool_result ops (items ! j)) \<and>
   (snap_loop ops items idx < length items \<longrightarrow>
      \<not> is_tool_result ops (items ! snap_loop ops items idx))"
proof (induction ops items idx rule: snap_loop.induct)
  case (1 ops items idx)
  show ?case
  proof (cases "idx < length items \<and> is_tool_result ops (items ! idx)")
    case True
    then have step: "snap_loop ops items idx = snap_loop ops items (idx + 1)"
      by (subst snap_loop.simps) simp
    have "is_tool_result ops (items ! j)" if "idx \<le> j" "j < snap_loop ops items (idx + 1)" for j
      using 1 True that by (cases "j = idx") auto
    then show ?thesis using 1 True unfolding step by auto
  next
    case False
    then have "snap_loop ops items idx = idx" by (subst snap_loop.simps) auto
    then show ?thesis using 1(2) False by auto
  qed
qed

lemma snap_to_safe_boundary_spec:
  fixes ops :: "('t, 'z) item_ops_scheme"
  assumes "idx \<le> length items"
  defines "s \<equiv> snap_to_safe_boundary ops items idx"
  shows "idx \<le> s" "s \<le> length items"
    "\<And>j. idx \<le> j \<Longrightarrow> j < s \<Longrightarrow> is_tool_result ops (items ! j)"
    "s < length items \<Longrightarrow> \<not> is_tool_result ops (items ! s)"
proof -
  have "idx \<le> s \<and> s \<le> length items \<and> (\<forall>j. idx \<le> j \<and> j < s \<longrightarrow> is_tool_result ops (items ! j)) \<and>
    (s < length items \<longrightarrow> \<not> is_tool_result ops (items ! s))"
    using snap_loop_spec [OF assms(1), where ops = ops] assms(1)
    by (auto simp: s_def snap_to_safe_boundary_def)
  then show "idx \<le> s" "s \<le> length items"
    "\<And>j. idx \<le> j \<Longrightarrow> j < s \<Longrightarrow> is_tool_result ops (items ! j)"
    "s < length items \<Longrightarrow> \<not> is_tool_result ops (items ! s)" by blast+
qed

text \<open>
  The split the selector looks for: the first position that starts a fitting suffix and does
  not separate tool results from their request.
\<close>

definition best_split ::
  "('t, 'z) item_ops_scheme \<Rightarrow> u32 list \<Rightarrow> 't list \<Rightarrow> u32 \<Rightarrow> nat \<Rightarrow> bool" where
  "best_split ops counts items target s \<longleftrightarrow>
     s < length items \<and> \<not> is_tool_result ops (items ! s) \<and> fits_from counts target s \<and>
     (\<forall>j < s. fits_from counts target j \<longrightarrow> is_tool_result ops (items ! j))"

lemma best_split_unique:
  "best_split ops counts items target s \<Longrightarrow> best_split ops counts items target t \<Longrightarrow> s = t"
  by (metis best_split_def linorder_neqE_nat)

lemma select_cases:
  assumes "length counts = length items"
  shows "\<exists>r. select_turns_to_compact ops counts items target mc = Some r \<and>
    (case r of
       Some p \<Rightarrow> \<not> fits_from counts target 0 \<and> best_split ops counts items target (split_idx p) \<and>
         tokens_to_compact p = sum_counts (take (split_idx p) counts) \<and> mc \<le> tokens_to_compact p
     | None \<Rightarrow> items = [] \<or> fits_from counts target 0 \<or> (\<forall>s. \<not> best_split ops counts items target s) \<or>
         (\<exists>s. best_split ops counts items target s \<and> sum_counts (take s counts) < mc))"
proof (cases "items = []")
  case True
  then show ?thesis by (simp add: select_turns_to_compact_def)
next
  case False
  have "fits_from counts target (length items)" using assms by (simp add: fits_from_def)
  then obtain k where k: "keep_loop counts target (length items) 0 (length items) = Some k"
    "k \<le> length items" "fits_from counts target k" "\<forall>j < k. \<not> fits_from counts target j"
    using keep_loop_spec [of "length items" counts 0 target] assms by auto
  let ?s = "snap_to_safe_boundary ops items k"
  note snap = snap_to_safe_boundary_spec [OF k(2), where ops = ops]
  have best: "best_split ops counts items target ?s" if "?s < length items"
    using that snap k(3,4) fits_from_mono [OF k(3) snap(1)]
    unfolding best_split_def by (metis not_le)
  have none: "\<not> best_split ops counts items target s" if "length items \<le> ?s" for s
    using that snap(3) [of s] k(4) unfolding best_split_def by (metis not_le order.strict_trans2)
  show ?thesis
  proof (cases "k = 0 \<or> length items \<le> ?s")
    case True
    then show ?thesis using k False none
      by (auto simp: select_turns_to_compact_def Let_def)
  next
    case False
    then have nofit: "\<not> fits_from counts target 0" using k(4) by blast
    have "vec_range counts 0 ?s = Some (take ?s counts)"
      using False assms by (simp add: vec_range_def)
    then have "select_turns_to_compact ops counts items target mc =
      Some (if sum_counts (take ?s counts) < mc then None
            else Some \<lparr>split_idx = ?s, tokens_to_compact = sum_counts (take ?s counts)\<rparr>)"
      using k(1) False \<open>items \<noteq> []\<close> by (simp add: select_turns_to_compact_def Let_def)
    then show ?thesis using best False nofit by auto
  qed
qed

lemma best_split_exact:
  assumes "\<not> fits_from counts target 0" "best_split ops counts items target s"
  shows "0 < s" "token_sum (drop s counts) \<le> unat target"
proof -
  show "0 < s" using assms by (cases s) (auto simp: best_split_def)
  have "unat target < u32_max" using assms(1) by (auto simp: fits_from_def)
  then show "token_sum (drop s counts) \<le> unat target"
    using assms(2) by (auto simp: best_split_def fits_from_def)
qed

section \<open>Property\<close>

text \<open>C27.
  Given one count per item the selector never indexes out of range. It proposes a split exactly
  when the conversation exceeds the target, some suffix that starts at an item that is not a
  tool result fits it, and the part to compact has at least the minimum size; the split is then
  the earliest such position, so that the most recent items are kept up to the target (in exact
  arithmetic, although the source saturates) and no tool result is separated from its request.
\<close>

theorem select_turns_optimal:
  assumes "length counts = length items"
  shows "(\<exists>r. select_turns_to_compact ops counts items target mc = Some r) \<and>
    (\<forall>p. select_turns_to_compact ops counts items target mc = Some (Some p) \<longleftrightarrow>
       \<not> fits_from counts target 0 \<and> best_split ops counts items target (split_idx p) \<and>
       p = \<lparr>split_idx = split_idx p, tokens_to_compact = sum_counts (take (split_idx p) counts)\<rparr> \<and>
       mc \<le> tokens_to_compact p) \<and>
    (\<forall>p. select_turns_to_compact ops counts items target mc = Some (Some p) \<longrightarrow>
       0 < split_idx p \<and> split_idx p < length items \<and>
       \<not> is_tool_result ops (items ! split_idx p) \<and>
       token_sum (drop (split_idx p) counts) \<le> unat target \<and>
       unat (tokens_to_compact p) = min u32_max (token_sum (take (split_idx p) counts)))"
proof -
  let ?sel = "select_turns_to_compact ops counts items target mc"
  let ?good = "\<lambda>p. \<not> fits_from counts target 0 \<and> best_split ops counts items target (split_idx p) \<and>
    tokens_to_compact p = sum_counts (take (split_idx p) counts) \<and> mc \<le> tokens_to_compact p"
  obtain r where r: "?sel = Some r" using select_cases [OF assms] by blast
  have iff: "?sel = Some (Some p) \<longleftrightarrow> ?good p" for p
  proof (cases r)
    case None
    then have cases: "items = [] \<or> fits_from counts target 0 \<or>
        (\<forall>s. \<not> best_split ops counts items target s) \<or>
        (\<exists>s. best_split ops counts items target s \<and> sum_counts (take s counts) < mc)"
      using select_cases [OF assms, of ops target mc] r by simp
    have "\<not> ?good p"
    proof
      assume good: "?good p"
      then have "items \<noteq> []" by (auto simp: best_split_def)
      with good cases obtain s where s: "best_split ops counts items target s"
        "sum_counts (take s counts) < mc" by blast
      then have "s = split_idx p" using good best_split_unique by blast
      then show False using s good by auto
    qed
    then show ?thesis using r None by simp
  next
    case (Some q)
    then have q: "?good q" using select_cases [OF assms, of ops target mc] r by auto
    have "p = q" if "?good p"
      using that q best_split_unique by (metis split_plan.equality old.unit.exhaust)
    moreover have "?sel = Some (Some p) \<longleftrightarrow> p = q" using r Some by auto
    ultimately show ?thesis using q by metis
  qed
  have rec: "p = \<lparr>split_idx = split_idx p, tokens_to_compact = t\<rparr> \<longleftrightarrow> tokens_to_compact p = t"
    for p :: split_plan and t by (cases p) auto
  show ?thesis
    using r iff best_split_exact [of counts target ops items]
    unfolding rec by (auto simp: sum_counts_unat best_split_def)
qed

definition sample_ops :: "(bool \<times> u32) item_ops" where
  "sample_ops = \<lparr>role = (\<lambda>t. if fst t then Tool else Assistant), item_text = (\<lambda>_. None),
     is_tool_result = fst, has_tool_requests = (\<lambda>t. \<not> fst t),
     is_compaction_summary = (\<lambda>_. False), attachment_refs = (\<lambda>_. [])\<rparr>"

theorem select_turns_optimal_witness:
  "(let items = [(False, 60), (False, 30), (True, 25), (False, 20)]; counts = map snd items in
     length counts = length items \<and>
     select_turns_to_compact sample_ops counts items 50 0 =
       Some (Some \<lparr>split_idx = 3, tokens_to_compact = 115\<rparr>) \<and>
     \<not> is_tool_result sample_ops (items ! 3) \<and> token_sum (drop 3 counts) \<le> 50)"
proof -
  let ?items = "[(False, 60), (False, 30), (True, 25), (False, 20)] :: (bool \<times> u32) list"
  have sel: "select_turns_to_compact sample_ops (map snd ?items) ?items 50 0 =
      Some (Some \<lparr>split_idx = 3, tokens_to_compact = 115\<rparr>)"
    by (simp add: select_turns_to_compact_def snap_to_safe_boundary_def numeral_3_eq_3
        saturating_add_u32_def sum_counts_def vec_get_def vec_range_def sample_ops_def
        snap_loop.simps)
  have "\<not> is_tool_result sample_ops (?items ! 3)"
    "token_sum (drop 3 (map snd ?items)) \<le> unat (50 :: u32)"
    using select_turns_optimal [of "map snd ?items" ?items sample_ops 50 0, OF length_map,
        THEN conjunct2, THEN conjunct2, rule_format, OF sel] by simp_all
  then show ?thesis using sel by (simp add: Let_def)
qed

end
