(* ===== verification/Conversation.thy ===== *)
theory Conversation
  imports Compaction_Select Text_Search Utf8_Slice
begin

text \<open>
  The conversation of the agent (\<open>xai-grok-sampling-types/src/conversation.rs\<close>): the items of the
  history, their constructors and accessors, the operations that rewrite texts and images in
  place, and the view the compaction engine takes of an item (\<open>CompactionItem\<close>).

  \<open>Arc<str>\<close> and \<open>String\<close> are strings, \<open>usize\<close> indices natural numbers. The items of the
  Responses API (\<open>async_openai\<close>, outside the repository) carry the fields the sources read; a
  reasoning status is its wire label.
\<close>

section \<open>Items\<close>

datatype synthetic_reason =
  Human | Primary | CompactionMeta | SystemReminder | LengthContinue | ProjectInstructions
| AutoContinue | AutoRecovery | Interjection | AgentMessage | TaskCompleted | SubagentCompleted
| NotificationDrain | GoalSummary | GoalClassifierNudge | SchedulerFired | StopHookFeedback
| WorkingDirectorySwitch | ParentHumanMessage | SessionPrefix | DirectBash | GoalSetup
| UnknownReason

definition is_human :: "synthetic_reason \<Rightarrow> bool" where
  "is_human r \<longleftrightarrow> r = Human"

definition is_primary :: "synthetic_reason \<Rightarrow> bool" where
  "is_primary r \<longleftrightarrow> r = Primary"

fun starts_prompt_turn :: "synthetic_reason \<Rightarrow> bool" where
  "starts_prompt_turn Human = True"
| "starts_prompt_turn AgentMessage = True"
| "starts_prompt_turn ParentHumanMessage = True"
| "starts_prompt_turn DirectBash = True"
| "starts_prompt_turn GoalSetup = True"
| "starts_prompt_turn UnknownReason = True"
| "starts_prompt_turn TaskCompleted = True"
| "starts_prompt_turn SubagentCompleted = True"
| "starts_prompt_turn NotificationDrain = True"
| "starts_prompt_turn GoalClassifierNudge = True"
| "starts_prompt_turn SchedulerFired = True"
| "starts_prompt_turn Primary = False"
| "starts_prompt_turn SessionPrefix = False"
| "starts_prompt_turn CompactionMeta = False"
| "starts_prompt_turn SystemReminder = False"
| "starts_prompt_turn LengthContinue = False"
| "starts_prompt_turn ProjectInstructions = False"
| "starts_prompt_turn AutoContinue = False"
| "starts_prompt_turn AutoRecovery = False"
| "starts_prompt_turn Interjection = False"
| "starts_prompt_turn GoalSummary = False"
| "starts_prompt_turn StopHookFeedback = False"
| "starts_prompt_turn WorkingDirectorySwitch = False"

datatype prior_turn_interrupt = MidTurnAbort | PermissionRejected | PermissionCancelled | UnknownInterrupt

datatype content_part = Text rstring | Image rstring

datatype reasoning_effort =
  EffortNone | EffortMinimal | EffortLow | EffortMedium | EffortHigh | EffortXhigh | EffortMax

record system_item =
  sys_content :: rstring
  sys_reason :: synthetic_reason

record user_item =
  user_content :: "content_part list"
  user_reason :: synthetic_reason
  cwd_generation :: "u64 option"
  interrupt :: "prior_turn_interrupt option"
  prompt_index :: "nat option"

record tool_call =
  call_id :: rstring
  call_name :: rstring
  call_arguments :: rstring

record assistant_item =
  asst_content :: rstring
  tool_calls :: "tool_call list"
  model_id :: "rstring option"
  model_fingerprint :: "rstring option"
  effort :: "reasoning_effort option"

record tool_result_item =
  tool_call_id :: rstring
  result_content :: rstring
  result_images :: "content_part list"

datatype web_search_action =
  SearchAction rstring
| OpenPage "rstring option"
| FindAction rstring rstring

datatype backend_tool_kind =
  WebSearch (btc_id: rstring) web_search_action
| XSearch (btc_id: rstring) rstring rstring
| CodeInterpreter (btc_id: rstring) "rstring option"

record reasoning_item =
  reasoning_id :: rstring
  summary_parts :: "rstring list"
  reasoning_blocks :: "rstring list option"
  encrypted_content :: "rstring option"
  reasoning_status :: "rstring option"

datatype conversation_item =
  ISystem system_item
| IUser user_item
| IAssistant assistant_item
| IToolResult tool_result_item
| IBackendToolCall backend_tool_kind
| IReasoning reasoning_item

section \<open>Constructors\<close>

definition synthetic_user :: "synthetic_reason \<Rightarrow> rstring \<Rightarrow> conversation_item" where
  "synthetic_user r content =
     IUser \<lparr>user_content = [Text content], user_reason = r, cwd_generation = None,
            interrupt = None, prompt_index = None\<rparr>"

definition system :: "rstring \<Rightarrow> conversation_item" where
  "system content = ISystem \<lparr>sys_content = content, sys_reason = Primary\<rparr>"

definition user :: "rstring \<Rightarrow> conversation_item" where "user = synthetic_user Human"
definition user_meta :: "rstring \<Rightarrow> conversation_item" where "user_meta = synthetic_user CompactionMeta"
definition system_reminder :: "rstring \<Rightarrow> conversation_item" where
  "system_reminder = synthetic_user SystemReminder"
definition length_continue_reminder :: "rstring \<Rightarrow> conversation_item" where
  "length_continue_reminder = synthetic_user LengthContinue"
definition project_instructions :: "rstring \<Rightarrow> conversation_item" where
  "project_instructions = synthetic_user ProjectInstructions"
definition agent_message :: "rstring \<Rightarrow> conversation_item" where
  "agent_message = synthetic_user AgentMessage"
definition auto_continue :: "rstring \<Rightarrow> conversation_item" where
  "auto_continue = synthetic_user AutoContinue"
definition auto_recovery :: "rstring \<Rightarrow> conversation_item" where
  "auto_recovery = synthetic_user AutoRecovery"
definition interjection :: "rstring \<Rightarrow> conversation_item" where
  "interjection = synthetic_user Interjection"
definition task_completed :: "rstring \<Rightarrow> conversation_item" where
  "task_completed = synthetic_user TaskCompleted"
definition subagent_completed :: "rstring \<Rightarrow> conversation_item" where
  "subagent_completed = synthetic_user SubagentCompleted"
definition notification_drain :: "rstring \<Rightarrow> conversation_item" where
  "notification_drain = synthetic_user NotificationDrain"
definition goal_summary :: "rstring \<Rightarrow> conversation_item" where
  "goal_summary = synthetic_user GoalSummary"
definition goal_classifier_nudge :: "rstring \<Rightarrow> conversation_item" where
  "goal_classifier_nudge = synthetic_user GoalClassifierNudge"
definition scheduler_fired :: "rstring \<Rightarrow> conversation_item" where
  "scheduler_fired = synthetic_user SchedulerFired"
definition stop_hook_feedback :: "rstring \<Rightarrow> conversation_item" where
  "stop_hook_feedback = synthetic_user StopHookFeedback"

definition working_directory_switch :: "rstring \<Rightarrow> u64 \<Rightarrow> conversation_item" where
  "working_directory_switch content gen =
     IUser \<lparr>user_content = [Text content], user_reason = WorkingDirectorySwitch,
            cwd_generation = Some gen, interrupt = None, prompt_index = None\<rparr>"

definition user_with_parts :: "content_part list \<Rightarrow> conversation_item" where
  "user_with_parts parts =
     IUser \<lparr>user_content = parts, user_reason = Human, cwd_generation = None,
            interrupt = None, prompt_index = None\<rparr>"

definition assistant :: "rstring \<Rightarrow> conversation_item" where
  "assistant content =
     IAssistant \<lparr>asst_content = content, tool_calls = [], model_id = None,
                 model_fingerprint = None, effort = None\<rparr>"

definition assistant_with_model :: "rstring \<Rightarrow> rstring \<Rightarrow> conversation_item" where
  "assistant_with_model content m =
     IAssistant \<lparr>asst_content = content, tool_calls = [], model_id = Some m,
                 model_fingerprint = None, effort = None\<rparr>"

definition assistant_tool_calls :: "tool_call list \<Rightarrow> conversation_item" where
  "assistant_tool_calls calls =
     IAssistant \<lparr>asst_content = [], tool_calls = calls, model_id = None,
                 model_fingerprint = None, effort = None\<rparr>"

definition tool_result_with_images :: "rstring \<Rightarrow> rstring \<Rightarrow> content_part list \<Rightarrow> conversation_item" where
  "tool_result_with_images cid content images =
     IToolResult \<lparr>tool_call_id = cid, result_content = content, result_images = images\<rparr>"

definition tool_result :: "rstring \<Rightarrow> rstring \<Rightarrow> conversation_item" where
  "tool_result cid content =
     IToolResult \<lparr>tool_call_id = cid, result_content = content, result_images = []\<rparr>"

section \<open>Accessors\<close>

fun working_directory_switch_generation :: "conversation_item \<Rightarrow> u64 option" where
  "working_directory_switch_generation (IUser u) =
     (if user_reason u = WorkingDirectorySwitch then cwd_generation u else None)"
| "working_directory_switch_generation _ = None"

fun item_role :: "conversation_item \<Rightarrow> compaction_role" where
  "item_role (ISystem _) = System"
| "item_role (IUser _) = User"
| "item_role (IAssistant _) = Assistant"
| "item_role (IToolResult _) = Tool"
| "item_role (IBackendToolCall _) = Assistant"
| "item_role (IReasoning _) = Assistant"

fun reason_of :: "conversation_item \<Rightarrow> synthetic_reason option" where
  "reason_of (IUser u) = Some (user_reason u)"
| "reason_of (ISystem s) = Some (sys_reason s)"
| "reason_of _ = None"

fun is_human_user_turn :: "conversation_item \<Rightarrow> bool" where
  "is_human_user_turn (IUser u) = is_human (user_reason u)"
| "is_human_user_turn _ = False"

fun is_primary_system_turn :: "conversation_item \<Rightarrow> bool" where
  "is_primary_system_turn (ISystem s) = is_primary (sys_reason s)"
| "is_primary_system_turn _ = False"

fun add_image :: "rstring \<Rightarrow> conversation_item \<Rightarrow> conversation_item" where
  "add_image url (IUser u) = IUser (u\<lparr>user_content := user_content u @ [Image url]\<rparr>)"
| "add_image url i = i"

fun with_model_id :: "rstring \<Rightarrow> conversation_item \<Rightarrow> conversation_item" where
  "with_model_id m (IAssistant a) = IAssistant (a\<lparr>model_id := Some m\<rparr>)"
| "with_model_id m i = i"

fun set_prior_turn_interrupt :: "prior_turn_interrupt \<Rightarrow> conversation_item \<Rightarrow> conversation_item" where
  "set_prior_turn_interrupt k (IUser u) = IUser (u\<lparr>interrupt := Some k\<rparr>)"
| "set_prior_turn_interrupt k i = i"

fun set_prompt_index :: "nat \<Rightarrow> conversation_item \<Rightarrow> conversation_item" where
  "set_prompt_index n (IUser u) = IUser (u\<lparr>prompt_index := Some n\<rparr>)"
| "set_prompt_index n i = i"

text \<open>\<open>truncate_bytes\<close> walks back to a character boundary; position 0 is one, so the loop ends.\<close>

definition truncate_bytes :: "rstring \<Rightarrow> nat \<Rightarrow> rstring" where
  "truncate_bytes s max_bytes =
     (if utf8_len s \<le> max_bytes then s
      else case str_prefix s (floor_boundary s max_bytes) of Some p \<Rightarrow> p | None \<Rightarrow> [])"

fun backend_text_summary :: "backend_tool_kind \<Rightarrow> rstring" where
  "backend_text_summary (WebSearch _ action) =
     lit ''[backend web_search] '' @
     (case action of
        SearchAction q \<Rightarrow> lit ''search: '' @ q
      | OpenPage url \<Rightarrow> lit ''open: '' @ (case url of Some u \<Rightarrow> u | None \<Rightarrow> lit ''?'')
      | FindAction pat url \<Rightarrow> lit ''find '' @ [dq] @ pat @ [dq] @ lit '' in '' @ url)"
| "backend_text_summary (XSearch _ n input) =
     lit ''[backend x_search] '' @ n @ lit ''('' @ input @ lit '')''"
| "backend_text_summary (CodeInterpreter _ code) =
     lit ''[backend code_interpreter] '' @
     (case code of
        Some c \<Rightarrow> if 100 < utf8_len c then truncate_bytes c 100 @ lit ''...'' else c
      | None \<Rightarrow> [])"

definition reasoning_item_text :: "reasoning_item \<Rightarrow> rstring" where
  "reasoning_item_text r =
     join [nl] (summary_parts r @ (case reasoning_blocks r of Some bs \<Rightarrow> bs | None \<Rightarrow> []))"

fun part_text :: "content_part \<Rightarrow> rstring option" where
  "part_text (Text t) = Some t"
| "part_text (Image _) = None"

fun text_content :: "conversation_item \<Rightarrow> rstring" where
  "text_content (ISystem s) = sys_content s"
| "text_content (IUser u) = join [nl] (List.map_filter part_text (user_content u))"
| "text_content (IAssistant a) = asst_content a"
| "text_content (IToolResult t) = result_content t"
| "text_content (IBackendToolCall b) = backend_text_summary b"
| "text_content (IReasoning r) = reasoning_item_text r"

section \<open>The compaction engine's view of an item\<close>

fun item_has_tool_requests :: "conversation_item \<Rightarrow> bool" where
  "item_has_tool_requests (IAssistant a) = (tool_calls a \<noteq> [])"
| "item_has_tool_requests _ = False"

definition conversation_ops :: "conversation_item item_ops" where
  "conversation_ops =
     \<lparr>role = item_role,
      item_text = (\<lambda>i. if text_content i = [] then None else Some (text_content i)),
      is_tool_result = (\<lambda>i. item_role i = Tool),
      has_tool_requests = item_has_tool_requests,
      is_compaction_summary = (\<lambda>_. False),
      attachment_refs = (\<lambda>_. [])\<rparr>"

section \<open>Reasoning siblings\<close>

definition synthesized_reasoning_item :: "rstring \<Rightarrow> reasoning_item" where
  "synthesized_reasoning_item t =
     \<lparr>reasoning_id = [], summary_parts = [t], reasoning_blocks = None, encrypted_content = None,
      reasoning_status = None\<rparr>"

fun carries_reasoning_text :: "conversation_item \<Rightarrow> bool" where
  "carries_reasoning_text (IReasoning r) = list_ex (\<lambda>t. t \<noteq> []) (summary_parts r)"
| "carries_reasoning_text _ = False"

fun append_to_first_reasoning :: "rstring \<Rightarrow> conversation_item list \<Rightarrow> conversation_item list option" where
  "append_to_first_reasoning t [] = None"
| "append_to_first_reasoning t (IReasoning r # is) =
     Some (IReasoning (r\<lparr>summary_parts := summary_parts r @ [t]\<rparr>) # is)"
| "append_to_first_reasoning t (i # is) = map_option ((#) i) (append_to_first_reasoning t is)"

fun is_assistant_item :: "conversation_item \<Rightarrow> bool" where
  "is_assistant_item (IAssistant _) = True"
| "is_assistant_item _ = False"

text \<open>\<open>Iterator::rposition\<close>.\<close>

fun rposition :: "('a \<Rightarrow> bool) \<Rightarrow> 'a list \<Rightarrow> nat option" where
  "rposition P [] = None"
| "rposition P (x # xs) =
     (case rposition P xs of Some i \<Rightarrow> Some (Suc i) | None \<Rightarrow> if P x then Some 0 else None)"

definition inject_streaming_reasoning_fallback ::
  "conversation_item list \<Rightarrow> rstring \<Rightarrow> conversation_item list" where
  "inject_streaming_reasoning_fallback items t =
     (if t = [] then items
      else if list_ex carries_reasoning_text items then items
      else case append_to_first_reasoning t items of
        Some items' \<Rightarrow> items'
      | None \<Rightarrow>
          let pos = (case rposition is_assistant_item items of Some i \<Rightarrow> i | None \<Rightarrow> length items)
          in take pos items @ [IReasoning (synthesized_reasoning_item t)] @ drop pos items)"

definition build_synthetic_reasoning ::
  "rstring \<Rightarrow> rstring option \<Rightarrow> rstring option \<Rightarrow> reasoning_item option" where
  "build_synthetic_reasoning rid t enc =
     (let t' = (if t = Some [] then None else t);
          enc' = (if enc = Some [] then None else enc)
      in if t' = None \<and> enc' = None then None
         else Some \<lparr>reasoning_id = rid, summary_parts = (case t' of Some x \<Rightarrow> [x] | None \<Rightarrow> []),
                    reasoning_blocks = None, encrypted_content = enc', reasoning_status = None\<rparr>)"

section \<open>Rewriting texts and images in place\<close>

definition replace_cwd :: "rstring \<Rightarrow> rstring \<Rightarrow> rstring \<Rightarrow> rstring" where
  "replace_cwd src dst s = (if contains_str s src then replace_str src dst s else s)"

fun part_replace_cwd :: "rstring \<Rightarrow> rstring \<Rightarrow> content_part \<Rightarrow> content_part" where
  "part_replace_cwd src dst (Text t) = Text (replace_cwd src dst t)"
| "part_replace_cwd src dst (Image u) = Image u"

fun transform_item_cwd :: "rstring \<Rightarrow> rstring \<Rightarrow> conversation_item \<Rightarrow> conversation_item" where
  "transform_item_cwd src dst (ISystem s) = ISystem (s\<lparr>sys_content := replace_cwd src dst (sys_content s)\<rparr>)"
| "transform_item_cwd src dst (IUser u) =
     IUser (u\<lparr>user_content := map (part_replace_cwd src dst) (user_content u)\<rparr>)"
| "transform_item_cwd src dst (IAssistant a) =
     IAssistant (a\<lparr>asst_content := replace_cwd src dst (asst_content a),
       tool_calls := map (\<lambda>tc. tc\<lparr>call_arguments := replace_cwd src dst (call_arguments tc)\<rparr>) (tool_calls a)\<rparr>)"
| "transform_item_cwd src dst (IToolResult t) =
     IToolResult (t\<lparr>result_content := replace_cwd src dst (result_content t)\<rparr>)"
| "transform_item_cwd src dst (IBackendToolCall b) = IBackendToolCall b"
| "transform_item_cwd src dst (IReasoning r) =
     IReasoning (r\<lparr>summary_parts := map (replace_cwd src dst) (summary_parts r),
       reasoning_blocks := map_option (map (replace_cwd src dst)) (reasoning_blocks r)\<rparr>)"

definition transform_conversation_cwd ::
  "conversation_item list \<Rightarrow> rstring \<Rightarrow> rstring \<Rightarrow> conversation_item list" where
  "transform_conversation_cwd items src dst = map (transform_item_cwd src dst) items"

definition IMAGE_STRIP_PLACEHOLDER :: rstring where
  "IMAGE_STRIP_PLACEHOLDER =
     lit ''[image removed '' @ [8212] @ lit '' the server could not process it; its contents are unavailable. Ask the user to re-attach the image if it is still needed.]''"

fun part_stripped :: "(rstring \<Rightarrow> bool) \<Rightarrow> content_part \<Rightarrow> rstring list" where
  "part_stripped strip (Image url) = (if strip url then [url] else [])"
| "part_stripped strip (Text t) = []"

fun strip_user_part :: "(rstring \<Rightarrow> bool) \<Rightarrow> content_part \<Rightarrow> content_part" where
  "strip_user_part strip (Image url) = (if strip url then Text IMAGE_STRIP_PLACEHOLDER else Image url)"
| "strip_user_part strip (Text t) = Text t"

fun strip_item_images :: "(rstring \<Rightarrow> bool) \<Rightarrow> conversation_item \<Rightarrow> conversation_item \<times> rstring list" where
  "strip_item_images strip (IUser u) =
     (IUser (u\<lparr>user_content := map (strip_user_part strip) (user_content u)\<rparr>),
      concat (map (part_stripped strip) (user_content u)))"
| "strip_item_images strip (IToolResult t) =
     (IToolResult (t\<lparr>result_images := filter (\<lambda>p. part_stripped strip p = []) (result_images t)\<rparr>),
      concat (map (part_stripped strip) (result_images t)))"
| "strip_item_images strip i = (i, [])"

definition strip_images_where ::
  "conversation_item list \<Rightarrow> (rstring \<Rightarrow> bool) \<Rightarrow> conversation_item list \<times> rstring list" where
  "strip_images_where items strip =
     (map (fst \<circ> strip_item_images strip) items, concat (map (snd \<circ> strip_item_images strip) items))"

definition strip_images_by_url ::
  "conversation_item list \<Rightarrow> rstring list \<Rightarrow> conversation_item list \<times> nat" where
  "strip_images_by_url items urls =
     (let (items', stripped) = strip_images_where items (\<lambda>url. url \<in> set urls)
      in (items', length stripped))"

end
