(* ===== verification/History_Repair.thy ===== *)
theory History_Repair
  imports Conversation
begin

text \<open>
  Pairing of tool calls and tool results. A provider rejects a request in which a tool result
  does not stand in the run of results right after the assistant turn that made the call, in
  which a call has two results, or none. \<open>conversation.rs\<close> removes duplicates
  (\<open>dedup_duplicate_tool_results\<close>) and answers dangling calls (\<open>repair_dangling_tool_calls\<close>);
  \<open>xai-chat-state/src/compaction_utils.rs\<close> strips displaced results and composes the three
  (\<open>repair_history\<close>). The index loops of the source are kept; a reference definition by runs
  follows, with the equivalence.
\<close>

type_synonym conv = "conversation_item list"

section \<open>The source's loops\<close>

fun is_result_item :: "conversation_item \<Rightarrow> bool" where
  "is_result_item (IToolResult _) = True"
| "is_result_item _ = False"

fun result_id :: "conversation_item \<Rightarrow> rstring option" where
  "result_id (IToolResult t) = Some (tool_call_id t)"
| "result_id _ = None"

text \<open>The end of the run of tool results that starts at \<open>j\<close>.\<close>

function run_end :: "conv \<Rightarrow> nat \<Rightarrow> nat" where
  "run_end c j = (if j < length c \<and> is_result_item (c ! j) then run_end c (j + 1) else j)"
  by pat_completeness auto
termination
  by (relation "measure (\<lambda>(c, j). length c - j)") auto

declare run_end.simps [simp del]

text \<open>The indices of the earlier of two results with the same id, by a map of the last index seen.\<close>

fun dup_scan :: "nat \<Rightarrow> (rstring \<Rightarrow> nat option) \<Rightarrow> conv \<Rightarrow> nat list" where
  "dup_scan idx seen [] = []"
| "dup_scan idx seen (i # is) =
     (case result_id i of
        None \<Rightarrow> dup_scan (idx + 1) seen is
      | Some k \<Rightarrow>
          (case seen k of Some prev \<Rightarrow> [prev] | None \<Rightarrow> []) @ dup_scan (idx + 1) (seen(k \<mapsto> idx)) is)"

definition vec_remove :: "'a list \<Rightarrow> nat \<Rightarrow> 'a list" where
  "vec_remove xs i = take i xs @ drop (Suc i) xs"

definition dup_indices :: "conv \<Rightarrow> nat \<Rightarrow> nat \<Rightarrow> nat list" where
  "dup_indices c start stop = dup_scan start Map.empty (drop start (take stop c))"

lemma run_end_ge: "j \<le> run_end c j"
  by (induction c j rule: run_end.induct) (subst run_end.simps, auto)

lemma dup_scan_bound: "k \<in> set (dup_scan idx seen xs) \<Longrightarrow> k \<in> ran seen \<or> k < idx + length xs"
proof (induction xs arbitrary: idx seen)
  case (Cons i xs)
  show ?case
  proof (cases "result_id i")
    case None
    then show ?thesis using Cons.IH [of "idx + 1" seen] Cons.prems by auto
  next
    case (Some key)
    from Cons.prems Some consider "seen key = Some k" | "k \<in> set (dup_scan (idx + 1) (seen(key \<mapsto> idx)) xs)"
      by (auto split: option.splits)
    then show ?thesis
    proof cases
      case 1
      then show ?thesis by (auto simp: ran_def)
    next
      case 2
      from Cons.IH [OF this] consider "k \<in> ran (seen(key \<mapsto> idx))" | "k < idx + 1 + length xs" by blast
      then show ?thesis by cases (auto simp: ran_def split: if_splits)
    qed
  qed
qed simp

lemma dup_indices_bound:
  assumes "k \<in> set (dup_indices c start stop)"
  shows "k < length c"
proof -
  have "drop start (take stop c) \<noteq> []" using assms by (auto simp: dup_indices_def)
  moreover have "k < start + length (drop start (take stop c))"
    using assms dup_scan_bound [of k start Map.empty] unfolding dup_indices_def by fastforce
  ultimately show ?thesis by simp
qed

lemma length_vec_remove_le: "length (vec_remove xs i) \<le> length xs"
  by (simp add: vec_remove_def)

lemma length_foldl_vec_remove: "length (foldl vec_remove xs ks) \<le> length xs"
proof (induction ks arbitrary: xs)
  case (Cons k ks)
  then show ?case using length_vec_remove_le order_trans by (metis foldl_Cons)
qed simp

lemma length_vec_remove_first:
  assumes "ks \<noteq> []" "\<forall>k \<in> set ks. k < length xs"
  shows "length (foldl vec_remove xs ks) < length xs"
proof -
  obtain k ks' where ks: "ks = k # ks'" using assms(1) by (cases ks) auto
  then have "k < length xs" using assms(2) by simp
  then have "length (vec_remove xs k) < length xs" by (auto simp: vec_remove_def)
  then show ?thesis using length_foldl_vec_remove [of "vec_remove xs k" ks'] ks by simp
qed

lemma sort_Nil_iff [simp]: "sort xs = [] \<longleftrightarrow> xs = []"
  by (metis length_0_conv length_sort)

function dedup_loop :: "conv \<Rightarrow> nat \<Rightarrow> nat \<Rightarrow> conv \<times> nat" where
  "dedup_loop c i removed =
     (if i < length c then
        if item_has_tool_requests (c ! i) then
          let stop = run_end c (i + 1); dups = dup_indices c (i + 1) stop
          in if dups \<noteq> [] then dedup_loop (foldl vec_remove c (rev (sort dups))) i (removed + length dups)
             else dedup_loop c stop removed
        else dedup_loop c (i + 1) removed
      else (c, removed))"
  by pat_completeness auto
termination
proof (relation "measures [\<lambda>(c, i, _). length c, \<lambda>(c, i, _). length c - i]", goal_cases)
  case (2 c i removed stop dups)
  then have "length (foldl vec_remove c (rev (sort dups))) < length c"
    by (intro length_vec_remove_first) (auto intro: dup_indices_bound)
  then show ?case by simp
next
  case (3 c i removed stop dups)
  then show ?case using run_end_ge [of "i + 1" c] by (simp add: less_diff_conv2) 
qed auto

declare dedup_loop.simps [simp del]

definition dedup_duplicate_tool_results :: "conv \<Rightarrow> conv \<times> nat" where
  "dedup_duplicate_tool_results c = dedup_loop c 0 0"

datatype dangling_tool_call_reason = UserCancelled | HarnessHalted rstring

fun synthetic_dangling_result_text :: "rstring \<Rightarrow> dangling_tool_call_reason \<Rightarrow> rstring" where
  "synthetic_dangling_result_text n UserCancelled =
     lit ''Tool execution was cancelled by the user (tool `'' @ n @ lit ''` was not executed).''"
| "synthetic_dangling_result_text n (HarnessHalted cls) =
     lit ''Tool execution was halted by the harness ('' @ cls @ lit ''); the tool `'' @ n @ lit ''` was not executed.''"

fun item_calls :: "conversation_item \<Rightarrow> tool_call list" where
  "item_calls (IAssistant a) = tool_calls a"
| "item_calls _ = []"

definition synthetic_results ::
  "dangling_tool_call_reason \<Rightarrow> tool_call list \<Rightarrow> conv \<Rightarrow> conv" where
  "synthetic_results reason calls run =
     map (\<lambda>tc. tool_result (call_id tc) (synthetic_dangling_result_text (call_name tc) reason))
       (filter (\<lambda>tc. Some (call_id tc) \<notin> set (map result_id run)) calls)"

text \<open>Phase 1: the insert positions and the synthetic results, in the order of the scan.\<close>

function dangling_scan :: "dangling_tool_call_reason \<Rightarrow> conv \<Rightarrow> nat \<Rightarrow> (nat \<times> conv) list" where
  "dangling_scan reason c i =
     (if i < length c then
        if item_has_tool_requests (c ! i) then
          let j = run_end c (i + 1);
              synthetic = synthetic_results reason (item_calls (c ! i)) (drop (i + 1) (take j c))
          in (if synthetic \<noteq> [] then [(j, synthetic)] else []) @ dangling_scan reason c j
        else dangling_scan reason c (i + 1)
      else [])"
  by pat_completeness auto
termination
proof (relation "measure (\<lambda>(_, c, i). length c - i)", goal_cases)
  case (2 reason c i j synthetic)
  then show ?case using run_end_ge [of "i + 1" c] by (simp add: less_diff_conv2)
qed auto

declare dangling_scan.simps [simp del]

text \<open>Phase 2: \<open>splice\<close> at each position, from the last to the first.\<close>

definition splice_in :: "conv \<Rightarrow> nat \<times> conv \<Rightarrow> conv" where
  "splice_in c r = take (fst r) c @ snd r @ drop (fst r) c"

definition repair_dangling_tool_calls :: "conv \<Rightarrow> dangling_tool_call_reason \<Rightarrow> conv \<times> nat" where
  "repair_dangling_tool_calls c reason =
     (let repairs = dangling_scan reason c 0
      in (foldl splice_in c (rev repairs), sum_list (map (\<lambda>r. length (snd r)) repairs)))"

function has_dangling_loop :: "conv \<Rightarrow> nat \<Rightarrow> bool" where
  "has_dangling_loop c i =
     (if i < length c then
        if item_has_tool_requests (c ! i) then
          let j = run_end c (i + 1);
              answered = map result_id (drop (i + 1) (take j c))
          in if list_ex (\<lambda>tc. Some (call_id tc) \<notin> set answered) (item_calls (c ! i)) then True
             else has_dangling_loop c j
        else has_dangling_loop c (i + 1)
      else False)"
  by pat_completeness auto
termination
proof (relation "measure (\<lambda>(c, i). length c - i)", goal_cases)
  case (2 c i j answered)
  then show ?case using run_end_ge [of "i + 1" c] by (simp add: less_diff_conv2)
qed auto

declare has_dangling_loop.simps [simp del]

definition has_dangling_tool_calls :: "conv \<Rightarrow> bool" where
  "has_dangling_tool_calls c = has_dangling_loop c 0"

text \<open>\<open>retain\<close> with the ids of the current run as its state.\<close>

fun strip_displaced_loop :: "rstring set \<Rightarrow> conv \<Rightarrow> conv \<times> rstring list" where
  "strip_displaced_loop run_ids [] = ([], [])"
| "strip_displaced_loop run_ids (i # is) =
     (case i of
        IAssistant a \<Rightarrow>
          apfst ((#) i) (strip_displaced_loop (set (map call_id (tool_calls a))) is)
      | IToolResult t \<Rightarrow>
          if tool_call_id t \<in> run_ids then apfst ((#) i) (strip_displaced_loop run_ids is)
          else apsnd ((#) (tool_call_id t)) (strip_displaced_loop run_ids is)
      | _ \<Rightarrow> apfst ((#) i) (strip_displaced_loop {} is))"

definition strip_displaced_tool_results :: "conv \<Rightarrow> conv \<times> rstring list" where
  "strip_displaced_tool_results c = strip_displaced_loop {} c"

record history_repair_report =
  duplicates_removed :: nat
  stripped_tool_result_ids :: "rstring list"
  synthetic_results_inserted :: nat

definition repair_changed :: "history_repair_report \<Rightarrow> bool" where
  "repair_changed r \<longleftrightarrow>
     0 < duplicates_removed r \<or> stripped_tool_result_ids r \<noteq> [] \<or> 0 < synthetic_results_inserted r"

definition halted :: dangling_tool_call_reason where
  "halted = HarnessHalted (lit ''history_repair'')"

definition repair_history :: "conv \<Rightarrow> conv \<times> history_repair_report" where
  "repair_history c =
     (let (c1, d) = dedup_duplicate_tool_results c;
          (c2, ids) = strip_displaced_tool_results c1;
          (c3, n) = repair_dangling_tool_calls c2 halted
      in (c3, \<lparr>duplicates_removed = d, stripped_tool_result_ids = ids, synthetic_results_inserted = n\<rparr>))"

text \<open>The weaker check of a compacted history: a matching call anywhere before the result.\<close>

fun validate_loop :: "rstring set \<Rightarrow> conv \<Rightarrow> rstring list" where
  "validate_loop seen [] = []"
| "validate_loop seen (i # is) =
     (case i of
        IAssistant a \<Rightarrow> validate_loop (seen \<union> set (map call_id (tool_calls a))) is
      | IToolResult t \<Rightarrow>
          (if tool_call_id t \<notin> seen then [tool_call_id t] else []) @ validate_loop seen is
      | _ \<Rightarrow> validate_loop seen is)"

definition validate_compacted_history :: "conv \<Rightarrow> rstring list" where
  "validate_compacted_history c = validate_loop {} c"

fun sanitize_loop :: "rstring set \<Rightarrow> conv \<Rightarrow> conv \<times> rstring list" where
  "sanitize_loop seen [] = ([], [])"
| "sanitize_loop seen (i # is) =
     (case i of
        IAssistant a \<Rightarrow> apfst ((#) i) (sanitize_loop (seen \<union> set (map call_id (tool_calls a))) is)
      | IToolResult t \<Rightarrow>
          if tool_call_id t \<in> seen then apfst ((#) i) (sanitize_loop seen is)
          else apsnd ((#) (tool_call_id t)) (sanitize_loop seen is)
      | _ \<Rightarrow> apfst ((#) i) (sanitize_loop seen is))"

definition sanitize_compacted_history :: "conv \<Rightarrow> conv \<times> rstring list" where
  "sanitize_compacted_history c = sanitize_loop {} c"

section \<open>A reference by runs\<close>

text \<open>
  \<open>on_runs keep f\<close> rewrites the run of results behind every assistant turn that makes calls by
  \<open>f\<close>, and keeps or drops the results that stand anywhere else.
\<close>

function on_runs :: "bool \<Rightarrow> (tool_call list \<Rightarrow> conv \<Rightarrow> conv) \<Rightarrow> conv \<Rightarrow> conv" where
  "on_runs keep f [] = []"
| "on_runs keep f (x # xs) =
     (if item_has_tool_requests x then
        x # f (item_calls x) (takeWhile is_result_item xs) @ on_runs keep f (dropWhile is_result_item xs)
      else if is_result_item x \<and> \<not> keep then on_runs keep f xs
      else x # on_runs keep f xs)"
  by pat_completeness auto
termination
  by (relation "measure (\<lambda>(_, _, c). length c)") (auto simp: le_imp_less_Suc length_dropWhile_le)

fun keep_last :: "conv \<Rightarrow> conv" where
  "keep_last [] = []"
| "keep_last (x # xs) = (if result_id x \<in> set (map result_id xs) then keep_last xs else x # keep_last xs)"

definition matching :: "tool_call list \<Rightarrow> conv \<Rightarrow> conv" where
  "matching calls run = filter (\<lambda>r. result_id r \<in> (Some \<circ> call_id) ` set calls) run"

subsection \<open>Runs in a list\<close>

lemma result_has_no_calls [simp]: "is_result_item x \<Longrightarrow> \<not> item_has_tool_requests x"
  by (cases x) auto

lemma result_id_Some: "is_result_item x \<Longrightarrow> \<exists>k. result_id x = Some k"
  by (cases x) auto

lemma run_end_append:
  "run_end (pre @ xs) (length pre) = length pre + length (takeWhile is_result_item xs)"
proof (induction xs arbitrary: pre)
  case Nil
  then show ?case by (subst run_end.simps) simp
next
  case (Cons x xs)
  show ?case
  proof (cases "is_result_item x")
    case True
    then show ?thesis using Cons [of "pre @ [x]"] by (subst run_end.simps) simp
  next
    case False
    then show ?thesis by (subst run_end.simps) simp
  qed
qed

lemma run_end_at:
  "run_end (pre @ x # xs) (Suc (length pre)) = Suc (length pre) + length (takeWhile is_result_item xs)"
  using run_end_append [of "pre @ [x]" xs] by simp

lemma run_slice:
  "drop (Suc (length pre)) (take (Suc (length pre) + length (takeWhile is_result_item xs)) (pre @ x # xs)) =
     takeWhile is_result_item xs"
  by (simp add: drop_take takeWhile_eq_take [symmetric])

lemma on_runs_cut:
  assumes "\<And>y ys. xs = y # ys \<Longrightarrow> \<not> is_result_item y"
  shows "takeWhile is_result_item (on_runs keep f xs) = []"
    "dropWhile is_result_item (on_runs keep f xs) = on_runs keep f xs"
  using assms by (cases xs; simp)+

lemma dropWhile_run: "dropWhile is_result_item xs = y # ys \<Longrightarrow> \<not> is_result_item y"
  using hd_dropWhile [of is_result_item xs] by auto

lemma rest_no_run [simp]: "takeWhile is_result_item (dropWhile is_result_item xs) = []"
proof (cases "dropWhile is_result_item xs")
  case Nil
  then show ?thesis by (simp only: takeWhile.simps)
next
  case (Cons y ys)
  then show ?thesis using dropWhile_run [OF Cons] by (simp only: takeWhile.simps if_False)
qed

lemma run_induct [case_names Nil calls other]:
  assumes "P []"
    and "\<And>x xs. item_has_tool_requests x \<Longrightarrow> P (dropWhile is_result_item xs) \<Longrightarrow> P (x # xs)"
    and "\<And>x xs. \<not> item_has_tool_requests x \<Longrightarrow> P xs \<Longrightarrow> P (x # xs)"
  shows "P c"
proof (induction c rule: length_induct)
  case (1 c)
  show ?case
  proof (cases c)
    case (Cons x xs)
    have "length (dropWhile is_result_item xs) < length c"
      using Cons by (simp add: length_dropWhile_le le_imp_less_Suc)
    then show ?thesis using assms(2,3) 1 Cons by (cases "item_has_tool_requests x") auto
  qed (simp add: assms(1))
qed

lemma run_results: "list_all is_result_item (takeWhile is_result_item xs)"
  by (auto simp: list_all_iff dest: set_takeWhileD)

lemma on_runs_comp:
  assumes "\<And>calls run. list_all is_result_item run \<Longrightarrow> list_all is_result_item (f calls run)"
  shows "on_runs k2 g (on_runs k1 f c) = on_runs (k1 \<and> k2) (\<lambda>calls. g calls \<circ> f calls) c"
proof (induction c rule: run_induct)
  case (calls x xs)
  let ?run = "takeWhile is_result_item xs" and ?rest = "dropWhile is_result_item xs"
  have run: "list_all is_result_item (f (item_calls x) ?run)" by (rule assms [OF run_results])
  have cut: "takeWhile is_result_item (on_runs k1 f ?rest) = []"
    "dropWhile is_result_item (on_runs k1 f ?rest) = on_runs k1 f ?rest"
    using dropWhile_run by (intro on_runs_cut; blast)+
  have "takeWhile is_result_item (f (item_calls x) ?run @ on_runs k1 f ?rest) = f (item_calls x) ?run"
    "dropWhile is_result_item (f (item_calls x) ?run @ on_runs k1 f ?rest) = on_runs k1 f ?rest"
    using run cut by (auto simp: list_all_iff takeWhile_append2 dropWhile_append2)
  then show ?case using calls by simp
qed auto

lemma on_runs_cong:
  assumes "\<And>calls run. list_all is_result_item run \<Longrightarrow> f calls run = g calls run"
  shows "on_runs k f c = on_runs k g c"
proof (induction c rule: run_induct)
  case (calls x xs)
  then show ?case using assms [OF run_results] by simp
qed auto

subsection \<open>Removing duplicates\<close>

lemma nths_cut:
  assumes "i < length xs" "S \<subseteq> {..<i}"
  shows "nths (vec_remove xs i) (- S) = nths xs (- insert i S)"
proof -
  define a b where "a = take i xs" and "b = drop (Suc i) xs"
  have xs: "xs = a @ xs ! i # b" using assms(1) by (simp add: a_def b_def id_take_nth_drop)
  have a: "length a = i" using assms(1) by (simp add: a_def)
  have "{j. j + length a \<in> - S} = UNIV" "{j. Suc (j + length a) \<in> - insert i S} = UNIV"
    using assms(2) a by auto
  moreover have "nths a (- S) = nths a (- insert i S)"
    unfolding nths_def using a by (intro arg_cong [where f = "map fst"] filter_cong) (auto simp: set_zip)
  ultimately have "nths (a @ b) (- S) = nths (a @ xs ! i # b) (- insert i S)"
    using a by (simp add: nths_append nths_Cons)
  then show ?thesis using xs by (metis a_def b_def vec_remove_def)
qed

lemma foldl_vec_remove:
  assumes "sorted_wrt (>) ks" "\<forall>k \<in> set ks. k < length xs"
  shows "foldl vec_remove xs ks = nths xs (- set ks)"
  using assms
proof (induction ks arbitrary: xs)
  case (Cons k ks)
  have "\<forall>j \<in> set ks. j < length (vec_remove xs k)" using Cons.prems by (auto simp: vec_remove_def)
  then have "foldl vec_remove (vec_remove xs k) ks = nths (vec_remove xs k) (- set ks)"
    using Cons by simp
  also have "\<dots> = nths xs (- insert k (set ks))"
    using Cons.prems by (intro nths_cut) auto
  finally show ?case by simp
qed (simp add: nths_all)

fun dup_set :: "nat \<Rightarrow> conv \<Rightarrow> nat set" where
  "dup_set off [] = {}"
| "dup_set off (x # xs) =
     (if result_id x \<in> set (map result_id xs) then {off} else {}) \<union> dup_set (off + 1) xs"

lemma dup_set_bounds: "i \<in> dup_set off xs \<Longrightarrow> off \<le> i \<and> i < off + length xs"
  by (induction xs arbitrary: off) (fastforce split: if_splits)+

lemma dup_scan_set:
  "list_all is_result_item xs \<Longrightarrow>
     set (dup_scan off seen xs) =
       {p. \<exists>k. seen k = Some p \<and> Some k \<in> set (map result_id xs)} \<union> dup_set off xs"
proof (induction xs arbitrary: off seen)
  case (Cons x xs)
  then obtain k where k: "result_id x = Some k" using result_id_Some [of x] by auto
  have upd: "{p. \<exists>j. (seen(k \<mapsto> off)) j = Some p \<and> Some j \<in> ids} =
      (if Some k \<in> ids then {off} else {}) \<union> {p. \<exists>j. j \<noteq> k \<and> seen j = Some p \<and> Some j \<in> ids}" for ids
    by auto
  have split: "{p. \<exists>j. seen j = Some p \<and> Some j \<in> insert (Some k) ids} =
      set (case seen k of Some p \<Rightarrow> [p] | None \<Rightarrow> []) \<union> {p. \<exists>j. j \<noteq> k \<and> seen j = Some p \<and> Some j \<in> ids}" for ids
    by (force split: option.splits)
  have IH: "set (dup_scan (Suc off) (seen(k \<mapsto> off)) xs) =
      {p. \<exists>j. (seen(k \<mapsto> off)) j = Some p \<and> Some j \<in> set (map result_id xs)} \<union> dup_set (Suc off) xs"
    using Cons by simp
  show ?case using k unfolding dup_scan.simps dup_set.simps list.map list.set Suc_eq_plus1 [symmetric]
    by (simp only: option.case set_append IH upd split Un_ac)
qed simp

lemma dup_scan_distinct:
  assumes "list_all is_result_item xs" "\<And>k k' p. seen k = Some p \<Longrightarrow> seen k' = Some p \<Longrightarrow> k = k'"
    "\<And>k p. seen k = Some p \<Longrightarrow> p < off"
  shows "distinct (dup_scan off seen xs)"
  using assms
proof (induction xs arbitrary: off seen)
  case (Cons x xs)
  then obtain k where k: "result_id x = Some k" using result_id_Some [of x] by auto
  have rest: "distinct (dup_scan (off + 1) (seen(k \<mapsto> off)) xs)"
  proof (rule Cons.IH)
    show "list_all is_result_item xs" using Cons.prems(1) by simp
    show "p < off + 1" if "(seen(k \<mapsto> off)) k' = Some p" for k' p
      using that Cons.prems(3) by (auto split: if_splits intro: less_SucI)
    show "k1 = k2" if "(seen(k \<mapsto> off)) k1 = Some p" "(seen(k \<mapsto> off)) k2 = Some p" for k1 k2 p
      using that Cons.prems(2) [of k1 p k2] Cons.prems(3) [of k1 p] Cons.prems(3) [of k2 p]
      by (auto split: if_splits)
  qed
  have "p \<notin> set (dup_scan (off + 1) (seen(k \<mapsto> off)) xs)" if "seen k = Some p" for p
  proof -
    have "p < off" by (rule Cons.prems(3) [OF that])
    then show ?thesis
      using that Cons.prems(1,2) dup_set_bounds [of p "off + 1" xs]
      by (auto simp: dup_scan_set split: if_splits)
  qed
  then show ?case using rest k by (auto split: option.splits)
qed simp

lemma keep_last_nths: "nths xs {i. off + i \<notin> dup_set off xs} = keep_last xs"
proof (induction xs arbitrary: off)
  case (Cons x xs)
  have "off \<notin> dup_set (Suc off) xs" using dup_set_bounds by fastforce
  moreover have "nths xs {j. off + Suc j \<notin> dup_set off (x # xs)} = keep_last xs"
    using Cons [of "Suc off"] by (simp add: dup_set_bounds)
  ultimately show ?case by (auto simp: nths_Cons)
qed simp

lemma keep_last_results: "list_all is_result_item run \<Longrightarrow> list_all is_result_item (keep_last run)"
  by (induction run) auto

lemma keep_last_ids: "set (map result_id (keep_last run)) = set (map result_id run)"
  by (induction run) auto

lemma keep_last_distinct: "distinct (map result_id (keep_last run))"
  using keep_last_ids by (induction run) fastforce+

lemma keep_last_id: "distinct (map result_id run) \<Longrightarrow> keep_last run = run"
  by (induction run) auto

lemma length_keep_last: "length (keep_last run) \<le> length run"
  by (induction run) auto

lemma dup_set_empty: "dup_set off xs = {} \<longleftrightarrow> keep_last xs = xs"
proof
  assume "keep_last xs = xs"
  then have "distinct (map result_id xs)" by (metis keep_last_distinct)
  then show "dup_set off xs = {}" by (induction xs arbitrary: off) auto
next
  assume "dup_set off xs = {}"
  then show "keep_last xs = xs" using keep_last_nths [of xs off] by (simp add: nths_all)
qed

lemma card_dup_set: "card (dup_set off xs) = length xs - length (keep_last xs)"
proof (induction xs arbitrary: off)
  case (Cons x xs)
  have "finite (dup_set (Suc off) xs)" by (rule finite_subset [of _ "{..Suc off + length xs}"]) (auto dest: dup_set_bounds)
  moreover have "off \<notin> dup_set (Suc off) xs" using dup_set_bounds by fastforce
  ultimately show ?case using Cons [of "Suc off"] length_keep_last [of xs] by auto
qed simp

lemma remove_dups:
  assumes "list_all is_result_item run" "off = length pre"
  shows "foldl vec_remove (pre @ run @ rest) (rev (sort (dup_scan off Map.empty run))) =
      pre @ keep_last run @ rest" (is ?cut)
    and "length (dup_scan off Map.empty run) = length run - length (keep_last run)" (is ?len)
proof -
  let ?ks = "dup_scan off Map.empty run"
  have set: "set ?ks = dup_set off run" using assms(1) by (simp add: dup_scan_set)
  have dist: "distinct ?ks" by (rule dup_scan_distinct [OF assms(1)]) auto
  then show ?len by (metis card_dup_set distinct_card set)
  have "sorted_wrt (>) (rev (sort ?ks))"
    using dist by (simp add: sorted_wrt_rev strict_sorted_iff)
  moreover have "\<forall>k \<in> set (rev (sort ?ks)). k < length (pre @ run @ rest)"
  proof
    fix k
    assume "k \<in> set (rev (sort ?ks))"
    then have "k < off + length run" using set dup_set_bounds [of k off run] by simp
    then show "k < length (pre @ run @ rest)" using assms(2) by simp
  qed
  ultimately have "foldl vec_remove (pre @ run @ rest) (rev (sort ?ks)) =
      nths (pre @ run @ rest) (- dup_set off run)"
    by (simp add: foldl_vec_remove set)
  also have "\<dots> = nths pre (- dup_set off run) @ nths run {j. j + length pre \<in> - dup_set off run} @
      nths rest {j. j + length (pre @ run) \<in> - dup_set off run}"
  proof -
    have "{j. j + length run \<in> {j. j + length pre \<in> - dup_set off run}} =
        {j. j + length (pre @ run) \<in> - dup_set off run}" by (simp add: ac_simps)
    then show ?thesis by (simp only: nths_append)
  qed
  also have "nths pre (- dup_set off run) = pre"
    using assms(2) by (intro nths_all) (auto dest: dup_set_bounds)
  also have "{j. j + length (pre @ run) \<in> - dup_set off run} = UNIV"
    using assms(2) dup_set_bounds [of _ off run] by fastforce
  also have "{j. j + length pre \<in> - dup_set off run} = {i. off + i \<notin> dup_set off run}"
    using assms(2) by (auto simp: add.commute)
  finally show ?cut by (simp add: keep_last_nths nths_all)
qed

lemma length_run_rest:
  "length xs = length (takeWhile is_result_item xs) + length (dropWhile is_result_item xs)"
  by (metis length_append takeWhile_dropWhile_id)

lemma length_on_runs_keep_last: "length (on_runs True (\<lambda>_. keep_last) xs) \<le> length xs"
proof (induction xs rule: run_induct)
  case (calls x xs)
  then show ?case using length_keep_last [of "takeWhile is_result_item xs"] length_run_rest [of xs] by simp
qed auto

lemma dedup_loop_runs:
  "dedup_loop (pre @ xs) (length pre) n =
     (pre @ on_runs True (\<lambda>_. keep_last) xs, n + (length xs - length (on_runs True (\<lambda>_. keep_last) xs)))"
proof (induction xs arbitrary: pre n rule: run_induct)
  case Nil
  then show ?case by (subst dedup_loop.simps) simp
next
  case (calls x xs)
  let ?run = "takeWhile is_result_item xs" and ?rest = "dropWhile is_result_item xs"
  define m where "m = Suc (length pre)"
  have step: "dedup_loop (pre @ x # run @ ?rest) (length pre) k =
      dedup_loop ((pre @ x # run) @ ?rest) (length (pre @ x # run)) k"
    if "list_all is_result_item run" "keep_last run = run" for run k
  proof -
    have tw: "takeWhile is_result_item (run @ ?rest) = run"
      using that(1) by (simp add: list_all_iff takeWhile_append2 rest_no_run)
    have "dup_indices (pre @ x # run @ ?rest) m (m + length run) = []"
      using that dup_scan_set [OF that(1), of m Map.empty] dup_set_empty [of m run]
      by (simp add: dup_indices_def m_def drop_take tw)
    then show ?thesis
      using calls(1) run_end_at [of pre x "run @ ?rest"] tw
      by (subst dedup_loop.simps) (simp add: m_def)
  qed
  show ?case
  proof (cases "keep_last ?run = ?run")
    case True
    show ?thesis
      using step [OF run_results True, of n] calls(1) True calls(2) [of "pre @ x # ?run" n]
        length_run_rest [of xs] by simp
  next
    case False
    have slice: "drop m (take (m + length ?run) (pre @ x # xs)) = ?run"
      using run_slice [of pre xs x] by (simp add: m_def)
    let ?ks = "dup_scan m Map.empty ?run"
    have ne: "?ks \<noteq> []" using False remove_dups(2) [OF run_results, of m "pre @ [x]" xs]
      dup_scan_set [OF run_results, of m Map.empty xs] dup_set_empty [of m ?run] by auto
    have cut: "foldl vec_remove (pre @ x # xs) (rev (sort ?ks)) = pre @ x # keep_last ?run @ ?rest"
      using remove_dups(1) [OF run_results, of m "pre @ [x]" xs ?rest] by (simp add: m_def)
    have len: "length ?ks = length ?run - length (keep_last ?run)"
      using remove_dups(2) [OF run_results, of m "pre @ [x]" xs] by (simp add: m_def)
    have "dedup_loop (pre @ x # xs) (length pre) n =
        dedup_loop (pre @ x # keep_last ?run @ ?rest) (length pre) (n + length ?ks)"
      using calls(1) run_end_at [of pre x xs] slice ne cut
      by (subst dedup_loop.simps) (simp add: m_def dup_indices_def)
    also have "\<dots> = dedup_loop ((pre @ x # keep_last ?run) @ ?rest) (length (pre @ x # keep_last ?run)) (n + length ?ks)"
      by (rule step) (auto simp: keep_last_results [OF run_results] keep_last_id keep_last_distinct)
    also have "\<dots> = ((pre @ x # keep_last ?run) @ on_runs True (\<lambda>_. keep_last) ?rest,
        n + length ?ks + (length ?rest - length (on_runs True (\<lambda>_. keep_last) ?rest)))"
      by (rule calls(2))
    finally show ?thesis
      using calls(1) len length_keep_last [of ?run] length_run_rest [of xs] length_on_runs_keep_last [of ?rest]
      by simp
  qed
next
  case (other x xs)
  then show ?case using other(2) [of "pre @ [x]" n] by (subst dedup_loop.simps) simp
qed

lemma dedup_runs:
  "dedup_duplicate_tool_results c =
     (on_runs True (\<lambda>_. keep_last) c, length c - length (on_runs True (\<lambda>_. keep_last) c))"
  using dedup_loop_runs [of "[]" c 0] by (simp add: dedup_duplicate_tool_results_def)

subsection \<open>Answering dangling calls\<close>

abbreviation answered_run :: "dangling_tool_call_reason \<Rightarrow> tool_call list \<Rightarrow> conv \<Rightarrow> conv" where
  "answered_run reason calls run \<equiv> run @ synthetic_results reason calls run"

lemma dangling_scan_runs:
  "foldl splice_in (pre @ xs) (rev (dangling_scan reason (pre @ xs) (length pre))) =
     pre @ on_runs True (answered_run reason) xs \<and>
   sum_list (map (\<lambda>r. length (snd r)) (dangling_scan reason (pre @ xs) (length pre))) + length xs =
     length (on_runs True (answered_run reason) xs)"
proof (induction xs arbitrary: pre rule: run_induct)
  case Nil
  then show ?case by (subst (1 2) dangling_scan.simps) simp
next
  case (calls x xs)
  let ?run = "takeWhile is_result_item xs" and ?rest = "dropWhile is_result_item xs"
  let ?c = "pre @ x # xs" and ?pre = "pre @ x # ?run"
  have c: "?c = ?pre @ ?rest" by simp
  define syn where "syn = synthetic_results reason (item_calls x) ?run"
  define tl where "tl = dangling_scan reason (?pre @ ?rest) (length ?pre)"
  have scan: "dangling_scan reason ?c (length pre) =
      (if syn \<noteq> [] then [(length ?pre, syn)] else []) @ tl"
    using calls(1) run_end_at [of pre x xs] run_slice [of pre xs x]
    by (subst dangling_scan.simps) (simp add: syn_def tl_def)
  have IH: "foldl splice_in ?c (rev tl) = ?pre @ on_runs True (answered_run reason) ?rest"
    "sum_list (map (\<lambda>r. length (snd r)) tl) + length ?rest = length (on_runs True (answered_run reason) ?rest)"
    using calls(2) [of ?pre] unfolding tl_def c by blast+
  have splice: "splice_in (?pre @ r) (length ?pre, syn) = ?pre @ syn @ r" for r
    unfolding splice_in_def by (simp del: append_assoc)
  have "foldl splice_in ?c (rev (dangling_scan reason ?c (length pre))) =
      ?pre @ syn @ on_runs True (answered_run reason) ?rest"
    unfolding scan using IH(1) splice by simp
  moreover have "sum_list (map (\<lambda>r. length (snd r)) (dangling_scan reason ?c (length pre))) =
      length syn + sum_list (map (\<lambda>r. length (snd r)) tl)"
    unfolding scan by simp
  ultimately show ?case using calls(1) IH(2) length_run_rest [of xs] by (simp add: syn_def)
next
  case (other x xs)
  then have "dangling_scan reason (pre @ x # xs) (length pre) =
      dangling_scan reason ((pre @ [x]) @ xs) (length (pre @ [x]))"
    by (subst dangling_scan.simps) simp
  then show ?case using other(1) other(2) [of "pre @ [x]"] by simp
qed

lemma dangling_runs:
  "repair_dangling_tool_calls c reason =
     (on_runs True (answered_run reason) c, length (on_runs True (answered_run reason) c) - length c)"
  using dangling_scan_runs [of "[]" c reason]
  by (auto simp: repair_dangling_tool_calls_def Let_def)

lemma synthetic_results_Nil:
  "synthetic_results reason calls run = [] \<longleftrightarrow>
     \<not> list_ex (\<lambda>tc. Some (call_id tc) \<notin> set (map result_id run)) calls"
  by (auto simp: synthetic_results_def list_ex_iff filter_empty_conv)

lemma length_answered: "length c \<le> length (on_runs True (answered_run reason) c)"
  using dangling_scan_runs [of "[]" c reason] by simp

lemma has_dangling_runs:
  "has_dangling_loop (pre @ xs) (length pre) \<longleftrightarrow> on_runs True (answered_run reason) xs \<noteq> xs"
proof (induction xs arbitrary: pre rule: run_induct)
  case Nil
  then show ?case by (subst has_dangling_loop.simps) simp
next
  case (calls x xs)
  let ?run = "takeWhile is_result_item xs" and ?rest = "dropWhile is_result_item xs"
  let ?syn = "synthetic_results reason (item_calls x) ?run"
  have "has_dangling_loop (pre @ x # xs) (length pre) \<longleftrightarrow>
      ?syn \<noteq> [] \<or> has_dangling_loop ((pre @ x # ?run) @ ?rest) (length (pre @ x # ?run))"
    using calls(1) run_end_at [of pre x xs] run_slice [of pre xs x] synthetic_results_Nil [of reason "item_calls x" ?run]
    by (subst has_dangling_loop.simps) simp
  also have "\<dots> \<longleftrightarrow> ?syn \<noteq> [] \<or> on_runs True (answered_run reason) ?rest \<noteq> ?rest"
    using calls(2) by blast
  also have "\<dots> \<longleftrightarrow> ?run @ ?syn @ on_runs True (answered_run reason) ?rest \<noteq> ?run @ ?rest"
  proof (cases "?syn = []")
    case False
    then have "length ?rest < length (?syn @ on_runs True (answered_run reason) ?rest)"
      using length_answered [of ?rest reason] by (cases ?syn) auto
    then have "?syn @ on_runs True (answered_run reason) ?rest \<noteq> ?rest" by (metis less_irrefl)
    then show ?thesis using False by (simp only: same_append_eq simp_thms)
  qed (simp only: same_append_eq append_Nil simp_thms)
  also have "?run @ ?rest = xs" by simp
  finally show ?case using calls(1) by simp
next
  case (other x xs)
  then have "has_dangling_loop (pre @ x # xs) (length pre) = has_dangling_loop ((pre @ [x]) @ xs) (length (pre @ [x]))"
    by (subst has_dangling_loop.simps) simp
  then show ?case using other(1) other(2) [of "pre @ [x]"] by simp
qed

subsection \<open>Stripping displaced results\<close>

lemma strip_run:
  assumes "list_all is_result_item run"
  shows "fst (strip_displaced_loop ids (run @ rest)) =
      filter (\<lambda>r. result_id r \<in> Some ` ids) run @ fst (strip_displaced_loop ids rest)"
  using assms
proof (induction run)
  case (Cons r run)
  then show ?case by (cases r) (auto simp: apfst_def apsnd_def map_prod_def split: prod.splits)
qed simp

lemma strip_fresh:
  assumes "\<And>y ys. xs = y # ys \<Longrightarrow> \<not> is_result_item y"
  shows "strip_displaced_loop ids xs = strip_displaced_loop {} xs"
  using assms by (cases xs) (auto split: conversation_item.splits)

lemma strip_runs: "fst (strip_displaced_tool_results c) = on_runs False matching c"
  unfolding strip_displaced_tool_results_def
proof (induction c rule: run_induct)
  case (calls x xs)
  then obtain a where x: "x = IAssistant a" by (cases x) auto
  let ?run = "takeWhile is_result_item xs" and ?rest = "dropWhile is_result_item xs"
  have "fst (strip_displaced_loop ids xs) =
      filter (\<lambda>r. result_id r \<in> Some ` ids) ?run @ fst (strip_displaced_loop {} ?rest)" for ids
    using strip_run [OF run_results, of ids xs ?rest] strip_fresh [of ?rest ids] dropWhile_run by simp
  then show ?case using calls x by (simp add: matching_def image_comp comp_def)
next
  case (other x xs)
  then show ?case by (cases x) auto
qed simp

lemma strip_nothing:
  "snd (strip_displaced_tool_results c) = [] \<longleftrightarrow> fst (strip_displaced_tool_results c) = c"
proof -
  have "length (fst (strip_displaced_loop ids c)) + length (snd (strip_displaced_loop ids c)) = length c \<and>
      (snd (strip_displaced_loop ids c) = [] \<longrightarrow> fst (strip_displaced_loop ids c) = c)" for ids
    by (induction c arbitrary: ids) (auto split: conversation_item.splits)
  then show ?thesis unfolding strip_displaced_tool_results_def by (metis add_cancel_right_right length_0_conv)
qed

section \<open>The repaired history\<close>

text \<open>What the provider demands: every result stands behind its call, and every call has one.\<close>

function paired :: "conv \<Rightarrow> bool" where
  "paired [] = True"
| "paired (x # xs) =
     (if item_has_tool_requests x then
        let run = takeWhile is_result_item xs
        in distinct (map result_id run) \<and>
           set (map result_id run) = set (map (Some \<circ> call_id) (item_calls x)) \<and>
           paired (dropWhile is_result_item xs)
      else \<not> is_result_item x \<and> paired xs)"
  by pat_completeness auto
termination
  by (relation "measure length") (auto simp: le_imp_less_Suc length_dropWhile_le)

definition distinct_calls :: "conv \<Rightarrow> bool" where
  "distinct_calls c \<longleftrightarrow> list_all (\<lambda>x. distinct (map call_id (item_calls x))) c"

definition repaired_run :: "tool_call list \<Rightarrow> conv \<Rightarrow> conv" where
  "repaired_run calls run =
     (let kept = matching calls (keep_last run) in kept @ synthetic_results halted calls kept)"

lemma matching_results: "list_all is_result_item run \<Longrightarrow> list_all is_result_item (matching calls run)"
  by (auto simp: matching_def list_all_iff)

lemma synthetic_are_results: "list_all is_result_item (synthetic_results reason calls run)"
  by (auto simp: synthetic_results_def list_all_iff tool_result_def)

lemma repair_history_runs: "fst (repair_history c) = on_runs False repaired_run c"
proof -
  let ?c1 = "on_runs True (\<lambda>_. keep_last) c"
  have "fst (repair_history c) = on_runs True (answered_run halted) (on_runs False matching ?c1)"
    using strip_runs [of ?c1]
    by (cases "strip_displaced_tool_results ?c1") (simp add: repair_history_def dedup_runs dangling_runs)
  also have "\<dots> = on_runs True (answered_run halted) (on_runs False (\<lambda>calls. matching calls \<circ> keep_last) c)"
    by (simp add: on_runs_comp keep_last_results)
  also have "\<dots> = on_runs False (\<lambda>calls. answered_run halted calls \<circ> (matching calls \<circ> keep_last)) c"
    by (simp add: on_runs_comp keep_last_results matching_results)
  also have "(\<lambda>calls. answered_run halted calls \<circ> (matching calls \<circ> keep_last)) = repaired_run"
    by (rule ext)+ (simp add: repaired_run_def Let_def)
  finally show ?thesis .
qed

lemma repaired_results: "list_all is_result_item run \<Longrightarrow> list_all is_result_item (repaired_run calls run)"
  by (simp add: repaired_run_def Let_def matching_results keep_last_results synthetic_are_results)

lemma on_runs_keeps_others:
  assumes "\<And>calls run. list_all is_result_item run \<Longrightarrow> list_all is_result_item (f calls run)"
  shows "filter (\<lambda>x. \<not> is_result_item x) (on_runs k f c) = filter (\<lambda>x. \<not> is_result_item x) c"
proof (induction c rule: run_induct)
  case (calls x xs)
  let ?run = "takeWhile is_result_item xs" and ?rest = "dropWhile is_result_item xs"
  have drop: "filter (\<lambda>x. \<not> is_result_item x) r = []" if "list_all is_result_item r" for r
    using that by (auto simp: list_all_iff filter_empty_conv)
  have "filter (\<lambda>x. \<not> is_result_item x) xs = filter (\<lambda>x. \<not> is_result_item x) (?run @ ?rest)" by simp
  also have "\<dots> = filter (\<lambda>x. \<not> is_result_item x) ?rest"
    unfolding filter_append by (simp add: drop [OF run_results])
  finally show ?case using calls drop [OF assms [OF run_results]] by simp
qed auto

lemma repaired_ids:
  "set (map result_id (repaired_run calls run)) = set (map (Some \<circ> call_id) calls)"
  by (auto simp: repaired_run_def Let_def synthetic_results_def tool_result_def matching_def image_iff)

lemma distinct_synthetic:
  assumes "distinct (map call_id calls)"
  shows "distinct (map result_id (synthetic_results reason calls run))"
proof -
  have "map result_id (synthetic_results reason calls run) =
      map Some (map call_id (filter (\<lambda>tc. Some (call_id tc) \<notin> set (map result_id run)) calls))"
    by (simp add: synthetic_results_def tool_result_def)
  then show ?thesis using assms by (simp add: distinct_map_filter distinct_map inj_on_def)
qed

lemma repaired_distinct:
  assumes "distinct (map call_id calls)"
  shows "distinct (map result_id (repaired_run calls run))"
proof -
  let ?kept = "matching calls (keep_last run)"
  have "distinct (map result_id ?kept)"
    unfolding matching_def by (rule distinct_map_filter [OF keep_last_distinct])
  moreover have "set (map result_id ?kept) \<inter> set (map result_id (synthetic_results halted calls ?kept)) = {}"
    by (force simp: synthetic_results_def tool_result_def)
  ultimately show ?thesis
    using distinct_synthetic [OF assms] by (simp only: repaired_run_def Let_def map_append distinct_append simp_thms)
qed

lemma matching_id:
  "set (map result_id run) = set (map (Some \<circ> call_id) calls) \<Longrightarrow> matching calls run = run"
  unfolding matching_def by (rule filter_True) (metis image_eqI set_map)

lemma repaired_id:
  assumes "distinct (map result_id run)" "set (map result_id run) = set (map (Some \<circ> call_id) calls)"
  shows "repaired_run calls run = run"
proof -
  have "matching calls run = run" by (rule matching_id [OF assms(2)])
  moreover have "synthetic_results halted calls run = []"
    using assms(2) by (auto simp: synthetic_results_Nil list_ex_iff)
  ultimately show ?thesis by (simp add: repaired_run_def keep_last_id [OF assms(1)])
qed

lemma paired_repaired: "distinct_calls c \<Longrightarrow> paired (on_runs False repaired_run c)"
proof (induction c rule: run_induct)
  case (calls x xs)
  let ?run = "takeWhile is_result_item xs" and ?rest = "dropWhile is_result_item xs"
  let ?new = "repaired_run (item_calls x) ?run"
  have dc: "distinct_calls ?rest" "distinct (map call_id (item_calls x))"
    using calls(3) by (auto simp: distinct_calls_def list_all_iff dest: set_dropWhileD)
  have cut: "takeWhile is_result_item (on_runs False repaired_run ?rest) = []"
    "dropWhile is_result_item (on_runs False repaired_run ?rest) = on_runs False repaired_run ?rest"
    using dropWhile_run by (intro on_runs_cut; blast)+
  have "takeWhile is_result_item (?new @ on_runs False repaired_run ?rest) = ?new"
    "dropWhile is_result_item (?new @ on_runs False repaired_run ?rest) = on_runs False repaired_run ?rest"
    using repaired_results [OF run_results, of "item_calls x" xs] cut
    by (auto simp: list_all_iff takeWhile_append2 dropWhile_append2)
  then show ?case
    using calls(1,2) dc repaired_ids [of "item_calls x" ?run] repaired_distinct [OF dc(2), of ?run] by simp
qed (auto simp: distinct_calls_def)

lemma paired_fixpoint: "paired c \<Longrightarrow> on_runs k repaired_run c = c"
proof (induction c rule: run_induct)
  case (calls x xs)
  then show ?case by (simp add: Let_def repaired_id)
qed (auto split: if_splits)

lemma paired_parts:
  assumes "paired c"
  shows "on_runs True (\<lambda>_. keep_last) c = c" "on_runs False matching c = c"
    "on_runs True (answered_run halted) c = c"
  using assms
proof (induction c rule: run_induct)
  case (calls x xs)
  let ?run = "takeWhile is_result_item xs"
  { case 1 then show ?case using calls by (simp add: Let_def keep_last_id) }
  { case 2
    then have "matching (item_calls x) ?run = ?run"
      using calls(1) by (intro matching_id) (simp only: paired.simps Let_def if_True)
    then show ?case using 2 calls by (simp add: Let_def) }
  { case 3
    then have "synthetic_results halted (item_calls x) ?run = []"
      using calls(1) by (auto simp: synthetic_results_Nil list_ex_iff Let_def)
    then show ?case using 3 calls by (simp add: Let_def) }
qed (auto split: if_splits)

lemma repair_history_paired:
  assumes "paired c"
  shows "repair_history c =
    (c, \<lparr>duplicates_removed = 0, stripped_tool_result_ids = [], synthetic_results_inserted = 0\<rparr>)"
proof -
  have strip: "strip_displaced_tool_results c = (c, [])"
    using strip_nothing [of c] strip_runs [of c] paired_parts(2) [OF assms]
    by (cases "strip_displaced_tool_results c") simp
  show ?thesis
    by (simp add: repair_history_def dedup_runs dangling_runs paired_parts [OF assms] strip)
qed

subsection \<open>Passes that change no length change nothing\<close>

lemma keep_last_full: "length run \<le> length (keep_last run) \<Longrightarrow> keep_last run = run"
proof (induction run)
  case (Cons x run)
  then show ?case using length_keep_last [of run] by (auto split: if_splits)
qed simp

lemma on_runs_keep_last_full:
  "length c \<le> length (on_runs True (\<lambda>_. keep_last) c) \<Longrightarrow> on_runs True (\<lambda>_. keep_last) c = c"
proof (induction c rule: run_induct)
  case (calls x xs)
  let ?run = "takeWhile is_result_item xs" and ?rest = "dropWhile is_result_item xs"
  have "length ?run + length ?rest \<le> length (keep_last ?run) + length (on_runs True (\<lambda>_. keep_last) ?rest)"
    using calls(1,3) length_run_rest [of xs] by simp
  then have "length ?run \<le> length (keep_last ?run)" "length ?rest \<le> length (on_runs True (\<lambda>_. keep_last) ?rest)"
    using length_keep_last [of ?run] length_on_runs_keep_last [of ?rest] by linarith+
  then show ?case using calls(1,2) keep_last_full [of ?run] by simp
qed auto

lemma on_runs_answered_full:
  "length (on_runs True (answered_run reason) c) \<le> length c \<Longrightarrow> on_runs True (answered_run reason) c = c"
proof (induction c rule: run_induct)
  case (calls x xs)
  let ?run = "takeWhile is_result_item xs" and ?rest = "dropWhile is_result_item xs"
  let ?syn = "synthetic_results reason (item_calls x) ?run"
  have "length ?syn + length (on_runs True (answered_run reason) ?rest) \<le> length ?rest"
    using calls(1,3) length_run_rest [of xs] by simp
  then have "?syn = []" "length (on_runs True (answered_run reason) ?rest) \<le> length ?rest"
    using length_answered [of ?rest reason] by (simp_all flip: length_0_conv)
  then show ?case using calls(1,2) by simp
qed auto

subsection \<open>The weaker check\<close>

lemma validate_run:
  assumes "list_all is_result_item run" "result_id ` set run \<subseteq> Some ` seen"
  shows "validate_loop seen (run @ rest) = validate_loop seen rest"
  using assms
proof (induction run)
  case (Cons r run)
  then show ?case by (cases r) auto
qed simp

lemma paired_validate: "paired c \<Longrightarrow> validate_loop seen c = []"
proof (induction c arbitrary: seen rule: run_induct)
  case (calls x xs)
  then obtain a where x: "x = IAssistant a" by (cases x) auto
  let ?run = "takeWhile is_result_item xs" and ?rest = "dropWhile is_result_item xs"
  let ?seen = "seen \<union> set (map call_id (tool_calls a))"
  have ids: "set (map result_id ?run) = set (map (Some \<circ> call_id) (tool_calls a))" and rest: "paired ?rest"
    using calls(1,3) x by (simp_all only: paired.simps Let_def if_True item_calls.simps)
  have "result_id ` set ?run \<subseteq> Some ` ?seen" using ids by (auto simp: image_iff)
  then have "validate_loop ?seen (?run @ ?rest) = validate_loop ?seen ?rest"
    by (rule validate_run [OF run_results])
  then show ?case using calls(2) [OF rest] x by simp
next
  case (other x xs)
  then show ?case by (cases x) auto
qed simp

lemma sanitize_loop_valid:
  "validate_loop seen (fst (sanitize_loop seen c)) = [] \<and>
   snd (sanitize_loop seen c) = validate_loop seen c \<and>
   (validate_loop seen c = [] \<longrightarrow> fst (sanitize_loop seen c) = c) \<and>
   filter (\<lambda>x. \<not> is_result_item x) (fst (sanitize_loop seen c)) = filter (\<lambda>x. \<not> is_result_item x) c"
proof (induction c arbitrary: seen)
  case (Cons x c)
  then show ?case by (cases x) auto
qed simp

section \<open>Properties\<close>

lemma repair_unchanged:
  assumes unchanged: "\<not> repair_changed (snd (repair_history c))"
  shows "fst (repair_history c) = c"
proof -
  let ?c1 = "on_runs True (\<lambda>_. keep_last) c"
  obtain c2 ids where c2: "strip_displaced_tool_results ?c1 = (c2, ids)" by fastforce
  have rep: "repair_history c = (on_runs True (answered_run halted) c2,
      \<lparr>duplicates_removed = length c - length ?c1, stripped_tool_result_ids = ids,
       synthetic_results_inserted = length (on_runs True (answered_run halted) c2) - length c2\<rparr>)"
    by (simp add: repair_history_def dedup_runs dangling_runs c2)
  have "ids = []" "length c \<le> length ?c1" "length (on_runs True (answered_run halted) c2) \<le> length c2"
    using unchanged by (auto simp: rep repair_changed_def)
  moreover have "?c1 = c" if "length c \<le> length ?c1"
    using that by (rule on_runs_keep_last_full)
  moreover have "on_runs True (answered_run halted) c2 = c2"
    if "length (on_runs True (answered_run halted) c2) \<le> length c2"
    using that by (rule on_runs_answered_full)
  ultimately show ?thesis using strip_nothing [of ?c1] c2 rep by simp
qed

text \<open>C32.
  \<open>repair_history\<close> keeps everything that is not a tool result, in order, returns a paired history as it
  is and reports no change only when there is none. In a history in which no assistant turn repeats a
  call id it makes the history acceptable to the provider: the repaired history has exactly one result
  behind each call, in the run of the turn that made it, and no other result, so that it also passes
  the weaker check of \<open>validate_compacted_history\<close>; the report says exactly whether the history
  changed, and a second repair changes nothing. With a repeated call id none of the latter is claimed:
  the repair then inserts a duplicate and is not idempotent.
\<close>

theorem repair_history_correct:
  "filter (\<lambda>x. \<not> is_result_item x) (fst (repair_history c)) = filter (\<lambda>x. \<not> is_result_item x) c \<and>
   (paired c \<longrightarrow> fst (repair_history c) = c) \<and>
   (\<not> repair_changed (snd (repair_history c)) \<longrightarrow> fst (repair_history c) = c) \<and>
   (distinct_calls c \<longrightarrow>
     paired (fst (repair_history c)) \<and>
     (repair_changed (snd (repair_history c)) \<longleftrightarrow> fst (repair_history c) \<noteq> c) \<and>
     fst (repair_history (fst (repair_history c))) = fst (repair_history c) \<and>
     \<not> repair_changed (snd (repair_history (fst (repair_history c)))) \<and>
     validate_compacted_history (fst (repair_history c)) = [])"
proof -
  let ?r = "fst (repair_history c)"
  have paired: "paired ?r" if "distinct_calls c"
    unfolding repair_history_runs by (rule paired_repaired [OF that])
  have same: "repair_history d =
      (d, \<lparr>duplicates_removed = 0, stripped_tool_result_ids = [], synthetic_results_inserted = 0\<rparr>)"
    if "paired d" for d by (rule repair_history_paired [OF that])
  have "\<not> repair_changed (snd (repair_history c))" if "?r = c" "distinct_calls c"
    using same [OF paired [OF that(2)]] that(1) by (simp add: repair_changed_def)
  moreover have unchanged: "?r = c" if "\<not> repair_changed (snd (repair_history c))"
    using that by (rule repair_unchanged)
  ultimately have changed: "repair_changed (snd (repair_history c)) \<longleftrightarrow> ?r \<noteq> c" if "distinct_calls c"
    using that by blast
  have kept: "filter (\<lambda>x. \<not> is_result_item x) ?r = filter (\<lambda>x. \<not> is_result_item x) c"
    unfolding repair_history_runs by (rule on_runs_keeps_others [OF repaired_results])
  have "fst (repair_history ?r) = ?r \<and> \<not> repair_changed (snd (repair_history ?r)) \<and> validate_compacted_history ?r = []"
    if "distinct_calls c"
    using paired_validate [OF paired [OF that]] unfolding same [OF paired [OF that]]
    by (simp add: repair_changed_def validate_compacted_history_def)
  moreover have "?r = c" if "paired c" using same [OF that] by simp
  ultimately show ?thesis using paired changed kept unchanged by blast
qed

definition sample_call :: "string \<Rightarrow> tool_call" where
  "sample_call k = \<lparr>call_id = lit k, call_name = lit ''read'', call_arguments = []\<rparr>"

definition sample_history :: conv where
  "sample_history =
     [user (lit ''go''), assistant_tool_calls [sample_call ''a'', sample_call ''b''],
      tool_result (lit ''a'') (lit ''1''), tool_result (lit ''a'') (lit ''2''), user (lit ''x''),
      tool_result (lit ''b'') (lit ''late'')]"

theorem repair_history_correct_witness:
  "distinct_calls sample_history \<and> paired (fst (repair_history sample_history)) \<and>
   \<not> paired sample_history \<and> repair_changed (snd (repair_history sample_history))"
proof -
  have dc: "distinct_calls sample_history" by code_simp
  have np: "\<not> paired sample_history" by code_simp
  show ?thesis using repair_history_correct [of sample_history] dc np by metis
qed

text \<open>An assistant turn that repeats a call id defeats the repair, although the source calls it
  idempotent: each of the two unanswered calls gets a synthetic result with the same id, which is
  the duplicate the provider rejects, and a second repair removes one of them again.
\<close>

theorem repair_repeated_id:
  "let c = [assistant_tool_calls [sample_call ''a'', sample_call ''a'']];
       r = repair_history c; r' = repair_history (fst r)
   in length (filter (\<lambda>x. result_id x = Some (lit ''a'')) (fst r)) = 2 \<and>
      synthetic_results_inserted (snd r) = 2 \<and> \<not> paired (fst r) \<and>
      duplicates_removed (snd r') = 1 \<and> fst r' \<noteq> fst r"
  by code_simp

text \<open>\<open>has_dangling_tool_calls\<close> answers exactly whether \<open>repair_dangling_tool_calls\<close> would insert a
  result. The repair only inserts: the history without the inserted results is the old one, every
  call is answered afterwards, and a second repair inserts nothing.
\<close>

theorem dangling_repair_exact:
  "(has_dangling_tool_calls c \<longleftrightarrow> 0 < snd (repair_dangling_tool_calls c reason)) \<and>
   (has_dangling_tool_calls c \<longleftrightarrow> fst (repair_dangling_tool_calls c reason) \<noteq> c) \<and>
   length (fst (repair_dangling_tool_calls c reason)) = length c + snd (repair_dangling_tool_calls c reason) \<and>
   \<not> has_dangling_tool_calls (fst (repair_dangling_tool_calls c reason)) \<and>
   repair_dangling_tool_calls (fst (repair_dangling_tool_calls c reason)) reason' =
     (fst (repair_dangling_tool_calls c reason), 0) \<and>
   filter (\<lambda>x. \<not> is_result_item x) (fst (repair_dangling_tool_calls c reason)) =
     filter (\<lambda>x. \<not> is_result_item x) c"
proof -
  let ?r = "fst (repair_dangling_tool_calls c reason)"
  have res: "list_all is_result_item (answered_run reason calls run)" if "list_all is_result_item run" for calls run
    using that synthetic_are_results by simp
  have "synthetic_results reason' calls (answered_run reason calls run) = []" for calls run
    by (auto simp: synthetic_results_def tool_result_def filter_empty_conv image_iff)
  then have fixed: "on_runs True (answered_run reason') ?r = ?r"
    unfolding dangling_runs fst_conv by (subst on_runs_comp [OF res]) (auto intro: on_runs_cong)
  have dangling: "has_dangling_tool_calls d \<longleftrightarrow> on_runs True (answered_run rs) d \<noteq> d" for d rs
    using has_dangling_runs [of "[]" d rs] by (simp add: has_dangling_tool_calls_def)
  have grows: "on_runs True (answered_run reason) c \<noteq> c \<longleftrightarrow>
      0 < length (on_runs True (answered_run reason) c) - length c"
    using on_runs_answered_full [of reason c]
    by (cases "length (on_runs True (answered_run reason) c) \<le> length c") auto
  have "\<not> has_dangling_tool_calls ?r" using fixed dangling [of ?r reason'] by blast
  moreover have "filter (\<lambda>x. \<not> is_result_item x) ?r = filter (\<lambda>x. \<not> is_result_item x) c"
    unfolding dangling_runs fst_conv by (rule on_runs_keeps_others [OF res])
  ultimately show ?thesis
    using fixed grows dangling [of c reason] length_answered [of c reason] by (simp add: dangling_runs)
qed

text \<open>\<open>sanitize_compacted_history\<close> removes exactly the results \<open>validate_compacted_history\<close> reports,
  reports their ids in order, keeps everything else and leaves a valid history unchanged.
\<close>

theorem sanitize_matches_validate:
  "validate_compacted_history (fst (sanitize_compacted_history c)) = [] \<and>
   snd (sanitize_compacted_history c) = validate_compacted_history c \<and>
   (validate_compacted_history c = [] \<longleftrightarrow> fst (sanitize_compacted_history c) = c) \<and>
   filter (\<lambda>x. \<not> is_result_item x) (fst (sanitize_compacted_history c)) = filter (\<lambda>x. \<not> is_result_item x) c"
  using sanitize_loop_valid [of "{}" c]
  by (metis sanitize_compacted_history_def validate_compacted_history_def)

end
