(* ===== verification/Token_Estimate.thy ===== *)
theory Token_Estimate
  imports Conversation Float64
begin

text \<open>
  Token estimates: the crate \<open>xai-token-estimation\<close> (bytes divided by four, a constant per image,
  the percentage and threshold arithmetic at \<open>u64\<close>) and the estimate of a conversation in
  \<open>xai-chat-state/src/actor/state.rs\<close>. The estimates of items are sums of byte lengths of texts
  held in memory, below \<open>2 ^ 63\<close>; they are natural numbers. Token totals a provider reports are
  arbitrary \<open>u64\<close> values.
\<close>

section \<open>The shared primitives\<close>

definition saturating_mul_u64 :: "u64 \<Rightarrow> u64 \<Rightarrow> u64" where
  "saturating_mul_u64 a b = (if unat a * unat b < 2 ^ 64 then a * b else 0xFFFFFFFFFFFFFFFF)"

definition BYTES_PER_TOKEN :: nat where "BYTES_PER_TOKEN = 4"
definition IMAGE_TOKEN_ESTIMATE :: nat where "IMAGE_TOKEN_ESTIMATE = 765"

definition estimate_tokens :: "rstring \<Rightarrow> nat" where
  "estimate_tokens s = utf8_len s div BYTES_PER_TOKEN"

definition estimate_chars :: "u64 \<Rightarrow> u64" where
  "estimate_chars tokens = saturating_mul_u64 tokens (of_nat BYTES_PER_TOKEN)"

definition estimate_image_tokens :: "nat \<Rightarrow> nat" where
  "estimate_image_tokens image_count = min (2 ^ 64 - 1) (image_count * IMAGE_TOKEN_ESTIMATE)"

definition usage_percentage :: "u64 \<Rightarrow> u64 \<Rightarrow> rat" where
  "usage_percentage used whole =
     (if whole = 0 then 0
      else min 100 (f64_round (f64_round (f64_round (of_nat (unat used)) / f64_round (of_nat (unat whole))) * 100)))"

text \<open>\<open>f64::round\<close> rounds half away from zero; the argument is not negative.\<close>

definition usage_percentage_u8 :: "u64 \<Rightarrow> u64 \<Rightarrow> nat" where
  "usage_percentage_u8 used whole = min 255 (nat \<lfloor>usage_percentage used whole + 1 / 2\<rfloor>)"

definition usage_percentage_truncated_u8 :: "u64 \<Rightarrow> u64 \<Rightarrow> nat" where
  "usage_percentage_truncated_u8 used whole =
     (if whole = 0 then 0 else min 100 (unat (saturating_mul_u64 used 100) div unat whole))"

definition free_tokens :: "u64 \<Rightarrow> u64 \<Rightarrow> u64" where
  "free_tokens whole used = saturating_sub_u64 whole used"

definition exceeds_threshold :: "u64 \<Rightarrow> u64 \<Rightarrow> u8 \<Rightarrow> bool" where
  "exceeds_threshold used context_window threshold_percent =
     (if context_window = 0 then False
      else saturating_mul_u64 context_window (ucast threshold_percent) \<le> saturating_mul_u64 used 100)"

definition exceeds_threshold_with_headroom :: "u64 \<Rightarrow> u64 \<Rightarrow> u8 \<Rightarrow> u64 \<Rightarrow> bool" where
  "exceeds_threshold_with_headroom used context_window threshold_percent headroom =
     (if context_window = 0 then False
      else saturating_sub_u64 (saturating_mul_u64 context_window (ucast threshold_percent))
             (saturating_mul_u64 headroom 100) \<le> saturating_mul_u64 used 100)"

section \<open>Estimates of conversation items\<close>

fun part_bytes :: "content_part \<Rightarrow> nat" where
  "part_bytes (Text t) = utf8_len t"
| "part_bytes (Image _) = 0"

fun is_image :: "content_part \<Rightarrow> bool" where
  "is_image (Image _) = True"
| "is_image (Text _) = False"

fun estimate_system_message_tokens :: "conversation_item \<Rightarrow> nat" where
  "estimate_system_message_tokens (ISystem s) = estimate_tokens (sys_content s)"
| "estimate_system_message_tokens _ = 0"

text \<open>The serialised parameters of a tool are an argument.\<close>

definition estimate_tool_tokens :: "rstring \<Rightarrow> rstring option \<Rightarrow> rstring \<Rightarrow> nat" where
  "estimate_tool_tokens n description params =
     (utf8_len n + (case description of None \<Rightarrow> 0 | Some d \<Rightarrow> utf8_len d) + utf8_len params) div BYTES_PER_TOKEN"

fun estimate_item_tokens :: "conversation_item \<Rightarrow> nat" where
  "estimate_item_tokens (ISystem s) = estimate_tokens (sys_content s)"
| "estimate_item_tokens (IUser u) =
     sum_list (map part_bytes (user_content u)) div BYTES_PER_TOKEN +
     estimate_image_tokens (length (filter is_image (user_content u)))"
| "estimate_item_tokens (IAssistant a) =
     (utf8_len (asst_content a) + sum_list (map (\<lambda>tc. utf8_len (call_arguments tc)) (tool_calls a)))
       div BYTES_PER_TOKEN"
| "estimate_item_tokens (IToolResult t) = estimate_tokens (result_content t)"
| "estimate_item_tokens (IBackendToolCall b) = estimate_tokens (backend_text_summary b)"
| "estimate_item_tokens (IReasoning r) =
     max (utf8_len (reasoning_item_text r))
         ((case encrypted_content r of None \<Rightarrow> 0 | Some e \<Rightarrow> utf8_len e) * 3 div 4) div BYTES_PER_TOKEN"

definition estimate_conversation_tokens :: "conversation_item list \<Rightarrow> nat" where
  "estimate_conversation_tokens items = sum_list (map estimate_item_tokens items)"

definition count_item_tokens :: "conversation_item \<Rightarrow> u32" where
  "count_item_tokens i = of_nat (min u32_max (estimate_item_tokens i))"

fun is_system_item :: "conversation_item \<Rightarrow> bool" where
  "is_system_item (ISystem _) = True"
| "is_system_item _ = False"

definition estimate_messages_tokens :: "conversation_item list \<Rightarrow> nat" where
  "estimate_messages_tokens items =
     sum_list (map estimate_item_tokens (filter (\<lambda>i. \<not> is_system_item i) items))"

section \<open>Lemmas\<close>

lemma saturating_mul_u64_unat [bounds_simps]:
  "unat (saturating_mul_u64 a b) = min (2 ^ 64 - 1) (unat a * unat b)"
proof (cases "unat a * unat b < 2 ^ 64")
  case True
  then show ?thesis by (simp add: saturating_mul_u64_def unat_mult_lem [THEN iffD1])
qed (simp add: saturating_mul_u64_def)

lemma estimate_image_tokens_code [code]:
  "estimate_image_tokens n = (if n = 0 then 0 else min (2 ^ 64 - 1) (n * IMAGE_TOKEN_ESTIMATE))"
  by (simp add: estimate_image_tokens_def)

lemma estimate_conversation_simps [simp]:
  "estimate_conversation_tokens [] = 0"
  "estimate_conversation_tokens (i # is) = estimate_item_tokens i + estimate_conversation_tokens is"
  "estimate_conversation_tokens (xs @ ys) = estimate_conversation_tokens xs + estimate_conversation_tokens ys"
  by (simp_all add: estimate_conversation_tokens_def)

lemma estimate_split:
  "estimate_conversation_tokens items =
     estimate_messages_tokens items + sum_list (map estimate_system_message_tokens items)"
proof (induction items)
  case (Cons i "is")
  then show ?case by (cases i) (auto simp: estimate_messages_tokens_def)
qed (simp add: estimate_messages_tokens_def)

lemma unat_ucast_u8 [simp]: "unat (ucast (p :: u8) :: u64) = unat p"
proof -
  have "unat p < 2 ^ 64" using unsigned_less [of p, where 'a = nat] by simp
  then show ?thesis by (simp add: unsigned_ucast_eq take_bit_nat_eq_self)
qed

text \<open>The compaction gate is exact for every window whose product with the largest percentage fits in
  64 bits, for every usage, saturation included: it opens exactly when the usage reaches the
  percentage of the window. The percentage reported beside it is the truncated one, clamped to
  100, and reaches every threshold up to 100 exactly when the gate opens. Headroom only lowers the
  gate.
\<close>

theorem threshold_exact:
  fixes used cw headroom :: u64 and p :: u8
  assumes "unat cw * 255 < 2 ^ 64" "cw \<noteq> 0"
  shows "(exceeds_threshold used cw p \<longleftrightarrow> unat cw * unat p \<le> unat used * 100) \<and>
    usage_percentage_truncated_u8 used cw = min 100 (unat used * 100 div unat cw) \<and>
    (unat p \<le> 100 \<longrightarrow> (exceeds_threshold used cw p \<longleftrightarrow> unat p \<le> usage_percentage_truncated_u8 used cw)) \<and>
    (exceeds_threshold_with_headroom used cw p headroom \<longleftrightarrow>
       unat cw * unat p \<le> unat used * 100 + min (2 ^ 64 - 1) (unat headroom * 100))"
proof -
  have p: "unat cw * unat p \<le> unat cw * 255" using unsigned_less [of p, where 'a = nat] by (intro mult_le_mono2) simp
  have cw: "0 < unat cw" using assms(2) by (simp add: unat_gt_0)
  have used: "unat (saturating_mul_u64 used 100) = min (2 ^ 64 - 1) (unat used * 100)"
    using saturating_mul_u64_unat [of used 100] by simp
  have window: "unat (saturating_mul_u64 cw (ucast p)) = unat cw * unat p"
  proof -
    have "unat cw * unat p \<le> 2 ^ 64 - 1" using p assms(1) by linarith
    then show ?thesis using saturating_mul_u64_unat [of cw "ucast p"] by simp
  qed
  have gate: "exceeds_threshold used cw p \<longleftrightarrow> unat cw * unat p \<le> unat used * 100"
  proof -
    have "unat cw * unat p \<le> 2 ^ 64 - 1" using p assms(1) by linarith
    then show ?thesis using assms(2) used window by (simp add: exceeds_threshold_def word_le_nat_alt)
  qed
  have full: "100 \<le> (2 ^ 64 - 1) div unat cw"
    using assms(1) cw by (simp add: less_eq_div_iff_mult_less_eq mult.commute)
  have pct: "usage_percentage_truncated_u8 used cw = min 100 (unat used * 100 div unat cw)"
  proof (cases "2 ^ 64 - 1 \<le> unat used * 100")
    case True
    then have "(2 ^ 64 - 1) div unat cw \<le> unat used * 100 div unat cw" by (rule div_le_mono)
    then show ?thesis using True full used assms(2)
      by (simp only: usage_percentage_truncated_u8_def min_absorb1 if_False)
  next
    case False
    then have "min (2 ^ 64 - 1) (unat used * 100) = unat used * 100" by (intro min_absorb2) linarith
    then show ?thesis using used assms(2) by (simp only: usage_percentage_truncated_u8_def if_False)
  qed
  have "unat p \<le> unat used * 100 div unat cw \<longleftrightarrow> unat cw * unat p \<le> unat used * 100"
    using cw by (simp add: less_eq_div_iff_mult_less_eq mult.commute)
  moreover have "exceeds_threshold_with_headroom used cw p headroom \<longleftrightarrow>
      unat cw * unat p \<le> unat used * 100 + min (2 ^ 64 - 1) (unat headroom * 100)"
  proof -
    have wle: "unat cw * unat p \<le> 2 ^ 64 - 1" using p assms(1) by linarith
    then have cut: "unat cw * unat p - h \<le> min (2 ^ 64 - 1) u \<longleftrightarrow> unat cw * unat p \<le> u + h" for h u by auto
    have "unat (100 :: u64) = 100" by simp
    then show ?thesis
      using assms(2) by (simp only: exceeds_threshold_with_headroom_def word_le_nat_alt
          saturating_sub_u64_unat window used saturating_mul_u64_unat
          unat_ucast_u8 min_absorb2 [OF wle] cut if_False)
  qed
  ultimately show ?thesis using gate pct by auto
qed

theorem threshold_exact_witness:
  "exceeds_threshold 108800 128000 85 \<and> \<not> exceeds_threshold 108799 128000 85 \<and>
   usage_percentage_truncated_u8 108800 128000 = 85"
  using threshold_exact [of 128000 108800 85 0] threshold_exact [of 128000 108799 85 0] by simp

end
