(* ===== verification/Compaction_Summary.thy ===== *)
theory Compaction_Summary
  imports Prelude Text_Search
begin

text \<open>
  Producing a summary (\<open>code_compaction/summary.rs\<close>, \<open>failure.rs\<close>, \<open>sample.rs\<close>,
  \<open>sampler.rs\<close>): the cleaning of the model's output, the classification of its errors, and the
  bounded retry loop around the call. The model call is a function from the number of the
  attempt to its answer; sleeping and logging are left out, the observer's callbacks are a log.
  Slices of the source that start behind their end would panic: \<open>tag_apart\<close> below shows that
  the tags never overlap, so that the truncated subtraction of the model is never used.
\<close>

section \<open>Cleaning a summary\<close>

definition analysis_open :: rstring where "analysis_open = lit ''<analysis>''"
definition analysis_close :: rstring where "analysis_close = lit ''</analysis>''"
definition summary_open :: rstring where "summary_open = lit ''<summary>''"
definition summary_close :: rstring where "summary_close = lit ''</summary>''"
definition request_open :: rstring where "request_open = lit ''<summary_request>''"
definition request_close :: rstring where "request_close = lit ''</summary_request>''"

lemmas tag_defs = analysis_open_def analysis_close_def summary_open_def summary_close_def
  request_open_def request_close_def

definition leading_analysis :: "rstring \<Rightarrow> nat \<Rightarrow> bool" where
  "leading_analysis result start =
     (case find_str summary_open result of
        Some sp \<Rightarrow> start < sp \<or>
          trim (take (start - (sp + length summary_open)) (drop (sp + length summary_open) result)) = []
      | None \<Rightarrow> trim (take start result) = [])"

function strip_analysis :: "rstring \<Rightarrow> rstring" where
  "strip_analysis result =
     (case find_str analysis_open result of
        None \<Rightarrow> result
      | Some start \<Rightarrow>
          if \<not> leading_analysis result start then result
          else (case find_str analysis_close (drop start result) of
                  Some rel \<Rightarrow>
                    strip_analysis (take start result
                      @ drop (start + rel + length analysis_close) result)
                | None \<Rightarrow>
                    take start result
                    @ (case find_str summary_open (drop start result) of
                         None \<Rightarrow> [] | Some rel \<Rightarrow> drop (start + rel) result)))"
  by pat_completeness auto
termination
proof (relation "measure length")
  fix result start rel
  assume "find_str analysis_open result = Some start"
  then have "start + length analysis_open \<le> length result"
    using occurs_length [of analysis_open result start] by (simp add: find_str_Some)
  then show "(take start result @ drop (start + rel + length analysis_close) result, result)
      \<in> measure length"
    by (simp add: tag_defs)
qed simp

declare strip_analysis.simps [simp del]

definition scratch_lead :: "rchar \<Rightarrow> bool" where
  "scratch_lead c \<longleftrightarrow> c \<in> {35, 42, 45, 62, 32, 9}"

definition strip_leading_scratchpad :: "rstring \<Rightarrow> rstring" where
  "strip_leading_scratchpad inner =
     (let s = trim inner;
          lead = dropWhile scratch_lead s;
          s1 = (if \<not> (lead \<noteq> [] \<and> is_digit (hd lead)) then
                  (case rfind_str analysis_close s of
                     Some pos \<Rightarrow> trim_start (drop (pos + length analysis_close) s)
                   | None \<Rightarrow> s)
                else s)
      in (case strip_prefix summary_open s1 of Some rest \<Rightarrow> trim_start rest | None \<Rightarrow> s1))"

definition unwrap_summary :: "rstring \<Rightarrow> rstring" where
  "unwrap_summary result =
     (case (find_str summary_open result, rfind_str summary_close result) of
        (Some start, Some e) \<Rightarrow>
          if start < e then
            take start result @ lit ''Summary:'' @ [nl]
            @ strip_leading_scratchpad
                (trim (take (e - (start + length summary_open))
                             (drop (start + length summary_open) result)))
            @ drop (e + length summary_close) result
          else result
      | _ \<Rightarrow> result)"

text \<open>A zero-width space behind the opening angle bracket.\<close>

definition defused :: "rstring \<Rightarrow> rstring" where
  "defused tag = hd tag # 8203 # tl tag"

definition neutralize_compaction_control_tokens :: "rstring \<Rightarrow> rstring" where
  "neutralize_compaction_control_tokens text =
     (let t1 = replace_str summary_close (defused summary_close) text;
          t2 = replace_str summary_open (defused summary_open) t1;
          t3 = replace_str analysis_close (defused analysis_close) t2;
          t4 = replace_str analysis_open (defused analysis_open) t3;
          t5 = replace_str request_close (defused request_close) t4
      in replace_str request_open (defused request_open) t5)"

function collapse_blank_lines :: "rstring \<Rightarrow> rstring" where
  "collapse_blank_lines result =
     (if contains_str result [nl, nl, nl]
      then collapse_blank_lines (replace_str [nl, nl, nl] [nl, nl] result) else result)"
  by pat_completeness auto
termination
proof (relation "measure length")
  fix result :: rstring
  assume "contains_str result [nl, nl, nl]"
  then show "(replace_str [nl, nl, nl] [nl, nl] result, result) \<in> measure length"
    using length_replace_str [of "[nl, nl, nl]" "[nl, nl]" result] by simp
qed simp

declare collapse_blank_lines.simps [simp del]

definition format_compact_summary :: "rstring \<Rightarrow> rstring" where
  "format_compact_summary summary =
     trim (collapse_blank_lines (neutralize_compaction_control_tokens
       (unwrap_summary (strip_analysis summary))))"

definition MIN_SUMMARY_SEED_CHARS :: nat where
  "MIN_SUMMARY_SEED_CHARS = 500"

definition is_degenerate_summary :: "rstring \<Rightarrow> bool" where
  "is_degenerate_summary raw_summary \<longleftrightarrow>
     length (format_compact_summary raw_summary) < MIN_SUMMARY_SEED_CHARS"

definition format_compact_summary_content :: "rstring \<Rightarrow> rstring" where
  "format_compact_summary_content raw_summary =
     lit ''This session is being continued from a previous conversation that ran out of context. ''
     @ lit ''The summary below covers the earlier portion of the conversation.'' @ [nl, nl]
     @ format_compact_summary raw_summary"

definition wrap_user_query :: "rstring \<Rightarrow> rstring" where
  "wrap_user_query text = lit ''<user_query>'' @ [nl] @ text @ [nl] @ lit ''</user_query>''"

section \<open>Classifying errors\<close>

definition is_anchored :: "rstring \<Rightarrow> rstring \<Rightarrow> bool" where
  "is_anchored m needle \<longleftrightarrow> (\<exists>segment \<in> set (split_str (lit '': '') m). starts_with segment needle)"

definition has_size_slug :: "rstring \<Rightarrow> bool" where
  "has_size_slug m \<longleftrightarrow>
     (\<exists>slug \<in> set [lit ''context_length_exceeded'', lit ''exceed_context_size_error'',
        lit ''payload_too_large'', lit ''request_too_large'']. is_anchored m slug)"

definition has_rendered_413_phrase :: "rstring \<Rightarrow> bool" where
  "has_rendered_413_phrase m \<longleftrightarrow>
     contains_str m (lit ''413 payload too large'') \<or>
     contains_str m (lit ''413 content too large'') \<or>
     contains_str m (lit ''413 request entity too large'')"

definition has_input_length_pair :: "rstring \<Rightarrow> bool" where
  "has_input_length_pair m \<longleftrightarrow>
     contains_str m (lit ''input length'') \<and> contains_str m (lit ''exceeds the maximum allowed length'')"

definition is_context_length_error :: "rstring \<Rightarrow> bool" where
  "is_context_length_error message =
     (let m = to_ascii_lowercase message
      in contains_str m (lit ''too long for this model'')
         \<or> contains_str m (lit ''prompt is too long'')
         \<or> contains_str m (lit ''maximum prompt length'')
         \<or> contains_str m (lit ''maximum context length'')
         \<or> contains_str m (lit ''maximum allowed number of bytes'')
         \<or> (contains_str m (lit ''current message'') \<and> contains_str m (lit ''exceeds budget''))
         \<or> is_anchored m (lit ''request too large'')
         \<or> has_size_slug m
         \<or> has_rendered_413_phrase m
         \<or> has_input_length_pair m)"

record llm_compaction_output =
  response :: rstring
  thinking :: rstring

text \<open>\<open>Other\<close> carries the rendered message of its error.\<close>

datatype compaction_sample_error =
    SampleTimeout u64 nat
  | SampleBuild rstring
  | SampleStart rstring
  | SampleEmptyResponse
  | SampleContextOverflow rstring
  | SampleOther rstring

definition sample_error_display :: "compaction_sample_error \<Rightarrow> rstring" where
  "sample_error_display e = (case e of
     SampleTimeout secs bytes \<Rightarrow>
       lit ''Compaction sampling timed out after '' @ dec (unat secs) @ lit ''s (collected ''
       @ dec bytes @ lit '' bytes so far)''
   | SampleBuild msg \<Rightarrow> lit ''Compaction sampler build failed: '' @ msg
   | SampleStart msg \<Rightarrow> lit ''Compaction sampler start failed: '' @ msg
   | SampleEmptyResponse \<Rightarrow> lit ''Compaction sampler returned no response channel content''
   | SampleContextOverflow msg \<Rightarrow> msg
   | SampleOther msg \<Rightarrow> msg)"

definition is_deterministic :: "compaction_sample_error \<Rightarrow> bool" where
  "is_deterministic e = (case e of
     SampleTimeout _ _ \<Rightarrow> False
   | SampleEmptyResponse \<Rightarrow> False
   | SampleBuild _ \<Rightarrow> True
   | SampleStart _ \<Rightarrow> True
   | SampleContextOverflow _ \<Rightarrow> True
   | SampleOther msg \<Rightarrow>
       contains_str msg (lit ''Failed to build AgenticScheduler'')
       \<or> contains_str msg (lit ''Failed to start compaction sample''))"

definition is_context_overflow :: "compaction_sample_error \<Rightarrow> bool" where
  "is_context_overflow e = (case e of SampleContextOverflow _ \<Rightarrow> True | _ \<Rightarrow> False)"

section \<open>The retry loop\<close>

record sampled_summary =
  sampled_text :: rstring
  sampled_attempts :: nat

datatype sample_retry_error =
    RetryEmpty nat
  | RetryFailure (failure_message: rstring) (failure_deterministic: bool)
      (failure_overflow: bool) (failure_attempts: nat)

datatype attempt_outcome =
    AttemptSuccess rstring
  | AttemptEmpty bool
  | AttemptDegenerate rstring bool
  | AttemptFailure rstring bool bool bool

definition is_rendered_http_429 :: "rstring \<Rightarrow> bool" where
  "is_rendered_http_429 message =
     (let m = to_ascii_lowercase message
      in contains_str m (lit ''status 429'') \<or> contains_str m (lit ''429 too many requests''))"

definition overflow_of :: "compaction_sample_error \<Rightarrow> bool" where
  "overflow_of e =
     (let message = sample_error_display e
      in is_context_overflow e
         \<or> (is_context_length_error message \<and> \<not> is_rendered_http_429 message))"

text \<open>One attempt: what the observer is told, and the result when the loop ends with it.\<close>

definition attempt_step ::
  "nat \<Rightarrow> nat \<Rightarrow> compaction_sample_error + llm_compaction_output \<Rightarrow>
   attempt_outcome \<times> (sample_retry_error + sampled_summary) option" where
  "attempt_step max_attempts attempt answer =
     (let will_retry = (attempt < max_attempts)
      in case answer of
        Inr output \<Rightarrow>
          if trim (response output) \<noteq> [] then
            if is_degenerate_summary (response output) then
              (AttemptDegenerate (response output) will_retry,
               if \<not> will_retry then Some (Inl (RetryEmpty attempt)) else None)
            else
              (AttemptSuccess (response output),
               Some (Inr \<lparr>sampled_text = response output, sampled_attempts = attempt\<rparr>))
          else
            (AttemptEmpty will_retry, if \<not> will_retry then Some (Inl (RetryEmpty attempt)) else None)
      | Inl e \<Rightarrow>
          let message = sample_error_display e;
              context_overflow = overflow_of e;
              deterministic = (is_deterministic e \<or> context_overflow);
              retrying = (will_retry \<and> \<not> deterministic)
          in (AttemptFailure message deterministic context_overflow retrying,
              if deterministic then Some (Inl (RetryFailure message True context_overflow attempt))
              else if \<not> will_retry then Some (Inl (RetryFailure message False False attempt))
              else None))"

function sample_loop ::
  "(nat \<Rightarrow> compaction_sample_error + llm_compaction_output) \<Rightarrow> nat \<Rightarrow> nat \<Rightarrow>
   (nat \<times> attempt_outcome) list \<Rightarrow>
   (sample_retry_error + sampled_summary) \<times> (nat \<times> attempt_outcome) list" where
  "sample_loop sampler max_attempts attempt seen =
     (if max_attempts < attempt then (Inl (RetryEmpty max_attempts), seen)
      else
        let (outcome, result) = attempt_step max_attempts attempt (sampler attempt);
            seen' = seen @ [(attempt, outcome)]
        in (case result of
              Some r \<Rightarrow> (r, seen')
            | None \<Rightarrow> sample_loop sampler max_attempts (attempt + 1) seen'))"
  by pat_completeness auto
termination
  by (relation "measure (\<lambda>(_, m, a, _). Suc m - a)") auto

declare sample_loop.simps [simp del]

definition sample_summary_with_retries ::
  "(nat \<Rightarrow> compaction_sample_error + llm_compaction_output) \<Rightarrow> u32 \<Rightarrow>
   (sample_retry_error + sampled_summary) \<times> (nat \<times> attempt_outcome) list" where
  "sample_summary_with_retries sampler max_attempts =
     sample_loop sampler (max (unat max_attempts) 1) 1 []"

section \<open>Lemmas on cleaning\<close>

text \<open>The tags open with the only angle bracket they contain.\<close>

lemma tag_shapes:
  "tag \<in> {analysis_open, analysis_close, summary_open, summary_close, request_open, request_close} \<Longrightarrow>
   \<exists>t. tag = 60 # t \<and> 60 \<notin> set t \<and> t \<noteq> [] \<and> 8203 \<notin> set tag \<and> nl \<notin> set tag"
  by (auto simp: tag_defs)

lemma tag_apart:
  assumes "occurs summary_open s i" "occurs tag s j" "i < j"
    "tag \<in> {analysis_open, summary_close}"
  shows "i + length summary_open \<le> j"
proof (rule ccontr)
  assume "\<not> i + length summary_open \<le> j"
  then have k: "0 < j - i" "j - i < length summary_open" using assms(3) by auto
  have "s ! j = 60" "j < length s"
    using assms(2,4) occurs_hd [of 60 "tl tag" s j] by (auto simp: tag_defs)
  have "take (length summary_open) (drop i s) = summary_open"
    using assms(1) by (simp add: occurs_def starts_with_def)
  then have "summary_open ! (j - i) = (drop i s) ! (j - i)" using k(2) by (metis nth_take)
  also have "\<dots> = s ! j" using assms(3) \<open>j < length s\<close> by simp
  finally have "summary_open ! (j - i) = 60" using \<open>s ! j = 60\<close> by simp
  moreover have "summary_open = 60 # tl summary_open" "60 \<notin> set (tl summary_open)"
    by (simp_all add: tag_defs)
  ultimately show False using k
    by (metis One_nat_def Suc_leI Suc_less_eq Suc_pred length_Cons nth_Cons_pos nth_mem)
qed

lemma defuse_keeps:
  assumes "tag \<in> {analysis_open, analysis_close, summary_open, summary_close, request_open, request_close}"
    and "q \<noteq> []" "8203 \<notin> set q" "free_of q s"
  shows "free_of q (replace_str tag (defused tag) s)"
proof -
  obtain t where t: "tag = 60 # t" using tag_shapes [OF assms(1)] by blast
  show ?thesis
    using replace_str_keeps_free [of tag "[60]" t "[60]" t q 8203 "[]" s] assms(2-) t
    by (simp add: defused_def)
qed

lemma defuse_removes:
  assumes "tag \<in> {analysis_open, analysis_close, summary_open, summary_close, request_open, request_close}"
  shows "free_of tag (replace_str tag (defused tag) s)"
proof -
  obtain t where t: "tag = 60 # t" "60 \<notin> set t" "t \<noteq> []" "8203 \<notin> set tag"
    using tag_shapes [OF assms] by blast
  show ?thesis using replace_str_removes [OF t, of "[]" s] t(1) by (simp add: defused_def)
qed

definition control_free :: "rstring \<Rightarrow> bool" where
  "control_free s \<longleftrightarrow> free_of analysis_open s \<and> free_of analysis_close s \<and> free_of summary_open s \<and>
     free_of summary_close s \<and> free_of request_open s \<and> free_of request_close s"

lemma neutralize_control_free: "control_free (neutralize_compaction_control_tokens s)"
proof -
  let ?T = "{analysis_open, analysis_close, summary_open, summary_close, request_open, request_close}"
  have keep: "free_of q (replace_str tag (defused tag) t)"
    if "free_of q t" "q \<in> ?T" "tag \<in> ?T" for q tag t
    using defuse_keeps [OF that(3) _ _ that(1)] tag_shapes [OF that(2)] by blast
  have rem: "free_of tag (replace_str tag (defused tag) t)" if "tag \<in> ?T" for tag t
    by (rule defuse_removes [OF that])
  show ?thesis
    unfolding control_free_def neutralize_compaction_control_tokens_def Let_def
    by (intro conjI rem keep) simp_all
qed

lemma collapse_spec:
  "(q \<noteq> [] \<and> nl \<notin> set q \<and> free_of q s \<longrightarrow> free_of q (collapse_blank_lines s)) \<and>
   free_of [nl, nl, nl] (collapse_blank_lines s)"
proof (induction s rule: collapse_blank_lines.induct)
  case (1 s)
  show ?case
  proof (cases "contains_str s [nl, nl, nl]")
    case True
    then have c: "collapse_blank_lines s = collapse_blank_lines (replace_str [nl, nl, nl] [nl, nl] s)"
      by (subst collapse_blank_lines.simps) simp
    have "free_of q (replace_str [nl, nl, nl] [nl, nl] s)"
      if q: "q \<noteq> []" "nl \<notin> set q" "free_of q s"
    proof -
      have "free_of q ([] @ replace_str [nl, nl, nl] ([] @ nl # [nl]) s)"
        by (rule replace_str_keeps_free [where a' = "[nl, nl, nl]" and b' = "[nl, nl]"])
          (simp_all only: q append_Nil append_Cons list.distinct not_False_eq_True simp_thms)
      then show ?thesis by (simp only: append_Nil)
    qed
    then show ?thesis using 1 [OF True] c by auto
  next
    case False
    then have "collapse_blank_lines s = s" by (subst collapse_blank_lines.simps) simp
    then show ?thesis using False by (simp add: free_of_contains)
  qed
qed

lemma collapse_free: "free_of [nl, nl, nl] s \<Longrightarrow> collapse_blank_lines s = s"
  by (subst collapse_blank_lines.simps) (simp add: free_of_contains)

lemma control_free_collapse: "control_free s \<Longrightarrow> control_free (collapse_blank_lines s)"
proof -
  have "q \<noteq> [] \<and> nl \<notin> set q"
    if "q \<in> {analysis_open, analysis_close, summary_open, summary_close, request_open, request_close}"
    for q using tag_shapes [OF that] by auto
  then show "control_free s \<Longrightarrow> control_free (collapse_blank_lines s)"
    unfolding control_free_def using collapse_spec by blast
qed

lemma format_clean:
  "control_free (format_compact_summary s) \<and> free_of [nl, nl, nl] (format_compact_summary s) \<and>
   trim (format_compact_summary s) = format_compact_summary s"
proof -
  let ?t = "collapse_blank_lines (neutralize_compaction_control_tokens (unwrap_summary (strip_analysis s)))"
  have "control_free ?t" by (rule control_free_collapse [OF neutralize_control_free])
  moreover have "free_of [nl, nl, nl] ?t" using collapse_spec by blast
  ultimately show ?thesis
    by (simp add: format_compact_summary_def control_free_def free_of_trim)
qed

lemma neutralize_id: "control_free s \<Longrightarrow> neutralize_compaction_control_tokens s = s"
  by (simp add: neutralize_compaction_control_tokens_def control_free_def replace_str_free Let_def)

lemma format_plain:
  assumes "control_free s"
  shows "format_compact_summary s = trim (collapse_blank_lines s)"
proof -
  have "find_str analysis_open s = None" "find_str summary_open s = None"
    using assms by (simp_all add: control_free_def free_of_find)
  then have "strip_analysis s = s" "unwrap_summary s = s"
    by (simp_all add: strip_analysis.simps [of s] unwrap_summary_def)
  then show ?thesis using assms by (simp add: format_compact_summary_def neutralize_id)
qed

section \<open>Lemmas on classification\<close>

lemma lowercase_append: "to_ascii_lowercase (a @ b) = to_ascii_lowercase a @ to_ascii_lowercase b"
  by (simp add: to_ascii_lowercase_def)

lemma contains_suffix: "contains_str b p \<Longrightarrow> contains_str (a @ b) p"
  using occurs_middle [of p b _ a "[]"] by (auto simp: contains_str_iff)

lemma split_sep_suffix:
  "set (split_str (lit '': '') b) \<subseteq> set (split_str (lit '': '') (a @ lit '': '' @ b))"
proof (induction "length a" arbitrary: a rule: less_induct)
  case less
  let ?p = "[58, 32] :: rstring"
  have p: "lit '': '' = ?p" by simp
  let ?s = "a @ ?p @ b"
  have here: "occurs ?p ?s (length a)" by (simp add: occurs_def)
  then obtain i where i: "find_str ?p ?s = Some i" using find_str_None by (metis option.exhaust)
  then have occ: "occurs ?p ?s i" and le: "i \<le> length a"
    using here by (auto simp: find_str_Some not_le [symmetric])
  show ?case
  proof (cases "i = length a")
    case True
    then show ?thesis unfolding p using i by (subst (2) split_str.simps) auto
  next
    case False
    have nth: "?s ! (i + 1) = 32"
    proof -
      have "take (length ?p) (drop i ?s) ! 1 = 32"
        using occ unfolding occurs_def starts_with_def by (metis One_nat_def nth_Cons_0 nth_Cons_Suc)
      then have "drop i ?s ! 1 = 32" by (simp add: nth_take del: drop_append take_append)
      moreover have "i \<le> length ?s" using occ by (simp add: occurs_def)
      ultimately show ?thesis by (simp only: nth_drop)
    qed
    have "i + 1 \<noteq> length a" using nth by (auto simp: nth_append)
    then have "i + 2 \<le> length a" using False le by simp
    then have "drop (i + length ?p) ?s = drop (i + 2) a @ ?p @ b" by simp
    moreover have "length (drop (i + 2) a) < length a" using \<open>i + 2 \<le> length a\<close> by simp
    ultimately show ?thesis unfolding p using less [of "drop (i + 2) a"] i
      by (subst (2) split_str.simps) (auto simp: p)
  qed
qed

lemma is_anchored_suffix: "is_anchored b needle \<Longrightarrow> is_anchored (a @ lit '': '' @ b) needle"
  unfolding is_anchored_def using split_sep_suffix by blast

section \<open>Lemmas on the retry loop\<close>

lemma attempt_step_last: "snd (attempt_step m m answer) \<noteq> None"
  by (auto simp: attempt_step_def Let_def split: sum.splits)

lemma sample_loop_spec:
  assumes "1 \<le> a" "a \<le> m"
  shows "\<exists>k. a \<le> k \<and> k \<le> m \<and> (\<forall>j \<in> {a..<k}. snd (attempt_step m j (sampler j)) = None) \<and>
    snd (attempt_step m k (sampler k)) = Some (fst (sample_loop sampler m a seen)) \<and>
    snd (sample_loop sampler m a seen) =
      seen @ map (\<lambda>j. (j, fst (attempt_step m j (sampler j)))) [a..<Suc k]"
  using assms
proof (induction "m - a" arbitrary: a seen)
  case 0
  then have [simp]: "a = m" by simp
  obtain oc r where "attempt_step m m (sampler m) = (oc, Some r)"
    using attempt_step_last [of m "sampler m"] by (cases "attempt_step m m (sampler m)") auto
  then show ?case by (intro exI [of _ m]) (simp add: sample_loop.simps [of _ _ m])
next
  case (Suc d)
  obtain oc res where st: "attempt_step m a (sampler a) = (oc, res)" by fastforce
  show ?case
  proof (cases res)
    case (Some r)
    then have "sample_loop sampler m a seen = (r, seen @ [(a, oc)])"
      using Suc.prems(2) st by (subst sample_loop.simps) simp
    then show ?thesis using Suc.prems(2) st Some by (intro exI [of _ a]) simp
  next
    case None
    have "a < m" "d = m - (a + 1)" using Suc.hyps(2) by auto
    have loop: "sample_loop sampler m a seen = sample_loop sampler m (a + 1) (seen @ [(a, oc)])"
      using Suc.prems(2) st None by (subst sample_loop.simps) simp
    obtain k where k: "a + 1 \<le> k" "k \<le> m"
      "\<forall>j \<in> {a + 1..<k}. snd (attempt_step m j (sampler j)) = None"
      "snd (attempt_step m k (sampler k)) = Some (fst (sample_loop sampler m a seen))"
      "snd (sample_loop sampler m a seen) =
        (seen @ [(a, oc)]) @ map (\<lambda>j. (j, fst (attempt_step m j (sampler j)))) [a + 1..<Suc k]"
      using Suc.hyps(1) [OF \<open>d = m - (a + 1)\<close>, of "seen @ [(a, oc)]"] \<open>a < m\<close> unfolding loop by auto
    have "[a..<Suc k] = a # [a + 1..<Suc k]" using k(1) by (simp add: upt_rec)
    moreover have "\<forall>j \<in> {a..<k}. snd (attempt_step m j (sampler j)) = None"
    proof
      fix j assume "j \<in> {a..<k}"
      then show "snd (attempt_step m j (sampler j)) = None"
        using k(3) st None by (cases "j = a") auto
    qed
    ultimately show ?thesis using k st by (intro exI [of _ k]) simp
  qed
qed

section \<open>Properties\<close>

text \<open>A cleaned summary holds none of the six compaction control tokens, no run of three line
  feeds and no white space at its ends, whatever the model wrote; cleaning it again changes
  nothing, so that re-compacting a cleaned summary is stable.
\<close>

theorem summary_cleaned:
  "\<not> contains_str (format_compact_summary s) (lit ''<analysis>'') \<and>
   \<not> contains_str (format_compact_summary s) (lit ''</analysis>'') \<and>
   \<not> contains_str (format_compact_summary s) (lit ''<summary>'') \<and>
   \<not> contains_str (format_compact_summary s) (lit ''</summary>'') \<and>
   \<not> contains_str (format_compact_summary s) (lit ''<summary_request>'') \<and>
   \<not> contains_str (format_compact_summary s) (lit ''</summary_request>'') \<and>
   \<not> contains_str (format_compact_summary s) [nl, nl, nl] \<and>
   trim (format_compact_summary s) = format_compact_summary s \<and>
   format_compact_summary (format_compact_summary s) = format_compact_summary s"
proof -
  note clean = format_clean [of s]
  have "format_compact_summary (format_compact_summary s) = format_compact_summary s"
    using clean by (simp add: format_plain collapse_free)
  then show ?thesis
    using clean unfolding control_free_def free_of_contains tag_defs by blast
qed

text \<open>C29.
  The retry loop stops at the first attempt that settles the matter and never makes more than
  \<open>max(1, max_attempts)\<close> attempts, each of which is reported once, in order. A summary that is
  returned is the text of that attempt and not degenerate; an error that is not deterministic,
  and an empty result, are returned only after the last attempt; an overflow is always
  reported as deterministic. The error behind the loop is never returned.
\<close>

theorem sample_retries:
  fixes max_attempts :: u32
  defines "m \<equiv> max (unat max_attempts) 1"
  shows "\<exists>k r. 1 \<le> k \<and> k \<le> m \<and>
    sample_summary_with_retries sampler max_attempts =
      (r, map (\<lambda>j. (j, fst (attempt_step m j (sampler j)))) [1..<Suc k]) \<and>
    (\<forall>j. 1 \<le> j \<and> j < k \<longrightarrow> snd (attempt_step m j (sampler j)) = None) \<and>
    snd (attempt_step m k (sampler k)) = Some r \<and>
    (case r of
       Inr out \<Rightarrow> sampled_attempts out = k \<and> \<not> is_degenerate_summary (sampled_text out) \<and>
         (\<exists>o'. sampler k = Inr o' \<and> response o' = sampled_text out)
     | Inl (RetryEmpty a) \<Rightarrow> a = m \<and> k = m
     | Inl (RetryFailure msg det overflow a) \<Rightarrow>
         a = k \<and> (overflow \<longrightarrow> det) \<and> (\<not> det \<longrightarrow> k = m) \<and>
         (\<exists>e. sampler k = Inl e \<and> msg = sample_error_display e))"
proof -
  have "1 \<le> m" by (simp add: m_def)
  from sample_loop_spec [OF order_refl this, of sampler "[]"]
  obtain k where k: "1 \<le> k" "k \<le> m" "\<forall>j \<in> {1..<k}. snd (attempt_step m j (sampler j)) = None"
    "snd (attempt_step m k (sampler k)) = Some (fst (sample_loop sampler m 1 []))"
    "snd (sample_loop sampler m 1 []) = map (\<lambda>j. (j, fst (attempt_step m j (sampler j)))) [1..<Suc k]"
    by auto
  let ?r = "fst (sample_loop sampler m 1 [])"
  have "case ?r of
       Inr out \<Rightarrow> sampled_attempts out = k \<and> \<not> is_degenerate_summary (sampled_text out) \<and>
         (\<exists>o'. sampler k = Inr o' \<and> response o' = sampled_text out)
     | Inl (RetryEmpty a) \<Rightarrow> a = m \<and> k = m
     | Inl (RetryFailure msg det overflow a) \<Rightarrow>
         a = k \<and> (overflow \<longrightarrow> det) \<and> (\<not> det \<longrightarrow> k = m) \<and>
         (\<exists>e. sampler k = Inl e \<and> msg = sample_error_display e)"
    using k(2,4) by (auto simp: attempt_step_def Let_def split: sum.splits if_splits)
  moreover have "sample_summary_with_retries sampler max_attempts =
      (?r, map (\<lambda>j. (j, fst (attempt_step m j (sampler j)))) [1..<Suc k])"
    using k(5) by (simp add: sample_summary_with_retries_def m_def prod_eq_iff del: upt_Suc)
  ultimately show ?thesis using k(1-4) by (intro exI [of _ k] exI [of _ ?r]) auto
qed

theorem sample_retries_witness:
  "(let sampler = (\<lambda>a. if a = 1 then Inl (SampleTimeout 5 0) else Inl (SampleBuild [])) in
    \<exists>r. sample_summary_with_retries sampler 3 =
      (r, [(1, AttemptFailure (sample_error_display (SampleTimeout 5 0)) False False True),
           (2, AttemptFailure (sample_error_display (SampleBuild [])) True
                 (overflow_of (SampleBuild [])) False)]) \<and> isl r)"
proof -
  let ?s = "\<lambda>a :: nat. if a = 1 then Inl (SampleTimeout 5 0) else Inl (SampleBuild [])
    :: compaction_sample_error + llm_compaction_output"
  have no: "\<not> overflow_of (SampleTimeout 5 0)"
    by (simp add: overflow_of_def is_context_overflow_def is_context_length_error_def
        sample_error_display_def dec.simps to_ascii_lowercase_def contains_str_def is_anchored_def
        has_size_slug_def has_rendered_413_phrase_def has_input_length_pair_def
        split_str.simps Let_def)
  have st: "attempt_step 3 1 (?s 1) =
      (AttemptFailure (sample_error_display (SampleTimeout 5 0)) False False True, None)"
    "attempt_step 3 2 (?s 2) =
      (AttemptFailure (sample_error_display (SampleBuild [])) True (overflow_of (SampleBuild [])) False,
       Some (Inl (RetryFailure (sample_error_display (SampleBuild [])) True
         (overflow_of (SampleBuild [])) 2)))"
    using no by (simp_all add: attempt_step_def is_deterministic_def Let_def)
  have m: "max (unat (3 :: u32)) 1 = 3" by simp
  obtain k r where k: "1 \<le> k" "k \<le> 3"
    "sample_summary_with_retries ?s 3 =
      (r, map (\<lambda>j. (j, fst (attempt_step 3 j (?s j)))) [1..<Suc k])"
    "\<forall>j. 1 \<le> j \<and> j < k \<longrightarrow> snd (attempt_step 3 j (?s j)) = None"
    "snd (attempt_step 3 k (?s k)) = Some r"
    using sample_retries [of 3 ?s, unfolded m] by blast
  have "k \<noteq> 1" using k(5) st(1) by auto
  moreover have "\<not> 2 < k" using k(4) [rule_format, of 2] st(2) by auto
  ultimately have "k = 2" using k(1) by linarith
  moreover have "[1..<Suc 2] = [1, 2 :: nat]" by (simp add: upt_rec)
  ultimately show ?thesis using k(3,5) st by (auto simp: Let_def)
qed

text \<open>Recognising a size overflow survives wrapping: when a message is classified as a
  context-length error, so is every message that puts a context and \<open>": "\<close> in front of it.
\<close>

theorem context_length_error_wrapped:
  assumes "is_context_length_error message"
  shows "is_context_length_error (ctx @ lit '': '' @ message)"
proof -
  have low: "to_ascii_lowercase (ctx @ lit '': '' @ message) =
      to_ascii_lowercase ctx @ lit '': '' @ to_ascii_lowercase message"
    by (simp add: to_ascii_lowercase_def)
  let ?l = "to_ascii_lowercase message" and ?w = "to_ascii_lowercase ctx @ lit '': '' @ to_ascii_lowercase message"
  have c: "contains_str ?l p \<longrightarrow> contains_str ?w p" for p
    using contains_suffix [of ?l p "to_ascii_lowercase ctx @ lit '': ''"] by simp
  have a: "is_anchored ?l p \<longrightarrow> is_anchored ?w p" for p using is_anchored_suffix by blast
  have "has_size_slug ?l \<longrightarrow> has_size_slug ?w" unfolding has_size_slug_def using a by blast
  moreover have "has_rendered_413_phrase ?l \<longrightarrow> has_rendered_413_phrase ?w"
    unfolding has_rendered_413_phrase_def using c by blast
  moreover have "has_input_length_pair ?l \<longrightarrow> has_input_length_pair ?w"
    unfolding has_input_length_pair_def using c by blast
  ultimately show ?thesis
    using assms c a unfolding is_context_length_error_def Let_def low by meson
qed

theorem context_length_error_wrapped_witness:
  "is_context_length_error (lit ''Request too large'') \<and>
   is_context_length_error (lit ''compact failed'' @ lit '': '' @ lit ''Request too large'')"
proof -
  have "is_context_length_error (lit ''Request too large'')"
    by (simp add: is_context_length_error_def to_ascii_lowercase_def is_anchored_def split_str.simps
        Let_def)
  then show ?thesis using context_length_error_wrapped by blast
qed

end
