(* ===== verification/Chat_Prep.thy ===== *)
theory Chat_Prep
  imports History_Repair Token_Estimate Compaction_Summary
begin

text \<open>
  Preparing a conversation for a model call and rebuilding it after a compaction
  (\<open>xai-chat-state/src/compaction_utils.rs\<close>): the filters, the fit of a verbatim conversation into
  a token budget, the extraction of the user's queries, the state captured at a compaction and the
  compacted history. \<open>format_compact_summary_content\<close> and \<open>wrap_user_query\<close> are repeated there
  literally from the compaction crate; their definitions are shared with \<open>Compaction_Summary\<close>.
\<close>

section \<open>Filters\<close>

definition AGENT_MESSAGE_MODEL_LABEL :: rstring where
  "AGENT_MESSAGE_MODEL_LABEL = lit ''[Message authored by another agent; not a human request or approval.]''"

fun label_agent_message :: "conversation_item \<Rightarrow> conversation_item" where
  "label_agent_message (IUser u) =
     (if user_reason u = AgentMessage
      then IUser (u\<lparr>user_content := Text AGENT_MESSAGE_MODEL_LABEL # user_content u\<rparr>) else IUser u)"
| "label_agent_message i = i"

definition model_request_history :: "conv \<Rightarrow> conv" where
  "model_request_history c = map label_agent_message c"

fun strip_tool_item :: "conversation_item \<Rightarrow> conversation_item option" where
  "strip_tool_item (IToolResult _) = None"
| "strip_tool_item (IBackendToolCall _) = None"
| "strip_tool_item (IAssistant a) =
     Some (IAssistant
       (if tool_calls a = [] then a
        else let info = [nl] @ lit ''[Called tools: '' @ join (lit '', '') (map call_name (tool_calls a)) @ lit '']''
             in a\<lparr>asst_content := (if asst_content a = [] then info else asst_content a @ info), tool_calls := []\<rparr>))"
| "strip_tool_item i = Some i"

definition strip_tool_messages_for_conversation_item :: "conv \<Rightarrow> conv" where
  "strip_tool_messages_for_conversation_item c = List.map_filter strip_tool_item c"

fun is_reasoning_item :: "conversation_item \<Rightarrow> bool" where
  "is_reasoning_item (IReasoning _) = True"
| "is_reasoning_item _ = False"

definition strip_reasoning_blocks :: "conv \<Rightarrow> conv" where
  "strip_reasoning_blocks c = filter (\<lambda>i. \<not> is_reasoning_item i) c"

fun image_placeholder :: "conversation_item \<Rightarrow> conversation_item" where
  "image_placeholder (IUser u) =
     IUser (u\<lparr>user_content := map (\<lambda>p. if is_image p then Text (lit ''[image]'') else p) (user_content u)\<rparr>)"
| "image_placeholder i = i"

definition strip_images :: "conv \<Rightarrow> conv" where
  "strip_images c = map image_placeholder c"

definition prepare_conversation_for_summarization :: "conv \<Rightarrow> conv" where
  "prepare_conversation_for_summarization c =
     strip_images (strip_reasoning_blocks (strip_tool_messages_for_conversation_item c))"

definition prepare_conversation_for_segment :: "conv \<Rightarrow> conv" where
  "prepare_conversation_for_segment c = strip_images (strip_reasoning_blocks c)"

function truncate_trailing_incomplete_tool_call :: "conv \<Rightarrow> conv" where
  "truncate_trailing_incomplete_tool_call c =
     (if c \<noteq> [] \<and> item_has_tool_requests (last c)
      then truncate_trailing_incomplete_tool_call (butlast c) else c)"
  by pat_completeness auto
termination
  by (relation "measure length") auto

declare truncate_trailing_incomplete_tool_call.simps [simp del]

definition prepare_conversation_for_verbatim_summarization :: "conv \<Rightarrow> bool \<Rightarrow> conv" where
  "prepare_conversation_for_verbatim_summarization c strip_reasoning =
     truncate_trailing_incomplete_tool_call (if strip_reasoning then strip_reasoning_blocks c else c)"

section \<open>Fitting a verbatim conversation\<close>

text \<open>\<open>max_bytes\<close> is a saturating product: a budget above \<open>2 ^ 62\<close> tokens never truncates.\<close>

definition truncate_text_to_bytes :: "rstring \<Rightarrow> nat \<Rightarrow> rstring option" where
  "truncate_text_to_bytes s max_bytes =
     (if utf8_len s \<le> max_bytes then None
      else
        let keep = max_bytes - 64;
            end_idx = floor_boundary s (min keep (utf8_len s));
            dropped = utf8_len s - end_idx
        in map_option (\<lambda>p. p @ [nl] @ lit ''[... truncated '' @ dec dropped @
               lit '' bytes to fit the compaction window ...]'') (str_prefix s end_idx))"

definition truncated_or_same :: "nat \<Rightarrow> rstring \<Rightarrow> rstring" where
  "truncated_or_same max_bytes s =
     (case truncate_text_to_bytes s max_bytes of Some t \<Rightarrow> t | None \<Rightarrow> s)"

fun truncate_part :: "nat \<Rightarrow> content_part \<Rightarrow> content_part" where
  "truncate_part max_bytes (Text t) = Text (truncated_or_same max_bytes t)"
| "truncate_part max_bytes (Image u) = Image u"

definition budget_bytes :: "nat \<Rightarrow> nat" where
  "budget_bytes max_tokens = min (2 ^ 64 - 1) (max_tokens * 4)"

fun truncate_item_to_tokens :: "conversation_item \<Rightarrow> nat \<Rightarrow> conversation_item" where
  "truncate_item_to_tokens (IToolResult t) max_tokens =
     IToolResult (t\<lparr>result_content := truncated_or_same (budget_bytes max_tokens) (result_content t)\<rparr>)"
| "truncate_item_to_tokens (IAssistant a) max_tokens =
     IAssistant (a\<lparr>asst_content := truncated_or_same (budget_bytes max_tokens) (asst_content a)\<rparr>)"
| "truncate_item_to_tokens (IUser u) max_tokens =
     IUser (u\<lparr>user_content := map (truncate_part (budget_bytes max_tokens)) (user_content u)\<rparr>)"
| "truncate_item_to_tokens i max_tokens = i"

text \<open>The loop that pops the trailing results pushes them in reverse and reverses the list.\<close>

fun pop_results :: "conv \<Rightarrow> conv \<Rightarrow> conv \<times> conv" where
  "pop_results rev_body results =
     (case rev_body of
        x # xs \<Rightarrow> if is_result_item x then pop_results xs (results @ [x]) else (rev_body, results)
      | [] \<Rightarrow> ([], results))"

declare pop_results.simps [simp del]

definition recover_truncated_tail_unit :: "conv \<Rightarrow> nat \<Rightarrow> conv" where
  "recover_truncated_tail_unit body budget =
     (let (rest, popped) = pop_results (rev body) []; results = rev popped
      in if results = [] then
           (case rest of x # _ \<Rightarrow> [truncate_item_to_tokens x budget] | [] \<Rightarrow> [])
         else
           let owner = (case rest of x # _ \<Rightarrow> if item_has_tool_requests x then [x] else [] | [] \<Rightarrow> []);
               owner_cost = sum_list (map estimate_item_tokens owner);
               per = max ((budget - owner_cost) div length results) 1
           in owner @ map (\<lambda>r. truncate_item_to_tokens r per) results)"

fun fit_start_loop :: "conv \<Rightarrow> nat \<Rightarrow> nat \<Rightarrow> nat \<Rightarrow> nat" where
  "fit_start_loop body 0 remaining start = start"
| "fit_start_loop body (Suc i) remaining start =
     (if remaining < estimate_item_tokens (body ! i) then start
      else fit_start_loop body i (remaining - estimate_item_tokens (body ! i)) i)"

definition fit_conversation_to_budget :: "conv \<Rightarrow> nat \<Rightarrow> conv" where
  "fit_conversation_to_budget c max_tokens =
     (if estimate_conversation_tokens c \<le> max_tokens then c
      else
        let head = (case c of x # _ \<Rightarrow> if is_system_item x then [x] else [] | [] \<Rightarrow> []);
            body = drop (length head) c;
            budget = max_tokens - estimate_conversation_tokens head;
            start = fit_start_loop body (length body) budget (length body);
            start' = run_end body start
        in if start' < length body then head @ drop start' body
           else head @ recover_truncated_tail_unit body budget)"

section \<open>User queries\<close>

definition SYSTEM_TAGS :: "rstring list" where
  "SYSTEM_TAGS = map lit [''user_info'', ''project_layout'', ''git_status'', ''fork-context'',
     ''system-reminder'', ''agent-memory'', ''system_reminder'', ''background_context'',
     ''command-name'', ''command-message'', ''command-args'', ''rules'']"

definition open_tag :: "rstring \<Rightarrow> rstring" where "open_tag t = lit ''<'' @ t @ lit ''>''"
definition close_tag :: "rstring \<Rightarrow> rstring" where "close_tag t = lit ''</'' @ t @ lit ''>''"

function strip_tag :: "rstring \<Rightarrow> rstring \<Rightarrow> rstring" where
  "strip_tag tag s =
     (case find_str (open_tag tag) s of
        None \<Rightarrow> s
      | Some i \<Rightarrow>
          (case find_str (close_tag tag) (drop i s) of
             None \<Rightarrow> s
           | Some j \<Rightarrow> strip_tag tag (take i s @ drop (i + j + length (close_tag tag)) s)))"
  by pat_completeness auto
termination
proof (relation "measure (\<lambda>(_, s). length s)", goal_cases)
  case (2 tag s i j)
  then have "occurs (close_tag tag) (drop i s) j" by (simp add: find_str_Some)
  then have "j + length (close_tag tag) \<le> length (drop i s)" by (rule occurs_length)
  then show ?case by (simp add: close_tag_def)
qed simp

declare strip_tag.simps [simp del]

definition strip_system_tags :: "rstring \<Rightarrow> rstring" where
  "strip_system_tags s = trim (foldl (\<lambda>r tag. strip_tag tag r) s SYSTEM_TAGS)"

definition query_open :: rstring where "query_open = lit ''<user_query>''"
definition query_close :: rstring where "query_close = lit ''</user_query>''"

definition extract_user_query :: "rstring \<Rightarrow> rstring" where
  "extract_user_query s =
     (let stripped = strip_system_tags s
      in case find_str query_open stripped of
           None \<Rightarrow> stripped
         | Some i \<Rightarrow>
             let rest = drop (i + length query_open) stripped
             in case find_str query_close rest of None \<Rightarrow> stripped | Some j \<Rightarrow> trim (take j rest))"

fun is_user_item :: "conversation_item \<Rightarrow> bool" where
  "is_user_item (IUser _) = True"
| "is_user_item _ = False"

definition extract_last_user_query :: "conv \<Rightarrow> rstring option" where
  "extract_last_user_query c =
     (case find is_user_item (rev c) of
        None \<Rightarrow> None
      | Some i \<Rightarrow> let q = extract_user_query (text_content i) in if q = [] then None else Some q)"

definition AUTO_CONTINUE_PROMPT :: rstring where
  "AUTO_CONTINUE_PROMPT =
     lit ''Continue the conversation from where it left off without asking the user any further questions. Resume directly - do not acknowledge the summary, do not recap what was happening, do not preface with '' @
     [dq] @ lit ''I'' @ [sq] @ lit ''ll continue'' @ [dq] @ lit '' or similar.'' @ [nl] @
     lit ''Pick up the last task as if the break never happened.''"

definition is_synthetic_extracted_query :: "rstring \<Rightarrow> bool" where
  "is_synthetic_extracted_query t \<longleftrightarrow> t = [] \<or> t = lit ''__auto_continue__'' \<or> t = AUTO_CONTINUE_PROMPT"

fun is_real_user_turn :: "conversation_item \<Rightarrow> bool" where
  "is_real_user_turn (IUser u) =
     (if \<not> is_human (user_reason u) then False
      else if list_ex is_image (user_content u) then True
      else \<not> is_synthetic_extracted_query (extract_user_query (text_content (IUser u))))"
| "is_real_user_turn _ = False"

definition extract_real_user_queries :: "conv \<Rightarrow> rstring list" where
  "extract_real_user_queries c = map (extract_user_query \<circ> text_content) (filter is_real_user_turn c)"

definition extract_last_real_user_query :: "conv \<Rightarrow> rstring option" where
  "extract_last_real_user_query c =
     map_option (extract_user_query \<circ> text_content) (find is_real_user_turn (rev c))"

definition omitted_result :: "tool_result_item \<Rightarrow> conversation_item" where
  "omitted_result t = tool_result (tool_call_id t) (lit ''Tool call omitted...'')"

fun keep_recent :: "conversation_item \<Rightarrow> conversation_item option" where
  "keep_recent (IAssistant a) = Some (IAssistant a)"
| "keep_recent (IToolResult t) = Some (omitted_result t)"
| "keep_recent _ = None"

definition extract_messages_since_last_user :: "conv \<Rightarrow> conv" where
  "extract_messages_since_last_user c =
     rev (List.map_filter keep_recent (takeWhile (\<lambda>i. \<not> is_user_item i) (rev c)))"

definition extract_messages_since_last_real_user :: "conv \<Rightarrow> conv" where
  "extract_messages_since_last_real_user c =
     List.map_filter keep_recent
       (drop (case rposition is_real_user_turn c of Some i \<Rightarrow> i + 1 | None \<Rightarrow> 0) c)"

section \<open>The state captured at a compaction\<close>

datatype agent_message_position = OnlyAgent | BeforeHuman | AfterHuman

record agent_message_anchor =
  anchor_item :: conversation_item
  anchor_position :: agent_message_position

fun is_agent_message :: "conversation_item \<Rightarrow> bool" where
  "is_agent_message (IUser u) = (user_reason u = AgentMessage)"
| "is_agent_message _ = False"

definition extract_latest_agent_message :: "conv \<Rightarrow> agent_message_anchor option" where
  "extract_latest_agent_message c =
     (case rposition is_agent_message c of
        None \<Rightarrow> None
      | Some i \<Rightarrow>
          let pos = (case rposition is_real_user_turn c of
                Some h \<Rightarrow> if i < h then BeforeHuman else AfterHuman
              | None \<Rightarrow> OnlyAgent)
          in map_option (\<lambda>item. \<lparr>anchor_item = item, anchor_position = pos\<rparr>) (vec_get c i))"

fun keep_since_anchor :: "conversation_item \<Rightarrow> conversation_item option" where
  "keep_since_anchor (IUser u) = (if user_reason u = AgentMessage then Some (IUser u) else None)"
| "keep_since_anchor i = keep_recent i"

definition extract_messages_since_last_compaction_anchor :: "conv \<Rightarrow> conv" where
  "extract_messages_since_last_compaction_anchor c =
     (let boundary = rposition (\<lambda>i. is_real_user_turn i \<or> is_agent_message i) c;
          start = (case boundary of
              None \<Rightarrow> 0
            | Some idx \<Rightarrow> if (case vec_get c idx of Some i \<Rightarrow> is_agent_message i | None \<Rightarrow> False) then idx else idx + 1)
      in List.map_filter keep_since_anchor (drop start c))"

text \<open>
  The captured context. The summaries of running tasks, sub-agents, servers, todos, loops and
  workflows are carried along unread; they are the parameter \<open>'x\<close>.
\<close>

record 'x compaction_inputs =
  in_cwd_generation :: u64
  in_project_instructions :: "rstring option"
  in_goal_objective :: "rstring option"
  in_session :: 'x

record 'x compaction_state_context =
  ctx_cwd_generation :: u64
  ctx_project_instructions :: "rstring option"
  agent_anchor :: "agent_message_anchor option"
  recent_messages :: conv
  last_user_query :: "rstring option"
  ctx_session :: 'x

definition build_context :: "conv \<Rightarrow> 'x compaction_inputs \<Rightarrow> 'x compaction_state_context" where
  "build_context c inputs =
     \<lparr>ctx_cwd_generation = in_cwd_generation inputs,
      ctx_project_instructions = in_project_instructions inputs,
      agent_anchor = extract_latest_agent_message c,
      recent_messages = extract_messages_since_last_compaction_anchor c,
      last_user_query =
        (case in_goal_objective inputs of
           Some g \<Rightarrow> if trim g \<noteq> [] then Some g else extract_last_real_user_query c
         | None \<Rightarrow> extract_last_real_user_query c),
      ctx_session = in_session inputs\<rparr>"

definition for_compaction :: "'x compaction_state_context \<Rightarrow> 'x compaction_state_context" where
  "for_compaction ctx =
     ctx\<lparr>agent_anchor := (case agent_anchor ctx of Some a \<Rightarrow> Some a
           | None \<Rightarrow> extract_latest_agent_message (recent_messages ctx)),
         recent_messages := []\<rparr>"

section \<open>The compacted history\<close>

definition bound_captured_output :: "rstring \<Rightarrow> nat \<Rightarrow> rstring" where
  "bound_captured_output s max_chars =
     (let n = length s
      in if n \<le> max_chars then s
         else let h = max_chars div 2; t = max_chars - h
              in take h s @ [nl, nl, 8230] @ lit ''['' @ dec (n - h - t) @ lit '' chars elided]'' @ [8230, nl, nl] @
                 drop (n - t) s)"

definition format_transcript_location :: "rstring \<Rightarrow> rstring" where
  "format_transcript_location path =
     [nl, nl] @ lit ''<transcript_location>'' @ [nl] @
     lit ''The full, unsummarized transcript of this conversation is saved at:'' @ [nl] @ path @ [nl] @
     lit ''If you need details that were dropped from the summary above (exact code, error text, file contents, or earlier tool output), read this file to recover them.'' @ [nl] @
     lit ''</transcript_location>''"

record 'x compacted_history_input =
  system_message :: conversation_item
  user_message_prefix :: rstring
  agents_md_reminder :: "rstring option"
  state_context :: "'x compaction_state_context"
  compaction_summary :: rstring
  reminder_block :: "rstring option"
  transcript_hint :: "rstring option"

definition opt_list :: "'a option \<Rightarrow> 'a list" where
  "opt_list x = (case x of Some y \<Rightarrow> [y] | None \<Rightarrow> [])"

text \<open>\<open>summary_before_recent_carrier\<close> is always \<open>None\<close> in this build, so the recent messages come first.\<close>

definition build_compacted_history :: "'x compacted_history_input \<Rightarrow> conv" where
  "build_compacted_history inp =
     (let ctx = state_context inp;
          summary_item = user_meta (format_compact_summary_content (compaction_summary inp) @
            (case transcript_hint inp of Some h \<Rightarrow> h | None \<Rightarrow> []));
          instructions = (if ctx_cwd_generation ctx = 0 then agents_md_reminder inp else ctx_project_instructions ctx);
          anchor = (if list_ex is_agent_message (recent_messages ctx) then None else agent_anchor ctx);
          before = (case anchor of Some a \<Rightarrow> if anchor_position a = BeforeHuman then [anchor_item a] else [] | None \<Rightarrow> []);
          after = (case anchor of Some a \<Rightarrow> if anchor_position a \<noteq> BeforeHuman then [anchor_item a] else [] | None \<Rightarrow> [])
      in [system_message inp, user_meta (user_message_prefix inp)]
         @ map project_instructions (opt_list instructions)
         @ before
         @ map (user \<circ> wrap_user_query) (opt_list (last_user_query ctx))
         @ after
         @ recent_messages ctx @ [summary_item]
         @ map system_reminder (opt_list (reminder_block inp)))"

section \<open>Lemmas on pairing\<close>

lemma run_end_le: "j \<le> length c \<Longrightarrow> run_end c j \<le> length c"
  by (induction c j rule: run_end.induct) (subst run_end.simps, auto)

lemma run_end_stop: "run_end c j < length c \<Longrightarrow> \<not> is_result_item (c ! run_end c j)"
proof (induction c j rule: run_end.induct)
  case (1 c j)
  then show ?case by (subst (asm) (2) run_end.simps, subst run_end.simps) (auto split: if_splits)
qed

lemma takeWhile_nth_result: "j < length (takeWhile is_result_item xs) \<Longrightarrow> is_result_item (xs ! j)"
  by (metis nth_mem set_takeWhileD takeWhile_nth)

lemma drop_past_run:
  "length (takeWhile is_result_item xs) \<le> j \<Longrightarrow>
     drop j xs = drop (j - length (takeWhile is_result_item xs)) (dropWhile is_result_item xs)"
proof -
  assume j: "length (takeWhile is_result_item xs) \<le> j"
  have "drop j (takeWhile is_result_item xs @ dropWhile is_result_item xs) =
      drop (j - length (takeWhile is_result_item xs)) (dropWhile is_result_item xs)"
    using j by (simp only: drop_append drop_all append_Nil)
  then show ?thesis by simp
qed

lemma paired_drop:
  assumes "paired c" "i < length c" "\<not> is_result_item (c ! i)"
  shows "paired (drop i c)"
  using assms
proof (induction c arbitrary: i rule: run_induct)
  case (calls x xs)
  let ?run = "takeWhile is_result_item xs" and ?rest = "dropWhile is_result_item xs"
  show ?case
  proof (cases i)
    case 0
    then show ?thesis using calls.prems by simp
  next
    case (Suc j)
    then have j: "\<not> is_result_item (xs ! j)" "j < length xs" using calls.prems by auto
    then have le: "length ?run \<le> j" using takeWhile_nth_result [of j xs] by (metis not_le_imp_less)
    have d: "drop j xs = drop (j - length ?run) ?rest" by (rule drop_past_run [OF le])
    have lt: "j - length ?run < length ?rest" using j(2) le length_run_rest [of xs] by linarith
    have "?rest ! (j - length ?run) = xs ! j"
      using d j(2) lt by (metis Cons_nth_drop_Suc list.inject)
    moreover have "paired ?rest" using calls.prems(1) calls.hyps by (simp add: Let_def)
    ultimately show ?thesis using calls.IH [of "j - length ?run"] lt j(1) d Suc by simp
  qed
next
  case (other x xs)
  then show ?case by (cases i) (auto split: if_splits)
qed simp

lemma pop_results_runs:
  "pop_results xs acc = (dropWhile is_result_item xs, acc @ takeWhile is_result_item xs)"
  by (induction xs arbitrary: acc) (subst pop_results.simps, simp)+

lemma truncate_item_same:
  "is_result_item (truncate_item_to_tokens i n) = is_result_item i"
  "result_id (truncate_item_to_tokens i n) = result_id i"
  "item_has_tool_requests (truncate_item_to_tokens i n) = item_has_tool_requests i"
  by (cases i; simp)+

lemma paired_single: "paired [x] \<longleftrightarrow> \<not> is_result_item x \<and> \<not> item_has_tool_requests x"
  by (cases x) (auto simp: Let_def)

lemma paired_unit:
  assumes "item_has_tool_requests x" "list_all is_result_item run"
  shows "paired (x # run) \<longleftrightarrow> distinct (map result_id run) \<and>
    set (map result_id run) = set (map (Some \<circ> call_id) (item_calls x))"
proof -
  have "takeWhile is_result_item run = run" "dropWhile is_result_item run = []"
    using assms(2) by (auto simp: list_all_iff)
  then show ?thesis using assms(1) by (simp only: paired.simps Let_def if_True simp_thms)
qed

lemma paired_tail_unit:
  assumes "paired (pre @ x # run)" "list_all is_result_item run" "\<not> is_result_item x"
  shows "paired (x # run)"
  using paired_drop [OF assms(1), of "length pre"] assms(3) by simp

lemma recover_paired:
  assumes "paired body"
  shows "paired (recover_truncated_tail_unit body budget)"
proof -
  define run where "run = rev (takeWhile is_result_item (rev body))"
  define rest where "rest = dropWhile is_result_item (rev body)"
  have body: "body = rev rest @ run"
    unfolding rest_def run_def by (metis rev_append rev_rev_ident takeWhile_dropWhile_id)
  have run: "list_all is_result_item run"
    unfolding run_def by (auto simp: list_all_iff dest: set_takeWhileD)
  have pop: "pop_results (rev body) [] = (rest, rev run)"
    by (simp add: pop_results_runs rest_def run_def)
  show ?thesis
  proof (cases rest)
    case Nil
    then have "run = []" using assms body run by (cases run) (auto split: if_splits)
    then show ?thesis by (simp add: recover_truncated_tail_unit_def pop Nil)
  next
    case (Cons x xs)
    have x: "\<not> is_result_item x" using dropWhile_run [of "rev body"] Cons by (simp add: rest_def)
    have unit: "paired (x # run)"
      using paired_tail_unit [OF _ run x, of "rev xs"] assms body Cons by simp
    show ?thesis
    proof (cases "run = []")
      case True
      then show ?thesis using unit x Cons
        by (simp add: recover_truncated_tail_unit_def pop paired_single truncate_item_same del: paired.simps)
    next
      case False
      then obtain r rs where r: "run = r # rs" by (cases run) auto
      have calls: "item_has_tool_requests x"
      proof (rule ccontr)
        assume no: "\<not> item_has_tool_requests x"
        then have "paired run" using unit by simp
        then show False using run r by (auto split: if_splits)
      qed
      define per where "per = max ((budget - estimate_item_tokens x) div length run) 1"
      have rec: "recover_truncated_tail_unit body budget = x # map (\<lambda>r. truncate_item_to_tokens r per) run"
        using False calls Cons by (simp add: recover_truncated_tail_unit_def pop per_def)
      have ids: "map result_id (map (\<lambda>r. truncate_item_to_tokens r per) run) = map result_id run"
        by (simp add: truncate_item_same)
      have "list_all is_result_item (map (\<lambda>r. truncate_item_to_tokens r per) run)"
        using run by (simp add: list_all_iff truncate_item_same)
      then show ?thesis using unit unfolding rec
        by (simp only: paired_unit [OF calls] run ids)
    qed
  qed
qed

lemma paired_system: "paired (x # xs) \<Longrightarrow> is_system_item x \<Longrightarrow> paired xs"
  by (cases x) auto

lemma paired_cons_system: "is_system_item x \<Longrightarrow> paired (x # xs) \<longleftrightarrow> paired xs"
  by (cases x) auto

section \<open>Lemmas on the fit\<close>

lemma fit_start_loop_spec:
  assumes "i \<le> length body" "estimate_conversation_tokens (drop i body) + remaining = budget"
  shows "fit_start_loop body i remaining i \<le> i \<and>
    estimate_conversation_tokens (drop (fit_start_loop body i remaining i) body) \<le> budget \<and>
    (\<forall>j < fit_start_loop body i remaining i. budget < estimate_conversation_tokens (drop j body))"
  using assms
proof (induction i arbitrary: remaining)
  case (Suc i)
  have d: "drop i body = body ! i # drop (Suc i) body" using Suc.prems(1) by (simp add: Cons_nth_drop_Suc)
  show ?case
  proof (cases "remaining < estimate_item_tokens (body ! i)")
    case True
    have "budget < estimate_conversation_tokens (drop j body)" if "j < Suc i" for j
    proof -
      have "drop j body = take (i - j) (drop j body) @ drop i body"
        using that append_take_drop_id [of "i - j" "drop j body"] by simp
      then have "estimate_conversation_tokens (drop i body) \<le> estimate_conversation_tokens (drop j body)"
        by (metis estimate_conversation_simps(3) le_add2)
      then show ?thesis using True d Suc.prems(2) by simp
    qed
    then show ?thesis using True Suc.prems(2) by auto
  next
    case False
    then show ?thesis using Suc.IH [of "remaining - estimate_item_tokens (body ! i)"] Suc.prems d by auto
  qed
qed simp

lemma fit_paired:
  assumes "paired c"
  shows "paired (fit_conversation_to_budget c max_tokens)"
proof -
  define head where "head = (case c of x # _ \<Rightarrow> if is_system_item x then [x] else [] | [] \<Rightarrow> [])"
  define body where "body = drop (length head) c"
  define budget where "budget = max_tokens - estimate_conversation_tokens head"
  define start where "start = run_end body (fit_start_loop body (length body) budget (length body))"
  have body: "paired body" using assms
    by (cases c) (auto simp: body_def head_def dest: paired_system simp del: paired.simps)
  have prepend: "paired (head @ r)" if "paired r" for r
    using that by (cases c) (auto simp: head_def paired_cons_system simp del: paired.simps)
  have fit: "fit_conversation_to_budget c max_tokens =
      (if estimate_conversation_tokens c \<le> max_tokens then c
       else if start < length body then head @ drop start body
       else head @ recover_truncated_tail_unit body budget)"
    unfolding fit_conversation_to_budget_def head_def [symmetric] body_def [symmetric]
      budget_def [symmetric] start_def [symmetric] Let_def by (rule refl)
  have "paired (drop start body)" if "start < length body"
    using paired_drop [OF body that] run_end_stop [of body] that unfolding start_def by blast
  then show ?thesis using assms prepend recover_paired [OF body] unfolding fit by simp
qed

section \<open>Lemmas on extracted queries\<close>

text \<open>A text in which the extraction finds no tag of its own.\<close>

definition tag_free :: "rstring \<Rightarrow> bool" where
  "tag_free q \<longleftrightarrow>
     \<not> contains_str q query_close \<and>
     list_all (\<lambda>t. \<not> contains_str q (open_tag t)) SYSTEM_TAGS"

lemma tags_apart:
  "list_all (\<lambda>t. nl \<notin> set (open_tag t) \<and> \<not> contains_str query_open (open_tag t) \<and>
     \<not> contains_str query_close (open_tag t)) SYSTEM_TAGS"
  by code_simp

lemma wrap_user_query_eq: "wrap_user_query q = query_open @ nl # q @ nl # query_close"
  by (simp add: wrap_user_query_def query_open_def query_close_def)

lemma open_tag_nonempty [simp]: "open_tag t \<noteq> []"
  by (simp add: open_tag_def)

lemma strip_system_tags_id:
  assumes "list_all (\<lambda>t. free_of (open_tag t) s) SYSTEM_TAGS"
  shows "strip_system_tags s = trim s"
proof -
  have "strip_tag t s = s" if "t \<in> set SYSTEM_TAGS" for t
  proof -
    have "find_str (open_tag t) s = None" using assms that by (simp add: list_all_iff free_of_find)
    then show ?thesis by (subst strip_tag.simps) simp
  qed
  moreover have "foldl (\<lambda>r tag. strip_tag tag r) s tags = s"
    if "\<forall>t \<in> set tags. strip_tag t s = s" for tags
    using that by (induction tags) auto
  ultimately show ?thesis by (simp add: strip_system_tags_def)
qed

lemma find_close:
  assumes "free_of query_close q"
  shows "find_str query_close (nl # q @ nl # query_close) = Some (length q + 2)"
proof -
  have c: "nl \<notin> set query_close" "query_close \<noteq> []" by (simp_all add: query_close_def)
  have "occurs query_close ((nl # q @ [nl]) @ query_close) (length (nl # q @ [nl]) + 0)"
    unfolding occurs_append_right by (simp add: occurs_def starts_with_def)
  moreover have "\<not> occurs query_close (nl # q @ nl # query_close) j" if "j < length q + 2" for j
  proof
    assume "occurs query_close (nl # q @ nl # query_close) j"
    then have "occurs query_close ((nl # q) @ nl # query_close) j" by simp
    then consider "occurs query_close (nl # q) j" | k where "j = Suc (length (nl # q) + k)"
      using occurs_stop [OF _ c] by blast
    then show False
    proof cases
      case 1
      then show ?thesis using occurs_stop [OF _ c, of "[]" q j] assms
        by (auto simp: free_of_def occurs_Nil [OF c(2)])
    qed (use that in simp)
  qed
  ultimately show ?thesis unfolding find_str_Some by (simp del: occurs_Suc_Cons)
qed

lemma extract_wrapped:
  assumes "tag_free q"
  shows "extract_user_query (wrap_user_query q) = trim q"
proof -
  have "free_of (open_tag t) (wrap_user_query q)" if "t \<in> set SYSTEM_TAGS" for t
  proof -
    have "free_of (open_tag t) query_open" "free_of (open_tag t) query_close" "nl \<notin> set (open_tag t)"
      using tags_apart that by (auto simp: list_all_iff free_of_contains)
    moreover have "free_of (open_tag t) q"
      using assms that by (auto simp: tag_free_def list_all_iff free_of_contains)
    ultimately show ?thesis unfolding wrap_user_query_eq by (intro free_of_stop) auto
  qed
  moreover have "trim (wrap_user_query q) = wrap_user_query q"
    by (rule trim_id) (simp_all add: wrap_user_query_def is_whitespace_def)
  ultimately have strip: "strip_system_tags (wrap_user_query q) = wrap_user_query q"
    by (simp add: strip_system_tags_id list_all_iff)
  have op: "find_str query_open (wrap_user_query q) = Some 0"
    unfolding wrap_user_query_eq by (simp add: query_open_def)
  have rest: "drop (length query_open) (wrap_user_query q) = nl # q @ nl # query_close"
    by (simp add: wrap_user_query_eq)
  have "free_of query_close q" using assms by (simp add: tag_free_def free_of_contains)
  moreover have "trim (nl # q @ [nl]) = trim q"
    using trim_surround [of "[nl]" "[nl]" q] by (simp add: is_whitespace_def)
  moreover have "take (length q + 2) (nl # q @ nl # query_close) = nl # q @ [nl]" by simp
  ultimately show ?thesis using strip op rest assms
    by (simp add: extract_user_query_def find_close Let_def del: find_str.simps)
qed

section \<open>Lemmas on the compacted history\<close>

definition plain_item :: "conversation_item \<Rightarrow> bool" where
  "plain_item i \<longleftrightarrow> \<not> is_result_item i \<and> \<not> item_has_tool_requests i"

lemma plain_user [simp]:
  "plain_item (synthetic_user r t)" "plain_item (IUser u)"
  by (simp_all add: plain_item_def synthetic_user_def)

lemma plain_agent_message: "is_agent_message i \<Longrightarrow> plain_item i"
  by (cases i) (auto simp: plain_item_def)

lemma plain_system: "is_system_item i \<Longrightarrow> plain_item i"
  by (cases i) (auto simp: plain_item_def)

lemma paired_plain: "plain_item x \<Longrightarrow> paired (x # xs) \<longleftrightarrow> paired xs"
  by (simp add: plain_item_def)

lemma paired_plains: "list_all plain_item xs \<Longrightarrow> paired (xs @ ys) \<longleftrightarrow> paired ys"
  by (induction xs) (auto simp: paired_plain simp del: paired.simps)

lemma paired_hd: "paired (x # xs) \<Longrightarrow> \<not> is_result_item x"
  by (auto split: if_splits)

lemma paired_no_run: "paired xs \<Longrightarrow> takeWhile is_result_item xs = [] \<and> dropWhile is_result_item xs = xs"
  by (cases xs) (auto dest!: paired_hd simp del: paired.simps)

lemma paired_calls_append:
  assumes "item_has_tool_requests x" "list_all is_result_item run" "paired rest"
  shows "paired (x # run @ rest) \<longleftrightarrow> distinct (map result_id run) \<and>
    set (map result_id run) = set (map (Some \<circ> call_id) (item_calls x))"
proof -
  have "takeWhile is_result_item (run @ rest) = run" "dropWhile is_result_item (run @ rest) = rest"
    using assms(2) paired_no_run [OF assms(3)] by (auto simp: list_all_iff takeWhile_append2 dropWhile_append2)
  then show ?thesis using assms(1,3) by (simp only: paired.simps Let_def if_True simp_thms)
qed

lemma paired_append_plains: "paired xs \<Longrightarrow> list_all plain_item ys \<Longrightarrow> paired (xs @ ys)"
proof (induction xs rule: run_induct)
  case Nil
  then show ?case using paired_plains [of ys "[]"] by simp
next
  case (calls x xs)
  let ?run = "takeWhile is_result_item xs" and ?rest = "dropWhile is_result_item xs"
  have rest: "paired ?rest" using calls.prems(1) calls.hyps by (simp add: Let_def)
  have "paired (x # ?run @ ?rest)" using calls.prems(1) by simp
  then have "paired (x # ?run @ ?rest @ ys)"
    using calls.IH [OF rest calls.prems(2)] rest
    by (simp only: paired_calls_append [OF calls.hyps run_results])
  moreover have "?run @ ?rest @ ys = xs @ ys" by (metis append_assoc takeWhile_dropWhile_id)
  ultimately show ?case by (simp only: append_Cons)
qed (auto split: if_splits)

lemma keep_since_result:
  "is_result_item i \<Longrightarrow> \<exists>j. keep_since_anchor i = Some j \<and> is_result_item j \<and> result_id j = result_id i"
  by (cases i) (auto simp: omitted_result_def tool_result_def)

lemma keep_since_calls: "item_has_tool_requests i \<Longrightarrow> keep_since_anchor i = Some i"
  by (cases i) auto

lemma keep_since_other:
  "\<not> item_has_tool_requests i \<Longrightarrow> \<not> is_result_item i \<Longrightarrow> keep_since_anchor i = Some j \<Longrightarrow>
     plain_item j \<and> \<not> is_real_user_turn j"
  by (cases i) (auto simp: plain_item_def is_human_def split: if_splits)

lemma keep_since_run:
  "list_all is_result_item run \<Longrightarrow>
     list_all is_result_item (List.map_filter keep_since_anchor run) \<and>
     map result_id (List.map_filter keep_since_anchor run) = map result_id run"
proof (induction run)
  case (Cons r run)
  then show ?case using keep_since_result [of r] by (auto simp: map_filter_simps)
qed (simp add: map_filter_simps)

lemma paired_keep_since: "paired c \<Longrightarrow> paired (List.map_filter keep_since_anchor c)"
proof (induction c rule: run_induct)
  case (calls x xs)
  let ?run = "takeWhile is_result_item xs" and ?rest = "dropWhile is_result_item xs"
  have rest: "paired ?rest" using calls.prems calls.hyps by (simp add: Let_def)
  have "paired (x # ?run @ ?rest)" using calls.prems by simp
  then have "paired (x # List.map_filter keep_since_anchor ?run @ List.map_filter keep_since_anchor ?rest)"
    using keep_since_run [OF run_results, of xs] calls.IH [OF rest] rest
    by (simp only: paired_calls_append [OF calls.hyps] run_results set_map [symmetric])
  moreover have "List.map_filter keep_since_anchor (x # ?run @ ?rest) =
      x # List.map_filter keep_since_anchor ?run @ List.map_filter keep_since_anchor ?rest"
    by (simp only: map_filter_simps keep_since_calls [OF calls.hyps] map_filter_append option.case)
  ultimately show ?case by simp
next
  case (other x xs)
  have x: "\<not> is_result_item x" using paired_hd [OF other.prems] .
  have xs: "paired xs" using other.prems other.hyps by (simp split: if_splits)
  show ?case
  proof (cases "keep_since_anchor x")
    case (Some j)
    then have "plain_item j" using keep_since_other [OF other.hyps x] by blast
    then show ?thesis using other.IH [OF xs] Some
      by (simp add: map_filter_simps paired_plain del: paired.simps)
  qed (simp add: map_filter_simps other.IH [OF xs])
qed (simp add: map_filter_simps)

lemma rposition_Some: "rposition P xs = Some i \<Longrightarrow> i < length xs \<and> P (xs ! i)"
  by (induction xs arbitrary: i) (fastforce split: option.splits if_splits)+

lemma paired_since_anchor:
  assumes "paired c"
  shows "paired (extract_messages_since_last_compaction_anchor c)"
proof (cases "rposition (\<lambda>i. is_real_user_turn i \<or> is_agent_message i) c")
  case None
  then show ?thesis using paired_keep_since [OF assms]
    by (simp add: extract_messages_since_last_compaction_anchor_def)
next
  case (Some i)
  then have i: "i < length c" "is_real_user_turn (c ! i) \<or> is_agent_message (c ! i)"
    using rposition_Some [OF Some] by auto
  then obtain u where u: "c ! i = IUser u" by (cases "c ! i") auto
  have d: "paired (drop i c)" using paired_drop [OF assms i(1)] u by simp
  then have "paired (IUser u # drop (Suc i) c)" using i(1) u by (metis Cons_nth_drop_Suc)
  then have "paired (drop (Suc i) c)" by simp
  then show ?thesis using d Some i(1) paired_keep_since
    by (auto simp: extract_messages_since_last_compaction_anchor_def Let_def)
qed

lemma since_anchor_not_real:
  "list_all (\<lambda>i. \<not> is_real_user_turn i) (extract_messages_since_last_compaction_anchor c)"
proof -
  have "\<not> is_real_user_turn j" if "keep_since_anchor i = Some j" for i j
    using that by (cases i) (auto simp: is_human_def omitted_result_def tool_result_def split: if_splits)
  then show ?thesis
    by (fastforce simp: extract_messages_since_last_compaction_anchor_def Let_def list_all_iff map_filter_def)
qed

lemma latest_agent_message: "extract_latest_agent_message c = Some a \<Longrightarrow> is_agent_message (anchor_item a)"
  using rposition_Some [of is_agent_message c]
  by (auto simp: extract_latest_agent_message_def vec_get_def split: option.splits if_splits)

lemma agent_message_not_real: "is_agent_message i \<Longrightarrow> \<not> is_real_user_turn i"
  by (cases i) (auto simp: is_human_def)

lemma synthetic_not_real: "r \<noteq> Human \<Longrightarrow> \<not> is_real_user_turn (synthetic_user r t)"
  by (simp add: synthetic_user_def is_human_def)

lemma wrapped_text: "text_content (user (wrap_user_query q)) = wrap_user_query q"
  by (simp add: user_def synthetic_user_def map_filter_simps)

lemma wrapped_real:
  "is_real_user_turn (user (wrap_user_query q)) \<longleftrightarrow>
     \<not> is_synthetic_extracted_query (extract_user_query (wrap_user_query q))"
  using wrapped_text [of q] by (simp add: user_def synthetic_user_def is_human_def del: text_content.simps)

lemma extracted_trimmed: "trim (extract_user_query t) = extract_user_query t"
  by (auto simp: extract_user_query_def strip_system_tags_def Let_def split: option.splits)

lemma find_last: "list_all (\<lambda>x. \<not> P x) post \<Longrightarrow> P x \<Longrightarrow> find P (rev (pre @ x # post)) = Some x"
proof -
  assume a: "list_all (\<lambda>x. \<not> P x) post" "P x"
  have "find P (rev post @ ys) = find P ys" for ys
    using a(1) by (induction post arbitrary: ys) auto
  then show ?thesis using a(2) by simp
qed

text \<open>The query stands between items that are no turns of the user.\<close>

lemma compacted_parts:
  fixes c :: conv and inputs :: "'x compaction_inputs" and inp :: "'x compacted_history_input"
  assumes "paired c" "is_system_item (system_message inp)"
    "state_context inp = build_context c inputs \<or> state_context inp = for_compaction (build_context c inputs)"
  shows "\<exists>pre mid post. build_compacted_history inp =
       pre @ map (user \<circ> wrap_user_query) (opt_list (last_user_query (state_context inp))) @
       mid @ recent_messages (state_context inp) @ post \<and>
     list_all plain_item pre \<and> list_all plain_item mid \<and> list_all plain_item post \<and>
     list_all (\<lambda>i. \<not> is_real_user_turn i) (pre @ mid @ post)"
proof -
  let ?ctx = "state_context inp"
  have anchor: "is_agent_message (anchor_item a)" if "agent_anchor ?ctx = Some a" for a
    using assms(3) that latest_agent_message
    by (auto simp: build_context_def for_compaction_def split: option.splits)
  let ?anchor = "if list_ex is_agent_message (recent_messages ?ctx) then None else agent_anchor ?ctx"
  let ?instr = "if ctx_cwd_generation ?ctx = 0 then agents_md_reminder inp else ctx_project_instructions ?ctx"
  define pre where "pre = [system_message inp, user_meta (user_message_prefix inp)]
       @ map project_instructions (opt_list ?instr)
       @ (case ?anchor of Some a \<Rightarrow> if anchor_position a = BeforeHuman then [anchor_item a] else [] | None \<Rightarrow> [])"
  define mid where "mid = (case ?anchor of Some a \<Rightarrow> if anchor_position a \<noteq> BeforeHuman then [anchor_item a] else [] | None \<Rightarrow> [])"
  define post where "post = user_meta (format_compact_summary_content (compaction_summary inp) @
          (case transcript_hint inp of Some h \<Rightarrow> h | None \<Rightarrow> [])) # map system_reminder (opt_list (reminder_block inp))"
  have an: "is_agent_message (anchor_item a)" if "?anchor = Some a" for a
    using that anchor by (auto split: if_splits)
  have meta: "plain_item (user_meta t)" "\<not> is_real_user_turn (user_meta t)"
    "plain_item (project_instructions t)" "\<not> is_real_user_turn (project_instructions t)"
    "plain_item (system_reminder t)" "\<not> is_real_user_turn (system_reminder t)" for t
    by (simp_all add: user_meta_def project_instructions_def system_reminder_def synthetic_not_real)
  have sys: "plain_item (system_message inp)" "\<not> is_real_user_turn (system_message inp)"
    using assms(2) plain_system by (cases "system_message inp"; simp)+
  have mids: "list_all plain_item mid \<and> list_all (\<lambda>i. \<not> is_real_user_turn i) mid"
    unfolding mid_def using an plain_agent_message agent_message_not_real by (cases ?anchor) (auto split: if_splits)
  have pres: "list_all plain_item pre \<and> list_all (\<lambda>i. \<not> is_real_user_turn i) pre"
    unfolding pre_def using an plain_agent_message agent_message_not_real sys meta
    by (cases ?anchor) (auto simp: list_all_iff split: if_splits)
  have posts: "list_all plain_item post \<and> list_all (\<lambda>i. \<not> is_real_user_turn i) post"
    unfolding post_def using meta by (auto simp: list_all_iff)
  have "build_compacted_history inp = pre @ map (user \<circ> wrap_user_query) (opt_list (last_user_query ?ctx)) @
     mid @ recent_messages ?ctx @ post"
    unfolding build_compacted_history_def Let_def pre_def mid_def post_def by simp
  then show ?thesis using mids pres posts by (intro exI [of _ pre] exI [of _ mid] exI [of _ post]) auto
qed

lemma compacted_recent:
  assumes "paired c"
    "state_context inp = build_context c inputs \<or> state_context inp = for_compaction (build_context c inputs)"
  shows "paired (recent_messages (state_context inp))"
    "list_all (\<lambda>i. \<not> is_real_user_turn i) (recent_messages (state_context inp))"
  using assms(2) paired_since_anchor [OF assms(1)] since_anchor_not_real [of c]
  by (auto simp: build_context_def for_compaction_def)

lemma compacted_paired:
  fixes c :: conv and inputs :: "'x compaction_inputs" and inp :: "'x compacted_history_input"
  assumes "paired c" "is_system_item (system_message inp)"
    "state_context inp = build_context c inputs \<or> state_context inp = for_compaction (build_context c inputs)"
  shows "paired (build_compacted_history inp)"
proof -
  let ?ctx = "state_context inp"
  note recent = compacted_recent [OF assms(1,3)]
  obtain pre mid post where parts:
    "build_compacted_history inp = pre @ map (user \<circ> wrap_user_query) (opt_list (last_user_query ?ctx)) @
       mid @ recent_messages ?ctx @ post"
    "list_all plain_item pre" "list_all plain_item mid" "list_all plain_item post"
    "list_all (\<lambda>i. \<not> is_real_user_turn i) (pre @ mid @ post)"
    using compacted_parts [OF assms] by blast
  have "list_all plain_item (map (user \<circ> wrap_user_query) (opt_list (last_user_query ?ctx)))"
    by (simp add: list_all_iff user_def)
  then show ?thesis
    unfolding parts(1) using parts(2-4) paired_append_plains [OF recent(1) parts(4)] by (simp add: paired_plains)
qed

lemma compacted_query:
  fixes c :: conv and inputs :: "'x compaction_inputs" and inp :: "'x compacted_history_input"
  assumes "paired c" "is_system_item (system_message inp)"
    "state_context inp = build_context c inputs \<or> state_context inp = for_compaction (build_context c inputs)"
  shows "extract_last_real_user_query (build_compacted_history inp) =
    (case last_user_query (state_context inp) of
       None \<Rightarrow> None
     | Some q \<Rightarrow>
         if is_synthetic_extracted_query (extract_user_query (wrap_user_query q)) then None
         else Some (extract_user_query (wrap_user_query q)))"
proof -
  let ?ctx = "state_context inp"
  note recent = compacted_recent [OF assms(1,3)]
  obtain pre mid post where parts:
    "build_compacted_history inp = pre @ map (user \<circ> wrap_user_query) (opt_list (last_user_query ?ctx)) @
       mid @ recent_messages ?ctx @ post"
    "list_all plain_item pre" "list_all plain_item mid" "list_all plain_item post"
    "list_all (\<lambda>i. \<not> is_real_user_turn i) (pre @ mid @ post)"
    using compacted_parts [OF assms] by blast
  have "extract_last_real_user_query (build_compacted_history inp) =
      (if is_synthetic_extracted_query (extract_user_query (wrap_user_query q)) then None
       else Some (extract_user_query (wrap_user_query q)))" if q: "last_user_query ?ctx = Some q" for q
  proof -
    have rest: "list_all (\<lambda>i. \<not> is_real_user_turn i) (mid @ recent_messages ?ctx @ post)"
      using parts(5) recent(2) by simp
    have eq: "build_compacted_history inp = pre @ user (wrap_user_query q) # (mid @ recent_messages ?ctx @ post)"
      by (simp add: parts(1) q opt_list_def)
    show ?thesis
    proof (cases "is_real_user_turn (user (wrap_user_query q))")
      case True
      from find_last [where P = is_real_user_turn, OF rest this, of pre] show ?thesis
        using True by (simp add: extract_last_real_user_query_def eq wrapped_text wrapped_real del: text_content.simps)
    next
      case False
      then have "find is_real_user_turn (rev (build_compacted_history inp)) = None"
        using rest parts(5) unfolding eq find_None_iff by (auto simp: list_all_iff)
      then show ?thesis using False by (simp add: extract_last_real_user_query_def wrapped_real)
    qed
  qed
  moreover have "extract_last_real_user_query (build_compacted_history inp) = None" if "last_user_query ?ctx = None"
    using that parts(5) recent(2)
    by (auto simp: extract_last_real_user_query_def parts(1) opt_list_def find_None_iff list_all_iff)
  ultimately show ?thesis by (cases "last_user_query ?ctx") simp_all
qed

section \<open>Properties\<close>

text \<open>C36.
  Fitting a verbatim conversation into a budget never breaks the pairing of calls and results, not
  even where the last turn is cut. A conversation that fits is unchanged. Otherwise the system
  prompt stays in front, and behind it either the longest suffix that fits in what the prompt
  leaves, moved past results whose call was dropped, or the truncated last unit.
\<close>

theorem fit_conversation_correct:
  fixes c :: conv and max_tokens :: nat
  defines "r \<equiv> fit_conversation_to_budget c max_tokens"
    and "head \<equiv> takeWhile is_system_item (take 1 c)"
  shows "(paired c \<longrightarrow> paired r) \<and>
    (estimate_conversation_tokens c \<le> max_tokens \<longrightarrow> r = c) \<and>
    (max_tokens < estimate_conversation_tokens c \<longrightarrow>
      (let body = drop (length head) c; budget = max_tokens - estimate_conversation_tokens head
       in \<exists>s \<le> length body. estimate_conversation_tokens (drop s body) \<le> budget \<and>
          (\<forall>j < s. budget < estimate_conversation_tokens (drop j body)) \<and>
          r = head @ (if run_end body s < length body then drop (run_end body s) body
                      else recover_truncated_tail_unit body budget) \<and>
          (run_end body s < length body \<longrightarrow> estimate_conversation_tokens head \<le> max_tokens \<longrightarrow>
             estimate_conversation_tokens r \<le> max_tokens)))"
proof -
  have "(\<lambda>h. h = (case c of x # _ \<Rightarrow> if is_system_item x then [x] else [] | [] \<Rightarrow> [])) head"
    unfolding head_def by (cases c) auto
  then have head: "head = (case c of x # _ \<Rightarrow> if is_system_item x then [x] else [] | [] \<Rightarrow> [])" .
  define body where "body = drop (length head) c"
  define budget where "budget = max_tokens - estimate_conversation_tokens head"
  define s where "s = fit_start_loop body (length body) budget (length body)"
  have r: "r = (if estimate_conversation_tokens c \<le> max_tokens then c
      else head @ (if run_end body s < length body then drop (run_end body s) body
                   else recover_truncated_tail_unit body budget))"
    unfolding r_def fit_conversation_to_budget_def head [symmetric] body_def [symmetric]
      budget_def [symmetric] s_def [symmetric] Let_def by (simp split: if_splits)
  have s: "s \<le> length body \<and> estimate_conversation_tokens (drop s body) \<le> budget \<and>
      (\<forall>j < s. budget < estimate_conversation_tokens (drop j body))"
    unfolding s_def by (rule fit_start_loop_spec) simp_all
  have "drop s body = take (run_end body s - s) (drop s body) @ drop (run_end body s) body"
    using run_end_ge [of s body] append_take_drop_id [of "run_end body s - s" "drop s body"] by simp
  then have "estimate_conversation_tokens (drop (run_end body s) body) \<le> estimate_conversation_tokens (drop s body)"
    by (metis estimate_conversation_simps(3) le_add2)
  then have "estimate_conversation_tokens (head @ drop (run_end body s) body) \<le> max_tokens"
    if "estimate_conversation_tokens head \<le> max_tokens"
    using conjunct1 [OF conjunct2 [OF s]] that unfolding budget_def estimate_conversation_simps by linarith
  then show ?thesis
    using fit_paired [of c max_tokens] r s
    unfolding r_def [symmetric] body_def [symmetric] budget_def [symmetric] Let_def
    by (auto intro!: exI [of _ s])
qed

theorem fit_conversation_correct_witness:
  "paired [system (lit ''you''), assistant_tool_calls [sample_call ''a''], tool_result (lit ''a'') (lit ''long answer''),
       user (lit ''next''), assistant (lit ''done'')] \<and>
   fit_conversation_to_budget
     [system (lit ''you''), assistant_tool_calls [sample_call ''a''], tool_result (lit ''a'') (lit ''long answer''),
       user (lit ''next''), assistant (lit ''done'')] 3 =
     [system (lit ''you''), user (lit ''next''), assistant (lit ''done'')] \<and>
   paired (fit_conversation_to_budget
     [system (lit ''you''), assistant_tool_calls [sample_call ''a''], tool_result (lit ''a'') (lit ''long answer''),
       user (lit ''next''), assistant (lit ''done'')] 3)"
proof -
  let ?c = "[system (lit ''you''), assistant_tool_calls [sample_call ''a''], tool_result (lit ''a'') (lit ''long answer''),
       user (lit ''next''), assistant (lit ''done'')]"
  have p: "paired ?c" by code_simp
  have f: "fit_conversation_to_budget ?c 3 = [system (lit ''you''), user (lit ''next''), assistant (lit ''done'')]"
    by code_simp
  show ?thesis using fit_conversation_correct [of ?c 3] p f by blast
qed

text \<open>C37.
  A compaction keeps the history acceptable. From a paired conversation the compacted history is
  paired and valid, with or without the recent messages. What is found again of the last query of the
  user, or of the goal that overrides it, by the same extraction, is what the extraction reads out of
  the wrapped text: nothing when that is empty or one of the two continuation sentinels, as it is for
  a prompt that held only images, and otherwise that text. For a text with no closing query tag and
  no opening tag of a metadata block it is the text itself, trimmed, as a query taken from a
  conversation always is; such a query survives every further compaction. When there is no query,
  none is invented.
\<close>

theorem compacted_history_correct:
  fixes c :: conv and inputs :: "'x compaction_inputs" and inp :: "'x compacted_history_input"
  assumes "paired c" "is_system_item (system_message inp)"
    "state_context inp = build_context c inputs \<or> state_context inp = for_compaction (build_context c inputs)"
  shows "paired (build_compacted_history inp) \<and>
    validate_compacted_history (build_compacted_history inp) = [] \<and>
    (\<forall>q. last_user_query (state_context inp) = Some q \<longrightarrow>
       (let found = extract_user_query (wrap_user_query q)
        in extract_last_real_user_query (build_compacted_history inp) =
             (if is_synthetic_extracted_query found then None else Some found) \<and>
           (tag_free q \<longrightarrow> found = trim q))) \<and>
    (\<forall>q. extract_last_real_user_query c = Some q \<longrightarrow> trim q = q) \<and>
    (last_user_query (state_context inp) = None \<longrightarrow>
       extract_last_real_user_query (build_compacted_history inp) = None)"
proof -
  have "trim q = q" if "extract_last_real_user_query c = Some q" for q
    using that extracted_trimmed by (auto simp: extract_last_real_user_query_def)
  then show ?thesis
    using paired_validate [OF compacted_paired [OF assms]] compacted_paired [OF assms] extract_wrapped
    unfolding Let_def by (simp add: validate_compacted_history_def compacted_query [OF assms])
qed

definition sample_chat :: conv where
  "sample_chat =
     [system (lit ''you''), user (wrap_user_query (lit ''fix it'')), assistant_tool_calls [sample_call ''a''],
      tool_result (lit ''a'') (lit ''ok''), auto_continue (lit ''go on''), assistant (lit ''done'')]"

definition sample_compaction :: "unit compacted_history_input" where
  "sample_compaction =
     \<lparr>system_message = system (lit ''you''), user_message_prefix = lit ''info'', agents_md_reminder = None,
      state_context = build_context sample_chat
        \<lparr>in_cwd_generation = 0, in_project_instructions = None, in_goal_objective = None, in_session = ()\<rparr>,
      compaction_summary = lit ''did things'', reminder_block = None, transcript_hint = None\<rparr>"

theorem compacted_history_correct_witness:
  "paired sample_chat \<and> paired (build_compacted_history sample_compaction) \<and>
   extract_last_real_user_query (build_compacted_history sample_compaction) = Some (lit ''fix it'')"
proof -
  let ?inputs = "\<lparr>in_cwd_generation = 0, in_project_instructions = None, in_goal_objective = None, in_session = ()\<rparr>"
  have p: "paired sample_chat" by code_simp
  have sys: "is_system_item (system_message sample_compaction)"
    by (simp add: sample_compaction_def system_def)
  have ctx: "state_context sample_compaction = build_context sample_chat ?inputs"
    by (simp add: sample_compaction_def)
  have free: "tag_free (lit ''fix it'')" by code_simp
  have found: "extract_user_query (wrap_user_query (lit ''fix it'')) = lit ''fix it''"
    unfolding extract_wrapped [OF free] by (simp add: trim_id is_whitespace_def)
  then have real: "is_real_user_turn (user (wrap_user_query (lit ''fix it'')))"
    unfolding wrapped_real found by code_simp
  have post: "list_all (\<lambda>i. \<not> is_real_user_turn i)
      [assistant_tool_calls [sample_call ''a''], tool_result (lit ''a'') (lit ''ok''),
       auto_continue (lit ''go on''), assistant (lit ''done'')]"
    by (simp add: assistant_tool_calls_def tool_result_def auto_continue_def synthetic_not_real assistant_def
        del: lit_simps)
  have "extract_last_real_user_query sample_chat = Some (lit ''fix it'')"
  proof -
    let ?q = "user (wrap_user_query (lit ''fix it''))"
    have "find is_real_user_turn (rev ([system (lit ''you'')] @ ?q #
        [assistant_tool_calls [sample_call ''a''], tool_result (lit ''a'') (lit ''ok''),
         auto_continue (lit ''go on''), assistant (lit ''done'')])) = Some ?q"
      by (rule find_last [where P = is_real_user_turn, OF post real])
    then show ?thesis
      unfolding extract_last_real_user_query_def sample_chat_def append.simps
      by (simp only: option.map comp_def wrapped_text found)
  qed
  then have q: "last_user_query (state_context sample_compaction) = Some (lit ''fix it'')"
    unfolding ctx by (simp add: build_context_def)
  have "\<not> is_synthetic_extracted_query (lit ''fix it'')" by code_simp
  then show ?thesis
    using compacted_history_correct [OF p sys disjI1 [OF ctx]] p q found unfolding Let_def by simp
qed

text \<open>
  A prompt of images alone counts as a turn of the user, so that it anchors the boundary of a
  compaction, with the empty query. Behind the compaction that turn is an empty query tag, which
  does not count: the boundary it anchored is gone, and an older query is not put in its place.
\<close>

theorem image_only_query_lost:
  fixes inputs :: "'x compaction_inputs" and inp :: "'x compacted_history_input"
    and p older answer url :: rstring
  defines "c \<equiv> [system p, user older, assistant answer, user_with_parts [Image url]]"
  assumes "is_system_item (system_message inp)" "in_goal_objective inputs = None"
    "state_context inp = build_context c inputs"
  shows "is_real_user_turn (user_with_parts [Image url]) \<and> last_user_query (state_context inp) = Some [] \<and>
    extract_last_real_user_query (build_compacted_history inp) = None"
proof -
  have empty: "extract_user_query [] = []"
    by (simp add: extract_user_query_def strip_system_tags_id free_of_def occurs_Nil list_all_iff query_open_def)
  have real: "is_real_user_turn (user_with_parts [Image url])" "text_content (user_with_parts [Image url]) = []"
    by (simp_all add: user_with_parts_def is_human_def map_filter_simps)
  then have last: "extract_last_real_user_query c = Some []"
    by (simp add: c_def extract_last_real_user_query_def empty)
  have "paired c" by (simp add: c_def system_def user_def assistant_def user_with_parts_def synthetic_user_def)
  from compacted_query [OF this assms(2) disjI1 [OF assms(4)]] show ?thesis
    using last real assms(3) extract_wrapped [of "[]"]
    by (simp add: assms(4) build_context_def is_synthetic_extracted_query_def tag_free_def contains_str_iff
        occurs_Nil query_close_def list_all_iff)
qed

end
