(* ===== verification/Request_Prune.thy ===== *)
theory Request_Prune
  imports Chat_Prep
begin

text \<open>
  The parts of a model request that rewrite old tool results and the system prompt
  (\<open>xai-chat-state/src/actor/request_builder.rs\<close>, \<open>conversation_util.rs\<close> and the loop of
  \<open>prune_retained_conversation\<close> in \<open>actor/mutations.rs\<close>). A slice \<open>iter_mut().rev()\<close> is walked
  on the reversed list.
\<close>

definition HARD_CLEAR_PLACEHOLDER :: rstring where
  "HARD_CLEAR_PLACEHOLDER = lit ''[Tool result omitted '' @ [8212] @ lit '' too old]''"

definition SOFT_TRIM_SEPARATOR :: rstring where
  "SOFT_TRIM_SEPARATOR = [nl, nl] @ lit ''['' @ [8230] @ lit ''trimmed'' @ [8230] @ lit '']'' @ [nl, nl]"

record pruning_config =
  prune_enabled :: bool
  keep_last_n_turns :: nat
  soft_trim_threshold :: nat
  soft_trim_head :: nat
  soft_trim_tail :: nat
  hard_clear_age_turns :: nat

definition default_pruning :: pruning_config where
  "default_pruning =
     \<lparr>prune_enabled = True, keep_last_n_turns = 3, soft_trim_threshold = 4000, soft_trim_head = 1500,
      soft_trim_tail = 1500, hard_clear_age_turns = 10\<rparr>"

definition safe_char_slice :: "rstring \<Rightarrow> nat \<Rightarrow> nat \<Rightarrow> rstring" where
  "safe_char_slice s start cnt = take cnt (drop start s)"

definition safe_char_slice_tail :: "rstring \<Rightarrow> nat \<Rightarrow> rstring" where
  "safe_char_slice_tail s cnt = (if length s \<le> cnt then s else drop (length s - cnt) s)"

definition should_prune :: "u64 \<Rightarrow> u64 \<Rightarrow> bool" where
  "should_prune tokens context_window \<longleftrightarrow> context_window div 2 < tokens"

text \<open>
  Both loops walk from the newest item: the age of a turn is the number of user items seen, the
  newest not counted. \<open>f\<close> is the body for a tool result and says whether it changed it.
\<close>

fun age_walk :: "(nat \<Rightarrow> tool_result_item \<Rightarrow> tool_result_item \<times> bool) \<Rightarrow> nat \<Rightarrow> bool \<Rightarrow> conv \<Rightarrow> conv \<times> nat" where
  "age_walk f age seen [] = ([], 0)"
| "age_walk f age seen (IUser u # xs) =
     (let (ys, n) = age_walk f (if seen then age + 1 else age) True xs in (IUser u # ys, n))"
| "age_walk f age seen (IToolResult t # xs) =
     (let (t', changed) = f age t; (ys, n) = age_walk f age seen xs
      in (IToolResult t' # ys, if changed then n + 1 else n))"
| "age_walk f age seen (x # xs) = (let (ys, n) = age_walk f age seen xs in (x # ys, n))"

definition hard_clear :: "tool_result_item \<Rightarrow> tool_result_item \<times> bool" where
  "hard_clear t =
     (if result_content t \<noteq> HARD_CLEAR_PLACEHOLDER
      then (t\<lparr>result_content := HARD_CLEAR_PLACEHOLDER\<rparr>, True) else (t, False))"

definition soft_trim :: "pruning_config \<Rightarrow> tool_result_item \<Rightarrow> tool_result_item \<times> bool" where
  "soft_trim cfg t =
     (if soft_trim_threshold cfg < length (result_content t)
      then (t\<lparr>result_content := safe_char_slice (result_content t) 0 (soft_trim_head cfg) @
                SOFT_TRIM_SEPARATOR @ safe_char_slice_tail (result_content t) (soft_trim_tail cfg)\<rparr>, True)
      else (t, False))"

definition prune_result :: "pruning_config \<Rightarrow> nat \<Rightarrow> tool_result_item \<Rightarrow> tool_result_item \<times> bool" where
  "prune_result cfg age t =
     (if age < keep_last_n_turns cfg then (t, False)
      else if hard_clear_age_turns cfg \<le> age then hard_clear t
      else soft_trim cfg t)"

definition prune_conversation :: "conv \<Rightarrow> pruning_config \<Rightarrow> conv" where
  "prune_conversation c cfg =
     (if \<not> prune_enabled cfg then c else rev (fst (age_walk (prune_result cfg) 0 False (rev c))))"

definition clear_result :: "nat \<Rightarrow> nat \<Rightarrow> tool_result_item \<Rightarrow> tool_result_item \<times> bool" where
  "clear_result threshold age t = (if age < threshold then (t, False) else hard_clear t)"

definition clear_old_results :: "nat \<Rightarrow> conv \<Rightarrow> conv \<times> nat" where
  "clear_old_results threshold c =
     (let (ys, n) = age_walk (clear_result threshold) 0 False (rev c) in (rev ys, n))"

section \<open>The system prompt\<close>

definition trim_end_nl :: "rstring \<Rightarrow> rstring" where
  "trim_end_nl s = rev (dropWhile (\<lambda>c. c = nl) (rev s))"

definition trim_end_nlcr :: "rstring \<Rightarrow> rstring" where
  "trim_end_nlcr s = rev (dropWhile (\<lambda>c. c = nl \<or> c = cr) (rev s))"

definition canonical_system_prompt_eq :: "rstring \<Rightarrow> rstring \<Rightarrow> bool" where
  "canonical_system_prompt_eq a b \<longleftrightarrow> trim_end_nlcr a = trim_end_nlcr b"

fun replace_or_insert_system_head :: "conv \<Rightarrow> rstring \<Rightarrow> conv \<times> bool" where
  "replace_or_insert_system_head (ISystem s # xs) prompt =
     (if canonical_system_prompt_eq (sys_content s) prompt then (ISystem s # xs, False)
      else (ISystem (s\<lparr>sys_content := prompt\<rparr>) # xs, True))"
| "replace_or_insert_system_head xs prompt = (system prompt # xs, True)"

definition MEMORY_CONTEXT_OPEN_TAG :: rstring where
  "MEMORY_CONTEXT_OPEN_TAG = lit ''<memory-context>''"

definition upsert_memory_reminder_text :: "rstring \<Rightarrow> rstring \<Rightarrow> rstring \<times> bool" where
  "upsert_memory_reminder_text prompt reminder =
     (let updated =
        (case map_option (\<lambda>i. length (trim_end_nl (take i prompt))) (find_str MEMORY_CONTEXT_OPEN_TAG prompt) of
           Some n \<Rightarrow>
             let prefix = trim_end_nl (take n prompt)
             in if prefix = [] then reminder else prefix @ [nl, nl] @ reminder
         | None \<Rightarrow>
             if trim_end prompt = reminder then prompt
             else if prompt = [] then reminder
             else trim_end_nl prompt @ [nl, nl] @ reminder)
      in (updated, prompt \<noteq> updated))"

fun inject_memory_reminder :: "conv \<Rightarrow> rstring \<Rightarrow> conv \<times> bool" where
  "inject_memory_reminder c raw =
     (let reminder = trim raw
      in if reminder = [] then (c, False)
         else case c of
           ISystem s # xs \<Rightarrow>
             let (t, changed) = upsert_memory_reminder_text (sys_content s) reminder
             in (ISystem (s\<lparr>sys_content := t\<rparr>) # xs, changed)
         | _ \<Rightarrow> (system reminder # c, True))"

declare inject_memory_reminder.simps [simp del]

section \<open>The age of a turn\<close>

text \<open>The declarative reading: the age of position \<open>i\<close> is one less than the user items behind it.\<close>

definition turn_age :: "conv \<Rightarrow> nat \<Rightarrow> nat" where
  "turn_age c i = length (filter is_user_item (drop (Suc i) c)) - 1"

fun on_result :: "(tool_result_item \<Rightarrow> tool_result_item \<times> bool) \<Rightarrow> conversation_item \<Rightarrow> conversation_item" where
  "on_result g (IToolResult t) = IToolResult (fst (g t))"
| "on_result g x = x"

fun result_changed :: "(tool_result_item \<Rightarrow> tool_result_item \<times> bool) \<Rightarrow> conversation_item \<Rightarrow> bool" where
  "result_changed g (IToolResult t) = snd (g t)"
| "result_changed g x = False"

definition by_age :: "(nat \<Rightarrow> tool_result_item \<Rightarrow> tool_result_item \<times> bool) \<Rightarrow> conv \<Rightarrow> conv" where
  "by_age f c = map (\<lambda>i. on_result (f (turn_age c i)) (c ! i)) [0..<length c]"

lemma age_walk_length [simp]: "length (fst (age_walk f age seen c)) = length c"
  by (induction f age seen c rule: age_walk.induct) (auto split: prod.splits)

text \<open>The walk with the number of users seen so far as its only state.\<close>

fun seen_walk :: "(nat \<Rightarrow> tool_result_item \<Rightarrow> tool_result_item \<times> bool) \<Rightarrow> nat \<Rightarrow> conv \<Rightarrow> conv" where
  "seen_walk f n [] = []"
| "seen_walk f n (x # xs) = on_result (f (n - 1)) x # seen_walk f (if is_user_item x then n + 1 else n) xs"

lemma age_walk_seen:
  "fst (age_walk f age seen c) = seen_walk f (if seen then age + 1 else 0) c" if "seen \<or> age = 0"
  using that by (induction f age seen c rule: age_walk.induct) (auto split: prod.splits)

lemma seen_walk_append:
  "seen_walk f n (xs @ ys) = seen_walk f n xs @ seen_walk f (n + length (filter is_user_item xs)) ys"
  by (induction xs arbitrary: n) auto

lemma rev_seen_walk: "rev (seen_walk f n (rev c)) =
   map (\<lambda>i. on_result (f (n + length (filter is_user_item (drop (Suc i) c)) - 1)) (c ! i)) [0..<length c]"
proof (induction c)
  case (Cons x c)
  have "[0..<length (x # c)] = 0 # map Suc [0..<length c]"
    by (simp add: upt_conv_Cons map_Suc_upt del: upt_Suc)
  then show ?case
    using Cons by (simp add: seen_walk_append rev_filter [symmetric] comp_def del: upt_Suc)
qed simp

lemma age_walk_by_age: "rev (fst (age_walk f 0 False (rev c))) = by_age f c"
  using rev_seen_walk [of f 0 c] by (simp add: age_walk_seen by_age_def turn_age_def)


section \<open>Rewrites that keep the shape of a history\<close>

text \<open>What the pairing of calls and results looks at.\<close>

definition shape :: "conversation_item \<Rightarrow> (rstring list \<times> rstring option \<times> bool)" where
  "shape x = (map call_id (item_calls x), result_id x, is_user_item x)"

lemma shape_result: "shape x = shape y \<Longrightarrow> is_result_item x = is_result_item y"
  by (cases x; cases y) (auto simp: shape_def)

lemma shape_requests: "shape x = shape y \<Longrightarrow> item_has_tool_requests x = item_has_tool_requests y"
  by (cases x; cases y) (auto simp: shape_def)

lemma shape_takeWhile:
  "map shape c = map shape d \<Longrightarrow>
   map shape (takeWhile is_result_item c) = map shape (takeWhile is_result_item d) \<and>
   map shape (dropWhile is_result_item c) = map shape (dropWhile is_result_item d)"
proof (induction c arbitrary: d)
  case (Cons x c)
  then obtain y d' where d: "d = y # d'" "shape x = shape y" "map shape c = map shape d'"
    by (cases d) auto
  then show ?case using Cons.IH [OF d(3)] shape_result [OF d(2)] by simp
qed simp

lemma shape_ids:
  "map shape c = map shape d \<Longrightarrow> map result_id c = map result_id d"
  by (induction c d rule: list_induct2') (auto simp: shape_def)

lemma paired_shape: "map shape c = map shape d \<Longrightarrow> paired c = paired d"
proof (induction c arbitrary: d rule: paired.induct)
  case (2 x xs)
  then obtain y ys where d: "d = y # ys" "shape x = shape y" "map shape xs = map shape ys"
    by (cases d) auto
  note same = shape_takeWhile [OF d(3)] shape_requests [OF d(2)] shape_result [OF d(2)]
  have calls: "map (Some \<circ> call_id) (item_calls x) = map (Some \<circ> call_id) (item_calls y)"
    using d(2) by (metis (no_types, lifting) fst_conv list.map_comp shape_def)
  show ?case
  proof (cases "item_has_tool_requests x")
    case True
    have "paired (dropWhile is_result_item xs) = paired (dropWhile is_result_item ys)"
      using "2.IH"(1) [OF True refl] same(1) by blast
    moreover have "map result_id (takeWhile is_result_item xs) = map result_id (takeWhile is_result_item ys)"
      using same(1) shape_ids by blast
    ultimately show ?thesis
      using True same(2) calls unfolding d(1) by (simp only: paired.simps Let_def if_True)
  next
    case False
    then show ?thesis using same(2,3) "2.IH"(2) [OF False d(3)] d(1) by simp
  qed
qed simp

definition keeps_id :: "(nat \<Rightarrow> tool_result_item \<Rightarrow> tool_result_item \<times> bool) \<Rightarrow> bool" where
  "keeps_id f \<longleftrightarrow> (\<forall>age t. tool_call_id (fst (f age t)) = tool_call_id t)"

lemma on_result_shape: "keeps_id f \<Longrightarrow> shape (on_result (f age) x) = shape x"
  by (cases x) (auto simp: keeps_id_def shape_def)

lemma by_age_shape: "keeps_id f \<Longrightarrow> map shape (by_age f c) = map shape c"
  by (rule nth_equalityI) (simp_all add: by_age_def on_result_shape)

lemma by_age_length [simp]: "length (by_age f c) = length c"
  by (simp add: by_age_def)

lemma shape_users:
  "map shape c = map shape d \<Longrightarrow> length (filter is_user_item c) = length (filter is_user_item d)"
  by (induction c d rule: list_induct2') (auto simp: shape_def)

lemma turn_age_shape: "map shape c = map shape d \<Longrightarrow> turn_age c i = turn_age d i"
  unfolding turn_age_def by (metis drop_map shape_users)

lemma by_age_idem:
  assumes "keeps_id f" "\<And>age t. fst (f age (fst (f age t))) = fst (f age t)"
  shows "by_age f (by_age f c) = by_age f c"
proof -
  have age: "turn_age (by_age f c) i = turn_age c i" for i
    by (rule turn_age_shape [OF by_age_shape [OF assms(1)]])
  have twice: "on_result (f n) (on_result (f n) x) = on_result (f n) x" for n x
    by (cases x) (simp_all add: assms(2))
  have "by_age f (by_age f c) = map (\<lambda>i. on_result (f (turn_age c i)) (by_age f c ! i)) [0..<length c]"
    by (subst by_age_def) (simp add: age)
  also have "\<dots> = map (\<lambda>i. on_result (f (turn_age c i)) (c ! i)) [0..<length c]"
    by (rule map_cong) (simp_all add: by_age_def twice)
  finally show ?thesis by (simp add: by_age_def)
qed

lemma age_walk_unchanged:
  assumes "\<And>age t. snd (f age t) \<longleftrightarrow> fst (f age t) \<noteq> t"
  shows "snd (age_walk f age seen c) = 0 \<longleftrightarrow> fst (age_walk f age seen c) = c"
  using assms
proof (induction f age seen c rule: age_walk.induct)
  case (3 f age seen t xs)
  then show ?case
    using "3.prems" [of age t] by (cases "f age t"; cases "age_walk f age seen xs") auto
qed (auto split: prod.splits)

lemma hard_clear_facts [simp]:
  "tool_call_id (fst (hard_clear t)) = tool_call_id t"
  "snd (hard_clear t) \<longleftrightarrow> fst (hard_clear t) \<noteq> t"
  "fst (hard_clear (fst (hard_clear t))) = fst (hard_clear t)"
  by (cases t; auto simp: hard_clear_def)+

lemma keeps_id_prune: "keeps_id (prune_result cfg)" and keeps_id_clear: "keeps_id (clear_result n)"
  by (auto simp: keeps_id_def prune_result_def clear_result_def soft_trim_def)

lemma soft_trim_idem:
  "soft_trim_head cfg + soft_trim_tail cfg + 15 \<le> soft_trim_threshold cfg \<Longrightarrow>
   fst (soft_trim cfg (fst (soft_trim cfg t))) = fst (soft_trim cfg t)"
  by (auto simp: soft_trim_def safe_char_slice_def safe_char_slice_tail_def SOFT_TRIM_SEPARATOR_def)

lemma clear_old_results_eq: "fst (clear_old_results n c) = by_age (clear_result n) c"
  by (simp add: clear_old_results_def age_walk_by_age [symmetric] split: prod.splits)

lemma clear_old_results_count: "snd (clear_old_results n c) = 0 \<longleftrightarrow> fst (clear_old_results n c) = c"
  using age_walk_unchanged [of "clear_result n" 0 False "rev c"]
  by (auto simp: clear_old_results_def clear_result_def rev_swap split: prod.splits)

lemma soft_trim_apart:
  "soft_trim cfg t =
     (if soft_trim_threshold cfg < length (result_content t)
      then (t\<lparr>result_content := take (soft_trim_head cfg) (result_content t) @ SOFT_TRIM_SEPARATOR @
                drop (length (result_content t) - soft_trim_tail cfg) (result_content t)\<rparr>, True)
      else (t, False))"
  by (simp add: soft_trim_def safe_char_slice_def safe_char_slice_tail_def)

text \<open>
  A threshold below what head, tail and separator take is accepted: there a result gets longer by
  being trimmed, and a second pass trims it again.
\<close>

lemma soft_trim_grows:
  assumes "soft_trim_threshold cfg < length (result_content t)"
    "length (result_content t) \<le> soft_trim_head cfg" "length (result_content t) \<le> soft_trim_tail cfg"
  shows "result_content (fst (soft_trim cfg t)) = result_content t @ SOFT_TRIM_SEPARATOR @ result_content t \<and>
    snd (soft_trim cfg (fst (soft_trim cfg t)))"
  using assms by (simp add: soft_trim_apart)

text \<open>C38.
  Pruning a request, when it is enabled, touches only old tool results, each by the age of its turn
  alone, the number of user messages behind it with the newest not counted. A result younger than
  \<open>keep_last_n_turns\<close> is sent as it is. Of the others, one whose age has reached
  \<open>hard_clear_age_turns\<close> has its text replaced by the placeholder, and one still younger is sent as it
  is up to the threshold and cut to its head, the separator and its tail above it. Every other item
  keeps its place and content, calls stay paired with results, and disabled pruning changes nothing.
  Only where head, tail and the separator's fifteen characters fit below the threshold, as in the
  default configuration, is it shown that pruning a pruned history changes nothing.
\<close>

theorem prune_conversation_correct:
  "(\<not> prune_enabled cfg \<longrightarrow> prune_conversation c cfg = c) \<and>
   length (prune_conversation c cfg) = length c \<and>
   (\<forall>i < length c. \<not> is_result_item (c ! i) \<longrightarrow> prune_conversation c cfg ! i = c ! i) \<and>
   (\<forall>i < length c. \<forall>t. prune_enabled cfg \<and> c ! i = IToolResult t \<longrightarrow>
      (turn_age c i < keep_last_n_turns cfg \<longrightarrow> prune_conversation c cfg ! i = c ! i) \<and>
      (keep_last_n_turns cfg \<le> turn_age c i \<and> hard_clear_age_turns cfg \<le> turn_age c i \<longrightarrow>
         prune_conversation c cfg ! i = IToolResult (t\<lparr>result_content := HARD_CLEAR_PLACEHOLDER\<rparr>)) \<and>
      (keep_last_n_turns cfg \<le> turn_age c i \<and> turn_age c i < hard_clear_age_turns cfg \<longrightarrow>
         prune_conversation c cfg ! i =
           (if length (result_content t) \<le> soft_trim_threshold cfg then c ! i
            else IToolResult (t\<lparr>result_content := take (soft_trim_head cfg) (result_content t) @
                   SOFT_TRIM_SEPARATOR @
                   drop (length (result_content t) - soft_trim_tail cfg) (result_content t)\<rparr>)))) \<and>
   paired (prune_conversation c cfg) = paired c \<and>
   (soft_trim_head cfg + soft_trim_tail cfg + 15 \<le> soft_trim_threshold cfg \<longrightarrow>
      prune_conversation (prune_conversation c cfg) cfg = prune_conversation c cfg)"
proof -
  have eq: "prune_conversation c cfg = by_age (prune_result cfg) c" if "prune_enabled cfg" for c
    using that by (simp add: prune_conversation_def age_walk_by_age)
  have off: "prune_conversation c cfg = c" if "\<not> prune_enabled cfg" for c
    using that by (simp add: prune_conversation_def)
  have other: "on_result g x = x" if "\<not> is_result_item x" for g x
    using that by (cases x) simp_all
  have nth: "by_age (prune_result cfg) c ! i = on_result (prune_result cfg (turn_age c i)) (c ! i)"
    if "i < length c" for i using that by (simp add: by_age_def)
  have cleared: "fst (hard_clear t) = t\<lparr>result_content := HARD_CLEAR_PLACEHOLDER\<rparr>" for t
    by (cases t) (simp add: hard_clear_def)
  have pairs: "paired (by_age (prune_result cfg) c) = paired c"
    by (rule paired_shape [OF by_age_shape [OF keeps_id_prune]])
  have idem: "by_age (prune_result cfg) (by_age (prune_result cfg) c) = by_age (prune_result cfg) c"
    if "soft_trim_head cfg + soft_trim_tail cfg + 15 \<le> soft_trim_threshold cfg"
    using soft_trim_idem [OF that]
    by (intro by_age_idem keeps_id_prune) (simp add: prune_result_def)
  show ?thesis
    by (cases "prune_enabled cfg")
      (simp_all add: eq off pairs idem nth other prune_result_def cleared soft_trim_apart)
qed

definition long_session :: conv where
  "long_session =
     [user (lit ''u''), assistant_tool_calls [sample_call ''a''], tool_result (lit ''a'') (lit ''xxxxxxxx''),
      user (lit ''v''), assistant (lit ''ok''), user (lit ''w'')]"

definition tight_pruning :: pruning_config where
  "tight_pruning =
     \<lparr>prune_enabled = True, keep_last_n_turns = 1, soft_trim_threshold = 4000, soft_trim_head = 1500,
      soft_trim_tail = 1500, hard_clear_age_turns = 1\<rparr>"

theorem prune_conversation_correct_witness:
  "prune_conversation long_session tight_pruning ! 2 = tool_result (lit ''a'') HARD_CLEAR_PLACEHOLDER \<and>
   paired (prune_conversation long_session tight_pruning) \<and>
   prune_conversation (prune_conversation long_session tight_pruning) tight_pruning =
     prune_conversation long_session tight_pruning \<and>
   prune_conversation long_session tight_pruning ! 4 = long_session ! 4"
proof -
  have p: "paired long_session" by code_simp
  have v: "prune_conversation long_session tight_pruning ! 2 = tool_result (lit ''a'') HARD_CLEAR_PLACEHOLDER"
    by code_simp
  have r: "4 < length long_session" "\<not> is_result_item (long_session ! 4)" by code_simp+
  have fits: "soft_trim_head tight_pruning + soft_trim_tail tight_pruning + 15 \<le> soft_trim_threshold tight_pruning"
    by (simp add: tight_pruning_def)
  have "prune_conversation long_session tight_pruning ! 4 = long_session ! 4"
    using prune_conversation_correct [of tight_pruning long_session] r by blast
  then show ?thesis using prune_conversation_correct [of tight_pruning long_session] p v fits by blast
qed


section \<open>The memory section of the system prompt\<close>

text \<open>What precedes the memory section of a prompt, and a section glued behind it.\<close>

definition before_memory :: "rstring \<Rightarrow> rstring" where
  "before_memory s =
     trim_end_nl (case find_str MEMORY_CONTEXT_OPEN_TAG s of Some i \<Rightarrow> take i s | None \<Rightarrow> s)"

definition glue_memory :: "rstring \<Rightarrow> rstring \<Rightarrow> rstring" where
  "glue_memory p r = (if p = [] then r else p @ [nl, nl] @ r)"

lemma trim_end_nl_prefix: "\<exists>w. s = trim_end_nl s @ w"
proof
  show "s = trim_end_nl s @ rev (takeWhile (\<lambda>c. c = nl) (rev s))"
    unfolding trim_end_nl_def rev_append [symmetric] by simp
qed

lemma trim_end_nl_Nil [simp]: "trim_end_nl [] = []"
  by (simp add: trim_end_nl_def)

lemma trim_end_nl_idem [simp]: "trim_end_nl (trim_end_nl s) = trim_end_nl s"
  by (simp add: trim_end_nl_def)

lemma trim_end_nl_snoc [simp]: "trim_end_nl (s @ [nl, nl]) = trim_end_nl s"
  by (simp add: trim_end_nl_def)

lemma take_trim_end_nl: "take (length (trim_end_nl (take i s))) s = trim_end_nl (take i s)"
proof -
  obtain w where "take i s = trim_end_nl (take i s) @ w" using trim_end_nl_prefix by blast
  then have "s = trim_end_nl (take i s) @ w @ drop i s" by (metis append.assoc append_take_drop_id)
  then show ?thesis by (metis append_eq_conv_conj)
qed

lemma tag_shape: "MEMORY_CONTEXT_OPEN_TAG \<noteq> []" "nl \<notin> set MEMORY_CONTEXT_OPEN_TAG"
  by (simp_all add: MEMORY_CONTEXT_OPEN_TAG_def)

lemma before_memory_no_tag: "find_str MEMORY_CONTEXT_OPEN_TAG (before_memory s) = None"
proof -
  let ?u = "case find_str MEMORY_CONTEXT_OPEN_TAG s of Some i \<Rightarrow> take i s | None \<Rightarrow> s"
  have free: "\<not> occurs MEMORY_CONTEXT_OPEN_TAG ?u j" for j
  proof (cases "find_str MEMORY_CONTEXT_OPEN_TAG s")
    case None
    then have "\<not> occurs MEMORY_CONTEXT_OPEN_TAG s j" unfolding find_str_None by blast
    then show ?thesis by (simp add: None)
  next
    case (Some i)
    show ?thesis
    proof
      assume occ: "occurs MEMORY_CONTEXT_OPEN_TAG ?u j"
      then have "j + length MEMORY_CONTEXT_OPEN_TAG \<le> length (take i s)" using Some occurs_length by fastforce
      then have "j < i" "occurs MEMORY_CONTEXT_OPEN_TAG s j"
        using occ Some tag_shape(1) occurs_append_left [of j MEMORY_CONTEXT_OPEN_TAG "take i s" "drop i s"]
        by (auto simp: Suc_le_eq simp flip: length_greater_0_conv)
      then show False using Some by (simp add: find_str_Some)
    qed
  qed
  obtain w where w: "?u = before_memory s @ w"
    unfolding before_memory_def using trim_end_nl_prefix by blast
  show ?thesis
    unfolding find_str_None
    using free occurs_middle [of MEMORY_CONTEXT_OPEN_TAG "before_memory s" _ "[]" w] w by auto
qed

lemma find_glued:
  assumes "find_str MEMORY_CONTEXT_OPEN_TAG p = None" "starts_with r MEMORY_CONTEXT_OPEN_TAG"
  shows "find_str MEMORY_CONTEXT_OPEN_TAG (glue_memory p r) = Some (if p = [] then 0 else length p + 2)"
proof (cases "p = []")
  case True
  then show ?thesis using assms(2) by (simp add: glue_memory_def find_str_Some occurs_def)
next
  case False
  let ?s = "p @ [nl, nl] @ r"
  have here: "occurs MEMORY_CONTEXT_OPEN_TAG ?s (length p + 2)"
    using assms(2) by (simp add: occurs_def)
  have "\<not> occurs MEMORY_CONTEXT_OPEN_TAG ?s j" if j: "j < length p + 2" for j
  proof
    assume occ: "occurs MEMORY_CONTEXT_OPEN_TAG ?s j"
    show False
    proof (cases "j \<le> length p")
      case True
      then have "starts_with (drop j p @ nl # nl # r) MEMORY_CONTEXT_OPEN_TAG"
        using occ by (simp add: occurs_def)
      then have "starts_with (drop j p) MEMORY_CONTEXT_OPEN_TAG"
        by (rule starts_with_stop) (rule tag_shape)
      then show False using True assms(1) by (auto simp: find_str_None occurs_def)
    next
      case past: False
      then have "j = length p + 1" using j by simp
      then show False using occ by (simp add: occurs_def MEMORY_CONTEXT_OPEN_TAG_def)
    qed
  qed
  then show ?thesis using False here by (simp add: glue_memory_def find_str_Some)
qed

text \<open>A prompt that is not made of line ends alone.\<close>

definition prompt_ok :: "rstring \<Rightarrow> bool" where
  "prompt_ok s \<longleftrightarrow> s = [] \<or> trim_end_nl s \<noteq> []"

lemma upsert_glue:
  assumes "starts_with r MEMORY_CONTEXT_OPEN_TAG" "prompt_ok s"
  shows "upsert_memory_reminder_text s r = (glue_memory (before_memory s) r, s \<noteq> glue_memory (before_memory s) r)"
proof (cases "find_str MEMORY_CONTEXT_OPEN_TAG s")
  case (Some i)
  then show ?thesis
    by (simp add: upsert_memory_reminder_text_def before_memory_def glue_memory_def take_trim_end_nl Let_def)
next
  case None
  obtain w where w: "s = trim_end s @ w"
    using that [of "rev (takeWhile is_whitespace (rev s))"]
    unfolding trim_end_def rev_append [symmetric] by simp
  have "trim_end s \<noteq> r"
  proof
    assume "trim_end s = r"
    then have "starts_with s MEMORY_CONTEXT_OPEN_TAG" using w assms(1) starts_with_appendI by metis
    then show False using None by (auto simp: find_str_None occurs_def)
  qed
  then show ?thesis using None assms(2)
    by (auto simp: upsert_memory_reminder_text_def before_memory_def glue_memory_def prompt_ok_def
        trim_end_nl_def Let_def)
qed

lemma glue_keeps_before:
  assumes "starts_with r MEMORY_CONTEXT_OPEN_TAG" "r \<noteq> []"
  shows "before_memory (glue_memory (before_memory s) r) = before_memory s"
  using find_glued [OF before_memory_no_tag assms(1), of s]
  by (simp add: before_memory_def glue_memory_def)

lemma trim_end_nl_empty: "trim_end_nl s = [] \<longleftrightarrow> set s \<subseteq> {nl}"
  by (auto simp: trim_end_nl_def dropWhile_eq_Nil_conv)

lemma glue_prompt_ok:
  assumes "starts_with r MEMORY_CONTEXT_OPEN_TAG"
  shows "prompt_ok (glue_memory p r)"
proof -
  have "set r \<noteq> {}" "\<not> set r \<subseteq> {nl}"
    using assms by (auto simp: MEMORY_CONTEXT_OPEN_TAG_def)
  then show ?thesis by (auto simp: prompt_ok_def trim_end_nl_empty glue_memory_def)
qed

fun head_prompt :: "conv \<Rightarrow> rstring" where
  "head_prompt (ISystem s # xs) = sys_content s"
| "head_prompt xs = []"

lemma inject_glue:
  assumes "starts_with (trim r) MEMORY_CONTEXT_OPEN_TAG" "prompt_ok (head_prompt c)"
  shows "inject_memory_reminder c r =
    (case c of
       ISystem s # xs \<Rightarrow>
         (ISystem (s\<lparr>sys_content := glue_memory (before_memory (sys_content s)) (trim r)\<rparr>) # xs,
          sys_content s \<noteq> glue_memory (before_memory (sys_content s)) (trim r))
     | _ \<Rightarrow> (system (trim r) # c, True))"
proof -
  have "trim r \<noteq> []" using assms(1) by (auto simp: MEMORY_CONTEXT_OPEN_TAG_def)
  then show ?thesis
    using assms by (cases c rule: head_prompt.cases) (simp_all add: inject_memory_reminder.simps upsert_glue Let_def)
qed

text \<open>Injecting a memory block is an upsert: where both blocks carry the canonical tag, a second block
  replaces the first and nothing else, as if the first had never been injected; injecting the same
  block again reports no change, so that blocks never pile up in the prompt prefix. Everything
  behind the system item, and what the prompt says before the block, is kept. The one exception is
  a prompt made of line ends alone.
\<close>

theorem memory_reminder_upsert:
  assumes "starts_with (trim r) MEMORY_CONTEXT_OPEN_TAG" "starts_with (trim r') MEMORY_CONTEXT_OPEN_TAG"
    "prompt_ok (head_prompt c)"
  shows "fst (inject_memory_reminder (fst (inject_memory_reminder c r)) r') = fst (inject_memory_reminder c r') \<and>
    \<not> snd (inject_memory_reminder (fst (inject_memory_reminder c r)) r) \<and>
    head_prompt (fst (inject_memory_reminder c r)) = glue_memory (before_memory (head_prompt c)) (trim r) \<and>
    filter (\<lambda>x. \<not> is_system_item x) (fst (inject_memory_reminder c r)) = filter (\<lambda>x. \<not> is_system_item x) c"
proof -
  let ?c = "fst (inject_memory_reminder c r)"
  have head: "head_prompt ?c = glue_memory (before_memory (head_prompt c)) (trim r)"
    using inject_glue [OF assms(1,3)]
    by (cases c rule: head_prompt.cases)
      (simp_all add: before_memory_def trim_end_nl_def glue_memory_def system_def MEMORY_CONTEXT_OPEN_TAG_def)
  have ok: "prompt_ok (head_prompt ?c)" unfolding head by (rule glue_prompt_ok [OF assms(1)])
  have ne: "trim r \<noteq> []" using assms(1) by (auto simp: MEMORY_CONTEXT_OPEN_TAG_def)
  have before: "before_memory (head_prompt ?c) = before_memory (head_prompt c)"
    unfolding head by (rule glue_keeps_before [OF assms(1) ne])
  have shape: "\<exists>s xs. ?c = ISystem s # xs"
    using inject_glue [OF assms(1,3)] by (cases c rule: head_prompt.cases) (simp_all add: system_def)
  then obtain s xs where c': "?c = ISystem s # xs" by blast
  have again: "inject_memory_reminder ?c q =
      (ISystem (s\<lparr>sys_content := glue_memory (before_memory (head_prompt c)) (trim q)\<rparr>) # xs,
       head_prompt ?c \<noteq> glue_memory (before_memory (head_prompt c)) (trim q))"
    if "starts_with (trim q) MEMORY_CONTEXT_OPEN_TAG" for q
    using inject_glue [OF that ok] before c' by simp
  have "fst (inject_memory_reminder ?c r') = fst (inject_memory_reminder c r')"
    using again [OF assms(2)] inject_glue [OF assms(2,3)] inject_glue [OF assms(1,3)] c'
    by (cases c rule: head_prompt.cases)
      (auto simp: system_def before_memory_def trim_end_nl_def glue_memory_def MEMORY_CONTEXT_OPEN_TAG_def)
  moreover have "filter (\<lambda>x. \<not> is_system_item x) ?c = filter (\<lambda>x. \<not> is_system_item x) c"
    using inject_glue [OF assms(1,3)] by (cases c rule: head_prompt.cases) (simp_all add: system_def)
  ultimately show ?thesis using again [OF assms(1)] head by simp
qed

definition block :: "string \<Rightarrow> rstring" where
  "block t = MEMORY_CONTEXT_OPEN_TAG @ lit t"

lemma trim_block: "trim (block ''a'') = block ''a''" "trim (block ''b'') = block ''b''"
  by (rule trim_id; simp add: block_def MEMORY_CONTEXT_OPEN_TAG_def is_whitespace_def)+

theorem memory_reminder_upsert_witness:
  "head_prompt (fst (inject_memory_reminder
      (fst (inject_memory_reminder [system (lit ''be kind'')] (block ''a''))) (block ''b''))) =
   lit ''be kind'' @ [nl, nl] @ block ''b''"
proof -
  have ok: "prompt_ok (head_prompt [system (lit ''be kind'')])" by code_simp
  have tag: "starts_with (block t) MEMORY_CONTEXT_OPEN_TAG" for t by (simp add: block_def)
  have p: "before_memory (head_prompt [system (lit ''be kind'')]) = lit ''be kind''"
    by (simp add: before_memory_def trim_end_nl_def MEMORY_CONTEXT_OPEN_TAG_def system_def)
  show ?thesis
    using memory_reminder_upsert [of "block ''a''" "block ''b''", OF _ _ ok]
      memory_reminder_upsert [of "block ''b''" "block ''b''", OF _ _ ok] p
    by (simp add: trim_block tag glue_memory_def)
qed

end
