(* ===== verification/Image_Budget.thy ===== *)
theory Image_Budget
  imports Request_Prune
begin

text \<open>
  The byte budget of inline images (\<open>xai-chat-state/src/image_budget.rs\<close>). Sizes are those of the
  JSON encoding the source counts with a byte-counting writer: strings escaped as JSON demands, the
  two kinds of item that carry images written out as their \<open>serde\<close> attributes say. What an item
  costs besides its text and images is the parameter \<open>frame\<close>, applied to the item without them.
  An \<open>unreachable!\<close> is the value \<open>None\<close>.
\<close>

definition IMAGE_COMPACT_PLACEHOLDER :: rstring where
  "IMAGE_COMPACT_PLACEHOLDER = lit ''[An earlier image was removed to keep the request within its size limit and is no longer visible. Do not describe or reason about its contents from memory; ask the user to re-share it if you need to see it again.]''"

definition TOOL_IMAGE_COMPACT_NOTE :: rstring where
  "TOOL_IMAGE_COMPACT_NOTE = lit ''[One or more images from this tool result were removed to keep the request within its size limit and are no longer visible. Do not describe or reason about their contents from memory.]''"

definition MAX_REQUEST_BYTES :: nat where "MAX_REQUEST_BYTES = 50 * 1024 * 1024"

definition IMAGE_COMPACT_TRIGGER_BYTES :: nat where
  "IMAGE_COMPACT_TRIGGER_BYTES = MAX_REQUEST_BYTES - 3 * 1024 * 1024"

definition IMAGE_COMPACT_RECLAIM_TARGET_BYTES :: nat where
  "IMAGE_COMPACT_RECLAIM_TARGET_BYTES = MAX_REQUEST_BYTES div 2"

section \<open>The size of an encoding\<close>

definition escaped_len :: "rchar \<Rightarrow> nat" where
  "escaped_len c =
     (if c = 34 \<or> c = 92 \<or> c = 8 \<or> c = 9 \<or> c = 10 \<or> c = 12 \<or> c = 13 then 2
      else if c < 32 then 6 else char_utf8_len c)"

definition json_str :: "rstring \<Rightarrow> nat" where
  "json_str s = 2 + sum_list (map escaped_len s)"

definition json_array :: "nat list \<Rightarrow> nat" where
  "json_array ns = 2 + sum_list ns + (length ns - 1)"

text \<open>The lengths of \<open>{"type":"image","url":""}\<close> and of \<open>{"type":"text","text":}\<close>.\<close>

definition IMAGE_PART_FRAME_BYTES :: nat where "IMAGE_PART_FRAME_BYTES = 25"

fun json_part :: "content_part \<Rightarrow> nat" where
  "json_part (Text t) = 23 + json_str t"
| "json_part (Image url) = IMAGE_PART_FRAME_BYTES - 2 + json_str url"

text \<open>An empty \<open>images\<close> field is skipped; otherwise it costs \<open>,"images":\<close> and the array.\<close>

definition images_field :: "content_part list \<Rightarrow> nat" where
  "images_field ps = (if ps = [] then 0 else 10 + json_array (map json_part ps))"

fun json_item :: "(conversation_item \<Rightarrow> nat) \<Rightarrow> conversation_item \<Rightarrow> nat" where
  "json_item frame (IUser u) = frame (IUser (u\<lparr>user_content := []\<rparr>)) + json_array (map json_part (user_content u))"
| "json_item frame (IToolResult t) =
     frame (IToolResult (t\<lparr>result_content := [], result_images := []\<rparr>)) +
     json_str (result_content t) + images_field (result_images t)"
| "json_item frame x = frame x"

definition json_items :: "(conversation_item \<Rightarrow> nat) \<Rightarrow> conv \<Rightarrow> nat" where
  "json_items frame c = json_array (map (json_item frame) c)"

definition encoded_url_bytes :: "rstring \<Rightarrow> nat" where
  "encoded_url_bytes url =
     (case split_once 44 url of
        None \<Rightarrow> json_str url - 2
      | Some (header, base64_tail) \<Rightarrow>
          if starts_with header (lit ''data:'') \<and> ends_with header (lit '';base64'')
          then json_str header - 2 + 1 + utf8_len base64_tail
          else json_str url - 2)"

fun image_part_bytes :: "content_part \<Rightarrow> nat option" where
  "image_part_bytes (Image url) = Some (IMAGE_PART_FRAME_BYTES + encoded_url_bytes url)"
| "image_part_bytes (Text _) = None"

fun blank_part :: "content_part \<Rightarrow> content_part" where
  "blank_part (Image _) = Image []"
| "blank_part p = p"

fun url_bytes :: "content_part \<Rightarrow> nat" where
  "url_bytes (Image url) = encoded_url_bytes url"
| "url_bytes (Text _) = 0"

fun item_parts :: "conversation_item \<Rightarrow> content_part list" where
  "item_parts (IUser u) = user_content u"
| "item_parts (IToolResult t) = result_images t"
| "item_parts _ = []"

fun blank_image_urls :: "conversation_item \<Rightarrow> conversation_item" where
  "blank_image_urls (IUser u) = IUser (u\<lparr>user_content := map blank_part (user_content u)\<rparr>)"
| "blank_image_urls (IToolResult t) = IToolResult (t\<lparr>result_images := map blank_part (result_images t)\<rparr>)"
| "blank_image_urls x = x"

definition conversation_body_bytes :: "(conversation_item \<Rightarrow> nat) \<Rightarrow> conv \<Rightarrow> nat" where
  "conversation_body_bytes frame c =
     json_items frame (map blank_image_urls c) +
     sum_list (map (\<lambda>x. sum_list (map url_bytes (item_parts x))) c)"

definition inline_image_count :: "conv \<Rightarrow> nat" where
  "inline_image_count c = sum_list (map (\<lambda>x. length (filter is_image (item_parts x))) c)"

section \<open>Eviction\<close>

datatype image_location = UserImage nat nat | ToolResultImage nat

fun user_images :: "nat \<Rightarrow> nat \<Rightarrow> content_part list \<Rightarrow> (image_location \<times> nat) list" where
  "user_images item part [] = []"
| "user_images item part (p # ps) =
     (case image_part_bytes p of Some b \<Rightarrow> [(UserImage item part, b)] | None \<Rightarrow> []) @
     user_images item (Suc part) ps"

fun tool_images :: "nat \<Rightarrow> content_part list \<Rightarrow> (image_location \<times> nat) list" where
  "tool_images item [] = []"
| "tool_images item (p # ps) =
     (case image_part_bytes p of Some b \<Rightarrow> [(ToolResultImage item, b)] | None \<Rightarrow> []) @
     tool_images item ps"

fun item_images :: "nat \<Rightarrow> conversation_item \<Rightarrow> (image_location \<times> nat) list" where
  "item_images item (IUser u) = user_images item 0 (user_content u)"
| "item_images item (IToolResult t) = tool_images item (result_images t)"
| "item_images item x = []"

fun discover_images :: "nat \<Rightarrow> conv \<Rightarrow> (image_location \<times> nat) list" where
  "discover_images item [] = []"
| "discover_images item (x # xs) = item_images item x @ discover_images (Suc item) xs"

definition placeholder_bytes :: nat where
  "placeholder_bytes = json_part (Text IMAGE_COMPACT_PLACEHOLDER)"

definition tool_note_suffix :: rstring where
  "tool_note_suffix = [nl, nl] @ TOOL_IMAGE_COMPACT_NOTE"

definition tool_note_bytes :: nat where
  "tool_note_bytes = json_str tool_note_suffix - 2"

fun remove_first_image :: "content_part list \<Rightarrow> content_part list option" where
  "remove_first_image [] = None"
| "remove_first_image (p # ps) = (if is_image p then Some ps else map_option ((#) p) (remove_first_image ps))"

text \<open>
  One eviction: the new history and running size, \<open>None\<close> for \<open>unreachable!\<close>. A location that does not
  fit its item is skipped, and not counted.
\<close>

definition evict_one :: "image_location \<Rightarrow> nat \<Rightarrow> conv \<Rightarrow> nat \<Rightarrow> (conv \<times> nat \<times> nat) option" where
  "evict_one l image_bytes c running =
     (case l of
        UserImage i j \<Rightarrow>
          (case vec_get c i of
             Some (IUser u) \<Rightarrow>
               if j < length (user_content u)
               then Some (c[i := IUser (u\<lparr>user_content := (user_content u)[j := Text IMAGE_COMPACT_PLACEHOLDER]\<rparr>)],
                          running - (image_bytes - placeholder_bytes), 1)
               else Some (c, running, 0)
           | _ \<Rightarrow> Some (c, running, 0))
      | ToolResultImage i \<Rightarrow>
          (case vec_get c i of
             Some (IToolResult t) \<Rightarrow>
               (case remove_first_image (result_images t) of
                  None \<Rightarrow> None
                | Some ps \<Rightarrow>
                    let noted = contains_str (result_content t) TOOL_IMAGE_COMPACT_NOTE;
                        running' = running - (image_bytes + (if ps \<noteq> [] then 1 else 0))
                    in Some (c[i := IToolResult (t\<lparr>result_images := ps,
                                result_content := (if noted then result_content t else result_content t @ tool_note_suffix)\<rparr>)],
                             (if noted then running' else running' + tool_note_bytes), 1))
           | _ \<Rightarrow> Some (c, running, 0)))"

fun evict_images_loop :: "(image_location \<times> nat) list \<Rightarrow> conv \<Rightarrow> nat \<Rightarrow> nat \<Rightarrow> nat \<Rightarrow> (conv \<times> nat) option" where
  "evict_images_loop [] c running target evicted = Some (c, evicted)"
| "evict_images_loop ((l, b) # ims) c running target evicted =
     (if running \<le> target then Some (c, evicted)
      else case evict_one l b c running of
        None \<Rightarrow> None
      | Some (c', running', n) \<Rightarrow> evict_images_loop ims c' running' target (evicted + n))"

definition evict_images_to_budget :: "conv \<Rightarrow> nat \<Rightarrow> nat \<Rightarrow> (conv \<times> nat) option" where
  "evict_images_to_budget c current target = evict_images_loop (discover_images 0 c) c current target 0"

record image_budget_outcome =
  body_bytes :: nat
  body_bytes_after :: nat
  inline_images :: nat
  needs_image_compaction :: bool
  evicted_images :: nat

definition apply_image_budget_with_limits ::
  "(conversation_item \<Rightarrow> nat) \<Rightarrow> conv \<Rightarrow> nat \<Rightarrow> nat \<Rightarrow> (conv \<times> image_budget_outcome) option" where
  "apply_image_budget_with_limits frame c trigger target =
     (let body = conversation_body_bytes frame c; needs = trigger \<le> body
      in map_option (\<lambda>(c', n).
           (c', \<lparr>body_bytes = body,
                 body_bytes_after = (if n = 0 then body else conversation_body_bytes frame c'),
                 inline_images = inline_image_count c, needs_image_compaction = needs, evicted_images = n\<rparr>))
           (if needs \<and> target < body then evict_images_to_budget c body target else Some (c, 0)))"

definition apply_image_budget :: "(conversation_item \<Rightarrow> nat) \<Rightarrow> conv \<Rightarrow> (conv \<times> image_budget_outcome) option" where
  "apply_image_budget frame c =
     apply_image_budget_with_limits frame c IMAGE_COMPACT_TRIGGER_BYTES IMAGE_COMPACT_RECLAIM_TARGET_BYTES"

section \<open>Lemmas\<close>

lemma json_array_Cons: "json_array (n # ns) = (if ns = [] then n + 2 else n + 1 + json_array ns)"
  by (cases ns) (simp_all add: json_array_def)

lemma json_array_update:
  "i < length ns \<Longrightarrow> json_array (ns[i := n]) + ns ! i = json_array ns + n"
  using elem_le_sum_list [of i ns] by (simp add: json_array_def sum_list_update)

text \<open>What an item contributes to the body the source measures.\<close>

definition body_item :: "(conversation_item \<Rightarrow> nat) \<Rightarrow> conversation_item \<Rightarrow> nat" where
  "body_item frame x = json_item frame (blank_image_urls x) + sum_list (map url_bytes (item_parts x))"

lemma body_bytes_items: "conversation_body_bytes frame c = json_array (map (body_item frame) c)"
proof -
  have "sum_list (map (json_item frame \<circ> blank_image_urls) c) + sum_list (map (\<lambda>x. sum_list (map url_bytes (item_parts x))) c) =
      sum_list (map (body_item frame) c)"
    by (induction c) (simp_all add: body_item_def)
  then show ?thesis by (simp add: conversation_body_bytes_def json_items_def json_array_def)
qed

text \<open>A part as the source measures it.\<close>

definition body_part :: "content_part \<Rightarrow> nat" where
  "body_part p = json_part (blank_part p) + url_bytes p"

lemma body_part_simps [simp]:
  "body_part (Text t) = 23 + json_str t"
  "body_part (Image url) = IMAGE_PART_FRAME_BYTES + encoded_url_bytes url"
  by (simp_all add: body_part_def json_str_def IMAGE_PART_FRAME_BYTES_def)

lemma array_parts: "json_array (map (json_part \<circ> blank_part) ps) + sum_list (map url_bytes ps) = json_array (map body_part ps)"
proof -
  have "sum_list (map (json_part \<circ> blank_part) ps) + sum_list (map url_bytes ps) = sum_list (map body_part ps)"
    by (induction ps) (simp_all add: body_part_def)
  then show ?thesis by (simp add: json_array_def)
qed

lemma body_item_user:
  "body_item frame (IUser u) = frame (IUser (u\<lparr>user_content := []\<rparr>)) + json_array (map body_part (user_content u))"
  using array_parts [of "user_content u"] by (simp add: body_item_def)

lemma body_item_result:
  "body_item frame (IToolResult t) =
     frame (IToolResult (t\<lparr>result_content := [], result_images := []\<rparr>)) + json_str (result_content t) +
     (if result_images t = [] then 0 else 10 + json_array (map body_part (result_images t)))"
  using array_parts [of "result_images t"] by (simp add: body_item_def images_field_def)


fun part_url :: "content_part \<Rightarrow> rstring option" where
  "part_url (Image url) = Some url"
| "part_url (Text _) = None"

definition part_urls :: "content_part list \<Rightarrow> rstring list" where
  "part_urls ps = List.map_filter part_url ps"

definition image_urls :: "conv \<Rightarrow> rstring list" where
  "image_urls c = concat (map (part_urls \<circ> item_parts) c)"

lemma part_urls_simps [simp]:
  "part_urls [] = []" "part_urls (Image u # ps) = u # part_urls ps" "part_urls (Text t # ps) = part_urls ps"
  by (simp_all add: part_urls_def map_filter_simps)

lemma image_urls_simps [simp]:
  "image_urls [] = []" "image_urls (x # xs) = part_urls (item_parts x) @ image_urls xs"
  "image_urls (xs @ ys) = image_urls xs @ image_urls ys"
  by (simp_all add: image_urls_def)

text \<open>
  The declarative reading: a history without its \<open>k\<close> oldest images. An image of a user message gives
  way to the placeholder, one of a tool result is taken out, and the result says so once.
\<close>

fun hide_images :: "nat \<Rightarrow> content_part list \<Rightarrow> content_part list" where
  "hide_images 0 ps = ps"
| "hide_images (Suc k) [] = []"
| "hide_images (Suc k) (Image u # ps) = Text IMAGE_COMPACT_PLACEHOLDER # hide_images k ps"
| "hide_images (Suc k) (Text t # ps) = Text t # hide_images (Suc k) ps"

fun cut_images :: "nat \<Rightarrow> content_part list \<Rightarrow> content_part list" where
  "cut_images 0 ps = ps"
| "cut_images (Suc k) [] = []"
| "cut_images (Suc k) (Image u # ps) = cut_images k ps"
| "cut_images (Suc k) (Text t # ps) = Text t # cut_images (Suc k) ps"

definition noted :: "rstring \<Rightarrow> rstring" where
  "noted s = (if contains_str s TOOL_IMAGE_COMPACT_NOTE then s else s @ [nl, nl] @ TOOL_IMAGE_COMPACT_NOTE)"

fun evict_item :: "nat \<Rightarrow> conversation_item \<Rightarrow> conversation_item" where
  "evict_item k (IUser u) = IUser (u\<lparr>user_content := hide_images k (user_content u)\<rparr>)"
| "evict_item k (IToolResult t) =
     (if k = 0 \<or> part_urls (result_images t) = [] then IToolResult t
      else IToolResult (t\<lparr>result_images := cut_images k (result_images t),
                          result_content := noted (result_content t)\<rparr>))"
| "evict_item k x = x"

fun evict_oldest :: "nat \<Rightarrow> conv \<Rightarrow> conv" where
  "evict_oldest k [] = []"
| "evict_oldest k (x # xs) = evict_item k x # evict_oldest (k - length (part_urls (item_parts x))) xs"

lemma hide_none: "part_urls ps = [] \<Longrightarrow> hide_images k ps = ps"
  and cut_none: "part_urls ps = [] \<Longrightarrow> cut_images k ps = ps"
  by (induction k ps rule: hide_images.induct) auto

lemma hide_urls [simp]: "part_urls (hide_images k ps) = drop k (part_urls ps)"
  by (induction k ps rule: hide_images.induct) simp_all

lemma cut_urls [simp]: "part_urls (cut_images k ps) = drop k (part_urls ps)"
  by (induction k ps rule: cut_images.induct) simp_all

lemma hide_hide: "hide_images j (hide_images k ps) = hide_images (k + j) ps"
proof (induction k ps arbitrary: j rule: hide_images.induct)
  case (3 k u ps)
  then show ?case by (cases j) (simp_all add: "3.IH" [of 0, simplified])
next
  case (4 k t ps)
  then show ?case by (cases j) simp_all
qed (simp_all add: hide_none)

lemma cut_cut: "cut_images j (cut_images k ps) = cut_images (k + j) ps"
proof (induction k ps arbitrary: j rule: cut_images.induct)
  case (4 k t ps)
  then show ?case by (cases j) simp_all
qed (simp_all add: cut_none)

lemma contains_appended: "contains_str (s @ t @ p) p"
  unfolding contains_str_iff by (intro exI [of _ "length (s @ t)"]) (simp add: occurs_def starts_with_def)

lemma noted_noted [simp]: "noted (noted s) = noted s"
  using contains_appended [of s "[nl, nl]" TOOL_IMAGE_COMPACT_NOTE] by (simp add: noted_def)

lemma evict_item_0 [simp]: "evict_item 0 x = x"
  by (cases x) simp_all

lemma evict_oldest_0 [simp]: "evict_oldest 0 c = c"
  by (induction c) simp_all

lemma evict_item_urls [simp]: "part_urls (item_parts (evict_item k x)) = drop k (part_urls (item_parts x))"
  by (cases x) auto

lemma evict_item_shape [simp]: "shape (evict_item k x) = shape x"
  by (cases x) (auto simp: shape_def)

lemma evict_oldest_urls [simp]: "image_urls (evict_oldest k c) = drop k (image_urls c)"
  by (induction c arbitrary: k) simp_all

lemma evict_oldest_shape [simp]: "map shape (evict_oldest k c) = map shape c"
  by (induction c arbitrary: k) simp_all

lemma evict_item_none: "part_urls (item_parts x) = [] \<Longrightarrow> evict_item k x = x"
  by (cases x) (simp_all add: hide_none)

lemma evict_oldest_none: "image_urls c = [] \<Longrightarrow> evict_oldest k c = c"
  by (induction c arbitrary: k) (simp_all add: evict_item_none)

lemma evict_oldest_append:
  "evict_oldest k (xs @ ys) = evict_oldest k xs @ evict_oldest (k - length (image_urls xs)) ys"
  by (induction xs arbitrary: k) simp_all

lemma evict_item_twice:
  "part_urls (item_parts x) \<noteq> [] \<Longrightarrow> evict_item j (evict_item 1 x) = evict_item (Suc j) x"
proof (cases x)
  case (IToolResult t)
  assume ne: "part_urls (item_parts x) \<noteq> []"
  show ?thesis
  proof (cases "drop 1 (part_urls (result_images t)) = []")
    case True
    then have "cut_images (Suc j) (result_images t) = cut_images 1 (result_images t)"
      using cut_cut [of j 1 "result_images t"] by (simp add: cut_none del: drop_eq_Nil2)
    then show ?thesis using ne True IToolResult by simp
  next
    case False
    then show ?thesis
      using ne IToolResult cut_cut [of j 1 "result_images t"] by (cases j) simp_all
  qed
qed (use hide_hide [of j 1] in simp_all)

lemma evict_oldest_twice: "evict_oldest j (evict_oldest 1 c) = evict_oldest (Suc j) c"
proof (induction c)
  case (Cons x c)
  show ?case
  proof (cases "part_urls (item_parts x) = []")
    case True
    then show ?thesis using Cons by (simp add: evict_item_none)
  next
    case False
    then have "1 - length (part_urls (item_parts x)) = 0"
      "j - (length (part_urls (item_parts x)) - 1) = Suc j - length (part_urls (item_parts x))"
      by (cases "part_urls (item_parts x)"; simp)+
    then show ?thesis using evict_item_twice [OF False, of j] by (simp del: diff_is_0_eq)
  qed
qed simp

lemma user_images_head:
  "user_images k n ps = (l, b) # rest \<Longrightarrow>
   \<exists>j < length ps. l = UserImage k (n + j) \<and> b = body_part (ps ! j) \<and>
     ps[j := Text IMAGE_COMPACT_PLACEHOLDER] = hide_images 1 ps \<and> user_images k n (hide_images 1 ps) = rest"
proof (induction ps arbitrary: n)
  case (Cons p ps)
  show ?case
  proof (cases p)
    case (Text s)
    then obtain j where "j < length ps" "l = UserImage k (Suc n + j)" "b = body_part (ps ! j)"
      "ps[j := Text IMAGE_COMPACT_PLACEHOLDER] = hide_images 1 ps" "user_images k (Suc n) (hide_images 1 ps) = rest"
      using Cons.IH [of "Suc n"] Cons.prems by auto
    then show ?thesis using Text by (intro exI [of _ "Suc j"]) simp
  next
    case (Image u)
    then show ?thesis using Cons.prems by (intro exI [of _ 0]) auto
  qed
qed simp

lemma tool_images_head:
  "tool_images k ps = (l, b) # rest \<Longrightarrow>
   l = ToolResultImage k \<and>
   remove_first_image ps = Some (cut_images 1 ps) \<and> tool_images k (cut_images 1 ps) = rest \<and>
   json_array (map body_part ps) =
     (if cut_images 1 ps = [] then 2 + b else json_array (map body_part (cut_images 1 ps)) + b + 1)"
proof (induction ps)
  case (Cons p ps)
  show ?case
  proof (cases p)
    case (Text s)
    then have "tool_images k ps = (l, b) # rest" using Cons.prems by simp
    note IH = Cons.IH [OF this]
    then have "ps \<noteq> []" by auto
    then have "json_array (map body_part (p # ps)) = json_array (map body_part (p # cut_images 1 ps)) + b + 1"
      using IH by (cases "cut_images 1 ps = []") (simp_all add: json_array_Cons)
    then show ?thesis using Text IH by simp
  next
    case (Image u)
    then show ?thesis using Cons.prems by (auto simp: json_array_Cons)
  qed
qed simp

lemma user_images_none: "user_images k n ps = [] \<longleftrightarrow> part_urls ps = []"
  and tool_images_none: "tool_images k ps = [] \<longleftrightarrow> part_urls ps = []"
proof -
  show "user_images k n ps = [] \<longleftrightarrow> part_urls ps = []"
  proof (induction ps arbitrary: n)
    case (Cons p ps)
    then show ?case by (cases p) auto
  qed simp
  show "tool_images k ps = [] \<longleftrightarrow> part_urls ps = []"
  proof (induction ps)
    case (Cons p ps)
    then show ?case by (cases p) auto
  qed simp
qed

lemma item_images_none: "item_images k x = [] \<longleftrightarrow> part_urls (item_parts x) = []"
  by (cases x) (simp_all add: user_images_none tool_images_none)

lemma discover_append:
  "discover_images k (xs @ ys) = discover_images k xs @ discover_images (k + length xs) ys"
  by (induction xs arbitrary: k) simp_all

lemma discover_split:
  "discover_images k c = im # rest \<Longrightarrow>
   \<exists>pre x post r. c = pre @ x # post \<and> discover_images k pre = [] \<and>
     item_images (k + length pre) x = im # r \<and> rest = r @ discover_images (Suc (k + length pre)) post"
proof (induction c arbitrary: k)
  case (Cons x c)
  show ?case
  proof (cases "item_images k x")
    case Nil
    then obtain pre y post r where "c = pre @ y # post" "discover_images (Suc k) pre = []"
      "item_images (Suc k + length pre) y = im # r" "rest = r @ discover_images (Suc (Suc k + length pre)) post"
      using Cons.IH [of "Suc k"] Cons.prems by auto
    then show ?thesis
      using Nil by (intro exI [of _ "x # pre"] exI [of _ y] exI [of _ post] exI [of _ r]) simp
  next
    case images: (Cons im' r)
    then have "im' = im" "rest = r @ discover_images (Suc k) c" using Cons.prems by simp_all
    then show ?thesis
      using images by (intro exI [of _ "[]"] exI [of _ x] exI [of _ c] exI [of _ r]) simp
  qed
qed simp

lemma discover_none: "discover_images k c = [] \<Longrightarrow> image_urls c = []"
  by (induction c arbitrary: k) (auto simp: item_images_none)

lemma json_str_append: "json_str (s @ t) = json_str s + (json_str t - 2)"
  by (simp add: json_str_def)

lemma vec_get_middle [simp]: "vec_get (pre @ x # post) (length pre) = Some x"
  by (simp add: vec_get_def)

text \<open>
  The effect of one eviction on the item that holds the image. The loop takes the bytes of the image
  off its running size; it does not take off the twelve bytes of an \<open>images\<close> field that is left out
  once the last image of a tool result is gone.
\<close>

definition IMAGES_FIELD_BYTES :: nat where "IMAGES_FIELD_BYTES = 12"

fun bare_result :: "conversation_item \<Rightarrow> bool" where
  "bare_result (IToolResult t) = (result_images t = [])"
| "bare_result x = False"

definition bare_results :: "conv \<Rightarrow> nat" where
  "bare_results c = length (filter bare_result c)"

definition emptied :: "conversation_item \<Rightarrow> nat" where
  "emptied x = (if bare_result (evict_item 1 x) \<and> \<not> bare_result x then IMAGES_FIELD_BYTES else 0)"

lemma bare_evict_item: "bare_result x \<Longrightarrow> bare_result (evict_item k x)"
  by (cases x) simp_all

lemma bare_evict_oldest: "bare_results c \<le> bare_results (evict_oldest k c)"
proof (induction c arbitrary: k)
  case (Cons x c)
  then show ?case using Cons.IH bare_evict_item [of x k] by (simp add: bare_results_def le_SucI)
qed (simp add: bare_results_def)

lemma evict_user:
  assumes "user_images (length pre) 0 (user_content u) = (l, b) # r" and x: "x = IUser u"
  shows "\<exists>d e. evict_one l b (pre @ x # post) run = Some (pre @ evict_item 1 x # post, run - d + e, 1) \<and>
    item_images (length pre) (evict_item 1 x) = r \<and>
    (placeholder_bytes \<le> b \<longrightarrow> body_item frame (evict_item 1 x) + d \<le> body_item frame x + e) \<and>
    body_item frame x + e \<le> body_item frame (evict_item 1 x) + d + emptied x \<and> e \<le> body_item frame (evict_item 1 x)"
proof -
  let ?ph = "Text IMAGE_COMPACT_PLACEHOLDER"
  obtain j where j: "j < length (user_content u)" "l = UserImage (length pre) j" "b = body_part (user_content u ! j)"
    "(user_content u)[j := ?ph] = hide_images 1 (user_content u)"
    "user_images (length pre) 0 (hide_images 1 (user_content u)) = r"
    using user_images_head [OF assms(1)] by auto
  have "json_array (map body_part ((user_content u)[j := ?ph])) + b =
      json_array (map body_part (user_content u)) + placeholder_bytes"
    using json_array_update [of j "map body_part (user_content u)" "body_part ?ph"] j(1,3)
    by (simp add: map_update placeholder_bytes_def)
  then have size: "body_item frame (evict_item 1 x) + b = body_item frame x + placeholder_bytes"
    by (simp add: x body_item_user j(4))
  have "evict_one l b (pre @ x # post) run = Some (pre @ evict_item 1 x # post, run - (b - placeholder_bytes) + 0, 1)"
    using j(1,2,4) by (simp add: evict_one_def x)
  moreover have "item_images (length pre) (evict_item 1 x) = r" using j(5) by (simp add: x)
  moreover have "placeholder_bytes \<le> b \<longrightarrow> body_item frame (evict_item 1 x) + (b - placeholder_bytes) \<le> body_item frame x + 0"
    "body_item frame x + 0 \<le> body_item frame (evict_item 1 x) + (b - placeholder_bytes) + emptied x"
    using size by auto
  ultimately show ?thesis by blast
qed

lemma evict_result:
  assumes "tool_images (length pre) (result_images t) = (l, b) # r" and x: "x = IToolResult t"
  shows "\<exists>d e. evict_one l b (pre @ x # post) run = Some (pre @ evict_item 1 x # post, run - d + e, 1) \<and>
    item_images (length pre) (evict_item 1 x) = r \<and>
    body_item frame (evict_item 1 x) + d \<le> body_item frame x + e \<and>
    body_item frame x + e \<le> body_item frame (evict_item 1 x) + d + emptied x \<and> e \<le> body_item frame (evict_item 1 x)"
proof -
  let ?ps = "cut_images 1 (result_images t)"
  note head = tool_images_head [OF assms(1)]
  have ne: "result_images t \<noteq> []" "part_urls (result_images t) \<noteq> []"
    using assms(1) tool_images_none [of "length pre" "result_images t"] by auto
  let ?noted = "contains_str (result_content t) TOOL_IMAGE_COMPACT_NOTE"
  let ?d = "b + (if ?ps \<noteq> [] then 1 else 0)" and ?e = "if ?noted then 0 else tool_note_bytes"
  have x': "evict_item 1 x = IToolResult (t\<lparr>result_images := ?ps, result_content := noted (result_content t)\<rparr>)"
    using ne(2) x by simp
  have s: "json_str (noted (result_content t)) = json_str (result_content t) + ?e"
    by (simp add: noted_def json_str_append tool_note_bytes_def tool_note_suffix_def)
  have size: "body_item frame (evict_item 1 x) + ?d + emptied x = body_item frame x + ?e"
    using ne head unfolding emptied_def x' x
    by (simp add: body_item_result s IMAGES_FIELD_BYTES_def)
  have "evict_one l b (pre @ x # post) run = Some (pre @ evict_item 1 x # post, run - ?d + ?e, 1)"
    using head ne(2) unfolding x' x by (simp add: evict_one_def Let_def noted_def tool_note_suffix_def)
  moreover have "item_images (length pre) (evict_item 1 x) = r" using head unfolding x' by simp
  moreover have "body_item frame (evict_item 1 x) + ?d \<le> body_item frame x + ?e"
    "body_item frame x + ?e \<le> body_item frame (evict_item 1 x) + ?d + emptied x"
    using size by linarith+
  moreover have "?e \<le> body_item frame (evict_item 1 x)" unfolding x' by (simp add: s body_item_result)
  ultimately show ?thesis by blast
qed

lemma body_bytes_middle: "body_item frame x \<le> conversation_body_bytes frame (pre @ x # post)"
  by (simp add: body_bytes_items json_array_def)

lemma body_bytes_replace:
  "conversation_body_bytes frame (pre @ y # post) + body_item frame x =
   conversation_body_bytes frame (pre @ x # post) + body_item frame y"
  by (simp add: body_bytes_items json_array_def)

lemma evict_head:
  assumes "discover_images 0 c = (l, b) # rest"
  shows "\<exists>run'. evict_one l b c run = Some (evict_oldest 1 c, run', 1) \<and> discover_images 0 (evict_oldest 1 c) = rest \<and>
    (placeholder_bytes \<le> b \<longrightarrow> conversation_body_bytes frame c \<le> run \<longrightarrow>
       conversation_body_bytes frame (evict_oldest 1 c) \<le> run') \<and>
    (run \<le> conversation_body_bytes frame c + s \<longrightarrow>
       run' \<le> conversation_body_bytes frame (evict_oldest 1 c) + s +
         IMAGES_FIELD_BYTES * (bare_results (evict_oldest 1 c) - bare_results c))"
proof -
  obtain pre x post r where c: "c = pre @ x # post" "discover_images 0 pre = []"
    "item_images (length pre) x = (l, b) # r" "rest = r @ discover_images (Suc (length pre)) post"
    using discover_split [OF assms] by auto
  let ?x = "evict_item 1 x"
  have "\<exists>d e. evict_one l b (pre @ x # post) run = Some (pre @ ?x # post, run - d + e, 1) \<and>
    item_images (length pre) ?x = r \<and>
    (placeholder_bytes \<le> b \<longrightarrow> body_item frame ?x + d \<le> body_item frame x + e) \<and>
    body_item frame x + e \<le> body_item frame ?x + d + emptied x \<and> e \<le> body_item frame ?x"
  proof (cases x)
    case (IUser u)
    then show ?thesis using evict_user [OF _ IUser] c(3) by simp
  next
    case (IToolResult t)
    then show ?thesis using evict_result [OF _ IToolResult] c(3) by fastforce
  qed (use c(3) in simp_all)
  then obtain d e where one: "evict_one l b c run = Some (pre @ ?x # post, run - d + e, 1)"
    "item_images (length pre) ?x = r"
    and big: "placeholder_bytes \<le> b \<longrightarrow> body_item frame ?x + d \<le> body_item frame x + e"
    and upper: "body_item frame x + e \<le> body_item frame ?x + d + emptied x" "e \<le> body_item frame ?x"
    unfolding c(1) by blast
  have "image_urls pre = []" "part_urls (item_parts x) \<noteq> []"
    using discover_none [OF c(2)] item_images_none [of "length pre" x] c(3) by auto
  then have c': "evict_oldest 1 c = pre @ ?x # post"
    using c(1) by (cases "part_urls (item_parts x)") (simp_all add: evict_oldest_append evict_oldest_none)
  have "discover_images 0 (pre @ ?x # post) = rest" using c(2,4) one(2) by (simp add: discover_append)
  moreover have "IMAGES_FIELD_BYTES * (bare_results (evict_oldest 1 c) - bare_results c) = emptied x"
    unfolding c' using bare_evict_item [of x 1] by (simp add: c(1) bare_results_def emptied_def del: One_nat_def)
  moreover note body_bytes_replace [of frame pre ?x post x] body_bytes_middle [of frame ?x pre post]
  ultimately show ?thesis
    using one big upper c(1) unfolding c' by (intro exI [of _ "run - d + e"]) auto
qed

definition url_cost :: "rstring \<Rightarrow> nat" where
  "url_cost u = IMAGE_PART_FRAME_BYTES + encoded_url_bytes u"

lemma image_urls_discover: "map snd (discover_images k c) = map url_cost (image_urls c)"
proof -
  have user: "map snd (user_images k n ps) = map url_cost (part_urls ps)" for k n ps
  proof (induction ps arbitrary: n)
    case (Cons p ps)
    then show ?case by (cases p) (auto simp: url_cost_def)
  qed simp
  have tool: "map snd (tool_images k ps) = map url_cost (part_urls ps)" for k ps
  proof (induction ps)
    case (Cons p ps)
    then show ?case by (cases p) (auto simp: url_cost_def)
  qed simp
  have "map snd (item_images k x) = map url_cost (part_urls (item_parts x))" for k x
    by (cases x) (simp_all add: user tool)
  then show ?thesis by (induction c arbitrary: k) simp_all
qed

lemma discover_length: "length (discover_images k c) = length (image_urls c)"
  by (metis image_urls_discover length_map)

lemma discover_costs:
  "list_all (\<lambda>(l, b). P b) (discover_images k c) \<longleftrightarrow> list_all (P \<circ> url_cost) (image_urls c)"
proof -
  have "list_all (\<lambda>(l, b). P b) ims \<longleftrightarrow> list_all P (map snd ims)" for ims :: "(image_location \<times> nat) list"
    by (induction ims) auto
  then show ?thesis by (metis image_urls_discover list.pred_map)
qed

lemma inline_image_count_urls: "inline_image_count c = length (image_urls c)"
proof -
  have "length (filter is_image ps) = length (part_urls ps)" for ps
  proof (induction ps)
    case (Cons p ps)
    then show ?case by (cases p) auto
  qed simp
  then show ?thesis by (induction c) (simp_all add: inline_image_count_def)
qed

text \<open>What the loop still sees of a history when \<open>j\<close> of its images are gone, at most.\<close>

definition seen_bytes :: "(conversation_item \<Rightarrow> nat) \<Rightarrow> conv \<Rightarrow> nat \<Rightarrow> nat" where
  "seen_bytes frame c j =
     conversation_body_bytes frame (evict_oldest j c) +
     IMAGES_FIELD_BYTES * (bare_results (evict_oldest j c) - bare_results c)"

lemma seen_bytes_Suc:
  "seen_bytes frame c (Suc j) =
     seen_bytes frame (evict_oldest 1 c) j + IMAGES_FIELD_BYTES * (bare_results (evict_oldest 1 c) - bare_results c)"
proof -
  have "bare_results (evict_oldest j (evict_oldest 1 c)) - bare_results c =
      (bare_results (evict_oldest j (evict_oldest 1 c)) - bare_results (evict_oldest 1 c)) +
      (bare_results (evict_oldest 1 c) - bare_results c)"
    using bare_evict_oldest [of c 1] bare_evict_oldest [of "evict_oldest 1 c" j] by linarith
  then show ?thesis
    by (simp only: seen_bytes_def evict_oldest_twice [symmetric] distrib_left add.assoc)
qed

lemma evict_loop_spec:
  assumes "discover_images 0 c = ims"
  shows "\<exists>n. evict_images_loop ims c run target k = Some (evict_oldest n c, k + n) \<and> n \<le> length ims \<and>
    (list_all (\<lambda>(l, b). placeholder_bytes \<le> b) ims \<and> conversation_body_bytes frame c \<le> run \<longrightarrow>
       conversation_body_bytes frame (evict_oldest n c) \<le> target \<or> n = length ims) \<and>
    (run \<le> conversation_body_bytes frame c + s \<longrightarrow> (\<forall>j < n. target < seen_bytes frame c j + s))"
  using assms
proof (induction ims c run target k arbitrary: s rule: evict_images_loop.induct)
  case (2 l b ims c run target k)
  show ?case
  proof (cases "run \<le> target")
    case True
    then show ?thesis by (intro exI [of _ 0]) auto
  next
    case False
    let ?c = "evict_oldest 1 c" and ?gap = "IMAGES_FIELD_BYTES * (bare_results (evict_oldest 1 c) - bare_results c)"
    obtain run1 where one: "evict_one l b c run = Some (?c, run1, 1)" "discover_images 0 ?c = ims"
      "placeholder_bytes \<le> b \<longrightarrow> conversation_body_bytes frame c \<le> run \<longrightarrow> conversation_body_bytes frame ?c \<le> run1"
      "run \<le> conversation_body_bytes frame c + s \<longrightarrow> run1 \<le> conversation_body_bytes frame ?c + s + ?gap"
      using evict_head [OF "2.prems", of run frame s] by blast
    obtain n where rest: "evict_images_loop ims ?c run1 target (k + 1) = Some (evict_oldest n ?c, k + 1 + n)"
      "n \<le> length ims"
      "list_all (\<lambda>(l, b). placeholder_bytes \<le> b) ims \<and> conversation_body_bytes frame ?c \<le> run1 \<longrightarrow>
         conversation_body_bytes frame (evict_oldest n ?c) \<le> target \<or> n = length ims"
      "run1 \<le> conversation_body_bytes frame ?c + (s + ?gap) \<longrightarrow> (\<forall>j < n. target < seen_bytes frame ?c j + (s + ?gap))"
      using "2.IH" [OF False one(1) refl refl one(2), of "s + ?gap"] by blast
    have "evict_images_loop ((l, b) # ims) c run target k = Some (evict_oldest (Suc n) c, k + Suc n)"
      using False one(1) rest(1) by (simp add: evict_oldest_twice [symmetric] del: One_nat_def)
    moreover have "target < seen_bytes frame c j + s" if "run \<le> conversation_body_bytes frame c + s" "j < Suc n" for j
      using that rest(4) one(4) False
      by (cases j) (auto simp: seen_bytes_Suc seen_bytes_def [of frame c 0] algebra_simps)
    ultimately show ?thesis
      using rest(2,3) one(3) by (intro exI [of _ "Suc n"]) (auto simp: evict_oldest_twice [symmetric] simp del: One_nat_def)
  qed
qed auto

text \<open>A URL whose base64 tail needs no escaping, as base64 text never does.\<close>

definition clean_url :: "rstring \<Rightarrow> bool" where
  "clean_url url \<longleftrightarrow>
     (case split_once 44 url of
        Some (header, tail) \<Rightarrow> list_all (\<lambda>c. escaped_len c = char_utf8_len c) tail
      | None \<Rightarrow> True)"

lemma clean_tail: "list_all (\<lambda>c. escaped_len c = char_utf8_len c) t \<Longrightarrow> sum_list (map escaped_len t) = utf8_len t"
  by (induction t) (simp_all add: utf8_len_def)

lemma clean_url_exact: "clean_url url \<Longrightarrow> encoded_url_bytes url = json_str url - 2"
proof (cases "split_once 44 url")
  case (Some ht)
  assume clean: "clean_url url"
  obtain h t where ht: "ht = (h, t)" by force
  then have url: "url = h @ 44 # t" using Some split_once_SomeD by blast
  have "escaped_len 44 = 1" by (simp add: escaped_len_def char_utf8_len_def)
  then show ?thesis
    using Some ht clean clean_tail [of t] unfolding clean_url_def encoded_url_bytes_def
    by (simp add: url json_str_def)
qed (simp add: encoded_url_bytes_def del: split_once_None)

lemma body_part_exact: "list_all clean_url (part_urls [p]) \<Longrightarrow> body_part p = json_part p"
  by (cases p) (simp_all add: clean_url_exact json_str_def IMAGE_PART_FRAME_BYTES_def)

lemma body_parts_exact: "list_all clean_url (part_urls ps) \<Longrightarrow> map body_part ps = map json_part ps"
proof (induction ps)
  case (Cons p ps)
  then show ?case using body_part_exact [of p] by (cases p) (auto simp del: body_part_simps)
qed simp

lemma body_bytes_exact:
  "list_all clean_url (image_urls c) \<Longrightarrow> conversation_body_bytes frame c = json_items frame c"
proof -
  assume clean: "list_all clean_url (image_urls c)"
  have "body_item frame x = json_item frame x" if "list_all clean_url (part_urls (item_parts x))" for x
  proof (cases x)
    case (IUser u)
    then show ?thesis using that by (simp add: body_item_user body_parts_exact)
  next
    case (IToolResult t)
    then show ?thesis using that by (simp add: body_item_result images_field_def body_parts_exact)
  qed (simp_all add: body_item_def)
  then have "map (body_item frame) c = map (json_item frame) c"
    using clean by (induction c) simp_all
  then show ?thesis by (simp only: body_bytes_items json_items_def)
qed

text \<open>C39.
  The image budget never panics and never fails. Below the trigger, or at or below the target,
  nothing changes. Otherwise it takes out the oldest images and nothing else: of a user message an
  image gives way to the placeholder, of a tool result it is removed and the result says so once;
  calls and results keep their shape. It takes out no more than it must: as long as it goes on, the
  body is still above the target, not counting the twelve bytes of the \<open>images\<close> field of each tool
  result that has lost its last image. And it takes out enough: when the trigger is reached and no
  image is smaller than the placeholder that replaces it, the body ends at or below the target unless
  no image is left. The two sizes it reports are those of its own measure, which is the length of
  the encoding when every image URL is clean, that is no character behind its comma needs escaping.
\<close>

theorem image_budget_correct:
  fixes frame :: "conversation_item \<Rightarrow> nat" and c :: conv and trigger target :: nat
  shows "\<exists>c' outcome n. apply_image_budget_with_limits frame c trigger target = Some (c', outcome) \<and>
    evicted_images outcome = n \<and> c' = evict_oldest n c \<and>
    n \<le> inline_images outcome \<and> inline_images outcome = length (image_urls c) \<and>
    image_urls c' = drop n (image_urls c) \<and> map shape c' = map shape c \<and>
    body_bytes outcome = conversation_body_bytes frame c \<and>
    body_bytes_after outcome = conversation_body_bytes frame c' \<and>
    needs_image_compaction outcome = (trigger \<le> body_bytes outcome) \<and>
    (body_bytes outcome < trigger \<or> body_bytes outcome \<le> target \<longrightarrow> n = 0) \<and>
    (\<forall>j < n. target < conversation_body_bytes frame (evict_oldest j c) +
       12 * (bare_results (evict_oldest j c) - bare_results c)) \<and>
    (needs_image_compaction outcome \<and> list_all (\<lambda>u. placeholder_bytes \<le> url_cost u) (image_urls c) \<longrightarrow>
       body_bytes_after outcome \<le> target \<or> image_urls c' = []) \<and>
    (list_all clean_url (image_urls c) \<longrightarrow>
       body_bytes outcome = json_items frame c \<and> body_bytes_after outcome = json_items frame c')"
proof -
  let ?body = "conversation_body_bytes frame c"
  obtain n where loop: "evict_images_loop (discover_images 0 c) c ?body target 0 = Some (evict_oldest n c, 0 + n)"
    "n \<le> length (discover_images 0 c)"
    "list_all (\<lambda>(l, b). placeholder_bytes \<le> b) (discover_images 0 c) \<and> ?body \<le> ?body \<longrightarrow>
       conversation_body_bytes frame (evict_oldest n c) \<le> target \<or> n = length (discover_images 0 c)"
    "?body \<le> ?body + 0 \<longrightarrow> (\<forall>j < n. target < seen_bytes frame c j + 0)"
    using evict_loop_spec [OF refl, of c ?body target 0 frame 0] by blast
  have exact: "list_all clean_url (image_urls c) \<longrightarrow>
      conversation_body_bytes frame (evict_oldest m c) = json_items frame (evict_oldest m c)" for m
    using body_bytes_exact [of "evict_oldest m c" frame]
    by (auto simp: list_all_iff dest: in_set_dropD)
  show ?thesis
  proof (cases "trigger \<le> ?body \<and> target < ?body")
    case True
    have "conversation_body_bytes frame (evict_oldest n c) \<le> target \<or> image_urls (evict_oldest n c) = []"
      if "list_all (\<lambda>u. placeholder_bytes \<le> url_cost u) (image_urls c)"
      using loop(3) that discover_costs [of "\<lambda>b. placeholder_bytes \<le> b" 0 c]
      by (auto simp: comp_def discover_length)
    then show ?thesis
      using True loop(1,2,4) exact [of 0] exact [of n]
      by (auto simp: apply_image_budget_with_limits_def evict_images_to_budget_def Let_def
          inline_image_count_urls discover_length seen_bytes_def IMAGES_FIELD_BYTES_def)
  next
    case False
    then show ?thesis
      using exact [of 0]
      by (auto simp: apply_image_budget_with_limits_def Let_def inline_image_count_urls)
  qed
qed


definition sample_url :: rstring where
  "sample_url = lit ''data:image/png;base64,'' @ replicate 300 65"

definition sample_images :: conv where
  "sample_images = [user_with_parts [Text (lit ''look''), Image sample_url], user_with_parts [Image sample_url]]"

theorem image_budget_correct_witness:
  "\<exists>outcome. apply_image_budget_with_limits (\<lambda>_. 0) sample_images 600 700 = Some (evict_oldest 1 sample_images, outcome) \<and>
     evicted_images outcome = 1 \<and> body_bytes outcome = json_items (\<lambda>_. 0) sample_images \<and>
     body_bytes_after outcome \<le> 700"
proof -
  have urls: "image_urls sample_images = [sample_url, sample_url]"
    by (simp add: sample_images_def user_with_parts_def)
  have big: "placeholder_bytes \<le> url_cost sample_url" and clean: "clean_url sample_url" by code_simp+
  have body: "600 \<le> conversation_body_bytes (\<lambda>_. 0) sample_images"
    "700 < conversation_body_bytes (\<lambda>_. 0) sample_images"
    "conversation_body_bytes (\<lambda>_. 0) (evict_oldest 1 sample_images) +
       12 * (bare_results (evict_oldest 1 sample_images) - bare_results sample_images) \<le> 700" by code_simp+
  obtain c' outcome n where r: "apply_image_budget_with_limits (\<lambda>_. 0) sample_images 600 700 = Some (c', outcome)"
    "evicted_images outcome = n" "c' = evict_oldest n sample_images" "n \<le> 2"
    "image_urls c' = drop n [sample_url, sample_url]"
    "body_bytes outcome = conversation_body_bytes (\<lambda>_. 0) sample_images"
    "body_bytes_after outcome = conversation_body_bytes (\<lambda>_. 0) c'"
    "body_bytes outcome = json_items (\<lambda>_. 0) sample_images"
    and least: "\<forall>j < n. 700 < conversation_body_bytes (\<lambda>_. 0) (evict_oldest j sample_images) +
       12 * (bare_results (evict_oldest j sample_images) - bare_results sample_images)"
    and enough: "body_bytes_after outcome \<le> 700 \<or> image_urls c' = []"
    using image_budget_correct [of "\<lambda>_. 0" sample_images 600 700] urls big clean body(1) by fastforce
  have "n \<noteq> 2" using spec [OF least, of 1] body(3) by linarith
  moreover have "n \<noteq> 0"
  proof
    assume "n = 0"
    then show False using enough r(3,5,7) body(2) by simp
  qed
  ultimately have "n = 1" using r(4) by linarith
  then show ?thesis using r enough by auto
qed

text \<open>
  The accounting takes no note of an image that is smaller than the placeholder: replacing it makes
  the body grow, and the running size stays where it was.
\<close>

lemma small_image_grows:
  assumes "url_cost url < placeholder_bytes" "target < conversation_body_bytes frame [user_with_parts [Image url]]"
    "trigger \<le> conversation_body_bytes frame [user_with_parts [Image url]]"
  shows "\<exists>c' outcome. apply_image_budget_with_limits frame [user_with_parts [Image url]] trigger target = Some (c', outcome) \<and>
    evicted_images outcome = 1 \<and>
    body_bytes_after outcome = body_bytes outcome + (placeholder_bytes - url_cost url)"
  using assms
  by (simp add: apply_image_budget_with_limits_def evict_images_to_budget_def evict_one_def Let_def vec_get_def
      user_with_parts_def body_bytes_items body_item_user json_array_def url_cost_def placeholder_bytes_def)

end
