(* ===== verification/Usage_Ledger.thy ===== *)
theory Usage_Ledger
  imports Token_Estimate
begin

text \<open>
  The billing ledgers of a prompt and of a session (\<open>xai-chat-state/src/usage.rs\<close>) and the
  token usage they fold (\<open>TokenUsage\<close>, \<open>reported_cost_ticks\<close> in \<open>conversation.rs\<close>).
  Counters are \<open>u64\<close> with saturating addition; a cost is an \<open>i64\<close>, here an integer with its
  saturation written out. \<open>IndexMap\<close> keeps insertion order: it is an association list.
\<close>

definition saturating_add_u64 :: "u64 \<Rightarrow> u64 \<Rightarrow> u64" where
  "saturating_add_u64 a b = (if unat a + unat b < 2 ^ 64 then a + b else 0xFFFFFFFFFFFFFFFF)"

definition saturating_i64 :: "int \<Rightarrow> int" where
  "saturating_i64 x = max (- (2 ^ 63)) (min (2 ^ 63 - 1) x)"

record token_usage =
  prompt_tokens :: u32
  completion_tokens :: u32
  usage_total_tokens :: u32
  usage_reasoning_tokens :: u32
  cached_prompt_tokens :: u32
  cache_creation_prompt_tokens :: u32

definition reported_cost_ticks :: "int option \<Rightarrow> int option" where
  "reported_cost_ticks raw = (case raw of Some t \<Rightarrow> if 0 < t then Some t else None | None \<Rightarrow> None)"

record usage_totals =
  input_tokens :: u64
  output_tokens :: u64
  cached_read_tokens :: u64
  cache_creation_tokens :: u64
  reasoning_tokens :: u64
  model_calls :: u64
  api_duration_ms :: u64
  cost_missing_calls :: u64
  cost_usd_ticks :: "int option"

definition totals_default :: usage_totals where
  "totals_default =
     \<lparr>input_tokens = 0, output_tokens = 0, cached_read_tokens = 0, cache_creation_tokens = 0,
      reasoning_tokens = 0, model_calls = 0, api_duration_ms = 0, cost_missing_calls = 0,
      cost_usd_ticks = None\<rparr>"

definition from_call :: "token_usage \<Rightarrow> u64 option \<Rightarrow> int option \<Rightarrow> usage_totals" where
  "from_call usage duration_ms ticks =
     (let cost = reported_cost_ticks ticks
      in \<lparr>input_tokens = ucast (prompt_tokens usage),
          output_tokens = ucast (completion_tokens usage),
          cached_read_tokens = ucast (cached_prompt_tokens usage),
          cache_creation_tokens = ucast (cache_creation_prompt_tokens usage),
          reasoning_tokens = ucast (usage_reasoning_tokens usage),
          model_calls = 1,
          api_duration_ms = (case duration_ms of Some d \<Rightarrow> d | None \<Rightarrow> 0),
          cost_missing_calls = (if cost = None then 1 else 0),
          cost_usd_ticks = cost\<rparr>)"

definition totals_total_tokens :: "usage_totals \<Rightarrow> u64" where
  "totals_total_tokens t = saturating_add_u64 (input_tokens t) (output_tokens t)"

definition cost_is_partial :: "usage_totals \<Rightarrow> bool" where
  "cost_is_partial t \<longleftrightarrow> cost_usd_ticks t \<noteq> None \<and> 0 < cost_missing_calls t"

fun merge_cost_ticks :: "int option \<Rightarrow> int option \<Rightarrow> int option" where
  "merge_cost_ticks None None = None"
| "merge_cost_ticks a b =
     Some (saturating_i64 ((case a of Some x \<Rightarrow> x | None \<Rightarrow> 0) + (case b of Some y \<Rightarrow> y | None \<Rightarrow> 0)))"

definition fold_totals :: "usage_totals \<Rightarrow> usage_totals \<Rightarrow> usage_totals" where
  "fold_totals self other =
     \<lparr>input_tokens = saturating_add_u64 (input_tokens self) (input_tokens other),
      output_tokens = saturating_add_u64 (output_tokens self) (output_tokens other),
      cached_read_tokens = saturating_add_u64 (cached_read_tokens self) (cached_read_tokens other),
      cache_creation_tokens = saturating_add_u64 (cache_creation_tokens self) (cache_creation_tokens other),
      reasoning_tokens = saturating_add_u64 (reasoning_tokens self) (reasoning_tokens other),
      model_calls = saturating_add_u64 (model_calls self) (model_calls other),
      api_duration_ms = saturating_add_u64 (api_duration_ms self) (api_duration_ms other),
      cost_missing_calls = saturating_add_u64 (cost_missing_calls self) (cost_missing_calls other),
      cost_usd_ticks = merge_cost_ticks (cost_usd_ticks self) (cost_usd_ticks other)\<rparr>"

record usage_ledger =
  ledger_totals :: usage_totals
  by_model :: "(rstring \<times> usage_totals) list"
  main_loop_model_calls :: u64
  incomplete :: bool

definition ledger_default :: usage_ledger where
  "ledger_default =
     \<lparr>ledger_totals = totals_default, by_model = [], main_loop_model_calls = 0, incomplete = False\<rparr>"

text \<open>\<open>entry(model).or_default()\<close> on an insertion-ordered map.\<close>

fun update_entry :: "rstring \<Rightarrow> (usage_totals \<Rightarrow> usage_totals) \<Rightarrow> (rstring \<times> usage_totals) list \<Rightarrow>
    (rstring \<times> usage_totals) list" where
  "update_entry m f [] = [(m, f totals_default)]"
| "update_entry m f ((k, v) # es) = (if k = m then (k, f v) # es else (k, v) # update_entry m f es)"

definition fold_entry :: "rstring \<Rightarrow> usage_totals \<Rightarrow> usage_ledger \<Rightarrow> usage_ledger" where
  "fold_entry m t l =
     l\<lparr>ledger_totals := fold_totals (ledger_totals l) t,
       by_model := update_entry m (\<lambda>old. fold_totals old t) (by_model l)\<rparr>"

definition record_main_loop_call ::
  "rstring \<Rightarrow> token_usage \<Rightarrow> u64 option \<Rightarrow> int option \<Rightarrow> usage_ledger \<Rightarrow> usage_ledger" where
  "record_main_loop_call m usage duration_ms ticks l =
     fold_entry m (from_call usage duration_ms ticks)
       (l\<lparr>main_loop_model_calls := saturating_add_u64 (main_loop_model_calls l) 1\<rparr>)"

definition mark_incomplete :: "usage_ledger \<Rightarrow> usage_ledger" where
  "mark_incomplete l = l\<lparr>incomplete := True\<rparr>"

definition record_subagent :: "(rstring \<times> usage_totals) list \<Rightarrow> bool \<Rightarrow> usage_ledger \<Rightarrow> usage_ledger" where
  "record_subagent entries inc l =
     (let l' = foldl (\<lambda>acc (m, t). fold_entry m t acc) l entries
      in if inc then l'\<lparr>incomplete := True\<rparr> else l')"

section \<open>The bill as a sum\<close>

text \<open>The operations of a ledger, and the entries each of them bills.\<close>

datatype ledger_op =
    MainLoopCall rstring token_usage "u64 option" "int option"
  | SubagentUsage "(rstring \<times> usage_totals) list" bool
  | MarkIncomplete

fun ledger_step :: "usage_ledger \<Rightarrow> ledger_op \<Rightarrow> usage_ledger" where
  "ledger_step l (MainLoopCall m u d c) = record_main_loop_call m u d c l"
| "ledger_step l (SubagentUsage es inc) = record_subagent es inc l"
| "ledger_step l MarkIncomplete = mark_incomplete l"

fun billed :: "ledger_op \<Rightarrow> (rstring \<times> usage_totals) list" where
  "billed (MainLoopCall m u d c) = [(m, from_call u d c)]"
| "billed (SubagentUsage es inc) = es"
| "billed MarkIncomplete = []"

definition usage_fields :: "(usage_totals \<Rightarrow> u64) list" where
  "usage_fields = [input_tokens, output_tokens, cached_read_tokens, cache_creation_tokens,
     reasoning_tokens, model_calls, api_duration_ms, cost_missing_calls]"

definition capped_sum :: "nat list \<Rightarrow> nat" where
  "capped_sum ns = min (2 ^ 64 - 1) (sum_list ns)"

definition bill_of :: "usage_totals list \<Rightarrow> nat list" where
  "bill_of ts = map (\<lambda>f. capped_sum (map (\<lambda>t. unat (f t)) ts)) usage_fields"

definition counters :: "usage_totals \<Rightarrow> nat list" where
  "counters t = map (\<lambda>f. unat (f t)) usage_fields"

text \<open>The cost of entries that report no negative cost.\<close>

definition cost_of :: "usage_totals list \<Rightarrow> int option" where
  "cost_of ts =
     (let cs = List.map_filter cost_usd_ticks ts
      in if cs = [] then None else Some (min (2 ^ 63 - 1) (sum_list cs)))"

section \<open>Lemmas\<close>

lemma saturating_add_u64_unat [bounds_simps]:
  "unat (saturating_add_u64 a b) = min (2 ^ 64 - 1) (unat a + unat b)"
  by (auto simp: saturating_add_u64_def unat_add_lem [THEN iffD1] min_def)

lemma counters_fold:
  "counters (fold_totals a b) = map (min (2 ^ 64 - 1)) (map2 (+) (counters a) (counters b))"
  by (simp add: counters_def usage_fields_def fold_totals_def bounds_simps)

lemma capped_sum_snoc: "capped_sum (ns @ [n]) = min (2 ^ 64 - 1) (capped_sum ns + n)"
  by (simp add: capped_sum_def)

lemma bill_of_snoc:
  "bill_of (ts @ [t]) = map (min (2 ^ 64 - 1)) (map2 (+) (bill_of ts) (counters t))"
  by (simp add: bill_of_def counters_def usage_fields_def capped_sum_snoc)

lemma counters_default: "counters totals_default = bill_of []"
  by (simp add: counters_def bill_of_def usage_fields_def totals_default_def capped_sum_def)

definition nonneg_cost :: "usage_totals \<Rightarrow> bool" where
  "nonneg_cost t \<longleftrightarrow> (case cost_usd_ticks t of Some c \<Rightarrow> 0 \<le> c | None \<Rightarrow> True)"

lemma from_call_cost: "nonneg_cost (from_call u d c)"
  by (auto simp: nonneg_cost_def from_call_def reported_cost_ticks_def Let_def split: option.splits)

lemma map_filter_cost_nonneg:
  "list_all nonneg_cost ts \<Longrightarrow> 0 \<le> sum_list (List.map_filter cost_usd_ticks ts)"
  by (induction ts) (auto simp: map_filter_simps nonneg_cost_def split: option.splits)

lemma cost_of_snoc:
  assumes "list_all nonneg_cost ts" "nonneg_cost t"
  shows "cost_of (ts @ [t]) = merge_cost_ticks (cost_of ts) (cost_usd_ticks t)"
proof -
  have "0 \<le> sum_list (List.map_filter cost_usd_ticks ts)"
    using assms(1) by (rule map_filter_cost_nonneg)
  then show ?thesis
    using assms(2)
    by (cases "cost_usd_ticks t")
      (auto simp: cost_of_def map_filter_append map_filter_simps Let_def nonneg_cost_def saturating_i64_def
        min_def max_def)
qed

text \<open>What a total says about the entries folded into it.\<close>

definition totals_match :: "usage_totals \<Rightarrow> usage_totals list \<Rightarrow> bool" where
  "totals_match t ts \<longleftrightarrow> counters t = bill_of ts \<and> (list_all nonneg_cost ts \<longrightarrow> cost_usd_ticks t = cost_of ts)"

lemma totals_match_default: "totals_match totals_default []"
  using counters_default by (simp add: totals_match_def cost_of_def map_filter_simps) (simp add: totals_default_def)

lemma totals_match_fold:
  "totals_match a ts \<Longrightarrow> totals_match (fold_totals a t) (ts @ [t])"
  by (auto simp: totals_match_def counters_fold bill_of_snoc cost_of_snoc) (simp add: fold_totals_def)

definition of_model :: "rstring \<Rightarrow> (rstring \<times> usage_totals) list \<Rightarrow> usage_totals list" where
  "of_model m es = map snd (filter (\<lambda>e. fst e = m) es)"

lemma of_model_simps [simp]:
  "of_model m [] = []"
  "of_model m (es @ es') = of_model m es @ of_model m es'"
  "of_model m [(k, t)] = (if k = m then [t] else [])"
  by (simp_all add: of_model_def)

lemma map_of_update_entry:
  "map_of (update_entry m f es) k =
     (if k = m then Some (f (case map_of es m of Some v \<Rightarrow> v | None \<Rightarrow> totals_default)) else map_of es k)"
  by (induction es) auto

lemma keys_update_entry:
  "map fst (update_entry m f es) = (if m \<in> fst ` set es then map fst es else map fst es @ [m])"
  by (induction es) force+

text \<open>The ledger agrees with the entries billed so far; its models are in order of first use.\<close>

definition ledger_inv :: "(rstring \<times> usage_totals) list \<Rightarrow> usage_ledger \<Rightarrow> bool" where
  "ledger_inv es l \<longleftrightarrow>
     totals_match (ledger_totals l) (map snd es) \<and>
     map fst (by_model l) = rev (remdups (rev (map fst es))) \<and>
     (\<forall>m t. map_of (by_model l) m = Some t \<longrightarrow> totals_match t (of_model m es))"

lemma of_model_absent: "m \<notin> fst ` set es \<Longrightarrow> of_model m es = []"
  by (induction es) (auto simp: of_model_def)

lemma remdups_rev_snoc:
  "rev (remdups (rev (ks @ [k]))) = (if k \<in> set ks then rev (remdups (rev ks)) else rev (remdups (rev ks)) @ [k])"
  by simp


lemma ledger_inv_fold_entry:
  assumes "ledger_inv es l"
  shows "ledger_inv (es @ [(m, t)]) (fold_entry m t l)"
proof -
  let ?old = "case map_of (by_model l) m of Some v \<Rightarrow> v | None \<Rightarrow> totals_default"
  have keys: "fst ` set (by_model l) = fst ` set es"
    using assms by (metis ledger_inv_def list.set_map set_remdups set_rev)
  have old: "totals_match ?old (of_model m es)"
  proof (cases "map_of (by_model l) m")
    case None
    then have "m \<notin> fst ` set es" using keys by (simp add: map_of_eq_None_iff)
    then show ?thesis using None by (simp add: of_model_absent totals_match_default)
  qed (use assms in \<open>simp add: ledger_inv_def\<close>)
  have "totals_match (fold_totals (ledger_totals l) t) (map snd es @ [t])"
    using assms by (simp add: ledger_inv_def totals_match_fold)
  moreover have "map fst (update_entry m (\<lambda>prev. fold_totals prev t) (by_model l)) =
      rev (remdups (rev (map fst es @ [m])))"
    using assms keys unfolding remdups_rev_snoc by (simp add: keys_update_entry ledger_inv_def)
  ultimately show ?thesis
    using assms totals_match_fold [OF old]
    by (simp add: ledger_inv_def fold_entry_def map_of_update_entry)
qed

lemma ledger_inv_fold:
  "ledger_inv es l \<Longrightarrow> ledger_inv (es @ es') (foldl (\<lambda>acc (m, t). fold_entry m t acc) l es')"
proof (induction es' arbitrary: es l)
  case (Cons e es')
  obtain m t where e: "e = (m, t)" by force
  show ?case using Cons.IH [OF ledger_inv_fold_entry [OF Cons.prems, of m t]] by (simp add: e)
qed simp

lemma fold_entry_flags [simp]:
  "main_loop_model_calls (fold_entry m t l) = main_loop_model_calls l"
  "incomplete (fold_entry m t l) = incomplete l"
  by (simp_all add: fold_entry_def)

lemma foldl_entry_flags [simp]:
  "main_loop_model_calls (foldl (\<lambda>acc (m, t). fold_entry m t acc) l es) = main_loop_model_calls l"
  "incomplete (foldl (\<lambda>acc (m, t). fold_entry m t acc) l es) = incomplete l"
  by (induction es arbitrary: l) auto

lemma ledger_inv_flags [simp]:
  "ledger_inv es (l\<lparr>main_loop_model_calls := c\<rparr>) = ledger_inv es l"
  "ledger_inv es (l\<lparr>incomplete := b\<rparr>) = ledger_inv es l"
  by (simp_all add: ledger_inv_def)

lemma ledger_inv_step: "ledger_inv es l \<Longrightarrow> ledger_inv (es @ billed op) (ledger_step l op)"
  by (cases op)
    (auto simp: record_main_loop_call_def record_subagent_def mark_incomplete_def Let_def
      intro!: ledger_inv_fold_entry ledger_inv_fold)

fun is_main_call :: "ledger_op \<Rightarrow> bool" where
  "is_main_call (MainLoopCall _ _ _ _) = True"
| "is_main_call _ = False"

fun marks_incomplete :: "ledger_op \<Rightarrow> bool" where
  "marks_incomplete (SubagentUsage _ inc) = inc"
| "marks_incomplete MarkIncomplete = True"
| "marks_incomplete _ = False"

lemma unat_u64_cap: "min 18446744073709551615 (unat (w :: u64)) = unat w"
proof -
  have "unat w < 2 ^ LENGTH(64)" by (rule unsigned_less)
  then show ?thesis by simp
qed

lemma ledger_step_flags:
  "unat (main_loop_model_calls (ledger_step l op)) =
     min (2 ^ 64 - 1) (unat (main_loop_model_calls l) + (if is_main_call op then 1 else 0))"
proof (cases op)
  case (MainLoopCall m u d c)
  then show ?thesis by (simp add: record_main_loop_call_def bounds_simps)
qed (simp_all add: record_subagent_def mark_incomplete_def Let_def unat_u64_cap)

lemma ledger_step_incomplete: "incomplete (ledger_step l op) \<longleftrightarrow> incomplete l \<or> marks_incomplete op"
  by (cases op) (simp_all add: record_main_loop_call_def record_subagent_def mark_incomplete_def Let_def)

lemma ledger_run:
  "ledger_inv (concat (map billed ops)) (foldl ledger_step ledger_default ops) \<and>
   unat (main_loop_model_calls (foldl ledger_step ledger_default ops)) =
     min (2 ^ 64 - 1) (length (filter is_main_call ops)) \<and>
   (incomplete (foldl ledger_step ledger_default ops) \<longleftrightarrow> list_ex marks_incomplete ops)"
proof (induction ops rule: rev_induct)
  case Nil
  then show ?case
    using totals_match_default by (simp add: ledger_inv_def ledger_default_def)
next
  case (snoc op ops)
  then show ?case
    using ledger_inv_step [of "concat (map billed ops)" "foldl ledger_step ledger_default ops" op]
    by (simp add: ledger_step_flags ledger_step_incomplete min_def)
qed

text \<open>C40.
  The bill is an exact sum. After any sequence of ledger operations every counter of the totals is
  the sum of that counter over all billed entries, capped at the largest \<open>u64\<close>, and every counter of
  a model's line is the capped sum over the entries of that model; the models appear once each, in
  the order of their first entry. As long as no entry carries a negative cost, which
  \<open>from_call\<close> never produces, a cost is present exactly when some entry reports one and is the
  capped sum of the reported ones. Only main-loop calls are counted as turns, and the ledger is
  incomplete exactly when some operation said so.
\<close>

theorem usage_ledger_exact:
  fixes ops :: "ledger_op list"
  defines "l \<equiv> foldl ledger_step ledger_default ops" and "es \<equiv> concat (map billed ops)"
  shows "counters (ledger_totals l) = bill_of (map snd es) \<and>
    map fst (by_model l) = rev (remdups (rev (map fst es))) \<and>
    (\<forall>m t. map_of (by_model l) m = Some t \<longrightarrow>
       counters t = bill_of (of_model m es) \<and>
       (list_all nonneg_cost (of_model m es) \<longrightarrow> cost_usd_ticks t = cost_of (of_model m es))) \<and>
    (list_all nonneg_cost (map snd es) \<longrightarrow> cost_usd_ticks (ledger_totals l) = cost_of (map snd es)) \<and>
    unat (main_loop_model_calls l) = min (2 ^ 64 - 1) (length (filter is_main_call ops)) \<and>
    (incomplete l \<longleftrightarrow> list_ex marks_incomplete ops)"
  using ledger_run [of ops] by (simp add: l_def es_def ledger_inv_def totals_match_def)

definition sample_usage :: token_usage where
  "sample_usage =
     \<lparr>prompt_tokens = 100, completion_tokens = 10, usage_total_tokens = 110, usage_reasoning_tokens = 0,
      cached_prompt_tokens = 0, cache_creation_prompt_tokens = 0\<rparr>"

definition sample_bill :: "ledger_op list" where
  "sample_bill = [MainLoopCall (lit ''a'') sample_usage None (Some 70), MarkIncomplete,
     MainLoopCall (lit ''b'') sample_usage None None]"

theorem usage_ledger_exact_witness:
  "cost_usd_ticks (ledger_totals (foldl ledger_step ledger_default sample_bill)) = Some 70 \<and>
   map fst (by_model (foldl ledger_step ledger_default sample_bill)) = [lit ''a'', lit ''b''] \<and>
   incomplete (foldl ledger_step ledger_default sample_bill)"
proof -
  have c: "list_all nonneg_cost (map snd (concat (map billed sample_bill)))"
    by (simp add: sample_bill_def from_call_cost)
  have v: "cost_of (map snd (concat (map billed sample_bill))) = Some 70"
    by (simp add: sample_bill_def cost_of_def from_call_def reported_cost_ticks_def map_filter_simps Let_def)
  show ?thesis
    using usage_ledger_exact [of sample_bill] c v by (simp add: sample_bill_def lit_simps)
qed

end
