(* ===== verification/Chat_Queries.thy ===== *)
theory Chat_Queries
  imports Chat_Prep
begin

text \<open>
  The read-only queries of the chat-state actor over a history
  (\<open>xai-chat-state/src/actor/queries.rs\<close>). Every walk from the newest item is a recursion on the
  reversed history.
\<close>

record conversation_counts =
  total_items :: nat
  user_items :: nat
  assistant_items :: nat
  tool_result_items :: nat

definition has_visible_text :: "assistant_item \<Rightarrow> bool" where
  "has_visible_text a \<longleftrightarrow> trim (asst_content a) \<noteq> []"

text \<open>A user item that opens a prompt turn.\<close>

fun opens_turn :: "conversation_item \<Rightarrow> bool" where
  "opens_turn (IUser u) = (prompt_index u \<noteq> None \<or> starts_prompt_turn (user_reason u))"
| "opens_turn _ = False"

fun last_assistant_text :: "conv \<Rightarrow> rstring option" where
  "last_assistant_text [] = None"
| "last_assistant_text (IAssistant a # xs) =
     (if has_visible_text a then Some (asst_content a) else last_assistant_text xs)"
| "last_assistant_text (_ # xs) = last_assistant_text xs"

definition get_last_assistant_text :: "conv \<Rightarrow> rstring option" where
  "get_last_assistant_text c = last_assistant_text (rev c)"

fun last_model_metadata :: "conv \<Rightarrow> rstring option \<times> rstring option" where
  "last_model_metadata [] = (None, None)"
| "last_model_metadata (IAssistant a # xs) = (model_id a, model_fingerprint a)"
| "last_model_metadata (_ # xs) = last_model_metadata xs"

definition get_last_model_metadata :: "conv \<Rightarrow> rstring option \<times> rstring option" where
  "get_last_model_metadata c = last_model_metadata (rev c)"

text \<open>The first loop finds the last text of the turn and what is left to walk.\<close>

fun seek_report :: "conv \<Rightarrow> (rstring \<times> conv) option" where
  "seek_report [] = None"
| "seek_report (IAssistant a # xs) =
     (if has_visible_text a then Some (asst_content a, xs) else seek_report xs)"
| "seek_report (x # xs) = (if opens_turn x then None else seek_report xs)"

text \<open>The second loop gathers the earlier segments, newest first.\<close>

fun report_segments :: "conv \<Rightarrow> rstring list" where
  "report_segments (IAssistant a # xs) =
     (if tool_calls a \<noteq> [] then []
      else if has_visible_text a then asst_content a # report_segments xs
      else report_segments xs)"
| "report_segments (IReasoning r # xs) = report_segments xs"
| "report_segments (IUser u # xs) = (if user_reason u = LengthContinue then report_segments xs else [])"
| "report_segments _ = []"

definition get_trailing_assistant_report :: "conv \<Rightarrow> rstring option" where
  "get_trailing_assistant_report c =
     (case seek_report (rev c) of
        None \<Rightarrow> None
      | Some (s, rest) \<Rightarrow> Some (concat (rev (s # report_segments rest))))"

fun texts_in_turn :: "conv \<Rightarrow> rstring list" where
  "texts_in_turn [] = []"
| "texts_in_turn (IAssistant a # xs) =
     (if has_visible_text a then asst_content a # texts_in_turn xs else texts_in_turn xs)"
| "texts_in_turn (x # xs) = (if opens_turn x then [] else texts_in_turn xs)"

definition assistant_texts_in_turn :: "conv \<Rightarrow> rstring list" where
  "assistant_texts_in_turn c = rev (texts_in_turn (rev c))"

definition get_last_assistant_text_in_turn :: "conv \<Rightarrow> rstring option" where
  "get_last_assistant_text_in_turn c =
     (if assistant_texts_in_turn c = [] then None else Some (last (assistant_texts_in_turn c)))"

definition get_assistant_text_in_turn :: "conv \<Rightarrow> rstring option" where
  "get_assistant_text_in_turn c =
     (if assistant_texts_in_turn c = [] then None else Some (join [nl] (assistant_texts_in_turn c)))"

text \<open>\<open>find_map\<close> goes on to the next user item when the first part of one is no text.\<close>

fun get_first_user_text :: "conv \<Rightarrow> rstring option" where
  "get_first_user_text [] = None"
| "get_first_user_text (IUser u # xs) =
     (case user_content u of Text t # _ \<Rightarrow> Some t | _ \<Rightarrow> get_first_user_text xs)"
| "get_first_user_text (_ # xs) = get_first_user_text xs"

definition get_conversation_item_at :: "conv \<Rightarrow> nat \<Rightarrow> conversation_item option" where
  "get_conversation_item_at c i = vec_get c i"

fun count_item :: "conversation_counts \<Rightarrow> conversation_item \<Rightarrow> conversation_counts" where
  "count_item n (IUser _) = n\<lparr>user_items := user_items n + 1\<rparr>"
| "count_item n (IAssistant _) = n\<lparr>assistant_items := assistant_items n + 1\<rparr>"
| "count_item n (IToolResult _) = n\<lparr>tool_result_items := tool_result_items n + 1\<rparr>"
| "count_item n _ = n"

definition get_conversation_counts :: "conv \<Rightarrow> conversation_counts" where
  "get_conversation_counts c =
     foldl count_item \<lparr>total_items = length c, user_items = 0, assistant_items = 0, tool_result_items = 0\<rparr> c"

definition get_system_message :: "conv \<Rightarrow> conversation_item option" where
  "get_system_message c = find is_system_item c"

section \<open>The report of a turn\<close>

text \<open>
  The items a salvaged answer is made of: its text segments without calls, reasoning between them,
  and the reminders to continue.
\<close>

fun salvage_item :: "conversation_item \<Rightarrow> bool" where
  "salvage_item (IAssistant a) = (tool_calls a = [] \<and> has_visible_text a)"
| "salvage_item (IReasoning _) = True"
| "salvage_item (IUser u) = (user_reason u = LengthContinue \<and> prompt_index u = None)"
| "salvage_item _ = False"

fun segment_text :: "conversation_item \<Rightarrow> rstring" where
  "segment_text (IAssistant a) = asst_content a"
| "segment_text _ = []"

lemma report_segments_salvage:
  "list_all salvage_item body \<Longrightarrow> opens_turn u \<Longrightarrow> reason_of u \<noteq> Some LengthContinue \<Longrightarrow>
   concat (rev (report_segments (rev body @ u # pre))) = concat (map segment_text body)"
proof (induction body rule: rev_induct)
  case Nil
  then show ?case by (cases u) (auto split: if_splits)
next
  case (snoc x body)
  then show ?case by (cases x) auto
qed

lemma seek_report_salvage:
  "list_all salvage_item body \<Longrightarrow> opens_turn u \<Longrightarrow> reason_of u \<noteq> Some LengthContinue \<Longrightarrow>
   (case seek_report (rev body @ u # pre) of
      None \<Rightarrow> \<not> list_ex is_assistant_item body
    | Some (s, rest) \<Rightarrow> list_ex is_assistant_item body \<and>
        concat (rev (s # report_segments rest)) = concat (map segment_text body))"
proof (induction body rule: rev_induct)
  case Nil
  then show ?case by (cases u) auto
next
  case (snoc x body)
  have tail: "concat (rev (report_segments (rev body @ u # pre))) = concat (map segment_text body)"
    using snoc.prems by (intro report_segments_salvage) simp_all
  show ?case
  proof (cases x)
    case (IUser v)
    then have "\<not> opens_turn x" using snoc.prems by simp
    then show ?thesis using snoc IUser by (auto split: option.splits)
  qed (use snoc tail in \<open>auto split: option.splits\<close>)
qed

text \<open>
  A turn whose answer was cut and continued is reported whole: where every item behind the prompt
  is a text segment, reasoning or a reminder to continue, the report is the segments joined in
  order with nothing between them, and there is one exactly when there is a segment.
\<close>

theorem trailing_report_whole:
  assumes "list_all salvage_item body" "opens_turn u" "reason_of u \<noteq> Some LengthContinue"
  shows "get_trailing_assistant_report (pre @ u # body) =
    (if list_ex is_assistant_item body then Some (concat (map segment_text body)) else None)"
  using seek_report_salvage [OF assms, of "rev pre"]
  by (auto simp: get_trailing_assistant_report_def split: option.splits)

text \<open>The texts of a turn never reach behind the item that opened it.\<close>

lemma texts_in_turn_append:
  "\<not> list_ex opens_turn xs \<Longrightarrow> opens_turn u \<Longrightarrow> texts_in_turn (xs @ u # pre) = texts_in_turn xs"
proof (induction xs)
  case Nil
  then show ?case by (cases u) auto
next
  case (Cons x xs)
  then show ?case by (cases x) auto
qed

lemma texts_in_turn_boundary:
  "opens_turn u \<Longrightarrow> \<not> list_ex opens_turn post \<Longrightarrow>
   assistant_texts_in_turn (pre @ u # post) = assistant_texts_in_turn post"
  by (simp add: assistant_texts_in_turn_def texts_in_turn_append)

lemma conversation_counts_exact:
  "get_conversation_counts c =
     \<lparr>total_items = length c, user_items = length (filter is_user_item c),
      assistant_items = length (filter is_assistant_item c),
      tool_result_items = length (filter is_result_item c)\<rparr>"
proof -
  have "foldl count_item n c =
      n\<lparr>user_items := user_items n + length (filter is_user_item c),
        assistant_items := assistant_items n + length (filter is_assistant_item c),
        tool_result_items := tool_result_items n + length (filter is_result_item c)\<rparr>" for n
  proof (induction c arbitrary: n)
    case (Cons x c)
    then show ?case by (cases x) simp_all
  qed simp
  then show ?thesis by (simp add: get_conversation_counts_def)
qed


text \<open>
  A first user message that opens with an image does not end the search for the first user text:
  the text of a later user message is returned.
\<close>

lemma first_user_text_scans_on:
  "get_first_user_text [user_with_parts [Image url], user t] = Some t"
  by (simp add: user_with_parts_def user_def synthetic_user_def)

end
