(* ===== verification/Prompt_Rewind.thy ===== *)
theory Prompt_Rewind
  imports Conversation
begin

text \<open>
  Rewinding a conversation to the start of a prompt turn (\<open>conversation.rs\<close>:
  \<open>conversation_truncate_for_prompt\<close>). New sessions record the turn index on the user item that
  opens the turn; older items are counted. Each loop of the source is a recursion over the
  remaining items with the position as an argument; the position behind the last item is the
  length of the conversation.
\<close>

section \<open>The source's loops\<close>

fun item_marker :: "conversation_item \<Rightarrow> nat option" where
  "item_marker (IUser u) = prompt_index u"
| "item_marker _ = None"

definition first_marker :: "conversation_item list \<Rightarrow> nat option" where
  "first_marker c = (case List.map_filter item_marker c of [] \<Rightarrow> None | m # _ \<Rightarrow> Some m)"

fun markers_only_loop :: "nat \<Rightarrow> nat \<Rightarrow> conversation_item list \<Rightarrow> nat" where
  "markers_only_loop target i [] = i"
| "markers_only_loop target i (x # xs) =
     (case item_marker x of
        Some idx \<Rightarrow> if target \<le> idx then i else markers_only_loop target (i + 1) xs
      | None \<Rightarrow> markers_only_loop target (i + 1) xs)"

definition conversation_truncate_markers_only :: "conversation_item list \<Rightarrow> nat \<Rightarrow> nat" where
  "conversation_truncate_markers_only c target = markers_only_loop target 0 c"

text \<open>The effective index of an unmarked user item and whether the preamble has been seen.\<close>

definition unmarked_index :: "bool \<Rightarrow> nat \<Rightarrow> synthetic_reason \<Rightarrow> nat option \<times> bool" where
  "unmarked_index seen_preamble nxt r =
     (if r = Human \<and> \<not> seen_preamble then (None, True)
      else if r = Human then (Some nxt, seen_preamble)
      else if starts_prompt_turn r then (Some nxt, seen_preamble)
      else (None, seen_preamble))"

fun legacy_cut_loop :: "nat \<Rightarrow> bool \<Rightarrow> nat \<Rightarrow> nat \<Rightarrow> conversation_item list \<Rightarrow> nat" where
  "legacy_cut_loop target seen_preamble nxt i [] = i"
| "legacy_cut_loop target seen_preamble nxt i (x # xs) =
     (case x of
        IUser u \<Rightarrow>
          (case unmarked_index seen_preamble nxt (user_reason u) of
             (Some idx, seen) \<Rightarrow> if target \<le> idx then i else legacy_cut_loop target seen (idx + 1) (i + 1) xs
           | (None, seen) \<Rightarrow> legacy_cut_loop target seen nxt (i + 1) xs)
      | _ \<Rightarrow> legacy_cut_loop target seen_preamble nxt (i + 1) xs)"

definition conversation_truncate_legacy :: "conversation_item list \<Rightarrow> nat \<Rightarrow> nat" where
  "conversation_truncate_legacy c target = legacy_cut_loop target False 0 0 c"

fun count_legacy_loop :: "bool \<Rightarrow> nat \<Rightarrow> conversation_item list \<Rightarrow> nat" where
  "count_legacy_loop seen_preamble turns [] = turns"
| "count_legacy_loop seen_preamble turns (x # xs) =
     (case x of
        IUser u \<Rightarrow>
          if prompt_index u \<noteq> None then turns
          else if user_reason u = Human \<and> \<not> seen_preamble then count_legacy_loop True turns xs
          else if user_reason u = Human \<or> starts_prompt_turn (user_reason u)
          then count_legacy_loop seen_preamble (turns + 1) xs
          else count_legacy_loop seen_preamble turns xs
      | _ \<Rightarrow> count_legacy_loop seen_preamble turns xs)"

definition count_legacy_turns_until_marker :: "conversation_item list \<Rightarrow> nat" where
  "count_legacy_turns_until_marker c = count_legacy_loop False 0 c"

fun progressive_loop :: "nat \<Rightarrow> bool \<Rightarrow> bool \<Rightarrow> nat \<Rightarrow> nat \<Rightarrow> conversation_item list \<Rightarrow> nat" where
  "progressive_loop target seen_preamble seen_marker nxt i [] = i"
| "progressive_loop target seen_preamble seen_marker nxt i (x # xs) =
     (case x of
        IUser u \<Rightarrow>
          (case prompt_index u of
             Some idx \<Rightarrow>
               if target \<le> idx then i else progressive_loop target seen_preamble True nxt (i + 1) xs
           | None \<Rightarrow>
               if seen_marker then progressive_loop target seen_preamble seen_marker nxt (i + 1) xs
               else
                 (case unmarked_index seen_preamble nxt (user_reason u) of
                    (Some idx, seen) \<Rightarrow>
                      if target \<le> idx then i
                      else progressive_loop target seen seen_marker (idx + 1) (i + 1) xs
                  | (None, seen) \<Rightarrow> progressive_loop target seen seen_marker nxt (i + 1) xs))
      | _ \<Rightarrow> progressive_loop target seen_preamble seen_marker nxt (i + 1) xs)"

definition conversation_truncate_progressive :: "conversation_item list \<Rightarrow> nat \<Rightarrow> nat" where
  "conversation_truncate_progressive c target = progressive_loop target False False 0 0 c"

definition conversation_truncate_for_prompt :: "conversation_item list \<Rightarrow> nat \<Rightarrow> nat" where
  "conversation_truncate_for_prompt c target =
     (case first_marker c of
        None \<Rightarrow> conversation_truncate_legacy c target
      | Some first_marker_idx \<Rightarrow>
          if count_legacy_turns_until_marker c \<noteq> first_marker_idx
          then conversation_truncate_markers_only c target
          else conversation_truncate_progressive c target)"

section \<open>Turn numbering\<close>

text \<open>
  The specification: \<open>turn_numbers\<close> gives every item the number of the turn it opens. Before the
  first marker the turns are counted from zero, the first unmarked human item is the preamble;
  from the first marker on only marked items open turns. \<open>marked\<close> ignores the unmarked ones.
\<close>

fun turn_numbers :: "bool \<Rightarrow> bool \<Rightarrow> nat \<Rightarrow> conversation_item list \<Rightarrow> nat option list" where
  "turn_numbers seen_preamble seen_marker nxt [] = []"
| "turn_numbers seen_preamble seen_marker nxt (x # xs) =
     (case x of
        IUser u \<Rightarrow>
          (case prompt_index u of
             Some idx \<Rightarrow> Some idx # turn_numbers seen_preamble True nxt xs
           | None \<Rightarrow>
               if seen_marker then None # turn_numbers seen_preamble seen_marker nxt xs
               else
                 (case unmarked_index seen_preamble nxt (user_reason u) of
                    (Some idx, seen) \<Rightarrow> Some idx # turn_numbers seen seen_marker (idx + 1) xs
                  | (None, seen) \<Rightarrow> None # turn_numbers seen seen_marker nxt xs))
      | _ \<Rightarrow> None # turn_numbers seen_preamble seen_marker nxt xs)"

fun first_from :: "nat \<Rightarrow> nat option list \<Rightarrow> nat" where
  "first_from target [] = 0"
| "first_from target (n # ns) =
     (case n of Some k \<Rightarrow> if target \<le> k then 0 else Suc (first_from target ns) | None \<Rightarrow> Suc (first_from target ns))"

definition numbers :: "conversation_item list \<Rightarrow> nat option list" where
  "numbers c =
     (if first_marker c \<noteq> None \<and> Some (count_legacy_turns_until_marker c) \<noteq> first_marker c
      then map item_marker c else turn_numbers False False 0 c)"

lemma markers_only_first: "markers_only_loop t i c = i + first_from t (map item_marker c)"
  by (induction c arbitrary: i) (auto split: option.splits)

lemma progressive_first: "progressive_loop t p m n i c = i + first_from t (turn_numbers p m n c)"
  by (induction c arbitrary: p m n i)
    (auto split: conversation_item.splits option.splits prod.splits)

lemma legacy_first:
  "List.map_filter item_marker c = [] \<Longrightarrow> legacy_cut_loop t p n i c = i + first_from t (turn_numbers p False n c)"
proof (induction c arbitrary: p n i)
  case (Cons x c)
  then have "List.map_filter item_marker c = []" "item_marker x = None"
    by (auto simp: map_filter_def split: option.splits if_splits)
  then show ?case using Cons.IH
    by (cases x) (auto split: option.splits prod.splits)
qed simp

lemma truncate_first: "conversation_truncate_for_prompt c t = first_from t (numbers c)"
proof (cases "List.map_filter item_marker c")
  case Nil
  then have "first_marker c = None" by (simp add: first_marker_def)
  then show ?thesis using legacy_first [OF Nil, of t False 0 0]
    by (simp add: conversation_truncate_for_prompt_def conversation_truncate_legacy_def numbers_def)
next
  case (Cons m ms)
  then have "first_marker c = Some m" by (simp add: first_marker_def)
  then show ?thesis
    by (auto simp: conversation_truncate_for_prompt_def conversation_truncate_markers_only_def
        conversation_truncate_progressive_def markers_only_first progressive_first numbers_def)
qed

lemma length_turn_numbers [simp]: "length (turn_numbers p m n c) = length c"
  by (induction c arbitrary: p m n) (auto split: conversation_item.splits option.splits prod.splits)

lemma length_numbers [simp]: "length (numbers c) = length c"
  by (simp add: numbers_def)

lemma first_from_le: "first_from t ns \<le> length ns"
  by (induction ns) (auto split: option.splits)

lemma first_from_before: "i < first_from t ns \<Longrightarrow> ns ! i = Some k \<Longrightarrow> k < t"
proof (induction ns arbitrary: i)
  case (Cons a ns)
  then show ?case by (cases i) (auto split: option.splits if_splits)
qed simp

lemma first_from_at: "first_from t ns < length ns \<Longrightarrow> \<exists>k \<ge> t. ns ! first_from t ns = Some k"
  by (induction ns) (auto split: option.splits)

lemma first_from_mono: "t \<le> t' \<Longrightarrow> first_from t ns \<le> first_from t' ns"
  by (induction ns) (auto split: option.splits)

lemma first_from_take: "first_from t (take (first_from t ns) ns) = first_from t ns"
  by (induction ns) (auto split: option.splits)

lemma turn_numbers_marked:
  "i < length c \<Longrightarrow> item_marker (c ! i) = Some m \<Longrightarrow> turn_numbers p q n c ! i = Some m"
proof (induction c arbitrary: i p q n)
  case (Cons x c)
  then show ?case
    by (cases i; cases x) (auto split: option.splits prod.splits)
qed simp

lemma numbers_marked: "i < length c \<Longrightarrow> item_marker (c ! i) = Some m \<Longrightarrow> numbers c ! i = Some m"
  by (simp add: numbers_def turn_numbers_marked)

lemma count_legacy_ge: "n \<le> count_legacy_loop p n c"
proof (induction c arbitrary: p n)
  case (Cons x c)
  have "n \<le> count_legacy_loop q (n + 1) c" for q using Cons [of "n + 1" q] by simp
  then show ?case using Cons by (cases x) auto
qed simp

lemma turn_numbers_unmarked:
  assumes "i < length c" "item_marker (c ! i) = None" "turn_numbers p q n c ! i = Some k"
  shows "\<not> q \<and> k < count_legacy_loop p n c \<and>
    (\<exists>u. c ! i = IUser u \<and> starts_prompt_turn (user_reason u))"
  using assms
proof (induction c arbitrary: i p q n)
  case (Cons x c)
  show ?case
  proof (cases i)
    case 0
    then show ?thesis using Cons.prems count_legacy_ge [of "Suc n" p c]
      by (cases x) (auto simp: unmarked_index_def split: option.splits prod.splits if_splits)
  next
    case (Suc j)
    have prems: "j < length c" "item_marker (c ! j) = None" using Cons.prems(1,2) Suc by simp_all
    have IH: "\<not> q' \<and> k < count_legacy_loop p' n' c \<and>
        (\<exists>u. c ! j = IUser u \<and> starts_prompt_turn (user_reason u))"
      if "turn_numbers p' q' n' c ! j = Some k" for p' q' n'
      by (rule Cons.IH [OF prems that])
    show ?thesis using Cons.prems(3) Suc
      by (cases x) (auto simp: unmarked_index_def split: option.splits prod.splits if_splits dest!: IH)
  qed
qed simp

lemma markers_after:
  assumes "sorted_wrt (<) (List.map_filter item_marker c)" "i \<le> j" "j < length c"
    "item_marker (c ! i) = Some a" "item_marker (c ! j) = Some b"
  shows "a \<le> b"
  using assms
proof (induction c arbitrary: i j)
  case (Cons x c)
  have "b \<in> set (List.map_filter item_marker c)" if "j = Suc j'" for j'
  proof -
    have "c ! j' \<in> set c" "item_marker (c ! j') = Some b" using Cons.prems that by auto
    then show ?thesis by (force simp: map_filter_def)
  qed
  then show ?case using Cons
    by (cases i; cases j) (auto simp: map_filter_simps split: option.splits)
qed simp

lemma first_marker_least:
  assumes "sorted_wrt (<) (List.map_filter item_marker c)" "j < length c" "item_marker (c ! j) = Some b"
  shows "\<exists>a. first_marker c = Some a \<and> a \<le> b"
proof -
  have "c ! j \<in> set c" using assms(2) by simp
  then have "b \<in> set (List.map_filter item_marker c)" using assms(3) by (force simp: map_filter_def)
  then show ?thesis using assms(1)
    by (cases "List.map_filter item_marker c") (auto simp: first_marker_def intro: less_imp_le)
qed

lemma count_legacy_take:
  "List.map_filter item_marker (take r c) \<noteq> [] \<Longrightarrow> count_legacy_loop p n (take r c) = count_legacy_loop p n c"
proof (induction c arbitrary: r p n)
  case (Cons x c)
  show ?case
  proof (cases r)
    case (Suc r')
    then show ?thesis using Cons
      by (cases x) (auto simp: map_filter_simps split: option.splits)
  qed (use Cons in \<open>simp add: map_filter_simps\<close>)
qed simp

lemma turn_numbers_take: "turn_numbers p q n (take r c) = take r (turn_numbers p q n c)"
proof (induction c arbitrary: r p q n)
  case (Cons x c)
  then show ?case
    by (cases r; cases x) (auto split: option.splits prod.splits)
qed simp

lemma first_marker_take: "first_marker (take r c) = Some m \<Longrightarrow>
    first_marker c = Some m \<and> List.map_filter item_marker (take r c) \<noteq> []"
proof -
  assume m: "first_marker (take r c) = Some m"
  have "List.map_filter item_marker c = List.map_filter item_marker (take r c @ drop r c)" by simp
  also have "\<dots> = List.map_filter item_marker (take r c) @ List.map_filter item_marker (drop r c)"
    by (simp only: map_filter_def filter_append map_append)
  finally show ?thesis using m
    by (cases "List.map_filter item_marker (take r c)") (auto simp: first_marker_def)
qed

definition numbering_agrees :: "conversation_item list \<Rightarrow> bool" where
  "numbering_agrees c \<longleftrightarrow>
     (case first_marker c of None \<Rightarrow> True | Some m \<Rightarrow> count_legacy_turns_until_marker c = m)"

lemma numbers_take:
  assumes "numbering_agrees c"
  shows "numbers (take r c) = take r (numbers c)"
proof -
  have "numbers c = turn_numbers False False 0 c"
    using assms by (auto simp: numbers_def numbering_agrees_def split: option.splits)
  moreover have "numbers (take r c) = turn_numbers False False 0 (take r c)"
  proof (cases "first_marker (take r c)")
    case (Some m)
    then have m: "first_marker c = Some m" "List.map_filter item_marker (take r c) \<noteq> []"
      using first_marker_take by blast+
    then have "count_legacy_turns_until_marker (take r c) = m"
      using assms count_legacy_take [OF m(2), of False 0]
      by (simp add: numbering_agrees_def count_legacy_turns_until_marker_def)
    then show ?thesis using Some by (simp add: numbers_def)
  qed (simp add: numbers_def)
  ultimately show ?thesis by (simp add: turn_numbers_take)
qed

lemma legacy_count_cut:
  assumes "List.map_filter item_marker c = []" "n \<le> t"
  shows "count_legacy_loop p n (take (first_from t (turn_numbers p False n c)) c) = min t (count_legacy_loop p n c)"
  using assms
proof (induction c arbitrary: p n)
  case (Cons x c)
  then have rest: "List.map_filter item_marker c = []" "item_marker x = None"
    by (auto simp: map_filter_simps split: option.splits)
  show ?case using Cons.IH [OF rest(1)] rest(2) Cons.prems(2) count_legacy_ge [of "Suc n" p c]
    by (cases x) (auto simp: unmarked_index_def split: option.splits prod.splits)
qed simp

section \<open>Properties\<close>

text \<open>C35.
  Rewinding to turn \<open>t\<close> keeps exactly the marked turns below \<open>t\<close>, whatever mixture of marked and
  unmarked items the session holds, as long as its markers increase: every marked item that is
  kept has a smaller index and every marked item that is dropped an index of at least \<open>t\<close>. The cut
  is inside the conversation and falls on an item that opens a turn; a later target never keeps
  less.
\<close>

theorem rewind_cut:
  fixes c :: "conversation_item list" and t :: nat
  assumes "sorted_wrt (<) (List.map_filter item_marker c)"
  defines "r \<equiv> conversation_truncate_for_prompt c t"
  shows "r \<le> length c \<and>
    (\<forall>i m. i < r \<and> item_marker (c ! i) = Some m \<longrightarrow> m < t) \<and>
    (\<forall>i m. r \<le> i \<and> i < length c \<and> item_marker (c ! i) = Some m \<longrightarrow> t \<le> m) \<and>
    (r < length c \<longrightarrow> item_marker (c ! r) \<noteq> None \<or>
       (\<exists>u. c ! r = IUser u \<and> starts_prompt_turn (user_reason u))) \<and>
    (\<forall>t' \<ge> t. r \<le> conversation_truncate_for_prompt c t')"
proof -
  have r: "r = first_from t (numbers c)" by (simp add: r_def truncate_first)
  have le: "r \<le> length c" using first_from_le [of t "numbers c"] by (simp add: r)
  have before: "m < t" if "i < r" "item_marker (c ! i) = Some m" for i m
    using that le numbers_marked [of i c m] first_from_before [of i t "numbers c" m] by (simp add: r)
  have unmarked: "(\<exists>u. c ! r = IUser u \<and> starts_prompt_turn (user_reason u)) \<and>
      k < count_legacy_turns_until_marker c \<and>
      (first_marker c = None \<or> first_marker c = Some (count_legacy_turns_until_marker c))"
    if "r < length c" "item_marker (c ! r) = None" "numbers c ! r = Some k" for k
  proof -
    have "turn_numbers False False 0 c ! r = Some k"
      and agree: "first_marker c = None \<or> first_marker c = Some (count_legacy_turns_until_marker c)"
      using that by (auto simp: numbers_def split: if_splits)
    then show ?thesis using turn_numbers_unmarked [OF that(1,2), of False False 0 k]
      by (auto simp: count_legacy_turns_until_marker_def)
  qed
  have after: "t \<le> m" if i: "r \<le> i" "i < length c" "item_marker (c ! i) = Some m" for i m
  proof -
    obtain k where k: "t \<le> k" "numbers c ! r = Some k"
      using first_from_at [of t "numbers c"] i r by auto
    show ?thesis
    proof (cases "item_marker (c ! r)")
      case None
      obtain a where "first_marker c = Some a" "a \<le> m" using first_marker_least [OF assms(1) i(2,3)] by blast
      then show ?thesis using unmarked [OF _ None k(2)] k(1) i by fastforce
    next
      case (Some a)
      then have "a = k" using numbers_marked [of r c a] k(2) i by simp
      then show ?thesis using markers_after [OF assms(1) i(1,2) Some i(3)] k(1) by simp
    qed
  qed
  have "item_marker (c ! r) \<noteq> None \<or> (\<exists>u. c ! r = IUser u \<and> starts_prompt_turn (user_reason u))"
    if "r < length c"
    using that unmarked first_from_at [of t "numbers c"] by (fastforce simp: r)
  then show ?thesis
    using le before after first_from_mono [of t _ "numbers c"] by (auto simp: r truncate_first)
qed

definition turn :: "string \<Rightarrow> nat \<Rightarrow> conversation_item list" where
  "turn t n = [set_prompt_index n (user (lit t)), assistant (lit ''ok''), user (lit ''! ls'')]"

definition sample_session :: "conversation_item list" where
  "sample_session = system (lit ''s'') # user (lit ''info'') # turn ''a'' 0 @ turn ''b'' 1 @ turn ''c'' 2"

theorem rewind_cut_witness:
  "sorted_wrt (<) (List.map_filter item_marker sample_session) \<and>
   conversation_truncate_for_prompt sample_session 1 = 5 \<and>
   item_marker (sample_session ! 5) = Some 1 \<and>
   conversation_truncate_for_prompt sample_session 1 \<le> length sample_session"
proof -
  have cut: "conversation_truncate_for_prompt sample_session 1 = 5" by code_simp
  have inc: "sorted_wrt (<) (List.map_filter item_marker sample_session)" by code_simp
  have mark: "item_marker (sample_session ! 5) = Some 1" by code_simp
  show ?thesis using rewind_cut [of sample_session 1] cut inc mark by metis
qed

text \<open>Rewinding is exact by the code's own count. In a session without markers the kept part holds
  \<open>min t n\<close> of its \<open>n\<close> turns. Where the markers continue the count of the unmarked turns before
  them, rewinding a second time to the same turn cuts nothing.
\<close>

theorem rewind_exact:
  "(first_marker c = None \<longrightarrow>
     count_legacy_turns_until_marker (take (conversation_truncate_for_prompt c t) c) =
       min t (count_legacy_turns_until_marker c)) \<and>
   (numbering_agrees c \<longrightarrow>
     conversation_truncate_for_prompt (take (conversation_truncate_for_prompt c t) c) t =
       conversation_truncate_for_prompt c t)"
proof (intro conjI impI)
  assume none: "first_marker c = None"
  then have "List.map_filter item_marker c = []"
    by (cases "List.map_filter item_marker c") (auto simp: first_marker_def)
  then show "count_legacy_turns_until_marker (take (conversation_truncate_for_prompt c t) c) =
      min t (count_legacy_turns_until_marker c)"
    using legacy_count_cut [of c 0 t False] none
    by (simp add: truncate_first numbers_def count_legacy_turns_until_marker_def)
next
  assume "numbering_agrees c"
  then show "conversation_truncate_for_prompt (take (conversation_truncate_for_prompt c t) c) t =
      conversation_truncate_for_prompt c t"
    by (simp add: truncate_first numbers_take first_from_take)
qed

theorem rewind_exact_witness:
  "numbering_agrees (user (lit ''info'') # user (lit ''old'') # turn ''a'' 1 @ turn ''b'' 2) \<and>
   conversation_truncate_for_prompt
     (take (conversation_truncate_for_prompt (user (lit ''info'') # user (lit ''old'') # turn ''a'' 1 @ turn ''b'' 2) 1)
        (user (lit ''info'') # user (lit ''old'') # turn ''a'' 1 @ turn ''b'' 2)) 1 = 2"
proof -
  let ?c = "user (lit ''info'') # user (lit ''old'') # turn ''a'' 1 @ turn ''b'' 2"
  have "numbering_agrees ?c" "conversation_truncate_for_prompt ?c 1 = 2" by code_simp+
  then show ?thesis using rewind_exact [of ?c 1] by metis
qed

end
