(* ===== verification/Chat_State.thy ===== *)
theory Chat_State
  imports Image_Budget Usage_Ledger Float64 Chat_Queries Prompt_Rewind
begin

text \<open>
  The chat-state actor (\<open>xai-chat-state/src/actor\<close>): its state, every mutation and query handler, and
  the dispatch of commands. Persistence calls and events are logs on the actor, newest last. What
  the actor only stores (the rest of the sampling configuration, the credentials) has the type
  \<open>'k\<close>. Token estimates are byte counts of data in memory divided by four, kept as natural numbers;
  the provider's total is a \<open>u64\<close>. Tracing is left out. The acknowledgement of a durable append and
  the turn flag are read from outside: they are arguments of their commands.
\<close>

record 'k sampling_config =
  cfg_model :: rstring
  context_window :: u64
  cfg_rest :: 'k

record turn_capture_state =
  turn_start_offset :: nat
  pre_replacement_messages :: conv
  compaction_occurred :: bool

record 'k chat_state =
  conversation :: conv
  sampling :: "'k sampling_config"
  current_prompt :: nat
  prompt_texts :: "rstring list"
  total_tokens :: u64
  stream_start_ms :: "int option"
  turn_start_ms :: "int option"
  agent_edited_paths :: "rstring set"
  last_compaction_prompt :: "nat option"
  credentials :: 'k
  estimated_since_model :: nat
  estimate_at_last_response :: nat
  last_turn_usage :: "token_usage option"
  prompt_usage :: "usage_ledger option"
  session_usage :: usage_ledger
  turn_capture :: "turn_capture_state option"
  harness_trace_buffer :: conv
  harness_trace_turns :: "conv list"

datatype strict_append_ack = Appended | AlreadyPresent conversation_item

datatype strict_append_error = NotCommitted | Committed strict_append_ack | Indeterminate

type_synonym append_result = "strict_append_error + strict_append_ack"

text \<open>An acknowledged append is logged with the acknowledgement it got.\<close>

datatype persistence_record =
    PMessage conversation_item
  | PAcknowledgedMessage conversation_item append_result
  | PReplaceHistory conv
  | PReplaceHistoryForStrip conv
  | PFlush

datatype chat_event =
    PromptIndexChanged nat
  | TokensUpdated u64
  | ConversationReset nat
  | ImageBudgetMeasured image_budget_outcome

record 'k actor =
  chat :: "'k chat_state"
  pruning :: pruning_config
  persisted :: "persistence_record list"
  events :: "chat_event list"

definition on_chat :: "('k chat_state \<Rightarrow> 'k chat_state) \<Rightarrow> 'k actor \<Rightarrow> 'k actor" where
  "on_chat f a = a\<lparr>chat := f (chat a)\<rparr>"

definition persist :: "persistence_record \<Rightarrow> 'k actor \<Rightarrow> 'k actor" where
  "persist r a = a\<lparr>persisted := persisted a @ [r]\<rparr>"

definition send_event :: "chat_event \<Rightarrow> 'k actor \<Rightarrow> 'k actor" where
  "send_event e a = a\<lparr>events := events a @ [e]\<rparr>"

definition set_conversation :: "conv \<Rightarrow> 'k actor \<Rightarrow> 'k actor" where
  "set_conversation c = on_chat (\<lambda>s. s\<lparr>conversation := c\<rparr>)"

abbreviation conv_of :: "'k actor \<Rightarrow> conv" where
  "conv_of a \<equiv> conversation (chat a)"

section \<open>A new state\<close>

definition integrity_repair :: "dangling_tool_call_reason \<Rightarrow> conv \<Rightarrow> conv \<times> nat" where
  "integrity_repair reason c =
     (let (c1, deduped) = dedup_duplicate_tool_results c;
          (c2, repaired) = repair_dangling_tool_calls c1 reason
      in (c2, repaired + deduped))"

definition chat_state_new :: "conv \<Rightarrow> 'k sampling_config \<Rightarrow> 'k \<Rightarrow> 'k chat_state" where
  "chat_state_new c cfg no_credentials =
     (let c' = fst (integrity_repair UserCancelled c); tokens = estimate_conversation_tokens c'
      in \<lparr>conversation = c', sampling = cfg, current_prompt = 0, prompt_texts = [],
          total_tokens = of_nat tokens, stream_start_ms = None, turn_start_ms = None,
          agent_edited_paths = {}, last_compaction_prompt = None, credentials = no_credentials,
          estimated_since_model = 0, estimate_at_last_response = tokens, last_turn_usage = None,
          prompt_usage = None, session_usage = ledger_default, turn_capture = None,
          harness_trace_buffer = [], harness_trace_turns = []\<rparr>)"

definition seal_harness_trace_turn :: "'k chat_state \<Rightarrow> 'k chat_state" where
  "seal_harness_trace_turn s =
     (if harness_trace_buffer s \<noteq> []
      then s\<lparr>harness_trace_buffer := [], harness_trace_turns := harness_trace_turns s @ [harness_trace_buffer s]\<rparr>
      else s)"

section \<open>Turn capture\<close>

text \<open>Past the end the source logs an error (and asserts in debug builds) and goes on with an empty tail.\<close>

definition turn_tail :: "conv \<Rightarrow> nat \<Rightarrow> conv" where
  "turn_tail c offset = (if offset \<le> length c then drop offset c else [])"

definition snapshot_turn_slice :: "'k actor \<Rightarrow> 'k actor" where
  "snapshot_turn_slice = on_chat (\<lambda>s. s\<lparr>turn_capture := map_option (\<lambda>cap.
     cap\<lparr>pre_replacement_messages := pre_replacement_messages cap @
           turn_tail (conversation s) (turn_start_offset cap)\<rparr>) (turn_capture s)\<rparr>)"

definition rebase_turn_capture_offset :: "'k actor \<Rightarrow> 'k actor" where
  "rebase_turn_capture_offset = on_chat (\<lambda>s. s\<lparr>turn_capture := map_option (\<lambda>cap.
     cap\<lparr>turn_start_offset := length (conversation s)\<rparr>) (turn_capture s)\<rparr>)"

section \<open>Rewrites of the history\<close>

datatype history_rewrite = IntegrityRepair | RetainedPrune | ImageStrip

text \<open>The last component says whether a disk acknowledgement is pending.\<close>

definition rewrite_history ::
  "history_rewrite \<Rightarrow> (conv \<Rightarrow> conv \<times> nat) \<Rightarrow> 'k actor \<Rightarrow> 'k actor \<times> nat \<times> bool" where
  "rewrite_history kind mutate a =
     (let snapshots = (kind = IntegrityRepair);
          a1 = (if snapshots then snapshot_turn_slice a else a);
          (c, changed) = mutate (conv_of a1);
          a2 = set_conversation c a1;
          a3 = (if 0 < changed
                then persist (case kind of ImageStrip \<Rightarrow> PReplaceHistoryForStrip c | _ \<Rightarrow> PReplaceHistory c) a2
                else a2);
          a4 = (if snapshots then rebase_turn_capture_offset a3 else a3)
      in (a4, changed, kind = ImageStrip \<and> 0 < changed))"

definition ensure_conversation_integrity_with_reason :: "dangling_tool_call_reason \<Rightarrow> 'k actor \<Rightarrow> 'k actor" where
  "ensure_conversation_integrity_with_reason reason a =
     fst (rewrite_history IntegrityRepair (integrity_repair reason) a)"

definition ensure_conversation_integrity :: "'k actor \<Rightarrow> 'k actor" where
  "ensure_conversation_integrity = ensure_conversation_integrity_with_reason UserCancelled"

fun is_continue_reminder :: "conversation_item \<Rightarrow> bool" where
  "is_continue_reminder (IUser u) = (user_reason u = LengthContinue)"
| "is_continue_reminder _ = False"

definition drop_reminders :: "conv \<Rightarrow> conv \<times> nat" where
  "drop_reminders c =
     (let kept = rev (dropWhile is_continue_reminder (rev c)) in (kept, length c - length kept))"

definition pop_stranded_continue_reminder :: "'k actor \<Rightarrow> 'k actor" where
  "pop_stranded_continue_reminder a =
     (if conv_of a = [] \<or> \<not> is_continue_reminder (last (conv_of a)) then a
      else fst (rewrite_history IntegrityRepair drop_reminders a))"

definition repair_dangling_after_harness_halt :: "rstring \<Rightarrow> 'k actor \<Rightarrow> 'k actor" where
  "repair_dangling_after_harness_halt cls a =
     ensure_conversation_integrity_with_reason (HarnessHalted cls) (pop_stranded_continue_reminder a)"

text \<open>
  \<open>reseed_total_tokens\<close> computes in \<open>f64\<close>: both operands of the quotient are converted and rounded,
  the product is rounded half away from zero and cast back.
\<close>

definition f64_of_nat :: "nat \<Rightarrow> f64" where
  "f64_of_nat n = Fin (f64_round (of_nat n))"

fun f64_div :: "f64 \<Rightarrow> f64 \<Rightarrow> f64" where
  "f64_div (Fin x) (Fin y) = (if y = 0 then NaN else Fin (f64_round (x / y)))"
| "f64_div _ _ = NaN"

fun f64_round_away :: "f64 \<Rightarrow> f64" where
  "f64_round_away (Fin x) = Fin (of_int (if 0 \<le> x then \<lfloor>x + 1 / 2\<rfloor> else \<lceil>x - 1 / 2\<rceil>))"
| "f64_round_away x = x"

definition reseed_total_tokens :: "'k chat_state \<Rightarrow> nat \<Rightarrow> u64" where
  "reseed_total_tokens s base_estimate =
     (let pre = unat (total_tokens s);
          estimated =
            (if 0 < pre \<and> 0 < estimate_at_last_response s
             then f64_as_nat (2 ^ 64 - 1) (f64_round_away (f64_mul (f64_of_nat base_estimate)
                    (f64_div (f64_of_nat pre) (f64_of_nat (estimate_at_last_response s)))))
             else base_estimate)
      in of_nat (if 0 < pre then min estimated pre else estimated))"

definition replace_conversation :: "conv \<Rightarrow> bool \<Rightarrow> 'k actor \<Rightarrow> 'k actor" where
  "replace_conversation items is_compaction a =
     (let a1 = snapshot_turn_slice a;
          a2 = (if is_compaction
                then on_chat (\<lambda>s. s\<lparr>turn_capture :=
                       map_option (\<lambda>cap. cap\<lparr>compaction_occurred := True\<rparr>) (turn_capture s)\<rparr>) a1
                else a1);
          a3 = persist (PReplaceHistory items) a2;
          base = estimate_conversation_tokens items;
          tokens = reseed_total_tokens (chat a3) base;
          a4 = on_chat (\<lambda>s. s\<lparr>conversation := items, estimated_since_model := 0,
                 total_tokens := tokens, estimate_at_last_response := base\<rparr>) a3;
          a5 = rebase_turn_capture_offset a4
      in send_event (TokensUpdated tokens) (send_event (ConversationReset (length items)) a5))"

text \<open>\<open>mem::take\<close> leaves an empty history behind while the repair runs.\<close>

definition actor_repair_history :: "bool \<Rightarrow> 'k actor \<Rightarrow> 'k actor \<times> history_repair_report" where
  "actor_repair_history dry_run a =
     (let (items, report) = repair_history (conv_of a)
      in if dry_run then (a, report)
         else
           let taken = set_conversation [] a
           in if repair_changed report then (replace_conversation items False taken, report)
              else (set_conversation items taken, report))"

definition strip_conversation_images :: "rstring list \<Rightarrow> 'k actor \<Rightarrow> 'k actor \<times> nat option" where
  "strip_conversation_images urls a =
     (let (a', stripped, ack) = rewrite_history ImageStrip (\<lambda>c. strip_images_by_url c urls) a
      in (a', if ack then Some stripped else None))"

fun update_first :: "('a \<Rightarrow> bool) \<Rightarrow> 'a \<Rightarrow> 'a list \<Rightarrow> 'a list" where
  "update_first P y [] = []"
| "update_first P y (x # xs) = (if P x then y # xs else x # update_first P y xs)"

definition converge_working_directory_switch :: "u64 \<Rightarrow> conversation_item \<Rightarrow> 'k actor \<Rightarrow> 'k actor" where
  "converge_working_directory_switch gen item = on_chat (\<lambda>s.
     (case find (\<lambda>x. working_directory_switch_generation x = Some gen) (conversation s) of
        Some existing \<Rightarrow>
          let old = estimate_item_tokens existing; new = estimate_item_tokens item
          in s\<lparr>estimated_since_model :=
                 (if old \<le> new then estimated_since_model s + (new - old)
                  else estimated_since_model s - (old - new)),
               conversation :=
                 update_first (\<lambda>x. working_directory_switch_generation x = Some gen) item (conversation s)\<rparr>
      | None \<Rightarrow>
          s\<lparr>estimated_since_model := estimated_since_model s + estimate_item_tokens item,
            conversation := conversation s @ [item]\<rparr>))"

section \<open>Pushes\<close>

definition add_estimate :: "conversation_item \<Rightarrow> 'k actor \<Rightarrow> 'k actor" where
  "add_estimate item = on_chat (\<lambda>s. s\<lparr>estimated_since_model := estimated_since_model s + estimate_item_tokens item\<rparr>)"

definition persist_and_push_message :: "conversation_item \<Rightarrow> 'k actor \<Rightarrow> 'k actor" where
  "persist_and_push_message item a =
     (let a1 = persist (PMessage item) a in set_conversation (conv_of a1 @ [item]) a1)"

definition push_message :: "conversation_item \<Rightarrow> 'k actor \<Rightarrow> 'k actor" where
  "push_message item a =
     persist_and_push_message item (if is_assistant_item item then a else add_estimate item a)"

definition push_model_output :: "conversation_item \<Rightarrow> 'k actor \<Rightarrow> 'k actor" where
  "push_model_output = persist_and_push_message"

definition push_unreported_model_output :: "conversation_item \<Rightarrow> 'k actor \<Rightarrow> 'k actor" where
  "push_unreported_model_output item a = persist_and_push_message item (add_estimate item a)"

definition prune_retained_conversation :: "'k actor \<Rightarrow> 'k actor \<times> nat" where
  "prune_retained_conversation a =
     (let cfg = pruning a
      in if \<not> prune_enabled cfg then (a, 0)
         else if current_prompt (chat a) < hard_clear_age_turns cfg then (a, 0)
         else
           let synthetic = length (filter is_user_item (conv_of a)) - current_prompt (chat a);
               threshold = hard_clear_age_turns cfg + synthetic;
               (a', cleared, _) = rewrite_history RetainedPrune (clear_old_results threshold) a
           in (a', cleared))"

text \<open>A user item that ends a pending continuation.\<close>

fun ends_continuation :: "conversation_item \<Rightarrow> bool" where
  "ends_continuation (IUser u) =
     (starts_prompt_turn (user_reason u) \<or>
      user_reason u \<in> {AutoRecovery, StopHookFeedback, GoalSummary, WorkingDirectorySwitch, Interjection})"
| "ends_continuation _ = False"

definition push_user_message_with_repair_reason ::
  "conversation_item \<Rightarrow> dangling_tool_call_reason \<Rightarrow> 'k actor \<Rightarrow> 'k actor" where
  "push_user_message_with_repair_reason item reason a =
     (let a1 = (if ends_continuation item then pop_stranded_continue_reminder a else a);
          a2 = ensure_conversation_integrity_with_reason reason a1;
          a3 = persist_and_push_message item (add_estimate item a2)
      in fst (prune_retained_conversation a3))"

definition push_user_message :: "conversation_item \<Rightarrow> 'k actor \<Rightarrow> 'k actor" where
  "push_user_message item = push_user_message_with_repair_reason item UserCancelled"

section \<open>Usage, configuration and snapshots\<close>

definition record_token_usage :: "u64 \<Rightarrow> 'k actor \<Rightarrow> 'k actor" where
  "record_token_usage tokens a =
     send_event (TokensUpdated tokens)
       (on_chat (\<lambda>s. s\<lparr>estimated_since_model := 0,
          estimate_at_last_response := estimate_conversation_tokens (conversation s),
          total_tokens := tokens\<rparr>) a)"

definition ledger_or_default :: "usage_ledger option \<Rightarrow> usage_ledger" where
  "ledger_or_default l = (case l of Some x \<Rightarrow> x | None \<Rightarrow> ledger_default)"

definition record_model_call_usage ::
  "rstring option \<Rightarrow> token_usage \<Rightarrow> u64 option \<Rightarrow> int option \<Rightarrow> 'k actor \<Rightarrow> 'k actor" where
  "record_model_call_usage m usage duration_ms ticks = on_chat (\<lambda>s.
     let key = (case m of Some k \<Rightarrow> if k \<noteq> [] then k else cfg_model (sampling s) | None \<Rightarrow> cfg_model (sampling s))
     in s\<lparr>prompt_usage := Some (record_main_loop_call key usage duration_ms ticks (ledger_or_default (prompt_usage s))),
          session_usage := record_main_loop_call key usage duration_ms ticks (session_usage s)\<rparr>)"

definition record_subagent_usage ::
  "(rstring \<times> usage_totals) list \<Rightarrow> bool \<Rightarrow> bool \<Rightarrow> 'k actor \<Rightarrow> 'k actor" where
  "record_subagent_usage entries attribute_to_prompt inc a =
     (if entries = [] \<and> \<not> inc then a
      else on_chat (\<lambda>s. s\<lparr>
        prompt_usage := (if attribute_to_prompt
          then Some (record_subagent entries inc (ledger_or_default (prompt_usage s))) else prompt_usage s),
        session_usage := record_subagent entries inc (session_usage s)\<rparr>) a)"

definition mark_usage_incomplete :: "bool \<Rightarrow> bool \<Rightarrow> 'k actor \<Rightarrow> 'k actor" where
  "mark_usage_incomplete prompt session = on_chat (\<lambda>s. s\<lparr>
     prompt_usage := (if prompt then Some (mark_incomplete (ledger_or_default (prompt_usage s))) else prompt_usage s),
     session_usage := (if session then mark_incomplete (session_usage s) else session_usage s)\<rparr>)"

definition increment_prompt_index :: "'k actor \<Rightarrow> 'k actor" where
  "increment_prompt_index a =
     (let a1 = on_chat (\<lambda>s. s\<lparr>prompt_usage := None, current_prompt := current_prompt s + 1\<rparr>) a
      in send_event (PromptIndexChanged (current_prompt (chat a1))) a1)"

definition replace_system_head :: "rstring \<Rightarrow> 'k actor \<Rightarrow> 'k actor \<times> bool" where
  "replace_system_head prompt a =
     (if (case conv_of a of ISystem s # _ \<Rightarrow> canonical_system_prompt_eq (sys_content s) prompt | _ \<Rightarrow> False)
      then (a, False)
      else let (c, changed) = replace_or_insert_system_head (conv_of a) prompt
           in (replace_conversation c False a, changed))"

record 'k chat_snapshot =
  snap_conversation :: conv
  snap_sampling :: "'k sampling_config"
  snap_prompt :: nat
  snap_total_tokens :: u64
  snap_estimate :: nat
  snap_paths :: "rstring set"
  snap_texts :: "rstring list"
  snap_stream_start :: "int option"
  snap_turn_start :: "int option"
  snap_last_compaction :: "nat option"
  snap_credentials :: 'k

definition snapshot :: "'k chat_state \<Rightarrow> 'k chat_snapshot" where
  "snapshot s =
     \<lparr>snap_conversation = conversation s, snap_sampling = sampling s, snap_prompt = current_prompt s,
      snap_total_tokens = total_tokens s, snap_estimate = estimate_at_last_response s,
      snap_paths = agent_edited_paths s, snap_texts = prompt_texts s, snap_stream_start = stream_start_ms s,
      snap_turn_start = turn_start_ms s, snap_last_compaction = last_compaction_prompt s,
      snap_credentials = credentials s\<rparr>"

definition restore_snapshot :: "'k chat_snapshot \<Rightarrow> 'k actor \<Rightarrow> 'k actor" where
  "restore_snapshot snap a =
     (let a1 = snapshot_turn_slice a;
          a2 = rebase_turn_capture_offset (set_conversation (snap_conversation snap) a1)
      in on_chat (\<lambda>s. s\<lparr>sampling := snap_sampling snap, current_prompt := snap_prompt snap,
           total_tokens := snap_total_tokens snap, estimated_since_model := 0,
           estimate_at_last_response :=
             (if 0 < snap_estimate snap then snap_estimate snap
              else estimate_conversation_tokens (conversation s)),
           agent_edited_paths := snap_paths snap, prompt_texts := snap_texts snap,
           stream_start_ms := snap_stream_start snap, turn_start_ms := snap_turn_start snap,
           last_compaction_prompt := snap_last_compaction snap, credentials := snap_credentials snap,
           prompt_usage := None\<rparr>) a2)"

fun nth_user_position :: "nat \<Rightarrow> nat \<Rightarrow> conv \<Rightarrow> nat option" where
  "nth_user_position i n [] = None"
| "nth_user_position i n (x # xs) =
     (if is_user_item x then (if n = 0 then Some i else nth_user_position (Suc i) (n - 1) xs)
      else nth_user_position (Suc i) n xs)"

definition truncate_to_prompt_index :: "nat \<Rightarrow> 'k actor \<Rightarrow> 'k actor" where
  "truncate_to_prompt_index target a =
     (if current_prompt (chat a) \<le> target then a
      else
        let at_pos = (case nth_user_position 0 target (conv_of a) of Some i \<Rightarrow> i | None \<Rightarrow> length (conv_of a));
            c = take at_pos (conv_of a);
            base = estimate_conversation_tokens c;
            a1 = on_chat (\<lambda>s. s\<lparr>conversation := c, prompt_texts := take target (prompt_texts s),
                   current_prompt := target\<rparr>) a;
            a2 = on_chat (\<lambda>s. s\<lparr>total_tokens := reseed_total_tokens s base, estimated_since_model := 0,
                   estimate_at_last_response := base\<rparr>) a1
        in send_event (ConversationReset (length c)) (persist (PReplaceHistory c) a2))"

record auto_compact_trigger =
  trigger_tokens :: u64
  trigger_window :: u64
  utilization_percent :: nat

definition check_auto_compact_needed :: "u8 \<Rightarrow> 'k chat_state \<Rightarrow> auto_compact_trigger option" where
  "check_auto_compact_needed threshold_percent s =
     (let cw = context_window (sampling s)
      in if exceeds_threshold (total_tokens s) cw threshold_percent
         then Some \<lparr>trigger_tokens = total_tokens s, trigger_window = cw,
                     utilization_percent = usage_percentage_truncated_u8 (total_tokens s) cw\<rparr>
         else None)"

section \<open>The request\<close>

record ('k, 't) request =
  req_items :: conv
  req_tools :: "'t list"
  req_model :: rstring
  req_sampling :: 'k
  req_conv_id :: rstring
  req_id :: rstring

definition prune_items_for_turn_request :: "'k actor \<Rightarrow> conv \<Rightarrow> conv" where
  "prune_items_for_turn_request a items =
     (if should_prune (total_tokens (chat a)) (context_window (sampling (chat a)))
      then prune_conversation items (pruning a) else items)"

definition persist_memory :: "rstring \<Rightarrow> 'k actor \<Rightarrow> 'k actor \<times> bool" where
  "persist_memory reminder a =
     (let a1 = snapshot_turn_slice a;
          (c, injected) = inject_memory_reminder (conv_of a1) reminder;
          a2 = set_conversation c a1;
          a3 = (if injected then persist (PReplaceHistory c) a2 else a2)
      in (rebase_turn_capture_offset a3, injected))"

text \<open>\<open>None\<close> stands for a panic of the image budget.\<close>

definition build_conversation_request ::
  "(conversation_item \<Rightarrow> nat) \<Rightarrow> 't list \<Rightarrow> rstring option \<Rightarrow> bool \<Rightarrow> rstring \<Rightarrow> rstring \<Rightarrow> 'k actor \<Rightarrow>
   ('k actor \<times> ('k, 't) request) option" where
  "build_conversation_request frame tools memory persist_it cid rid a =
     (let (a1, left) = (case memory of
            Some r \<Rightarrow> if persist_it then let (a', injected) = persist_memory r a in (a', if injected then None else memory)
                     else (a, memory)
          | None \<Rightarrow> (a, None))
      in case apply_image_budget frame (conv_of a1) of
           None \<Rightarrow> None
         | Some (items, outcome) \<Rightarrow>
             let a2 = (if 0 < inline_images outcome then send_event (ImageBudgetMeasured outcome) a1 else a1);
                 items1 = prune_items_for_turn_request a2 items;
                 items2 = (case left of Some r \<Rightarrow> fst (inject_memory_reminder items1 r) | None \<Rightarrow> items1)
             in Some (a2, \<lparr>req_items = model_request_history items2, req_tools = tools,
                  req_model = cfg_model (sampling (chat a2)), req_sampling = cfg_rest (sampling (chat a2)),
                  req_conv_id = cid, req_id = rid\<rparr>))"

end
