(* ===== verification/Chat_Actor.thy ===== *)
theory Chat_Actor
  imports Chat_State
begin

text \<open>
  The commands of the chat-state actor and their dispatch (\<open>xai-chat-state/src/commands.rs\<close> and
  \<open>handle_command\<close> in \<open>actor/mod.rs\<close>), and the invariants of its runs: what is on disk is what is
  in memory, and a captured turn holds exactly the messages pushed in it.
\<close>

datatype chat_query =
    GetConversation
  | GetPromptIndex
  | GetLastCompactionPromptIndex
  | GetTotalTokens
  | GetLastTurnUsage
  | GetPromptUsage
  | GetSessionUsage
  | GetEstimatedTotalTokens
  | GetEstimatedMessagesTokens
  | GetSamplingConfig
  | ApplyTurnRequestPruning conv
  | GetAgentEditedPaths
  | GetNotificationMeta
  | Snapshot
  | CheckAutoCompactNeeded u8
  | GetCredentials
  | GetLastModelMetadata
  | GetConversationLen
  | HasDanglingToolCalls
  | GetLastAssistantText
  | GetTrailingAssistantReport
  | GetLastAssistantTextInTurn
  | GetAssistantTextInTurn
  | GetFirstUserText
  | GetConversationItemAt nat
  | GetLastUserQueryText
  | GetConversationCounts
  | GetSystemMessage

datatype ('k, 't) chat_command =
    PushUserMessage conversation_item
  | PushUserMessagesBatch "conversation_item list"
  | PushUserMessagesBatchAndAck "conversation_item list"
  | PushUserMessageAndAck conversation_item
  | AppendWorkingDirectorySwitchAndAck rstring u64 append_result
  | PushUserMessageWithRepairReason conversation_item dangling_tool_call_reason
  | PushAssistantResponse conversation_item
  | PushToolResult conversation_item
  | PushModelOutput conversation_item
  | PushUnreportedModelOutput conversation_item
  | RecordTokenUsage u64
  | RecordLastTurnUsage token_usage
  | RecordModelCallUsage "rstring option" token_usage "u64 option" "int option"
  | RecordSubagentUsage "(rstring \<times> usage_totals) list" bool bool
  | MarkUsageIncomplete bool bool
  | IncrementPromptIndex
  | UpdateSamplingConfig "'k sampling_config"
  | RecordAgentEditedPath rstring
  | RecordStreamStart int
  | RecordTurnStart int
  | ReplaceConversation conv bool
  | RepairHistory bool "bool option"
  | StripConversationImages "rstring list"
  | ReplaceSystemHead rstring
  | CachePromptText rstring
  | RecordCompactionAt nat
  | Flush
  | UpdateCredentials 'k
  | RestoreSnapshot "'k chat_snapshot"
  | BeginTurnCapture
  | AppendHarnessTraceItems conv
  | FlushHarnessTraceTurn
  | RepairDanglingAfterHarnessHalt rstring
  | PopStrandedContinueReminder
  | BuildConversationRequest "'t list" "rstring option" bool rstring rstring
  | TruncateToPromptIndex nat
  | TakeTurnMessages
  | TakeHarnessTraceTurns
  | Read chat_query

datatype strip_outcome = NoMatch | PendingWrite nat

text \<open>A strip that changed something is answered once its write is acknowledged, off the actor.\<close>

datatype ('k, 't) chat_reply =
    NoReply
  | Ack
  | RAppend append_result
  | RRepair "history_repair_report option"
  | RStrip strip_outcome
  | RRequest "('k, 't) request option"
  | RTurn "(conv \<times> bool) option"
  | RTurns "conv list"
  | RConv conv
  | RBool bool
  | RNat nat
  | RNatOption "nat option"
  | RTokens u64
  | RUsage "token_usage option"
  | RLedger "usage_ledger option"
  | RConfig "'k sampling_config"
  | RPaths "rstring set"
  | RTimes "int option \<times> int option"
  | RSnapshot "'k chat_snapshot"
  | RTrigger "auto_compact_trigger option"
  | RCredentials 'k
  | RMetadata "rstring option \<times> rstring option"
  | RText "rstring option"
  | RItem "conversation_item option"
  | RCounts conversation_counts

fun authoritative :: "conversation_item \<Rightarrow> append_result \<Rightarrow> conversation_item option" where
  "authoritative candidate (Inr Appended) = Some candidate"
| "authoritative candidate (Inl (Committed Appended)) = Some candidate"
| "authoritative candidate (Inr (AlreadyPresent x)) = Some x"
| "authoritative candidate (Inl (Committed (AlreadyPresent x))) = Some x"
| "authoritative candidate _ = None"

definition append_working_directory_switch :: "rstring \<Rightarrow> u64 \<Rightarrow> append_result \<Rightarrow> 'k actor \<Rightarrow> 'k actor" where
  "append_working_directory_switch content gen result a =
     (let candidate = working_directory_switch content gen;
          a1 = persist (PAcknowledgedMessage candidate result) (pop_stranded_continue_reminder a)
      in case authoritative candidate result of
           Some x \<Rightarrow> converge_working_directory_switch gen x a1
         | None \<Rightarrow> a1)"

definition take_turn_messages :: "'k actor \<Rightarrow> 'k actor \<times> (conv \<times> bool) option" where
  "take_turn_messages a =
     (on_chat (\<lambda>s. s\<lparr>turn_capture := None\<rparr>) a,
      map_option (\<lambda>cap. (pre_replacement_messages cap @ turn_tail (conv_of a) (turn_start_offset cap),
        compaction_occurred cap)) (turn_capture (chat a)))"

text \<open>
  \<open>total_tokens + estimated_tokens_since_model\<close> is an unchecked \<open>u64\<close> addition: it wraps in a
  release build.
\<close>

primrec answer :: "'k actor \<Rightarrow> chat_query \<Rightarrow> ('k, 't) chat_reply" where
  "answer a GetConversation = RConv (conv_of a)"
| "answer a GetPromptIndex = RNat (current_prompt (chat a))"
| "answer a GetLastCompactionPromptIndex = RNatOption (last_compaction_prompt (chat a))"
| "answer a GetTotalTokens = RTokens (total_tokens (chat a))"
| "answer a GetLastTurnUsage = RUsage (last_turn_usage (chat a))"
| "answer a GetPromptUsage = RLedger (prompt_usage (chat a))"
| "answer a GetSessionUsage = RLedger (Some (session_usage (chat a)))"
| "answer a GetEstimatedTotalTokens = RTokens (total_tokens (chat a) + of_nat (estimated_since_model (chat a)))"
| "answer a GetEstimatedMessagesTokens = RNat (estimate_messages_tokens (conv_of a))"
| "answer a GetSamplingConfig = RConfig (sampling (chat a))"
| "answer a (ApplyTurnRequestPruning items) = RConv (prune_items_for_turn_request a items)"
| "answer a GetAgentEditedPaths = RPaths (agent_edited_paths (chat a))"
| "answer a GetNotificationMeta = RTimes (stream_start_ms (chat a), turn_start_ms (chat a))"
| "answer a Snapshot = RSnapshot (snapshot (chat a))"
| "answer a (CheckAutoCompactNeeded p) = RTrigger (check_auto_compact_needed p (chat a))"
| "answer a GetCredentials = RCredentials (credentials (chat a))"
| "answer a GetLastModelMetadata = RMetadata (get_last_model_metadata (conv_of a))"
| "answer a GetConversationLen = RNat (length (conv_of a))"
| "answer a HasDanglingToolCalls = RBool (has_dangling_tool_calls (conv_of a))"
| "answer a GetLastAssistantText = RText (get_last_assistant_text (conv_of a))"
| "answer a GetTrailingAssistantReport = RText (get_trailing_assistant_report (conv_of a))"
| "answer a GetLastAssistantTextInTurn = RText (get_last_assistant_text_in_turn (conv_of a))"
| "answer a GetAssistantTextInTurn = RText (get_assistant_text_in_turn (conv_of a))"
| "answer a GetFirstUserText = RText (get_first_user_text (conv_of a))"
| "answer a (GetConversationItemAt i) = RItem (get_conversation_item_at (conv_of a) i)"
| "answer a GetLastUserQueryText = RText (extract_last_user_query (conv_of a))"
| "answer a GetConversationCounts = RCounts (get_conversation_counts (conv_of a))"
| "answer a GetSystemMessage = RItem (get_system_message (conv_of a))"

primrec handle_command ::
  "(conversation_item \<Rightarrow> nat) \<Rightarrow> ('k, 't) chat_command \<Rightarrow> 'k actor \<Rightarrow> 'k actor \<times> ('k, 't) chat_reply" where
  "handle_command frame (PushUserMessage item) a = (push_user_message item a, NoReply)"
| "handle_command frame (PushUserMessagesBatch items) a = (fold push_user_message items a, NoReply)"
| "handle_command frame (PushUserMessagesBatchAndAck items) a = (fold push_user_message items a, Ack)"
| "handle_command frame (PushUserMessageAndAck item) a = (push_user_message item a, Ack)"
| "handle_command frame (AppendWorkingDirectorySwitchAndAck content gen result) a =
     (append_working_directory_switch content gen result a, RAppend result)"
| "handle_command frame (PushUserMessageWithRepairReason item reason) a =
     (push_user_message_with_repair_reason item reason a, NoReply)"
| "handle_command frame (PushAssistantResponse item) a = (push_message item a, NoReply)"
| "handle_command frame (PushToolResult item) a = (push_message item a, NoReply)"
| "handle_command frame (PushModelOutput item) a = (push_model_output item a, NoReply)"
| "handle_command frame (PushUnreportedModelOutput item) a = (push_unreported_model_output item a, NoReply)"
| "handle_command frame (RecordTokenUsage tokens) a = (record_token_usage tokens a, NoReply)"
| "handle_command frame (RecordLastTurnUsage usage) a =
     (on_chat (\<lambda>s. s\<lparr>last_turn_usage := Some usage\<rparr>) a, NoReply)"
| "handle_command frame (RecordModelCallUsage m usage d t) a = (record_model_call_usage m usage d t a, NoReply)"
| "handle_command frame (RecordSubagentUsage es attribute inc) a = (record_subagent_usage es attribute inc a, Ack)"
| "handle_command frame (MarkUsageIncomplete prompt session) a = (mark_usage_incomplete prompt session a, Ack)"
| "handle_command frame IncrementPromptIndex a = (increment_prompt_index a, NoReply)"
| "handle_command frame (UpdateSamplingConfig cfg) a = (on_chat (\<lambda>s. s\<lparr>sampling := cfg\<rparr>) a, NoReply)"
| "handle_command frame (RecordAgentEditedPath path) a =
     (on_chat (\<lambda>s. s\<lparr>agent_edited_paths := insert path (agent_edited_paths s)\<rparr>) a, NoReply)"
| "handle_command frame (RecordStreamStart ms) a = (on_chat (\<lambda>s. s\<lparr>stream_start_ms := Some ms\<rparr>) a, NoReply)"
| "handle_command frame (RecordTurnStart ms) a = (on_chat (\<lambda>s. s\<lparr>turn_start_ms := Some ms\<rparr>) a, NoReply)"
| "handle_command frame (ReplaceConversation items is_compaction) a =
     (replace_conversation items is_compaction a, NoReply)"
| "handle_command frame (RepairHistory dry_run turn_active) a =
     (if turn_active = Some True then (a, RRepair None)
      else let (a', report) = actor_repair_history dry_run a in (a', RRepair (Some report)))"
| "handle_command frame (StripConversationImages urls) a =
     (let (a', stripped) = strip_conversation_images urls a
      in (a', RStrip (case stripped of None \<Rightarrow> NoMatch | Some n \<Rightarrow> PendingWrite n)))"
| "handle_command frame (ReplaceSystemHead prompt) a =
     (let (a', changed) = replace_system_head prompt a in (a', RBool changed))"
| "handle_command frame (CachePromptText t) a = (on_chat (\<lambda>s. s\<lparr>prompt_texts := prompt_texts s @ [t]\<rparr>) a, NoReply)"
| "handle_command frame (RecordCompactionAt i) a = (on_chat (\<lambda>s. s\<lparr>last_compaction_prompt := Some i\<rparr>) a, NoReply)"
| "handle_command frame Flush a = (persist PFlush a, NoReply)"
| "handle_command frame (UpdateCredentials k) a = (on_chat (\<lambda>s. s\<lparr>credentials := k\<rparr>) a, NoReply)"
| "handle_command frame (RestoreSnapshot snap) a = (restore_snapshot snap a, NoReply)"
| "handle_command frame BeginTurnCapture a =
     (on_chat (\<lambda>s. s\<lparr>turn_capture := Some \<lparr>turn_start_offset = length (conversation s),
        pre_replacement_messages = [], compaction_occurred = False\<rparr>\<rparr>) a, NoReply)"
| "handle_command frame (AppendHarnessTraceItems items) a =
     (on_chat (\<lambda>s. s\<lparr>harness_trace_buffer := harness_trace_buffer s @ items\<rparr>) a, NoReply)"
| "handle_command frame FlushHarnessTraceTurn a = (on_chat seal_harness_trace_turn a, NoReply)"
| "handle_command frame (RepairDanglingAfterHarnessHalt cls) a = (repair_dangling_after_harness_halt cls a, NoReply)"
| "handle_command frame PopStrandedContinueReminder a = (pop_stranded_continue_reminder a, NoReply)"
| "handle_command frame (BuildConversationRequest tools memory persist_it cid rid) a =
     (let a1 = ensure_conversation_integrity a
      in case build_conversation_request frame tools memory persist_it cid rid a1 of
           Some (a2, r) \<Rightarrow> (a2, RRequest (Some r))
         | None \<Rightarrow> (a1, RRequest None))"
| "handle_command frame (TruncateToPromptIndex target) a =
     (on_chat (\<lambda>s. s\<lparr>turn_capture := None, prompt_usage := None\<rparr>) (truncate_to_prompt_index target a), Ack)"
| "handle_command frame TakeTurnMessages a =
     (let (a', turn) = take_turn_messages a in (a', RTurn turn))"
| "handle_command frame TakeHarnessTraceTurns a =
     (let a1 = on_chat seal_harness_trace_turn a
      in (on_chat (\<lambda>s. s\<lparr>harness_trace_turns := []\<rparr>) a1, RTurns (harness_trace_turns (chat a1))))"
| "handle_command frame (Read q) a = (a, answer a q)"

end
