(* ===== verification/Chat_Invariants.thy ===== *)
theory Chat_Invariants
  imports Chat_Actor
begin

text \<open>
  What the chat-state actor promises over a run: the history on disk, replayed from its persistence
  calls, is the history in memory, and a captured turn is made of the messages pushed in it.
\<close>

section \<open>Disk and capture\<close>

text \<open>
  The effect of a persistence call whose write succeeds. A durable append has reached the disk when
  its acknowledgement says so.
\<close>

fun disk_step :: "persistence_record \<Rightarrow> conv \<Rightarrow> conv" where
  "disk_step (PMessage x) d = d @ [x]"
| "disk_step (PAcknowledgedMessage x result) d =
     (if result = Inr Appended \<or> result = Inl (Committed Appended) then d @ [x] else d)"
| "disk_step (PReplaceHistory c) d = c"
| "disk_step (PReplaceHistoryForStrip c) d = c"
| "disk_step PFlush d = d"

definition disk :: "conv \<Rightarrow> 'k actor \<Rightarrow> conv" where
  "disk loaded a = fold disk_step (persisted a) loaded"

definition mirrored :: "conv \<Rightarrow> 'k actor \<Rightarrow> bool" where
  "mirrored loaded a \<longleftrightarrow> disk loaded a = conv_of a"

definition capture_ok :: "'k actor \<Rightarrow> bool" where
  "capture_ok a \<longleftrightarrow> (\<forall>cap. turn_capture (chat a) = Some cap \<longrightarrow> turn_start_offset cap \<le> length (conv_of a))"

definition captured :: "'k actor \<Rightarrow> (conv \<times> bool) option" where
  "captured a = snd (take_turn_messages a)"

text \<open>
  What becomes of a message in place: images whose URL is in \<open>V\<close> are stripped as the source strips
  them, and a tool result may have been cleared by a prune. Nothing else happens to it.
\<close>

fun cleared :: "conversation_item \<Rightarrow> conversation_item" where
  "cleared (IToolResult t) = IToolResult (t\<lparr>result_content := HARD_CLEAR_PLACEHOLDER\<rparr>)"
| "cleared x = x"

definition stripped :: "rstring set \<Rightarrow> conversation_item \<Rightarrow> conversation_item" where
  "stripped V x = fst (strip_item_images (\<lambda>url. url \<in> V) x)"

definition faded :: "bool \<Rightarrow> rstring set \<Rightarrow> conversation_item \<Rightarrow> conversation_item \<Rightarrow> bool" where
  "faded p U x y \<longleftrightarrow> (\<exists>V \<subseteq> U. y = stripped V x \<or> p \<and> y = cleared (stripped V x))"

lemma stripped_empty [simp]: "stripped {} x = x"
proof -
  have part: "strip_user_part (\<lambda>url. False) q = q" "part_stripped (\<lambda>url. False) q = []" for q
    by (cases q; simp)+
  then show ?thesis by (cases x) (simp_all add: stripped_def cong: map_cong)
qed

lemma stripped_stripped: "stripped W (stripped V x) = stripped (V \<union> W) x"
proof -
  have "strip_user_part (\<lambda>url. url \<in> W) (strip_user_part (\<lambda>url. url \<in> V) q) =
      strip_user_part (\<lambda>url. url \<in> V \<union> W) q" for q
    by (cases q) simp_all
  moreover have "part_stripped (\<lambda>url. url \<in> V \<union> W) q = [] \<longleftrightarrow>
      part_stripped (\<lambda>url. url \<in> V) q = [] \<and> part_stripped (\<lambda>url. url \<in> W) q = []" for q
    by (cases q) simp_all
  ultimately show ?thesis by (cases x) (simp_all add: stripped_def comp_def conj_commute)
qed

lemma cleared_stripped: "stripped V (cleared x) = cleared (stripped V x)"
  by (cases x) (simp_all add: stripped_def)

lemma cleared_cleared [simp]: "cleared (cleared x) = cleared x"
  by (cases x) simp_all

lemma faded_refl [simp]: "faded p U x x"
  by (auto simp: faded_def intro!: exI [of _ "{}"])

lemma faded_trans: "faded p U x y \<Longrightarrow> faded p U y z \<Longrightarrow> faded p U x z"
proof -
  assume "faded p U x y" "faded p U y z"
  then obtain V W where "V \<subseteq> U" "y = stripped V x \<or> p \<and> y = cleared (stripped V x)"
    "W \<subseteq> U" "z = stripped W y \<or> p \<and> z = cleared (stripped W y)"
    by (auto simp: faded_def)
  then show ?thesis
    unfolding faded_def
    by (intro exI [of _ "V \<union> W"]) (auto simp: stripped_stripped cleared_stripped)
qed

lemma faded_exact: "faded False {} x y \<longleftrightarrow> y = x"
  by (auto simp: faded_def)

definition all_faded :: "bool \<Rightarrow> rstring set \<Rightarrow> conv \<Rightarrow> conv \<Rightarrow> bool" where
  "all_faded p U = list_all2 (faded p U)"

lemma all_faded_refl [simp]: "all_faded p U c c"
  by (simp add: all_faded_def list_all2_refl)

lemma all_faded_trans: "all_faded p U c d \<Longrightarrow> all_faded p U d e \<Longrightarrow> all_faded p U c e"
  unfolding all_faded_def using list_all2_trans [of "faded p U" "faded p U" "faded p U"] faded_trans by blast

lemma all_faded_append: "all_faded p U c d \<Longrightarrow> all_faded p U (c @ e) (d @ e)"
  unfolding all_faded_def by (intro list_all2_appendI) (simp_all add: list_all2_refl)

lemma all_faded_exact: "all_faded False {} c d \<longleftrightarrow> d = c"
proof -
  have "faded False {} = (=)" by (intro ext) (auto simp: faded_exact)
  then show ?thesis by (auto simp: all_faded_def list.rel_eq)
qed

text \<open>
  \<open>grows p U a xs f b\<close>: from \<open>a\<close> to \<open>b\<close> the capture gained \<open>xs\<close>, what it holds faded as \<open>p\<close> and \<open>U\<close>
  allow, and \<open>f\<close> says a compaction took place.
\<close>

definition grows :: "bool \<Rightarrow> rstring set \<Rightarrow> 'k actor \<Rightarrow> conv \<Rightarrow> bool \<Rightarrow> 'k actor \<Rightarrow> bool" where
  "grows p U a xs f b \<longleftrightarrow>
     (case captured a of
        None \<Rightarrow> captured b = None
      | Some (m, g) \<Rightarrow> \<exists>m'. captured b = Some (m', g \<or> f) \<and> all_faded p U (m @ xs) m')"

definition tracks :: "bool \<Rightarrow> rstring set \<Rightarrow> 'k actor \<Rightarrow> conv \<Rightarrow> bool \<Rightarrow> 'k actor \<Rightarrow> bool" where
  "tracks p U a xs f b \<longleftrightarrow> (capture_ok a \<longrightarrow> capture_ok b \<and> grows p U a xs f b)"

lemmas actor_defs = on_chat_def persist_def send_event_def set_conversation_def

section \<open>Composition\<close>

lemma tracks_refl: "tracks p U a [] False a"
  by (auto simp: tracks_def grows_def split: option.splits)

lemma tracks_trans:
  assumes "tracks p U a xs f b" "tracks p U b ys g c"
  shows "tracks p U a (xs @ ys) (f \<or> g) c"
proof (cases "captured a")
  case None
  then show ?thesis using assms by (auto simp: tracks_def grows_def)
next
  case (Some mh)
  have "all_faded p U (m @ xs @ ys) m''" if "all_faded p U (m @ xs) m'" "all_faded p U (m' @ ys) m''" for m m' m''
    using all_faded_trans [OF all_faded_append [OF that(1), of ys] that(2)] by simp
  then show ?thesis using Some assms by (cases mh) (fastforce simp: tracks_def grows_def split: option.splits)
qed

lemma captured_eq:
  "captured a = map_option (\<lambda>cap. (pre_replacement_messages cap @ turn_tail (conv_of a) (turn_start_offset cap),
     compaction_occurred cap)) (turn_capture (chat a))"
  by (simp add: captured_def take_turn_messages_def)

text \<open>A step that leaves the history and the capture alone.\<close>

lemma tracks_same:
  "conv_of b = conv_of a \<Longrightarrow> turn_capture (chat b) = turn_capture (chat a) \<Longrightarrow> tracks p U a [] False b"
  by (auto simp: tracks_def grows_def capture_ok_def captured_eq split: option.splits)

text \<open>A step that appends to the history.\<close>

lemma tracks_append:
  "conv_of b = conv_of a @ xs \<Longrightarrow> turn_capture (chat b) = turn_capture (chat a) \<Longrightarrow> tracks p U a xs False b"
  by (auto simp: tracks_def grows_def capture_ok_def captured_eq turn_tail_def split: option.splits)

text \<open>A step that rewrites items in place.\<close>

lemma tracks_in_place:
  assumes "all_faded p U (conv_of a) (conv_of b)" "turn_capture (chat b) = turn_capture (chat a)"
  shows "tracks p U a [] False b"
proof -
  have len: "length (conv_of b) = length (conv_of a)"
    using assms(1) list_all2_lengthD unfolding all_faded_def by metis
  have "all_faded p U (m @ drop n (conv_of a)) (m @ drop n (conv_of b))" for m n
    using assms(1) unfolding all_faded_def
    by (intro list_all2_appendI list_all2_dropI) (simp_all add: list_all2_refl)
  then show ?thesis
    using assms(2) len by (auto simp: tracks_def grows_def capture_ok_def captured_eq turn_tail_def split: option.splits)
qed

text \<open>A step between a snapshot of the capture and its new base.\<close>

lemma tracks_rebased:
  assumes "turn_capture (chat b) = map_option (\<lambda>cap. cap\<lparr>
      pre_replacement_messages := pre_replacement_messages cap @ turn_tail (conv_of a) (turn_start_offset cap),
      compaction_occurred := compaction_occurred cap \<or> f,
      turn_start_offset := length (conv_of b)\<rparr>) (turn_capture (chat a))"
  shows "tracks p U a [] f b"
  using assms by (auto simp: tracks_def grows_def capture_ok_def captured_eq turn_tail_def split: option.splits)

lemma disk_append: "persisted b = persisted a @ rs \<Longrightarrow> disk d b = fold disk_step rs (disk d a)"
  by (simp add: disk_def)

section \<open>The handlers\<close>

lemma rewrite_capture:
  "turn_capture (chat (fst (rewrite_history kind mutate a))) =
     (if kind = IntegrityRepair then map_option (\<lambda>cap. cap\<lparr>
        pre_replacement_messages := pre_replacement_messages cap @ turn_tail (conv_of a) (turn_start_offset cap),
        turn_start_offset := length (fst (mutate (conv_of a)))\<rparr>) (turn_capture (chat a))
      else turn_capture (chat a))"
  by (auto simp: rewrite_history_def actor_defs snapshot_turn_slice_def rebase_turn_capture_offset_def Let_def
      option.map_comp comp_def split: prod.splits history_rewrite.splits option.splits)

lemma rewrite_conv [simp]: "conv_of (fst (rewrite_history kind mutate a)) = fst (mutate (conv_of a))"
  by (auto simp: rewrite_history_def actor_defs snapshot_turn_slice_def rebase_turn_capture_offset_def Let_def
      split: prod.splits)

lemma rewrite_count [simp]: "fst (snd (rewrite_history kind mutate a)) = snd (mutate (conv_of a))"
  by (auto simp: rewrite_history_def actor_defs snapshot_turn_slice_def rebase_turn_capture_offset_def Let_def
      split: prod.splits)

lemma rewrite_persisted:
  "persisted (fst (rewrite_history kind mutate a)) = persisted a @
     (if 0 < snd (mutate (conv_of a))
      then [case kind of ImageStrip \<Rightarrow> PReplaceHistoryForStrip (fst (mutate (conv_of a)))
            | _ \<Rightarrow> PReplaceHistory (fst (mutate (conv_of a)))] else [])"
  by (auto simp: rewrite_history_def actor_defs snapshot_turn_slice_def rebase_turn_capture_offset_def Let_def
      split: prod.splits history_rewrite.splits)

lemma rewrite_mirrored:
  assumes "snd (mutate (conv_of a)) = 0 \<Longrightarrow> fst (mutate (conv_of a)) = conv_of a" "mirrored d a"
  shows "mirrored d (fst (rewrite_history kind mutate a))"
  using assms disk_append [OF rewrite_persisted, of d kind mutate a]
  by (cases kind) (auto simp: mirrored_def)

lemma rewrite_tracks_repair: "tracks p U a [] False (fst (rewrite_history IntegrityRepair mutate a))"
  by (rule tracks_rebased) (auto simp: rewrite_capture split: option.splits)

lemma rewrite_tracks_in_place:
  "kind \<noteq> IntegrityRepair \<Longrightarrow> all_faded p U (conv_of a) (fst (mutate (conv_of a))) \<Longrightarrow>
   tracks p U a [] False (fst (rewrite_history kind mutate a))"
  by (rule tracks_in_place) (auto simp: rewrite_capture)


text \<open>The rewrites report zero only when they change nothing.\<close>

lemma integrity_repair_zero: "snd (integrity_repair reason c) = 0 \<Longrightarrow> fst (integrity_repair reason c) = c"
  using on_runs_keep_last_full [of c] on_runs_answered_full [of reason c]
  by (auto simp: integrity_repair_def dedup_runs dangling_runs)

lemma drop_reminders_zero: "snd (drop_reminders c) = 0 \<Longrightarrow> fst (drop_reminders c) = c"
proof -
  assume "snd (drop_reminders c) = 0"
  then have "length (dropWhile is_continue_reminder (rev c)) = length (rev c)"
    using length_dropWhile_le [of is_continue_reminder "rev c"] by (simp add: drop_reminders_def Let_def)
  then have "dropWhile is_continue_reminder (rev c) = rev c"
    by (metis length_append less_irrefl add.left_neutral append_Nil list.size(3) takeWhile_dropWhile_id
        add_cancel_left_left length_0_conv)
  then show ?thesis by (simp add: drop_reminders_def Let_def)
qed

lemma strip_images_zero: "snd (strip_images_by_url c urls) = 0 \<Longrightarrow> fst (strip_images_by_url c urls) = c"
proof -
  have part: "part_stripped P p = [] \<Longrightarrow> strip_user_part P p = p" for P p
    by (cases p) (auto split: if_splits)
  have item: "snd (strip_item_images P x) = [] \<Longrightarrow> fst (strip_item_images P x) = x" for P x
  proof (cases x)
    case (IUser u)
    assume "snd (strip_item_images P x) = []"
    then have "map (strip_user_part P) (user_content u) = user_content u"
      using IUser part by (auto intro!: map_idI)
    then show ?thesis using IUser by simp
  next
    case (IToolResult t)
    assume "snd (strip_item_images P x) = []"
    then have "filter (\<lambda>p. part_stripped P p = []) (result_images t) = result_images t"
      using IToolResult by (auto intro!: filter_True)
    then show ?thesis using IToolResult by simp
  qed simp_all
  assume "snd (strip_images_by_url c urls) = 0"
  then have "\<forall>x \<in> set c. snd (strip_item_images (\<lambda>url. url \<in> set urls) x) = []"
    by (auto simp: strip_images_by_url_def strip_images_where_def)
  then show ?thesis
    using item by (auto simp: strip_images_by_url_def strip_images_where_def intro!: map_idI)
qed

lemma inject_unchanged: "\<not> snd (inject_memory_reminder c r) \<Longrightarrow> fst (inject_memory_reminder c r) = c"
  by (auto simp: inject_memory_reminder.simps upsert_memory_reminder_text_def Let_def
      split: if_splits list.splits conversation_item.splits)

text \<open>A prune clears tool results, a strip removes the images it is given.\<close>

lemma faded_clear_old: "all_faded True U c (fst (clear_old_results n c))"
proof -
  have "faded True U x (on_result (clear_result n age) x)" for age x
    by (cases x) (auto simp: faded_def clear_result_def hard_clear_def intro!: exI [of _ "{}"])
  then show ?thesis
    unfolding all_faded_def by (intro list_all2_all_nthI) (simp_all add: clear_old_results_eq by_age_def)
qed

lemma faded_strip: "set urls \<subseteq> U \<Longrightarrow> all_faded p U c (fst (strip_images_by_url c urls))"
  by (auto simp: all_faded_def strip_images_by_url_def strip_images_where_def list_all2_conv_all_nth faded_def
      stripped_def)


lemma ensure_integrity:
  "mirrored d a \<Longrightarrow> mirrored d (ensure_conversation_integrity_with_reason reason a)"
  "tracks p U a [] False (ensure_conversation_integrity_with_reason reason a)"
  unfolding ensure_conversation_integrity_with_reason_def
  using integrity_repair_zero by (auto intro: rewrite_mirrored rewrite_tracks_repair)

lemma pop_stranded:
  "mirrored d a \<Longrightarrow> mirrored d (pop_stranded_continue_reminder a)"
  "tracks p U a [] False (pop_stranded_continue_reminder a)"
  unfolding pop_stranded_continue_reminder_def
  using drop_reminders_zero by (auto intro: rewrite_mirrored rewrite_tracks_repair tracks_refl)

lemma halt_repair:
  "mirrored d a \<Longrightarrow> mirrored d (repair_dangling_after_harness_halt cls a)"
  "tracks p U a [] False (repair_dangling_after_harness_halt cls a)"
  unfolding repair_dangling_after_harness_halt_def
  using tracks_trans [OF pop_stranded(2) ensure_integrity(2)] by (auto intro: ensure_integrity pop_stranded)

lemma push_item:
  "mirrored d a \<Longrightarrow> mirrored d (persist_and_push_message x a)"
  "tracks p U a [x] False (persist_and_push_message x a)"
proof -
  have "persisted (persist_and_push_message x a) = persisted a @ [PMessage x]"
    by (simp add: persist_and_push_message_def actor_defs)
  from disk_append [OF this] show "mirrored d a \<Longrightarrow> mirrored d (persist_and_push_message x a)"
    by (simp add: mirrored_def) (simp add: persist_and_push_message_def actor_defs)
qed (rule tracks_append; simp add: persist_and_push_message_def actor_defs)

text \<open>Steps that leave history, capture and log alone.\<close>

definition inert :: "'k actor \<Rightarrow> 'k actor \<Rightarrow> bool" where
  "inert a b \<longleftrightarrow> conv_of b = conv_of a \<and> turn_capture (chat b) = turn_capture (chat a) \<and>
     (\<forall>d. disk d b = disk d a)"

lemma inert_keeps:
  "inert a b \<Longrightarrow> mirrored d a \<Longrightarrow> mirrored d b"
  "inert a b \<Longrightarrow> tracks p U a [] False b"
  by (auto simp: inert_def mirrored_def intro: tracks_same)

lemma inert_push: "inert a b \<Longrightarrow> mirrored d a \<Longrightarrow> mirrored d (persist_and_push_message x b)"
  "inert a b \<Longrightarrow> tracks p U a [x] False (persist_and_push_message x b)"
  using tracks_trans [OF inert_keeps(2) push_item(2)] by (auto intro: push_item inert_keeps)

lemma inert_add_estimate: "inert a (add_estimate x a)"
  by (simp add: inert_def add_estimate_def actor_defs disk_def)

lemma inert_refl: "inert a a"
  by (simp add: inert_def)

lemma prune_retained:
  "mirrored d a \<Longrightarrow> mirrored d (fst (prune_retained_conversation a))"
  "prune_enabled (pruning a) \<longrightarrow> p \<Longrightarrow> tracks p U a [] False (fst (prune_retained_conversation a))"
proof -
  let ?n = "hard_clear_age_turns (pruning a) + (length (filter is_user_item (conv_of a)) - current_prompt (chat a))"
  have eq: "fst (prune_retained_conversation a) =
      (if \<not> prune_enabled (pruning a) \<or> current_prompt (chat a) < hard_clear_age_turns (pruning a) then a
       else fst (rewrite_history RetainedPrune (clear_old_results ?n) a))"
    by (simp add: prune_retained_conversation_def Let_def split: prod.splits)
  show "mirrored d a \<Longrightarrow> mirrored d (fst (prune_retained_conversation a))"
    unfolding eq using clear_old_results_count by (auto intro: rewrite_mirrored)
  show "tracks p U a [] False (fst (prune_retained_conversation a))" if "prune_enabled (pruning a) \<longrightarrow> p"
    unfolding eq using faded_clear_old that by (auto intro!: rewrite_tracks_in_place tracks_refl)
qed

text \<open>No handler changes the pruning configuration.\<close>

lemma pruning_actor [simp]:
  "pruning (on_chat f a) = pruning a" "pruning (persist r a) = pruning a" "pruning (send_event e a) = pruning a"
  "pruning (set_conversation c a) = pruning a" "pruning (snapshot_turn_slice a) = pruning a"
  "pruning (rebase_turn_capture_offset a) = pruning a"
  by (simp_all add: actor_defs snapshot_turn_slice_def rebase_turn_capture_offset_def)

lemma pruning_rewrites [simp]:
  "pruning (fst (rewrite_history kind mutate a)) = pruning a"
  "pruning (replace_conversation items f a) = pruning a"
  "pruning (fst (persist_memory m a)) = pruning a"
  "pruning (restore_snapshot snap a) = pruning a"
  "pruning (truncate_to_prompt_index n a) = pruning a"
  "pruning (converge_working_directory_switch gen x a) = pruning a"
  "pruning (add_estimate x a) = pruning a"
  by (simp_all add: rewrite_history_def replace_conversation_def persist_memory_def restore_snapshot_def
      truncate_to_prompt_index_def converge_working_directory_switch_def add_estimate_def Let_def
      split: prod.splits)

lemma pruning_pushes [simp]:
  "pruning (ensure_conversation_integrity_with_reason reason a) = pruning a"
  "pruning (pop_stranded_continue_reminder a) = pruning a"
  "pruning (persist_and_push_message x a) = pruning a"
  "pruning (fst (prune_retained_conversation a)) = pruning a"
  by (simp_all add: ensure_conversation_integrity_with_reason_def pop_stranded_continue_reminder_def
      persist_and_push_message_def prune_retained_conversation_def Let_def split: prod.splits)
    (metis fst_conv pruning_rewrites(1))

lemma pruning_push_user [simp]:
  "pruning (push_user_message_with_repair_reason x reason a) = pruning a"
  "pruning (fold push_user_message xs a) = pruning a"
proof -
  show one: "pruning (push_user_message_with_repair_reason x reason a) = pruning a" for x reason and a :: "'a actor"
    by (simp add: push_user_message_with_repair_reason_def Let_def)
  show "pruning (fold push_user_message xs a) = pruning a"
    by (induction xs arbitrary: a) (simp_all add: push_user_message_def one)
qed

lemma push_user_reason:
  "mirrored d a \<Longrightarrow> mirrored d (push_user_message_with_repair_reason x reason a)"
  "prune_enabled (pruning a) \<longrightarrow> p \<Longrightarrow> tracks p U a [x] False (push_user_message_with_repair_reason x reason a)"
proof -
  let ?a1 = "if ends_continuation x then pop_stranded_continue_reminder a else a"
  let ?a2 = "ensure_conversation_integrity_with_reason reason ?a1"
  let ?a3 = "persist_and_push_message x (add_estimate x ?a2)"
  have eq: "push_user_message_with_repair_reason x reason a = fst (prune_retained_conversation ?a3)"
    by (simp add: push_user_message_with_repair_reason_def)
  have t1: "tracks p U a [] False ?a1" by (simp add: pop_stranded tracks_refl)
  have t2: "tracks p U a [] False ?a2" using tracks_trans [OF t1 ensure_integrity(2)] by simp
  have t3: "tracks p U a [x] False ?a3"
    using tracks_trans [OF t2 inert_push(2) [OF inert_add_estimate]] by simp
  show "tracks p U a [x] False (push_user_message_with_repair_reason x reason a)"
    if "prune_enabled (pruning a) \<longrightarrow> p"
    unfolding eq using tracks_trans [OF t3 prune_retained(2)] that by simp
  show "mirrored d a \<Longrightarrow> mirrored d (push_user_message_with_repair_reason x reason a)"
    unfolding eq
    by (intro prune_retained(1) inert_push(1) [OF inert_add_estimate] ensure_integrity(1))
      (simp add: pop_stranded(1))
qed

lemma push_user_batch:
  "mirrored d a \<Longrightarrow> mirrored d (fold push_user_message xs a)"
  "prune_enabled (pruning a) \<longrightarrow> p \<Longrightarrow> tracks p U a xs False (fold push_user_message xs a)"
proof (induction xs arbitrary: a)
  case (Cons x xs)
  { case 1
    then show ?case using Cons.IH(1) by (simp add: push_user_message_def push_user_reason)
  next
    case 2
    then show ?case
      using tracks_trans [OF push_user_reason(2) [of a p U x UserCancelled] Cons.IH(2)]
      by (simp add: push_user_message_def)
  }
qed (simp_all add: tracks_refl)

lemma replace_conv:
  "mirrored d (replace_conversation items f a)"
  "tracks p U a [] f (replace_conversation items f a)"
proof -
  have "persisted (replace_conversation items f a) = persisted a @ [PReplaceHistory items]"
    by (simp add: replace_conversation_def snapshot_turn_slice_def rebase_turn_capture_offset_def actor_defs Let_def)
  from disk_append [OF this] show "mirrored d (replace_conversation items f a)"
    by (simp add: mirrored_def)
      (simp add: replace_conversation_def snapshot_turn_slice_def rebase_turn_capture_offset_def actor_defs Let_def)
  show "tracks p U a [] f (replace_conversation items f a)"
    by (rule tracks_rebased)
      (auto simp: replace_conversation_def snapshot_turn_slice_def rebase_turn_capture_offset_def actor_defs Let_def
        option.map_comp comp_def split: option.splits)
qed

lemma memory_persisted:
  "mirrored d a \<Longrightarrow> mirrored d (fst (persist_memory r a))"
  "tracks p U a [] False (fst (persist_memory r a))"
proof -
  let ?i = "inject_memory_reminder (conv_of a) r"
  have p: "persisted (fst (persist_memory r a)) = persisted a @ (if snd ?i then [PReplaceHistory (fst ?i)] else [])"
    "conv_of (fst (persist_memory r a)) = fst ?i"
    by (auto simp: persist_memory_def snapshot_turn_slice_def rebase_turn_capture_offset_def actor_defs Let_def
        split: prod.splits)
  show "mirrored d a \<Longrightarrow> mirrored d (fst (persist_memory r a))"
    using disk_append [OF p(1), of d] inject_unchanged [of "conv_of a" r] p(2) by (simp add: mirrored_def)
  show "tracks p U a [] False (fst (persist_memory r a))"
    by (rule tracks_rebased)
      (auto simp: persist_memory_def snapshot_turn_slice_def rebase_turn_capture_offset_def actor_defs Let_def
        option.map_comp comp_def split: option.splits prod.splits)
qed

lemma strip_keeps:
  "mirrored d a \<Longrightarrow> mirrored d (fst (strip_conversation_images urls a))"
  "set urls \<subseteq> U \<Longrightarrow> tracks p U a [] False (fst (strip_conversation_images urls a))"
proof -
  have eq: "fst (strip_conversation_images urls a) = fst (rewrite_history ImageStrip (\<lambda>c. strip_images_by_url c urls) a)"
    by (simp add: strip_conversation_images_def split: prod.splits)
  show "mirrored d a \<Longrightarrow> mirrored d (fst (strip_conversation_images urls a))"
    unfolding eq by (rule rewrite_mirrored) (rule strip_images_zero)
  show "tracks p U a [] False (fst (strip_conversation_images urls a))" if "set urls \<subseteq> U"
    unfolding eq by (rule rewrite_tracks_in_place) (simp_all add: faded_strip that)
qed

lemma head_keeps:
  "mirrored d a \<Longrightarrow> mirrored d (fst (replace_system_head prompt a))"
  "tracks p U a [] False (fst (replace_system_head prompt a))"
  by (auto simp: replace_system_head_def replace_conv tracks_refl split: prod.splits)

lemma restore_tracks: "tracks p U a [] False (restore_snapshot snap a)"
  by (rule tracks_rebased)
    (auto simp: restore_snapshot_def snapshot_turn_slice_def rebase_turn_capture_offset_def actor_defs Let_def
      option.map_comp comp_def split: option.splits)


section \<open>Commands\<close>

definition stored_switch :: "u64 \<Rightarrow> 'k actor \<Rightarrow> conversation_item option" where
  "stored_switch gen a =
     find (\<lambda>x. working_directory_switch_generation x = Some gen) (conv_of (pop_stranded_continue_reminder a))"

text \<open>
  What the store promises for a durable append: a generation is written once, and a second append
  is answered with the stored item. The answer may also be that nothing was written. A lost answer
  leaves the outcome open and is excluded.
\<close>

fun append_lawful :: "conversation_item option \<Rightarrow> append_result \<Rightarrow> bool" where
  "append_lawful stored (Inr Appended) = (stored = None)"
| "append_lawful stored (Inl (Committed Appended)) = (stored = None)"
| "append_lawful stored (Inr (AlreadyPresent x)) = (stored = Some x)"
| "append_lawful stored (Inl (Committed (AlreadyPresent x))) = (stored = Some x)"
| "append_lawful stored (Inl NotCommitted) = True"
| "append_lawful stored (Inl Indeterminate) = False"

fun lawful :: "'k actor \<Rightarrow> ('k, 't) chat_command \<Rightarrow> bool" where
  "lawful a (AppendWorkingDirectorySwitchAndAck content gen result) = append_lawful (stored_switch gen a) result"
| "lawful a _ = True"

fun restores :: "('k, 't) chat_command \<Rightarrow> bool" where
  "restores (RestoreSnapshot _) = True"
| "restores _ = False"

lemma update_first_id: "find P xs = Some y \<Longrightarrow> update_first P y xs = xs"
  by (induction xs) (auto split: if_splits)

lemma switch_keeps:
  fixes content :: rstring and gen :: u64 and result :: append_result and a :: "'k actor"
  assumes "append_lawful (stored_switch gen a) result"
  defines "b \<equiv> append_working_directory_switch content gen result a"
    and "x \<equiv> working_directory_switch content gen"
  shows "mirrored d a \<Longrightarrow> mirrored d b"
    "tracks p U a (if authoritative x result \<noteq> None \<and> stored_switch gen a = None then [x] else []) False b"
proof -
  let ?p = "pop_stranded_continue_reminder a"
  let ?a1 = "persist (PAcknowledgedMessage x result) ?p"
  have conv1: "conv_of ?a1 = conv_of ?p" "turn_capture (chat ?a1) = turn_capture (chat ?p)"
    by (simp_all add: actor_defs)
  have disk1: "disk d ?a1 = disk_step (PAcknowledgedMessage x result) (disk d ?p)"
    by (simp add: disk_def persist_def)
  have b: "b = (case authoritative x result of Some y \<Rightarrow> converge_working_directory_switch gen y ?a1 | None \<Rightarrow> ?a1)"
    unfolding b_def x_def append_working_directory_switch_def Let_def ..
  have cases: "authoritative x result = None \<and> disk d ?a1 = disk d ?p \<or>
      (stored_switch gen a = None \<and> authoritative x result = Some x \<and> disk d ?a1 = disk d ?p @ [x]) \<or>
      (\<exists>y. stored_switch gen a = Some y \<and> authoritative x result = Some y \<and> disk d ?a1 = disk d ?p)" for d
    using assms(1)
    by (cases "(x, result)" rule: authoritative.cases) (auto simp: disk_def persist_def)
  have step: "conv_of b = conv_of ?p @ (if authoritative x result \<noteq> None \<and> stored_switch gen a = None then [x] else [])"
    "turn_capture (chat b) = turn_capture (chat ?p)" "disk d b = disk d ?a1" for d
    using cases [of d] conv1
    by (auto simp: b converge_working_directory_switch_def stored_switch_def update_first_id Let_def actor_defs
        disk_def split: option.splits)
  show "mirrored d a \<Longrightarrow> mirrored d b"
    using pop_stranded(1) [of d a] cases [of d] step by (auto simp: mirrored_def)
  show "tracks p U a (if authoritative x result \<noteq> None \<and> stored_switch gen a = None then [x] else []) False b"
    using tracks_trans [OF pop_stranded(2) tracks_append [OF step(1,2)]] by simp
qed

lemma request_keeps:
  assumes "build_conversation_request frame tools memory persist_it cid rid a = Some (b, r)"
  shows "mirrored d a \<Longrightarrow> mirrored d b" "tracks p U a [] False b"
proof -
  let ?p = "case memory of Some m \<Rightarrow> if persist_it then fst (persist_memory m a) else a | None \<Rightarrow> a"
  have "inert ?p b"
    using assms
    by (auto simp: build_conversation_request_def Let_def inert_def disk_def send_event_def
        split: option.splits if_splits prod.splits)
  moreover have "mirrored d a \<Longrightarrow> mirrored d ?p" "tracks p U a [] False ?p"
    by (auto simp: memory_persisted tracks_refl split: option.splits)
  ultimately show "mirrored d a \<Longrightarrow> mirrored d b" "tracks p U a [] False b"
    using inert_keeps tracks_trans by fastforce+
qed

lemma repair_mirrored: "mirrored d a \<Longrightarrow> mirrored d (fst (actor_repair_history dry a))"
proof -
  obtain items report where r: "repair_history (conv_of a) = (items, report)" by force
  show "mirrored d a \<Longrightarrow> mirrored d (fst (actor_repair_history dry a))"
    using repair_unchanged [of "conv_of a"]
    by (auto simp: actor_repair_history_def r replace_conv Let_def)
      (auto simp: mirrored_def disk_def actor_defs)
qed

lemma truncate_mirrored: "mirrored d a \<Longrightarrow> mirrored d (truncate_to_prompt_index n a)"
  by (auto simp: truncate_to_prompt_index_def mirrored_def disk_def actor_defs Let_def)

lemma inert_commands:
  "inert a (record_token_usage t a)" "inert a (record_model_call_usage m u du ti a)"
  "inert a (record_subagent_usage es attr inc a)" "inert a (mark_usage_incomplete pr se a)"
  "inert a (increment_prompt_index a)" "inert a (on_chat seal_harness_trace_turn a)"
  "inert a (persist PFlush a)"
  by (simp_all add: inert_def record_token_usage_def record_model_call_usage_def record_subagent_usage_def
      mark_usage_incomplete_def increment_prompt_index_def seal_harness_trace_turn_def actor_defs disk_def Let_def)

lemma on_chat_keeps:
  "conversation (f (chat a)) = conv_of a \<Longrightarrow> mirrored d a \<Longrightarrow> mirrored d (on_chat f a)"
  "conversation (f (chat a)) = conv_of a \<Longrightarrow> turn_capture (f (chat a)) = turn_capture (chat a) \<Longrightarrow>
   tracks p U a [] False (on_chat f a)"
  by (simp add: mirrored_def disk_def on_chat_def) (rule tracks_same; simp add: on_chat_def)

lemmas pushes = push_user_message_def push_message_def push_model_output_def push_unreported_model_output_def

lemma handle_mirrored:
  assumes "lawful a cmd" "\<not> restores cmd" "mirrored d a"
  shows "mirrored d (fst (handle_command frame cmd a))"
proof (cases cmd)
  case (BuildConversationRequest tools memory persist_it cid rid)
  have m: "mirrored d (ensure_conversation_integrity a)"
    using ensure_integrity(1) [OF assms(3)] by (simp add: ensure_conversation_integrity_def)
  show ?thesis
    using request_keeps(1) [OF _ m] m
    by (auto simp: BuildConversationRequest Let_def split: option.splits)
next
  case (RepairHistory dry active)
  then show ?thesis
    using repair_mirrored [OF assms(3), of dry] assms(3) by (cases "actor_repair_history dry a") simp
next
  case (StripConversationImages urls)
  then show ?thesis
    using strip_keeps(1) [OF assms(3), of urls] by (cases "strip_conversation_images urls a") simp
next
  case (ReplaceSystemHead prompt)
  then show ?thesis
    using head_keeps(1) [OF assms(3), of prompt] by (cases "replace_system_head prompt a") simp
next
  case (TruncateToPromptIndex n)
  then show ?thesis using truncate_mirrored [OF assms(3), of n] by (simp add: mirrored_def disk_def actor_defs)
next
  case TakeHarnessTraceTurns
  then show ?thesis
    using inert_keeps(1) [OF inert_commands(6) assms(3)] by (simp add: mirrored_def disk_def actor_defs Let_def)
next
  case TakeTurnMessages
  then show ?thesis using assms(3) by (simp add: take_turn_messages_def mirrored_def disk_def actor_defs)
qed (insert assms, simp_all add: pushes push_user_reason push_user_batch switch_keeps push_item
    inert_push(1) [OF inert_add_estimate] inert_keeps(1) [OF inert_commands(1)] inert_keeps(1) [OF inert_commands(2)]
    inert_keeps(1) [OF inert_commands(3)] inert_keeps(1) [OF inert_commands(4)] inert_keeps(1) [OF inert_commands(5)]
    inert_keeps(1) [OF inert_commands(6)] inert_keeps(1) [OF inert_commands(7)] on_chat_keeps
    replace_conv halt_repair pop_stranded)


text \<open>The messages a command pushes, and whether it is a compaction.\<close>

fun pushed_by :: "'k actor \<Rightarrow> ('k, 't) chat_command \<Rightarrow> conv" where
  "pushed_by a (PushUserMessage x) = [x]"
| "pushed_by a (PushUserMessagesBatch xs) = xs"
| "pushed_by a (PushUserMessagesBatchAndAck xs) = xs"
| "pushed_by a (PushUserMessageAndAck x) = [x]"
| "pushed_by a (PushUserMessageWithRepairReason x reason) = [x]"
| "pushed_by a (AppendWorkingDirectorySwitchAndAck content gen result) =
     (if authoritative (working_directory_switch content gen) result \<noteq> None \<and> stored_switch gen a = None
      then [working_directory_switch content gen] else [])"
| "pushed_by a (PushAssistantResponse x) = [x]"
| "pushed_by a (PushToolResult x) = [x]"
| "pushed_by a (PushModelOutput x) = [x]"
| "pushed_by a (PushUnreportedModelOutput x) = [x]"
| "pushed_by a _ = []"

fun compacts :: "('k, 't) chat_command \<Rightarrow> bool" where
  "compacts (ReplaceConversation items f) = f"
| "compacts _ = False"

text \<open>A command that neither ends nor restarts a capture, nor repairs the stored history.\<close>

fun within_turn :: "('k, 't) chat_command \<Rightarrow> bool" where
  "within_turn BeginTurnCapture = False"
| "within_turn TakeTurnMessages = False"
| "within_turn (TruncateToPromptIndex n) = False"
| "within_turn (RepairHistory dry active) = (dry \<or> active = Some True)"
| "within_turn _ = True"

text \<open>The image URLs a command strips.\<close>

fun strip_urls :: "('k, 't) chat_command \<Rightarrow> rstring set" where
  "strip_urls (StripConversationImages urls) = set urls"
| "strip_urls _ = {}"

lemma repair_dry: "fst (actor_repair_history True a) = a"
  by (simp add: actor_repair_history_def split: prod.splits)

lemma request_pruning:
  assumes "build_conversation_request frame tools memory persist_it cid rid a = Some (b, r)"
  shows "pruning b = pruning a"
proof -
  let ?p = "case memory of Some m \<Rightarrow> if persist_it then fst (persist_memory m a) else a | None \<Rightarrow> a"
  have "pruning b = pruning ?p"
    using assms
    by (auto simp: build_conversation_request_def Let_def send_event_def
        split: option.splits if_splits prod.splits simp del: pruning_rewrites)
  then show ?thesis by (auto split: option.splits)
qed

lemma handle_pruning: "pruning (fst (handle_command frame cmd a)) = pruning a"
proof (cases cmd)
  case (AppendWorkingDirectorySwitchAndAck content gen result)
  then show ?thesis by (simp add: append_working_directory_switch_def Let_def split: option.split)
next
  case (RepairHistory dry active)
  then show ?thesis by (simp add: actor_repair_history_def Let_def split: prod.splits)
next
  case (BuildConversationRequest tools memory persist_it cid rid)
  then show ?thesis
    using request_pruning [of frame tools memory persist_it cid rid "ensure_conversation_integrity a"]
    by (auto simp: ensure_conversation_integrity_def Let_def split: option.splits)
next
  case (StripConversationImages urls)
  then show ?thesis
    by (simp add: strip_conversation_images_def split: prod.splits) (metis fst_conv pruning_rewrites(1))
next
  case (ReplaceSystemHead prompt)
  then show ?thesis by (simp add: replace_system_head_def split: prod.splits)
qed (simp_all add: pushes record_token_usage_def record_model_call_usage_def record_subagent_usage_def
    mark_usage_incomplete_def increment_prompt_index_def repair_dangling_after_harness_halt_def
    take_turn_messages_def Let_def)

lemma handle_tracks:
  assumes "lawful a cmd" "within_turn cmd" "prune_enabled (pruning a) \<longrightarrow> p" "strip_urls cmd \<subseteq> U"
  shows "tracks p U a (pushed_by a cmd) (compacts cmd) (fst (handle_command frame cmd a))"
proof (cases cmd)
  case (BuildConversationRequest tools memory persist_it cid rid)
  have m: "tracks p U a [] False (ensure_conversation_integrity a)"
    by (simp add: ensure_conversation_integrity_def ensure_integrity)
  show ?thesis
    using tracks_trans [OF m request_keeps(2)] m
    by (auto simp: BuildConversationRequest Let_def split: option.splits)
next
  case (RepairHistory dry active)
  then show ?thesis
    using assms(2) repair_dry [of a] tracks_refl [of p U a] by (cases "actor_repair_history dry a") auto
next
  case (StripConversationImages urls)
  then show ?thesis
    using strip_keeps(2) [of urls U p a] assms(4) by (cases "strip_conversation_images urls a") simp
next
  case (ReplaceSystemHead prompt)
  then show ?thesis using head_keeps(2) [of p U a prompt] by (cases "replace_system_head prompt a") simp
next
  case TakeHarnessTraceTurns
  then show ?thesis
    by (simp add: Let_def) (rule tracks_same; simp add: seal_harness_trace_turn_def actor_defs)
next
  case (AppendWorkingDirectorySwitchAndAck content gen result)
  then show ?thesis using switch_keeps(2) [of gen a result p U content] assms(1) by simp
qed (insert assms, simp_all add: pushes push_user_reason push_user_batch push_item
    inert_push(2) [OF inert_add_estimate] inert_keeps(2) [OF inert_commands(1)] inert_keeps(2) [OF inert_commands(2)]
    inert_keeps(2) [OF inert_commands(3)] inert_keeps(2) [OF inert_commands(4)] inert_keeps(2) [OF inert_commands(5)]
    inert_keeps(2) [OF inert_commands(6)] inert_keeps(2) [OF inert_commands(7)] on_chat_keeps
    replace_conv halt_repair pop_stranded restore_tracks tracks_refl)

end
