(* ===== verification/Chat_Runs.thy ===== *)
theory Chat_Runs
  imports Chat_Invariants
begin

text \<open>
  Runs of the chat-state actor: sequences of commands handled one after another, the invariant that
  holds over every run, what a captured turn returns, and what a built request satisfies.
\<close>

section \<open>Runs\<close>

definition step_command ::
  "(conversation_item \<Rightarrow> nat) \<Rightarrow> ('k, 't) chat_command \<Rightarrow> 'k actor \<Rightarrow> 'k actor" where
  "step_command frame cmd a = fst (handle_command frame cmd a)"

definition run_commands ::
  "(conversation_item \<Rightarrow> nat) \<Rightarrow> ('k, 't) chat_command list \<Rightarrow> 'k actor \<Rightarrow> 'k actor" where
  "run_commands frame cmds a = fold (step_command frame) cmds a"

fun lawful_run :: "(conversation_item \<Rightarrow> nat) \<Rightarrow> ('k, 't) chat_command list \<Rightarrow> 'k actor \<Rightarrow> bool" where
  "lawful_run frame [] a = True"
| "lawful_run frame (c # cs) a = (lawful a c \<and> lawful_run frame cs (step_command frame c a))"

fun pushed_run :: "(conversation_item \<Rightarrow> nat) \<Rightarrow> ('k, 't) chat_command list \<Rightarrow> 'k actor \<Rightarrow> conv" where
  "pushed_run frame [] a = []"
| "pushed_run frame (c # cs) a = pushed_by a c @ pushed_run frame cs (step_command frame c a)"

lemma run_commands_simps [simp]:
  "run_commands frame [] a = a"
  "run_commands frame (c # cs) a = run_commands frame cs (step_command frame c a)"
  by (simp_all add: run_commands_def)

text \<open>The actor as the loader starts it: in memory the loaded history is repaired, nothing is written.\<close>

definition actor_new :: "conv \<Rightarrow> 'k sampling_config \<Rightarrow> 'k \<Rightarrow> pruning_config \<Rightarrow> 'k actor" where
  "actor_new c cfg creds prune = \<lparr>chat = chat_state_new c cfg creds, pruning = prune, persisted = [], events = []\<rparr>"

section \<open>The capture stays in range\<close>

lemma capture_ok_tracks: "tracks p U a xs f b \<Longrightarrow> capture_ok a \<Longrightarrow> capture_ok b"
  by (simp add: tracks_def)

lemma capture_ok_None: "turn_capture (chat a) = None \<Longrightarrow> capture_ok a"
  by (simp add: capture_ok_def)

text \<open>\<open>RepairHistory\<close> alone goes through a state whose offset is past the end; what it leaves behind is in range.\<close>

lemma repair_capture_ok:
  assumes "capture_ok a"
  shows "capture_ok (fst (actor_repair_history dry a))"
proof -
  obtain items report where r: "repair_history (conv_of a) = (items, report)" by force
  have rep: "capture_ok (replace_conversation items False b)" for b :: "'a actor"
    by (auto simp: capture_ok_def replace_conversation_def snapshot_turn_slice_def rebase_turn_capture_offset_def
        actor_defs Let_def)
  have "items = conv_of a" if "\<not> repair_changed report"
    using repair_unchanged [of "conv_of a"] that r by simp
  then show ?thesis
    using assms rep by (auto simp: actor_repair_history_def r Let_def) (auto simp: capture_ok_def actor_defs)
qed

lemma handle_capture_ok:
  assumes "lawful a cmd" "capture_ok a"
  shows "capture_ok (fst (handle_command frame cmd a))"
proof (cases "within_turn cmd")
  case True
  from capture_ok_tracks [OF handle_tracks [OF assms(1) True, of True UNIV] assms(2)] show ?thesis by simp
next
  case False
  then show ?thesis
  proof (cases cmd)
    case (RepairHistory dry active)
    then show ?thesis
      using repair_capture_ok [OF assms(2), of dry] assms(2) by (cases "actor_repair_history dry a") simp
  next
    case BeginTurnCapture
    then show ?thesis by (simp add: capture_ok_def actor_defs)
  qed (insert False, simp_all add: take_turn_messages_def capture_ok_def actor_defs)
qed

section \<open>The invariant\<close>

definition chat_inv :: "conv \<Rightarrow> 'k actor \<Rightarrow> bool" where
  "chat_inv loaded a \<longleftrightarrow> mirrored loaded a \<and> capture_ok a"

text \<open>
  The actor and its mailbox: a sender appends a command, the actor handles the oldest one. A restored
  snapshot is not a step, since it is not written to disk: a run starts behind it.
\<close>

inductive chat_step ::
  "(conversation_item \<Rightarrow> nat) \<Rightarrow> ('k, 't) chat_command list \<times> 'k actor \<Rightarrow>
   ('k, 't) chat_command list \<times> 'k actor \<Rightarrow> bool" for frame :: "conversation_item \<Rightarrow> nat" where
  sent: "chat_step frame (q, a) (q @ [cmd], a)"
| handled: "lawful a cmd \<Longrightarrow> \<not> restores cmd \<Longrightarrow> chat_step frame (cmd # q, a) (q, step_command frame cmd a)"

inductive_cases chat_stepE: "chat_step frame (q, a) s"

definition chat_init :: "conv \<Rightarrow> ('k, 't) chat_command list \<times> 'k actor \<Rightarrow> bool" where
  "chat_init loaded s \<longleftrightarrow> persisted (snd s) = [] \<and> conv_of (snd s) = loaded \<and> capture_ok (snd s)"

interpretation chat_runs: invariant_system "chat_init loaded" "chat_step frame" "\<lambda>s. chat_inv loaded (snd s)"
proof unfold_locales
  show "chat_inv loaded (snd s)" if "chat_init loaded s" for s :: "('a, 'b) chat_command list \<times> 'a actor"
    using that by (simp add: chat_init_def chat_inv_def mirrored_def disk_def)
  show "chat_inv loaded (snd t)" if "chat_inv loaded (snd s)" "chat_step frame s t"
    for s t :: "('a, 'b) chat_command list \<times> 'a actor"
    using that handle_mirrored handle_capture_ok
    by (cases s) (auto simp: chat_inv_def step_command_def elim!: chat_stepE)
qed

text \<open>A write that replaces the whole stored history: what was stored before no longer matters.\<close>

fun whole_write :: "persistence_record \<Rightarrow> bool" where
  "whole_write (PReplaceHistory c) = True"
| "whole_write (PReplaceHistoryForStrip c) = True"
| "whole_write _ = False"

lemma whole_write_forgets: "list_ex whole_write ws \<Longrightarrow> fold disk_step ws d = fold disk_step ws e"
proof (induction ws arbitrary: d e)
  case (Cons w ws)
  then show ?case by (cases w) auto
qed simp


definition sample_config :: "unit sampling_config" where
  "sample_config = \<lparr>cfg_model = lit ''m'', context_window = 1000, cfg_rest = ()\<rparr>"

definition unanswered :: conv where
  "unanswered = [user (lit ''go''), assistant_tool_calls [sample_call ''a'']]"


section \<open>A captured turn\<close>

lemma run_tracks:
  "lawful_run frame cmds a \<Longrightarrow> list_all within_turn cmds \<Longrightarrow> prune_enabled (pruning a) \<longrightarrow> p \<Longrightarrow>
   list_all (\<lambda>c. strip_urls c \<subseteq> U) cmds \<Longrightarrow>
   tracks p U a (pushed_run frame cmds a) (list_ex compacts cmds) (run_commands frame cmds a)"
proof (induction cmds arbitrary: a)
  case (Cons c cs)
  have "tracks p U a (pushed_by a c) (compacts c) (step_command frame c a)"
    unfolding step_command_def by (rule handle_tracks) (use Cons.prems in simp_all)
  moreover have "pruning (step_command frame c a) = pruning a" by (simp add: step_command_def handle_pruning)
  ultimately show ?case using tracks_trans Cons by fastforce
qed (simp add: tracks_refl)

text \<open>C2.
  A captured turn is what was pushed in it. From the start of a capture, through any run of commands
  that neither ends or restarts it nor repairs the stored history with \<open>RepairHistory\<close> (pushes,
  replacements, compactions, the integrity repairs of pushes and requests, strips, prunes and
  restored snapshots are included, with the answers of the store to durable appends as promised),
  taking the turn returns one message for each message pushed since, in order. It is the pushed message
  itself but for two rewrites in place: an image whose URL a strip command of the run names is
  stripped, and, where pruning is enabled, the text of a tool result may be the placeholder of a
  cleared one. Without a strip command and with pruning disabled it is exactly the list of the pushed
  messages. The flag says whether a compaction took place, and the capture is gone afterwards.
\<close>

theorem turn_capture_exact:
  fixes cmds :: "('k, 't) chat_command list"
  assumes "a0 = fst (handle_command frame (BeginTurnCapture :: ('k, 't) chat_command) a)"
    and "lawful_run frame cmds a0" and "list_all within_turn cmds"
  shows "\<exists>ms b. handle_command frame (TakeTurnMessages :: ('k, 't) chat_command) (run_commands frame cmds a0) =
      (b, RTurn (Some (ms, list_ex compacts cmds))) \<and>
    list_all2 (faded (prune_enabled (pruning a)) (\<Union> (strip_urls ` set cmds))) (pushed_run frame cmds a0) ms \<and>
    (\<not> prune_enabled (pruning a) \<and> list_all (\<lambda>c. strip_urls c = {}) cmds \<longrightarrow> ms = pushed_run frame cmds a0) \<and>
    turn_capture (chat b) = None \<and> conversation (chat b) = conversation (chat (run_commands frame cmds a0))"
proof -
  let ?p = "prune_enabled (pruning a)" and ?U = "\<Union> (strip_urls ` set cmds)"
  have "captured a0 = Some ([], False)" "capture_ok a0"
    by (simp_all add: assms(1) captured_eq turn_tail_def capture_ok_def actor_defs)
  moreover have "tracks ?p ?U a0 (pushed_run frame cmds a0) (list_ex compacts cmds) (run_commands frame cmds a0)"
    by (rule run_tracks [OF assms(2,3)]) (auto simp: assms(1) list_all_iff)
  ultimately obtain ms where ms: "captured (run_commands frame cmds a0) = Some (ms, list_ex compacts cmds)"
    "all_faded ?p ?U (pushed_run frame cmds a0) ms"
    by (auto simp: tracks_def grows_def)
  have "ms = pushed_run frame cmds a0" if "\<not> ?p" "list_all (\<lambda>c. strip_urls c = {}) cmds"
  proof -
    have "?U = {}" using that(2) by (auto simp: list_all_iff)
    then show ?thesis using ms(2) that(1) by (simp add: all_faded_exact)
  qed
  then show ?thesis using ms by (auto simp: captured_def all_faded_def take_turn_messages_def actor_defs)
qed

definition turn_script :: "(unit, unit) chat_command list" where
  "turn_script =
     [PushUserMessage (user (lit ''q'')), PushAssistantResponse (assistant (lit ''a'')),
      ReplaceConversation [user (lit ''summary'')] True, PushAssistantResponse (assistant (lit ''b''))]"

theorem turn_capture_exact_witness:
  "\<exists>b. handle_command (\<lambda>_. 0) (TakeTurnMessages :: (unit, unit) chat_command)
        (run_commands (\<lambda>_. 0) turn_script (step_command (\<lambda>_. 0) (BeginTurnCapture :: (unit, unit) chat_command)
          (actor_new [user (lit ''old'')] sample_config () (default_pruning\<lparr>prune_enabled := False\<rparr>)))) =
      (b, RTurn (Some ([user (lit ''q''), assistant (lit ''a''), assistant (lit ''b'')], True)))"
proof -
  let ?new = "actor_new [user (lit ''old'')] sample_config () (default_pruning\<lparr>prune_enabled := False\<rparr>)"
  let ?a0 = "step_command (\<lambda>_. 0) (BeginTurnCapture :: (unit, unit) chat_command) ?new"
  have "lawful_run (\<lambda>_. 0) turn_script ?a0" "list_all within_turn turn_script" "list_ex compacts turn_script"
    "list_all (\<lambda>c. strip_urls c = {}) turn_script" "\<not> prune_enabled (pruning ?new)"
    by (simp_all add: turn_script_def actor_new_def)
  moreover have "pushed_run (\<lambda>_. 0) turn_script ?a0 = [user (lit ''q''), assistant (lit ''a''), assistant (lit ''b'')]"
    by (simp add: turn_script_def)
  ultimately show ?thesis
    using turn_capture_exact [where cmds = turn_script and ?a0.0 = ?a0 and a = ?new, OF step_command_def] by auto
qed

text \<open>C33.
  A repair of the stored history that changes anything loses the part of a capture that is still
  in the conversation: the repair empties the conversation before the replacement takes its snapshot,
  so an untaken capture keeps what earlier replacements had set aside and nothing of its tail.
\<close>

theorem repair_loses_turn:
  fixes a :: "'k actor" and active :: "bool option"
  assumes "turn_capture (chat a) = Some cap" "active \<noteq> Some True"
    and "repair_changed (snd (repair_history (conversation (chat a))))"
  shows "snd (handle_command frame (TakeTurnMessages :: ('k, 't) chat_command)
      (fst (handle_command frame (RepairHistory False active :: ('k, 't) chat_command) a))) =
    RTurn (Some (pre_replacement_messages cap, compaction_occurred cap)) \<and>
    snd (handle_command frame (TakeTurnMessages :: ('k, 't) chat_command) a) =
    RTurn (Some (pre_replacement_messages cap @ turn_tail (conversation (chat a)) (turn_start_offset cap),
      compaction_occurred cap))"
proof -
  obtain items report where r: "repair_history (conv_of a) = (items, report)" by force
  then have "fst (actor_repair_history False a) = replace_conversation items False (set_conversation [] a)"
    using assms(3) by (simp add: actor_repair_history_def Let_def)
  then have "captured (fst (actor_repair_history False a)) = Some (pre_replacement_messages cap, compaction_occurred cap)"
    by (simp add: captured_eq replace_conversation_def snapshot_turn_slice_def rebase_turn_capture_offset_def
        actor_defs Let_def turn_tail_def assms(1))
  then show ?thesis
    using assms(1,2)
    by (cases "actor_repair_history False a") (simp add: captured_def take_turn_messages_def split: prod.splits)
qed

definition orphaned :: "unit actor" where
  "orphaned = run_commands (\<lambda>_. 0)
     [BeginTurnCapture :: (unit, unit) chat_command, PushToolResult (tool_result (lit ''lost'') (lit ''r''))]
     (actor_new [] sample_config () default_pruning)"

theorem repair_loses_turn_witness:
  "snd (handle_command (\<lambda>_. 0) (TakeTurnMessages :: (unit, unit) chat_command)
      (fst (handle_command (\<lambda>_. 0) (RepairHistory False None :: (unit, unit) chat_command) orphaned))) =
    RTurn (Some ([], False)) \<and>
   snd (handle_command (\<lambda>_. 0) (TakeTurnMessages :: (unit, unit) chat_command) orphaned) =
    RTurn (Some ([tool_result (lit ''lost'') (lit ''r'')], False))"
proof -
  have empty: "fst (integrity_repair UserCancelled []) = []" by code_simp
  have cap: "turn_capture (chat orphaned) =
      Some \<lparr>turn_start_offset = 0, pre_replacement_messages = [], compaction_occurred = False\<rparr>"
    "conv_of orphaned = [tool_result (lit ''lost'') (lit ''r'')]"
    by (simp_all add: orphaned_def step_command_def actor_new_def chat_state_new_def push_message_def
        persist_and_push_message_def add_estimate_def actor_defs empty Let_def)
  have "repair_changed (snd (repair_history [tool_result (lit ''lost'') (lit ''r'')]))"
    by code_simp
  then show ?thesis
    using repair_loses_turn [OF cap(1), of None "\<lambda>_. 0"] cap by (simp add: turn_tail_def)
qed

section \<open>Requests\<close>

text \<open>A predicate on the call ids and the result ids behind every assistant turn that makes calls.\<close>

function all_runs :: "(rstring list \<Rightarrow> rstring option list \<Rightarrow> bool) \<Rightarrow> conv \<Rightarrow> bool" where
  "all_runs P [] = True"
| "all_runs P (x # xs) =
     (if item_has_tool_requests x
      then P (map call_id (item_calls x)) (map result_id (takeWhile is_result_item xs)) \<and>
           all_runs P (dropWhile is_result_item xs)
      else all_runs P xs)"
  by pat_completeness auto
termination
  by (relation "measure (\<lambda>(_, c). length c)") (auto simp: le_imp_less_Suc length_dropWhile_le)

definition all_answered :: "rstring list \<Rightarrow> rstring option list \<Rightarrow> bool" where
  "all_answered calls results \<longleftrightarrow> Some ` set calls \<subseteq> set results"

definition once_answered :: "rstring list \<Rightarrow> rstring option list \<Rightarrow> bool" where
  "once_answered calls results \<longleftrightarrow> (distinct calls \<longrightarrow> distinct results)"

lemma all_runs_shape: "map shape c = map shape d \<Longrightarrow> all_runs P c = all_runs P d"
proof (induction c arbitrary: d rule: run_induct)
  case (calls x xs)
  then obtain y ys where d: "d = y # ys" "shape x = shape y" "map shape xs = map shape ys" by (cases d) auto
  note same = shape_takeWhile [OF d(3)] shape_requests [OF d(2)]
  have "map call_id (item_calls x) = map call_id (item_calls y)" using d(2) by (simp add: shape_def)
  moreover have "map result_id (takeWhile is_result_item xs) = map result_id (takeWhile is_result_item ys)"
    using same(1) shape_ids by blast
  moreover have "all_runs P (dropWhile is_result_item xs) = all_runs P (dropWhile is_result_item ys)"
    using calls(2) same(1) by blast
  ultimately show ?case using calls(1) same(2) d(1) by simp
next
  case (other x xs)
  then obtain y ys where d: "d = y # ys" "shape x = shape y" "map shape xs = map shape ys" by (cases d) auto
  then show ?case using other shape_requests [OF d(2)] by simp
qed simp

lemma all_runs_on_runs:
  assumes "\<And>calls run. list_all is_result_item run \<Longrightarrow> list_all is_result_item (f calls run)"
    and "\<And>calls run. P (map call_id calls) (map result_id (f calls run))"
  shows "all_runs P (on_runs True f c)"
proof (induction c rule: run_induct)
  case (calls x xs)
  let ?run = "takeWhile is_result_item xs" and ?rest = "dropWhile is_result_item xs"
  have cut: "takeWhile is_result_item (on_runs True f ?rest) = []"
    "dropWhile is_result_item (on_runs True f ?rest) = on_runs True f ?rest"
    using dropWhile_run by (intro on_runs_cut; blast)+
  have new: "\<forall>y \<in> set (f (item_calls x) ?run). is_result_item y"
    using assms(1) [OF run_results] by (auto simp: list_all_iff)
  show ?case using calls assms(2) cut new by (simp add: takeWhile_append dropWhile_append)
qed simp_all

lemma integrity_repair_runs:
  "all_runs all_answered (fst (integrity_repair reason c))"
  "all_runs once_answered (fst (integrity_repair reason c))"
proof -
  let ?f = "\<lambda>calls. answered_run reason calls \<circ> keep_last"
  have eq: "fst (integrity_repair reason c) = on_runs True ?f c"
    by (simp add: integrity_repair_def dedup_runs dangling_runs on_runs_comp keep_last_results)
  have results: "list_all is_result_item (?f calls run)" if "list_all is_result_item run" for calls run
    using that by (simp add: keep_last_results synthetic_are_results)
  have "all_answered (map call_id calls) (map result_id (?f calls run))" for calls run
    by (auto simp: all_answered_def synthetic_results_def tool_result_def image_iff)
  then show "all_runs all_answered (fst (integrity_repair reason c))"
    unfolding eq using results by (intro all_runs_on_runs)
  have "once_answered (map call_id calls) (map result_id (?f calls run))" for calls run
  proof -
    have "set (map result_id (keep_last run)) \<inter>
        set (map result_id (synthetic_results reason calls (keep_last run))) = {}"
      by (force simp: synthetic_results_def tool_result_def)
    then show ?thesis
      using distinct_synthetic [of calls reason "keep_last run"] keep_last_distinct [of run]
      by (simp only: once_answered_def comp_def map_append distinct_append simp_thms) blast
  qed
  then show "all_runs once_answered (fst (integrity_repair reason c))"
    unfolding eq using results by (intro all_runs_on_runs)
qed

lemma answered_not_dangling: "all_runs all_answered c \<longleftrightarrow> \<not> has_dangling_tool_calls c"
proof -
  have "all_runs all_answered c \<longleftrightarrow> on_runs True (answered_run UserCancelled) c = c"
  proof (induction c rule: run_induct)
    case (calls x xs)
    let ?run = "takeWhile is_result_item xs" and ?rest = "dropWhile is_result_item xs"
    have "all_answered (map call_id (item_calls x)) (map result_id ?run) \<longleftrightarrow>
        synthetic_results UserCancelled (item_calls x) ?run = []"
      by (auto simp: synthetic_results_Nil all_answered_def list_ex_iff)
    moreover have "?run @ syn @ on_runs True (answered_run UserCancelled) ?rest = xs \<longleftrightarrow>
        syn = [] \<and> on_runs True (answered_run UserCancelled) ?rest = ?rest" for syn
    proof
      assume "?run @ syn @ on_runs True (answered_run UserCancelled) ?rest = xs"
      then have eq: "syn @ on_runs True (answered_run UserCancelled) ?rest = ?rest"
        using takeWhile_dropWhile_id [of is_result_item xs] by (metis same_append_eq)
      from arg_cong [OF this, of length] have "syn = []"
        using length_answered [of ?rest UserCancelled] by (cases syn) simp_all
      then show "syn = [] \<and> on_runs True (answered_run UserCancelled) ?rest = ?rest" using eq by simp
    qed simp
    ultimately show ?case using calls by simp
  qed simp_all
  then show ?thesis
    using has_dangling_runs [of "[]" c UserCancelled] by (simp add: has_dangling_tool_calls_def)
qed


text \<open>What follows the repair keeps the runs as they are.\<close>

lemma inject_runs: "all_runs P (fst (inject_memory_reminder c r)) = all_runs P c"
proof -
  have "\<not> item_has_tool_requests (system t)" for t by (simp add: system_def)
  then show ?thesis
    by (cases c rule: head_prompt.cases) (simp_all add: inject_memory_reminder.simps Let_def split: prod.splits)
qed

lemma persist_memory_conv: "conv_of (fst (persist_memory m a)) = fst (inject_memory_reminder (conv_of a) m)"
  by (auto simp: persist_memory_def snapshot_turn_slice_def rebase_turn_capture_offset_def actor_defs Let_def
      split: prod.splits)

lemma prune_request_runs: "all_runs P (prune_items_for_turn_request a c) = all_runs P c"
proof -
  have "map shape (prune_conversation c cfg) = map shape c" for cfg
    using by_age_shape [OF keeps_id_prune] by (simp add: prune_conversation_def age_walk_by_age)
  then have "all_runs P (prune_conversation c cfg) = all_runs P c" for cfg by (rule all_runs_shape)
  then show ?thesis by (simp add: prune_items_for_turn_request_def)
qed

lemma label_runs: "all_runs P (model_request_history c) = all_runs P c"
proof (rule all_runs_shape)
  have "shape (label_agent_message x) = shape x" for x by (cases x) (simp_all add: shape_def)
  then show "map shape (model_request_history c) = map shape c" by (simp add: model_request_history_def)
qed

lemma budget_runs: "\<exists>c' outcome. apply_image_budget frame c = Some (c', outcome) \<and> map shape c' = map shape c"
proof -
  let ?body = "conversation_body_bytes frame c"
  obtain n where "evict_images_loop (discover_images 0 c) c ?body IMAGE_COMPACT_RECLAIM_TARGET_BYTES 0 =
      Some (evict_oldest n c, 0 + n)"
    using evict_loop_spec [OF refl, of c ?body IMAGE_COMPACT_RECLAIM_TARGET_BYTES 0 frame 0] by blast
  then show ?thesis
    by (simp add: apply_image_budget_def apply_image_budget_with_limits_def evict_images_to_budget_def Let_def)
qed

lemma request_runs:
  "\<exists>b r. build_conversation_request frame tools memory persist_it cid rid a = Some (b, r) \<and>
     (\<forall>P. all_runs P (req_items r) = all_runs P (conv_of a))"
proof -
  let ?start = "case memory of
      Some m \<Rightarrow> if persist_it then let (a', injected) = persist_memory m a in (a', if injected then None else memory)
               else (a, memory)
    | None \<Rightarrow> (a, None)"
  obtain p left where start: "?start = (p, left)" by force
  then have p: "all_runs P (conv_of p) = all_runs P (conv_of a)" for P
    using inject_runs persist_memory_conv [of _ a]
    by (auto split: option.splits if_splits prod.splits) (metis fst_conv)+
  obtain c' outcome where budget: "apply_image_budget frame (conv_of p) = Some (c', outcome)"
    "map shape c' = map shape (conv_of p)"
    using budget_runs by blast
  have "all_runs P (case left of Some m \<Rightarrow> fst (inject_memory_reminder c m) | None \<Rightarrow> c) = all_runs P c" for P c
    by (simp add: inject_runs split: option.split)
  then show ?thesis
    using p all_runs_shape [OF budget(2)] budget(1)
    unfolding build_conversation_request_def start
    by (simp add: Let_def label_runs prune_request_runs)
qed

text \<open>C3.
  A request for the model is always built, whatever the history: the image budget does not panic. In
  the request every call of an assistant turn is answered in the run of results behind it, no such
  run answers twice unless the model repeated a call id, and nothing is left dangling: pruning,
  image eviction, the memory section and the labels of agent messages do not undo the repair.
\<close>

theorem request_well_formed:
  "\<exists>b r. handle_command frame (BuildConversationRequest tools memory persist_it cid rid) a = (b, RRequest (Some r)) \<and>
     all_runs all_answered (req_items r) \<and> all_runs once_answered (req_items r) \<and>
     \<not> has_dangling_tool_calls (req_items r) \<and> req_tools r = tools \<and> req_conv_id r = cid \<and> req_id r = rid"
proof -
  let ?a = "ensure_conversation_integrity a"
  have conv: "conv_of ?a = fst (integrity_repair UserCancelled (conv_of a))"
    by (simp add: ensure_conversation_integrity_def ensure_conversation_integrity_with_reason_def)
  obtain b r where r: "build_conversation_request frame tools memory persist_it cid rid ?a = Some (b, r)"
    "\<forall>P. all_runs P (req_items r) = all_runs P (conv_of ?a)"
    using request_runs by blast
  have "all_runs all_answered (req_items r)" "all_runs once_answered (req_items r)"
    using r(2) integrity_repair_runs [of UserCancelled "conv_of a"] by (simp_all add: conv)
  moreover have "req_tools r = tools" "req_conv_id r = cid" "req_id r = rid"
    using r(1) by (auto simp: build_conversation_request_def Let_def split: option.splits if_splits prod.splits)
  ultimately show ?thesis using r(1) by (auto simp: answered_not_dangling Let_def)
qed

end
