(* ===== verification/Grokcraft_Protocol.thy ===== *)
theory Grokcraft_Protocol
  imports Json_Codec Text_Search
begin

text \<open>
  The frames between the agent and the Grokcraft relay (\<open>xai-grokcraft/src/protocol.rs\<close>): the structs
  and the two tagged enums with the readers and writers that their \<open>serde\<close> attributes derive (tags in
  snake case, fields in camel case), the events handed to the pager, the pairing code and the address
  the agent connects to. The \<open>url\<close> crate and the random source are parameters.
\<close>

section \<open>Names\<close>

datatype display_mode = Collapsed | Truncated | Expanded

fun display_mode_name :: "display_mode \<Rightarrow> string" where
  "display_mode_name Collapsed = ''collapsed''"
| "display_mode_name Truncated = ''truncated''"
| "display_mode_name Expanded = ''expanded''"

abbreviation enc_display_mode :: "display_mode \<Rightarrow> json" where
  "enc_display_mode \<equiv> enc_name display_mode_name"

definition all_display_mode :: "display_mode list" where
  "all_display_mode = [Collapsed, Truncated, Expanded]"

abbreviation dec_display_mode :: "json \<Rightarrow> display_mode option" where
  "dec_display_mode \<equiv> dec_name display_mode_name all_display_mode"

interpretation cdisplay_mode: codec enc_display_mode dec_display_mode any
proof unfold_locales
  show "dec_display_mode (enc_display_mode x) = Some x" for x
    by (cases x) (simp_all add: dec_name_def enc_name_def all_display_mode_def)
qed (simp add: enc_name_def)

datatype block_kind = KUser | KAssistant | KThinking | KTool | KSubagent | KSystem | KSessionEvent | KBgTask | KWorkflow | KBtw | KContext | KPermission

fun block_kind_name :: "block_kind \<Rightarrow> string" where
  "block_kind_name KUser = ''user''"
| "block_kind_name KAssistant = ''assistant''"
| "block_kind_name KThinking = ''thinking''"
| "block_kind_name KTool = ''tool''"
| "block_kind_name KSubagent = ''subagent''"
| "block_kind_name KSystem = ''system''"
| "block_kind_name KSessionEvent = ''session_event''"
| "block_kind_name KBgTask = ''bg_task''"
| "block_kind_name KWorkflow = ''workflow''"
| "block_kind_name KBtw = ''btw''"
| "block_kind_name KContext = ''context''"
| "block_kind_name KPermission = ''permission''"

abbreviation enc_block_kind :: "block_kind \<Rightarrow> json" where
  "enc_block_kind \<equiv> enc_name block_kind_name"

definition all_block_kind :: "block_kind list" where
  "all_block_kind = [KUser, KAssistant, KThinking, KTool, KSubagent, KSystem, KSessionEvent, KBgTask, KWorkflow, KBtw,
     KContext, KPermission]"

abbreviation dec_block_kind :: "json \<Rightarrow> block_kind option" where
  "dec_block_kind \<equiv> dec_name block_kind_name all_block_kind"

interpretation cblock_kind: codec enc_block_kind dec_block_kind any
proof unfold_locales
  show "dec_block_kind (enc_block_kind x) = Some x" for x
    by (cases x) (simp_all add: dec_name_def enc_name_def all_block_kind_def)
qed (simp add: enc_name_def)

datatype block_status = BRunning | BDone | BError | BCancelled | BIdle

fun block_status_name :: "block_status \<Rightarrow> string" where
  "block_status_name BRunning = ''running''"
| "block_status_name BDone = ''done''"
| "block_status_name BError = ''error''"
| "block_status_name BCancelled = ''cancelled''"
| "block_status_name BIdle = ''idle''"

abbreviation enc_block_status :: "block_status \<Rightarrow> json" where
  "enc_block_status \<equiv> enc_name block_status_name"

definition all_block_status :: "block_status list" where
  "all_block_status = [BRunning, BDone, BError, BCancelled, BIdle]"

abbreviation dec_block_status :: "json \<Rightarrow> block_status option" where
  "dec_block_status \<equiv> dec_name block_status_name all_block_status"

interpretation cblock_status: codec enc_block_status dec_block_status any
proof unfold_locales
  show "dec_block_status (enc_block_status x) = Some x" for x
    by (cases x) (simp_all add: dec_name_def enc_name_def all_block_status_def)
qed (simp add: enc_name_def)

datatype subagent_status = SRunning | SCompleted | SFailed | SCancelled

fun subagent_status_name :: "subagent_status \<Rightarrow> string" where
  "subagent_status_name SRunning = ''running''"
| "subagent_status_name SCompleted = ''completed''"
| "subagent_status_name SFailed = ''failed''"
| "subagent_status_name SCancelled = ''cancelled''"

abbreviation enc_subagent_status :: "subagent_status \<Rightarrow> json" where
  "enc_subagent_status \<equiv> enc_name subagent_status_name"

definition all_subagent_status :: "subagent_status list" where
  "all_subagent_status = [SRunning, SCompleted, SFailed, SCancelled]"

abbreviation dec_subagent_status :: "json \<Rightarrow> subagent_status option" where
  "dec_subagent_status \<equiv> dec_name subagent_status_name all_subagent_status"

interpretation csubagent_status: codec enc_subagent_status dec_subagent_status any
proof unfold_locales
  show "dec_subagent_status (enc_subagent_status x) = Some x" for x
    by (cases x) (simp_all add: dec_name_def enc_name_def all_subagent_status_def)
qed (simp add: enc_name_def)

section \<open>Structs\<close>

record machine_info =
  mi_id :: rstring
  mi_hostname :: rstring
  mi_os :: rstring
  mi_cwd :: rstring
  mi_grok_version :: rstring
  mi_label :: rstring

definition enc_machine_info :: "machine_info \<Rightarrow> json" where
  "enc_machine_info x = JObj
     ([(''id'', JStr (mi_id x)), (''hostname'', JStr (mi_hostname x)), (''os'', JStr (mi_os x)),
       (''cwd'', JStr (mi_cwd x)), (''grokVersion'', JStr (mi_grok_version x)),
       (''label'', JStr (mi_label x))])"

definition read_machine_info :: "fields \<Rightarrow> machine_info option" where
  "read_machine_info kvs = do {
     id' \<leftarrow> required dec_str (entries ''id'' kvs);
     hostname' \<leftarrow> required dec_str (entries ''hostname'' kvs);
     os' \<leftarrow> required dec_str (entries ''os'' kvs);
     cwd' \<leftarrow> required dec_str (entries ''cwd'' kvs);
     grok_version' \<leftarrow> required dec_str (entries ''grokVersion'' kvs);
     label' \<leftarrow> required dec_str (entries ''label'' kvs);
     Some \<lparr>mi_id = id', mi_hostname = hostname', mi_os = os', mi_cwd = cwd',
       mi_grok_version = grok_version', mi_label = label'\<rparr> }"

abbreviation dec_machine_info :: "json \<Rightarrow> machine_info option" where
  "dec_machine_info \<equiv> dec_struct read_machine_info"

interpretation cmachine_info: codec enc_machine_info dec_machine_info any
  by unfold_locales (simp_all add: enc_machine_info_def read_machine_info_def field_rules)

record transcript_block =
  tb_id :: rstring
  tb_session_id :: rstring
  tb_parent_session_id :: "rstring option"
  tb_kind :: block_kind
  tb_title :: rstring
  tb_status :: block_status
  tb_display_mode :: display_mode
  tb_foldable :: bool
  tb_open_child_session :: bool
  tb_child_session_id :: "rstring option"
  tb_tool_name :: "rstring option"
  tb_is_background :: bool
  tb_content :: rstring
  tb_detail :: "rstring option"
  tb_activity_label :: "rstring option"
  tb_is_running :: bool
  tb_pinned :: bool

definition enc_transcript_block :: "transcript_block \<Rightarrow> json" where
  "enc_transcript_block x = JObj
     ([(''id'', JStr (tb_id x)), (''sessionId'', JStr (tb_session_id x)),
       (''parentSessionId'', enc_option JStr (tb_parent_session_id x)),
       (''kind'', enc_block_kind (tb_kind x)), (''title'', JStr (tb_title x)),
       (''status'', enc_block_status (tb_status x)),
       (''displayMode'', enc_display_mode (tb_display_mode x)), (''foldable'', JBool (tb_foldable x)),
       (''openChildSession'', JBool (tb_open_child_session x)),
       (''childSessionId'', enc_option JStr (tb_child_session_id x)),
       (''toolName'', enc_option JStr (tb_tool_name x)), (''isBackground'', JBool (tb_is_background x)),
       (''content'', JStr (tb_content x)), (''detail'', enc_option JStr (tb_detail x)),
       (''activityLabel'', enc_option JStr (tb_activity_label x)),
       (''isRunning'', JBool (tb_is_running x)), (''pinned'', JBool (tb_pinned x))])"

definition read_transcript_block :: "fields \<Rightarrow> transcript_block option" where
  "read_transcript_block kvs = do {
     id' \<leftarrow> required dec_str (entries ''id'' kvs);
     session_id' \<leftarrow> required dec_str (entries ''sessionId'' kvs);
     parent_session_id' \<leftarrow> optional dec_str (entries ''parentSessionId'' kvs);
     kind' \<leftarrow> required dec_block_kind (entries ''kind'' kvs);
     title' \<leftarrow> required dec_str (entries ''title'' kvs);
     status' \<leftarrow> required dec_block_status (entries ''status'' kvs);
     display_mode' \<leftarrow> required dec_display_mode (entries ''displayMode'' kvs);
     foldable' \<leftarrow> required dec_bool (entries ''foldable'' kvs);
     open_child_session' \<leftarrow> required dec_bool (entries ''openChildSession'' kvs);
     child_session_id' \<leftarrow> optional dec_str (entries ''childSessionId'' kvs);
     tool_name' \<leftarrow> optional dec_str (entries ''toolName'' kvs);
     is_background' \<leftarrow> required dec_bool (entries ''isBackground'' kvs);
     content' \<leftarrow> required dec_str (entries ''content'' kvs);
     detail' \<leftarrow> optional dec_str (entries ''detail'' kvs);
     activity_label' \<leftarrow> optional dec_str (entries ''activityLabel'' kvs);
     is_running' \<leftarrow> required dec_bool (entries ''isRunning'' kvs);
     pinned' \<leftarrow> required dec_bool (entries ''pinned'' kvs);
     Some \<lparr>tb_id = id', tb_session_id = session_id', tb_parent_session_id = parent_session_id',
       tb_kind = kind', tb_title = title', tb_status = status', tb_display_mode = display_mode',
       tb_foldable = foldable', tb_open_child_session = open_child_session',
       tb_child_session_id = child_session_id', tb_tool_name = tool_name',
       tb_is_background = is_background', tb_content = content', tb_detail = detail',
       tb_activity_label = activity_label', tb_is_running = is_running', tb_pinned = pinned'\<rparr> }"

abbreviation dec_transcript_block :: "json \<Rightarrow> transcript_block option" where
  "dec_transcript_block \<equiv> dec_struct read_transcript_block"

interpretation ctranscript_block: codec enc_transcript_block dec_transcript_block any
  by unfold_locales (simp_all add: enc_transcript_block_def read_transcript_block_def field_rules cblock_kind.required_enc cblock_status.required_enc cdisplay_mode.required_enc)

record subagent_info =
  si_child_session_id :: rstring
  si_description :: rstring
  si_subagent_type :: rstring
  si_persona :: "rstring option"
  si_role :: "rstring option"
  si_model :: "rstring option"
  si_is_background :: bool
  si_status :: subagent_status
  si_activity_label :: "rstring option"
  si_error :: "rstring option"
  si_duration_ms :: u64
  si_tool_calls :: u64
  si_turns :: u64

definition enc_subagent_info :: "subagent_info \<Rightarrow> json" where
  "enc_subagent_info x = JObj
     ([(''childSessionId'', JStr (si_child_session_id x)), (''description'', JStr (si_description x)),
       (''subagentType'', JStr (si_subagent_type x)), (''persona'', enc_option JStr (si_persona x)),
       (''role'', enc_option JStr (si_role x)), (''model'', enc_option JStr (si_model x)),
       (''isBackground'', JBool (si_is_background x)), (''status'', enc_subagent_status (si_status x)),
       (''activityLabel'', enc_option JStr (si_activity_label x)),
       (''error'', enc_option JStr (si_error x)), (''durationMs'', enc_uint (si_duration_ms x)),
       (''toolCalls'', enc_uint (si_tool_calls x)), (''turns'', enc_uint (si_turns x))])"

definition read_subagent_info :: "fields \<Rightarrow> subagent_info option" where
  "read_subagent_info kvs = do {
     child_session_id' \<leftarrow> required dec_str (entries ''childSessionId'' kvs);
     description' \<leftarrow> required dec_str (entries ''description'' kvs);
     subagent_type' \<leftarrow> required dec_str (entries ''subagentType'' kvs);
     persona' \<leftarrow> optional dec_str (entries ''persona'' kvs);
     role' \<leftarrow> optional dec_str (entries ''role'' kvs);
     model' \<leftarrow> optional dec_str (entries ''model'' kvs);
     is_background' \<leftarrow> required dec_bool (entries ''isBackground'' kvs);
     status' \<leftarrow> required dec_subagent_status (entries ''status'' kvs);
     activity_label' \<leftarrow> optional dec_str (entries ''activityLabel'' kvs);
     error' \<leftarrow> optional dec_str (entries ''error'' kvs);
     duration_ms' \<leftarrow> required dec_uint (entries ''durationMs'' kvs);
     tool_calls' \<leftarrow> required dec_uint (entries ''toolCalls'' kvs);
     turns' \<leftarrow> required dec_uint (entries ''turns'' kvs);
     Some \<lparr>si_child_session_id = child_session_id', si_description = description',
       si_subagent_type = subagent_type', si_persona = persona', si_role = role', si_model = model',
       si_is_background = is_background', si_status = status', si_activity_label = activity_label',
       si_error = error', si_duration_ms = duration_ms', si_tool_calls = tool_calls', si_turns = turns'\<rparr> }"

abbreviation dec_subagent_info :: "json \<Rightarrow> subagent_info option" where
  "dec_subagent_info \<equiv> dec_struct read_subagent_info"

interpretation csubagent_info: codec enc_subagent_info dec_subagent_info any
  by unfold_locales (simp_all add: enc_subagent_info_def read_subagent_info_def field_rules csubagent_status.required_enc)

record session_summary =
  ss_id :: rstring
  ss_title :: rstring
  ss_cwd :: rstring
  ss_is_child :: bool
  ss_parent_id :: "rstring option"

definition enc_session_summary :: "session_summary \<Rightarrow> json" where
  "enc_session_summary x = JObj
     ([(''id'', JStr (ss_id x)), (''title'', JStr (ss_title x)), (''cwd'', JStr (ss_cwd x)),
       (''isChild'', JBool (ss_is_child x)), (''parentId'', enc_option JStr (ss_parent_id x))])"

definition read_session_summary :: "fields \<Rightarrow> session_summary option" where
  "read_session_summary kvs = do {
     id' \<leftarrow> required dec_str (entries ''id'' kvs);
     title' \<leftarrow> required dec_str (entries ''title'' kvs);
     cwd' \<leftarrow> required dec_str (entries ''cwd'' kvs);
     is_child' \<leftarrow> required dec_bool (entries ''isChild'' kvs);
     parent_id' \<leftarrow> optional dec_str (entries ''parentId'' kvs);
     Some \<lparr>ss_id = id', ss_title = title', ss_cwd = cwd', ss_is_child = is_child', ss_parent_id = parent_id'\<rparr> }"

abbreviation dec_session_summary :: "json \<Rightarrow> session_summary option" where
  "dec_session_summary \<equiv> dec_struct read_session_summary"

interpretation csession_summary: codec enc_session_summary dec_session_summary any
  by unfold_locales (simp_all add: enc_session_summary_def read_session_summary_def field_rules)

record slash_command_info =
  sc_name :: rstring
  sc_aliases :: "rstring list"
  sc_description :: rstring
  sc_usage :: rstring
  sc_takes_args :: bool
  sc_args_required :: bool

definition enc_slash_command_info :: "slash_command_info \<Rightarrow> json" where
  "enc_slash_command_info x = JObj
     ([(''name'', JStr (sc_name x)), (''aliases'', enc_list JStr (sc_aliases x)),
       (''description'', JStr (sc_description x)), (''usage'', JStr (sc_usage x)),
       (''takesArgs'', JBool (sc_takes_args x)), (''argsRequired'', JBool (sc_args_required x))])"

definition read_slash_command_info :: "fields \<Rightarrow> slash_command_info option" where
  "read_slash_command_info kvs = do {
     name' \<leftarrow> required dec_str (entries ''name'' kvs);
     aliases' \<leftarrow> required (dec_list dec_str) (entries ''aliases'' kvs);
     description' \<leftarrow> required dec_str (entries ''description'' kvs);
     usage' \<leftarrow> required dec_str (entries ''usage'' kvs);
     takes_args' \<leftarrow> required dec_bool (entries ''takesArgs'' kvs);
     args_required' \<leftarrow> required dec_bool (entries ''argsRequired'' kvs);
     Some \<lparr>sc_name = name', sc_aliases = aliases', sc_description = description', sc_usage = usage',
       sc_takes_args = takes_args', sc_args_required = args_required'\<rparr> }"

abbreviation dec_slash_command_info :: "json \<Rightarrow> slash_command_info option" where
  "dec_slash_command_info \<equiv> dec_struct read_slash_command_info"

interpretation cslash_command_info: codec enc_slash_command_info dec_slash_command_info any
  by unfold_locales (simp_all add: enc_slash_command_info_def read_slash_command_info_def field_rules)

record model_option =
  mo_id :: rstring
  mo_name :: rstring

definition enc_model_option :: "model_option \<Rightarrow> json" where
  "enc_model_option x = JObj
     ([(''id'', JStr (mo_id x)), (''name'', JStr (mo_name x))])"

definition read_model_option :: "fields \<Rightarrow> model_option option" where
  "read_model_option kvs = do {
     id' \<leftarrow> required dec_str (entries ''id'' kvs);
     name' \<leftarrow> required dec_str (entries ''name'' kvs);
     Some \<lparr>mo_id = id', mo_name = name'\<rparr> }"

abbreviation dec_model_option :: "json \<Rightarrow> model_option option" where
  "dec_model_option \<equiv> dec_struct read_model_option"

interpretation cmodel_option: codec enc_model_option dec_model_option any
  by unfold_locales (simp_all add: enc_model_option_def read_model_option_def field_rules)

record permission_option =
  po_id :: rstring
  po_label :: rstring

definition enc_permission_option :: "permission_option \<Rightarrow> json" where
  "enc_permission_option x = JObj
     ([(''id'', JStr (po_id x)), (''label'', JStr (po_label x))])"

definition read_permission_option :: "fields \<Rightarrow> permission_option option" where
  "read_permission_option kvs = do {
     id' \<leftarrow> required dec_str (entries ''id'' kvs);
     label' \<leftarrow> required dec_str (entries ''label'' kvs);
     Some \<lparr>po_id = id', po_label = label'\<rparr> }"

abbreviation dec_permission_option :: "json \<Rightarrow> permission_option option" where
  "dec_permission_option \<equiv> dec_struct read_permission_option"

interpretation cpermission_option: codec enc_permission_option dec_permission_option any
  by unfold_locales (simp_all add: enc_permission_option_def read_permission_option_def field_rules)

record permission_request =
  pr_request_id :: rstring
  pr_session_id :: rstring
  pr_title :: rstring
  pr_detail :: rstring
  pr_options :: "permission_option list"

definition enc_permission_request :: "permission_request \<Rightarrow> json" where
  "enc_permission_request x = JObj
     ([(''requestId'', JStr (pr_request_id x)), (''sessionId'', JStr (pr_session_id x)),
       (''title'', JStr (pr_title x)), (''detail'', JStr (pr_detail x)),
       (''options'', enc_list enc_permission_option (pr_options x))])"

definition read_permission_request :: "fields \<Rightarrow> permission_request option" where
  "read_permission_request kvs = do {
     request_id' \<leftarrow> required dec_str (entries ''requestId'' kvs);
     session_id' \<leftarrow> required dec_str (entries ''sessionId'' kvs);
     title' \<leftarrow> required dec_str (entries ''title'' kvs);
     detail' \<leftarrow> required dec_str (entries ''detail'' kvs);
     options' \<leftarrow> required (dec_list dec_permission_option) (entries ''options'' kvs);
     Some \<lparr>pr_request_id = request_id', pr_session_id = session_id', pr_title = title', pr_detail = detail',
       pr_options = options'\<rparr> }"

abbreviation dec_permission_request :: "json \<Rightarrow> permission_request option" where
  "dec_permission_request \<equiv> dec_struct read_permission_request"

interpretation cpermission_request: codec enc_permission_request dec_permission_request any
  by unfold_locales (simp_all add: enc_permission_request_def read_permission_request_def field_rules cpermission_option.required_list)

record task_info =
  ti_id :: rstring
  ti_title :: "rstring option"
  ti_label :: "rstring option"
  ti_description :: "rstring option"
  ti_status :: "rstring option"
  ti_progress :: "f64 option"
  ti_session_id :: "rstring option"
  ti_activity_label :: "rstring option"

definition enc_task_info :: "task_info \<Rightarrow> json" where
  "enc_task_info x = JObj
     ([(''id'', JStr (ti_id x))] @
      skip_none JStr ''title'' (ti_title x) @
      skip_none JStr ''label'' (ti_label x) @
      skip_none JStr ''description'' (ti_description x) @
      skip_none JStr ''status'' (ti_status x) @
      skip_none enc_f64 ''progress'' (ti_progress x) @
      skip_none JStr ''sessionId'' (ti_session_id x) @
      skip_none JStr ''activityLabel'' (ti_activity_label x))"

definition read_task_info :: "fields \<Rightarrow> task_info option" where
  "read_task_info kvs = do {
     id' \<leftarrow> required dec_str (entries ''id'' kvs);
     title' \<leftarrow> optional dec_str (entries ''title'' kvs);
     label' \<leftarrow> optional dec_str (entries ''label'' kvs);
     description' \<leftarrow> optional dec_str (entries ''description'' kvs);
     status' \<leftarrow> optional dec_str (entries ''status'' kvs);
     progress' \<leftarrow> optional dec_f64 (entries ''progress'' kvs);
     session_id' \<leftarrow> optional dec_str (entries ''sessionId'' kvs);
     activity_label' \<leftarrow> optional dec_str (entries ''activityLabel'' kvs);
     Some \<lparr>ti_id = id', ti_title = title', ti_label = label', ti_description = description',
       ti_status = status', ti_progress = progress', ti_session_id = session_id',
       ti_activity_label = activity_label'\<rparr> }"

abbreviation dec_task_info :: "json \<Rightarrow> task_info option" where
  "dec_task_info \<equiv> dec_struct read_task_info"

definition ok_task_info :: "task_info \<Rightarrow> bool" where
  "ok_task_info x \<longleftrightarrow> pred_option f64_finite (ti_progress x)"

interpretation ctask_info: codec enc_task_info dec_task_info ok_task_info
  by unfold_locales (simp_all add: enc_task_info_def read_task_info_def field_rules ok_task_info_def)

record usage_category =
  uc_label :: rstring
  uc_tokens :: u64
  uc_detail :: "rstring option"

definition enc_usage_category :: "usage_category \<Rightarrow> json" where
  "enc_usage_category x = JObj
     ([(''label'', JStr (uc_label x)), (''tokens'', enc_uint (uc_tokens x))] @
      skip_none JStr ''detail'' (uc_detail x))"

definition read_usage_category :: "fields \<Rightarrow> usage_category option" where
  "read_usage_category kvs = do {
     label' \<leftarrow> required dec_str (entries ''label'' kvs);
     tokens' \<leftarrow> required dec_uint (entries ''tokens'' kvs);
     detail' \<leftarrow> optional dec_str (entries ''detail'' kvs);
     Some \<lparr>uc_label = label', uc_tokens = tokens', uc_detail = detail'\<rparr> }"

abbreviation dec_usage_category :: "json \<Rightarrow> usage_category option" where
  "dec_usage_category \<equiv> dec_struct read_usage_category"

interpretation cusage_category: codec enc_usage_category dec_usage_category any
  by unfold_locales (simp_all add: enc_usage_category_def read_usage_category_def field_rules)

record usage_context_tab =
  ux_loading :: bool
  ux_error :: "rstring option"
  ux_no_session :: bool
  ux_model :: "rstring option"
  ux_used :: "u64 option"
  ux_total :: "u64 option"
  ux_usage_pct :: "f64 option"
  ux_system_prompt_tokens :: "u64 option"
  ux_tool_definitions_tokens :: "u64 option"
  ux_tool_definitions_count :: "u64 option"
  ux_message_tokens :: "u64 option"
  ux_free_tokens :: "u64 option"
  ux_turn_count :: "u64 option"
  ux_tool_call_count :: "u64 option"
  ux_compaction_count :: "u64 option"
  ux_auto_compact_threshold_percent :: "u8 option"
  ux_categories :: "usage_category list"
  ux_lines :: "rstring list"

definition enc_usage_context_tab :: "usage_context_tab \<Rightarrow> json" where
  "enc_usage_context_tab x = JObj
     (skip_false ''loading'' (ux_loading x) @
      skip_none JStr ''error'' (ux_error x) @
      skip_false ''noSession'' (ux_no_session x) @
      skip_none JStr ''model'' (ux_model x) @
      skip_none enc_uint ''used'' (ux_used x) @
      skip_none enc_uint ''total'' (ux_total x) @
      skip_none enc_f64 ''usagePct'' (ux_usage_pct x) @
      skip_none enc_uint ''systemPromptTokens'' (ux_system_prompt_tokens x) @
      skip_none enc_uint ''toolDefinitionsTokens'' (ux_tool_definitions_tokens x) @
      skip_none enc_uint ''toolDefinitionsCount'' (ux_tool_definitions_count x) @
      skip_none enc_uint ''messageTokens'' (ux_message_tokens x) @
      skip_none enc_uint ''freeTokens'' (ux_free_tokens x) @
      skip_none enc_uint ''turnCount'' (ux_turn_count x) @
      skip_none enc_uint ''toolCallCount'' (ux_tool_call_count x) @
      skip_none enc_uint ''compactionCount'' (ux_compaction_count x) @
      skip_none enc_uint ''autoCompactThresholdPercent'' (ux_auto_compact_threshold_percent x) @
      skip_empty enc_usage_category ''categories'' (ux_categories x) @
      skip_empty JStr ''lines'' (ux_lines x))"

definition read_usage_context_tab :: "fields \<Rightarrow> usage_context_tab option" where
  "read_usage_context_tab kvs = do {
     loading' \<leftarrow> defaulted False dec_bool (entries ''loading'' kvs);
     error' \<leftarrow> optional dec_str (entries ''error'' kvs);
     no_session' \<leftarrow> defaulted False dec_bool (entries ''noSession'' kvs);
     model' \<leftarrow> optional dec_str (entries ''model'' kvs);
     used' \<leftarrow> optional dec_uint (entries ''used'' kvs);
     total' \<leftarrow> optional dec_uint (entries ''total'' kvs);
     usage_pct' \<leftarrow> optional dec_f64 (entries ''usagePct'' kvs);
     system_prompt_tokens' \<leftarrow> optional dec_uint (entries ''systemPromptTokens'' kvs);
     tool_definitions_tokens' \<leftarrow> optional dec_uint (entries ''toolDefinitionsTokens'' kvs);
     tool_definitions_count' \<leftarrow> optional dec_uint (entries ''toolDefinitionsCount'' kvs);
     message_tokens' \<leftarrow> optional dec_uint (entries ''messageTokens'' kvs);
     free_tokens' \<leftarrow> optional dec_uint (entries ''freeTokens'' kvs);
     turn_count' \<leftarrow> optional dec_uint (entries ''turnCount'' kvs);
     tool_call_count' \<leftarrow> optional dec_uint (entries ''toolCallCount'' kvs);
     compaction_count' \<leftarrow> optional dec_uint (entries ''compactionCount'' kvs);
     auto_compact_threshold_percent' \<leftarrow> optional dec_uint (entries ''autoCompactThresholdPercent'' kvs);
     categories' \<leftarrow> defaulted [] (dec_list dec_usage_category) (entries ''categories'' kvs);
     lines' \<leftarrow> defaulted [] (dec_list dec_str) (entries ''lines'' kvs);
     Some \<lparr>ux_loading = loading', ux_error = error', ux_no_session = no_session', ux_model = model',
       ux_used = used', ux_total = total', ux_usage_pct = usage_pct',
       ux_system_prompt_tokens = system_prompt_tokens',
       ux_tool_definitions_tokens = tool_definitions_tokens',
       ux_tool_definitions_count = tool_definitions_count', ux_message_tokens = message_tokens',
       ux_free_tokens = free_tokens', ux_turn_count = turn_count',
       ux_tool_call_count = tool_call_count', ux_compaction_count = compaction_count',
       ux_auto_compact_threshold_percent = auto_compact_threshold_percent', ux_categories = categories',
       ux_lines = lines'\<rparr> }"

abbreviation dec_usage_context_tab :: "json \<Rightarrow> usage_context_tab option" where
  "dec_usage_context_tab \<equiv> dec_struct read_usage_context_tab"

definition ok_usage_context_tab :: "usage_context_tab \<Rightarrow> bool" where
  "ok_usage_context_tab x \<longleftrightarrow> pred_option f64_finite (ux_usage_pct x)"

interpretation cusage_context_tab: codec enc_usage_context_tab dec_usage_context_tab ok_usage_context_tab
  by unfold_locales (simp_all add: enc_usage_context_tab_def read_usage_context_tab_def field_rules cusage_category.defaulted_skip_empty ok_usage_context_tab_def)

record usage_limit_tab =
  ul_loading :: bool
  ul_error :: "rstring option"
  ul_chat_kind :: bool
  ul_team_managed :: bool
  ul_billing_redirect_url :: "rstring option"
  ul_plan :: "rstring option"
  ul_usage_label :: "rstring option"
  ul_usage_pct :: "f64 option"
  ul_period_end_display :: "rstring option"
  ul_prepaid_cents :: "int option"
  ul_pay_as_you_go :: bool
  ul_pay_as_you_go_used_cents :: "int option"
  ul_pay_as_you_go_cap_cents :: "int option"
  ul_summary :: "rstring option"
  ul_session_usage_text :: "rstring option"
  ul_lines :: "rstring list"

definition enc_usage_limit_tab :: "usage_limit_tab \<Rightarrow> json" where
  "enc_usage_limit_tab x = JObj
     (skip_false ''loading'' (ul_loading x) @
      skip_none JStr ''error'' (ul_error x) @
      skip_false ''chatKind'' (ul_chat_kind x) @
      skip_false ''teamManaged'' (ul_team_managed x) @
      skip_none JStr ''billingRedirectUrl'' (ul_billing_redirect_url x) @
      skip_none JStr ''plan'' (ul_plan x) @
      skip_none JStr ''usageLabel'' (ul_usage_label x) @
      skip_none enc_f64 ''usagePct'' (ul_usage_pct x) @
      skip_none JStr ''periodEndDisplay'' (ul_period_end_display x) @
      skip_none JInt ''prepaidCents'' (ul_prepaid_cents x) @
      skip_false ''payAsYouGo'' (ul_pay_as_you_go x) @
      skip_none JInt ''payAsYouGoUsedCents'' (ul_pay_as_you_go_used_cents x) @
      skip_none JInt ''payAsYouGoCapCents'' (ul_pay_as_you_go_cap_cents x) @
      skip_none JStr ''summary'' (ul_summary x) @
      skip_none JStr ''sessionUsageText'' (ul_session_usage_text x) @
      skip_empty JStr ''lines'' (ul_lines x))"

definition read_usage_limit_tab :: "fields \<Rightarrow> usage_limit_tab option" where
  "read_usage_limit_tab kvs = do {
     loading' \<leftarrow> defaulted False dec_bool (entries ''loading'' kvs);
     error' \<leftarrow> optional dec_str (entries ''error'' kvs);
     chat_kind' \<leftarrow> defaulted False dec_bool (entries ''chatKind'' kvs);
     team_managed' \<leftarrow> defaulted False dec_bool (entries ''teamManaged'' kvs);
     billing_redirect_url' \<leftarrow> optional dec_str (entries ''billingRedirectUrl'' kvs);
     plan' \<leftarrow> optional dec_str (entries ''plan'' kvs);
     usage_label' \<leftarrow> optional dec_str (entries ''usageLabel'' kvs);
     usage_pct' \<leftarrow> optional dec_f64 (entries ''usagePct'' kvs);
     period_end_display' \<leftarrow> optional dec_str (entries ''periodEndDisplay'' kvs);
     prepaid_cents' \<leftarrow> optional dec_i64 (entries ''prepaidCents'' kvs);
     pay_as_you_go' \<leftarrow> defaulted False dec_bool (entries ''payAsYouGo'' kvs);
     pay_as_you_go_used_cents' \<leftarrow> optional dec_i64 (entries ''payAsYouGoUsedCents'' kvs);
     pay_as_you_go_cap_cents' \<leftarrow> optional dec_i64 (entries ''payAsYouGoCapCents'' kvs);
     summary' \<leftarrow> optional dec_str (entries ''summary'' kvs);
     session_usage_text' \<leftarrow> optional dec_str (entries ''sessionUsageText'' kvs);
     lines' \<leftarrow> defaulted [] (dec_list dec_str) (entries ''lines'' kvs);
     Some \<lparr>ul_loading = loading', ul_error = error', ul_chat_kind = chat_kind',
       ul_team_managed = team_managed', ul_billing_redirect_url = billing_redirect_url',
       ul_plan = plan', ul_usage_label = usage_label', ul_usage_pct = usage_pct',
       ul_period_end_display = period_end_display', ul_prepaid_cents = prepaid_cents',
       ul_pay_as_you_go = pay_as_you_go', ul_pay_as_you_go_used_cents = pay_as_you_go_used_cents',
       ul_pay_as_you_go_cap_cents = pay_as_you_go_cap_cents', ul_summary = summary',
       ul_session_usage_text = session_usage_text', ul_lines = lines'\<rparr> }"

abbreviation dec_usage_limit_tab :: "json \<Rightarrow> usage_limit_tab option" where
  "dec_usage_limit_tab \<equiv> dec_struct read_usage_limit_tab"

definition ok_usage_limit_tab :: "usage_limit_tab \<Rightarrow> bool" where
  "ok_usage_limit_tab x \<longleftrightarrow> pred_option f64_finite (ul_usage_pct x) \<and>
     pred_option i64_ok (ul_prepaid_cents x) \<and>
     pred_option i64_ok (ul_pay_as_you_go_used_cents x) \<and>
     pred_option i64_ok (ul_pay_as_you_go_cap_cents x)"

interpretation cusage_limit_tab: codec enc_usage_limit_tab dec_usage_limit_tab ok_usage_limit_tab
  by unfold_locales (simp_all add: enc_usage_limit_tab_def read_usage_limit_tab_def field_rules ok_usage_limit_tab_def)

record usage_session_field =
  uf_label :: rstring
  uf_value :: rstring
  uf_compact :: bool

definition enc_usage_session_field :: "usage_session_field \<Rightarrow> json" where
  "enc_usage_session_field x = JObj
     ([(''label'', JStr (uf_label x)), (''value'', JStr (uf_value x))] @
      skip_false ''compact'' (uf_compact x))"

definition read_usage_session_field :: "fields \<Rightarrow> usage_session_field option" where
  "read_usage_session_field kvs = do {
     label' \<leftarrow> required dec_str (entries ''label'' kvs);
     value' \<leftarrow> required dec_str (entries ''value'' kvs);
     compact' \<leftarrow> defaulted False dec_bool (entries ''compact'' kvs);
     Some \<lparr>uf_label = label', uf_value = value', uf_compact = compact'\<rparr> }"

abbreviation dec_usage_session_field :: "json \<Rightarrow> usage_session_field option" where
  "dec_usage_session_field \<equiv> dec_struct read_usage_session_field"

interpretation cusage_session_field: codec enc_usage_session_field dec_usage_session_field any
  by unfold_locales (simp_all add: enc_usage_session_field_def read_usage_session_field_def field_rules)

record usage_session_tab =
  us_loading :: bool
  us_error :: "rstring option"
  us_no_session :: bool
  us_fields :: "usage_session_field list"
  us_session_usage_text :: "rstring option"
  us_lines :: "rstring list"

definition enc_usage_session_tab :: "usage_session_tab \<Rightarrow> json" where
  "enc_usage_session_tab x = JObj
     (skip_false ''loading'' (us_loading x) @
      skip_none JStr ''error'' (us_error x) @
      skip_false ''noSession'' (us_no_session x) @
      skip_empty enc_usage_session_field ''fields'' (us_fields x) @
      skip_none JStr ''sessionUsageText'' (us_session_usage_text x) @
      skip_empty JStr ''lines'' (us_lines x))"

definition read_usage_session_tab :: "fields \<Rightarrow> usage_session_tab option" where
  "read_usage_session_tab kvs = do {
     loading' \<leftarrow> defaulted False dec_bool (entries ''loading'' kvs);
     error' \<leftarrow> optional dec_str (entries ''error'' kvs);
     no_session' \<leftarrow> defaulted False dec_bool (entries ''noSession'' kvs);
     fields' \<leftarrow> defaulted [] (dec_list dec_usage_session_field) (entries ''fields'' kvs);
     session_usage_text' \<leftarrow> optional dec_str (entries ''sessionUsageText'' kvs);
     lines' \<leftarrow> defaulted [] (dec_list dec_str) (entries ''lines'' kvs);
     Some \<lparr>us_loading = loading', us_error = error', us_no_session = no_session', us_fields = fields',
       us_session_usage_text = session_usage_text', us_lines = lines'\<rparr> }"

abbreviation dec_usage_session_tab :: "json \<Rightarrow> usage_session_tab option" where
  "dec_usage_session_tab \<equiv> dec_struct read_usage_session_tab"

interpretation cusage_session_tab: codec enc_usage_session_tab dec_usage_session_tab any
  by unfold_locales (simp_all add: enc_usage_session_tab_def read_usage_session_tab_def field_rules cusage_session_field.defaulted_skip_empty)

section \<open>Frames\<close>

datatype agent_to_cloud =
    AHello machine_info rstring u32
  | ASessionCatalog rstring rstring "rstring option" bool "session_summary list"
  | ACommands rstring "slash_command_info list"
  | AModels rstring "model_option list" "rstring option" "rstring option"
  | APairingReady rstring rstring
  | AStatus bool rstring "rstring option" "rstring option" bool u32
  | ASnapshot "session_summary list" "rstring option" "transcript_block list" "subagent_info list" "task_info list" "permission_request option"
  | ABlockUpsert transcript_block
  | ABlockRemove rstring rstring
  | ASubagentUpsert subagent_info
  | ATaskUpsert task_info
  | APermissionRequest permission_request
  | APermissionClear rstring
  | APong u64
  | AError rstring
  | AUsage rstring "usage_context_tab option" "usage_limit_tab option" "usage_session_tab option"
  | AReveal rstring

fun enc_agent_to_cloud :: "agent_to_cloud \<Rightarrow> json" where
  "enc_agent_to_cloud (AHello machine' instance_id' pid') = enc_tagged ''hello''
     [(''machine'', enc_machine_info machine'), (''instanceId'', JStr instance_id'),
       (''pid'', enc_uint pid')]"
| "enc_agent_to_cloud (ASessionCatalog instance_id' cwd' active_session_id' turn_running' sessions') = enc_tagged ''session_catalog''
     [(''instanceId'', JStr instance_id'), (''cwd'', JStr cwd'),
       (''activeSessionId'', enc_option JStr active_session_id'),
       (''turnRunning'', JBool turn_running'), (''sessions'', enc_list enc_session_summary sessions')]"
| "enc_agent_to_cloud (ACommands instance_id' commands') = enc_tagged ''commands''
     [(''instanceId'', JStr instance_id'), (''commands'', enc_list enc_slash_command_info commands')]"
| "enc_agent_to_cloud (AModels instance_id' models' current' reasoning_effort') = enc_tagged ''models''
     [(''instanceId'', JStr instance_id'), (''models'', enc_list enc_model_option models'),
       (''current'', enc_option JStr current'), (''reasoningEffort'', enc_option JStr reasoning_effort')]"
| "enc_agent_to_cloud (APairingReady pairing_id' user_code') = enc_tagged ''pairing_ready''
     [(''pairingId'', JStr pairing_id'), (''userCode'', JStr user_code')]"
| "enc_agent_to_cloud (AStatus online' cwd' model' session_id' turn_running' connected_browsers') = enc_tagged ''status''
     [(''online'', JBool online'), (''cwd'', JStr cwd'), (''model'', enc_option JStr model'),
       (''sessionId'', enc_option JStr session_id'), (''turnRunning'', JBool turn_running'),
       (''connectedBrowsers'', enc_uint connected_browsers')]"
| "enc_agent_to_cloud (ASnapshot sessions' active_session_id' blocks' subagents' tasks' permission') = enc_tagged ''snapshot''
     [(''sessions'', enc_list enc_session_summary sessions'),
       (''activeSessionId'', enc_option JStr active_session_id'),
       (''blocks'', enc_list enc_transcript_block blocks'),
       (''subagents'', enc_list enc_subagent_info subagents'),
       (''tasks'', enc_list enc_task_info tasks'),
       (''permission'', enc_option enc_permission_request permission')]"
| "enc_agent_to_cloud (ABlockUpsert block') = enc_tagged ''block_upsert''
     [(''block'', enc_transcript_block block')]"
| "enc_agent_to_cloud (ABlockRemove session_id' id') = enc_tagged ''block_remove''
     [(''sessionId'', JStr session_id'), (''id'', JStr id')]"
| "enc_agent_to_cloud (ASubagentUpsert subagent') = enc_tagged ''subagent_upsert''
     [(''subagent'', enc_subagent_info subagent')]"
| "enc_agent_to_cloud (ATaskUpsert task') = enc_tagged ''task_upsert''
     [(''task'', enc_task_info task')]"
| "enc_agent_to_cloud (APermissionRequest request') = enc_tagged ''permission_request''
     [(''request'', enc_permission_request request')]"
| "enc_agent_to_cloud (APermissionClear request_id') = enc_tagged ''permission_clear''
     [(''requestId'', JStr request_id')]"
| "enc_agent_to_cloud (APong ts') = enc_tagged ''pong''
     [(''ts'', enc_uint ts')]"
| "enc_agent_to_cloud (AError message') = enc_tagged ''error''
     [(''message'', JStr message')]"
| "enc_agent_to_cloud (AUsage text' context' limit' session') = enc_tagged ''usage''
     ([(''text'', JStr text')] @
      skip_none enc_usage_context_tab ''context'' context' @
      skip_none enc_usage_limit_tab ''limit'' limit' @
      skip_none enc_usage_session_tab ''session'' session')"
| "enc_agent_to_cloud (AReveal instance_id') = enc_tagged ''reveal''
     [(''instanceId'', JStr instance_id')]"

definition read_a_hello :: "fields \<Rightarrow> agent_to_cloud option" where
  "read_a_hello kvs = do {
     machine' \<leftarrow> required dec_machine_info (entries ''machine'' kvs);
     instance_id' \<leftarrow> required dec_str (entries ''instanceId'' kvs);
     pid' \<leftarrow> required dec_uint (entries ''pid'' kvs);
     Some (AHello machine' instance_id' pid') }"

definition read_a_session_catalog :: "fields \<Rightarrow> agent_to_cloud option" where
  "read_a_session_catalog kvs = do {
     instance_id' \<leftarrow> required dec_str (entries ''instanceId'' kvs);
     cwd' \<leftarrow> required dec_str (entries ''cwd'' kvs);
     active_session_id' \<leftarrow> optional dec_str (entries ''activeSessionId'' kvs);
     turn_running' \<leftarrow> required dec_bool (entries ''turnRunning'' kvs);
     sessions' \<leftarrow> required (dec_list dec_session_summary) (entries ''sessions'' kvs);
     Some (ASessionCatalog instance_id' cwd' active_session_id' turn_running' sessions') }"

definition read_a_commands :: "fields \<Rightarrow> agent_to_cloud option" where
  "read_a_commands kvs = do {
     instance_id' \<leftarrow> required dec_str (entries ''instanceId'' kvs);
     commands' \<leftarrow> required (dec_list dec_slash_command_info) (entries ''commands'' kvs);
     Some (ACommands instance_id' commands') }"

definition read_a_models :: "fields \<Rightarrow> agent_to_cloud option" where
  "read_a_models kvs = do {
     instance_id' \<leftarrow> required dec_str (entries ''instanceId'' kvs);
     models' \<leftarrow> required (dec_list dec_model_option) (entries ''models'' kvs);
     current' \<leftarrow> optional dec_str (entries ''current'' kvs);
     reasoning_effort' \<leftarrow> optional dec_str (entries ''reasoningEffort'' kvs);
     Some (AModels instance_id' models' current' reasoning_effort') }"

definition read_a_pairing_ready :: "fields \<Rightarrow> agent_to_cloud option" where
  "read_a_pairing_ready kvs = do {
     pairing_id' \<leftarrow> required dec_str (entries ''pairingId'' kvs);
     user_code' \<leftarrow> required dec_str (entries ''userCode'' kvs);
     Some (APairingReady pairing_id' user_code') }"

definition read_a_status :: "fields \<Rightarrow> agent_to_cloud option" where
  "read_a_status kvs = do {
     online' \<leftarrow> required dec_bool (entries ''online'' kvs);
     cwd' \<leftarrow> required dec_str (entries ''cwd'' kvs);
     model' \<leftarrow> optional dec_str (entries ''model'' kvs);
     session_id' \<leftarrow> optional dec_str (entries ''sessionId'' kvs);
     turn_running' \<leftarrow> required dec_bool (entries ''turnRunning'' kvs);
     connected_browsers' \<leftarrow> required dec_uint (entries ''connectedBrowsers'' kvs);
     Some (AStatus online' cwd' model' session_id' turn_running' connected_browsers') }"

definition read_a_snapshot :: "fields \<Rightarrow> agent_to_cloud option" where
  "read_a_snapshot kvs = do {
     sessions' \<leftarrow> required (dec_list dec_session_summary) (entries ''sessions'' kvs);
     active_session_id' \<leftarrow> optional dec_str (entries ''activeSessionId'' kvs);
     blocks' \<leftarrow> required (dec_list dec_transcript_block) (entries ''blocks'' kvs);
     subagents' \<leftarrow> required (dec_list dec_subagent_info) (entries ''subagents'' kvs);
     tasks' \<leftarrow> required (dec_list dec_task_info) (entries ''tasks'' kvs);
     permission' \<leftarrow> optional dec_permission_request (entries ''permission'' kvs);
     Some (ASnapshot sessions' active_session_id' blocks' subagents' tasks' permission') }"

definition read_a_block_upsert :: "fields \<Rightarrow> agent_to_cloud option" where
  "read_a_block_upsert kvs = do {
     block' \<leftarrow> required dec_transcript_block (entries ''block'' kvs);
     Some (ABlockUpsert block') }"

definition read_a_block_remove :: "fields \<Rightarrow> agent_to_cloud option" where
  "read_a_block_remove kvs = do {
     session_id' \<leftarrow> required dec_str (entries ''sessionId'' kvs);
     id' \<leftarrow> required dec_str (entries ''id'' kvs);
     Some (ABlockRemove session_id' id') }"

definition read_a_subagent_upsert :: "fields \<Rightarrow> agent_to_cloud option" where
  "read_a_subagent_upsert kvs = do {
     subagent' \<leftarrow> required dec_subagent_info (entries ''subagent'' kvs);
     Some (ASubagentUpsert subagent') }"

definition read_a_task_upsert :: "fields \<Rightarrow> agent_to_cloud option" where
  "read_a_task_upsert kvs = do {
     task' \<leftarrow> required dec_task_info (entries ''task'' kvs);
     Some (ATaskUpsert task') }"

definition read_a_permission_request :: "fields \<Rightarrow> agent_to_cloud option" where
  "read_a_permission_request kvs = do {
     request' \<leftarrow> required dec_permission_request (entries ''request'' kvs);
     Some (APermissionRequest request') }"

definition read_a_permission_clear :: "fields \<Rightarrow> agent_to_cloud option" where
  "read_a_permission_clear kvs = do {
     request_id' \<leftarrow> required dec_str (entries ''requestId'' kvs);
     Some (APermissionClear request_id') }"

definition read_a_pong :: "fields \<Rightarrow> agent_to_cloud option" where
  "read_a_pong kvs = do {
     ts' \<leftarrow> required dec_uint (entries ''ts'' kvs);
     Some (APong ts') }"

definition read_a_error :: "fields \<Rightarrow> agent_to_cloud option" where
  "read_a_error kvs = do {
     message' \<leftarrow> required dec_str (entries ''message'' kvs);
     Some (AError message') }"

definition read_a_usage :: "fields \<Rightarrow> agent_to_cloud option" where
  "read_a_usage kvs = do {
     text' \<leftarrow> required dec_str (entries ''text'' kvs);
     context' \<leftarrow> optional dec_usage_context_tab (entries ''context'' kvs);
     limit' \<leftarrow> optional dec_usage_limit_tab (entries ''limit'' kvs);
     session' \<leftarrow> optional dec_usage_session_tab (entries ''session'' kvs);
     Some (AUsage text' context' limit' session') }"

definition read_a_reveal :: "fields \<Rightarrow> agent_to_cloud option" where
  "read_a_reveal kvs = do {
     instance_id' \<leftarrow> required dec_str (entries ''instanceId'' kvs);
     Some (AReveal instance_id') }"

definition dec_agent_to_cloud :: "json \<Rightarrow> agent_to_cloud option" where
  "dec_agent_to_cloud = dec_tagged
     [(''hello'', read_a_hello), (''session_catalog'', read_a_session_catalog),
      (''commands'', read_a_commands), (''models'', read_a_models),
      (''pairing_ready'', read_a_pairing_ready), (''status'', read_a_status),
      (''snapshot'', read_a_snapshot), (''block_upsert'', read_a_block_upsert),
      (''block_remove'', read_a_block_remove), (''subagent_upsert'', read_a_subagent_upsert),
      (''task_upsert'', read_a_task_upsert), (''permission_request'', read_a_permission_request),
      (''permission_clear'', read_a_permission_clear), (''pong'', read_a_pong),
      (''error'', read_a_error), (''usage'', read_a_usage), (''reveal'', read_a_reveal)]"

fun ok_agent_to_cloud :: "agent_to_cloud \<Rightarrow> bool" where
  "ok_agent_to_cloud (ASnapshot _ _ _ _ tasks' _) \<longleftrightarrow> list_all ok_task_info tasks'"
| "ok_agent_to_cloud (ATaskUpsert task') \<longleftrightarrow> ok_task_info task'"
| "ok_agent_to_cloud (AUsage _ context' limit' _) \<longleftrightarrow> pred_option ok_usage_context_tab context' \<and> pred_option ok_usage_limit_tab limit'"
| "ok_agent_to_cloud _ \<longleftrightarrow> True"

datatype cloud_to_agent =
    CPaired rstring rstring rstring
  | CSubscribe
  | CUnsubscribe
  | CPrompt "rstring option" rstring rstring
  | CCancel "rstring option"
  | CSetFold rstring rstring display_mode
  | COpenSubagent rstring
  | CCloseSubagent
  | CPermissionResponse rstring rstring
  | CRequestBlock rstring rstring
  | CPing u64
  | CRequestUsage
  | CLoadSession rstring "rstring option"
  | CCreateProject rstring rstring

fun enc_cloud_to_agent :: "cloud_to_agent \<Rightarrow> json" where
  "enc_cloud_to_agent (CPaired machine_token' user_id' machine_id') = enc_tagged ''paired''
     [(''machineToken'', JStr machine_token'), (''userId'', JStr user_id'),
       (''machineId'', JStr machine_id')]"
| "enc_cloud_to_agent CSubscribe = enc_tagged ''subscribe''
     []"
| "enc_cloud_to_agent CUnsubscribe = enc_tagged ''unsubscribe''
     []"
| "enc_cloud_to_agent (CPrompt session_id' text' prompt_id') = enc_tagged ''prompt''
     [(''sessionId'', enc_option JStr session_id'), (''text'', JStr text'),
       (''promptId'', JStr prompt_id')]"
| "enc_cloud_to_agent (CCancel session_id') = enc_tagged ''cancel''
     [(''sessionId'', enc_option JStr session_id')]"
| "enc_cloud_to_agent (CSetFold session_id' block_id' display_mode') = enc_tagged ''set_fold''
     [(''sessionId'', JStr session_id'), (''blockId'', JStr block_id'),
       (''displayMode'', enc_display_mode display_mode')]"
| "enc_cloud_to_agent (COpenSubagent child_session_id') = enc_tagged ''open_subagent''
     [(''childSessionId'', JStr child_session_id')]"
| "enc_cloud_to_agent CCloseSubagent = enc_tagged ''close_subagent''
     []"
| "enc_cloud_to_agent (CPermissionResponse request_id' option_id') = enc_tagged ''permission_response''
     [(''requestId'', JStr request_id'), (''optionId'', JStr option_id')]"
| "enc_cloud_to_agent (CRequestBlock session_id' block_id') = enc_tagged ''request_block''
     [(''sessionId'', JStr session_id'), (''blockId'', JStr block_id')]"
| "enc_cloud_to_agent (CPing ts') = enc_tagged ''ping''
     [(''ts'', enc_uint ts')]"
| "enc_cloud_to_agent CRequestUsage = enc_tagged ''request_usage''
     []"
| "enc_cloud_to_agent (CLoadSession session_id' cwd') = enc_tagged ''load_session''
     [(''sessionId'', JStr session_id'), (''cwd'', enc_option JStr cwd')]"
| "enc_cloud_to_agent (CCreateProject parent' name') = enc_tagged ''create_project''
     [(''parent'', JStr parent'), (''name'', JStr name')]"

definition read_c_paired :: "fields \<Rightarrow> cloud_to_agent option" where
  "read_c_paired kvs = do {
     machine_token' \<leftarrow> required dec_str (entries ''machineToken'' kvs);
     user_id' \<leftarrow> required dec_str (entries ''userId'' kvs);
     machine_id' \<leftarrow> required dec_str (entries ''machineId'' kvs);
     Some (CPaired machine_token' user_id' machine_id') }"

definition read_c_prompt :: "fields \<Rightarrow> cloud_to_agent option" where
  "read_c_prompt kvs = do {
     session_id' \<leftarrow> optional dec_str (entries ''sessionId'' kvs);
     text' \<leftarrow> required dec_str (entries ''text'' kvs);
     prompt_id' \<leftarrow> required dec_str (entries ''promptId'' kvs);
     Some (CPrompt session_id' text' prompt_id') }"

definition read_c_cancel :: "fields \<Rightarrow> cloud_to_agent option" where
  "read_c_cancel kvs = do {
     session_id' \<leftarrow> optional dec_str (entries ''sessionId'' kvs);
     Some (CCancel session_id') }"

definition read_c_set_fold :: "fields \<Rightarrow> cloud_to_agent option" where
  "read_c_set_fold kvs = do {
     session_id' \<leftarrow> required dec_str (entries ''sessionId'' kvs);
     block_id' \<leftarrow> required dec_str (entries ''blockId'' kvs);
     display_mode' \<leftarrow> required dec_display_mode (entries ''displayMode'' kvs);
     Some (CSetFold session_id' block_id' display_mode') }"

definition read_c_open_subagent :: "fields \<Rightarrow> cloud_to_agent option" where
  "read_c_open_subagent kvs = do {
     child_session_id' \<leftarrow> required dec_str (entries ''childSessionId'' kvs);
     Some (COpenSubagent child_session_id') }"

definition read_c_permission_response :: "fields \<Rightarrow> cloud_to_agent option" where
  "read_c_permission_response kvs = do {
     request_id' \<leftarrow> required dec_str (entries ''requestId'' kvs);
     option_id' \<leftarrow> required dec_str (entries ''optionId'' kvs);
     Some (CPermissionResponse request_id' option_id') }"

definition read_c_request_block :: "fields \<Rightarrow> cloud_to_agent option" where
  "read_c_request_block kvs = do {
     session_id' \<leftarrow> required dec_str (entries ''sessionId'' kvs);
     block_id' \<leftarrow> required dec_str (entries ''blockId'' kvs);
     Some (CRequestBlock session_id' block_id') }"

definition read_c_ping :: "fields \<Rightarrow> cloud_to_agent option" where
  "read_c_ping kvs = do {
     ts' \<leftarrow> required dec_uint (entries ''ts'' kvs);
     Some (CPing ts') }"

definition read_c_load_session :: "fields \<Rightarrow> cloud_to_agent option" where
  "read_c_load_session kvs = do {
     session_id' \<leftarrow> required dec_str (entries ''sessionId'' kvs);
     cwd' \<leftarrow> optional dec_str (entries ''cwd'' kvs);
     Some (CLoadSession session_id' cwd') }"

definition read_c_create_project :: "fields \<Rightarrow> cloud_to_agent option" where
  "read_c_create_project kvs = do {
     parent' \<leftarrow> required dec_str (entries ''parent'' kvs);
     name' \<leftarrow> required dec_str (entries ''name'' kvs);
     Some (CCreateProject parent' name') }"

definition dec_cloud_to_agent :: "json \<Rightarrow> cloud_to_agent option" where
  "dec_cloud_to_agent = dec_tagged
     [(''paired'', read_c_paired), (''subscribe'', \<lambda>_. Some CSubscribe),
      (''unsubscribe'', \<lambda>_. Some CUnsubscribe), (''prompt'', read_c_prompt),
      (''cancel'', read_c_cancel), (''set_fold'', read_c_set_fold),
      (''open_subagent'', read_c_open_subagent), (''close_subagent'', \<lambda>_. Some CCloseSubagent),
      (''permission_response'', read_c_permission_response), (''request_block'', read_c_request_block),
      (''ping'', read_c_ping), (''request_usage'', \<lambda>_. Some CRequestUsage),
      (''load_session'', read_c_load_session), (''create_project'', read_c_create_project)]"

section \<open>Events for the pager\<close>

datatype grokcraft_event =
    EPairingReady rstring rstring
  | EPaired
  | EStatus rstring
  | EInboundPrompt "rstring option" rstring rstring
  | EInboundCancel "rstring option"
  | EInboundFold rstring rstring display_mode
  | EInboundOpenSubagent rstring
  | EInboundCloseSubagent
  | EInboundPermission rstring rstring
  | ERequestSnapshot
  | EStopWatching
  | ERequestBlock rstring rstring
  | ERequestUsage
  | ELoadSession rstring "rstring option"
  | ECreateProject rstring rstring
  | EError rstring

fun event_from_cloud :: "cloud_to_agent \<Rightarrow> grokcraft_event option" where
  "event_from_cloud (CPaired _ _ _) = Some EPaired"
| "event_from_cloud CSubscribe = Some ERequestSnapshot"
| "event_from_cloud CUnsubscribe = Some EStopWatching"
| "event_from_cloud (CPrompt session_id text prompt_id) = Some (EInboundPrompt session_id text prompt_id)"
| "event_from_cloud (CCancel session_id) = Some (EInboundCancel session_id)"
| "event_from_cloud (CSetFold session_id block_id display_mode) =
     Some (EInboundFold session_id block_id display_mode)"
| "event_from_cloud (COpenSubagent child_session_id) = Some (EInboundOpenSubagent child_session_id)"
| "event_from_cloud CCloseSubagent = Some EInboundCloseSubagent"
| "event_from_cloud (CPermissionResponse request_id option_id) = Some (EInboundPermission request_id option_id)"
| "event_from_cloud (CRequestBlock session_id block_id) = Some (ERequestBlock session_id block_id)"
| "event_from_cloud (CPing _) = None"
| "event_from_cloud CRequestUsage = Some ERequestUsage"
| "event_from_cloud (CLoadSession session_id cwd) = Some (ELoadSession session_id cwd)"
| "event_from_cloud (CCreateProject parent name) = Some (ECreateProject parent name)"

section \<open>Pairing and addresses\<close>

definition USER_CODE_ALPHABET :: rstring where
  "USER_CODE_ALPHABET = lit ''ABCDEFGHJKLMNPQRSTUVWXYZ23456789''"

text \<open>\<open>pick i\<close> is the number drawn for the \<open>i\<close>-th character, below the length of the alphabet.\<close>

definition generate_user_code :: "(nat \<Rightarrow> nat) \<Rightarrow> rstring" where
  "generate_user_code pick = map (\<lambda>i. USER_CODE_ALPHABET ! pick i) [0..<8]"

definition DEFAULT_ORIGIN :: rstring where
  "DEFAULT_ORIGIN = lit ''https://grokcraft.tanyuntech.cn''"

abbreviation slash :: rchar where "slash \<equiv> 47"

definition trim_end_slashes :: "rstring \<Rightarrow> rstring" where
  "trim_end_slashes s = rev (dropWhile (\<lambda>c. c = slash) (rev s))"

text \<open>\<open>env\<close> is the value of \<open>GROKCRAFT_URL\<close>.\<close>

definition default_origin :: "rstring option \<Rightarrow> rstring" where
  "default_origin env =
     (case map_option trim_end_slashes env of
        Some s \<Rightarrow> if s \<noteq> [] then s else DEFAULT_ORIGIN
      | None \<Rightarrow> DEFAULT_ORIGIN)"

definition ws_origin :: "rstring \<Rightarrow> rstring" where
  "ws_origin origin =
     (let trimmed = trim_end_slashes origin
      in case strip_prefix (lit ''https://'') trimmed of
           Some rest \<Rightarrow> lit ''wss://'' @ rest
         | None \<Rightarrow>
             (case strip_prefix (lit ''http://'') trimmed of
                Some rest \<Rightarrow> lit ''ws://'' @ rest
              | None \<Rightarrow>
                  if starts_with trimmed (lit ''wss://'') \<or> starts_with trimmed (lit ''ws://'') then trimmed
                  else lit ''wss://'' @ trimmed))"

definition agent_query ::
  "rstring \<Rightarrow> rstring \<Rightarrow> rstring \<Rightarrow> rstring option \<Rightarrow> rstring \<Rightarrow> (rstring \<times> rstring) list" where
  "agent_query pairing_id user_code machine_id machine_token instance_id =
     [(lit ''role'', lit ''agent'')] @
     (if instance_id \<noteq> [] then [(lit ''instanceId'', instance_id)] else []) @
     (case machine_token of
        Some token \<Rightarrow>
          if token \<noteq> [] then [(lit ''machineToken'', token)]
          else [(lit ''pairingId'', pairing_id), (lit ''userCode'', user_code), (lit ''machineId'', machine_id)]
      | None \<Rightarrow> [(lit ''pairingId'', pairing_id), (lit ''userCode'', user_code), (lit ''machineId'', machine_id)])"

text \<open>
  The address before its query is appended: the one built from the origin, or the default relay when
  \<open>Url::parse\<close> (the parameter \<open>ok\<close>) refuses that one.
\<close>

definition agent_ws_base :: "(rstring \<Rightarrow> bool) \<Rightarrow> rstring \<Rightarrow> rstring" where
  "agent_ws_base ok origin =
     (if ok (ws_origin origin @ lit ''/agent/ws'') then ws_origin origin @ lit ''/agent/ws''
      else lit ''wss://grokcraft.tanyuntech.cn/agent/ws'')"

text \<open>
  \<open>url_parse\<close> and \<open>append_pair\<close> are those of the \<open>url\<close> crate. \<open>None\<close> stands for the panic of
  \<open>expect("static url")\<close>.
\<close>

definition agent_ws_url ::
  "(rstring \<Rightarrow> 'u option) \<Rightarrow> (rstring \<times> rstring \<Rightarrow> 'u \<Rightarrow> 'u) \<Rightarrow> rstring \<Rightarrow> rstring \<Rightarrow> rstring \<Rightarrow> rstring \<Rightarrow>
   rstring option \<Rightarrow> rstring \<Rightarrow> 'u option" where
  "agent_ws_url url_parse append_pair origin pairing_id user_code machine_id machine_token instance_id =
     map_option (fold append_pair (agent_query pairing_id user_code machine_id machine_token instance_id))
       (case url_parse (ws_origin origin @ lit ''/agent/ws'') of
          Some u \<Rightarrow> Some u
        | None \<Rightarrow> url_parse (lit ''wss://grokcraft.tanyuntech.cn/agent/ws''))"

section \<open>Theorems\<close>

lemma agent_ws_url_base:
  "agent_ws_url url_parse append_pair origin pairing_id user_code machine_id machine_token instance_id =
   map_option (fold append_pair (agent_query pairing_id user_code machine_id machine_token instance_id))
     (url_parse (agent_ws_base (\<lambda>u. url_parse u \<noteq> None) origin))"
  by (simp add: agent_ws_url_def agent_ws_base_def split: option.split)

lemmas frame_rules =
  field_rules cmachine_info.required_enc csession_summary.required_list cslash_command_info.required_list
  cmodel_option.required_list ctranscript_block.required_list csubagent_info.required_list
  ctask_info.required_list cpermission_request.optional_enc ctranscript_block.required_enc
  csubagent_info.required_enc ctask_info.required_enc cpermission_request.required_enc
  cusage_context_tab.optional_skip cusage_limit_tab.optional_skip cusage_session_tab.optional_skip
  cdisplay_mode.required_enc

lemmas agent_readers =
  read_a_hello_def read_a_session_catalog_def read_a_commands_def read_a_models_def read_a_pairing_ready_def
  read_a_status_def read_a_snapshot_def read_a_block_upsert_def read_a_block_remove_def
  read_a_subagent_upsert_def read_a_task_upsert_def read_a_permission_request_def read_a_permission_clear_def
  read_a_pong_def read_a_error_def read_a_usage_def read_a_reveal_def

lemmas cloud_readers =
  read_c_paired_def read_c_prompt_def read_c_cancel_def read_c_set_fold_def read_c_open_subagent_def
  read_c_permission_response_def read_c_request_block_def read_c_ping_def read_c_load_session_def
  read_c_create_project_def

text \<open>C9.
  Every frame the agent writes is read back as itself: the tag selects its variant, every field is found
  under its camel-case name, absent and \<open>null\<close> options come back as \<open>None\<close>, and skipped flags, lists
  and tabs come back as their defaults. The floats must be finite and the amounts \<open>i64\<close> values.
\<close>

theorem agent_frames_roundtrip:
  assumes "ok_agent_to_cloud m"
  shows "dec_agent_to_cloud (enc_agent_to_cloud m) = Some m"
  using assms
  by (cases m) (simp_all add: dec_agent_to_cloud_def dec_enc_tagged agent_readers frame_rules)

definition sample_task :: task_info where
  "sample_task = \<lparr>ti_id = lit ''t'', ti_title = Some (lit ''build''), ti_label = None, ti_description = None,
     ti_status = None, ti_progress = Some (Fin (1 / 2)), ti_session_id = None, ti_activity_label = None\<rparr>"

theorem agent_frames_roundtrip_witness:
  "dec_agent_to_cloud (enc_agent_to_cloud (ASnapshot [] None [] [] [sample_task] None)) =
     Some (ASnapshot [] None [] [] [sample_task] None)"
  using agent_frames_roundtrip [of "ASnapshot [] None [] [] [sample_task] None"]
  by (simp add: ok_task_info_def sample_task_def f64_finite_def)

text \<open>A progress that is not a number is written as \<open>null\<close> and comes back as no progress.\<close>

lemma nan_progress_lost:
  "dec_agent_to_cloud (enc_agent_to_cloud (ATaskUpsert (sample_task\<lparr>ti_progress := Some NaN\<rparr>))) =
     Some (ATaskUpsert (sample_task\<lparr>ti_progress := None\<rparr>))"
  by (simp add: dec_agent_to_cloud_def dec_enc_tagged agent_readers enc_task_info_def read_task_info_def field_rules
      sample_task_def enc_f64_def f64_finite_def required.simps optional.simps)

text \<open>Fields a reader does not know, added to a frame.\<close>

fun add_fields :: "fields \<Rightarrow> json \<Rightarrow> json" where
  "add_fields extra (JObj kvs) = JObj (kvs @ extra)"
| "add_fields extra v = v"

definition cloud_keys :: "string list" where
  "cloud_keys =
     [''type'', ''machineToken'', ''userId'', ''machineId'', ''sessionId'', ''text'', ''promptId'', ''blockId'',
      ''displayMode'', ''childSessionId'', ''requestId'', ''optionId'', ''ts'', ''cwd'', ''parent'', ''name'']"

text \<open>C10.
  Every frame of the relay is read back as itself, also when a newer relay adds fields under keys the
  agent does not know, and it becomes exactly one event of the pager: only a ping has none, and two
  frames with the same event are equal unless both report a pairing.
\<close>

theorem cloud_frames_roundtrip:
  assumes "list_all (\<lambda>k. entries k extra = []) cloud_keys"
  shows "dec_cloud_to_agent (add_fields extra (enc_cloud_to_agent m)) = Some m \<and>
    (event_from_cloud m = None \<longleftrightarrow> (\<exists>ts. m = CPing ts)) \<and>
    (event_from_cloud m = event_from_cloud m' \<and> event_from_cloud m \<notin> {None, Some EPaired} \<longrightarrow> m = m')"
proof (intro conjI impI)
  show "dec_cloud_to_agent (add_fields extra (enc_cloud_to_agent m)) = Some m"
    using assms
    by (cases m)
      (simp_all add: dec_cloud_to_agent_def dec_tagged_def enc_tagged_def cloud_readers frame_rules cloud_keys_def)
  show "event_from_cloud m = None \<longleftrightarrow> (\<exists>ts. m = CPing ts)" by (cases m) simp_all
  show "m = m'" if "event_from_cloud m = event_from_cloud m' \<and> event_from_cloud m \<notin> {None, Some EPaired}"
    using that by (cases m; cases m'; simp)
qed

theorem cloud_frames_roundtrip_witness:
  "dec_cloud_to_agent (add_fields [(''priority'', JInt 3)]
       (enc_cloud_to_agent (CPrompt None (lit ''/help'') (lit ''p1'')))) =
     Some (CPrompt None (lit ''/help'') (lit ''p1''))"
  using cloud_frames_roundtrip [of "[(''priority'', JInt 3)]" "CPrompt None (lit ''/help'') (lit ''p1'')"]
  by (simp add: cloud_keys_def)

lemma user_code_shape:
  assumes "\<And>i. i < 8 \<Longrightarrow> pick i < 32"
  shows "length (generate_user_code pick) = 8" "set (generate_user_code pick) \<subseteq> set USER_CODE_ALPHABET"
proof -
  have "length USER_CODE_ALPHABET = 32" by (simp add: USER_CODE_ALPHABET_def)
  then show "set (generate_user_code pick) \<subseteq> set USER_CODE_ALPHABET"
    using assms by (auto simp: generate_user_code_def intro!: nth_mem)
qed (simp add: generate_user_code_def)

text \<open>The address of the relay is a web socket and is unencrypted only where the origin asks for it. Its
  query carries either the machine token or the pairing code, never both: the token when there is one
  that is not empty, and otherwise the pairing id, the code and the machine id.
\<close>

theorem agent_address:
  "(starts_with (ws_origin origin) (lit ''wss://'') \<or>
    starts_with (ws_origin origin) (lit ''ws://'') \<and>
      (starts_with origin (lit ''http://'') \<or> starts_with origin (lit ''ws://''))) \<and>
   (case token of
      Some t \<Rightarrow> map_of (agent_query pairing_id user_code machine_id token instance_id) (lit ''machineToken'') =
                 (if t = [] then None else Some t)
    | None \<Rightarrow> map_of (agent_query pairing_id user_code machine_id token instance_id) (lit ''machineToken'') = None) \<and>
   map_of (agent_query pairing_id user_code machine_id token instance_id) (lit ''userCode'') =
     (if token \<in> {None, Some []} then Some user_code else None)"
proof -
  have pre: "starts_with origin p" if "starts_with (trim_end_slashes origin) p" for p
  proof -
    have "origin = trim_end_slashes origin @ rev (takeWhile (\<lambda>c. c = slash) (rev origin))"
      unfolding trim_end_slashes_def rev_append [symmetric] by simp
    then show ?thesis using that by (metis starts_with_appendI)
  qed
  have ws: "starts_with (ws_origin origin) (lit ''wss://'') \<or>
      starts_with (ws_origin origin) (lit ''ws://'') \<and>
        (starts_with origin (lit ''http://'') \<or> starts_with origin (lit ''ws://''))"
    using pre unfolding ws_origin_def strip_prefix_def Let_def
    by (auto simp del: lit_simps split: if_splits)
  have neq: "lit ''machineToken'' \<noteq> lit ''role''" "lit ''machineToken'' \<noteq> lit ''instanceId''"
    "lit ''machineToken'' \<noteq> lit ''pairingId''" "lit ''machineToken'' \<noteq> lit ''userCode''"
    "lit ''machineToken'' \<noteq> lit ''machineId''" "lit ''userCode'' \<noteq> lit ''role''"
    "lit ''userCode'' \<noteq> lit ''instanceId''" "lit ''userCode'' \<noteq> lit ''pairingId''"
    by (simp_all only: lit_inject) simp_all
  show ?thesis
    using ws neq by (auto simp: agent_query_def simp del: lit_simps split: option.split)
qed

end
