(* ===== verification/Grokcraft_Client.thy ===== *)
theory Grokcraft_Client
  imports Grokcraft_Protocol
begin

text \<open>
  The Grokcraft agent client (\<open>xai-grokcraft/src/store.rs\<close>, \<open>hub.rs\<close>, \<open>client.rs\<close>): the machine
  identity on disk, the process-wide hub, one connection to the relay and the loop that reconnects.
  What the outside decides is input: the fate of a write or a send, the answer to a dial, and the
  sequence in which \<open>select!\<close> sees ticks, outbound frames and messages of the socket. \<open>parse\<close> is
  \<open>serde_json::from_str\<close> up to a JSON value. Errors are their text. Logging is left out.
\<close>

section \<open>The machine identity\<close>

record grokcraft_store =
  gs_machine_id :: rstring
  gs_machine_token :: "rstring option"
  gs_origin :: rstring
  gs_label :: rstring

definition enc_store :: "grokcraft_store \<Rightarrow> json" where
  "enc_store x = JObj
     [(''machineId'', JStr (gs_machine_id x)), (''machineToken'', enc_option JStr (gs_machine_token x)),
      (''origin'', JStr (gs_origin x)), (''label'', JStr (gs_label x))]"

definition read_store :: "fields \<Rightarrow> grokcraft_store option" where
  "read_store kvs = do {
     machine_id \<leftarrow> required dec_str (entries ''machineId'' kvs);
     machine_token \<leftarrow> optional dec_str (entries ''machineToken'' kvs);
     origin \<leftarrow> required dec_str (entries ''origin'' kvs);
     label \<leftarrow> required dec_str (entries ''label'' kvs);
     Some \<lparr>gs_machine_id = machine_id, gs_machine_token = machine_token, gs_origin = origin, gs_label = label\<rparr> }"

abbreviation dec_store :: "json \<Rightarrow> grokcraft_store option" where
  "dec_store \<equiv> dec_struct read_store"

interpretation cstore: codec enc_store dec_store any
  by unfold_locales (simp_all add: enc_store_def read_store_def field_rules)

text \<open>The file \<open>grokcraft.json\<close>: absent, or the JSON it holds.\<close>

type_synonym disk_file = "json option"

definition load :: "bool \<Rightarrow> disk_file \<Rightarrow> grokcraft_store option" where
  "load readable file = (if readable then Option.bind file dec_store else None)"

text \<open>
  A write goes to a temporary file that is renamed. It may fail before the rename or in it; on Windows
  the old file is removed first.
\<close>

datatype save_fate = Saved | NotWritten | RenameFailed

definition save :: "bool \<Rightarrow> save_fate \<Rightarrow> grokcraft_store \<Rightarrow> disk_file \<Rightarrow> disk_file \<times> bool" where
  "save windows fate st file =
     (case fate of
        Saved \<Rightarrow> (Some (enc_store st), True)
      | NotWritten \<Rightarrow> (file, False)
      | RenameFailed \<Rightarrow> (if windows then None else file, False))"

record host =
  ho_windows :: bool
  ho_hostname :: rstring
  ho_env_origin :: "rstring option"
  ho_os :: rstring
  ho_cwd :: rstring
  ho_version :: rstring
  ho_pid :: u32

definition load_or_create ::
  "host \<Rightarrow> bool \<Rightarrow> save_fate \<Rightarrow> rstring \<Rightarrow> disk_file \<Rightarrow> disk_file \<times> grokcraft_store option" where
  "load_or_create ho readable fate fresh_id file =
     (case load readable file of
        Some st \<Rightarrow> (file, Some st)
      | None \<Rightarrow>
          let st = \<lparr>gs_machine_id = fresh_id, gs_machine_token = None, gs_origin = default_origin (ho_env_origin ho),
                    gs_label = ho_hostname ho\<rparr>;
              (file', ok) = save (ho_windows ho) fate st file
          in (file', if ok then Some st else None))"

text \<open>The name of the computer: from the system, or one of two environment variables.\<close>

definition hostname :: "rstring option \<Rightarrow> rstring option \<Rightarrow> rstring option \<Rightarrow> rstring" where
  "hostname system COMPUTERNAME HOSTNAME =
     (case system of Some n \<Rightarrow> n | None \<Rightarrow>
        (case COMPUTERNAME of Some n \<Rightarrow> n | None \<Rightarrow>
           (case HOSTNAME of Some n \<Rightarrow> n | None \<Rightarrow> lit ''unknown'')))"

section \<open>The hub\<close>

record hub =
  hub_connected :: bool
  hub_client_started :: bool
  hub_watching :: bool
  hub_rx_taken :: bool
  hub_inbound :: "grokcraft_event list"
  hub_instance_id :: rstring

definition hub_new :: "rstring \<Rightarrow> hub" where
  "hub_new instance_id = \<lparr>hub_connected = False, hub_client_started = False, hub_watching = False,
     hub_rx_taken = False, hub_inbound = [], hub_instance_id = instance_id\<rparr>"

definition take_inbound_rx :: "hub \<Rightarrow> hub \<times> bool" where
  "take_inbound_rx h = (h\<lparr>hub_rx_taken := True\<rparr>, \<not> hub_rx_taken h)"

definition push_inbound :: "grokcraft_event \<Rightarrow> hub \<Rightarrow> hub" where
  "push_inbound ev h = h\<lparr>hub_inbound := hub_inbound h @ [ev]\<rparr>"

definition set_connected :: "bool \<Rightarrow> hub \<Rightarrow> hub" where
  "set_connected up h =
     (let h1 = h\<lparr>hub_connected := up\<rparr> in if up then h1 else h1\<lparr>hub_watching := False\<rparr>)"

definition set_watching :: "bool \<Rightarrow> hub \<Rightarrow> hub" where
  "set_watching watching h = h\<lparr>hub_watching := watching\<rparr>"

definition mark_client_started :: "hub \<Rightarrow> hub \<times> bool" where
  "mark_client_started h = (h\<lparr>hub_client_started := True\<rparr>, \<not> hub_client_started h)"

section \<open>One connection\<close>

text \<open>What is sent on the socket: a frame as JSON, the two keep-alive texts, or a protocol pong.\<close>

datatype wire = WJson json | WPing | WPong | WSocketPong rstring

datatype ws_message =
    WsEnd
  | WsFailed rstring
  | WsClose
  | WsPing rstring
  | WsPong
  | WsFrame
  | WsBinary
  | WsText rstring

datatype client_input =
    KeepaliveTick
  | Outbound agent_to_cloud
  | OutboundLagged
  | OutboundClosed
  | Message ws_message

text \<open>An input with the answers it meets: the error of a send, and the fate of a write.\<close>

record met_input =
  in_event :: client_input
  in_send :: "rstring option"
  in_save :: save_fate

type_synonym dial = "rstring \<times> (rstring \<times> rstring) list"

record agent =
  ag_hub :: hub
  ag_disk :: disk_file
  ag_store :: grokcraft_store
  ag_sent :: "wire list"
  ag_dials :: "dial list"

text \<open>The result of a connection: \<open>Inl\<close> an error, \<open>Inr ()\<close> an orderly end.\<close>

type_synonym outcome_of_run = "rstring + unit"

definition send_wire :: "rstring option \<Rightarrow> wire \<Rightarrow> agent \<Rightarrow> agent \<times> outcome_of_run option" where
  "send_wire failure w a =
     (case failure of
        None \<Rightarrow> (a\<lparr>ag_sent := ag_sent a @ [w]\<rparr>, None)
      | Some err \<Rightarrow> (a, Some (Inl err)))"

definition on_hub :: "(hub \<Rightarrow> hub) \<Rightarrow> agent \<Rightarrow> agent" where
  "on_hub f a = a\<lparr>ag_hub := f (ag_hub a)\<rparr>"

definition save_store :: "bool \<Rightarrow> save_fate \<Rightarrow> grokcraft_store \<Rightarrow> agent \<Rightarrow> agent" where
  "save_store windows fate st a = a\<lparr>ag_store := st, ag_disk := fst (save windows fate st (ag_disk a))\<rparr>"

definition handle_text ::
  "(rstring \<Rightarrow> json option) \<Rightarrow> bool \<Rightarrow> rstring \<Rightarrow> rstring option \<Rightarrow> save_fate \<Rightarrow> agent \<Rightarrow> agent \<times> outcome_of_run option"
where
  "handle_text parse windows text failure fate a =
     (if text = lit ''ping'' then send_wire failure WPong a
      else if text = lit ''pong'' then (a, None)
      else case Option.bind (parse text) dec_cloud_to_agent of
        None \<Rightarrow> (a, None)
      | Some parsed \<Rightarrow>
          let (a1, stopped) =
                (case parsed of
                   CPing ts \<Rightarrow> send_wire failure (WJson (enc_agent_to_cloud (APong ts))) a
                 | _ \<Rightarrow> (a, None))
          in if stopped \<noteq> None then (a1, stopped)
             else
               let a2 = (case parsed of
                     CPaired token user_id machine_id \<Rightarrow>
                       save_store windows fate
                         ((ag_store a1)\<lparr>gs_machine_token := Some token, gs_machine_id := machine_id\<rparr>) a1
                   | _ \<Rightarrow> a1)
               in (case event_from_cloud parsed of
                     Some ev \<Rightarrow> (on_hub (push_inbound ev) a2, None)
                   | None \<Rightarrow> (a2, None)))"

definition client_step ::
  "(rstring \<Rightarrow> json option) \<Rightarrow> bool \<Rightarrow> met_input \<Rightarrow> agent \<Rightarrow> agent \<times> outcome_of_run option" where
  "client_step parse windows i a =
     (case in_event i of
        KeepaliveTick \<Rightarrow> send_wire (in_send i) WPing a
      | Outbound frame \<Rightarrow> send_wire (in_send i) (WJson (enc_agent_to_cloud frame)) a
      | OutboundLagged \<Rightarrow> (a, None)
      | OutboundClosed \<Rightarrow> (a, Some (Inr ()))
      | Message m \<Rightarrow>
          (case m of
             WsEnd \<Rightarrow> (a, Some (Inl (lit ''websocket closed'')))
           | WsFailed err \<Rightarrow> (a, Some (Inl err))
           | WsClose \<Rightarrow> (a, Some (Inl (lit ''websocket close frame'')))
           | WsPing p \<Rightarrow> send_wire (in_send i) (WSocketPong p) a
           | WsPong \<Rightarrow> (a, None)
           | WsFrame \<Rightarrow> (a, None)
           | WsBinary \<Rightarrow> (a, None)
           | WsText text \<Rightarrow> handle_text parse windows text (in_send i) (in_save i) a))"

text \<open>The loop over the inputs; \<open>None\<close> says that it waits for more.\<close>

fun run_session ::
  "(rstring \<Rightarrow> json option) \<Rightarrow> bool \<Rightarrow> met_input list \<Rightarrow> agent \<Rightarrow> agent \<times> outcome_of_run option" where
  "run_session parse windows [] a = (a, None)"
| "run_session parse windows (i # ins) a =
     (case client_step parse windows i a of
        (a', None) \<Rightarrow> run_session parse windows ins a'
      | (a', Some r) \<Rightarrow> (a', Some r))"

definition current_machine :: "host \<Rightarrow> grokcraft_store \<Rightarrow> machine_info" where
  "current_machine ho st =
     \<lparr>mi_id = gs_machine_id st, mi_hostname = ho_hostname ho, mi_os = ho_os ho, mi_cwd = ho_cwd ho,
      mi_grok_version = ho_version ho, mi_label = gs_label st\<rparr>"

text \<open>
  What one attempt meets: the file, the random draws, what \<open>Url::parse\<close> accepts, the answer to the dial and
  the inputs.
\<close>

record attempt =
  at_readable :: bool
  at_create :: save_fate
  at_store_error :: rstring
  at_fresh_id :: rstring
  at_pairing_id :: rstring
  at_url_ok :: "rstring \<Rightarrow> bool"
  at_pick :: "nat \<Rightarrow> nat"
  at_refused :: "rstring option"
  at_clear :: save_fate
  at_hello :: "rstring option"
  at_ready :: "rstring option"
  at_inputs :: "met_input list"

definition token_rejected :: "rstring \<Rightarrow> bool" where
  "token_rejected msg \<longleftrightarrow>
     contains_str msg (lit ''401'') \<or> contains_str msg (lit ''403'') \<or> contains_str msg (lit ''invalid machine token'')"

definition pairing_lost :: grokcraft_event where
  "pairing_lost = EError (lit ''Grokcraft '' @
     [0x914D, 0x5BF9, 0x5DF2, 0x5931, 0x6548, 0xFF0C, 0x6B63, 0x5728, 0x91CD, 0x65B0, 0x6253, 0x5F00, 0x6388, 0x6743,
      0x9875])"

definition now_connected :: grokcraft_event where
  "now_connected = EStatus (lit ''Grokcraft '' @ [0x5DF2, 0x8FDE, 0x63A5])"

definition announce ::
  "host \<Rightarrow> attempt \<Rightarrow> rstring \<Rightarrow> bool \<Rightarrow> agent \<Rightarrow> agent \<times> outcome_of_run option" where
  "announce ho tr user_code pairing a =
     (if pairing then
        case send_wire (at_ready tr) (WJson (enc_agent_to_cloud (APairingReady (at_pairing_id tr) user_code))) a of
          (a1, Some r) \<Rightarrow> (a1, Some r)
        | (a1, None) \<Rightarrow>
            (on_hub (push_inbound (EPairingReady user_code
               (trim_end_slashes (gs_origin (ag_store a)) @ lit ''/oauth-login?code='' @ user_code))) a1, None)
      else (on_hub (push_inbound now_connected) a, None))"

definition run_once ::
  "(rstring \<Rightarrow> json option) \<Rightarrow> host \<Rightarrow> attempt \<Rightarrow> agent \<Rightarrow> agent \<times> outcome_of_run option" where
  "run_once parse ho tr a =
     (case load_or_create ho (at_readable tr) (at_create tr) (at_fresh_id tr) (ag_disk a) of
        (file, None) \<Rightarrow> (a\<lparr>ag_disk := file\<rparr>, Some (Inl (at_store_error tr)))
      | (file, Some st) \<Rightarrow>
          let user_code = generate_user_code (at_pick tr);
              pairing = (gs_machine_token st = None);
              url = (agent_ws_base (at_url_ok tr) (gs_origin st),
                     agent_query (at_pairing_id tr) user_code (gs_machine_id st) (gs_machine_token st)
                       (hub_instance_id (ag_hub a)));
              a1 = a\<lparr>ag_disk := file, ag_store := st, ag_dials := ag_dials a @ [url]\<rparr>
          in case at_refused tr of
               Some msg \<Rightarrow>
                 (if gs_machine_token st \<noteq> None \<and> token_rejected msg
                  then on_hub (push_inbound pairing_lost)
                         (save_store (ho_windows ho) (at_clear tr) (st\<lparr>gs_machine_token := None\<rparr>) a1)
                  else a1, Some (Inl msg))
             | None \<Rightarrow>
                 (case send_wire (at_hello tr) (WJson (enc_agent_to_cloud
                       (AHello (current_machine ho st) (hub_instance_id (ag_hub a)) (ho_pid ho))))
                       (on_hub (set_connected True) a1) of
                    (a2, Some r) \<Rightarrow> (a2, Some r)
                  | (a2, None) \<Rightarrow>
                      (case announce ho tr user_code pairing a2 of
                         (a3, Some r) \<Rightarrow> (a3, Some r)
                       | (a3, None) \<Rightarrow> run_session parse (ho_windows ho) (at_inputs tr) a3)))"

section \<open>The reconnecting loop\<close>

definition BACKOFF :: "nat list" where "BACKOFF = [1, 2, 5, 10]"

text \<open>
  \<open>run_client\<close> over the attempts it makes: the agent, the next index of the back-off and the seconds
  slept so far. It stops where an attempt is still connected.
\<close>

fun run_client ::
  "(rstring \<Rightarrow> json option) \<Rightarrow> host \<Rightarrow> attempt list \<Rightarrow> agent \<Rightarrow> nat \<Rightarrow> agent \<times> nat \<times> nat list" where
  "run_client parse ho [] a idx = (a, idx, [])"
| "run_client parse ho (tr # ats) a idx =
     (case run_once parse ho tr a of
        (a1, None) \<Rightarrow> (a1, idx, [])
      | (a1, Some r) \<Rightarrow>
          let (a2, idx1) =
                (case r of
                   Inr _ \<Rightarrow> (a1, 0)
                 | Inl err \<Rightarrow> (on_hub (push_inbound (EError (lit ''Grokcraft: '' @ err))) a1, idx));
              a3 = on_hub (set_connected False) a2;
              secs = BACKOFF ! min idx1 (length BACKOFF - 1);
              (b, idx', sleeps) = run_client parse ho ats a3 (min (idx1 + 1) (length BACKOFF - 1))
          in (b, idx', secs # sleeps))"

section \<open>What a connection does\<close>

text \<open>The answer to one input, its event and whether it ends the connection, without any state.\<close>

definition understood :: "(rstring \<Rightarrow> json option) \<Rightarrow> rstring \<Rightarrow> cloud_to_agent option" where
  "understood parse text =
     (if text \<in> {lit ''ping'', lit ''pong''} then None else Option.bind (parse text) dec_cloud_to_agent)"

fun reply :: "(rstring \<Rightarrow> json option) \<Rightarrow> client_input \<Rightarrow> wire list" where
  "reply parse KeepaliveTick = [WPing]"
| "reply parse (Outbound f) = [WJson (enc_agent_to_cloud f)]"
| "reply parse (Message (WsPing p)) = [WSocketPong p]"
| "reply parse (Message (WsText text)) =
     (if text = lit ''ping'' then [WPong]
      else case understood parse text of Some (CPing ts) \<Rightarrow> [WJson (enc_agent_to_cloud (APong ts))] | _ \<Rightarrow> [])"
| "reply parse _ = []"

fun surfaced :: "(rstring \<Rightarrow> json option) \<Rightarrow> client_input \<Rightarrow> grokcraft_event list" where
  "surfaced parse (Message (WsText text)) =
     list_of_option (Option.bind (understood parse text) event_from_cloud)"
| "surfaced parse _ = []"

fun ends :: "client_input \<Rightarrow> outcome_of_run option" where
  "ends OutboundClosed = Some (Inr ())"
| "ends (Message WsEnd) = Some (Inl (lit ''websocket closed''))"
| "ends (Message (WsFailed err)) = Some (Inl err)"
| "ends (Message WsClose) = Some (Inl (lit ''websocket close frame''))"
| "ends _ = None"

definition handled_inputs :: "met_input list \<Rightarrow> client_input list" where
  "handled_inputs ins = takeWhile (\<lambda>i. ends i = None) (map in_event ins)"

definition session_result :: "met_input list \<Rightarrow> outcome_of_run option" where
  "session_result ins = Option.bind (find (\<lambda>i. ends i \<noteq> None) (map in_event ins)) ends"

lemmas agent_defs = send_wire_def on_hub_def save_store_def push_inbound_def

text \<open>A frame of the relay, once it is understood.\<close>

fun on_frame :: "bool \<Rightarrow> save_fate \<Rightarrow> cloud_to_agent \<Rightarrow> agent \<Rightarrow> agent" where
  "on_frame windows fate (CPaired token user_id machine_id) a =
     on_hub (push_inbound EPaired)
       (save_store windows fate ((ag_store a)\<lparr>gs_machine_token := Some token, gs_machine_id := machine_id\<rparr>) a)"
| "on_frame windows fate (CPing ts) a = a\<lparr>ag_sent := ag_sent a @ [WJson (enc_agent_to_cloud (APong ts))]\<rparr>"
| "on_frame windows fate m a = (case event_from_cloud m of Some ev \<Rightarrow> on_hub (push_inbound ev) a | None \<Rightarrow> a)"

lemma handle_text_eq:
  "handle_text parse windows text None fate a =
     (if text = lit ''ping'' then (a\<lparr>ag_sent := ag_sent a @ [WPong]\<rparr>, None)
      else case understood parse text of Some m \<Rightarrow> (on_frame windows fate m a, None) | None \<Rightarrow> (a, None))"
proof (cases "text \<in> {lit ''ping'', lit ''pong''}")
  case True
  then show ?thesis by (auto simp: handle_text_def understood_def send_wire_def simp del: lit_simps)
next
  case False
  then have u: "understood parse text = Option.bind (parse text) dec_cloud_to_agent" by (simp add: understood_def)
  show ?thesis
  proof (cases "understood parse text")
    case None
    then show ?thesis using False u by (simp add: handle_text_def del: lit_simps)
  next
    case (Some m)
    then show ?thesis
      using False u by (cases m) (simp_all add: handle_text_def send_wire_def Let_def del: lit_simps)
  qed
qed

lemma on_frame_spec:
  "ag_sent (on_frame windows fate m a) =
     ag_sent a @ (case m of CPing ts \<Rightarrow> [WJson (enc_agent_to_cloud (APong ts))] | _ \<Rightarrow> [])"
  "hub_inbound (ag_hub (on_frame windows fate m a)) =
     hub_inbound (ag_hub a) @ list_of_option (event_from_cloud m)"
  "ag_dials (on_frame windows fate m a) = ag_dials a"
  "hub_instance_id (ag_hub (on_frame windows fate m a)) = hub_instance_id (ag_hub a)"
  by (cases m; simp add: agent_defs)+

text \<open>One input: what is sent, what is surfaced, and what stays as it is.\<close>

lemma client_step_spec:
  assumes "in_send i = None"
  shows "\<exists>b. client_step parse windows i a = (b, ends (in_event i)) \<and>
    ag_sent b = ag_sent a @ reply parse (in_event i) \<and>
    hub_inbound (ag_hub b) = hub_inbound (ag_hub a) @ surfaced parse (in_event i) \<and>
    ag_dials b = ag_dials a \<and> hub_instance_id (ag_hub b) = hub_instance_id (ag_hub a)"
proof (cases "in_event i")
  case (Message m)
  show ?thesis
  proof (cases m)
    case (WsText txt1)
    have p: "understood parse (lit ''ping'') = None" by (simp add: understood_def del: lit_simps)
    show ?thesis
      using Message WsText assms p
      by (cases "understood parse txt1")
        (auto simp: client_step_def handle_text_eq on_frame_spec simp del: lit_simps)
  qed (use Message assms in \<open>simp_all add: client_step_def send_wire_def\<close>)
qed (use assms in \<open>simp_all add: client_step_def send_wire_def\<close>)

lemma run_session_spec:
  assumes "list_all (\<lambda>i. in_send i = None) ins"
  shows "\<exists>b. run_session parse windows ins a = (b, session_result ins) \<and>
    ag_sent b = ag_sent a @ concat (map (reply parse) (handled_inputs ins)) \<and>
    hub_inbound (ag_hub b) = hub_inbound (ag_hub a) @ concat (map (surfaced parse) (handled_inputs ins)) \<and>
    ag_dials b = ag_dials a \<and> hub_instance_id (ag_hub b) = hub_instance_id (ag_hub a)"
  using assms
proof (induction ins arbitrary: a)
  case Nil
  then show ?case by (simp add: handled_inputs_def session_result_def)
next
  case (Cons i ins)
  obtain b where b: "client_step parse windows i a = (b, ends (in_event i))"
    "ag_sent b = ag_sent a @ reply parse (in_event i)"
    "hub_inbound (ag_hub b) = hub_inbound (ag_hub a) @ surfaced parse (in_event i)"
    "ag_dials b = ag_dials a" "hub_instance_id (ag_hub b) = hub_instance_id (ag_hub a)"
    using client_step_spec [of i parse windows a] Cons.prems by auto
  show ?case
  proof (cases "ends (in_event i)")
    case None
    obtain c where "run_session parse windows ins b = (c, session_result ins)"
      "ag_sent c = ag_sent b @ concat (map (reply parse) (handled_inputs ins))"
      "hub_inbound (ag_hub c) = hub_inbound (ag_hub b) @ concat (map (surfaced parse) (handled_inputs ins))"
      "ag_dials c = ag_dials b" "hub_instance_id (ag_hub c) = hub_instance_id (ag_hub b)"
      using Cons.IH [of b] Cons.prems by auto
    then show ?thesis
      using None b by (intro exI [of _ c]) (simp add: handled_inputs_def session_result_def)
  next
    case (Some r)
    have "reply parse (in_event i) = []" "surfaced parse (in_event i) = []"
      using Some by (cases "in_event i" rule: ends.cases; simp)+
    then show ?thesis
      using Some b by (intro exI [of _ b]) (simp add: handled_inputs_def session_result_def)
  qed
qed

definition dial_of :: "attempt \<Rightarrow> grokcraft_store \<Rightarrow> rstring \<Rightarrow> dial" where
  "dial_of tr st instance_id =
     (agent_ws_base (at_url_ok tr) (gs_origin st),
      agent_query (at_pairing_id tr) (generate_user_code (at_pick tr)) (gs_machine_id st) (gs_machine_token st)
        instance_id)"

definition greeting :: "host \<Rightarrow> attempt \<Rightarrow> grokcraft_store \<Rightarrow> rstring \<Rightarrow> wire list" where
  "greeting ho tr st instance_id =
     WJson (enc_agent_to_cloud (AHello (current_machine ho st) instance_id (ho_pid ho))) #
     (if gs_machine_token st = None
      then [WJson (enc_agent_to_cloud (APairingReady (at_pairing_id tr) (generate_user_code (at_pick tr))))] else [])"

definition first_event :: "attempt \<Rightarrow> grokcraft_store \<Rightarrow> grokcraft_event" where
  "first_event tr st =
     (if gs_machine_token st = None
      then EPairingReady (generate_user_code (at_pick tr))
             (trim_end_slashes (gs_origin st) @ lit ''/oauth-login?code='' @ generate_user_code (at_pick tr))
      else now_connected)"

definition quiet_attempt :: "attempt \<Rightarrow> bool" where
  "quiet_attempt tr \<longleftrightarrow> at_refused tr = None \<and> at_hello tr = None \<and> at_ready tr = None \<and>
     list_all (\<lambda>i. in_send i = None) (at_inputs tr)"

text \<open>The agent after a successful dial and its greeting.\<close>

definition greeted :: "host \<Rightarrow> attempt \<Rightarrow> disk_file \<Rightarrow> grokcraft_store \<Rightarrow> agent \<Rightarrow> agent" where
  "greeted ho tr file st a =
     (let instance_id = hub_instance_id (ag_hub a)
      in a\<lparr>ag_disk := file, ag_store := st, ag_dials := ag_dials a @ [dial_of tr st instance_id],
           ag_sent := ag_sent a @ greeting ho tr st instance_id,
           ag_hub := push_inbound (first_event tr st) (set_connected True (ag_hub a))\<rparr>)"

lemma run_once_connected:
  assumes "load_or_create ho (at_readable tr) (at_create tr) (at_fresh_id tr) (ag_disk a) = (file, Some st)"
    and "quiet_attempt tr"
  shows "run_once parse ho tr a = run_session parse (ho_windows ho) (at_inputs tr) (greeted ho tr file st a)"
  using assms
  by (simp add: run_once_def announce_def quiet_attempt_def greeted_def dial_of_def greeting_def first_event_def
      agent_defs set_connected_def Let_def)

lemma greeted_parts [simp]:
  "ag_sent (greeted ho tr file st a) = ag_sent a @ greeting ho tr st (hub_instance_id (ag_hub a))"
  "hub_inbound (ag_hub (greeted ho tr file st a)) = hub_inbound (ag_hub a) @ [first_event tr st]"
  "ag_dials (greeted ho tr file st a) = ag_dials a @ [dial_of tr st (hub_instance_id (ag_hub a))]"
  "ag_store (greeted ho tr file st a) = st" "ag_disk (greeted ho tr file st a) = file"
  by (simp_all add: greeted_def push_inbound_def set_connected_def Let_def)

text \<open>C11.
  A connection does what its inputs ask for and nothing else. It greets with the machine, and with the
  pairing code when there is no token; then every tick, outbound frame, ping and socket ping is answered
  once and in order, and every frame of the relay that is understood becomes its event, in order,
  while malformed texts, pongs and lagged receivers are passed over. It ends at the first input
  that ends it, and with that input's error.
\<close>

theorem connection_conforms:
  assumes "load_or_create ho (at_readable tr) (at_create tr) (at_fresh_id tr) (ag_disk a) = (file, Some st)"
    and "quiet_attempt tr"
  shows "\<exists>b. run_once parse ho tr a = (b, session_result (at_inputs tr)) \<and>
    ag_sent b = ag_sent a @ greeting ho tr st (hub_instance_id (ag_hub a)) @
      concat (map (reply parse) (handled_inputs (at_inputs tr))) \<and>
    hub_inbound (ag_hub b) = hub_inbound (ag_hub a) @ first_event tr st #
      concat (map (surfaced parse) (handled_inputs (at_inputs tr))) \<and>
    ag_dials b = ag_dials a @ [dial_of tr st (hub_instance_id (ag_hub a))]"
  using run_session_spec [of "at_inputs tr" parse "ho_windows ho" "greeted ho tr file st a"] assms
  by (auto simp: run_once_connected quiet_attempt_def)

definition sample_host :: host where
  "sample_host = \<lparr>ho_windows = False, ho_hostname = lit ''box'', ho_env_origin = None, ho_os = lit ''linux'',
     ho_cwd = lit ''/w'', ho_version = lit ''1'', ho_pid = 7\<rparr>"

definition sample_attempt :: "client_input list \<Rightarrow> attempt" where
  "sample_attempt ins = \<lparr>at_readable = True, at_create = Saved, at_store_error = [], at_fresh_id = lit ''m'',
     at_pairing_id = lit ''p'', at_url_ok = (\<lambda>_. True), at_pick = (\<lambda>_. 0), at_refused = None, at_clear = Saved, at_hello = None,
     at_ready = None, at_inputs = map (\<lambda>i. \<lparr>in_event = i, in_send = None, in_save = Saved\<rparr>) ins\<rparr>"

definition fresh_store :: grokcraft_store where
  "fresh_store = \<lparr>gs_machine_id = lit ''m'', gs_machine_token = None, gs_origin = DEFAULT_ORIGIN,
     gs_label = lit ''box''\<rparr>"

definition fresh_agent :: agent where
  "fresh_agent = \<lparr>ag_hub = hub_new (lit ''i''), ag_disk = None, ag_store = fresh_store, ag_sent = [], ag_dials = []\<rparr>"

definition plain_parse :: "rstring \<Rightarrow> json option" where
  "plain_parse text = (if text = lit ''sub'' then Some (enc_cloud_to_agent CSubscribe) else None)"

theorem connection_conforms_witness:
  "\<exists>b. run_once plain_parse sample_host (sample_attempt [KeepaliveTick, Message (WsText (lit ''sub'')), Message WsEnd])
        fresh_agent = (b, Some (Inl (lit ''websocket closed''))) \<and>
     length (ag_sent b) = 3 \<and> last (ag_sent b) = WPing \<and> last (hub_inbound (ag_hub b)) = ERequestSnapshot"
proof -
  let ?ins = "[KeepaliveTick, Message (WsText (lit ''sub'')), Message WsEnd]"
  have load: "load_or_create sample_host (at_readable (sample_attempt ?ins)) (at_create (sample_attempt ?ins))
      (at_fresh_id (sample_attempt ?ins)) (ag_disk fresh_agent) = (Some (enc_store fresh_store), Some fresh_store)"
    by (simp add: load_or_create_def sample_attempt_def fresh_agent_def load_def save_def sample_host_def
        fresh_store_def default_origin_def Let_def)
  have quiet: "quiet_attempt (sample_attempt ?ins)" by (simp add: quiet_attempt_def sample_attempt_def)
  have u: "understood plain_parse (lit ''sub'') = Some CSubscribe"
    by (simp add: understood_def plain_parse_def dec_cloud_to_agent_def dec_enc_tagged)
  have h: "handled_inputs (at_inputs (sample_attempt ?ins)) = [KeepaliveTick, Message (WsText (lit ''sub''))]"
    "session_result (at_inputs (sample_attempt ?ins)) = Some (Inl (lit ''websocket closed''))"
    by (simp_all add: handled_inputs_def session_result_def sample_attempt_def)
  show ?thesis
    using connection_conforms [OF load quiet, of plain_parse] u
    by (auto simp: h greeting_def fresh_agent_def fresh_store_def simp del: lit_simps)
qed

section \<open>Identity and pairing\<close>

text \<open>A saved identity is loaded as it was, and a failed write leaves the old one in place, except that a
  failed rename on Windows leaves no file at all. A file that can be read and holds an identity is
  never replaced by a new one; one that cannot be read is.
\<close>

theorem identity_store:
  "load True (fst (save windows Saved st file)) = Some st \<and>
   (fate \<noteq> Saved \<longrightarrow> fst (save windows fate st file) = (if windows \<and> fate = RenameFailed then None else file)) \<and>
   (load True file = Some st \<longrightarrow> load_or_create ho True fate fresh_id file = (file, Some st)) \<and>
   (\<exists>st'. load_or_create ho False Saved fresh_id file = (Some (enc_store st'), Some st') \<and>
      gs_machine_id st' = fresh_id \<and> gs_machine_token st' = None)"
  by (cases fate) (simp_all add: load_def save_def cstore.dec_enc load_or_create_def Let_def)

theorem identity_store_witness:
  "load_or_create sample_host True NotWritten (lit ''new'') (Some (enc_store fresh_store)) =
     (Some (enc_store fresh_store), Some fresh_store)"
  using identity_store [of False fresh_store "Some (enc_store fresh_store)" NotWritten sample_host "lit ''new''"]
  by (simp add: load_def cstore.dec_enc)

text \<open>C12.
  A pairing lasts. When the relay confirms a pairing and the identity is written, the agent tells the
  pager and goes on; the next connection, whenever it is made, presents the token and the machine id of
  that confirmation, carries no pairing code, and announces no pairing.
\<close>

theorem pairing_lasts:
  assumes "understood parse txt1 = Some (CPaired token user_id machine_id)" "token \<noteq> []"
    and "in_event i = Message (WsText txt1)" "in_send i = None" "in_save i = Saved"
    and "client_step parse (ho_windows ho) i a = (b, r)"
    and "ag_disk c = ag_disk b" "at_readable tr" "quiet_attempt tr"
  shows "r = None \<and> last (hub_inbound (ag_hub b)) = EPaired \<and>
    (\<exists>st d. run_once parse ho tr c =
        run_session parse (ho_windows ho) (at_inputs tr) (greeted ho tr (ag_disk c) st c) \<and>
      gs_machine_token st = Some token \<and> gs_machine_id st = machine_id \<and>
      first_event tr st = now_connected \<and> length (greeting ho tr st (hub_instance_id (ag_hub c))) = 1 \<and>
      d = snd (dial_of tr st (hub_instance_id (ag_hub c))) \<and>
      map_of d (lit ''machineToken'') = Some token \<and> map_of d (lit ''userCode'') = None)"
proof -
  define st where "st = (ag_store a)\<lparr>gs_machine_token := Some token, gs_machine_id := machine_id\<rparr>"
  have ping: "txt1 \<noteq> lit ''ping''" using assms(1) by (auto simp: understood_def simp del: lit_simps)
  have step: "b = on_hub (push_inbound EPaired) (save_store (ho_windows ho) Saved st a)" "r = None"
    using assms(1,3-6) ping by (auto simp: client_step_def handle_text_eq st_def simp del: lit_simps)
  have disk: "ag_disk c = Some (enc_store st)" using assms(7) step(1) by (simp add: agent_defs save_def)
  have "load_or_create ho (at_readable tr) (at_create tr) (at_fresh_id tr) (ag_disk c) = (ag_disk c, Some st)"
    using assms(8) by (simp add: load_or_create_def load_def disk cstore.dec_enc)
  note run = run_once_connected [OF this assms(9)]
  have "map_of (snd (dial_of tr st (hub_instance_id (ag_hub c)))) (lit ''machineToken'') = Some token"
    "map_of (snd (dial_of tr st (hub_instance_id (ag_hub c)))) (lit ''userCode'') = None"
    using assms(2) by (simp_all add: dial_of_def agent_query_def st_def)
  moreover have "gs_machine_token st = Some token" "gs_machine_id st = machine_id" by (simp_all add: st_def)
  ultimately show ?thesis
    using run step by (auto simp: agent_defs first_event_def greeting_def)
qed

text \<open>C13.
  A rejected token is replaced by a new pairing. When the relay refuses a stored token and the cleared
  identity is written, the loop tells the pager, waits once, and dials again with a fresh code and no
  token; the code in the address, in the frame to the relay and in the link shown to the user is the same.
\<close>

theorem rejected_token_pairs_again:
  assumes "load (at_readable t1) (ag_disk a) = Some st" "gs_machine_token st \<noteq> None"
    and "at_refused t1 = Some msg" "token_rejected msg" "at_clear t1 = Saved"
    and "at_readable t2" "quiet_attempt t2" "session_result (at_inputs t2) = None"
    and "run_client parse ho [t1, t2] a 0 = (b, idx, sleeps)"
  shows "sleeps = [1] \<and>
    (\<exists>d. last (ag_dials b) = d \<and> map_of (snd d) (lit ''userCode'') = Some (generate_user_code (at_pick t2)) \<and>
       map_of (snd d) (lit ''machineToken'') = None) \<and>
    WJson (enc_agent_to_cloud (APairingReady (at_pairing_id t2) (generate_user_code (at_pick t2)))) \<in> set (ag_sent b) \<and>
    pairing_lost \<in> set (hub_inbound (ag_hub b)) \<and>
    EPairingReady (generate_user_code (at_pick t2))
      (trim_end_slashes (gs_origin st) @ lit ''/oauth-login?code='' @ generate_user_code (at_pick t2))
        \<in> set (hub_inbound (ag_hub b))"
proof -
  define st' where "st' = st\<lparr>gs_machine_token := None\<rparr>"
  define a1 where "a1 = on_hub (push_inbound pairing_lost) (save_store (ho_windows ho) Saved st'
    (a\<lparr>ag_store := st, ag_dials := ag_dials a @ [dial_of t1 st (hub_instance_id (ag_hub a))]\<rparr>))"
  define a2 where "a2 = on_hub (set_connected False) (on_hub (push_inbound (EError (lit ''Grokcraft: '' @ msg))) a1)"
  have once: "run_once parse ho t1 a = (a1, Some (Inl msg))"
    using assms(1-5)
    by (simp add: run_once_def load_or_create_def a1_def st'_def dial_of_def save_store_def Let_def)
  have "ag_disk a2 = Some (enc_store st')" "pairing_lost \<in> set (hub_inbound (ag_hub a2))"
    by (simp_all add: a2_def a1_def agent_defs set_connected_def save_def)
  then have "load_or_create ho (at_readable t2) (at_create t2) (at_fresh_id t2) (ag_disk a2) = (ag_disk a2, Some st')"
    using assms(6) by (simp add: load_or_create_def load_def cstore.dec_enc)
  note run = run_once_connected [OF this assms(7), of parse]
  obtain c where c: "run_once parse ho t2 a2 = (c, None)"
    "ag_sent c = ag_sent (greeted ho t2 (ag_disk a2) st' a2) @ concat (map (reply parse) (handled_inputs (at_inputs t2)))"
    "hub_inbound (ag_hub c) = hub_inbound (ag_hub (greeted ho t2 (ag_disk a2) st' a2)) @
       concat (map (surfaced parse) (handled_inputs (at_inputs t2)))"
    "ag_dials c = ag_dials (greeted ho t2 (ag_disk a2) st' a2)"
    using run_session_spec [of "at_inputs t2" parse "ho_windows ho" "greeted ho t2 (ag_disk a2) st' a2"] assms(7,8) run
    by (auto simp: quiet_attempt_def)
  have "run_client parse ho [t1, t2] a 0 = (c, 1, [1])"
    by (simp add: once c(1) BACKOFF_def a2_def [symmetric] Let_def del: lit_simps)
  then have b: "b = c" "sleeps = [1]" using assms(9) by (simp_all del: run_client.simps)
  show ?thesis
    using c \<open>pairing_lost \<in> set (hub_inbound (ag_hub a2))\<close>
    by (auto simp: b first_event_def greeting_def dial_of_def agent_query_def st'_def)
qed

definition paired_text :: "rstring \<Rightarrow> json option" where
  "paired_text txt1 =
     (if txt1 = lit ''ok'' then Some (enc_cloud_to_agent (CPaired (lit ''tok'') (lit ''u'') (lit ''m2''))) else None)"

definition confirm :: met_input where
  "confirm = \<lparr>in_event = Message (WsText (lit ''ok'')), in_send = None, in_save = Saved\<rparr>"

theorem pairing_lasts_witness:
  "\<exists>st d. run_once paired_text sample_host (sample_attempt [])
        (fst (client_step paired_text (ho_windows sample_host) confirm fresh_agent)) =
      run_session paired_text (ho_windows sample_host) (at_inputs (sample_attempt []))
        (greeted sample_host (sample_attempt []) (ag_disk (fst (client_step paired_text (ho_windows sample_host) confirm fresh_agent)))
          st (fst (client_step paired_text (ho_windows sample_host) confirm fresh_agent))) \<and>
      gs_machine_token st = Some (lit ''tok'') \<and>
      map_of d (lit ''machineToken'') = Some (lit ''tok'') \<and> map_of d (lit ''userCode'') = None"
proof -
  have u: "understood paired_text (lit ''ok'') = Some (CPaired (lit ''tok'') (lit ''u'') (lit ''m2''))"
    by (simp add: understood_def paired_text_def dec_cloud_to_agent_def dec_enc_tagged cloud_readers frame_rules)
  have q: "quiet_attempt (sample_attempt [])" "at_readable (sample_attempt [])"
    by (simp_all add: quiet_attempt_def sample_attempt_def)
  have i: "in_event confirm = Message (WsText (lit ''ok''))" "in_send confirm = None" "in_save confirm = Saved"
    by (simp_all add: confirm_def)
  show ?thesis
    using pairing_lasts [OF u _ i surjective_pairing refl q(2,1), of sample_host fresh_agent] by auto
qed

definition stale_agent :: agent where
  "stale_agent = fresh_agent\<lparr>ag_disk := Some (enc_store (fresh_store\<lparr>gs_machine_token := Some (lit ''old'')\<rparr>))\<rparr>"

definition refused_attempt :: attempt where
  "refused_attempt = (sample_attempt [])\<lparr>at_refused := Some (lit ''401'')\<rparr>"

theorem rejected_token_pairs_again_witness:
  "snd (snd (run_client plain_parse sample_host [refused_attempt, sample_attempt []] stale_agent 0)) = [1] \<and>
   pairing_lost \<in> set (hub_inbound (ag_hub (fst (run_client plain_parse sample_host
     [refused_attempt, sample_attempt []] stale_agent 0))))"
proof -
  let ?st = "fresh_store\<lparr>gs_machine_token := Some (lit ''old'')\<rparr>"
  have load: "load (at_readable refused_attempt) (ag_disk stale_agent) = Some ?st"
    by (simp add: load_def refused_attempt_def sample_attempt_def stale_agent_def cstore.dec_enc)
  have r: "gs_machine_token ?st \<noteq> None" "at_refused refused_attempt = Some (lit ''401'')" "token_rejected (lit ''401'')"
    "at_clear refused_attempt = Saved" "at_readable (sample_attempt [])" "quiet_attempt (sample_attempt [])"
    "session_result (at_inputs (sample_attempt [])) = None"
    by (simp_all add: refused_attempt_def sample_attempt_def token_rejected_def contains_str_def quiet_attempt_def
        session_result_def starts_with_def)
  obtain b idx sleeps where run: "run_client plain_parse sample_host [refused_attempt, sample_attempt []] stale_agent 0 =
      (b, idx, sleeps)" by (metis prod_cases3)
  show ?thesis
    unfolding run fst_conv snd_conv using rejected_token_pairs_again [OF load r run] by blast
qed

section \<open>The back-off\<close>

lemma step_error:
  assumes "in_event i \<noteq> OutboundClosed" "client_step parse windows i a = (b, Some r)"
  shows "\<exists>err. r = Inl err"
proof (cases "in_event i")
  case (Message m)
  show ?thesis
  proof (cases m)
    case (WsText txt1)
    have "handle_text parse windows txt1 (in_send i) (in_save i) a = (b, Some r)"
      using assms(2) Message WsText by (simp add: client_step_def)
    then show ?thesis
      by (auto simp: handle_text_def send_wire_def Let_def simp del: lit_simps
          split: if_splits option.splits cloud_to_agent.splits)
  qed (use Message assms(2) in \<open>auto simp: client_step_def send_wire_def split: option.splits\<close>)
qed (use assms in \<open>auto simp: client_step_def send_wire_def split: option.splits\<close>)

lemma session_error:
  "OutboundClosed \<notin> in_event ` set ins \<Longrightarrow> run_session parse windows ins a = (b, Some r) \<Longrightarrow> \<exists>err. r = Inl err"
proof (induction ins arbitrary: a)
  case (Cons i ins)
  obtain c r' where "client_step parse windows i a = (c, r')" by force
  then show ?case using Cons step_error [of i parse windows a c] by (cases r') auto
qed simp

lemma once_error:
  assumes "OutboundClosed \<notin> in_event ` set (at_inputs tr)" "run_once parse ho tr a = (b, Some r)"
  shows "\<exists>err. r = Inl err"
  using assms session_error [OF assms(1)]
  by (auto simp: run_once_def announce_def send_wire_def Let_def split: prod.splits option.splits if_splits)

text \<open>C34.
  The delay between two connections never goes back. The hub keeps its outbound channel open, and then
  every connection ends in an error, however long it lived: the delays of a run are one, two, five and
  ten seconds and ten from then on, and the reset to one second is never reached.
\<close>

theorem backoff_never_resets:
  assumes "list_all (\<lambda>tr. OutboundClosed \<notin> in_event ` set (at_inputs tr)) ats"
    and "run_client parse ho ats a 0 = (b, idx, sleeps)"
  shows "sleeps = map (\<lambda>i. [1, 2, 5, 10] ! min i 3) [0..<length sleeps] \<and> idx = min (length sleeps) 3"
proof -
  have len: "length BACKOFF = 4" by (simp add: BACKOFF_def)
  have "sleeps = map (\<lambda>i. BACKOFF ! min (n + i) 3) [0..<length sleeps] \<and> idx = min (n + length sleeps) 3"
    if "n \<le> 3" "run_client parse ho ats a n = (b, idx, sleeps)" for n
    using assms(1) that
  proof (induction ats arbitrary: a n b idx sleeps)
    case Nil
    then show ?case by (simp add: min_absorb1)
  next
    case (Cons tr ats)
    obtain a1 r where once: "run_once parse ho tr a = (a1, r)" by force
    show ?case
    proof (cases r)
      case None
      then show ?thesis using Cons.prems once by (auto simp: min_absorb1)
    next
      case (Some r')
      then obtain err where r: "r' = Inl err" using once_error once Cons.prems(1) by fastforce
      define a3 where "a3 = on_hub (set_connected False) (on_hub (push_inbound (EError (lit ''Grokcraft: '' @ err))) a1)"
      obtain ss where ss: "run_client parse ho ats a3 (min (n + 1) 3) = (b, idx, ss)" "sleeps = BACKOFF ! min n 3 # ss"
        using Cons.prems(3) once Some r
        by (auto simp: a3_def len Let_def simp del: lit_simps split: prod.splits)
      have "ss = map (\<lambda>i. BACKOFF ! min (min (n + 1) 3 + i) 3) [0..<length ss] \<and> idx = min (min (n + 1) 3 + length ss) 3"
        using Cons.IH [OF _ _ ss(1)] Cons.prems(1) by simp
      moreover have "min (min (n + 1) 3 + i) 3 = min (n + Suc i) 3" for i by simp
      ultimately show ?thesis
        using ss(2) by (simp add: upt_conv_Cons map_Suc_upt [symmetric] comp_def del: upt_Suc)
    qed
  qed
  from this [of 0] assms(2) show ?thesis by (simp add: BACKOFF_def)
qed

text \<open>Where every connection comes about and ends, the loop sleeps after each.\<close>

lemma run_client_length:
  "list_all (\<lambda>tr. quiet_attempt tr \<and> at_create tr = Saved \<and> session_result (at_inputs tr) \<noteq> None) ats \<Longrightarrow>
   length (snd (snd (run_client parse ho ats a n))) = length ats"
proof (induction ats arbitrary: a n)
  case (Cons tr ats)
  obtain f st where load:
    "load_or_create ho (at_readable tr) (at_create tr) (at_fresh_id tr) (ag_disk a) = (f, Some st)"
    using Cons.prems
    by (cases "load (at_readable tr) (ag_disk a)") (simp_all add: load_or_create_def save_def Let_def)
  obtain a1 r where "run_once parse ho tr a = (a1, Some r)"
    using run_once_connected [OF load, of parse] Cons.prems
      run_session_spec [of "at_inputs tr" parse "ho_windows ho" "greeted ho tr f st a"]
    by (auto simp: quiet_attempt_def)
  then show ?case
    using Cons by (cases r) (simp_all add: Let_def case_prod_unfold del: lit_simps)
qed simp

theorem backoff_never_resets_witness:
  "snd (snd (run_client plain_parse sample_host (replicate 6 (sample_attempt [KeepaliveTick, Message WsEnd]))
      fresh_agent 0)) = [1, 2, 5, 10, 10, 10]"
proof -
  let ?ats = "replicate 6 (sample_attempt [KeepaliveTick, Message WsEnd])"
  have closed: "list_all (\<lambda>tr. OutboundClosed \<notin> in_event ` set (at_inputs tr)) ?ats"
    by (simp add: sample_attempt_def list_all_iff)
  obtain b idx sleeps where run: "run_client plain_parse sample_host ?ats fresh_agent 0 = (b, idx, sleeps)"
    by (metis prod_cases3)
  have "list_all (\<lambda>tr. quiet_attempt tr \<and> at_create tr = Saved \<and> session_result (at_inputs tr) \<noteq> None) ?ats"
    by (simp add: sample_attempt_def quiet_attempt_def session_result_def list_all_iff)
  from run_client_length [OF this, of plain_parse sample_host fresh_agent 0] have "length sleeps = 6"
    unfolding run by simp
  then show ?thesis
    unfolding run snd_conv using backoff_never_resets [OF closed run]
    by (simp add: upt_conv_Cons numeral_eq_Suc)
qed

text \<open>
  A stored token that is empty leaves the user without a code: the address carries a pairing code, but
  the agent takes itself for paired and shows none.
\<close>

lemma empty_token_shows_no_code:
  assumes "gs_machine_token st = Some []"
  shows "map_of (snd (dial_of tr st instance_id)) (lit ''userCode'') = Some (generate_user_code (at_pick tr))"
    "first_event tr st = now_connected" "length (greeting ho tr st instance_id) = 1"
  using assms by (auto simp: dial_of_def agent_query_def first_event_def greeting_def)

text \<open>Of all the calls of \<open>mark_client_started\<close>, the first alone is told to start the client.\<close>

fun start_calls :: "nat \<Rightarrow> hub \<Rightarrow> bool list" where
  "start_calls 0 h = []"
| "start_calls (Suc n) h = (let (h', first) = mark_client_started h in first # start_calls n h')"

lemma client_starts_once: "start_calls (Suc n) (hub_new instance_id) = True # replicate n False"
proof -
  have "start_calls n h = replicate n False" if "hub_client_started h" for n h
    using that by (induction n arbitrary: h) (simp_all add: mark_client_started_def)
  then show ?thesis by (simp add: mark_client_started_def hub_new_def)
qed

lemma disconnect_stops_watching:
  "\<not> hub_watching (set_connected False h)" "hub_watching (set_connected True h) = hub_watching h"
  by (simp_all add: set_connected_def)

end
