(* ===== verification/Breaker_Concurrent.thy ===== *)
theory Breaker_Concurrent
  imports Circuit_Breaker
begin

text \<open>
  The circuit breaker under concurrency: \<open>check\<close> and \<open>record\<close> of \<open>breaker.rs\<close> cut at their accesses to
  shared memory, and any number of calls interleaved. Each step of a call makes at most one access to
  an atomic or holds the window's lock once; reading the clock and calling the observer touch no
  shared memory and go with the access next to them. The interleaving is sequentially consistent: the
  acquire and release orderings of the source are not weakened further.

  Run alone, the steps of a call compose to the operation of theory \<open>Circuit_Breaker\<close>.
\<close>

datatype pc =
  CheckStart
| OpenLoad
| OpenElapsed u64
| OpenCas
| OpenMirror
| OpenLost
| OpenLostLoad
| ProbeStart
| ProbeAdd u64
| ProbeClaim u64
| ProbeBack u64
| ProbeLease u64
| ProbeTakeOver u64 u64
| RecordStart outcome
| RecordWindow outcome instant breaker_state
| TripState outcome breaker_state string
| TripOpened outcome breaker_state string
| TripProbes outcome breaker_state string
| TripMirror outcome breaker_state string
| CloseState outcome breaker_state string
| CloseWindow outcome breaker_state string
| CloseProbes outcome breaker_state string
| CloseMirror outcome breaker_state string
| RecordEnd outcome
| Passed
| AdmittedSlot
| AdmittedLease
| Rejected breaker_open
| Recorded

definition open_elapsed :: "instant \<Rightarrow> u64 \<Rightarrow> circuit_breaker \<Rightarrow> duration" where
  "open_elapsed now opened b = from_millis (saturating_sub_u64 (elapsed_millis now b) opened)"

fun check_atomic :: "instant \<Rightarrow> pc \<Rightarrow> circuit_breaker \<Rightarrow> (pc \<times> circuit_breaker) option" where
  "check_atomic now CheckStart b =
     Some (if \<not> enabled (config b) then (Passed, b)
           else case state b of Closed \<Rightarrow> (Passed, b) | Open \<Rightarrow> (OpenLoad, b) | HalfOpen \<Rightarrow> (ProbeStart, b))"
| "check_atomic now OpenLoad b = Some (OpenElapsed (opened_at_millis b), b)"
| "check_atomic now (OpenElapsed opened) b =
     Some (if open_duration (config b) \<le> open_elapsed now opened b then (OpenCas, b)
           else (Rejected \<lparr>retry_after = open_duration (config b) - open_elapsed now opened b\<rparr>, b))"
| "check_atomic now OpenCas b =
     (let (won, b1) = cas_state Open HalfOpen b in Some (if won then (OpenMirror, b1) else (OpenLost, b1)))"
| "check_atomic now OpenMirror b =
     Some (ProbeStart, notify (OnStateChange Open HalfOpen ''open_elapsed'') (b\<lparr>is_open_fast := False\<rparr>))"
| "check_atomic now OpenLost b =
     Some (case state b of Closed \<Rightarrow> (Passed, b) | HalfOpen \<Rightarrow> (ProbeStart, b) | Open \<Rightarrow> (OpenLostLoad, b))"
| "check_atomic now OpenLostLoad b =
     Some (Rejected \<lparr>retry_after = open_duration (config b) - open_elapsed now (opened_at_millis b) b\<rparr>, b)"
| "check_atomic now ProbeStart b = Some (ProbeAdd (elapsed_millis now b), b)"
| "check_atomic now (ProbeAdd t) b =
     (let prev = half_open_probes b; b1 = b\<lparr>half_open_probes := prev + 1\<rparr> in
      Some (if prev < half_open_max_probes (config b) then (ProbeClaim t, b1) else (ProbeBack t, b1)))"
| "check_atomic now (ProbeClaim t) b =
     Some (AdmittedSlot, notify (OnProbeAdmission True) (b\<lparr>probe_claimed_at_millis := t\<rparr>))"
| "check_atomic now (ProbeBack t) b =
     Some (ProbeLease t, b\<lparr>half_open_probes := half_open_probes b - 1\<rparr>)"
| "check_atomic now (ProbeLease t) b =
     (let claimed = probe_claimed_at_millis b in
      Some (if as_u64 (as_millis (open_duration (config b))) \<le> saturating_sub_u64 t claimed
            then (ProbeTakeOver t claimed, b)
            else (Rejected \<lparr>retry_after = min HALF_OPEN_PROBE_BACKOFF (open_duration (config b))\<rparr>,
                  notify (OnProbeAdmission False) b)))"
| "check_atomic now (ProbeTakeOver t claimed) b =
     Some (if probe_claimed_at_millis b = claimed
           then (AdmittedLease, notify (OnProbeAdmission True) (b\<lparr>probe_claimed_at_millis := t\<rparr>))
           else (Rejected \<lparr>retry_after = min HALF_OPEN_PROBE_BACKOFF (open_duration (config b))\<rparr>,
                 notify (OnProbeAdmission False) b))"
| "check_atomic now _ b = None"

fun record_atomic :: "instant \<Rightarrow> pc \<Rightarrow> circuit_breaker \<Rightarrow> (pc \<times> circuit_breaker) option" where
  "record_atomic now (RecordStart out) b =
     Some (if \<not> enabled (config b) then (Recorded, b)
           else case state b of
               Closed \<Rightarrow> (RecordWindow out now Closed, b)
             | Open \<Rightarrow> (RecordWindow out now Open, b)
             | HalfOpen \<Rightarrow>
                 if out = Failure then (TripState out HalfOpen ''probe_failure'', b)
                 else (CloseState out HalfOpen ''probe_success'', b))"
| "record_atomic now (RecordWindow out t prev) b =
     (let pushed = window_evict (window_duration (config b)) t (window_push (out = Failure) t (window b));
          b1 = b\<lparr>window := pushed\<rparr>
      in Some (if prev = Closed \<and> unat (min_samples (config b)) \<le> window_sample_count pushed
                  \<and> f64_ge (Fin (window_error_rate pushed)) (error_rate_threshold (config b))
               then (TripState out prev ''trip'', b1) else (RecordEnd out, b1)))"
| "record_atomic now (TripState out prev reason) b =
     Some (TripOpened out prev reason, b\<lparr>state_u8 := state_as_u8 Open\<rparr>)"
| "record_atomic now (TripOpened out prev reason) b =
     Some (TripProbes out prev reason, b\<lparr>opened_at_millis := elapsed_millis now b\<rparr>)"
| "record_atomic now (TripProbes out prev reason) b =
     Some (TripMirror out prev reason, b\<lparr>half_open_probes := 0\<rparr>)"
| "record_atomic now (TripMirror out prev reason) b =
     (let b1 = b\<lparr>is_open_fast := True\<rparr>
      in Some (RecordEnd out, if prev \<noteq> Open then notify (OnStateChange prev Open reason) b1 else b1))"
| "record_atomic now (CloseState out prev reason) b =
     Some (CloseWindow out prev reason, b\<lparr>state_u8 := state_as_u8 Closed\<rparr>)"
| "record_atomic now (CloseWindow out prev reason) b =
     Some (CloseProbes out prev reason, b\<lparr>window := window_clear (window b)\<rparr>)"
| "record_atomic now (CloseProbes out prev reason) b =
     Some (CloseMirror out prev reason, b\<lparr>half_open_probes := 0\<rparr>)"
| "record_atomic now (CloseMirror out prev reason) b =
     (let b1 = b\<lparr>is_open_fast := False\<rparr>
      in Some (RecordEnd out, if prev \<noteq> Closed then notify (OnStateChange prev Closed reason) b1 else b1))"
| "record_atomic now (RecordEnd out) b = Some (Recorded, notify (OnOutcome out (state b)) b)"
| "record_atomic now _ b = None"

definition atomic_step :: "instant \<Rightarrow> pc \<Rightarrow> circuit_breaker \<Rightarrow> (pc \<times> circuit_breaker) option" where
  "atomic_step now p b = (case check_atomic now p b of Some r \<Rightarrow> Some r | None \<Rightarrow> record_atomic now p b)"

text \<open>Calls in flight: each has its program counter; one of them makes a step.\<close>

inductive par_step :: "circuit_breaker \<times> pc list \<Rightarrow> circuit_breaker \<times> pc list \<Rightarrow> bool" where
  "i < length ps \<Longrightarrow> atomic_step now (ps ! i) b = Some (p', b') \<Longrightarrow> par_step (b, ps) (b', ps[i := p'])"

inductive_cases par_stepE: "par_step (b, ps) s"

section \<open>A call that runs alone\<close>

fun run_alone :: "nat \<Rightarrow> instant \<Rightarrow> pc \<Rightarrow> circuit_breaker \<Rightarrow> pc \<times> circuit_breaker" where
  "run_alone 0 now p b = (p, b)"
| "run_alone (Suc n) now p b =
     (case atomic_step now p b of None \<Rightarrow> (p, b) | Some (p', b') \<Rightarrow> run_alone n now p' b')"

fun check_answer :: "pc \<Rightarrow> (breaker_open + unit) option" where
  "check_answer Passed = Some (Inr ())"
| "check_answer AdmittedSlot = Some (Inr ())"
| "check_answer AdmittedLease = Some (Inr ())"
| "check_answer (Rejected e) = Some (Inl e)"
| "check_answer _ = None"

lemma run_stop [simp]:
  "run_alone k now Passed b = (Passed, b)" "run_alone k now AdmittedSlot b = (AdmittedSlot, b)"
  "run_alone k now AdmittedLease b = (AdmittedLease, b)" "run_alone k now (Rejected e) b = (Rejected e, b)"
  "run_alone k now Recorded b = (Recorded, b)"
  by (cases k; simp add: atomic_step_def)+

lemma run_probe_alone:
  assumes "5 \<le> m"
  shows "\<exists>p. run_alone m now ProbeStart b = (p, snd (try_half_open_probe now b)) \<and>
    check_answer p = Some (fst (try_half_open_probe now b))"
proof -
  define k where "k = m - 5"
  have five: "m = Suc (Suc (Suc (Suc (Suc k))))" using assms by (simp add: k_def)
  show ?thesis unfolding five by (auto simp: atomic_step_def Let_def try_half_open_probe_def)
qed

lemma run_check_alone:
  assumes "breaker_inv b"
  shows "\<exists>p. run_alone 10 now CheckStart b = (p, snd (check now now now b)) \<and>
    check_answer p = Some (fst (check now now now b))"
proof -
  have ten: "(10::nat) = Suc (Suc (Suc (Suc (Suc 5))))" by simp
  let ?run = "\<lambda>m. run_alone (Suc (Suc (Suc (Suc (Suc m))))) now CheckStart b"
  have "\<exists>p. ?run m = (p, snd (check now now now b)) \<and> check_answer p = Some (fst (check now now now b))" if m: "5 \<le> m" for m
  proof (cases "enabled (config b) \<and> state b \<noteq> Closed")
    case False
    then show ?thesis by (cases "state b") (auto simp: atomic_step_def check_def)
  next
    case en: True
    show ?thesis
    proof (cases "state b")
      case HalfOpen
      have "?run m = run_alone (Suc (Suc (Suc (Suc m)))) now ProbeStart b"
        using en HalfOpen by (simp add: atomic_step_def)
      then show ?thesis using run_probe_alone [of "Suc (Suc (Suc (Suc m)))" now b] m en HalfOpen by (simp add: check_def)
    next
      case Open
      let ?b = "notify (OnStateChange Open HalfOpen ''open_elapsed'') (b\<lparr>state_u8 := state_as_u8 HalfOpen, is_open_fast := False\<rparr>)"
      have byte: "state_u8 b = state_as_u8 Open" using state_Open_byte [OF assms Open] .
      have el: "open_elapsed now (opened_at_millis b) b =
          from_millis (saturating_sub_u64 (elapsed_millis now b) (opened_at_millis b))"
        by (simp add: open_elapsed_def)
      show ?thesis
      proof (cases "open_duration (config b) \<le> open_elapsed now (opened_at_millis b) b")
        case True
        have "?run m = run_alone m now ProbeStart ?b"
          using en Open byte True by (simp add: atomic_step_def cas_state_def)
        moreover have "check now now now b = try_half_open_probe now ?b"
          using en Open True el by (simp add: check_def check_open_eq [OF assms Open] Let_def)
        ultimately show ?thesis using run_probe_alone [OF m, of now ?b] by simp
      next
        case False
        then show ?thesis
          using en Open el by (simp add: atomic_step_def check_def check_open_eq [OF assms Open] Let_def)
      qed
    qed (use en in simp)
  qed
  from this [of 5] show ?thesis unfolding ten by simp
qed

lemma run_record_alone: "run_alone 7 now (RecordStart out) b = (Recorded, record_outcome out now now b)"
proof -
  have seven: "(7::nat) = Suc (Suc (Suc (Suc (Suc (Suc (Suc 0))))))" by simp
  show ?thesis
  proof (cases "enabled (config b)")
    case False
    then show ?thesis unfolding seven by (simp add: atomic_step_def record_outcome_def)
  next
    case en: True
    show ?thesis
    proof (cases "state b")
      case Closed
      then show ?thesis using en unfolding seven
        by (simp add: atomic_step_def record_outcome_def Let_def trip_def elapsed_millis_def)
    next
      case Open
      then show ?thesis using en unfolding seven
        by (simp add: atomic_step_def record_outcome_def Let_def)
    next
      case HalfOpen
      then show ?thesis using en unfolding seven
        by (simp add: atomic_step_def record_outcome_def Let_def trip_def close_def elapsed_millis_def)
    qed
  qed
qed

section \<open>Concurrent checks\<close>

fun in_check :: "pc \<Rightarrow> bool" where
  "in_check (RecordStart _) = False" | "in_check (RecordWindow _ _ _) = False"
| "in_check (TripState _ _ _) = False" | "in_check (TripOpened _ _ _) = False"
| "in_check (TripProbes _ _ _) = False" | "in_check (TripMirror _ _ _) = False"
| "in_check (CloseState _ _ _) = False" | "in_check (CloseWindow _ _ _) = False"
| "in_check (CloseProbes _ _ _) = False" | "in_check (CloseMirror _ _ _) = False"
| "in_check (RecordEnd _) = False" | "in_check Recorded = False"
| "in_check _ = True"

fun holds_slot :: "pc \<Rightarrow> bool" where
  "holds_slot (ProbeClaim _) = True"
| "holds_slot AdmittedSlot = True"
| "holds_slot _ = False"

fun overshoots :: "pc \<Rightarrow> bool" where
  "overshoots (ProbeBack _) = True"
| "overshoots _ = False"

abbreviation how_many :: "(pc \<Rightarrow> bool) \<Rightarrow> pc list \<Rightarrow> nat" where
  "how_many P ps \<equiv> length (filter P ps)"

text \<open>The probe counter counts the claimed slots and the increments about to be taken back.\<close>

definition slots_inv :: "circuit_breaker \<times> pc list \<Rightarrow> bool" where
  "slots_inv s \<longleftrightarrow>
     (case s of (b, ps) \<Rightarrow>
        list_all in_check ps \<and> length ps < 2 ^ 64 \<and>
        unat (half_open_probes b) = how_many holds_slot ps + how_many overshoots ps \<and>
        how_many holds_slot ps \<le> unat (half_open_max_probes (config b)))"

definition checks_init :: "circuit_breaker \<times> pc list \<Rightarrow> bool" where
  "checks_init s \<longleftrightarrow>
     (case s of (b, ps) \<Rightarrow> half_open_probes b = 0 \<and> length ps < 2 ^ 64 \<and> list_all ((=) CheckStart) ps)"

lemma how_many_update:
  "i < length ps \<Longrightarrow>
   how_many P (ps[i := p]) + of_bool (P (ps ! i)) = how_many P ps + of_bool (P p)"
proof (induction ps arbitrary: i)
  case (Cons x ps)
  then show ?case by (cases i) auto
qed simp

lemma how_many_disjoint: "how_many holds_slot ps + how_many overshoots ps \<le> length ps"
proof (induction ps)
  case (Cons p ps)
  then show ?case by (cases p) auto
qed simp

lemma in_check_record: "in_check p \<Longrightarrow> record_atomic now p b = None"
  by (cases p) auto

lemma check_atomic_frame:
  assumes "check_atomic now p b = Some (p', b')"
  shows "in_check p' \<and> config b' = config b"
  using assms by (cases p) (auto simp: Let_def cas_state_def split: if_splits breaker_state.splits prod.splits)

lemma check_atomic_slots:
  assumes "check_atomic now p b = Some (p', b')"
    and "unat (half_open_probes b) = h + v" "of_bool (holds_slot p) \<le> h" "of_bool (overshoots p) \<le> v"
    and "h + v + of_bool (\<not> holds_slot p \<and> \<not> overshoots p) < 2 ^ 64" "h \<le> unat (half_open_max_probes (config b))"
  shows "unat (half_open_probes b') + of_bool (holds_slot p) + of_bool (overshoots p) =
      h + v + of_bool (holds_slot p') + of_bool (overshoots p') \<and>
    h + of_bool (holds_slot p') \<le> unat (half_open_max_probes (config b)) + of_bool (holds_slot p)"
  using assms
proof (cases p)
  case (ProbeAdd t)
  have "unat (half_open_probes b + 1) = h + v + 1"
    using assms(2,5) ProbeAdd by (simp add: unat_word_ariths)
  with ProbeAdd assms show ?thesis
    by (auto simp: Let_def word_less_nat_alt split: if_splits)
next
  case (ProbeBack t)
  then have "0 < unat (half_open_probes b)" using assms(2,4) by simp
  then have "unat (half_open_probes b - 1) = unat (half_open_probes b) - 1"
    by (simp add: unat_sub_if')
  with ProbeBack assms show ?thesis by auto
qed (auto simp: Let_def cas_state_def split: if_splits breaker_state.splits prod.splits)

lemma slots_step:
  assumes "slots_inv s" "par_step s s'"
  shows "slots_inv s'"
  using assms(2)
proof cases
  case (1 i ps now b p' b')
  have inv: "list_all in_check ps" "length ps < 2 ^ 64"
    "unat (half_open_probes b) = how_many holds_slot ps + how_many overshoots ps"
    "how_many holds_slot ps \<le> unat (half_open_max_probes (config b))"
    using assms(1) 1(1) by (auto simp: slots_inv_def)
  have "in_check (ps ! i)" using inv(1) 1(3) by (simp add: list_all_length)
  then have c: "check_atomic now (ps ! i) b = Some (p', b')"
    using 1(4) by (auto simp: atomic_step_def in_check_record split: option.splits)
  note upd = how_many_update [OF 1(3), of holds_slot p'] how_many_update [OF 1(3), of overshoots p']
  have one: "of_bool (holds_slot (ps ! i)) \<le> how_many holds_slot ps" "of_bool (overshoots (ps ! i)) \<le> how_many overshoots ps"
    using upd by (auto simp: of_bool_def split: if_splits)
      (metis 1(3) filter_empty_conv length_greater_0_conv nth_mem Suc_leI One_nat_def)+
  have "how_many holds_slot ps + how_many overshoots ps + of_bool (\<not> holds_slot (ps ! i) \<and> \<not> overshoots (ps ! i)) \<le> length ps"
    using how_many_disjoint [of "ps[i := ProbeClaim 0]"] how_many_disjoint [of ps]
      how_many_update [OF 1(3), of holds_slot "ProbeClaim 0"] how_many_update [OF 1(3), of overshoots "ProbeClaim 0"]
    by (auto simp: of_bool_def split: if_splits)
  then have "how_many holds_slot ps + how_many overshoots ps + of_bool (\<not> holds_slot (ps ! i) \<and> \<not> overshoots (ps ! i)) < 2 ^ 64"
    using inv(2) by linarith
  from check_atomic_slots [OF c inv(3) one this inv(4)] check_atomic_frame [OF c] upd inv 1
  show ?thesis by (auto simp: slots_inv_def list_all_length nth_list_update)
qed

interpretation checks: invariant_system checks_init par_step slots_inv
proof
  fix s show "checks_init s \<Longrightarrow> slots_inv s"
  proof -
    assume "checks_init s"
    then obtain b ps where s: "s = (b, ps)" "half_open_probes b = 0" "length ps < 2 ^ 64" "list_all ((=) CheckStart) ps"
      by (auto simp: checks_init_def)
    then have "filter holds_slot ps = []" "filter overshoots ps = []" "list_all in_check ps"
      by (auto simp: filter_empty_conv list_all_iff)
    with s show ?thesis by (simp add: slots_inv_def)
  qed
qed (rule slots_step)

section \<open>Schedules\<close>

text \<open>A schedule names, step by step, the call that moves and its clock reading.\<close>

fun run_schedule :: "(nat \<times> instant) list \<Rightarrow> circuit_breaker \<times> pc list \<Rightarrow> circuit_breaker \<times> pc list" where
  "run_schedule [] s = s"
| "run_schedule ((i, now) # sched) (b, ps) =
     (case atomic_step now (ps ! i) b of
        None \<Rightarrow> (b, ps)
      | Some (p', b') \<Rightarrow> run_schedule sched (b', ps[i := p']))"

lemma run_schedule_steps:
  "\<forall>(i, now) \<in> set sched. i < length ps \<Longrightarrow> par_step\<^sup>*\<^sup>* (b, ps) (run_schedule sched (b, ps))"
proof (induction sched arbitrary: b ps)
  case (Cons x sched)
  obtain i now where x: "x = (i, now)" by (cases x)
  show ?case
  proof (cases "atomic_step now (ps ! i) b")
    case (Some r)
    obtain p' b' where r: "r = (p', b')" by (cases r)
    have "par_step (b, ps) (b', ps[i := p'])"
      using Some r Cons.prems x by (intro par_step.intros) auto
    moreover have "par_step\<^sup>*\<^sup>* (b', ps[i := p']) (run_schedule sched (b', ps[i := p']))"
      using Cons.prems by (intro Cons.IH) auto
    ultimately show ?thesis using Some r x by simp
  qed (simp add: x)
qed simp

section \<open>Properties under concurrency\<close>

text \<open>The atomic steps compose: a call that runs without interference ends within ten steps, a
  \<open>record\<close> within seven, with the answer and the breaker of the sequential operation.\<close>

theorem atomic_steps_refine:
  assumes "breaker_inv b"
  shows "(\<exists>p. run_alone 10 now CheckStart b = (p, snd (check now now now b)) \<and>
      check_answer p = Some (fst (check now now now b))) \<and>
    run_alone 7 now (RecordStart out) b = (Recorded, record_outcome out now now b)"
  using run_check_alone [OF assms] run_record_alone by blast

theorem atomic_steps_refine_witness:
  "run_alone 7 5 (RecordStart Failure) (with_clock config_server 0) =
     (Recorded, record_outcome Failure 5 5 (with_clock config_server 0))"
  using atomic_steps_refine [OF with_clock_inv] by blast

text \<open>C26. Any number of concurrent \<open>check\<close> calls, interleaved in any order while no outcome is
  recorded, claim at most \<open>half_open_max_probes\<close> slots, starting from a free counter; and when all
  overshooting increments have been taken back, the counter equals the slots claimed.\<close>

theorem concurrent_checks_bounded:
  assumes "half_open_probes b = 0" "n < 2 ^ 64" "par_step\<^sup>*\<^sup>* (b, replicate n CheckStart) (b', ps)"
  shows "how_many holds_slot ps \<le> unat (half_open_max_probes (config b')) \<and>
    unat (half_open_probes b') = how_many holds_slot ps + how_many overshoots ps"
proof -
  have "checks_init (b, replicate n CheckStart)" using assms(1,2) by (simp add: checks_init_def list_all_iff)
  from checks.reachable_inv [OF this assms(3)] show ?thesis by (simp add: slots_inv_def)
qed

theorem concurrent_checks_bounded_witness:
  "\<exists>b' ps. par_step\<^sup>*\<^sup>* (force_half_open (with_clock config_server 0), replicate 2 CheckStart) (b', ps) \<and>
     ps = [ProbeClaim 0, ProbeBack 0] \<and> how_many holds_slot ps \<le> unat (half_open_max_probes (config b'))"
proof -
  let ?b = "force_half_open (with_clock config_server 0)"
  let ?sched = "[(0, 0), (1, 0), (0, 0), (1, 0), (0, 0), (1, 0)]"
  let ?s = "run_schedule ?sched (?b, replicate 2 CheckStart)"
  have steps: "par_step\<^sup>*\<^sup>* (?b, replicate 2 CheckStart) (fst ?s, snd ?s)"
    using run_schedule_steps [of ?sched "replicate 2 CheckStart" ?b] by simp
  have "snd ?s = [ProbeClaim 0, ProbeBack 0]"
    by (simp add: numeral_2_eq_2 atomic_step_def force_half_open_def with_clock_def config_server_def state_def
        elapsed_millis_def as_u64_def as_millis_def Let_def notify_def)
  moreover have "half_open_probes ?b = 0" by (simp add: force_half_open_def Let_def)
  moreover have "(2::nat) < 2 ^ 64" by simp
  ultimately have "how_many holds_slot (snd ?s) \<le> unat (half_open_max_probes (config (fst ?s)))"
    using concurrent_checks_bounded [OF _ _ steps] by blast
  with steps \<open>snd ?s = _\<close> show ?thesis by blast
qed

text \<open>The effect of a complete \<open>record\<close> of a failed probe between two steps of a \<open>check\<close>.\<close>

lemma race_start:
  "state (force_half_open (with_clock config_server 0)) = HalfOpen"
  "enabled (config (force_half_open (with_clock config_server 0)))"
  "half_open_max_probes (config (force_half_open (with_clock config_server 0))) = 1"
  "half_open_probes (force_half_open (with_clock config_server 0)) = 0"
  by (simp_all add: force_half_open_def with_clock_def config_server_def state_def Let_def notify_def)

lemma check_half_open_claims:
  "state b = HalfOpen \<Longrightarrow> enabled (config b) \<Longrightarrow> half_open_probes b = 0 \<Longrightarrow> half_open_max_probes (config b) = 1 \<Longrightarrow>
   half_open_probes (snd (check t1 t2 t3 b)) = 1 \<and> state (snd (check t1 t2 t3 b)) = HalfOpen \<and>
   config (snd (check t1 t2 t3 b)) = config b"
  by (simp add: check_def probe_probes)

text \<open>The comment in \<open>check_open\<close> that nothing increments \<open>half_open_probes\<close> while the breaker is
  open does not hold under concurrency. A caller that read \<open>HalfOpen\<close> just before a failed probe
  trips the breaker still claims a slot afterwards: it is admitted while the breaker is open, and
  the counter stays at one. And a caller that overshot the limit takes its increment back after
  \<open>trip\<close> has reset the counter, which wraps it around to \<open>usize::MAX\<close>.\<close>

theorem probe_counter_race:
  "(\<exists>b ps. par_step\<^sup>*\<^sup>* (force_half_open (with_clock config_server 0), [CheckStart, RecordStart Failure]) (b, ps) \<and>
      ps = [AdmittedSlot, Recorded] \<and> state b = Open \<and> half_open_probes b = 1) \<and>
   (\<exists>b ps. par_step\<^sup>*\<^sup>* (snd (check 0 0 0 (force_half_open (with_clock config_server 0))),
        [CheckStart, RecordStart Failure]) (b, ps) \<and>
      state b = Open \<and> half_open_probes b = - 1)"
proof
  let ?b = "force_half_open (with_clock config_server 0)"
  let ?ps = "[CheckStart, RecordStart Failure]"
  let ?s1 = "[(0, 0), (1, 0), (1, 0), (1, 0), (1, 0), (1, 0), (1, 0), (0, 0), (0, 0), (0, 0)]"
  have "snd (run_schedule ?s1 (?b, ?ps)) = [AdmittedSlot, Recorded] \<and>
      state (fst (run_schedule ?s1 (?b, ?ps))) = Open \<and> half_open_probes (fst (run_schedule ?s1 (?b, ?ps))) = 1"
    using race_start by (simp add: atomic_step_def Let_def)
  moreover have "par_step\<^sup>*\<^sup>* (?b, ?ps) (run_schedule ?s1 (?b, ?ps))" by (rule run_schedule_steps) simp
  ultimately show "\<exists>b ps. par_step\<^sup>*\<^sup>* (?b, ?ps) (b, ps) \<and>
      ps = [AdmittedSlot, Recorded] \<and> state b = Open \<and> half_open_probes b = 1"
    by (metis prod.collapse)
  let ?c = "snd (check 0 0 0 ?b)"
  let ?s2 = "[(0, 0), (0, 0), (0, 0), (1, 0), (1, 0), (1, 0), (1, 0), (1, 0), (1, 0), (0, 0)]"
  have "state (fst (run_schedule ?s2 (?c, ?ps))) = Open \<and> half_open_probes (fst (run_schedule ?s2 (?c, ?ps))) = - 1"
    using race_start check_half_open_claims [of ?b 0 0 0] by (simp add: atomic_step_def Let_def)
  moreover have "par_step\<^sup>*\<^sup>* (?c, ?ps) (run_schedule ?s2 (?c, ?ps))" by (rule run_schedule_steps) simp
  ultimately show "\<exists>b ps. par_step\<^sup>*\<^sup>* (?c, ?ps) (b, ps) \<and> state b = Open \<and> half_open_probes b = - 1"
    by (metis prod.collapse)
qed

end
