(* ===== verification/Retry_Policy.thy ===== *)
theory Retry_Policy
  imports Prelude
begin

text \<open>
  The HTTP and gRPC retry classifiers of \<open>xai-circuit-breaker/src/retry_policy.rs\<close> and
  \<open>grpc.rs\<close>. Status codes are 16-bit words and the policies' code lists are lists, searched with
  \<open>contains\<close> as in the sources. The gRPC codes are the enumeration of the gRPC protocol the
  \<open>tonic\<close> crate names.
\<close>

datatype disposition = Retryable | AuthRefresh | Terminal

record retry_policy =
  retryable :: "u16 list"
  auth_refresh :: "u16 list"
  terminal :: "u16 list"
  default_disposition :: disposition

definition classify :: "retry_policy \<Rightarrow> u16 \<Rightarrow> disposition option" where
  "classify p status =
     (if 200 \<le> status \<and> status < 300 then None
      else if List.member (auth_refresh p) status then Some AuthRefresh
      else if List.member (terminal p) status then Some Terminal
      else if List.member (retryable p) status \<or> (500 \<le> status \<and> status < 600) then Some Retryable
      else Some (default_disposition p))"

definition should_retry :: "retry_policy \<Rightarrow> u16 \<Rightarrow> bool" where
  "should_retry p status \<longleftrightarrow> classify p status = Some Retryable"

definition policy_server :: retry_policy where
  "policy_server =
     \<lparr>retryable = [429], auth_refresh = [], terminal = [], default_disposition = Terminal\<rparr>"

definition policy_edge_client :: retry_policy where
  "policy_edge_client =
     \<lparr>retryable = [429], auth_refresh = [], terminal = [525, 526], default_disposition = Terminal\<rparr>"

definition policy_client_storage :: retry_policy where
  "policy_client_storage =
     \<lparr>retryable = [], auth_refresh = [401], terminal = [400, 403, 404, 525, 526],
      default_disposition = Retryable\<rparr>"

datatype grpc_code =
    Ok | Cancelled | Unknown | InvalidArgument | DeadlineExceeded | NotFound | AlreadyExists
  | PermissionDenied | ResourceExhausted | FailedPrecondition | Aborted | OutOfRange
  | Unimplemented | Internal | Unavailable | DataLoss | Unauthenticated

record grpc_retry_policy =
  grpc_retryable :: "grpc_code list"

definition grpc_new :: "grpc_code list \<Rightarrow> grpc_retry_policy" where
  "grpc_new codes = \<lparr>grpc_retryable = codes\<rparr>"

definition grpc_DEFAULT :: grpc_retry_policy where
  "grpc_DEFAULT = grpc_new [Unavailable, Unknown]"

definition grpc_PERMISSIVE :: grpc_retry_policy where
  "grpc_PERMISSIVE = grpc_new [Unavailable, Unknown, Internal, DeadlineExceeded]"

definition grpc_is_retryable :: "grpc_retry_policy \<Rightarrow> grpc_code \<Rightarrow> bool" where
  "grpc_is_retryable p c = List.member (grpc_retryable p) c"

definition grpc_classify :: "grpc_retry_policy \<Rightarrow> grpc_code \<Rightarrow> disposition option" where
  "grpc_classify p c =
     (if c = Ok then None
      else if grpc_is_retryable p c then Some Retryable
      else Some Terminal)"

section \<open>Properties\<close>

lemma success_not_5xx: "500 \<le> (s::u16) \<Longrightarrow> \<not> s < 300"
  by unat_arith

text \<open>The three HTTP presets, over every 16-bit status: the server preset retries exactly
  429 and the 5xx codes; the edge-client preset is the server preset without the two origin-TLS
  codes; the storage preset retries everything that is not a success, not 401 and not one of its
  five terminal codes, and asks for a credential refresh on 401 only.\<close>

theorem retry_presets:
  "(should_retry policy_server s \<longleftrightarrow> s = 429 \<or> (500 \<le> s \<and> s < 600))
   \<and> (should_retry policy_edge_client s \<longleftrightarrow>
        should_retry policy_server s \<and> s \<noteq> 525 \<and> s \<noteq> 526)
   \<and> (should_retry policy_client_storage s \<longleftrightarrow>
        \<not> (200 \<le> s \<and> s < 300) \<and> s \<notin> {400, 401, 403, 404, 525, 526})
   \<and> (classify policy_client_storage s = Some AuthRefresh \<longleftrightarrow> s = 401)"
  by (auto simp: should_retry_def classify_def policy_server_def policy_edge_client_def
      policy_client_storage_def dest: success_not_5xx)

text \<open>The gRPC classifier: only \<open>Ok\<close> is not an error, the permissive preset retries
  whatever the default one does and exactly \<open>Internal\<close> and \<open>DeadlineExceeded\<close> besides.\<close>

theorem grpc_presets:
  "(grpc_classify p c = None \<longleftrightarrow> c = Ok)
   \<and> (grpc_classify grpc_DEFAULT c = Some Retryable \<longleftrightarrow> c = Unavailable \<or> c = Unknown)
   \<and> (grpc_classify grpc_PERMISSIVE c = Some Retryable \<longleftrightarrow>
        grpc_classify grpc_DEFAULT c = Some Retryable \<or> c = Internal \<or> c = DeadlineExceeded)"
  by (auto simp: grpc_classify_def grpc_is_retryable_def grpc_DEFAULT_def grpc_PERMISSIVE_def
      grpc_new_def)

end
