(* ===== verification/Apply_Patch.thy ===== *)
theory Apply_Patch
  imports Rust_Strings
begin

text \<open>
  The I/O-free patch engine of \<open>xai-grok-tools/src/implementations/codex/apply_patch\<close>: the
  fuzzy line matcher (\<open>seek_sequence.rs\<close>) and the computation and application of replacements
  (\<open>apply.rs\<close>). Line indices are natural numbers: they are bounded by the length of a vector
  in memory. \<open>Vec::insert\<close> panics past the end, which is the value \<open>None\<close> here.
\<close>

section \<open>The matcher\<close>

definition normalise_char :: "rchar \<Rightarrow> rchar" where
  "normalise_char c =
     (if c \<in> {0x2010, 0x2011, 0x2012, 0x2013, 0x2014, 0x2015, 0x2212} then 45
      else if c \<in> {0x2018, 0x2019, 0x201A, 0x201B} then 39
      else if c \<in> {0x201C, 0x201D, 0x201E, 0x201F} then 34
      else if c \<in> {0x00A0, 0x2002, 0x2003, 0x2004, 0x2005, 0x2006, 0x2007, 0x2008, 0x2009,
                   0x200A, 0x202F, 0x205F, 0x3000} then 32
      else c)"

definition normalise :: "rstring \<Rightarrow> rstring" where
  "normalise s = map normalise_char (trim s)"

text \<open>
  One pass: the inner loop compares the pattern with the lines from \<open>i\<close> on, each side seen
  through \<open>f\<close> (the identity, \<open>trim_end\<close>, \<open>trim\<close> or \<open>normalise\<close>).
\<close>

fun lines_match :: "(rstring \<Rightarrow> rstring) \<Rightarrow> rstring list \<Rightarrow> rstring list \<Rightarrow> bool" where
  "lines_match f ls [] = True"
| "lines_match f [] (p # ps) = False"
| "lines_match f (l # ls) (p # ps) = (if f l \<noteq> f p then False else lines_match f ls ps)"

fun seek_pass :: "(rstring \<Rightarrow> rstring) \<Rightarrow> rstring list \<Rightarrow> rstring list \<Rightarrow> nat list \<Rightarrow> nat option" where
  "seek_pass f ls pat [] = None"
| "seek_pass f ls pat (i # is) =
     (if lines_match f (drop i ls) pat then Some i else seek_pass f ls pat is)"

definition seek_sequence :: "rstring list \<Rightarrow> rstring list \<Rightarrow> nat \<Rightarrow> bool \<Rightarrow> nat option" where
  "seek_sequence ls pattern start eof =
     (if pattern = [] then Some start
      else if length ls < length pattern then None
      else
        let search_start =
              (if eof \<and> length pattern \<le> length ls then length ls - length pattern else start);
            range = [search_start ..< Suc (length ls - length pattern)]
        in case seek_pass (\<lambda>l. l) ls pattern range of
             Some i \<Rightarrow> Some i
           | None \<Rightarrow> (case seek_pass trim_end ls pattern range of
               Some i \<Rightarrow> Some i
             | None \<Rightarrow> (case seek_pass trim ls pattern range of
                 Some i \<Rightarrow> Some i
               | None \<Rightarrow> seek_pass normalise ls pattern range)))"

section \<open>Replacements\<close>

record update_file_chunk =
  change_context :: "rstring option"
  old_lines :: "rstring list"
  new_lines :: "rstring list"
  is_end_of_file :: bool

datatype apply_error = ComputeReplacements rstring

type_synonym replacement = "nat \<times> nat \<times> rstring list"

definition last_is_empty :: "rstring list \<Rightarrow> bool" where
  "last_is_empty xs \<longleftrightarrow> xs \<noteq> [] \<and> last xs = []"

text \<open>The body of the loop over the chunks: the replacement it adds and the next \<open>line_index\<close>.\<close>

definition chunk_replacement ::
    "rstring list \<Rightarrow> rstring \<Rightarrow> update_file_chunk \<Rightarrow> nat \<Rightarrow> apply_error + (replacement \<times> nat)" where
  "chunk_replacement original path chunk line_index0 =
     (case (case change_context chunk of
              None \<Rightarrow> Some line_index0
            | Some ctx_line \<Rightarrow> map_option Suc (seek_sequence original [ctx_line] line_index0 False)) of
        None \<Rightarrow> Inl (ComputeReplacements
          (lit ''Failed to find context '' @ [sq] @ the (change_context chunk) @ [sq] @ lit '' in '' @ path))
      | Some line_index \<Rightarrow>
          if old_lines chunk = [] then
            let insertion_idx =
              (if last_is_empty original then length original - 1 else length original)
            in Inr ((insertion_idx, 0, new_lines chunk), line_index)
          else
            let found = seek_sequence original (old_lines chunk) line_index (is_end_of_file chunk);
                retry = (found = None \<and> last_is_empty (old_lines chunk));
                pattern = (if retry then butlast (old_lines chunk) else old_lines chunk);
                new_slice = (if retry \<and> last_is_empty (new_lines chunk)
                             then butlast (new_lines chunk) else new_lines chunk);
                found' = (if retry
                          then seek_sequence original pattern line_index (is_end_of_file chunk)
                          else found)
            in case found' of
                 Some start_idx \<Rightarrow>
                   Inr ((start_idx, length pattern, new_slice), start_idx + length pattern)
               | None \<Rightarrow> Inl (ComputeReplacements
                   (lit ''Failed to find expected lines in '' @ path @ lit '':'' @ [nl]
                    @ join [nl] (old_lines chunk))))"

fun replacements_loop ::
    "rstring list \<Rightarrow> rstring \<Rightarrow> update_file_chunk list \<Rightarrow> nat \<Rightarrow> apply_error + replacement list" where
  "replacements_loop original path [] line_index = Inr []"
| "replacements_loop original path (chunk # chunks) line_index =
     (case chunk_replacement original path chunk line_index of
        Inl e \<Rightarrow> Inl e
      | Inr (r, line_index') \<Rightarrow>
          (case replacements_loop original path chunks line_index' of
             Inl e \<Rightarrow> Inl e
           | Inr rs \<Rightarrow> Inr (r # rs)))"

text \<open>\<open>sort_by_key\<close> is a stable sort.\<close>

definition compute_replacements ::
    "rstring list \<Rightarrow> rstring \<Rightarrow> update_file_chunk list \<Rightarrow> apply_error + replacement list" where
  "compute_replacements original path chunks =
     (case replacements_loop original path chunks 0 of
        Inl e \<Rightarrow> Inl e
      | Inr rs \<Rightarrow> Inr (sort_key fst rs))"

fun remove_lines :: "nat \<Rightarrow> nat \<Rightarrow> 'a list \<Rightarrow> 'a list" where
  "remove_lines start 0 ls = ls"
| "remove_lines start (Suc n) ls =
     remove_lines start n (if start < length ls then take start ls @ drop (Suc start) ls else ls)"

definition vec_insert :: "nat \<Rightarrow> 'a \<Rightarrow> 'a list \<Rightarrow> 'a list option" where
  "vec_insert i x ls = (if i \<le> length ls then Some (take i ls @ x # drop i ls) else None)"

fun insert_lines :: "nat \<Rightarrow> 'a list \<Rightarrow> 'a list \<Rightarrow> 'a list option" where
  "insert_lines i [] ls = Some ls"
| "insert_lines i (x # xs) ls =
     (case vec_insert i x ls of None \<Rightarrow> None | Some ls' \<Rightarrow> insert_lines (Suc i) xs ls')"

fun apply_replacements_rev :: "'a list \<Rightarrow> (nat \<times> nat \<times> 'a list) list \<Rightarrow> 'a list option" where
  "apply_replacements_rev ls [] = Some ls"
| "apply_replacements_rev ls ((start_idx, old_len, new_segment) # rs) =
     (case insert_lines start_idx new_segment (remove_lines start_idx old_len ls) of
        None \<Rightarrow> None
      | Some ls' \<Rightarrow> apply_replacements_rev ls' rs)"

definition apply_replacements :: "'a list \<Rightarrow> (nat \<times> nat \<times> 'a list) list \<Rightarrow> 'a list option" where
  "apply_replacements ls rs = apply_replacements_rev ls (rev rs)"

definition original_lines_of :: "rstring \<Rightarrow> rstring list" where
  "original_lines_of content =
     (let split = split_on nl content in if last_is_empty split then butlast split else split)"

definition text_of_lines :: "rstring list \<Rightarrow> rstring" where
  "text_of_lines ls = join [nl] (if last_is_empty ls then ls else ls @ [[]])"

text \<open>\<open>Inr None\<close> is a panic.\<close>

definition derive_new_contents ::
    "rstring \<Rightarrow> rstring \<Rightarrow> update_file_chunk list \<Rightarrow> apply_error + rstring option" where
  "derive_new_contents original_content path chunks =
     (let original = original_lines_of original_content
      in case compute_replacements original path chunks of
           Inl e \<Rightarrow> Inl e
         | Inr replacements \<Rightarrow>
             Inr (map_option text_of_lines (apply_replacements original replacements)))"

section \<open>What the matcher finds\<close>

lemma lines_match_iff:
  "lines_match f ls ps \<longleftrightarrow> length ps \<le> length ls \<and> map f (take (length ps) ls) = map f ps"
  by (induction f ls ps rule: lines_match.induct) auto

lemma seek_pass_Some:
  "seek_pass f ls pat is = Some i \<Longrightarrow> i \<in> set is \<and> lines_match f (drop i ls) pat"
  by (induction "is") (auto split: if_splits)

lemma seek_pass_None_iff:
  "seek_pass f ls pat is = None \<longleftrightarrow> (\<forall>i \<in> set is. \<not> lines_match f (drop i ls) pat)"
  by (induction "is") auto

lemma seek_pass_first:
  "sorted is \<Longrightarrow> seek_pass f ls pat is = Some i \<Longrightarrow> j \<in> set is
     \<Longrightarrow> lines_match f (drop j ls) pat \<Longrightarrow> i \<le> j"
  by (induction "is") (auto split: if_splits)

lemma dropWhile_snoc:
  "dropWhile P (ys @ [x]) =
     (if \<forall>y \<in> set ys. P y then (if P x then [] else [x]) else dropWhile P ys @ [x])"
  by (induction ys) auto

lemma dropWhile_rev_commute:
  "rev (dropWhile P (rev (dropWhile P s))) = dropWhile P (rev (dropWhile P (rev s)))"
proof (induction s)
  case (Cons x xs)
  have all: "\<forall>y \<in> set xs. P y \<Longrightarrow> dropWhile P (rev xs) = []" by simp
  show ?case
    using Cons.IH all by (cases "P x") (auto simp: dropWhile_snoc dest: set_dropWhileD)
qed simp

lemma trim_via_trim_end: "trim s = trim_start (trim_end s)"
  by (simp add: trim_def trim_start_def trim_end_def dropWhile_rev_commute)

text \<open>Each pass accepts whatever the stricter ones accept.\<close>

lemma trim_end_eq_trim: "trim_end x = trim_end y \<Longrightarrow> trim x = trim y"
  by (simp add: trim_via_trim_end)

lemma trim_eq_normalise: "trim x = trim y \<Longrightarrow> normalise x = normalise y"
  by (simp add: normalise_def)

lemma lines_match_mono:
  "lines_match f ls ps \<Longrightarrow> (\<And>x y. f x = f y \<Longrightarrow> g x = g y) \<Longrightarrow> lines_match g ls ps"
proof (induction f ls ps rule: lines_match.induct)
  case (3 f l ls p ps)
  from "3.prems"(1) have fl: "f l = f p" and m: "lines_match f ls ps"
    by (simp_all split: if_splits)
  have "g l = g p" by (rule "3.prems"(2)) (rule fl)
  moreover have "lines_match g ls ps" using "3.IH" fl m "3.prems"(2) by blast
  ultimately show ?case by simp
qed simp_all

lemma seek_pass_normalise:
  assumes "seek_pass f ls pat is = Some i" "\<And>x y. f x = f y \<Longrightarrow> normalise x = normalise y"
  shows "i \<in> set is \<and> lines_match normalise (drop i ls) pat"
proof -
  have "lines_match f (drop i ls) pat" using seek_pass_Some [OF assms(1)] by simp
  then have "lines_match normalise (drop i ls) pat" by (rule lines_match_mono) (rule assms(2))
  then show ?thesis using seek_pass_Some [OF assms(1)] by simp
qed

lemma seek_sequence_Some:
  assumes "seek_sequence ls pat start eof = Some i" "pat \<noteq> []"
  shows "lines_match normalise (drop i ls) pat" "i + length pat \<le> length ls"
    "if eof then i = length ls - length pat else start \<le> i"
proof -
  let ?r = "[if eof then length ls - length pat else start ..< Suc (length ls - length pat)]"
  have len: "length pat \<le> length ls"
    using assms by (cases "length ls < length pat") (simp_all add: seek_sequence_def)
  then have "seek_pass (\<lambda>l. l) ls pat ?r = Some i \<or> seek_pass trim_end ls pat ?r = Some i
      \<or> seek_pass trim ls pat ?r = Some i \<or> seek_pass normalise ls pat ?r = Some i"
    using assms by (cases eof)
      (auto simp: seek_sequence_def Let_def option_else_Some_iff simp del: upt_Suc seek_pass.simps)
  then have "i \<in> set ?r \<and> lines_match normalise (drop i ls) pat"
    by (elim disjE)
      (erule seek_pass_normalise; blast intro: trim_eq_normalise trim_end_eq_trim)+
  then show "lines_match normalise (drop i ls) pat" "i + length pat \<le> length ls"
    "if eof then i = length ls - length pat else start \<le> i"
    using len by (auto split: if_splits)
qed

lemma match_in_range:
  assumes "lines_match f (drop j ls) pat" "pat \<noteq> []" "start \<le> j"
  shows "j \<in> set [start ..< Suc (length ls - length pat)]" "length pat \<le> length ls"
proof -
  have "length pat \<le> length ls - j" "0 < length pat" using assms by (simp_all add: lines_match_iff)
  then have "j \<le> length ls - length pat" "length pat \<le> length ls" by arith+
  then show "j \<in> set [start ..< Suc (length ls - length pat)]" "length pat \<le> length ls"
    using assms(3) by (simp_all del: upt_Suc)
qed

lemma seek_sequence_None:
  assumes "seek_sequence ls pat start False = None" "start \<le> j"
  shows "\<not> lines_match normalise (drop j ls) pat"
proof
  assume m: "lines_match normalise (drop j ls) pat"
  have pat: "pat \<noteq> []" using assms by (auto simp: seek_sequence_def)
  note r = match_in_range [OF m pat assms(2)]
  have "seek_pass normalise ls pat [start ..< Suc (length ls - length pat)] = None"
    using assms(1) pat r(2) by (simp add: seek_sequence_def Let_def option_else_None_iff del: upt_Suc)
  then show False using m r(1) seek_pass_None_iff by blast
qed

lemma seek_sequence_exact:
  assumes "pat \<noteq> []" "start \<le> j" "lines_match (\<lambda>l. l) (drop j ls) pat"
  shows "\<exists>i \<le> j. seek_sequence ls pat start False = Some i \<and> start \<le> i
    \<and> take (length pat) (drop i ls) = pat"
proof -
  let ?r = "[start ..< Suc (length ls - length pat)]"
  note r = match_in_range [OF assms(3,1,2)]
  obtain i where i: "seek_pass (\<lambda>l. l) ls pat ?r = Some i"
    using r(1) assms(3) seek_pass_None_iff by (metis option.exhaust)
  have "i \<le> j" using seek_pass_first [OF _ i r(1) assms(3)] by (simp del: upt_Suc)
  moreover have "start \<le> i" "take (length pat) (drop i ls) = pat"
    using seek_pass_Some [OF i] by (auto simp: lines_match_iff simp del: upt_Suc)
  moreover have "seek_sequence ls pat start False = Some i"
    using i r(2) assms(1) by (simp add: seek_sequence_def Let_def del: upt_Suc)
  ultimately show ?thesis by blast
qed

section \<open>Applying replacements\<close>

text \<open>Reference: copy the lines between the replaced segments, in one pass from the front.\<close>

fun splice_ranges :: "nat \<Rightarrow> 'a list \<Rightarrow> (nat \<times> nat \<times> 'a list) list \<Rightarrow> 'a list" where
  "splice_ranges pos ls [] = ls"
| "splice_ranges pos ls ((s, n, new) # rs) =
     take (s - pos) ls @ new @ splice_ranges (s + n) (drop (s - pos + n) ls) rs"

fun ordered_from :: "nat \<Rightarrow> nat \<Rightarrow> (nat \<times> nat \<times> 'a list) list \<Rightarrow> bool" where
  "ordered_from pos len [] = (pos \<le> len)"
| "ordered_from pos len ((s, n, new) # rs) = (pos \<le> s \<and> ordered_from (s + n) len rs)"

lemma ordered_from_le: "ordered_from pos len rs \<Longrightarrow> pos \<le> len"
  by (induction pos len rs rule: ordered_from.induct) auto

lemma remove_lines_eq:
  "length a = s \<Longrightarrow> length b = n \<Longrightarrow> remove_lines s n (a @ b @ c) = a @ c"
proof (induction n arbitrary: b)
  case (Suc n)
  then obtain x b' where "b = x # b'" by (cases b) auto
  with Suc show ?case by simp
qed simp

lemma insert_lines_eq: "length a = s \<Longrightarrow> insert_lines s xs (a @ c) = Some (a @ xs @ c)"
proof (induction xs arbitrary: s a)
  case (Cons x xs)
  then show ?case using Cons.IH [of "a @ [x]" "Suc s"] by (simp add: vec_insert_def)
qed simp

lemma apply_rev_append:
  "apply_replacements_rev ls (xs @ ys) =
     Option.bind (apply_replacements_rev ls xs) (\<lambda>ls'. apply_replacements_rev ls' ys)"
  by (induction ls xs rule: apply_replacements_rev.induct) (auto split: option.splits)

lemma apply_replacements_splice:
  "ordered_from pos (length ls) rs \<Longrightarrow>
     apply_replacements ls rs = Some (take pos ls @ splice_ranges pos (drop pos ls) rs)"
proof (induction rs arbitrary: pos)
  case (Cons r rs)
  obtain s n new where r: "r = (s, n, new)" by (cases r)
  let ?X = "splice_ranges (s + n) (drop (s + n) ls) rs"
  have ord: "pos \<le> s" "ordered_from (s + n) (length ls) rs" using Cons.prems r by auto
  have le: "s + n \<le> length ls" using ordered_from_le [OF ord(2)] .
  have "apply_replacements ls rs = Some (take (s + n) ls @ ?X)" by (rule Cons.IH [OF ord(2)])
  then have IH: "apply_replacements_rev ls (rev rs) = Some (take s ls @ take n (drop s ls) @ ?X)"
    by (simp add: apply_replacements_def take_add)
  have "remove_lines s n (take s ls @ take n (drop s ls) @ ?X) = take s ls @ ?X"
    using le by (intro remove_lines_eq) auto
  moreover have "insert_lines s new (take s ls @ ?X) = Some (take s ls @ new @ ?X)"
    using le by (intro insert_lines_eq) auto
  ultimately have "apply_replacements ls (r # rs) = Some (take s ls @ new @ ?X)"
    by (simp add: apply_replacements_def apply_rev_append IH r)
  moreover have "take s ls = take pos ls @ take (s - pos) (drop pos ls)"
    using ord(1) by (metis le_add_diff_inverse take_add)
  ultimately show ?case using ord(1) by (simp add: r add.commute)
qed (simp add: apply_replacements_def)

lemma remove_lines_length: "s \<le> length ls \<Longrightarrow> s \<le> length (remove_lines s n ls)"
  by (induction n arbitrary: ls) auto

lemma insert_lines_Some:
  "s \<le> length ls \<Longrightarrow> \<exists>ls'. insert_lines s xs ls = Some ls' \<and> s \<le> length ls'"
proof -
  assume "s \<le> length ls"
  then have "insert_lines s xs (take s ls @ drop s ls) = Some (take s ls @ xs @ drop s ls)"
    by (intro insert_lines_eq) simp
  then show ?thesis using \<open>s \<le> length ls\<close> by (intro exI [of _ "take s ls @ xs @ drop s ls"]) simp
qed

lemma apply_rev_no_panic:
  "sorted (rev (map fst rs)) \<Longrightarrow> \<forall>r \<in> set rs. fst r \<le> length ls
     \<Longrightarrow> \<exists>ls'. apply_replacements_rev ls rs = Some ls'"
proof (induction rs arbitrary: ls)
  case (Cons r rs)
  obtain s n new where r: "r = (s, n, new)" by (cases r)
  have "s \<le> length (remove_lines s n ls)" using Cons.prems r remove_lines_length by auto
  then obtain ls1 where ls1: "insert_lines s new (remove_lines s n ls) = Some ls1" "s \<le> length ls1"
    using insert_lines_Some by blast
  have "\<forall>r \<in> set rs. fst r \<le> s" using Cons.prems(1) r by (auto simp: sorted_append)
  then have "\<forall>r \<in> set rs. fst r \<le> length ls1" using ls1(2) by auto
  moreover have "sorted (rev (map fst rs))" using Cons.prems(1) by (simp add: sorted_append)
  ultimately obtain ls2 where "apply_replacements_rev ls1 rs = Some ls2" using Cons.IH by blast
  then show ?case using ls1(1) r by simp
qed simp

section \<open>Computing replacements\<close>

text \<open>A chunk that names the lines it replaces and is not pinned to the end of the file.\<close>

definition located :: "update_file_chunk \<Rightarrow> bool" where
  "located c \<longleftrightarrow> old_lines c \<noteq> [] \<and> \<not> is_end_of_file c"

text \<open>
  What a replacement owes its chunk: the lines it removes agree with the chunk's old lines up to
  the matcher's normalisation, possibly without a trailing empty line on both sides.
\<close>

definition answers :: "rstring list \<Rightarrow> update_file_chunk \<Rightarrow> replacement \<Rightarrow> bool" where
  "answers original c r \<longleftrightarrow>
     (case r of (s, n, new) \<Rightarrow>
       (\<exists>pat. (pat = old_lines c \<and> new = new_lines c
               \<or> old_lines c = pat @ [[]] \<and> (new = new_lines c \<or> new_lines c = new @ [[]]))
             \<and> n = length pat \<and> lines_match normalise (drop s original) pat))"

lemma seek_sequence_Nil [simp]: "seek_sequence ls [] start eof = Some start"
  by (simp add: seek_sequence_def)

lemma seek_sequence_bound:
  "seek_sequence ls pat start eof = Some i \<Longrightarrow> start \<le> length ls \<Longrightarrow> i + length pat \<le> length ls"
  by (cases "pat = []") (auto dest: seek_sequence_Some(2))

lemma seek_sequence_start:
  "seek_sequence ls pat start False = Some i \<Longrightarrow> start \<le> i"
  by (cases "pat = []") (auto dest: seek_sequence_Some(3))

lemma seek_sequence_match:
  "seek_sequence ls pat start eof = Some i \<Longrightarrow> lines_match normalise (drop i ls) pat"
  by (cases "pat = []") (auto dest: seek_sequence_Some(1))

lemma context_index:
  assumes "(case change_context c of None \<Rightarrow> Some li
      | Some ctx \<Rightarrow> map_option Suc (seek_sequence original [ctx] li False)) = Some li'"
    and "li \<le> length original"
  shows "li \<le> li'" "li' \<le> length original"
  using assms seek_sequence_start seek_sequence_bound
  by (fastforce split: option.splits)+

lemma last_is_empty_snoc: "last_is_empty xs \<Longrightarrow> xs = butlast xs @ [[]]"
  unfolding last_is_empty_def by (metis append_butlast_last_id)

lemma chunk_replacement_bound:
  assumes "chunk_replacement original path c li = Inr ((s, n, new), li')" "li \<le> length original"
  shows "s \<le> length original" "li' \<le> length original"
proof -
  obtain k where k: "(case change_context c of None \<Rightarrow> Some li
      | Some ctx \<Rightarrow> map_option Suc (seek_sequence original [ctx] li False)) = Some k"
    using assms(1) by (cases "change_context c") (auto simp: chunk_replacement_def split: option.splits)
  note kb = context_index(2) [OF k assms(2)]
  have "s + n \<le> length original \<and> li' \<le> length original"
    using assms(1) kb unfolding chunk_replacement_def k
    by (auto simp: Let_def split: if_splits option.splits dest: seek_sequence_bound)
  then show "s \<le> length original" "li' \<le> length original" by auto
qed

lemma chunk_replacement_located:
  assumes "chunk_replacement original path c li = Inr ((s, n, new), li')" "li \<le> length original"
    and "located c"
  shows "li \<le> s" "li' = s + n" "answers original c (s, n, new)"
proof -
  obtain k where k: "(case change_context c of None \<Rightarrow> Some li
      | Some ctx \<Rightarrow> map_option Suc (seek_sequence original [ctx] li False)) = Some k"
    using assms(1) by (cases "change_context c") (auto simp: chunk_replacement_def split: option.splits)
  note kb = context_index(1) [OF k assms(2)]
  show "li \<le> s" "li' = s + n" "answers original c (s, n, new)"
    using assms(1,3) kb unfolding chunk_replacement_def k located_def answers_def
    by (auto simp: Let_def last_is_empty_snoc split: if_splits option.splits
        dest!: last_is_empty_snoc dest: seek_sequence_start seek_sequence_match)
qed

lemma replacements_loop_bound:
  "replacements_loop original path cs li = Inr rs \<Longrightarrow> li \<le> length original
     \<Longrightarrow> \<forall>r \<in> set rs. fst r \<le> length original"
proof (induction cs arbitrary: li rs)
  case (Cons c cs)
  then obtain s n new li' rs' where
    "chunk_replacement original path c li = Inr ((s, n, new), li')"
    "replacements_loop original path cs li' = Inr rs'" "rs = (s, n, new) # rs'"
    by (auto split: sum.splits prod.splits)
  then show ?case using Cons.IH [of li' rs'] chunk_replacement_bound Cons.prems(2) by auto
qed simp

lemma replacements_loop_located:
  "replacements_loop original path cs li = Inr rs \<Longrightarrow> li \<le> length original
     \<Longrightarrow> list_all located cs
     \<Longrightarrow> ordered_from li (length original) rs \<and> list_all2 (answers original) cs rs"
proof (induction cs arbitrary: li rs)
  case (Cons c cs)
  then obtain s n new li' rs' where
    c: "chunk_replacement original path c li = Inr ((s, n, new), li')" and
    "replacements_loop original path cs li' = Inr rs'" "rs = (s, n, new) # rs'"
    by (auto split: sum.splits prod.splits)
  moreover have "located c" using Cons.prems by simp
  ultimately show ?case
    using Cons.IH [of li' rs'] Cons.prems chunk_replacement_bound(2) [OF c]
      chunk_replacement_located [OF c] by auto
qed simp

lemma ordered_from_sorted: "ordered_from pos len rs \<Longrightarrow> sorted (map fst rs) \<and> (\<forall>r \<in> set rs. pos \<le> fst r)"
  by (induction pos len rs rule: ordered_from.induct) auto

section \<open>Properties\<close>

text \<open>The fuzzy matcher is sound, ordered and prefers exact matches: a match it returns
  lies within the file, at or after the start, and agrees with the pattern line by line up to
  normalisation; if the pattern occurs verbatim at or after the start, the match is verbatim and
  no later than that occurrence; and it returns nothing only when no normalised match exists.\<close>

theorem seek_sequence_correct:
  assumes "pat \<noteq> []"
  shows "(\<forall>i. seek_sequence ls pat start False = Some i \<longrightarrow>
            start \<le> i \<and> i + length pat \<le> length ls
            \<and> map normalise (take (length pat) (drop i ls)) = map normalise pat)
    \<and> (\<forall>j \<ge> start. take (length pat) (drop j ls) = pat \<longrightarrow>
          (\<exists>i \<le> j. seek_sequence ls pat start False = Some i
             \<and> take (length pat) (drop i ls) = pat))
    \<and> (seek_sequence ls pat start False = None \<longleftrightarrow>
         (\<forall>j \<ge> start. \<not> lines_match normalise (drop j ls) pat))"
proof (intro conjI allI impI)
  fix i assume "seek_sequence ls pat start False = Some i"
  note s = seek_sequence_Some [OF this assms]
  show "start \<le> i" "i + length pat \<le> length ls"
    "map normalise (take (length pat) (drop i ls)) = map normalise pat"
    using s by (auto simp: lines_match_iff)
next
  fix j assume "start \<le> j" and t: "take (length pat) (drop j ls) = pat"
  have "length pat \<le> length (drop j ls)" using t by (metis length_take min.cobounded1 min.commute)
  then have "lines_match (\<lambda>l. l) (drop j ls) pat" using t by (simp add: lines_match_iff)
  then show "\<exists>i \<le> j. seek_sequence ls pat start False = Some i \<and> take (length pat) (drop i ls) = pat"
    using seek_sequence_exact [OF assms \<open>start \<le> j\<close>] by blast
next
  show "seek_sequence ls pat start False = None \<longleftrightarrow>
      (\<forall>j \<ge> start. \<not> lines_match normalise (drop j ls) pat)"
    using seek_sequence_None [of ls pat start] seek_sequence_Some(1,3) [OF _ assms, of ls start False]
    by (cases "seek_sequence ls pat start False") auto
qed

theorem seek_sequence_correct_witness:
  "seek_sequence [lit ''a '', lit ''b'', lit ''a''] [lit ''a''] 0 False = Some 2
   \<and> map normalise (take 1 (drop 2 [lit ''a '', lit ''b'', lit ''a''])) = map normalise [lit ''a'']"
proof -
  have "seek_sequence [lit ''a '', lit ''b'', lit ''a''] [lit ''a''] 0 False = Some 2"
    by (simp add: seek_sequence_def Let_def upt_rec)
  then show ?thesis
    using seek_sequence_correct [of "[lit ''a'']" "[lit ''a '', lit ''b'', lit ''a'']" 0] by auto
qed

text \<open>With the end-of-file flag the matcher looks at one position only, the last
  \<open>length pat\<close> lines, whatever the start: it never falls back to a search from the start.\<close>

theorem seek_sequence_eof:
  assumes "pat \<noteq> []"
  shows "seek_sequence ls pat start True =
    (if length pat \<le> length ls \<and> lines_match normalise (drop (length ls - length pat) ls) pat
     then Some (length ls - length pat) else None)"
proof (cases "seek_sequence ls pat start True")
  case (Some i)
  then show ?thesis using seek_sequence_Some [OF Some assms] by auto
next
  case None
  show ?thesis
  proof (cases "length pat \<le> length ls")
    case True
    then have "seek_pass normalise ls pat [length ls - length pat ..< Suc (length ls - length pat)] = None"
      using None assms by (simp add: seek_sequence_def Let_def option_else_None_iff)
    then show ?thesis
      using None by (simp add: seek_pass_None_iff del: seek_pass.simps)
  qed (use None in simp)
qed

theorem seek_sequence_eof_witness:
  "seek_sequence [lit ''a'', lit ''b''] [lit ''a''] 0 True = None
   \<and> seek_sequence [lit ''a'', lit ''b''] [lit ''a''] 0 False = Some 0"
  using seek_sequence_eof [of "[lit ''a'']" "[lit ''a'', lit ''b'']" 0]
  by (simp add: seek_sequence_def Let_def upt_rec normalise_def trim_def trim_start_def trim_end_def
      is_whitespace_def normalise_char_def)

text \<open>C17. Applying sorted, non-overlapping, in-range replacements back to front with removals
  and insertions gives the same lines as copying front to back around them.\<close>

theorem apply_replacements_reference:
  assumes "ordered_from 0 (length ls) rs"
  shows "apply_replacements ls rs = Some (splice_ranges 0 ls rs)"
  using apply_replacements_splice [OF assms] by simp

theorem apply_replacements_reference_witness:
  "apply_replacements [1, 2, 3, 4, 5::nat] [(1, 2, [20]), (4, 1, [50, 60])] = Some [1, 20, 4, 50, 60]"
  using apply_replacements_reference [of "[1, 2, 3, 4, 5::nat]" "[(1, 2, [20]), (4, 1, [50, 60])]"]
  by (simp add: numeral_eq_Suc)

text \<open>\<open>derive_new_contents\<close> never panics: the insertion index is within the vector for
  every file, path and list of chunks.\<close>

theorem derive_never_panics: "derive_new_contents content path chunks \<noteq> Inr None"
proof
  let ?o = "original_lines_of content"
  assume "derive_new_contents content path chunks = Inr None"
  then obtain rs where rs: "replacements_loop ?o path chunks 0 = Inr rs"
    and none: "apply_replacements ?o (sort_key fst rs) = None"
    by (auto simp: derive_new_contents_def compute_replacements_def Let_def split: sum.splits)
  have "\<forall>r \<in> set (rev (sort_key fst rs)). fst r \<le> length ?o"
    using replacements_loop_bound [OF rs] by simp
  moreover have "sorted (rev (map fst (rev (sort_key fst rs))))" by (simp add: rev_map)
  ultimately show False
    using apply_rev_no_panic none unfolding apply_replacements_def by fastforce
qed

text \<open>C18. A patch all of whose chunks name the lines they replace, none pinned to the end of the
  file, is applied faithfully: the replacements answer the chunks in order, do not overlap, and
  the new text is the original with exactly those segments exchanged.\<close>

theorem derive_located:
  assumes "list_all located chunks" "derive_new_contents content path chunks = Inr res"
  shows "\<exists>rs. list_all2 (answers (original_lines_of content)) chunks rs
    \<and> ordered_from 0 (length (original_lines_of content)) rs
    \<and> res = Some (text_of_lines (splice_ranges 0 (original_lines_of content) rs))"
proof -
  let ?o = "original_lines_of content"
  obtain rs where rs: "replacements_loop ?o path chunks 0 = Inr rs"
    and res: "res = map_option text_of_lines (apply_replacements ?o (sort_key fst rs))"
    using assms(2)
    by (auto simp: derive_new_contents_def compute_replacements_def Let_def split: sum.splits)
  have ord: "ordered_from 0 (length ?o) rs" "list_all2 (answers ?o) chunks rs"
    using replacements_loop_located [OF rs _ assms(1)] by auto
  then have "sort_key fst rs = rs" by (simp add: ordered_from_sorted sort_key_id_if_sorted)
  then have "res = Some (text_of_lines (splice_ranges 0 ?o rs))"
    using res apply_replacements_splice [OF ord(1)] by simp
  then show ?thesis using ord by blast
qed

theorem derive_located_witness:
  "\<exists>rs. list_all2 (answers [lit ''a'', lit ''b''])
      [\<lparr>change_context = None, old_lines = [lit ''b''], new_lines = [lit ''c''], is_end_of_file = False\<rparr>] rs
    \<and> ordered_from 0 2 rs
    \<and> Some (lit ''a'' @ [nl] @ lit ''c'' @ [nl]) = Some (text_of_lines (splice_ranges 0 [lit ''a'', lit ''b''] rs))"
proof -
  let ?c = "\<lparr>change_context = None, old_lines = [lit ''b''], new_lines = [lit ''c''], is_end_of_file = False\<rparr>"
  let ?t = "lit ''a'' @ [nl] @ lit ''b'' @ [nl]"
  have o: "original_lines_of ?t = [lit ''a'', lit ''b'']"
    by (simp add: original_lines_of_def last_is_empty_def)
  have "derive_new_contents ?t [] [?c] = Inr (Some (lit ''a'' @ [nl] @ lit ''c'' @ [nl]))"
    unfolding derive_new_contents_def o
    by (simp add: compute_replacements_def chunk_replacement_def seek_sequence_def Let_def upt_rec
        apply_replacements_def vec_insert_def text_of_lines_def last_is_empty_def)
  moreover have "list_all located [?c]" by (simp add: located_def)
  ultimately show ?thesis using derive_located [of "[?c]" ?t "[]"] unfolding o by (simp add: numeral_2_eq_2)
qed

text \<open>Without that condition replacements may overlap: removing the last two lines of the
  file \<open>a\<close>, empty line, and appending \<open>x\<close> in one patch loses the appended line, because the
  insertion point before a final empty line lies inside the removed segment.\<close>

theorem pure_addition_lost:
  "derive_new_contents (lit ''a'' @ [nl, nl]) path
     [\<lparr>change_context = None, old_lines = [lit ''a'', []], new_lines = [], is_end_of_file = False\<rparr>,
      \<lparr>change_context = None, old_lines = [], new_lines = [lit ''x''], is_end_of_file = False\<rparr>]
   = Inr (Some [])"
  by (simp add: derive_new_contents_def original_lines_of_def compute_replacements_def
      chunk_replacement_def seek_sequence_def Let_def upt_rec apply_replacements_def vec_insert_def
      text_of_lines_def last_is_empty_def)

end
