(* ===== verification/Patch_Parser.thy ===== *)
theory Patch_Parser
  imports Apply_Patch
begin

text \<open>
  The patch parser of \<open>codex/apply_patch/parser.rs\<close>, with its errors (\<open>errors.rs\<close>). The parser
  works on the lines of the trimmed text; every loop is a recursive function whose termination
  rests on the number of lines each step consumes. Error messages are modelled in full.
\<close>

definition BEGIN_PATCH_MARKER :: rstring where "BEGIN_PATCH_MARKER = lit ''*** Begin Patch''"
definition END_PATCH_MARKER :: rstring where "END_PATCH_MARKER = lit ''*** End Patch''"
definition ADD_FILE_MARKER :: rstring where "ADD_FILE_MARKER = lit ''*** Add File: ''"
definition DELETE_FILE_MARKER :: rstring where "DELETE_FILE_MARKER = lit ''*** Delete File: ''"
definition UPDATE_FILE_MARKER :: rstring where "UPDATE_FILE_MARKER = lit ''*** Update File: ''"
definition MOVE_TO_MARKER :: rstring where "MOVE_TO_MARKER = lit ''*** Move to: ''"
definition EOF_MARKER :: rstring where "EOF_MARKER = lit ''*** End of File''"
definition CHANGE_CONTEXT_MARKER :: rstring where "CHANGE_CONTEXT_MARKER = lit ''@@ ''"
definition EMPTY_CHANGE_CONTEXT_MARKER :: rstring where "EMPTY_CHANGE_CONTEXT_MARKER = lit ''@@''"

definition PARSE_IN_STRICT_MODE :: bool where
  "PARSE_IN_STRICT_MODE = False"

datatype parse_error =
    InvalidPatchError rstring
  | InvalidHunkError rstring nat

datatype hunk =
    AddFile rstring rstring
  | DeleteFile rstring
  | UpdateFile rstring "rstring option" "update_file_chunk list"

record parsed_patch =
  hunks :: "hunk list"
  patch :: rstring

datatype parse_mode = Strict | Lenient

abbreviation quoted :: "rstring \<Rightarrow> rstring" where
  "quoted s \<equiv> [sq] @ s @ [sq]"

definition check_start_and_end_lines_strict ::
    "rstring option \<Rightarrow> rstring option \<Rightarrow> parse_error + unit" where
  "check_start_and_end_lines_strict first_line last_line =
     (case (map_option trim first_line, map_option trim last_line) of
        (Some f, Some l) \<Rightarrow>
          if f = BEGIN_PATCH_MARKER \<and> l = END_PATCH_MARKER then Inr ()
          else if f \<noteq> BEGIN_PATCH_MARKER
          then Inl (InvalidPatchError
            (lit ''The first line of the patch must be '' @ quoted (lit ''*** Begin Patch'')))
          else Inl (InvalidPatchError
            (lit ''The last line of the patch must be '' @ quoted (lit ''*** End Patch'')))
      | (Some f, None) \<Rightarrow>
          if f \<noteq> BEGIN_PATCH_MARKER
          then Inl (InvalidPatchError
            (lit ''The first line of the patch must be '' @ quoted (lit ''*** Begin Patch'')))
          else Inl (InvalidPatchError
            (lit ''The last line of the patch must be '' @ quoted (lit ''*** End Patch'')))
      | (None, _) \<Rightarrow> Inl (InvalidPatchError
            (lit ''The last line of the patch must be '' @ quoted (lit ''*** End Patch''))))"

definition check_patch_boundaries_strict :: "rstring list \<Rightarrow> parse_error + unit" where
  "check_patch_boundaries_strict ls =
     (case ls of
        [] \<Rightarrow> check_start_and_end_lines_strict None None
      | [f] \<Rightarrow> check_start_and_end_lines_strict (Some f) (Some f)
      | f # g # rest \<Rightarrow> check_start_and_end_lines_strict (Some f) (Some (last (g # rest))))"

definition check_patch_boundaries_lenient ::
    "rstring list \<Rightarrow> parse_error \<Rightarrow> parse_error + rstring list" where
  "check_patch_boundaries_lenient original_lines original_parse_error =
     (case original_lines of
        f # g # rest \<Rightarrow>
          let l = last (g # rest); inner = butlast (g # rest)
          in if (f = lit ''<<EOF'' \<or> f = lit ''<<'' @ quoted (lit ''EOF'')
                  \<or> f = lit ''<<'' @ [dq] @ lit ''EOF'' @ [dq])
                \<and> ends_with l (lit ''EOF'') \<and> 4 \<le> length original_lines
             then (case check_patch_boundaries_strict inner of Inr _ \<Rightarrow> Inr inner | Inl e \<Rightarrow> Inl e)
             else Inl original_parse_error
      | _ \<Rightarrow> Inl original_parse_error)"

section \<open>Chunks\<close>

definition no_lines_error :: "nat \<Rightarrow> parse_error" where
  "no_lines_error n = InvalidHunkError (lit ''Update hunk does not contain any lines'') n"

text \<open>The loop over the lines of a chunk; \<open>Inr\<close> holds the chunk and \<open>parsed_lines\<close>.\<close>

fun chunk_lines_loop ::
    "nat \<Rightarrow> rstring list \<Rightarrow> update_file_chunk \<Rightarrow> nat \<Rightarrow> parse_error + (update_file_chunk \<times> nat)" where
  "chunk_lines_loop line_number [] chunk parsed = Inr (chunk, parsed)"
| "chunk_lines_loop line_number (line # rest) chunk parsed =
     (if line = EOF_MARKER then
        if parsed = 0 then Inl (no_lines_error (line_number + 1))
        else Inr (chunk\<lparr>is_end_of_file := True\<rparr>, parsed + 1)
      else case line of
          [] \<Rightarrow> chunk_lines_loop line_number rest
                 (chunk\<lparr>old_lines := old_lines chunk @ [[]], new_lines := new_lines chunk @ [[]]\<rparr>)
                 (parsed + 1)
        | c # cs \<Rightarrow>
            if c = 32 then chunk_lines_loop line_number rest
                 (chunk\<lparr>old_lines := old_lines chunk @ [cs], new_lines := new_lines chunk @ [cs]\<rparr>)
                 (parsed + 1)
            else if c = 43 then chunk_lines_loop line_number rest
                 (chunk\<lparr>new_lines := new_lines chunk @ [cs]\<rparr>) (parsed + 1)
            else if c = 45 then chunk_lines_loop line_number rest
                 (chunk\<lparr>old_lines := old_lines chunk @ [cs]\<rparr>) (parsed + 1)
            else if parsed = 0 then Inl (InvalidHunkError
                 (lit ''Unexpected line found in update hunk: '' @ quoted line
                  @ lit ''. Every line should start with '' @ quoted (lit '' '')
                  @ lit '' (context line), '' @ quoted (lit ''+'') @ lit '' (added line), or ''
                  @ quoted (lit ''-'') @ lit '' (removed line)'') (line_number + 1))
            else Inr (chunk, parsed))"

definition parse_update_file_chunk ::
    "rstring list \<Rightarrow> nat \<Rightarrow> bool \<Rightarrow> parse_error + (update_file_chunk \<times> nat)" where
  "parse_update_file_chunk ls line_number allow_missing_context =
     (case ls of
        [] \<Rightarrow> Inl (no_lines_error line_number)
      | f # _ \<Rightarrow>
          (case (if f = EMPTY_CHANGE_CONTEXT_MARKER then Inr (None, 1)
                 else case strip_prefix CHANGE_CONTEXT_MARKER f of
                     Some context \<Rightarrow> Inr (Some context, 1)
                   | None \<Rightarrow>
                       if \<not> allow_missing_context then Inl (InvalidHunkError
                         (lit ''Expected update hunk to start with a @@ context marker, got: ''
                          @ quoted f) line_number)
                       else Inr (None, 0)) of
             Inl e \<Rightarrow> Inl e
           | Inr (context, start_index) \<Rightarrow>
               if length ls \<le> start_index then Inl (no_lines_error (line_number + 1))
               else (case chunk_lines_loop line_number (drop start_index ls)
                            \<lparr>change_context = context, old_lines = [], new_lines = [],
                             is_end_of_file = False\<rparr> 0 of
                       Inl e \<Rightarrow> Inl e
                     | Inr (chunk, parsed) \<Rightarrow> Inr (chunk, parsed + start_index))))"

lemma chunk_lines_loop_ge:
  "chunk_lines_loop n ls c p = Inr (c', p') \<Longrightarrow> p \<le> p' \<and> p' \<le> p + length ls"
proof (induction n ls c p rule: chunk_lines_loop.induct)
  case (2 n line rest c p)
  then show ?case by (fastforce split: if_splits list.splits)
qed simp

lemma chunk_lines_loop_pos:
  "chunk_lines_loop n ls c 0 = Inr (c', p') \<Longrightarrow> ls \<noteq> [] \<Longrightarrow> 0 < p'"
  by (cases ls) (auto split: if_splits list.splits dest!: chunk_lines_loop_ge)

lemma parse_chunk_consumes:
  "parse_update_file_chunk ls n a = Inr (c, k) \<Longrightarrow> 0 < k \<and> k \<le> length ls"
  by (auto simp: parse_update_file_chunk_def split: list.splits if_splits sum.splits option.splits
      dest!: chunk_lines_loop_pos chunk_lines_loop_ge)

section \<open>Hunks\<close>

text \<open>The loop over the chunks of an update hunk; \<open>Inr\<close> holds the chunks and \<open>parsed_lines\<close>.\<close>

function update_chunks_loop ::
    "rstring list \<Rightarrow> nat \<Rightarrow> nat \<Rightarrow> update_file_chunk list
       \<Rightarrow> parse_error + (update_file_chunk list \<times> nat)" where
  "update_chunks_loop remaining line_number parsed chunks =
     (case remaining of
        [] \<Rightarrow> Inr (chunks, parsed)
      | l # rest \<Rightarrow>
          if trim l = [] then update_chunks_loop rest line_number (parsed + 1) chunks
          else if starts_with l (lit ''***'') then Inr (chunks, parsed)
          else case parse_update_file_chunk remaining (line_number + parsed) (chunks = []) of
                 Inl e \<Rightarrow> Inl e
               | Inr (chunk, chunk_lines) \<Rightarrow>
                   update_chunks_loop (drop chunk_lines remaining) line_number
                     (parsed + chunk_lines) (chunks @ [chunk]))"
  by pat_completeness auto
termination
  by (relation "measure (\<lambda>(remaining, _). length remaining)")
    (auto dest!: parse_chunk_consumes)

declare update_chunks_loop.simps [simp del]

text \<open>The leading lines of an added file: their text and how many there are.\<close>

fun add_lines_loop :: "rstring list \<Rightarrow> rstring \<Rightarrow> nat \<Rightarrow> rstring \<times> nat" where
  "add_lines_loop [] contents parsed = (contents, parsed)"
| "add_lines_loop (l # rest) contents parsed =
     (case strip_prefix [43] l of
        Some line_to_add \<Rightarrow> add_lines_loop rest (contents @ line_to_add @ [nl]) (parsed + 1)
      | None \<Rightarrow> (contents, parsed))"

definition parse_one_hunk :: "rstring list \<Rightarrow> nat \<Rightarrow> parse_error + (hunk \<times> nat)" where
  "parse_one_hunk ls line_number =
     (case ls of
        [] \<Rightarrow> Inl (InvalidHunkError (lit ''hunk is empty'') line_number)
      | f # rest \<Rightarrow>
          let first_line = trim f
          in case strip_prefix ADD_FILE_MARKER first_line of
               Some path \<Rightarrow>
                 let (contents, parsed) = add_lines_loop rest [] 1
                 in Inr (AddFile path contents, parsed)
             | None \<Rightarrow> (case strip_prefix DELETE_FILE_MARKER first_line of
                 Some path \<Rightarrow> Inr (DeleteFile path, 1)
               | None \<Rightarrow> (case strip_prefix UPDATE_FILE_MARKER first_line of
                   Some path \<Rightarrow>
                     let move_path = (case rest of [] \<Rightarrow> None | x # _ \<Rightarrow> strip_prefix MOVE_TO_MARKER x);
                         remaining = (if move_path \<noteq> None then drop 1 rest else rest);
                         parsed = (if move_path \<noteq> None then 2 else 1)
                     in (case update_chunks_loop remaining line_number parsed [] of
                           Inl e \<Rightarrow> Inl e
                         | Inr (chunks, parsed') \<Rightarrow>
                             if chunks = [] then Inl (InvalidHunkError
                               (lit ''Update file hunk for path '' @ quoted path @ lit '' is empty'')
                               line_number)
                             else Inr (UpdateFile path move_path chunks, parsed'))
                 | None \<Rightarrow> Inl (InvalidHunkError
                     (quoted first_line @ lit '' is not a valid hunk header. Valid hunk headers: ''
                      @ quoted (lit ''*** Add File: {path}'') @ lit '', ''
                      @ quoted (lit ''*** Delete File: {path}'') @ lit '', ''
                      @ quoted (lit ''*** Update File: {path}'')) line_number))))"

lemma update_chunks_loop_ge:
  "update_chunks_loop r n p cs = Inr (cs', p') \<Longrightarrow> p \<le> p' \<and> p' \<le> p + length r"
proof (induction r n p cs rule: update_chunks_loop.induct)
  case (1 r n p cs)
  then show ?case
    by (subst (asm) (3) update_chunks_loop.simps)
      (fastforce split: list.splits if_splits sum.splits prod.splits dest: parse_chunk_consumes)
qed

lemma add_lines_loop_ge: "add_lines_loop ls c p = (c', p') \<Longrightarrow> p \<le> p' \<and> p' \<le> p + length ls"
  by (induction ls c p rule: add_lines_loop.induct) (fastforce split: option.splits)+

lemma parse_one_hunk_consumes:
  "parse_one_hunk ls n = Inr (h, k) \<Longrightarrow> 0 < k \<and> k \<le> length ls"
  by (auto simp: parse_one_hunk_def Let_def
      split: list.splits option.splits if_splits sum.splits prod.splits
      dest!: update_chunks_loop_ge add_lines_loop_ge)

function parse_hunks_loop :: "rstring list \<Rightarrow> nat \<Rightarrow> parse_error + hunk list" where
  "parse_hunks_loop remaining line_number =
     (if remaining = [] then Inr []
      else case parse_one_hunk remaining line_number of
             Inl e \<Rightarrow> Inl e
           | Inr (hunk, hunk_lines) \<Rightarrow>
               (case parse_hunks_loop (drop hunk_lines remaining) (line_number + hunk_lines) of
                  Inl e \<Rightarrow> Inl e
                | Inr hs \<Rightarrow> Inr (hunk # hs)))"
  by pat_completeness auto
termination
  by (relation "measure (\<lambda>(remaining, _). length remaining)")
    (auto dest!: parse_one_hunk_consumes)

declare parse_hunks_loop.simps [simp del]

definition parse_patch_text :: "rstring \<Rightarrow> parse_mode \<Rightarrow> parse_error + parsed_patch" where
  "parse_patch_text text mode =
     (let ls0 = lines (trim text)
      in case (case check_patch_boundaries_strict ls0 of
                 Inr _ \<Rightarrow> Inr ls0
               | Inl e \<Rightarrow> (case mode of
                   Strict \<Rightarrow> Inl e
                 | Lenient \<Rightarrow> check_patch_boundaries_lenient ls0 e)) of
           Inl e \<Rightarrow> Inl e
         | Inr ls \<Rightarrow>
             let last_line_index = length ls - 1;
                 remaining = (if 1 \<le> last_line_index then take (last_line_index - 1) (drop 1 ls) else [])
             in (case parse_hunks_loop remaining 2 of
                   Inl e \<Rightarrow> Inl e
                 | Inr hs \<Rightarrow> Inr \<lparr>hunks = hs, patch = join [nl] ls\<rparr>))"

definition parse_patch :: "rstring \<Rightarrow> parse_error + parsed_patch" where
  "parse_patch text = parse_patch_text text (if PARSE_IN_STRICT_MODE then Strict else Lenient)"

section \<open>A printer for the format\<close>

text \<open>
  The grammar in the header comment of the source, as a printer of well-formed hunks: a chunk is
  its context line, the removed lines, the added lines and the end-of-file marker.
\<close>

definition print_chunk :: "update_file_chunk \<Rightarrow> rstring list" where
  "print_chunk c =
     (case change_context c of
        None \<Rightarrow> EMPTY_CHANGE_CONTEXT_MARKER
      | Some ctx \<Rightarrow> CHANGE_CONTEXT_MARKER @ ctx)
     # map ((#) 45) (old_lines c) @ map ((#) 43) (new_lines c)
     @ (if is_end_of_file c then [EOF_MARKER] else [])"

fun print_hunk :: "hunk \<Rightarrow> rstring list" where
  "print_hunk (AddFile path contents) =
     (ADD_FILE_MARKER @ path) # map ((#) 43) (butlast (split_on nl contents))"
| "print_hunk (DeleteFile path) = [DELETE_FILE_MARKER @ path]"
| "print_hunk (UpdateFile path move_path chunks) =
     (UPDATE_FILE_MARKER @ path)
     # (case move_path of None \<Rightarrow> [] | Some m \<Rightarrow> [MOVE_TO_MARKER @ m])
     @ concat (map print_chunk chunks)"

definition print_patch_lines :: "hunk list \<Rightarrow> rstring list" where
  "print_patch_lines hs =
     BEGIN_PATCH_MARKER # concat (map print_hunk hs) @ [END_PATCH_MARKER]"

definition wf_path :: "rstring \<Rightarrow> bool" where
  "wf_path p \<longleftrightarrow> p \<noteq> [] \<and> \<not> is_whitespace (last p)"

definition wf_chunk :: "update_file_chunk \<Rightarrow> bool" where
  "wf_chunk c \<longleftrightarrow> old_lines c @ new_lines c \<noteq> []"

fun wf_hunk :: "hunk \<Rightarrow> bool" where
  "wf_hunk (AddFile path contents) = (wf_path path \<and> (contents = [] \<or> last contents = nl))"
| "wf_hunk (DeleteFile path) = wf_path path"
| "wf_hunk (UpdateFile path move_path chunks) =
     (wf_path path \<and> chunks \<noteq> [] \<and> list_all wf_chunk chunks)"

lemmas marker_defs =
  BEGIN_PATCH_MARKER_def END_PATCH_MARKER_def ADD_FILE_MARKER_def DELETE_FILE_MARKER_def
  UPDATE_FILE_MARKER_def MOVE_TO_MARKER_def EOF_MARKER_def CHANGE_CONTEXT_MARKER_def
  EMPTY_CHANGE_CONTEXT_MARKER_def

text \<open>Where a chunk's loop stops: at the end, or at a line that is no part of a chunk.\<close>

definition chunk_stop :: "rstring list \<Rightarrow> bool" where
  "chunk_stop rest \<longleftrightarrow>
     (\<forall>l ls. rest = l # ls \<longrightarrow> l \<noteq> EOF_MARKER \<and> l \<noteq> [] \<and> hd l \<notin> {32, 43, 45})"

lemma tagged_not_eof [simp]: "c \<noteq> 42 \<Longrightarrow> c # l \<noteq> EOF_MARKER" "c \<noteq> 42 \<Longrightarrow> EOF_MARKER \<noteq> c # l"
  by (simp_all add: EOF_MARKER_def)

lemma chunk_loop_removed:
  "chunk_lines_loop n (map ((#) 45) os @ rest) c p =
     chunk_lines_loop n rest (c\<lparr>old_lines := old_lines c @ os\<rparr>) (p + length os)"
  by (induction os arbitrary: c p) simp_all

lemma chunk_loop_added:
  "chunk_lines_loop n (map ((#) 43) ns @ rest) c p =
     chunk_lines_loop n rest (c\<lparr>new_lines := new_lines c @ ns\<rparr>) (p + length ns)"
  by (induction ns arbitrary: c p) simp_all

lemma chunk_loop_stop:
  "chunk_stop rest \<Longrightarrow> 0 < p \<Longrightarrow> chunk_lines_loop n rest c p = Inr (c, p)"
  by (cases rest) (auto simp: chunk_stop_def neq_Nil_conv)

lemma chunk_loop_end:
  assumes "chunk_stop rest" "0 < p" "\<not> is_end_of_file c"
  shows "chunk_lines_loop n ((if e then [EOF_MARKER] else []) @ rest) c p =
    Inr (c\<lparr>is_end_of_file := e\<rparr>, p + (if e then 1 else 0))"
proof -
  have "c\<lparr>is_end_of_file := False\<rparr> = c" using assms(3) by simp
  then show ?thesis using assms by (simp add: chunk_loop_stop)
qed

lemma parse_print_chunk:
  assumes "wf_chunk c" "chunk_stop rest"
  shows "parse_update_file_chunk (print_chunk c @ rest) n a = Inr (c, length (print_chunk c))"
proof -
  let ?body = "map ((#) 45) (old_lines c) @ map ((#) 43) (new_lines c)
     @ (if is_end_of_file c then [EOF_MARKER] else []) @ rest"
  let ?k = "length (old_lines c) + length (new_lines c)"
  have k: "0 < ?k" using assms(1) by (auto simp: wf_chunk_def)
  have loop: "chunk_lines_loop n ?body
      \<lparr>change_context = ctx, old_lines = [], new_lines = [], is_end_of_file = False\<rparr> 0 =
      Inr (\<lparr>change_context = ctx, old_lines = old_lines c, new_lines = new_lines c,
            is_end_of_file = is_end_of_file c\<rparr>, ?k + (if is_end_of_file c then 1 else 0))" for ctx
    using k assms(2) by (simp add: chunk_loop_removed chunk_loop_added chunk_loop_end)
  show ?thesis
    using k loop
    by (cases "change_context c")
      (auto simp: parse_update_file_chunk_def print_chunk_def EMPTY_CHANGE_CONTEXT_MARKER_def
        CHANGE_CONTEXT_MARKER_def strip_prefix_def)
qed

text \<open>Where the loop over chunks stops: at the end, or at the next hunk's header.\<close>

definition hunk_stop :: "rstring list \<Rightarrow> bool" where
  "hunk_stop rest \<longleftrightarrow>
     (\<forall>l ls. rest = l # ls \<longrightarrow> starts_with l (lit ''***'') \<and> l \<noteq> EOF_MARKER)"

lemma hunk_stop_chunk_stop: "hunk_stop rest \<Longrightarrow> chunk_stop rest"
  by (auto simp: hunk_stop_def chunk_stop_def)

lemma trim_Cons_nonempty: "\<not> is_whitespace c \<Longrightarrow> trim (c # l) \<noteq> []"
  by (simp add: trim_def trim_start_def trim_end_def dropWhile_eq_Nil_conv)

lemma print_chunk_head:
  obtains l ls where "print_chunk c = (64 # l) # ls"
  by (cases "change_context c")
    (auto simp: print_chunk_def EMPTY_CHANGE_CONTEXT_MARKER_def CHANGE_CONTEXT_MARKER_def)

lemma print_chunk_stop: "chunk_stop (print_chunk c @ rest)"
  by (rule print_chunk_head [of c]) (simp add: chunk_stop_def)

lemma parse_print_chunks:
  assumes "list_all wf_chunk cs" "hunk_stop rest"
  shows "update_chunks_loop (concat (map print_chunk cs) @ rest) n p acc =
    Inr (acc @ cs, p + length (concat (map print_chunk cs)))"
  using assms(1)
proof (induction cs arbitrary: p acc)
  case Nil
  have "trim (42 # l) \<noteq> []" for l by (rule trim_Cons_nonempty) (simp add: is_whitespace_def)
  then show ?case
    using assms(2) by (subst update_chunks_loop.simps) (auto simp: hunk_stop_def split: list.splits)
next
  case (Cons c cs)
  let ?rest = "concat (map print_chunk cs) @ rest"
  have stop: "chunk_stop ?rest"
    using assms(2) by (cases cs) (simp_all add: hunk_stop_chunk_stop print_chunk_stop)
  obtain l ls where head: "print_chunk c = (64 # l) # ls" by (rule print_chunk_head)
  have "trim (64 # l) \<noteq> []" by (rule trim_Cons_nonempty) (simp add: is_whitespace_def)
  moreover have "parse_update_file_chunk (print_chunk c @ ?rest) m a = Inr (c, length (print_chunk c))"
    for m a using Cons.prems stop by (simp add: parse_print_chunk)
  ultimately have "update_chunks_loop (print_chunk c @ ?rest) n p acc =
      update_chunks_loop ?rest n (p + length (print_chunk c)) (acc @ [c])"
    by (subst update_chunks_loop.simps) (simp add: head)
  then show ?case using Cons by simp
qed

lemma print_hunk_stop: "hunk_stop (print_hunk h @ rest)"
  by (cases h) (simp_all add: hunk_stop_def marker_defs starts_with_def)

lemma print_hunks_stop: "hunk_stop (concat (map print_hunk hs))"
  by (cases hs) (simp_all add: print_hunk_stop, simp add: hunk_stop_def)

lemma trim_header: "wf_path p \<Longrightarrow> trim (ADD_FILE_MARKER @ p) = ADD_FILE_MARKER @ p"
  "wf_path p \<Longrightarrow> trim (DELETE_FILE_MARKER @ p) = DELETE_FILE_MARKER @ p"
  "wf_path p \<Longrightarrow> trim (UPDATE_FILE_MARKER @ p) = UPDATE_FILE_MARKER @ p"
  by (rule trim_id; simp add: wf_path_def marker_defs is_whitespace_def)+

lemma add_loop_lines:
  "hunk_stop rest \<Longrightarrow> add_lines_loop (map ((#) 43) ls @ rest) c p =
     (c @ concat (map (\<lambda>l. l @ [nl]) ls), p + length ls)"
proof (induction ls arbitrary: c p)
  case Nil
  then show ?case by (cases rest) (auto simp: hunk_stop_def strip_prefix_def)
qed (simp add: strip_prefix_def)

lemma concat_lines_butlast:
  "contents = [] \<or> last contents = nl \<Longrightarrow>
     concat (map (\<lambda>l. l @ [nl]) (butlast (split_on nl contents))) = contents"
proof (induction contents)
  case (Cons x xs)
  then have IH: "concat (map (\<lambda>l. l @ [nl]) (butlast (split_on nl xs))) = xs" "x = nl \<or> xs \<noteq> []"
    by (auto split: if_splits)
  then show ?case
    by (cases "split_on nl xs"; cases "tl (split_on nl xs)") (auto split: if_splits)
qed simp

lemma strip_other_markers:
  "strip_prefix ADD_FILE_MARKER (DELETE_FILE_MARKER @ p) = None"
  "strip_prefix ADD_FILE_MARKER (UPDATE_FILE_MARKER @ p) = None"
  "strip_prefix DELETE_FILE_MARKER (UPDATE_FILE_MARKER @ p) = None"
  by (simp_all add: strip_prefix_def marker_defs starts_with_def)

lemma chunks_no_move:
  "cs \<noteq> [] \<Longrightarrow> (case concat (map print_chunk cs) @ rest of [] \<Rightarrow> None
      | x # _ \<Rightarrow> strip_prefix MOVE_TO_MARKER x) = None"
  by (cases cs; simp; rule print_chunk_head [of "hd cs"])
    (simp_all add: strip_prefix_def MOVE_TO_MARKER_def)

lemma parse_print_hunk:
  assumes "wf_hunk h" "hunk_stop rest"
  shows "parse_one_hunk (print_hunk h @ rest) n = Inr (h, length (print_hunk h))"
proof (cases h)
  case (AddFile path contents)
  then show ?thesis
    using assms by (simp add: parse_one_hunk_def trim_header add_loop_lines concat_lines_butlast)
next
  case (DeleteFile path)
  then show ?thesis
    using assms by (simp add: parse_one_hunk_def trim_header strip_other_markers)
next
  case (UpdateFile path move_path chunks)
  then show ?thesis
    using assms
    by (cases move_path)
      (simp_all add: parse_one_hunk_def trim_header strip_other_markers chunks_no_move
        parse_print_chunks Let_def)
qed

lemma parse_print_hunks:
  "list_all wf_hunk hs \<Longrightarrow> parse_hunks_loop (concat (map print_hunk hs)) n = Inr hs"
proof (induction hs arbitrary: n)
  case Nil
  then show ?case by (simp add: parse_hunks_loop.simps)
next
  case (Cons h hs)
  have "print_hunk h \<noteq> []" by (cases h) simp_all
  then show ?case
    using Cons by (subst parse_hunks_loop.simps) (simp add: parse_print_hunk print_hunks_stop)
qed

lemma trim_markers: "trim BEGIN_PATCH_MARKER = BEGIN_PATCH_MARKER" "trim END_PATCH_MARKER = END_PATCH_MARKER"
  by (rule trim_id; simp add: marker_defs is_whitespace_def)+

lemma trim_patch_text:
  "trim (join [nl] (BEGIN_PATCH_MARKER # b @ [END_PATCH_MARKER])) =
     join [nl] (BEGIN_PATCH_MARKER # b @ [END_PATCH_MARKER])" (is "trim (join [nl] ?ls) = _")
proof -
  obtain body where body: "join [nl] ?ls = BEGIN_PATCH_MARKER @ body"
    by (simp add: join_Cons)
  have "last (join [nl] (ls @ [END_PATCH_MARKER])) = 104 \<and> join [nl] (ls @ [END_PATCH_MARKER]) \<noteq> []" for ls
    by (induction ls) (simp_all add: END_PATCH_MARKER_def join_Cons)
  from this [of "BEGIN_PATCH_MARKER # b"] have "last (join [nl] ?ls) = 104" by simp
  then show ?thesis
    by (intro trim_id) (simp_all add: body, simp_all add: marker_defs is_whitespace_def)
qed

lemma boundaries_ok:
  "check_patch_boundaries_strict (BEGIN_PATCH_MARKER # b @ [END_PATCH_MARKER]) = Inr ()"
  by (cases b)
    (simp_all add: check_patch_boundaries_strict_def check_start_and_end_lines_strict_def trim_markers)

text \<open>A text framed by the two markers is parsed hunk by hunk.\<close>

lemma parse_framed:
  assumes "\<forall>l \<in> set b. text_line l"
  shows "parse_patch (join [nl] (BEGIN_PATCH_MARKER # b @ [END_PATCH_MARKER])) =
    (case parse_hunks_loop b 2 of
       Inl e \<Rightarrow> Inl e
     | Inr hs \<Rightarrow> Inr \<lparr>hunks = hs, patch = join [nl] (BEGIN_PATCH_MARKER # b @ [END_PATCH_MARKER])\<rparr>)"
proof -
  let ?ls = "BEGIN_PATCH_MARKER # b @ [END_PATCH_MARKER]"
  have lines: "lines (join [nl] ?ls) = ?ls"
    using assms by (intro lines_join) (auto simp: text_line_def marker_defs)
  have "take (length ?ls - 1 - 1) (drop 1 ?ls) = b" "1 \<le> length ?ls - 1" by simp_all
  then show ?thesis
    unfolding parse_patch_def parse_patch_text_def Let_def trim_patch_text lines boundaries_ok
    by simp
qed

section \<open>What parsing guarantees\<close>

definition parsed_hunk_ok :: "hunk \<Rightarrow> bool" where
  "parsed_hunk_ok h \<longleftrightarrow>
     (case h of UpdateFile _ _ chunks \<Rightarrow> chunks \<noteq> [] \<and> list_all wf_chunk chunks | _ \<Rightarrow> True)"

lemma chunk_loop_wf:
  "chunk_lines_loop n ls c p = Inr (c', p') \<Longrightarrow> (0 < p \<longrightarrow> wf_chunk c)
     \<Longrightarrow> 0 < p' \<Longrightarrow> wf_chunk c'"
proof (induction n ls c p rule: chunk_lines_loop.induct)
  case (2 n line rest c p)
  then show ?case by (fastforce simp: wf_chunk_def split: if_splits list.splits)
qed simp

lemma chunk_loop_wf_start:
  "chunk_lines_loop n ls c 0 = Inr (c', p') \<Longrightarrow> ls \<noteq> [] \<Longrightarrow> wf_chunk c'"
  using chunk_loop_wf chunk_lines_loop_pos by blast

lemma parse_chunk_wf: "parse_update_file_chunk ls n a = Inr (c, k) \<Longrightarrow> wf_chunk c"
  by (auto simp: parse_update_file_chunk_def simp del: chunk_lines_loop.simps
      split: list.splits if_splits sum.splits option.splits dest: chunk_loop_wf_start)

lemma update_chunks_loop_wf:
  "update_chunks_loop r n p cs = Inr (cs', p') \<Longrightarrow> list_all wf_chunk cs \<Longrightarrow> list_all wf_chunk cs'"
proof (induction r n p cs rule: update_chunks_loop.induct)
  case (1 r n p cs)
  then show ?case
    by (subst (asm) (3) update_chunks_loop.simps)
      (fastforce split: list.splits if_splits sum.splits prod.splits dest: parse_chunk_wf)
qed

lemma parse_one_hunk_ok: "parse_one_hunk ls n = Inr (h, k) \<Longrightarrow> parsed_hunk_ok h"
  by (auto simp: parse_one_hunk_def parsed_hunk_ok_def Let_def
      split: list.splits option.splits if_splits sum.splits prod.splits
      dest: update_chunks_loop_wf)

lemma parse_hunks_loop_ok: "parse_hunks_loop ls n = Inr hs \<Longrightarrow> list_all parsed_hunk_ok hs"
proof (induction ls n arbitrary: hs rule: parse_hunks_loop.induct)
  case (1 ls n)
  then show ?case
    by (subst (asm) (2) parse_hunks_loop.simps)
      (fastforce split: if_splits sum.splits prod.splits dest: parse_one_hunk_ok)
qed

section \<open>Properties\<close>

text \<open>C19. Round trip: printing well-formed hunks in the documented format and parsing the text
  gives the same hunks back, and the normalised text is the printed one.\<close>

theorem parse_print_patch:
  assumes "list_all wf_hunk hs" "\<forall>l \<in> set (print_patch_lines hs). text_line l"
  shows "parse_patch (join [nl] (print_patch_lines hs)) =
    Inr \<lparr>hunks = hs, patch = join [nl] (print_patch_lines hs)\<rparr>"
  using assms parse_framed [of "concat (map print_hunk hs)"]
  by (simp add: print_patch_lines_def parse_print_hunks)

theorem parse_print_patch_witness:
  "parse_patch (join [nl] (print_patch_lines [DeleteFile (lit ''a.rs''), AddFile (lit ''b.rs'') (lit ''x'' @ [nl])]))
   = Inr \<lparr>hunks = [DeleteFile (lit ''a.rs''), AddFile (lit ''b.rs'') (lit ''x'' @ [nl])],
          patch = join [nl] (print_patch_lines [DeleteFile (lit ''a.rs''), AddFile (lit ''b.rs'') (lit ''x'' @ [nl])])\<rparr>"
  by (rule parse_print_patch)
    (simp_all add: wf_path_def is_whitespace_def print_patch_lines_def marker_defs text_line_def)

text \<open>What the applier may rely on: every update hunk of a parsed patch has at least one
  chunk, and every chunk has at least one old or new line.\<close>

theorem parse_patch_chunks:
  assumes "parse_patch text = Inr p" "UpdateFile path mp chunks \<in> set (hunks p)" "c \<in> set chunks"
  shows "chunks \<noteq> [] \<and> old_lines c @ new_lines c \<noteq> []"
proof -
  obtain ls where "parse_hunks_loop ls 2 = Inr (hunks p)"
    using assms(1) by (auto simp: parse_patch_def parse_patch_text_def Let_def split: sum.splits)
  then have "list_all parsed_hunk_ok (hunks p)" by (rule parse_hunks_loop_ok)
  then have "parsed_hunk_ok (UpdateFile path mp chunks)" using assms(2) by (simp add: list_all_iff)
  then show ?thesis using assms(3) by (auto simp: parsed_hunk_ok_def list_all_iff wf_chunk_def)
qed

theorem parse_patch_chunks_witness:
  "[\<lparr>change_context = None, old_lines = [lit ''a''], new_lines = [], is_end_of_file = False\<rparr>] \<noteq> []
   \<and> [lit ''a''] @ [] \<noteq> ([] :: rstring list)"
proof -
  let ?c = "\<lparr>change_context = None, old_lines = [lit ''a''], new_lines = [], is_end_of_file = False\<rparr>"
  let ?h = "[UpdateFile (lit ''f'') None [?c]]"
  have "parse_patch (join [nl] (BEGIN_PATCH_MARKER # concat (map print_hunk ?h) @ [END_PATCH_MARKER])) =
      Inr \<lparr>hunks = ?h, patch = join [nl] (BEGIN_PATCH_MARKER # concat (map print_hunk ?h) @ [END_PATCH_MARKER])\<rparr>"
    by (subst parse_framed, simp add: print_chunk_def marker_defs text_line_def,
        subst parse_print_hunks, simp_all add: wf_path_def wf_chunk_def is_whitespace_def)
  from parse_patch_chunks [OF this, of "lit ''f''" None "[?c]" ?c] show ?thesis by simp
qed

end
