(* ===== verification/Line_Hash.thy ===== *)
theory Line_Hash
  imports Rust_Strings
begin

text \<open>
  The line fingerprint of the hashline tools (\<open>util/hash.rs\<close>): FNV-1a at 32 bits over the bytes
  of a line with its white space normalised, and its encoding in lowercase letters. A failed
  \<open>assert!\<close> is \<open>None\<close>.
\<close>

unbundle bit_operations_syntax

definition FNV_OFFSET :: u32 where
  "FNV_OFFSET = 2166136261"

definition FNV_PRIME :: u32 where
  "FNV_PRIME = 16777619"

definition fnv_mix :: "u32 \<Rightarrow> u32 \<Rightarrow> u32" where
  "fnv_mix h x = (h XOR x) * FNV_PRIME"

definition fnv1a_32 :: "u8 list \<Rightarrow> u32" where
  "fnv1a_32 data = foldl (\<lambda>h byte. fnv_mix h (ucast byte)) FNV_OFFSET data"

definition is_ascii_whitespace :: "u8 \<Rightarrow> bool" where
  "is_ascii_whitespace b \<longleftrightarrow> b = 9 \<or> b = 10 \<or> b = 12 \<or> b = 13 \<or> b = 32"

fun line_hash_loop :: "u32 \<Rightarrow> bool \<Rightarrow> u8 list \<Rightarrow> u32" where
  "line_hash_loop h prev_ws [] = h"
| "line_hash_loop h prev_ws (byte # bytes) =
     (if is_ascii_whitespace byte then
        (if \<not> prev_ws then line_hash_loop (fnv_mix h 32) True bytes
         else line_hash_loop h prev_ws bytes)
      else line_hash_loop (fnv_mix h (ucast byte)) False bytes)"

definition line_hash :: "rstring \<Rightarrow> u32" where
  "line_hash line = line_hash_loop FNV_OFFSET False (utf8_bytes (trim line))"

definition encode_hash :: "u32 \<Rightarrow> nat \<Rightarrow> rstring option" where
  "encode_hash hash len =
     (if 0 < len \<and> len \<le> 4
      then Some (map (\<lambda>i. unat (drop_bit (i * 8) hash mod 26) + 97) [0..<len])
      else None)"

definition DEFAULT_HASH_LEN :: nat where
  "DEFAULT_HASH_LEN = 3"

section \<open>The fingerprint is FNV-1a of the normalised line\<close>

text \<open>The reference: every run of ASCII white space becomes one space.\<close>

fun collapse_ws :: "bool \<Rightarrow> u8 list \<Rightarrow> u8 list" where
  "collapse_ws prev [] = []"
| "collapse_ws prev (b # bs) =
     (if is_ascii_whitespace b then (if prev then collapse_ws True bs else 32 # collapse_ws True bs)
      else b # collapse_ws False bs)"

definition normal_bytes :: "rstring \<Rightarrow> u8 list" where
  "normal_bytes line = collapse_ws False (utf8_bytes (trim line))"

lemma line_hash_loop_collapse:
  "line_hash_loop h prev bs = foldl (\<lambda>h byte. fnv_mix h (ucast byte)) h (collapse_ws prev bs)"
  by (induction h prev bs rule: line_hash_loop.induct) auto

lemma line_hash_normal: "line_hash line = fnv1a_32 (normal_bytes line)"
  by (simp add: line_hash_def fnv1a_32_def normal_bytes_def line_hash_loop_collapse)

lemma line_hash_surround:
  assumes "list_all is_whitespace pre" "list_all is_whitespace post"
  shows "line_hash (pre @ line @ post) = line_hash line"
  using assms by (simp add: line_hash_def trim_surround)

lemma collapse_ws_run:
  assumes "w \<noteq> []" "list_all is_ascii_whitespace w"
  shows "collapse_ws False (xs @ w @ ys) = collapse_ws False (xs @ 32 # ys)"
proof -
  have skip: "collapse_ws True (w @ ys) = collapse_ws True ys" if "list_all is_ascii_whitespace w" for w
    using that by (induction w) auto
  have "collapse_ws p (w @ ys) = collapse_ws p (32 # ys)" for p
    using assms skip by (cases w; cases p) (auto simp: is_ascii_whitespace_def)
  moreover have "(\<And>p. collapse_ws p u = collapse_ws p v) \<Longrightarrow> collapse_ws p (xs @ u) = collapse_ws p (xs @ v)"
    for p u v by (induction xs arbitrary: p) auto
  ultimately show ?thesis by metis
qed

definition lowercase_text :: "rstring \<Rightarrow> bool" where
  "lowercase_text s \<longleftrightarrow> (\<forall>c \<in> set s. 97 \<le> c \<and> c \<le> 122)"

lemma encode_hash_Some:
  assumes "encode_hash h n = Some s"
  shows "length s = n \<and> 0 < n \<and> n \<le> 4 \<and> lowercase_text s"
proof -
  have "unat (x mod (26::u32)) \<le> 25" for x
    using word_mod_less_divisor [of "26::u32" x] by (simp add: word_less_nat_alt)
  with assms show ?thesis
    by (fastforce simp: encode_hash_def lowercase_text_def split: if_splits)
qed

lemma encode_hash_total: "0 < n \<Longrightarrow> n \<le> 4 \<Longrightarrow> \<exists>s. encode_hash h n = Some s"
  by (simp add: encode_hash_def)

text \<open>Text made of the characters Rust calls ASCII white space.\<close>

definition ascii_ws_text :: "rstring \<Rightarrow> bool" where
  "ascii_ws_text s \<longleftrightarrow> s \<noteq> [] \<and> (\<forall>c \<in> set s. c = 9 \<or> c = 10 \<or> c = 12 \<or> c = 13 \<or> c = 32)"

lemma ascii_ws_bytes:
  assumes "ascii_ws_text w"
  shows "utf8_bytes w \<noteq> [] \<and> list_all is_ascii_whitespace (utf8_bytes w)"
proof -
  have "utf8_char c \<noteq> [] \<and> list_all is_ascii_whitespace (utf8_char c)" if "c \<in> set w" for c
    using that assms by (auto simp: ascii_ws_text_def utf8_char_def is_ascii_whitespace_def)
  then show ?thesis
    using assms by (cases w) (auto simp: ascii_ws_text_def utf8_bytes_def list_all_iff)
qed

lemma line_hash_inner:
  assumes "\<not> list_all is_whitespace a" "\<not> list_all is_whitespace b" "ascii_ws_text w"
  shows "line_hash (a @ w @ b) = line_hash (a @ [32] @ b)"
proof -
  have "utf8_bytes [32] = [32]" by (simp add: utf8_char_def)
  then have "normal_bytes (a @ w @ b) = normal_bytes (a @ [32] @ b)"
    using collapse_ws_run [of "utf8_bytes w"] ascii_ws_bytes [OF assms(3)]
    unfolding normal_bytes_def trim_inner [OF assms(1,2)] utf8_bytes_simps(3) by simp
  then show ?thesis by (simp add: line_hash_normal)
qed

text \<open>The fingerprint of a line is FNV-1a over the UTF-8 bytes of the trimmed line with every
  run of ASCII white space collapsed to one space. So it does not change under re-indentation or
  trailing white space, nor when an inner run of ASCII white space is replaced by another one.\<close>

theorem line_hash_normalised:
  "line_hash line = fnv1a_32 (normal_bytes line) \<and>
   (list_all is_whitespace pre \<longrightarrow> list_all is_whitespace post \<longrightarrow>
      line_hash (pre @ line @ post) = line_hash line) \<and>
   (\<not> list_all is_whitespace a \<longrightarrow> \<not> list_all is_whitespace b \<longrightarrow>
      ascii_ws_text v \<longrightarrow> ascii_ws_text w \<longrightarrow>
      line_hash (a @ v @ b) = line_hash (a @ w @ b))"
  using line_hash_surround line_hash_inner [of a b v] line_hash_inner [of a b w]
  by (auto simp: line_hash_normal)

theorem line_hash_normalised_witness:
  "line_hash (lit ''  if x'' @ [9]) = line_hash (lit ''if x'') \<and>
   line_hash (lit ''if   x'') = line_hash (lit ''if x'')"
  using line_hash_normalised [of "lit ''if x''" "[32, 32]" "[9]" "lit ''if''" "lit ''x''" "[32, 32, 32]" "[32]"]
  by (simp add: is_whitespace_def ascii_ws_text_def)

end
