(* ===== verification/Anchor_Scheme.thy ===== *)
theory Anchor_Scheme
  imports Line_Hash "HOL-Library.Monad_Syntax"
begin

text \<open>
  The anchor schemes of the hashline tools (\<open>grok_build_hashline/scheme.rs\<close>, \<open>anchor.rs\<close> and
  \<open>config.rs\<close>). A panic (\<open>encode_hash\<close> with a length outside 1 to 4, division by a zero chunk
  size) is \<open>None\<close>. Line numbers and indices are natural numbers; the one addition that a parsed
  anchor can push over \<open>usize::MAX\<close>, in \<open>find_shifted_generic\<close>, wraps at 64 bits.

  The trait \<open>AnchorScheme\<close> is the locale \<open>anchor_scheme\<close>: what a scheme promises of
  \<open>generate_anchors\<close> and \<open>validate\<close>. It is interpreted for the three schemes and for the trait
  object the tools pass around.
\<close>

record anchor =
  a_line :: nat
  a_local :: rstring
  a_context :: "rstring option"

record parsed_anchor =
  pa_line :: nat
  pa_local :: rstring
  pa_context :: "rstring option"

datatype validation_result = Valid | Stale | OutOfRange

datatype shift_result = Found nat | Ambiguous "nat list" | NotFound

definition DEFAULT_SEARCH_RADIUS :: nat where
  "DEFAULT_SEARCH_RADIUS = 15"

abbreviation colon :: rchar where "colon \<equiv> 58"

definition anchor_render :: "anchor \<Rightarrow> rstring" where
  "anchor_render a =
     (case a_context a of
        Some ctx \<Rightarrow> dec (a_line a) @ [colon] @ a_local a @ [colon] @ ctx
      | None \<Rightarrow> dec (a_line a) @ [colon] @ a_local a)"

definition is_ascii_lowercase :: "u8 \<Rightarrow> bool" where
  "is_ascii_lowercase b \<longleftrightarrow> 97 \<le> b \<and> b \<le> 122"

definition parsed_anchor_parse :: "rstring \<Rightarrow> parsed_anchor option" where
  "parsed_anchor_parse s =
     (let parts = splitn 3 colon s in
      do {
        line_str \<leftarrow> vec_get parts 0;
        local \<leftarrow> vec_get parts 1;
        if line_str = [] \<or> local = [] then None
        else do {
          line \<leftarrow> parse_unsigned (2 ^ 64) line_str;
          if line = 0 then None
          else if \<not> list_all is_ascii_lowercase (utf8_bytes local) then None
          else
            let context = vec_get parts 2 in
            if (case context of
                  Some ctx \<Rightarrow> ctx = [] \<or> \<not> list_all is_ascii_lowercase (utf8_bytes ctx)
                | None \<Rightarrow> False)
            then None
            else Some \<lparr>pa_line = line, pa_local = local, pa_context = context\<rparr>
        }
      })"

definition parsed_anchor_render :: "parsed_anchor \<Rightarrow> rstring" where
  "parsed_anchor_render a =
     (case pa_context a of
        Some ctx \<Rightarrow> dec (pa_line a) @ [colon] @ pa_local a @ [colon] @ ctx
      | None \<Rightarrow> dec (pa_line a) @ [colon] @ pa_local a)"

section \<open>Candidate A: content only\<close>

record content_only =
  co_hash_len :: nat

definition content_new :: content_only where
  "content_new = \<lparr>co_hash_len = DEFAULT_HASH_LEN\<rparr>"

definition content_with_hash_len :: "nat \<Rightarrow> content_only option" where
  "content_with_hash_len hash_len =
     (if 0 < hash_len \<and> hash_len \<le> 4 then Some \<lparr>co_hash_len = hash_len\<rparr> else None)"

definition content_generate_anchors :: "content_only \<Rightarrow> rstring list \<Rightarrow> anchor list option" where
  "content_generate_anchors s ls =
     those (map (\<lambda>(i, line).
       do {
         local \<leftarrow> encode_hash (line_hash line) (co_hash_len s);
         Some \<lparr>a_line = i + 1, a_local = local, a_context = None\<rparr>
       }) (enumerate 0 ls))"

definition line_at :: "parsed_anchor \<Rightarrow> rstring list \<Rightarrow> rstring option" where
  "line_at anchor ls = (if pa_line anchor = 0 then None else vec_get ls (pa_line anchor - 1))"

definition content_validate ::
  "content_only \<Rightarrow> parsed_anchor \<Rightarrow> rstring list \<Rightarrow> validation_result option" where
  "content_validate s anchor ls =
     (case line_at anchor ls of
        None \<Rightarrow> Some OutOfRange
      | Some line \<Rightarrow> do {
          expected_local \<leftarrow> encode_hash (line_hash line) (co_hash_len s);
          Some (if pa_local anchor = expected_local then Valid else Stale)
        })"

section \<open>Candidate B: chunk fingerprints\<close>

definition DEFAULT_CHUNK_SIZE :: nat where
  "DEFAULT_CHUNK_SIZE = 16"

record chunk_scheme =
  ck_hash_len :: nat
  ck_chunk_size :: nat

definition chunk_new :: chunk_scheme where
  "chunk_new = \<lparr>ck_hash_len = DEFAULT_HASH_LEN, ck_chunk_size = DEFAULT_CHUNK_SIZE\<rparr>"

definition chunk_with_params :: "nat \<Rightarrow> nat \<Rightarrow> chunk_scheme option" where
  "chunk_with_params hash_len chunk_size =
     (if 0 < hash_len \<and> hash_len \<le> 4 \<and> 0 < chunk_size
      then Some \<lparr>ck_hash_len = hash_len, ck_chunk_size = chunk_size\<rparr> else None)"

text \<open>Mixing the hashes of the lines of a slice, \<open>lines.get(a..b).into_iter().flatten()\<close>.\<close>

definition mix_lines :: "u32 \<Rightarrow> rstring list option \<Rightarrow> u32" where
  "mix_lines h ls = foldl (\<lambda>h line. fnv_mix h (line_hash line)) h (case ls of Some l \<Rightarrow> l | None \<Rightarrow> [])"

definition chunk_fingerprint :: "chunk_scheme \<Rightarrow> rstring list \<Rightarrow> nat \<Rightarrow> rstring option" where
  "chunk_fingerprint s ls line_idx =
     (if ck_chunk_size s = 0 then None
      else
        let chunk_start = line_idx div ck_chunk_size s * ck_chunk_size s;
            chunk_end = min (chunk_start + ck_chunk_size s) (length ls);
            combined = mix_lines (fnv1a_32 (utf8_bytes (lit ''chunk'')))
                         (vec_range ls chunk_start chunk_end)
        in encode_hash combined (ck_hash_len s))"

definition chunk_validation_window_lines :: "chunk_scheme \<Rightarrow> nat \<Rightarrow> nat \<Rightarrow> nat" where
  "chunk_validation_window_lines s line_idx total_lines = min (ck_chunk_size s) total_lines"

definition div_ceil :: "nat \<Rightarrow> nat \<Rightarrow> nat" where
  "div_ceil n d = (if n mod d = 0 then n div d else n div d + 1)"

definition chunk_generate_anchors :: "chunk_scheme \<Rightarrow> rstring list \<Rightarrow> anchor list option" where
  "chunk_generate_anchors s ls =
     (if ck_chunk_size s = 0 then None
      else do {
        chunk_fps \<leftarrow> those (map (\<lambda>chunk_idx.
          let start = chunk_idx * ck_chunk_size s;
              end = min (start + ck_chunk_size s) (length ls);
              combined = mix_lines (fnv1a_32 (utf8_bytes (lit ''chunk''))) (vec_range ls start end)
          in encode_hash combined (ck_hash_len s)) [0..<div_ceil (length ls) (ck_chunk_size s)]);
        those (map (\<lambda>(i, line).
          do {
            local \<leftarrow> encode_hash (line_hash line) (ck_hash_len s);
            Some \<lparr>a_line = i + 1, a_local = local,
                  a_context = vec_get chunk_fps (i div ck_chunk_size s)\<rparr>
          }) (enumerate 0 ls))
      })"

definition chunk_validate ::
  "chunk_scheme \<Rightarrow> parsed_anchor \<Rightarrow> rstring list \<Rightarrow> validation_result option" where
  "chunk_validate s anchor ls =
     (case line_at anchor ls of
        None \<Rightarrow> Some OutOfRange
      | Some line \<Rightarrow> do {
          expected_local \<leftarrow> encode_hash (line_hash line) (ck_hash_len s);
          if pa_local anchor \<noteq> expected_local then Some Stale
          else case pa_context anchor of
            None \<Rightarrow> Some Stale
          | Some expected_ctx \<Rightarrow> do {
              actual_ctx \<leftarrow> chunk_fingerprint s ls (pa_line anchor - 1);
              Some (if expected_ctx \<noteq> actual_ctx then Stale else Valid)
            }
        })"

section \<open>Candidate C: checkpoint chains\<close>

definition DEFAULT_CHECKPOINT_INTERVAL :: nat where
  "DEFAULT_CHECKPOINT_INTERVAL = 32"

record checkpoint_scheme =
  cp_hash_len :: nat
  cp_interval :: nat

definition checkpoint_new :: checkpoint_scheme where
  "checkpoint_new = \<lparr>cp_hash_len = DEFAULT_HASH_LEN, cp_interval = DEFAULT_CHECKPOINT_INTERVAL\<rparr>"

definition checkpoint_with_params :: "nat \<Rightarrow> nat \<Rightarrow> checkpoint_scheme option" where
  "checkpoint_with_params hash_len interval =
     (if 0 < hash_len \<and> hash_len \<le> 4 \<and> 0 < interval
      then Some \<lparr>cp_hash_len = hash_len, cp_interval = interval\<rparr> else None)"

definition checkpoint_fingerprint :: "checkpoint_scheme \<Rightarrow> rstring list \<Rightarrow> nat \<Rightarrow> rstring option" where
  "checkpoint_fingerprint s ls line_idx =
     (if cp_interval s = 0 then None
      else
        let checkpoint_start = line_idx div cp_interval s * cp_interval s;
            chain = mix_lines (fnv1a_32 (utf8_bytes (lit ''ckpt'')))
                      (vec_range ls checkpoint_start (line_idx + 1))
        in encode_hash chain (cp_hash_len s))"

definition checkpoint_validation_window_lines :: "checkpoint_scheme \<Rightarrow> nat \<Rightarrow> nat \<Rightarrow> nat option" where
  "checkpoint_validation_window_lines s line_idx total_lines =
     (if cp_interval s = 0 then None
      else Some (line_idx - line_idx div cp_interval s * cp_interval s + 1))"

fun checkpoint_loop ::
  "checkpoint_scheme \<Rightarrow> nat \<Rightarrow> u32 \<Rightarrow> rstring list \<Rightarrow> anchor list option" where
  "checkpoint_loop s i chain [] = Some []"
| "checkpoint_loop s i chain (line # ls) =
     (if cp_interval s = 0 then None
      else
        let chain = (if i mod cp_interval s = 0 then fnv1a_32 (utf8_bytes (lit ''ckpt'')) else chain);
            lh = line_hash line;
            chain = fnv_mix chain lh
        in do {
          local \<leftarrow> encode_hash lh (cp_hash_len s);
          ctx \<leftarrow> encode_hash chain (cp_hash_len s);
          rest \<leftarrow> checkpoint_loop s (i + 1) chain ls;
          Some (\<lparr>a_line = i + 1, a_local = local, a_context = Some ctx\<rparr> # rest)
        })"

definition checkpoint_generate_anchors :: "checkpoint_scheme \<Rightarrow> rstring list \<Rightarrow> anchor list option" where
  "checkpoint_generate_anchors s ls =
     checkpoint_loop s 0 (fnv1a_32 (utf8_bytes (lit ''ckpt''))) ls"

definition checkpoint_validate ::
  "checkpoint_scheme \<Rightarrow> parsed_anchor \<Rightarrow> rstring list \<Rightarrow> validation_result option" where
  "checkpoint_validate s anchor ls =
     (case line_at anchor ls of
        None \<Rightarrow> Some OutOfRange
      | Some line \<Rightarrow> do {
          expected_local \<leftarrow> encode_hash (line_hash line) (cp_hash_len s);
          if pa_local anchor \<noteq> expected_local then Some Stale
          else case pa_context anchor of
            None \<Rightarrow> Some Stale
          | Some expected_ctx \<Rightarrow> do {
              actual_ctx \<leftarrow> checkpoint_fingerprint s ls (pa_line anchor - 1);
              Some (if expected_ctx \<noteq> actual_ctx then Stale else Valid)
            }
        })"

section \<open>Shifted anchors\<close>

text \<open>The loop of \<open>find_shifted_generic\<close>; \<open>hash_len\<close> and \<open>validate\<close> are the methods of the
  trait object.\<close>

fun find_shifted_loop ::
  "nat \<Rightarrow> (parsed_anchor \<Rightarrow> rstring list \<Rightarrow> validation_result option) \<Rightarrow> parsed_anchor \<Rightarrow>
   rstring list \<Rightarrow> nat \<Rightarrow> nat list \<Rightarrow> nat list option" where
  "find_shifted_loop hash_len validate anchor ls orig_idx [] = Some []"
| "find_shifted_loop hash_len validate anchor ls orig_idx (idx # idxs) =
     (let rest = find_shifted_loop hash_len validate anchor ls orig_idx idxs in
      if idx = orig_idx then rest
      else case vec_get ls idx of
        None \<Rightarrow> rest
      | Some line \<Rightarrow> do {
          local \<leftarrow> encode_hash (line_hash line) hash_len;
          if local \<noteq> pa_local anchor then rest
          else if pa_context anchor \<noteq> None then do {
            r \<leftarrow> validate \<lparr>pa_line = idx + 1, pa_local = local, pa_context = pa_context anchor\<rparr> ls;
            if r \<noteq> Valid then rest else map_option (Cons (idx + 1)) rest
          }
          else map_option (Cons (idx + 1)) rest
        })"

definition find_shifted_generic ::
  "nat \<Rightarrow> (parsed_anchor \<Rightarrow> rstring list \<Rightarrow> validation_result option) \<Rightarrow> parsed_anchor \<Rightarrow>
   rstring list \<Rightarrow> nat \<Rightarrow> shift_result option" where
  "find_shifted_generic hash_len validate anchor ls search_radius =
     (let orig_idx = pa_line anchor - 1;
          start = orig_idx - search_radius;
          end = min ((orig_idx + search_radius + 1) mod 2 ^ 64) (length ls)
      in do {
        candidates \<leftarrow> find_shifted_loop hash_len validate anchor ls orig_idx [start..<end];
        Some (case candidates of
                [] \<Rightarrow> NotFound
              | [new_line] \<Rightarrow> Found new_line
              | _ \<Rightarrow> Ambiguous candidates)
      })"

section \<open>The trait object\<close>

datatype dyn_scheme =
  ContentOnly content_only
| ChunkFingerprint chunk_scheme
| CheckpointChain checkpoint_scheme

fun scheme_name :: "dyn_scheme \<Rightarrow> rstring" where
  "scheme_name (ContentOnly _) = lit ''content_only_v1''"
| "scheme_name (ChunkFingerprint _) = lit ''chunk_v1''"
| "scheme_name (CheckpointChain _) = lit ''checkpoint_v1''"

fun scheme_hash_len :: "dyn_scheme \<Rightarrow> nat" where
  "scheme_hash_len (ContentOnly s) = co_hash_len s"
| "scheme_hash_len (ChunkFingerprint s) = ck_hash_len s"
| "scheme_hash_len (CheckpointChain s) = cp_hash_len s"

fun generate_anchors :: "dyn_scheme \<Rightarrow> rstring list \<Rightarrow> anchor list option" where
  "generate_anchors (ContentOnly s) ls = content_generate_anchors s ls"
| "generate_anchors (ChunkFingerprint s) ls = chunk_generate_anchors s ls"
| "generate_anchors (CheckpointChain s) ls = checkpoint_generate_anchors s ls"

fun scheme_validate :: "dyn_scheme \<Rightarrow> parsed_anchor \<Rightarrow> rstring list \<Rightarrow> validation_result option" where
  "scheme_validate (ContentOnly s) a ls = content_validate s a ls"
| "scheme_validate (ChunkFingerprint s) a ls = chunk_validate s a ls"
| "scheme_validate (CheckpointChain s) a ls = checkpoint_validate s a ls"

definition find_shifted :: "dyn_scheme \<Rightarrow> parsed_anchor \<Rightarrow> rstring list \<Rightarrow> nat \<Rightarrow> shift_result option" where
  "find_shifted s anchor ls search_radius =
     find_shifted_generic (scheme_hash_len s) (scheme_validate s) anchor ls search_radius"

section \<open>Convenience wrappers and configuration\<close>

definition split_lines :: "rstring \<Rightarrow> rstring list" where
  "split_lines content =
     (if content = [] then [[]]
      else if ends_with content [nl] then lines content @ [[]] else lines content)"

definition generate_for_content :: "dyn_scheme \<Rightarrow> rstring \<Rightarrow> anchor list option" where
  "generate_for_content s content = generate_anchors s (split_lines content)"

definition validate_against_content :: "dyn_scheme \<Rightarrow> parsed_anchor \<Rightarrow> rstring \<Rightarrow> validation_result option" where
  "validate_against_content s anchor content = scheme_validate s anchor (split_lines content)"

definition find_shifted_in_content ::
  "dyn_scheme \<Rightarrow> parsed_anchor \<Rightarrow> rstring \<Rightarrow> nat \<Rightarrow> shift_result option" where
  "find_shifted_in_content s anchor content search_radius =
     find_shifted s anchor (split_lines content) search_radius"

record hashline_scheme_params =
  hp_scheme :: rstring
  hp_hash_len :: nat
  hp_chunk_size :: nat

definition default_hashline_params :: hashline_scheme_params where
  "default_hashline_params = \<lparr>hp_scheme = lit ''chunk'', hp_hash_len = 3, hp_chunk_size = 8\<rparr>"

definition params_validate :: "hashline_scheme_params \<Rightarrow> rstring + unit" where
  "params_validate p =
     (if hp_scheme p \<noteq> lit ''chunk'' \<and> hp_scheme p \<noteq> lit ''content_only'' then
        Inl (lit ''unknown scheme '' @ [dq] @ hp_scheme p @ [dq] @ lit '': expected '' @ [dq] @
             lit ''chunk'' @ [dq] @ lit '' or '' @ [dq] @ lit ''content_only'' @ [dq])
      else if hp_hash_len p = 0 \<or> 4 < hp_hash_len p then
        Inl (lit ''hash_len must be 1..=4, got '' @ dec (hp_hash_len p))
      else if hp_scheme p = lit ''chunk'' \<and> hp_chunk_size p = 0 then
        Inl (lit ''chunk_size must be > 0'')
      else Inr ())"

text \<open>The constructors' assertions are panics, the error of \<open>validate\<close> a value.\<close>

definition build_scheme :: "hashline_scheme_params \<Rightarrow> (rstring + dyn_scheme) option" where
  "build_scheme p =
     (case params_validate p of
        Inl e \<Rightarrow> Some (Inl e)
      | Inr _ \<Rightarrow>
          if hp_scheme p = lit ''content_only''
          then map_option (Inr \<circ> ContentOnly) (content_with_hash_len (hp_hash_len p))
          else map_option (Inr \<circ> ChunkFingerprint) (chunk_with_params (hp_hash_len p) (hp_chunk_size p)))"

section \<open>What a scheme promises\<close>

text \<open>A parsed anchor agrees with the anchor a scheme generates for the line: same local hash, and
  same context where the scheme has one.\<close>

definition agrees :: "parsed_anchor \<Rightarrow> anchor \<Rightarrow> bool" where
  "agrees a g \<longleftrightarrow> pa_local a = a_local g \<and> (a_context g \<noteq> None \<longrightarrow> pa_context a = a_context g)"

definition as_parsed :: "anchor \<Rightarrow> parsed_anchor" where
  "as_parsed g = \<lparr>pa_line = a_line g, pa_local = a_local g, pa_context = a_context g\<rparr>"

definition well_numbered :: "nat \<Rightarrow> rstring list \<Rightarrow> anchor list \<Rightarrow> bool" where
  "well_numbered n ls gs \<longleftrightarrow> length gs = length ls \<and>
     (\<forall>i < length ls. a_line (gs ! i) = i + 1 \<and>
        encode_hash (line_hash (ls ! i)) n = Some (a_local (gs ! i)) \<and>
        (\<forall>c. a_context (gs ! i) = Some c \<longrightarrow> (\<exists>h. encode_hash h n = Some c)))"

text \<open>The shifted positions the doc of \<open>find_shifted\<close> names, over any notion of a matching line.\<close>

definition shift_candidates :: "(nat \<Rightarrow> bool) \<Rightarrow> nat \<Rightarrow> nat \<Rightarrow> nat \<Rightarrow> nat set" where
  "shift_candidates match line len radius =
     {n. 0 < n \<and> n \<le> len \<and> n \<noteq> line \<and> n \<le> line + radius \<and> line \<le> n + radius \<and> match n}"

definition shift_answers :: "shift_result \<Rightarrow> nat set \<Rightarrow> bool" where
  "shift_answers r C \<longleftrightarrow>
     (case r of
        NotFound \<Rightarrow> C = {}
      | Found n \<Rightarrow> C = {n}
      | Ambiguous ns \<Rightarrow> C = set ns \<and> sorted ns \<and> distinct ns \<and> 2 \<le> length ns)"

lemma those_map:
  "(\<And>x. x \<in> set xs \<Longrightarrow> f x = Some (g x)) \<Longrightarrow> those (map f xs) = Some (map g xs)"
  by (induction xs) auto

text \<open>The letters \<open>encode_hash\<close> returns when it does not panic.\<close>

definition letters :: "u32 \<Rightarrow> nat \<Rightarrow> rstring" where
  "letters h n = map (\<lambda>i. unat (drop_bit (i * 8) h mod 26) + 97) [0..<n]"

lemma encode_hash_letters: "0 < n \<Longrightarrow> n \<le> 4 \<Longrightarrow> encode_hash h n = Some (letters h n)"
  by (simp add: encode_hash_def letters_def)

lemma find_shifted_answers:
  "sorted ns \<Longrightarrow> distinct ns \<Longrightarrow>
   shift_answers (case ns of [] \<Rightarrow> NotFound | [n] \<Rightarrow> Found n | _ \<Rightarrow> Ambiguous ns) (set ns)"
  by (auto simp: shift_answers_def split: list.splits)

locale anchor_scheme =
  fixes wf :: "'s \<Rightarrow> bool"
    and hash_len :: "'s \<Rightarrow> nat"
    and generate :: "'s \<Rightarrow> rstring list \<Rightarrow> anchor list option"
    and validate :: "'s \<Rightarrow> parsed_anchor \<Rightarrow> rstring list \<Rightarrow> validation_result option"
  assumes hash_len_range: "wf s \<Longrightarrow> 0 < hash_len s \<and> hash_len s \<le> 4"
    and generate_total: "wf s \<Longrightarrow> \<exists>gs. generate s ls = Some gs \<and> well_numbered (hash_len s) ls gs"
    and validate_range:
      "wf s \<Longrightarrow> \<not> (0 < pa_line a \<and> pa_line a \<le> length ls) \<Longrightarrow> validate s a ls = Some OutOfRange"
    and validate_line:
      "wf s \<Longrightarrow> generate s ls = Some gs \<Longrightarrow> i < length ls \<Longrightarrow> pa_line a = i + 1 \<Longrightarrow>
       validate s a ls = Some (if agrees a (gs ! i) then Valid else Stale)"
begin

lemma generate_numbered: "wf s \<Longrightarrow> generate s ls = Some gs \<Longrightarrow> well_numbered (hash_len s) ls gs"
  by (metis generate_total option.inject)

lemma local_hash:
  "wf s \<Longrightarrow> generate s ls = Some gs \<Longrightarrow> i < length ls \<Longrightarrow>
   encode_hash (line_hash (ls ! i)) (hash_len s) = Some (a_local (gs ! i))"
  using generate_numbered by (auto simp: well_numbered_def)

lemma fresh_valid:
  assumes "wf s" "generate s ls = Some gs" "g \<in> set gs"
  shows "validate s (as_parsed g) ls = Some Valid"
proof -
  from assms(3) obtain i where i: "i < length gs" "gs ! i = g" by (auto simp: in_set_conv_nth)
  then have "i < length ls" "a_line g = i + 1"
    using generate_numbered [OF assms(1,2)] by (auto simp: well_numbered_def)
  then show ?thesis
    using validate_line [OF assms(1,2), of i "as_parsed g"] i by (simp add: as_parsed_def agrees_def)
qed

lemma validate_cases:
  assumes "wf s"
  shows "validate s a ls = Some OutOfRange \<and> \<not> (0 < pa_line a \<and> pa_line a \<le> length ls) \<or>
         (validate s a ls = Some Valid \<or> validate s a ls = Some Stale)
           \<and> 0 < pa_line a \<and> pa_line a \<le> length ls"
proof (cases "0 < pa_line a \<and> pa_line a \<le> length ls")
  case True
  obtain gs where "generate s ls = Some gs" using generate_total assms by blast
  then have "validate s a ls = Some (if agrees a (gs ! (pa_line a - 1)) then Valid else Stale)"
    using True by (intro validate_line [OF assms]) auto
  then show ?thesis using True by simp
next
  case False
  then show ?thesis using validate_range [OF assms] by blast
qed

lemma find_shifted_loop_spec:
  assumes "wf s" "generate s ls = Some gs"
  shows "find_shifted_loop (hash_len s) (validate s) a ls orig idxs =
    Some (map Suc (filter (\<lambda>i. i \<noteq> orig \<and> i < length ls \<and> pa_local a = a_local (gs ! i) \<and>
       (pa_context a \<noteq> None \<longrightarrow> agrees a (gs ! i))) idxs))"
proof (induction idxs)
  case (Cons i idxs)
  show ?case
  proof (cases "i \<noteq> orig \<and> i < length ls")
    case True
    then have "i < length ls" by simp
    from validate_line [OF assms this, of "\<lparr>pa_line = i + 1, pa_local = pa_local a, pa_context = pa_context a\<rparr>"]
      local_hash [OF assms this] True Cons.IH show ?thesis
      by (cases "pa_context a") (auto simp: vec_get_def agrees_def Let_def)
  next
    case False
    with Cons.IH show ?thesis by (auto simp: vec_get_def Let_def)
  qed
qed simp

lemma find_shifted_spec:
  assumes "wf s" "generate s ls = Some gs" "0 < pa_line a" "pa_line a < 2 ^ 64"
    and "radius < 2 ^ 62" "length ls < 2 ^ 62"
  shows "\<exists>r. find_shifted_generic (hash_len s) (validate s) a ls radius = Some r \<and>
    shift_answers r (shift_candidates
      (\<lambda>n. pa_local a = a_local (gs ! (n - 1)) \<and> (pa_context a \<noteq> None \<longrightarrow> agrees a (gs ! (n - 1))))
      (pa_line a) (length ls) radius)"
proof -
  let ?o = "pa_line a - 1"
  define E where "E = min ((?o + radius + 1) mod 2 ^ 64) (length ls)"
  let ?P = "\<lambda>i. i \<noteq> ?o \<and> i < length ls \<and> pa_local a = a_local (gs ! i) \<and>
       (pa_context a \<noteq> None \<longrightarrow> agrees a (gs ! i))"
  let ?ns = "map Suc (filter ?P [?o - radius..<E])"
  have wrap: "i < E \<longleftrightarrow> i < length ls \<and> i \<le> ?o + radius" if "?o - radius \<le> i" for i
  proof (cases "?o + radius + 1 < 2 ^ 64")
    case False
    have "(?o + radius + 1) mod 2 ^ 64 = (?o + radius + 1 - 2 ^ 64) mod 2 ^ 64"
      using False by (intro le_mod_geq) linarith
    also have "\<dots> = ?o + radius + 1 - 2 ^ 64"
      using assms(4,5) by (intro mod_less) simp
    finally show ?thesis unfolding E_def using False assms(4,5,6) that by auto
  qed (auto simp: E_def)
  let ?C = "shift_candidates
      (\<lambda>n. pa_local a = a_local (gs ! (n - 1)) \<and> (pa_context a \<noteq> None \<longrightarrow> agrees a (gs ! (n - 1))))
      (pa_line a) (length ls) radius"
  have "set ?ns = ?C"
  proof (intro set_eqI iffI)
    fix n assume "n \<in> set ?ns"
    then show "n \<in> ?C" using wrap assms(3) by (auto simp: shift_candidates_def)
  next
    fix n assume n: "n \<in> ?C"
    then have lo: "?o - radius \<le> n - 1" and hi: "n - 1 < length ls" "n - 1 \<le> ?o + radius"
      and P: "?P (n - 1)" and S: "n = Suc (n - 1)"
      using assms(3) by (auto simp: shift_candidates_def)
    from wrap [OF lo] hi have "n - 1 < E" by blast
    with lo P have "n - 1 \<in> set (filter ?P [?o - radius..<E])" by simp
    then show "n \<in> set ?ns" using S by (metis (no_types, lifting) image_eqI list.set_map)
  qed
  moreover have "sorted ?ns" "distinct ?ns"
    by (auto simp: sorted_map distinct_map sorted_wrt_filter)
  ultimately have ans: "shift_answers
      (case ?ns of [] \<Rightarrow> NotFound | [n] \<Rightarrow> Found n | _ \<Rightarrow> Ambiguous ?ns) ?C"
    using find_shifted_answers [of ?ns] by metis
  have "find_shifted_generic (hash_len s) (validate s) a ls radius =
      Some (case ?ns of [] \<Rightarrow> NotFound | [n] \<Rightarrow> Found n | _ \<Rightarrow> Ambiguous ?ns)"
    unfolding find_shifted_generic_def Let_def find_shifted_loop_spec [OF assms(1,2)] E_def
    by (simp only: Option.bind_lunit)
  with ans show ?thesis by blast
qed

end

section \<open>The three schemes keep the promise\<close>

definition wf_content :: "content_only \<Rightarrow> bool" where
  "wf_content s \<longleftrightarrow> 0 < co_hash_len s \<and> co_hash_len s \<le> 4"

definition wf_chunk_scheme :: "chunk_scheme \<Rightarrow> bool" where
  "wf_chunk_scheme s \<longleftrightarrow> 0 < ck_hash_len s \<and> ck_hash_len s \<le> 4 \<and> 0 < ck_chunk_size s"

definition wf_checkpoint :: "checkpoint_scheme \<Rightarrow> bool" where
  "wf_checkpoint s \<longleftrightarrow> 0 < cp_hash_len s \<and> cp_hash_len s \<le> 4 \<and> 0 < cp_interval s"

fun wf_scheme :: "dyn_scheme \<Rightarrow> bool" where
  "wf_scheme (ContentOnly s) = wf_content s"
| "wf_scheme (ChunkFingerprint s) = wf_chunk_scheme s"
| "wf_scheme (CheckpointChain s) = wf_checkpoint s"

lemma line_at_range: "line_at a ls = (if 0 < pa_line a \<and> pa_line a \<le> length ls then Some (ls ! (pa_line a - 1)) else None)"
  by (auto simp: line_at_def vec_get_def)

text \<open>Every scheme generates, for each line, the local hash and a context that depends on the line.\<close>

definition anchors_by :: "nat \<Rightarrow> (nat \<Rightarrow> rstring option) \<Rightarrow> rstring list \<Rightarrow> anchor list" where
  "anchors_by n ctx ls =
     map (\<lambda>i. \<lparr>a_line = i + 1, a_local = letters (line_hash (ls ! i)) n, a_context = ctx i\<rparr>)
       [0..<length ls]"

lemma anchors_by_numbered:
  assumes "0 < n" "n \<le> 4" "\<And>i c. i < length ls \<Longrightarrow> ctx i = Some c \<Longrightarrow> \<exists>h. encode_hash h n = Some c"
  shows "well_numbered n ls (anchors_by n ctx ls)"
  using assms encode_hash_letters [of n] by (auto simp: well_numbered_def anchors_by_def)

lemma those_enumerate:
  assumes "\<And>i. i < length ls \<Longrightarrow> f (i, ls ! i) = Some (g i)"
  shows "those (map f (enumerate 0 ls)) = Some (map g [0..<length ls])"
proof -
  have "map f (enumerate 0 ls) = map (\<lambda>i. f (i, ls ! i)) [0..<length ls]"
    by (rule nth_equalityI) (simp_all add: nth_enumerate_eq)
  then show ?thesis using those_map [of "[0..<length ls]" "\<lambda>i. f (i, ls ! i)" g] assms by simp
qed

lemma content_generate_eq:
  "wf_content s \<Longrightarrow> content_generate_anchors s ls = Some (anchors_by (co_hash_len s) (\<lambda>_. None) ls)"
  unfolding content_generate_anchors_def anchors_by_def
  by (intro those_enumerate) (simp add: wf_content_def encode_hash_letters)

interpretation content: anchor_scheme wf_content co_hash_len content_generate_anchors content_validate
proof
  fix s a ls gs and i :: nat
  assume s: "wf_content s"
  then show "0 < co_hash_len s \<and> co_hash_len s \<le> 4" by (simp add: wf_content_def)
  show "\<exists>gs. content_generate_anchors s ls = Some gs \<and> well_numbered (co_hash_len s) ls gs"
    using s anchors_by_numbered [of "co_hash_len s" ls "\<lambda>_. None"]
    by (simp add: content_generate_eq wf_content_def)
  show "\<not> (0 < pa_line a \<and> pa_line a \<le> length ls) \<Longrightarrow> content_validate s a ls = Some OutOfRange"
    by (auto simp: content_validate_def line_at_range)
  show "content_generate_anchors s ls = Some gs \<Longrightarrow> i < length ls \<Longrightarrow> pa_line a = i + 1 \<Longrightarrow>
      content_validate s a ls = Some (if agrees a (gs ! i) then Valid else Stale)"
    using s
    by (auto simp: encode_hash_letters content_validate_def line_at_range content_generate_eq anchors_by_def agrees_def wf_content_def)
qed

lemma div_ceil_gt: "0 < d \<Longrightarrow> i < n \<Longrightarrow> i div d < div_ceil n d"
proof -
  assume d: "0 < d" "i < n"
  show ?thesis
  proof (cases "n mod d = 0")
    case True
    then have "i < n div d * d" using d by auto
    then show ?thesis using True d by (simp add: div_ceil_def less_mult_imp_div_less)
  next
    case False
    have "i div d \<le> n div d" using d by (simp add: div_le_mono)
    then show ?thesis using False by (simp add: div_ceil_def)
  qed
qed

lemma chunk_generate_eq:
  assumes "wf_chunk_scheme s"
  shows "chunk_generate_anchors s ls = Some (anchors_by (ck_hash_len s) (chunk_fingerprint s ls) ls)"
proof -
  let ?cs = "ck_chunk_size s"
  let ?n = "div_ceil (length ls) ?cs"
  let ?fp = "\<lambda>k. letters (mix_lines (fnv1a_32 (utf8_bytes (lit ''chunk'')))
      (vec_range ls (k * ?cs) (min (k * ?cs + ?cs) (length ls)))) (ck_hash_len s)"
  have n: "0 < ck_hash_len s" "ck_hash_len s \<le> 4" "0 < ?cs"
    using assms by (auto simp: wf_chunk_scheme_def)
  have fps: "those (map (\<lambda>k. Some (?fp k)) [0..<?n]) = Some (map ?fp [0..<?n])"
    by (rule those_map) simp
  have "vec_get (map ?fp [0..<?n]) (i div ?cs) = chunk_fingerprint s ls i" if "i < length ls" for i
    using div_ceil_gt [OF n(3) that] n
    by (simp add: vec_get_def chunk_fingerprint_def Let_def encode_hash_letters)
  with n show ?thesis
    unfolding chunk_generate_anchors_def Let_def encode_hash_letters [OF n(1,2)] fps anchors_by_def
    by (auto intro!: those_enumerate)
qed

lemma validate_with_context:
  assumes "0 < n" "n \<le> 4" "i < length ls" "pa_line a = i + 1" "fp i = Some f"
  shows "(case line_at a ls of
        None \<Rightarrow> Some OutOfRange
      | Some line \<Rightarrow> do {
          expected_local \<leftarrow> encode_hash (line_hash line) n;
          if pa_local a \<noteq> expected_local then Some Stale
          else case pa_context a of
            None \<Rightarrow> Some Stale
          | Some expected_ctx \<Rightarrow> do {
              actual_ctx \<leftarrow> fp (pa_line a - 1);
              Some (if expected_ctx \<noteq> actual_ctx then Stale else Valid)
            }
        }) = Some (if agrees a (anchors_by n fp ls ! i) then Valid else Stale)"
  using assms by (cases "pa_context a")
    (simp_all add: line_at_range encode_hash_letters anchors_by_def agrees_def)

lemma chunk_fingerprint_total:
  "wf_chunk_scheme s \<Longrightarrow> \<exists>h. chunk_fingerprint s ls i = encode_hash h (ck_hash_len s)"
  by (auto simp: chunk_fingerprint_def wf_chunk_scheme_def Let_def)

interpretation chunk: anchor_scheme wf_chunk_scheme ck_hash_len chunk_generate_anchors chunk_validate
proof
  fix s a ls gs and i :: nat
  assume s: "wf_chunk_scheme s"
  then show n: "0 < ck_hash_len s \<and> ck_hash_len s \<le> 4" by (simp add: wf_chunk_scheme_def)
  show "\<exists>gs. chunk_generate_anchors s ls = Some gs \<and> well_numbered (ck_hash_len s) ls gs"
    using n anchors_by_numbered chunk_fingerprint_total [OF s, of ls]
    unfolding chunk_generate_eq [OF s] by (metis (no_types, lifting))
  show "\<not> (0 < pa_line a \<and> pa_line a \<le> length ls) \<Longrightarrow> chunk_validate s a ls = Some OutOfRange"
    by (auto simp: chunk_validate_def line_at_range)
  obtain h where "chunk_fingerprint s ls i = encode_hash h (ck_hash_len s)"
    using chunk_fingerprint_total [OF s] by blast
  with n have fp: "chunk_fingerprint s ls i = Some (letters h (ck_hash_len s))"
    by (simp add: encode_hash_letters)
  assume "chunk_generate_anchors s ls = Some gs" "i < length ls" "pa_line a = i + 1"
  then show "chunk_validate s a ls = Some (if agrees a (gs ! i) then Valid else Stale)"
    using n validate_with_context [of "ck_hash_len s" i ls a "chunk_fingerprint s ls", OF _ _ _ _ fp] chunk_generate_eq [OF s, of ls]
    unfolding chunk_validate_def by simp
qed

lemma foldl_take_Suc:
  "k < length xs \<Longrightarrow> foldl f a (take (Suc k) xs) = f (foldl f a (take k xs)) (xs ! k)"
  by (simp add: take_Suc_conv_app_nth)

text \<open>The running chain of \<open>generate_anchors\<close> is the chain from the last checkpoint.\<close>

definition chain_at :: "checkpoint_scheme \<Rightarrow> rstring list \<Rightarrow> nat \<Rightarrow> u32" where
  "chain_at s ls i = mix_lines (fnv1a_32 (utf8_bytes (lit ''ckpt'')))
     (vec_range ls (i div cp_interval s * cp_interval s) (i + 1))"

lemma chain_at_step:
  assumes "0 < cp_interval s" "i < length ls"
  shows "chain_at s ls i = fnv_mix
    (if i mod cp_interval s = 0 then fnv1a_32 (utf8_bytes (lit ''ckpt'')) else chain_at s ls (i - 1))
    (line_hash (ls ! i))"
proof -
  let ?d = "cp_interval s"
  let ?b = "i div ?d * ?d"
  have b: "?b \<le> i" "i - ?b = i mod ?d" "?b + i mod ?d = i" by (simp_all add: minus_div_mult_eq_mod)
  have len: "i mod ?d < length (drop ?b ls)" "drop ?b ls ! (i mod ?d) = ls ! i"
    using b assms by (simp_all only: length_drop nth_drop order.strict_implies_order order.trans)
  have rng: "vec_range ls ?b (i + 1) = Some (take (Suc (i mod ?d)) (drop ?b ls))"
    using b assms by (simp add: vec_range_def Suc_diff_le le_SucI)
  have here: "chain_at s ls i = fnv_mix (foldl (\<lambda>h line. fnv_mix h (line_hash line))
      (fnv1a_32 (utf8_bytes (lit ''ckpt''))) (take (i mod ?d) (drop ?b ls))) (line_hash (ls ! i))"
    unfolding chain_at_def mix_lines_def rng option.case foldl_take_Suc [OF len(1)] len(2) ..
  show ?thesis
  proof (cases "i mod ?d = 0")
    case True
    with here show ?thesis by (simp del: lit_simps)
  next
    case False
    then have "0 < i" by (cases i) auto
    then have i: "i = Suc (i - 1)" by simp
    have "(i - 1) div ?d = i div ?d"
      using False assms(1) i by (metis div_Suc mod_Suc)
    moreover have "i - 1 + 1 - ?b = i mod ?d" using b \<open>0 < i\<close> by simp
    moreover have "?b \<le> i - 1 + 1" using b \<open>0 < i\<close> by simp
    ultimately have "chain_at s ls (i - 1) = foldl (\<lambda>h line. fnv_mix h (line_hash line))
      (fnv1a_32 (utf8_bytes (lit ''ckpt''))) (take (i mod ?d) (drop ?b ls))"
      using assms \<open>0 < i\<close> by (simp add: chain_at_def mix_lines_def vec_range_def del: lit_simps)
    with here False show ?thesis by simp
  qed
qed

lemma checkpoint_fingerprint_chain:
  "0 < cp_interval s \<Longrightarrow> checkpoint_fingerprint s ls i = encode_hash (chain_at s ls i) (cp_hash_len s)"
  by (simp add: checkpoint_fingerprint_def chain_at_def Let_def)

lemma checkpoint_loop_eq:
  assumes "wf_checkpoint s" "i \<le> length ls"
    and "i < length ls \<Longrightarrow> i mod cp_interval s \<noteq> 0 \<Longrightarrow> chain = chain_at s ls (i - 1)"
  shows "checkpoint_loop s i chain (drop i ls) =
    Some (drop i (anchors_by (cp_hash_len s) (checkpoint_fingerprint s ls) ls))"
  using assms(2,3)
proof (induction "length ls - i" arbitrary: i chain)
  case 0
  then show ?case by (simp add: anchors_by_def)
next
  case (Suc k)
  have n: "0 < cp_hash_len s" "cp_hash_len s \<le> 4" "0 < cp_interval s"
    using assms(1) by (auto simp: wf_checkpoint_def)
  from Suc have i: "i < length ls" by simp
  let ?c = "if i mod cp_interval s = 0 then fnv1a_32 (utf8_bytes (lit ''ckpt'')) else chain"
  have c: "fnv_mix ?c (line_hash (ls ! i)) = chain_at s ls i"
    using chain_at_step [OF n(3) i] Suc.prems(2) [OF i] by simp
  have "checkpoint_loop s (i + 1) (chain_at s ls i) (drop (i + 1) ls) =
      Some (drop (i + 1) (anchors_by (cp_hash_len s) (checkpoint_fingerprint s ls) ls))"
    using Suc by (intro Suc.hyps(1)) auto
  moreover have "drop i (anchors_by (cp_hash_len s) (checkpoint_fingerprint s ls) ls) =
      \<lparr>a_line = i + 1, a_local = letters (line_hash (ls ! i)) (cp_hash_len s),
       a_context = checkpoint_fingerprint s ls i\<rparr> #
      drop (i + 1) (anchors_by (cp_hash_len s) (checkpoint_fingerprint s ls) ls)"
    using i by (subst Cons_nth_drop_Suc [symmetric]) (simp_all add: anchors_by_def)
  moreover have "drop i ls = ls ! i # drop (i + 1) ls" using i by (simp add: Cons_nth_drop_Suc)
  ultimately show ?case
    using n c by (simp add: Let_def encode_hash_letters checkpoint_fingerprint_chain del: lit_simps)
qed

lemma checkpoint_generate_eq:
  assumes "wf_checkpoint s"
  shows "checkpoint_generate_anchors s ls =
    Some (anchors_by (cp_hash_len s) (checkpoint_fingerprint s ls) ls)"
  using checkpoint_loop_eq [OF assms, of 0 ls] by (simp add: checkpoint_generate_anchors_def)

interpretation ckpt: anchor_scheme wf_checkpoint cp_hash_len checkpoint_generate_anchors checkpoint_validate
proof
  fix s a ls gs and i :: nat
  assume s: "wf_checkpoint s"
  then show n: "0 < cp_hash_len s \<and> cp_hash_len s \<le> 4" by (simp add: wf_checkpoint_def)
  have fp: "checkpoint_fingerprint s ls i = encode_hash (chain_at s ls i) (cp_hash_len s)" for i
    using s by (simp add: checkpoint_fingerprint_chain wf_checkpoint_def)
  show "\<exists>gs. checkpoint_generate_anchors s ls = Some gs \<and> well_numbered (cp_hash_len s) ls gs"
    using n anchors_by_numbered fp unfolding checkpoint_generate_eq [OF s] by (metis (no_types, lifting))
  show "\<not> (0 < pa_line a \<and> pa_line a \<le> length ls) \<Longrightarrow> checkpoint_validate s a ls = Some OutOfRange"
    by (auto simp: checkpoint_validate_def line_at_range)
  from fp n have fp': "checkpoint_fingerprint s ls i = Some (letters (chain_at s ls i) (cp_hash_len s))"
    by (simp add: encode_hash_letters)
  assume "checkpoint_generate_anchors s ls = Some gs" "i < length ls" "pa_line a = i + 1"
  then show "checkpoint_validate s a ls = Some (if agrees a (gs ! i) then Valid else Stale)"
    using n validate_with_context [of "cp_hash_len s" i ls a "checkpoint_fingerprint s ls", OF _ _ _ _ fp'] checkpoint_generate_eq [OF s, of ls]
    unfolding checkpoint_validate_def by simp
qed

interpretation dyn: anchor_scheme wf_scheme scheme_hash_len generate_anchors scheme_validate
proof
  fix s a ls gs and i :: nat
  assume s: "wf_scheme s"
  then show "0 < scheme_hash_len s \<and> scheme_hash_len s \<le> 4"
    by (cases s) (auto simp: content.hash_len_range chunk.hash_len_range ckpt.hash_len_range)
  show "\<exists>gs. generate_anchors s ls = Some gs \<and> well_numbered (scheme_hash_len s) ls gs"
    using s by (cases s) (auto simp: content.generate_total chunk.generate_total ckpt.generate_total)
  show "\<not> (0 < pa_line a \<and> pa_line a \<le> length ls) \<Longrightarrow> scheme_validate s a ls = Some OutOfRange"
    using s by (cases s) (simp_all add: content.validate_range chunk.validate_range ckpt.validate_range)
  show "generate_anchors s ls = Some gs \<Longrightarrow> i < length ls \<Longrightarrow> pa_line a = i + 1 \<Longrightarrow>
      scheme_validate s a ls = Some (if agrees a (gs ! i) then Valid else Stale)"
    using s content.validate_line chunk.validate_line ckpt.validate_line by (cases s) force+
qed

section \<open>Rendering and parsing\<close>

lemma lowercase_bytes: "lowercase_text s \<Longrightarrow> list_all is_ascii_lowercase (utf8_bytes s)"
proof (induction s)
  case (Cons c s)
  then have "97 \<le> c" "c \<le> 122" by (auto simp: lowercase_text_def)
  then have "is_ascii_lowercase (of_nat c)"
    by (simp add: is_ascii_lowercase_def word_le_nat_alt unat_of_nat)
  then show ?case using Cons \<open>c \<le> 122\<close> by (auto simp: lowercase_text_def utf8_char_def)
qed simp

lemma lowercase_bytes_no_colon: "list_all is_ascii_lowercase (utf8_bytes s) \<Longrightarrow> colon \<notin> set s"
proof
  assume l: "list_all is_ascii_lowercase (utf8_bytes s)" and "colon \<in> set s"
  then have "set (utf8_char colon) \<subseteq> set (utf8_bytes s)" by (auto simp: utf8_bytes_def)
  then have "is_ascii_lowercase 58" using l by (simp add: utf8_char_def list_all_iff)
  then show False by (simp add: is_ascii_lowercase_def)
qed

definition wf_parsed :: "parsed_anchor \<Rightarrow> bool" where
  "wf_parsed a \<longleftrightarrow> 0 < pa_line a \<and> pa_line a < 2 ^ 64 \<and>
     pa_local a \<noteq> [] \<and> list_all is_ascii_lowercase (utf8_bytes (pa_local a)) \<and>
     (\<forall>c. pa_context a = Some c \<longrightarrow> c \<noteq> [] \<and> list_all is_ascii_lowercase (utf8_bytes c))"

lemma colon_not_dec: "colon \<notin> set (dec n)"
  using dec_set [of colon n] by auto

lemma parse_render_parsed:
  assumes "wf_parsed a"
  shows "parsed_anchor_parse (parsed_anchor_render a) = Some a"
proof -
  have l: "colon \<notin> set (pa_local a)"
    using assms lowercase_bytes_no_colon by (auto simp: wf_parsed_def)
  show ?thesis
  proof (cases "pa_context a")
    case None
    have "splitn 3 colon (parsed_anchor_render a) = [dec (pa_line a), pa_local a]"
      using None l colon_not_dec split_once_None [of colon "pa_local a"]
      by (simp add: parsed_anchor_render_def numeral_3_eq_3 del: split_once_None)
    then show ?thesis using assms None
      by (simp add: parsed_anchor_parse_def wf_parsed_def vec_get_def Let_def)
  next
    case (Some c)
    have "splitn 3 colon (parsed_anchor_render a) = [dec (pa_line a), pa_local a, c]"
      using Some l colon_not_dec by (simp add: parsed_anchor_render_def numeral_3_eq_3)
    then show ?thesis using assms Some
      by (simp add: parsed_anchor_parse_def wf_parsed_def vec_get_def Let_def)
  qed
qed

lemma parse_unsigned_bound: "parse_unsigned b s = Some n \<Longrightarrow> n < b"
  by (auto simp: parse_unsigned_def Let_def split: if_splits)

lemma parse_wf: "parsed_anchor_parse s = Some a \<Longrightarrow> wf_parsed a"
  by (auto simp: parsed_anchor_parse_def wf_parsed_def Let_def bind_eq_Some_conv
      dest: parse_unsigned_bound split: if_splits option.splits)

lemma generated_wf:
  assumes "wf_scheme s" "generate_anchors s ls = Some gs" "g \<in> set gs" "length ls < 2 ^ 64"
  shows "wf_parsed (as_parsed g)"
proof -
  from assms(3) obtain i where i: "i < length gs" "gs ! i = g" by (auto simp: in_set_conv_nth)
  have enc: "c \<noteq> [] \<and> list_all is_ascii_lowercase (utf8_bytes c)"
    if "encode_hash h (scheme_hash_len s) = Some c" for h c
    using encode_hash_Some [OF that] lowercase_bytes by fastforce
  have "well_numbered (scheme_hash_len s) ls gs" using dyn.generate_numbered [OF assms(1,2)] .
  then have "length gs = length ls" "a_line g = i + 1"
    "encode_hash (line_hash (ls ! i)) (scheme_hash_len s) = Some (a_local g)"
    "\<And>c. a_context g = Some c \<Longrightarrow> \<exists>h. encode_hash h (scheme_hash_len s) = Some c"
    using i by (auto simp: well_numbered_def)
  with i assms(4) show ?thesis
    unfolding wf_parsed_def as_parsed_def using enc by fastforce
qed

lemma render_as_parsed: "anchor_render g = parsed_anchor_render (as_parsed g)"
  by (cases "a_context g") (simp_all add: anchor_render_def parsed_anchor_render_def as_parsed_def)

section \<open>Properties of the schemes\<close>

lemma default_chunk_wf: "wf_scheme (ChunkFingerprint chunk_new)"
  by (simp add: wf_chunk_scheme_def chunk_new_def DEFAULT_HASH_LEN_def DEFAULT_CHUNK_SIZE_def)

lemma default_chunk_generates: "\<exists>gs. generate_anchors (ChunkFingerprint chunk_new) ls = Some gs"
  using dyn.generate_total [OF default_chunk_wf] by blast

lemma validate_at:
  assumes "wf_scheme s" "generate_anchors s ls = Some gs" "0 < n" "n \<le> length ls"
  shows "scheme_validate s (a\<lparr>pa_line := n\<rparr>) ls = Some Valid \<longleftrightarrow> agrees a (gs ! (n - 1))"
  using dyn.validate_line [OF assms(1,2), of "n - 1" "a\<lparr>pa_line := n\<rparr>"] assms(3,4)
  by (simp add: agrees_def)

text \<open>C24. Every constructed scheme generates one anchor per line without panicking, numbered from
  1. The text of each generated anchor parses back to the same anchor, and that anchor validates
  against the file it was generated from. Parsing is stable: what it accepts, rendered again, parses
  to the same anchor.\<close>

theorem anchors_roundtrip:
  assumes "wf_scheme s" "length ls < 2 ^ 64"
  shows "\<exists>gs. generate_anchors s ls = Some gs \<and> map a_line gs = [1..<length ls + 1] \<and>
     (\<forall>g \<in> set gs. parsed_anchor_parse (anchor_render g) = Some (as_parsed g) \<and>
        scheme_validate s (as_parsed g) ls = Some Valid) \<and>
     (\<forall>t a. parsed_anchor_parse t = Some a \<longrightarrow> parsed_anchor_parse (parsed_anchor_render a) = Some a)"
proof -
  obtain gs where gs: "generate_anchors s ls = Some gs" using dyn.generate_total [OF assms(1)] by blast
  have "map a_line gs = [1..<length ls + 1]"
    using dyn.generate_numbered [OF assms(1) gs]
    by (intro nth_equalityI) (auto simp: well_numbered_def simp del: upt_Suc)
  moreover have "parsed_anchor_parse (anchor_render g) = Some (as_parsed g) \<and>
        scheme_validate s (as_parsed g) ls = Some Valid" if "g \<in> set gs" for g
    using generated_wf [OF assms(1) gs that assms(2)] parse_render_parsed
      dyn.fresh_valid [OF assms(1) gs that] by (simp add: render_as_parsed)
  ultimately show ?thesis using gs parse_wf parse_render_parsed by blast
qed

theorem anchors_roundtrip_witness:
  "\<exists>gs. generate_anchors (ChunkFingerprint chunk_new) [lit ''fn main'', lit ''end''] = Some gs \<and>
     (\<forall>g \<in> set gs. parsed_anchor_parse (anchor_render g) = Some (as_parsed g))"
  using anchors_roundtrip [OF default_chunk_wf, of "[lit ''fn main'', lit ''end'']"] by fastforce

text \<open>The contexts that \<open>generate_anchors\<close> computes once per chunk, or with one running chain,
  are the fingerprints that \<open>validate\<close> recomputes for the single line.\<close>

theorem generated_contexts:
  "(wf_chunk_scheme s \<longrightarrow>
      (\<exists>gs. chunk_generate_anchors s ls = Some gs \<and>
        map a_context gs = map (chunk_fingerprint s ls) [0..<length ls])) \<and>
   (wf_checkpoint c \<longrightarrow>
      (\<exists>gs. checkpoint_generate_anchors c ls = Some gs \<and>
        map a_context gs = map (checkpoint_fingerprint c ls) [0..<length ls]))"
  by (simp add: chunk_generate_eq checkpoint_generate_eq anchors_by_def comp_def)

theorem generated_contexts_witness:
  "\<exists>gs. chunk_generate_anchors chunk_new [lit ''a''] = Some gs \<and>
        map a_context gs = map (chunk_fingerprint chunk_new [lit ''a'']) [0..<1]"
  using generated_contexts [of chunk_new "[lit ''a'']"] default_chunk_wf by simp

lemma vec_range_window:
  assumes "take n (drop b ls) = take n (drop b ls')" "0 < n" "b < length ls"
  shows "b < length ls' \<and>
    vec_range ls b (min (b + n) (length ls)) = vec_range ls' b (min (b + n) (length ls'))"
proof -
  have len: "min n (length ls - b) = min n (length ls' - b)"
    using arg_cong [OF assms(1), of length] by (simp add: min.commute)
  then have "b < length ls'" using assms(2,3) by (simp add: min_def split: if_splits)
  then show ?thesis
    using len assms(1,3) by (simp add: vec_range_def min_def split: if_splits)
qed

lemma take_drop_nth:
  assumes "take n (drop b ls) = take n (drop b ls')" "b \<le> i" "i < b + n" "i < length ls"
  shows "i < length ls' \<and> ls' ! i = ls ! i"
proof -
  have len: "min n (length ls - b) = min n (length ls' - b)"
    using arg_cong [OF assms(1), of length] by (simp add: min.commute)
  then have "i < length ls'" using assms(2-4) by (simp add: min_def split: if_splits)
  moreover have "take n (drop b ls) ! (i - b) = take n (drop b ls') ! (i - b)" using assms(1) by simp
  ultimately show ?thesis using assms(2-4) by simp
qed

lemma chunk_bounds: "0 < d \<Longrightarrow> i div d * d \<le> i \<and> i < i div d * d + (d::nat)"
  by (metis add.commute div_mult_mod_eq le_add1 mod_less_divisor mult.commute nat_add_left_cancel_less)

text \<open>How far an edit reaches. Under the chunk scheme the answer of \<open>validate\<close> for a line
  depends only on the fixed-size chunk that holds it; under the checkpoint scheme only on the lines
  from the last checkpoint to the line itself; under the content scheme only on the line's own
  fingerprint. Two files that agree there give the same answer, whatever happens elsewhere.\<close>

theorem validate_locality:
  assumes "pa_line a = i + 1" "i < length ls" "i < length ls'"
  shows "(wf_content s \<longrightarrow> line_hash (ls ! i) = line_hash (ls' ! i) \<longrightarrow>
      content_validate s a ls = content_validate s a ls') \<and>
   (wf_chunk_scheme k \<longrightarrow>
      take (ck_chunk_size k) (drop (i div ck_chunk_size k * ck_chunk_size k) ls) =
      take (ck_chunk_size k) (drop (i div ck_chunk_size k * ck_chunk_size k) ls') \<longrightarrow>
      chunk_validate k a ls = chunk_validate k a ls') \<and>
   (wf_checkpoint c \<longrightarrow>
      take (i mod cp_interval c + 1) (drop (i div cp_interval c * cp_interval c) ls) =
      take (i mod cp_interval c + 1) (drop (i div cp_interval c * cp_interval c) ls') \<longrightarrow>
      checkpoint_validate c a ls = checkpoint_validate c a ls')"
proof (intro conjI impI)
  assume "line_hash (ls ! i) = line_hash (ls' ! i)"
  then show "content_validate s a ls = content_validate s a ls'"
    using assms by (simp add: content_validate_def line_at_range)
next
  let ?n = "ck_chunk_size k"
  assume k: "wf_chunk_scheme k"
    and eq: "take ?n (drop (i div ?n * ?n) ls) = take ?n (drop (i div ?n * ?n) ls')"
  from k have n: "0 < ?n" by (simp add: wf_chunk_scheme_def)
  from vec_range_window [OF eq n] chunk_bounds [OF n, of i] assms
  have "chunk_fingerprint k ls i = chunk_fingerprint k ls' i"
    by (simp add: chunk_fingerprint_def Let_def)
  moreover have "ls' ! i = ls ! i"
    using take_drop_nth [OF eq, of i] chunk_bounds [OF n, of i] assms by simp
  ultimately show "chunk_validate k a ls = chunk_validate k a ls'"
    using assms k by (simp add: chunk_validate_def line_at_range encode_hash_letters wf_chunk_scheme_def
        split: option.splits)
next
  let ?n = "cp_interval c" and ?m = "i mod cp_interval c + 1"
  assume c: "wf_checkpoint c"
    and eq: "take ?m (drop (i div ?n * ?n) ls) = take ?m (drop (i div ?n * ?n) ls')"
  from c have n: "0 < ?n" by (simp add: wf_checkpoint_def)
  have b: "i div ?n * ?n + ?m = i + 1" by simp
  have "min (i + 1) (length ls) = i + 1" "min (i + 1) (length ls') = i + 1" using assms by auto
  moreover have "i div ?n * ?n < length ls" using chunk_bounds [OF n, of i] assms by linarith
  ultimately have "vec_range ls (i div ?n * ?n) (i + 1) = vec_range ls' (i div ?n * ?n) (i + 1)"
    using vec_range_window [OF eq] unfolding b by simp
  then have "checkpoint_fingerprint c ls i = checkpoint_fingerprint c ls' i"
    by (simp add: checkpoint_fingerprint_def Let_def)
  moreover have "ls' ! i = ls ! i"
    using take_drop_nth [OF eq, of i] chunk_bounds [OF n, of i] assms b by simp
  ultimately show "checkpoint_validate c a ls = checkpoint_validate c a ls'"
    using assms c by (simp add: checkpoint_validate_def line_at_range encode_hash_letters wf_checkpoint_def
        split: option.splits)
qed

theorem validate_locality_witness:
  "chunk_validate \<lparr>ck_hash_len = 3, ck_chunk_size = 1\<rparr>
      \<lparr>pa_line = 1, pa_local = lit ''abc'', pa_context = None\<rparr> [lit ''a'', lit ''b''] =
   chunk_validate \<lparr>ck_hash_len = 3, ck_chunk_size = 1\<rparr>
      \<lparr>pa_line = 1, pa_local = lit ''abc'', pa_context = None\<rparr> [lit ''a'', lit ''z'', lit ''y'']"
  using validate_locality [of "\<lparr>pa_line = 1, pa_local = lit ''abc'', pa_context = None\<rparr>" 0
      "[lit ''a'', lit ''b'']" "[lit ''a'', lit ''z'', lit ''y'']" undefined "\<lparr>ck_hash_len = 3, ck_chunk_size = 1\<rparr>"]
  by (simp add: wf_chunk_scheme_def)

lemma find_shifted_of_spec:
  assumes "wf_scheme s" "generate_anchors s ls = Some gs" "0 < pa_line a" "pa_line a < 2 ^ 64"
    and "radius < 2 ^ 62" "length ls < 2 ^ 62"
    and "\<And>n. 0 < n \<Longrightarrow> n \<le> length ls \<Longrightarrow>
      M n \<longleftrightarrow> pa_local a = a_local (gs ! (n - 1)) \<and> (pa_context a \<noteq> None \<longrightarrow> agrees a (gs ! (n - 1)))"
  shows "\<exists>r. find_shifted s a ls radius = Some r \<and>
    shift_answers r (shift_candidates M (pa_line a) (length ls) radius)"
proof -
  have "shift_candidates M (pa_line a) (length ls) radius = shift_candidates
      (\<lambda>n. pa_local a = a_local (gs ! (n - 1)) \<and> (pa_context a \<noteq> None \<longrightarrow> agrees a (gs ! (n - 1))))
      (pa_line a) (length ls) radius"
    using assms(7) by (auto simp: shift_candidates_def)
  with dyn.find_shifted_spec [OF assms(1-6)] show ?thesis by (simp only: find_shifted_def)
qed

fun has_context :: "dyn_scheme \<Rightarrow> bool" where
  "has_context (ContentOnly _) = False"
| "has_context _ = True"

lemma has_context_generated:
  assumes "wf_scheme s" "generate_anchors s ls = Some gs" "i < length ls"
  shows "a_context (gs ! i) \<noteq> None \<longleftrightarrow> has_context s"
proof (cases s)
  case (ContentOnly k)
  then show ?thesis using assms by (auto simp: content_generate_eq anchors_by_def)
next
  case (ChunkFingerprint k)
  with assms chunk_fingerprint_total [of k ls i] show ?thesis
    by (auto simp: chunk_generate_eq anchors_by_def encode_hash_letters chunk.hash_len_range)
next
  case (CheckpointChain k)
  with assms checkpoint_fingerprint_chain [of k ls i] show ?thesis
    by (auto simp: checkpoint_generate_eq anchors_by_def encode_hash_letters wf_checkpoint_def)
qed

text \<open>Recovery of a shifted anchor, for an anchor that carries the context its scheme uses:
  \<open>find_shifted\<close> looks at the lines at most \<open>search_radius\<close> away, the original line excepted, and
  answers \<open>Found\<close> with the one line that validates, \<open>Ambiguous\<close> with all of them in order when
  there are several, \<open>NotFound\<close> when there is none. The wrap-around of the end of the range does
  not matter, even for a line number just below \<open>usize::MAX\<close>.\<close>

theorem find_shifted_correct:
  assumes "wf_scheme s" "has_context s \<longrightarrow> pa_context a \<noteq> None"
    and "0 < pa_line a" "pa_line a < 2 ^ 64" "radius < 2 ^ 62" "length ls < 2 ^ 62"
  shows "\<exists>r. find_shifted s a ls radius = Some r \<and>
    shift_answers r (shift_candidates (\<lambda>n. scheme_validate s (a\<lparr>pa_line := n\<rparr>) ls = Some Valid)
      (pa_line a) (length ls) radius)"
proof -
  obtain gs where gs: "generate_anchors s ls = Some gs" using dyn.generate_total [OF assms(1)] by blast
  show ?thesis
  proof (rule find_shifted_of_spec [OF assms(1) gs assms(3-6)])
    fix n assume n: "0 < n" "n \<le> length ls"
    have "a_context (gs ! (n - 1)) \<noteq> None \<longleftrightarrow> has_context s"
      using has_context_generated [OF assms(1) gs, of "n - 1"] n by simp
    then show "(scheme_validate s (a\<lparr>pa_line := n\<rparr>) ls = Some Valid) \<longleftrightarrow>
      pa_local a = a_local (gs ! (n - 1)) \<and> (pa_context a \<noteq> None \<longrightarrow> agrees a (gs ! (n - 1)))"
      unfolding validate_at [OF assms(1) gs n] using assms(2) by (auto simp: agrees_def)
  qed
qed

theorem find_shifted_correct_witness:
  "\<exists>r. find_shifted (ChunkFingerprint chunk_new)
        \<lparr>pa_line = 2, pa_local = lit ''abc'', pa_context = Some (lit ''xyz'')\<rparr> [lit ''a'', lit ''b''] 15 = Some r"
  using find_shifted_correct [OF default_chunk_wf,
      of "\<lparr>pa_line = 2, pa_local = lit ''abc'', pa_context = Some (lit ''xyz'')\<rparr>" 15 "[lit ''a'', lit ''b'']"]
  by auto

text \<open>A truncated anchor, without the context its scheme requires, never validates at any line.
  Yet \<open>find_shifted\<close> skips the scheme's \<open>validate\<close> for it and answers with the lines whose local
  hash matches, so it can return \<open>Found\<close> for a line that does not validate under the scheme.\<close>

theorem find_shifted_truncated:
  assumes "wf_scheme s" "has_context s" "pa_context a = None"
    and "0 < pa_line a" "pa_line a < 2 ^ 64" "radius < 2 ^ 62" "length ls < 2 ^ 62"
  shows "(\<forall>n. scheme_validate s (a\<lparr>pa_line := n\<rparr>) ls \<noteq> Some Valid) \<and>
    (\<exists>r. find_shifted s a ls radius = Some r \<and>
      shift_answers r (shift_candidates
        (\<lambda>n. encode_hash (line_hash (ls ! (n - 1))) (scheme_hash_len s) = Some (pa_local a))
        (pa_line a) (length ls) radius))"
proof
  obtain gs where gs: "generate_anchors s ls = Some gs" using dyn.generate_total [OF assms(1)] by blast
  show "\<forall>n. scheme_validate s (a\<lparr>pa_line := n\<rparr>) ls \<noteq> Some Valid"
  proof
    fix n
    show "scheme_validate s (a\<lparr>pa_line := n\<rparr>) ls \<noteq> Some Valid"
    proof (cases "0 < n \<and> n \<le> length ls")
      case True
      then have "n - 1 < length ls" by linarith
      from has_context_generated [OF assms(1) gs this] show ?thesis
        using True validate_at [OF assms(1) gs, of n a] assms(2,3) by (auto simp: agrees_def)
    next
      case False
      then show ?thesis using dyn.validate_range [OF assms(1), of "a\<lparr>pa_line := n\<rparr>"] by simp
    qed
  qed
  show "\<exists>r. find_shifted s a ls radius = Some r \<and> shift_answers r (shift_candidates
        (\<lambda>n. encode_hash (line_hash (ls ! (n - 1))) (scheme_hash_len s) = Some (pa_local a))
        (pa_line a) (length ls) radius)"
    using dyn.local_hash [OF assms(1) gs] assms(3)
    by (intro find_shifted_of_spec [OF assms(1) gs assms(4-7)]) auto
qed

theorem find_shifted_truncated_witness:
  "\<exists>a n. scheme_validate (ChunkFingerprint chunk_new) (a\<lparr>pa_line := n\<rparr>) [lit ''a'', lit ''b''] \<noteq> Some Valid \<and>
     find_shifted (ChunkFingerprint chunk_new) a [lit ''a'', lit ''b''] 15 = Some (Found n)"
proof -
  let ?a = "\<lparr>pa_line = 1, pa_local = letters (line_hash (lit ''b'')) 3, pa_context = None\<rparr>"
  let ?ls = "[lit ''a'', lit ''b'']"
  have len: "scheme_hash_len (ChunkFingerprint chunk_new) = 3"
    by (simp add: chunk_new_def DEFAULT_HASH_LEN_def)
  have "shift_candidates
      (\<lambda>n. encode_hash (line_hash (?ls ! (n - 1))) 3 = Some (pa_local ?a)) (pa_line ?a) (length ?ls) 15 = {2}"
    by (auto simp: shift_candidates_def encode_hash_letters le_Suc_eq numeral_2_eq_2 simp del: lit_simps)
  with find_shifted_truncated [OF default_chunk_wf, of ?a 15 ?ls]
  obtain r where r: "scheme_validate (ChunkFingerprint chunk_new) (?a\<lparr>pa_line := 2\<rparr>) ?ls \<noteq> Some Valid"
    "find_shifted (ChunkFingerprint chunk_new) ?a ?ls 15 = Some r" "shift_answers r {2}"
    unfolding len by auto
  have "r = Found 2"
  proof (cases r)
    case (Ambiguous ns)
    with r(3) have "card (set ns) = length ns" "set ns = {2}" "2 \<le> length ns"
      by (auto simp: shift_answers_def distinct_card)
    then show ?thesis by simp
  qed (use r(3) in \<open>auto simp: shift_answers_def\<close>)
  with r show ?thesis by blast
qed

text \<open>Building a scheme from its parameters never trips the assertions of the constructors: the
  result is an error message exactly when the parameters do not validate, and otherwise a scheme of
  the requested kind with a hash length from 1 to 4 and a chunk size that is not zero. The default
  parameters build the chunk scheme.\<close>

theorem build_scheme_safe:
  "(\<exists>r. build_scheme p = Some r \<and>
     (case r of Inl e \<Rightarrow> params_validate p = Inl e
      | Inr s \<Rightarrow> params_validate p = Inr () \<and> wf_scheme s \<and> scheme_hash_len s = hp_hash_len p \<and>
          (has_context s \<longleftrightarrow> hp_scheme p = lit ''chunk''))) \<and>
   build_scheme default_hashline_params =
     Some (Inr (ChunkFingerprint \<lparr>ck_hash_len = 3, ck_chunk_size = 8\<rparr>))"
  by (auto simp: build_scheme_def params_validate_def content_with_hash_len_def chunk_with_params_def
      wf_content_def wf_chunk_scheme_def default_hashline_params_def)

end
