(* ===== verification/Hashline_Edit.thy ===== *)
theory Hashline_Edit
  imports Anchor_Scheme Apply_Patch "HOL-Library.Product_Lexorder" "HOL-Library.Multiset"
begin

text \<open>
  The hashline edit tool's core (\<open>edit/apply.rs\<close>, \<open>edit/types.rs\<close>, \<open>edit/range_policy.rs\<close>) and
  the reader that hands out anchors (\<open>format_hashline_content\<close> of \<open>read_file.rs\<close>). \<open>None\<close> is a
  panic: a failed assertion below, a subtraction that underflows, a splice out of range. Paths are
  their text. The \<open>debug!\<close> record of a recovered anchor is not modelled.
\<close>

section \<open>Types\<close>

datatype hashline_op =
  Replace rstring "rstring option" rstring
| InsertAfter rstring rstring
| Write rstring

datatype edit_error_kind =
  AnchorStale | AmbiguousAnchor | AnchorNotFound | FileNotFound | OverlappingEdits | InvalidInput | IoError

record edit_error =
  e_error :: edit_error_kind
  e_message :: rstring
  e_requested_anchor :: "rstring option"
  e_current :: "rstring option"
  e_context :: "rstring option"
  e_context_start_line :: "nat option"
  e_shifted_to :: "nat option"
  e_shifted_anchor :: "rstring option"
  e_ambiguous_candidates :: "nat list"

record edits_applied =
  ea_applied :: nat
  ea_scheme :: rstring
  ea_snippet_start_line :: nat
  ea_snippet :: rstring
  ea_absolute_path :: rstring
  ea_warnings :: "rstring list"

datatype edit_output = EditsApplied edits_applied | EditError edit_error

record resolved_op =
  ro_original_idx :: nat
  ro_start :: nat
  ro_end :: nat
  ro_new_lines :: "rstring list"

record edit_region_detail =
  ed_old_line :: nat
  ed_old_text :: rstring
  ed_new_line :: nat
  ed_new_text :: rstring

record apply_result =
  ar_output :: edit_output
  ar_new_content :: "rstring option"
  ar_edit_details :: "edit_region_detail list"

definition plain_error :: "edit_error_kind \<Rightarrow> rstring \<Rightarrow> rstring option \<Rightarrow> edit_error" where
  "plain_error kind message requested =
     \<lparr>e_error = kind, e_message = message, e_requested_anchor = requested, e_current = None,
      e_context = None, e_context_start_line = None, e_shifted_to = None, e_shifted_anchor = None,
      e_ambiguous_candidates = []\<rparr>"

abbreviation arrow :: rchar where "arrow \<equiv> 8594"

definition checked_sub :: "nat \<Rightarrow> nat \<Rightarrow> nat option" where
  "checked_sub a b = (if b \<le> a then Some (a - b) else None)"

section \<open>Range policy\<close>

definition SMALL_MAX :: nat where "SMALL_MAX = 5"
definition MEDIUM_MAX :: nat where "MEDIUM_MAX = 20"

datatype range_size = Small | Medium | Large

definition range_classify :: "nat \<Rightarrow> range_size" where
  "range_classify line_count =
     (if line_count \<le> SMALL_MAX then Small else if line_count \<le> MEDIUM_MAX then Medium else Large)"

definition range_warning :: "nat \<Rightarrow> nat \<Rightarrow> rstring option" where
  "range_warning start end =
     (let count = end - start in
      case range_classify count of
        Large \<Rightarrow> Some (lit ''Caution: large range edit ('' @ dec count @ lit '' lines, lines '' @
                   dec (start + 1) @ lit ''-'' @ dec end @ lit ''). Verify the target range is correct.'')
      | Medium \<Rightarrow> Some (lit ''Note: medium range edit ('' @ dec count @ lit '' lines, lines '' @
                   dec (start + 1) @ lit ''-'' @ dec end @ lit '').'')
      | Small \<Rightarrow> None)"

section \<open>Reading with anchors\<close>

definition anchor_suffix :: "anchor \<Rightarrow> rstring" where
  "anchor_suffix a =
     (case a_context a of Some ctx \<Rightarrow> a_local a @ [colon] @ ctx | None \<Rightarrow> a_local a)"

fun format_loop :: "anchor list \<Rightarrow> bool \<Rightarrow> (nat \<times> rstring) list \<Rightarrow> rstring \<times> rstring" where
  "format_loop anchors first [] = ([], [])"
| "format_loop anchors first ((i, line) # rest) =
     (let sep = (if first then [] else [nl]);
          (out, raw) = format_loop anchors False rest
      in case vec_get anchors i of
           None \<Rightarrow> (sep @ out, sep @ raw)
         | Some anchor \<Rightarrow>
             (sep @ dec (i + 1) @ [colon] @ anchor_suffix anchor @ [arrow] @ line @ out,
              sep @ line @ raw))"

definition format_hashline_content ::
  "rstring \<Rightarrow> nat option \<Rightarrow> nat option \<Rightarrow> dyn_scheme \<Rightarrow> (rstring \<times> rstring) option" where
  "format_hashline_content file_content off limit scheme =
     (let all_lines = split_lines file_content in
      do {
        anchors \<leftarrow> generate_anchors scheme all_lines;
        let skip_n = (case off of Some o' \<Rightarrow> o' | None \<Rightarrow> 1) - 1;
        let take_n = (case limit of Some l \<Rightarrow> l | None \<Rightarrow> 2 ^ 64 - 1);
        Some (format_loop anchors True (take take_n (drop skip_n (enumerate 0 all_lines))))
      })"

section \<open>Helpers\<close>

definition SNIPPET_CONTEXT :: nat where "SNIPPET_CONTEXT = 3"

definition clamp_1_4 :: "nat \<Rightarrow> nat" where
  "clamp_1_4 n = max 1 (min 4 n)"

definition anchor_format_hint :: "dyn_scheme \<Rightarrow> (rstring \<times> rstring) option" where
  "anchor_format_hint scheme =
     (let len = clamp_1_4 (scheme_hash_len scheme);
          hash = take len (lit ''abcd'')
      in do {
        anchors \<leftarrow> generate_anchors scheme [lit ''x''];
        let has_ctx = (case vec_get anchors 0 of Some a \<Rightarrow> a_context a \<noteq> None | None \<Rightarrow> False);
        Some (if has_ctx
              then (lit ''LINE:HASH1:HASH2'', lit ''22:'' @ hash @ [colon] @ take len (lit ''rstu''))
              else (lit ''LINE:HASH'', lit ''22:'' @ hash))
      })"

definition looks_like_anchor :: "(rstring \<times> rstring) option \<Rightarrow> bool" where
  "looks_like_anchor split =
     (case split of
        Some (before, _) \<Rightarrow> utf8_len before \<le> 25 \<and> colon \<in> set before \<and> 32 \<notin> set before
      | None \<Rightarrow> False)"

fun detect_loop :: "nat \<Rightarrow> rstring list \<Rightarrow> nat option" where
  "detect_loop idx [] = None"
| "detect_loop idx (line # rest) =
     (let s = trim_start line in
      if looks_like_anchor (split_once arrow s) then Some (idx + 1)
      else if looks_like_anchor (split_once_str (lit ''->'') s) then Some (idx + 1)
      else detect_loop (idx + 1) rest)"

definition detect_anchor_prefix_in_content :: "rstring \<Rightarrow> nat option" where
  "detect_anchor_prefix_in_content content = detect_loop 0 (lines content)"

definition nth_or_empty :: "rstring list \<Rightarrow> nat \<Rightarrow> rstring" where
  "nth_or_empty ls i = (case vec_get ls i of Some l \<Rightarrow> l | None \<Rightarrow> [])"

definition anchor_content_error :: "rstring \<Rightarrow> rstring \<Rightarrow> nat \<Rightarrow> edit_error" where
  "anchor_content_error op_label content line_num =
     (let ls = lines content;
          ctx_start = line_num - 1 - 1;
          ctx_end = min (line_num + 1) (length ls);
          context = join [nl] (map (\<lambda>i.
            (if i + 1 = line_num then lit ''>>>'' else lit ''   '') @ lit '' line '' @ dec (i + 1) @
            lit '': '' @ nth_or_empty ls i) [ctx_start..<ctx_end])
      in \<lparr>e_error = InvalidInput,
          e_message = op_label @ lit '' content contains anchor prefixes (e.g. '' @ [dq] @ lit ''22:abc:rst'' @
            [arrow] @ [dq] @ lit '') copied from hashline_read output. The first offending line is line '' @
            dec line_num @ lit ''. Strip the anchor prefixes and the '' @ [arrow] @
            lit '' separator from every line, keeping only the actual file content, then retry.'',
          e_requested_anchor = None, e_current = Some (nth_or_empty ls (line_num - 1)),
          e_context = Some context, e_context_start_line = Some (ctx_start + 1),
          e_shifted_to = None, e_shifted_anchor = None, e_ambiguous_candidates = []\<rparr>)"

definition render_anchored_line :: "anchor \<Rightarrow> rstring \<Rightarrow> rstring" where
  "render_anchored_line a content = dec (a_line a) @ [colon] @ anchor_suffix a @ [arrow] @ content"

section \<open>Resolving an operation\<close>

definition suffix_matches :: "rstring \<Rightarrow> anchor \<Rightarrow> bool" where
  "suffix_matches suffix a =
     (case (a_context a, split_once colon suffix) of
        (Some ctx, Some (local, sfx_ctx)) \<Rightarrow> a_local a = local \<and> ctx = sfx_ctx
      | (None, None) \<Rightarrow> a_local a = suffix
      | _ \<Rightarrow> False)"

definition recover_anchor_by_suffix ::
  "rstring \<Rightarrow> rstring list \<Rightarrow> dyn_scheme \<Rightarrow> parsed_anchor option option" where
  "recover_anchor_by_suffix suffix ls scheme = do {
     anchors \<leftarrow> generate_anchors scheme ls;
     Some (case filter (suffix_matches suffix) anchors of
             [a] \<Rightarrow> Some \<lparr>pa_line = a_line a, pa_local = a_local a, pa_context = a_context a\<rparr>
           | _ \<Rightarrow> None)
   }"

definition strip_arrow :: "rstring \<Rightarrow> rstring" where
  "strip_arrow anchor_str =
     (case split_once arrow anchor_str of
        Some (pre, _) \<Rightarrow> pre
      | None \<Rightarrow> (case split_once_str (lit ''->'') anchor_str of Some (pre, _) \<Rightarrow> pre | None \<Rightarrow> anchor_str))"

definition debug_list :: "nat list \<Rightarrow> rstring" where
  "debug_list ns = lit ''['' @ join (lit '', '') (map dec ns) @ lit '']''"

definition stale_error ::
  "rstring \<Rightarrow> parsed_anchor \<Rightarrow> rstring list \<Rightarrow> dyn_scheme \<Rightarrow> edit_error option" where
  "stale_error anchor_str parsed ls scheme = do {
     shift \<leftarrow> find_shifted scheme parsed ls DEFAULT_SEARCH_RADIUS;
     anchors \<leftarrow> generate_anchors scheme ls;
     let recovery_ctx = 5;
     let ctx_start = pa_line parsed - 1 - recovery_ctx;
     let ctx_end = min (pa_line parsed + recovery_ctx) (length ls);
     let context = join [nl] (List.map_filter (\<lambda>i.
           case (vec_get anchors i, vec_get ls i) of
             (Some a, Some l) \<Rightarrow> Some (render_anchored_line a l)
           | _ \<Rightarrow> None) [ctx_start..<ctx_end]);
     let idx = pa_line parsed - 1;
     let current = (case (vec_get anchors idx, vec_get ls idx) of
             (Some a, Some l) \<Rightarrow> Some (render_anchored_line a l)
           | _ \<Rightarrow> None);
     let stale_at = lit ''Anchor stale at line '' @ dec (pa_line parsed);
     let (shifted_to, shifted_anchor, candidates, kind, message) =
       (case shift of
          Found new_line \<Rightarrow>
            let fresh = (case (if new_line = 0 then None else vec_get anchors (new_line - 1)) of
                           Some a \<Rightarrow> dec new_line @ [colon] @ anchor_suffix a
                         | None \<Rightarrow> dec new_line)
            in (Some new_line, Some fresh, [], AnchorStale,
                stale_at @ lit ''. Content appears to have shifted to line '' @ dec new_line @
                lit ''. Retry with anchor '' @ [dq] @ fresh @ [dq] @ lit ''.'')
        | Ambiguous candidates \<Rightarrow>
            (None, None, candidates, AmbiguousAnchor,
             stale_at @ lit ''. Multiple candidates at lines '' @ debug_list candidates @
             lit ''. Use the fresh anchors from the context below to retry your edit.'')
        | NotFound \<Rightarrow>
            (None, None, [], AnchorStale,
             stale_at @ lit ''. Use the fresh anchors from the context below to retry your edit.''));
     Some \<lparr>e_error = kind, e_message = message, e_requested_anchor = Some anchor_str,
           e_current = current, e_context = Some context, e_context_start_line = Some (ctx_start + 1),
           e_shifted_to = shifted_to, e_shifted_anchor = shifted_anchor,
           e_ambiguous_candidates = candidates\<rparr>
   }"

definition check_parsed ::
  "rstring \<Rightarrow> parsed_anchor \<Rightarrow> rstring list \<Rightarrow> dyn_scheme \<Rightarrow> (edit_error + nat) option" where
  "check_parsed anchor_str parsed ls scheme = do {
     result \<leftarrow> scheme_validate scheme parsed ls;
     case result of
       Valid \<Rightarrow> map_option Inr (checked_sub (pa_line parsed) 1)
     | OutOfRange \<Rightarrow>
         Some (Inl (plain_error AnchorNotFound
           (lit ''Line '' @ dec (pa_line parsed) @ lit '' is out of range (file has '' @
            dec (length ls) @ lit '' lines).'') (Some anchor_str)))
     | Stale \<Rightarrow> map_option Inl (stale_error anchor_str parsed ls scheme)
   }"

definition validate_anchor ::
  "rstring \<Rightarrow> rstring list \<Rightarrow> dyn_scheme \<Rightarrow> (edit_error + nat) option" where
  "validate_anchor anchor_text ls scheme =
     (let anchor_str = strip_arrow anchor_text in
      case parsed_anchor_parse anchor_str of
        Some p \<Rightarrow> check_parsed anchor_str p ls scheme
      | None \<Rightarrow> do {
          recovered \<leftarrow> recover_anchor_by_suffix anchor_str ls scheme;
          case recovered of
            Some p \<Rightarrow> check_parsed anchor_str p ls scheme
          | None \<Rightarrow> do {
              (fmt, ex) \<leftarrow> anchor_format_hint scheme;
              Some (Inl (plain_error InvalidInput
                (lit ''Malformed anchor: '' @ [dq] @ anchor_str @ [dq] @ lit ''. Expected format: '' @ [dq] @ fmt @
                 [dq] @ lit '' (e.g. '' @ [dq] @ ex @ [dq] @ lit '').'') (Some anchor_str)))
            }
        })"

definition resolve_replace ::
  "rstring \<Rightarrow> rstring option \<Rightarrow> rstring \<Rightarrow> nat \<Rightarrow> rstring list \<Rightarrow> dyn_scheme \<Rightarrow>
   (edit_error + resolved_op) option" where
  "resolve_replace anchor end_anchor content original_idx ls scheme = do {
     r \<leftarrow> validate_anchor anchor ls scheme;
     case r of
       Inl e \<Rightarrow> Some (Inl e)
     | Inr start \<Rightarrow> do {
         r' \<leftarrow> (case end_anchor of
             Some ea \<Rightarrow> do {
               v \<leftarrow> validate_anchor ea ls scheme;
               Some (case v of
                 Inl e \<Rightarrow> Inl e
               | Inr e \<Rightarrow>
                   if e < start then
                     Inl (plain_error InvalidInput
                       (lit ''end_anchor line '' @ dec (e + 1) @ lit '' is before start anchor line '' @
                        dec (start + 1) @ lit ''.'') (Some ea))
                   else Inr (e + 1))
             }
           | None \<Rightarrow> Some (Inr (start + 1)));
         Some (case r' of
           Inl e \<Rightarrow> Inl e
         | Inr end \<Rightarrow>
             (case detect_anchor_prefix_in_content content of
                Some line_num \<Rightarrow> Inl (anchor_content_error (lit ''replace'') content line_num)
              | None \<Rightarrow>
                  Inr \<lparr>ro_original_idx = original_idx, ro_start = start, ro_end = end,
                       ro_new_lines = (if content = [] then [] else lines content)\<rparr>))
       }
   }"

definition eof_position :: "rstring list \<Rightarrow> nat" where
  "eof_position ls =
     (let len = length ls in if 1 < len \<and> ls \<noteq> [] \<and> last ls = [] then len - 1 else len)"

definition resolve_insert ::
  "rstring \<Rightarrow> rstring \<Rightarrow> nat \<Rightarrow> rstring list \<Rightarrow> dyn_scheme \<Rightarrow> (edit_error + resolved_op) option" where
  "resolve_insert anchor content original_idx ls scheme = do {
     r \<leftarrow> (if anchor = lit ''0:'' then Some (Inr 0)
           else if anchor = lit ''EOF'' then Some (Inr (eof_position ls))
           else do {
             v \<leftarrow> validate_anchor anchor ls scheme;
             Some (case v of Inl e \<Rightarrow> Inl e | Inr line \<Rightarrow> Inr (line + 1))
           });
     Some (case r of
       Inl e \<Rightarrow> Inl e
     | Inr insert_at \<Rightarrow>
         (case detect_anchor_prefix_in_content content of
            Some line_num \<Rightarrow> Inl (anchor_content_error (lit ''insert_after'') content line_num)
          | None \<Rightarrow>
              Inr \<lparr>ro_original_idx = original_idx, ro_start = insert_at, ro_end = insert_at,
                   ro_new_lines = (if content = [] then [[]] else lines content)\<rparr>))
   }"

fun resolve_op ::
  "hashline_op \<Rightarrow> nat \<Rightarrow> rstring list \<Rightarrow> dyn_scheme \<Rightarrow> (edit_error + resolved_op) option" where
  "resolve_op (Replace anchor end_anchor content) original_idx ls scheme =
     resolve_replace anchor end_anchor content original_idx ls scheme"
| "resolve_op (InsertAfter anchor content) original_idx ls scheme =
     resolve_insert anchor content original_idx ls scheme"
| "resolve_op (Write _) original_idx ls scheme =
     Some (Inl (plain_error InvalidInput
       (lit ''Write op must be the only operation in a batch. Either use write alone (to replace the entire file) or use replace/insert_after ops without write.'')
       None))"

section \<open>Overlaps\<close>

definition describe_edit :: "nat \<Rightarrow> nat \<Rightarrow> nat \<Rightarrow> rstring" where
  "describe_edit start end idx =
     (if start = end
      then lit ''edit #'' @ dec (idx + 1) @ lit '' (insertion at line '' @ dec (start + 1) @ lit '')''
      else lit ''edit #'' @ dec (idx + 1) @ lit '' (lines '' @ dec (start + 1) @ lit ''-'' @ dec end @ lit '')'')"

definition overlap_error :: "nat \<Rightarrow> nat \<Rightarrow> nat \<Rightarrow> nat \<Rightarrow> nat \<Rightarrow> nat \<Rightarrow> edit_error" where
  "overlap_error a_start a_end a_idx b_start b_end b_idx =
     plain_error OverlappingEdits
       (lit ''Overlapping edits: '' @ describe_edit a_start a_end a_idx @ lit '' and '' @
        describe_edit b_start b_end b_idx @ lit ''.'') None"

fun windows_overlap :: "(nat \<times> nat \<times> nat) list \<Rightarrow> edit_error option" where
  "windows_overlap (prev # next # rest) =
     (if fst (snd prev) > fst next
      then Some (overlap_error (fst prev) (fst (snd prev)) (snd (snd prev))
                   (fst next) (fst (snd next)) (snd (snd next)))
      else windows_overlap (next # rest))"
| "windows_overlap _ = None"

fun insertion_in_ranges :: "nat \<Rightarrow> nat \<Rightarrow> (nat \<times> nat \<times> nat) list \<Rightarrow> edit_error option" where
  "insertion_in_ranges insert_at idx [] = None"
| "insertion_in_ranges insert_at idx ((rs, re, r_idx) # ranges) =
     (if rs \<le> insert_at \<and> insert_at < re
      then Some (overlap_error rs re r_idx insert_at insert_at idx)
      else insertion_in_ranges insert_at idx ranges)"

fun insertions_overlap :: "(nat \<times> nat \<times> nat) list \<Rightarrow> resolved_op list \<Rightarrow> edit_error option" where
  "insertions_overlap ranges [] = None"
| "insertions_overlap ranges (op # ops) =
     (if ro_start op \<noteq> ro_end op then insertions_overlap ranges ops
      else case insertion_in_ranges (ro_start op) (ro_original_idx op) ranges of
             Some e \<Rightarrow> Some e
           | None \<Rightarrow> insertions_overlap ranges ops)"

definition replaced_ranges :: "resolved_op list \<Rightarrow> (nat \<times> nat \<times> nat) list" where
  "replaced_ranges ops =
     sort_key fst (map (\<lambda>op. (ro_start op, ro_end op, ro_original_idx op))
       (filter (\<lambda>op. ro_start op \<noteq> ro_end op) ops))"

definition check_overlaps :: "resolved_op list \<Rightarrow> edit_error option" where
  "check_overlaps ops =
     (case windows_overlap (replaced_ranges ops) of
        Some e \<Rightarrow> Some e
      | None \<Rightarrow> insertions_overlap (replaced_ranges ops) ops)"

section \<open>Snippets\<close>

definition MAX_CONTIGUOUS_SNIPPET :: nat where "MAX_CONTIGUOUS_SNIPPET = 80"

text \<open>The merge loop; the accumulator holds the merged regions, the last one first.\<close>

fun merge_regions :: "nat \<Rightarrow> (nat \<times> nat) list \<Rightarrow> (nat \<times> nat) list \<Rightarrow> (nat \<times> nat) list" where
  "merge_regions total_new merged [] = rev merged"
| "merge_regions total_new merged ((start, end) # rest) =
     (let ctx_start = start - SNIPPET_CONTEXT;
          ctx_end = min (end + SNIPPET_CONTEXT) total_new
      in case merged of
           (ls, le) # ms \<Rightarrow>
             if ctx_start \<le> le then merge_regions total_new ((ls, max le ctx_end) # ms) rest
             else merge_regions total_new ((ctx_start, ctx_end) # merged) rest
         | [] \<Rightarrow> merge_regions total_new [(ctx_start, ctx_end)] rest)"

definition not_shown :: "nat \<Rightarrow> rstring" where
  "not_shown n = lit ''... '' @ dec n @ lit '' lines not shown ...''"

fun snippet_parts ::
  "rstring \<Rightarrow> dyn_scheme \<Rightarrow> nat \<Rightarrow> nat \<Rightarrow> nat \<Rightarrow> (nat \<times> nat) list \<Rightarrow> rstring list option" where
  "snippet_parts new_content scheme total_new i prev_end [] =
     Some (if prev_end < total_new then [not_shown (total_new - prev_end)] else [])"
| "snippet_parts new_content scheme total_new i prev_end ((start, end) # rest) = do {
     let gap = (if 0 < i then [not_shown (start - prev_end)]
                else if 0 < start then [not_shown start] else []);
     width \<leftarrow> checked_sub end start;
     (region_snippet, _) \<leftarrow> format_hashline_content new_content (Some (start + 1)) (Some width) scheme;
     parts \<leftarrow> snippet_parts new_content scheme total_new (i + 1) end rest;
     Some (gap @ region_snippet # parts)
   }"

definition build_snippet ::
  "rstring \<Rightarrow> (nat \<times> nat) list \<Rightarrow> nat \<Rightarrow> dyn_scheme \<Rightarrow> rstring option" where
  "build_snippet new_content edit_regions total_new_lines scheme =
     (if edit_regions = [] then Some []
      else
        let global_start = fst (hd edit_regions) - SNIPPET_CONTEXT;
            global_end = min (snd (last edit_regions) + SNIPPET_CONTEXT) total_new_lines
        in do {
          line_span \<leftarrow> checked_sub global_end global_start;
          if line_span \<le> MAX_CONTIGUOUS_SNIPPET
          then do {
            (snippet, _) \<leftarrow> format_hashline_content new_content (Some (global_start + 1)) (Some line_span) scheme;
            Some snippet
          }
          else do {
            parts \<leftarrow> snippet_parts new_content scheme total_new_lines 0 0
                      (merge_regions total_new_lines [] edit_regions);
            Some (join [nl] parts)
          }
        })"

definition build_write_result :: "rstring \<Rightarrow> rstring \<Rightarrow> dyn_scheme \<Rightarrow> edit_output option" where
  "build_write_result new_content file_path scheme = do {
     let total_new = length (split_lines new_content);
     let snippet_end = min (SNIPPET_CONTEXT * 2) total_new;
     (snippet, _) \<leftarrow> format_hashline_content new_content (Some 1) (Some snippet_end) scheme;
     Some (EditsApplied \<lparr>ea_applied = 1, ea_scheme = scheme_name scheme, ea_snippet_start_line = 1,
       ea_snippet = snippet, ea_absolute_path = file_path, ea_warnings = []\<rparr>)
   }"

section \<open>Applying a batch\<close>

definition op_label :: "hashline_op \<Rightarrow> rstring" where
  "op_label op =
     (case op of Replace _ _ _ \<Rightarrow> lit ''replace'' | InsertAfter _ _ \<Rightarrow> lit ''insert_after'' | Write _ \<Rightarrow> lit ''write'')"

definition failed_result :: "edit_error \<Rightarrow> apply_result" where
  "failed_result e = \<lparr>ar_output = EditError e, ar_new_content = None, ar_edit_details = []\<rparr>"

definition batch_error :: "hashline_op \<Rightarrow> nat \<Rightarrow> nat \<Rightarrow> edit_error \<Rightarrow> edit_error" where
  "batch_error op idx n e =
     (if 1 < n then
        e\<lparr>e_message := lit ''Edit '' @ dec (idx + 1) @ lit ''/'' @ dec n @ lit '' ('' @ op_label op @ lit ''): '' @
          e_message e @ [nl, nl] @ lit ''This batch contained '' @ dec n @
          lit '' edits. Because this anchor failed validation, none of the edits were applied. Retry all '' @
          dec n @ lit '' edits with fresh anchors, not just the failed one.''\<rparr>
      else e)"

definition overlap_batch_error :: "nat \<Rightarrow> edit_error \<Rightarrow> edit_error" where
  "overlap_batch_error n e =
     (if 1 < n then
        e\<lparr>e_message := e_message e @ [nl, nl] @ lit ''This batch contained '' @ dec n @
          lit '' edits. Because of the overlap, none were applied. Fix the overlapping ranges and retry all edits.''\<rparr>
      else e)"

fun resolve_all ::
  "nat \<Rightarrow> nat \<Rightarrow> hashline_op list \<Rightarrow> rstring list \<Rightarrow> dyn_scheme \<Rightarrow> (edit_error + resolved_op list) option" where
  "resolve_all n idx [] ls scheme = Some (Inr [])"
| "resolve_all n idx (op # ops) ls scheme = do {
     r \<leftarrow> resolve_op op idx ls scheme;
     case r of
       Inl e \<Rightarrow> Some (Inl (batch_error op idx n e))
     | Inr r \<Rightarrow> do {
         rest \<leftarrow> resolve_all n (idx + 1) ops ls scheme;
         Some (case rest of Inl e \<Rightarrow> Inl e | Inr rs \<Rightarrow> Inr (r # rs))
       }
   }"

definition sort_bottom_up :: "resolved_op list \<Rightarrow> resolved_op list" where
  "sort_bottom_up ops = sort_key (\<lambda>op. (- int (ro_start op), - int (ro_original_idx op))) ops"

definition usize_of_isize :: "int \<Rightarrow> nat" where
  "usize_of_isize x = nat (x mod 2 ^ 64)"

fun track_regions ::
  "rstring list \<Rightarrow> int \<Rightarrow> resolved_op list \<Rightarrow> ((nat \<times> nat) list \<times> edit_region_detail list) option" where
  "track_regions ls cumulative_shift [] = Some ([], [])"
| "track_regions ls cumulative_shift (op # ops) = do {
     let shifted_start = usize_of_isize (int (ro_start op) + cumulative_shift);
     replaced \<leftarrow> checked_sub (ro_end op) (ro_start op);
     let inserted = length (ro_new_lines op);
     let shifted_end = shifted_start + inserted;
     let old_text = (if ro_start op < ro_end op
       then (case vec_range ls (ro_start op) (ro_end op) of Some line_span \<Rightarrow> join [nl] line_span | None \<Rightarrow> [])
       else []);
     (regions, details) \<leftarrow> track_regions ls (cumulative_shift + int inserted - int replaced) ops;
     Some ((shifted_start, shifted_end) # regions,
           \<lparr>ed_old_line = ro_start op + 1, ed_old_text = old_text, ed_new_line = shifted_start + 1,
            ed_new_text = join [nl] (ro_new_lines op)\<rparr> # details)
   }"

definition vec_splice :: "nat \<Rightarrow> nat \<Rightarrow> 'a list \<Rightarrow> 'a list \<Rightarrow> 'a list option" where
  "vec_splice a b new xs =
     (if a \<le> b \<and> b \<le> length xs then Some (take a xs @ new @ drop b xs) else None)"

fun splice_all :: "resolved_op list \<Rightarrow> rstring list \<Rightarrow> rstring list option" where
  "splice_all [] ls = Some ls"
| "splice_all (op # ops) ls = do {
     ls' \<leftarrow> vec_splice (ro_start op) (ro_end op) (ro_new_lines op) ls;
     splice_all ops ls'
   }"

definition warnings_of :: "resolved_op list \<Rightarrow> rstring list" where
  "warnings_of ops = List.map_filter (\<lambda>op. range_warning (ro_start op) (ro_end op)) ops"

definition apply_resolved ::
  "rstring list \<Rightarrow> nat \<Rightarrow> resolved_op list \<Rightarrow> rstring \<Rightarrow> dyn_scheme \<Rightarrow> apply_result option" where
  "apply_resolved ls n resolved file_path scheme = do {
     let bottom_up = sort_bottom_up resolved;
     (edit_regions, edit_details) \<leftarrow> track_regions ls 0 (rev bottom_up);
     result_lines \<leftarrow> splice_all bottom_up ls;
     let new_content = join [nl] result_lines;
     let total_new_lines = length (split_lines new_content);
     let edit_regions = sort_key fst edit_regions;
     snippet \<leftarrow> build_snippet new_content edit_regions total_new_lines scheme;
     let snippet_start_line = (case edit_regions of r # _ \<Rightarrow> fst r - SNIPPET_CONTEXT + 1 | [] \<Rightarrow> 1);
     Some \<lparr>ar_output = EditsApplied
             \<lparr>ea_applied = n, ea_scheme = scheme_name scheme, ea_snippet_start_line = snippet_start_line,
              ea_snippet = snippet, ea_absolute_path = file_path, ea_warnings = warnings_of resolved\<rparr>,
           ar_new_content = Some new_content, ar_edit_details = edit_details\<rparr>
   }"

definition apply_batch ::
  "rstring \<Rightarrow> hashline_op list \<Rightarrow> rstring \<Rightarrow> dyn_scheme \<Rightarrow> apply_result option" where
  "apply_batch content ops file_path scheme = do {
     let ls = split_lines content;
     r \<leftarrow> resolve_all (length ops) 0 ops ls scheme;
     case r of
       Inl e \<Rightarrow> Some (failed_result e)
     | Inr resolved \<Rightarrow>
         (case check_overlaps resolved of
            Some err \<Rightarrow> Some (failed_result (overlap_batch_error (length ops) err))
          | None \<Rightarrow> apply_resolved ls (length ops) resolved file_path scheme)
   }"

definition apply_edits ::
  "rstring \<Rightarrow> hashline_op list \<Rightarrow> rstring \<Rightarrow> dyn_scheme \<Rightarrow> apply_result option" where
  "apply_edits content ops file_path scheme =
     (case ops of
        [Write new_content] \<Rightarrow>
          (case detect_anchor_prefix_in_content new_content of
             Some line_num \<Rightarrow> Some (failed_result (anchor_content_error (lit ''write'') new_content line_num))
           | None \<Rightarrow> do {
               out \<leftarrow> build_write_result new_content file_path scheme;
               Some \<lparr>ar_output = out, ar_new_content = Some new_content, ar_edit_details = []\<rparr>
             })
      | _ \<Rightarrow> apply_batch content ops file_path scheme)"

section \<open>Overlap detection\<close>

text \<open>Two operations of a batch conflict when both replace a line, or when one inserts in front of a
  line the other replaces.\<close>

definition conflict :: "resolved_op \<Rightarrow> resolved_op \<Rightarrow> bool" where
  "conflict a b \<longleftrightarrow>
     (if ro_start a = ro_end a then ro_start b \<le> ro_start a \<and> ro_start a < ro_end b
      else if ro_start b = ro_end b then ro_start a \<le> ro_start b \<and> ro_start b < ro_end a
      else ro_start a < ro_end b \<and> ro_start b < ro_end a)"

definition op_ok :: "nat \<Rightarrow> resolved_op \<Rightarrow> bool" where
  "op_ok len op \<longleftrightarrow> ro_start op \<le> ro_end op \<and> ro_end op \<le> len"

abbreviation compatible :: "resolved_op list \<Rightarrow> bool" where
  "compatible ops \<equiv> sorted_wrt (\<lambda>a b. \<not> conflict a b) ops"

lemma conflict_sym: "ro_start a \<le> ro_end a \<Longrightarrow> ro_start b \<le> ro_end b \<Longrightarrow> conflict a b \<longleftrightarrow> conflict b a"
  by (auto simp: conflict_def)

lemma sorted_wrt_mset:
  assumes "\<And>x y. x \<in> set xs \<Longrightarrow> y \<in> set xs \<Longrightarrow> P x y \<longleftrightarrow> P y x"
  shows "sorted_wrt P xs \<longleftrightarrow> (\<forall>x \<in># mset xs. \<forall>y \<in># mset xs - {#x#}. P x y)"
  using assms
proof (induction xs)
  case (Cons a xs)
  then have IH: "sorted_wrt P xs \<longleftrightarrow> (\<forall>x \<in># mset xs. \<forall>y \<in># mset xs - {#x#}. P x y)" by simp
  have "(\<forall>x \<in># add_mset a (mset xs). \<forall>y \<in># add_mset a (mset xs) - {#x#}. P x y) \<longleftrightarrow>
    (\<forall>y \<in># mset xs. P a y) \<and> (\<forall>x \<in># mset xs. \<forall>y \<in># mset xs - {#x#}. P x y)" (is "?L \<longleftrightarrow> ?R")
  proof
    assume L: ?L
    have "P x y" if "x \<in># mset xs" "y \<in># mset xs - {#x#}" for x y
      using L that by (metis add_mset_remove_trivial diff_union_swap insert_noteq_member
          union_single_eq_member mset_add set_mset_add_mset_insert insert_iff)
    then show ?R using L by auto
  next
    assume R: ?R
    have "P x y" if "x \<in># add_mset a (mset xs)" "y \<in># add_mset a (mset xs) - {#x#}" for x y
    proof (cases "x = a")
      case False
      then have x: "x \<in># mset xs" using that by simp
      then have "y = a \<or> y \<in># mset xs - {#x#}" using that(2) False by auto
      then show ?thesis using R x Cons.prems by auto
    qed (use that R in auto)
    then show ?L by blast
  qed
  then show ?case using IH by simp
qed simp

lemma sorted_wrt_permute:
  assumes "mset xs = mset ys" "\<And>x y. x \<in> set xs \<Longrightarrow> y \<in> set xs \<Longrightarrow> P x y \<longleftrightarrow> P y x"
  shows "sorted_wrt P xs \<longleftrightarrow> sorted_wrt P ys"
  using sorted_wrt_mset [of xs P] sorted_wrt_mset [of ys P] assms mset_eq_setD [OF assms(1)] by metis

definition apart :: "nat \<times> nat \<times> nat \<Rightarrow> nat \<times> nat \<times> nat \<Rightarrow> bool" where
  "apart p q \<longleftrightarrow> fst (snd p) \<le> fst q \<or> fst (snd q) \<le> fst p"

lemma windows_overlap_None:
  assumes "sorted (map fst rs)" "\<forall>r \<in> set rs. fst r < fst (snd r)"
  shows "windows_overlap rs = None \<longleftrightarrow> sorted_wrt apart rs"
  using assms
proof (induction rs rule: windows_overlap.induct)
  case (1 p q rest)
  show ?case
  proof (cases "fst (snd p) \<le> fst q")
    case True
    then have "\<forall>r \<in> set (q # rest). apart p r" using 1(2) by (auto simp: apart_def)
    with True 1 show ?thesis by simp
  next
    case False
    then have "\<not> apart p q" using 1(2,3) by (auto simp: apart_def)
    with False show ?thesis by simp
  qed
qed simp_all

lemma insertion_in_ranges_None:
  "insertion_in_ranges p idx rs = None \<longleftrightarrow> (\<forall>r \<in> set rs. \<not> (fst r \<le> p \<and> p < fst (snd r)))"
  by (induction p idx rs rule: insertion_in_ranges.induct) auto

lemma insertions_overlap_None:
  "insertions_overlap rs ops = None \<longleftrightarrow>
    (\<forall>op \<in> set ops. ro_start op = ro_end op \<longrightarrow>
       (\<forall>r \<in> set rs. \<not> (fst r \<le> ro_start op \<and> ro_start op < fst (snd r))))"
proof (induction ops)
  case (Cons op ops)
  have "insertions_overlap rs (op # ops) = None \<longleftrightarrow>
      (ro_start op = ro_end op \<longrightarrow> insertion_in_ranges (ro_start op) (ro_original_idx op) rs = None) \<and>
      insertions_overlap rs ops = None"
    by (simp split: option.splits)
  with Cons show ?case by (auto simp: insertion_in_ranges_None)
qed simp

lemma compatible_split:
  assumes "\<forall>op \<in> set ops. ro_start op \<le> ro_end op"
  shows "compatible ops \<longleftrightarrow>
    sorted_wrt apart (map (\<lambda>op. (ro_start op, ro_end op, ro_original_idx op))
       (filter (\<lambda>op. ro_start op \<noteq> ro_end op) ops)) \<and>
    (\<forall>i \<in> set ops. ro_start i = ro_end i \<longrightarrow> (\<forall>r \<in> set ops. ro_start r \<noteq> ro_end r \<longrightarrow>
       \<not> (ro_start r \<le> ro_start i \<and> ro_start i < ro_end r)))"
  using assms
proof (induction ops)
  case (Cons a ops)
  then have a: "ro_start a \<le> ro_end a" by simp
  show ?case
  proof (cases "ro_start a = ro_end a")
    case True
    then have "(\<forall>b \<in> set ops. \<not> conflict a b) \<longleftrightarrow> (\<forall>r \<in> set ops. ro_start r \<noteq> ro_end r \<longrightarrow>
       \<not> (ro_start r \<le> ro_start a \<and> ro_start a < ro_end r))"
      by (auto simp: conflict_def)
    with Cons True show ?thesis by auto
  next
    case False
    then have "(\<forall>b \<in> set ops. \<not> conflict a b) \<longleftrightarrow>
       (\<forall>b \<in> set ops. ro_start b \<noteq> ro_end b \<longrightarrow>
          apart (ro_start a, ro_end a, ro_original_idx a) (ro_start b, ro_end b, ro_original_idx b)) \<and>
       (\<forall>b \<in> set ops. ro_start b = ro_end b \<longrightarrow> \<not> (ro_start a \<le> ro_start b \<and> ro_start b < ro_end a))"
      by (auto simp: conflict_def apart_def)
    with Cons False show ?thesis by auto
  qed
qed simp

lemma check_overlaps_None:
  assumes "\<forall>op \<in> set ops. ro_start op \<le> ro_end op"
  shows "check_overlaps ops = None \<longleftrightarrow> compatible ops"
proof -
  let ?R = "map (\<lambda>op. (ro_start op, ro_end op, ro_original_idx op)) (filter (\<lambda>op. ro_start op \<noteq> ro_end op) ops)"
  have lt: "\<forall>r \<in> set (replaced_ranges ops). fst r < fst (snd r)"
    using assms by (auto simp: replaced_ranges_def less_le)
  have "windows_overlap (replaced_ranges ops) = None \<longleftrightarrow> sorted_wrt apart (replaced_ranges ops)"
    using lt by (intro windows_overlap_None) (simp_all add: replaced_ranges_def)
  also have "\<dots> \<longleftrightarrow> sorted_wrt apart ?R"
    by (intro sorted_wrt_permute) (auto simp: replaced_ranges_def apart_def)
  finally have w: "windows_overlap (replaced_ranges ops) = None \<longleftrightarrow> sorted_wrt apart ?R" .
  have "check_overlaps ops = None \<longleftrightarrow> windows_overlap (replaced_ranges ops) = None \<and>
      insertions_overlap (replaced_ranges ops) ops = None"
    by (auto simp: check_overlaps_def split: option.splits)
  then show ?thesis
    unfolding w insertions_overlap_None compatible_split [OF assms]
    by (auto simp: replaced_ranges_def)
qed

section \<open>Bottom-up splicing\<close>

definition as_splices :: "resolved_op list \<Rightarrow> (nat \<times> nat \<times> rstring list) list" where
  "as_splices ops = map (\<lambda>op. (ro_start op, ro_end op - ro_start op, ro_new_lines op)) ops"

text \<open>Top-down: by start line, operations at the same place in the order of the request.\<close>

definition top_down :: "resolved_op list \<Rightarrow> resolved_op list" where
  "top_down ops = sort_key ro_start ops"

lemma set_top_down [simp]: "set (top_down ops) = set ops" "mset (top_down ops) = mset ops"
  by (simp_all add: top_down_def)

lemma bottom_up_sorted:
  "sorted_wrt (\<lambda>a b. ro_start a < ro_start b \<or>
     ro_start a = ro_start b \<and> ro_original_idx a \<le> ro_original_idx b) (rev (sort_bottom_up ops))"
proof -
  have "sorted (map (\<lambda>op. (- int (ro_start op), - int (ro_original_idx op))) (sort_bottom_up ops))"
    by (simp add: sort_bottom_up_def)
  then show ?thesis
    by (auto simp: sorted_wrt_rev sorted_map less_eq_prod_def less_prod_def
        elim!: sorted_wrt_mono_rel [rotated])
qed

text \<open>The order the source sorts into is the reverse of it, for the operations of a request.\<close>

lemma top_down_rev:
  assumes "sorted_wrt (<) (map ro_original_idx ops)"
  shows "top_down ops = rev (sort_bottom_up ops)"
  unfolding top_down_def
proof (rule properties_for_sort_key)
  let ?r = "rev (sort_bottom_up ops)"
  show m: "mset ?r = mset ops" by (simp add: sort_bottom_up_def)
  show "sorted (map ro_start ?r)"
    unfolding sorted_map by (rule sorted_wrt_mono_rel [OF _ bottom_up_sorted]) auto
  fix k
  let ?P = "\<lambda>op. ro_start k = ro_start op"
  have "sorted_wrt (\<lambda>a b. ro_original_idx a \<le> ro_original_idx b) (filter ?P ?r)"
    by (rule sorted_wrt_mono_rel [OF _ sorted_wrt_filter [OF bottom_up_sorted]]) auto
  then have r: "sorted (map ro_original_idx (filter ?P ?r))" by (simp add: sorted_map)
  have idx: "sorted (map ro_original_idx ops)" "distinct (map ro_original_idx ops)"
    using assms strict_sorted_iff by blast+
  then have inj: "inj_on ro_original_idx (set (filter ?P ops))"
    by (auto simp: distinct_map intro: inj_on_subset)
  have "sorted (map ro_original_idx (filter ?P ops))"
    using idx(1) unfolding sorted_map by (rule sorted_wrt_filter)
  then have "sort_key ro_original_idx (filter ?P ops) = filter ?P ops" by (rule sort_key_id_if_sorted)
  moreover have "sort_key ro_original_idx (filter ?P ops) = filter ?P ?r"
    by (rule sort_key_inj_key_eq [OF _ inj r]) (metis m mset_filter)
  ultimately show "filter ?P ?r = filter ?P ops" by simp
qed

lemma no_conflict_after:
  "\<not> conflict a b \<Longrightarrow> ro_start a \<le> ro_start b \<Longrightarrow> ro_start b \<le> ro_end b \<Longrightarrow> ro_end a \<le> ro_start b"
  by (auto simp: conflict_def split: if_splits)

lemma top_down_separated:
  assumes "compatible ops" "\<forall>op \<in> set ops. ro_start op \<le> ro_end op"
  shows "sorted_wrt (\<lambda>a b. ro_end a \<le> ro_start b) (top_down ops)"
proof -
  have "compatible (top_down ops)"
    using assms sorted_wrt_permute [of ops "top_down ops" "\<lambda>a b. \<not> conflict a b"] conflict_sym by auto
  moreover have "sorted_wrt (\<lambda>a b. ro_start a \<le> ro_start b) (top_down ops)"
    using sorted_sort_key [of ro_start ops] by (simp add: top_down_def sorted_map)
  ultimately have "sorted_wrt (\<lambda>a b. \<not> conflict a b \<and> ro_start a \<le> ro_start b) (top_down ops)"
    by (simp add: sorted_wrt_iff_nth_less)
  then show ?thesis
    using no_conflict_after assms(2) by (elim sorted_wrt_mono_rel [rotated]) auto
qed

lemma separated_ordered:
  assumes "sorted_wrt (\<lambda>a b. ro_end a \<le> ro_start b) T" "\<forall>op \<in> set T. op_ok len op \<and> pos \<le> ro_start op"
    and "pos \<le> len"
  shows "ordered_from pos len (as_splices T)"
  using assms
proof (induction T arbitrary: pos)
  case (Cons a T)
  then have "ordered_from (ro_end a) len (as_splices T)" by (auto simp: op_ok_def)
  with Cons.prems show ?case by (auto simp: as_splices_def op_ok_def)
qed (simp add: as_splices_def)

lemma splice_all_append: "splice_all (xs @ ys) ls = splice_all xs ls \<bind> splice_all ys"
  by (induction xs ls rule: splice_all.induct) (auto split: bind_splits)

lemma splice_all_reference:
  assumes "ordered_from pos (length ls) (as_splices T)" "\<forall>op \<in> set T. ro_start op \<le> ro_end op"
  shows "splice_all (rev T) ls = Some (take pos ls @ splice_ranges pos (drop pos ls) (as_splices T))"
  using assms
proof (induction T arbitrary: pos)
  case (Cons a T)
  let ?s = "ro_start a" and ?e = "ro_end a"
  let ?X = "splice_ranges ?e (drop ?e ls) (as_splices T)"
  have ord: "pos \<le> ?s" "?s \<le> ?e" "ordered_from ?e (length ls) (as_splices T)"
    using Cons.prems by (auto simp: as_splices_def)
  have le: "?e \<le> length ls" using ordered_from_le [OF ord(3)] .
  have "splice_all (rev T) ls = Some (take ?e ls @ ?X)" using Cons ord by auto
  then have "splice_all (rev (a # T)) ls = vec_splice ?s ?e (ro_new_lines a) (take ?e ls @ ?X) \<bind> splice_all []"
    by (simp add: splice_all_append)
  also have "\<dots> = Some (take ?s ls @ ro_new_lines a @ ?X)"
    using le ord by (simp add: vec_splice_def min_def)
  also have "take ?s ls = take pos ls @ take (?s - pos) (drop pos ls)"
    using ord(1) by (metis le_add_diff_inverse take_add)
  finally show ?case using ord by (simp add: as_splices_def add.commute)
qed (simp add: as_splices_def)

section \<open>Anchors in requests\<close>

lemma find_shifted_total: "wf_scheme s \<Longrightarrow> \<exists>r. find_shifted s a ls radius = Some r"
  using dyn.generate_total [of s ls] dyn.find_shifted_loop_spec [of s ls]
  by (fastforce simp: find_shifted_def find_shifted_generic_def Let_def)

lemma check_parsed_ok:
  assumes "wf_scheme s"
  shows "\<exists>r. check_parsed t p ls s = Some r \<and>
    (\<forall>i. r = Inr i \<longrightarrow> i < length ls \<and> pa_line p = i + 1 \<and> scheme_validate s p ls = Some Valid)"
proof -
  obtain sh where "find_shifted s p ls DEFAULT_SEARCH_RADIUS = Some sh"
    using find_shifted_total [OF assms] by blast
  moreover obtain gs where "generate_anchors s ls = Some gs" using dyn.generate_total [OF assms] by blast
  ultimately have "\<exists>e. stale_error t p ls s = Some e"
    by (simp add: stale_error_def Let_def split: shift_result.splits)
  then show ?thesis
    using dyn.validate_cases [OF assms, of p ls] by (auto simp: check_parsed_def checked_sub_def)
qed

lemma anchor_format_hint_total: "wf_scheme s \<Longrightarrow> \<exists>h. anchor_format_hint s = Some h"
  using dyn.generate_total [of s "[lit ''x'']"] by (auto simp: anchor_format_hint_def Let_def)

lemma validate_anchor_ok:
  assumes "wf_scheme s"
  shows "\<exists>r. validate_anchor t ls s = Some r \<and> (\<forall>i. r = Inr i \<longrightarrow> i < length ls \<and>
    (\<exists>p. pa_line p = i + 1 \<and> scheme_validate s p ls = Some Valid))"
proof (cases "parsed_anchor_parse (strip_arrow t)")
  case (Some p)
  then show ?thesis using check_parsed_ok [OF assms, of "strip_arrow t" p ls]
    by (auto simp: validate_anchor_def Let_def)
next
  case None
  obtain rec where rec: "recover_anchor_by_suffix (strip_arrow t) ls s = Some rec"
    using dyn.generate_total [OF assms, of ls] by (auto simp: recover_anchor_by_suffix_def)
  obtain fmt ex where "anchor_format_hint s = Some (fmt, ex)"
    using anchor_format_hint_total [OF assms] by fastforce
  with None rec check_parsed_ok [OF assms, of "strip_arrow t" "the rec" ls] show ?thesis
    by (cases rec) (auto simp: validate_anchor_def Let_def)
qed

lemma resolve_op_ok:
  assumes "wf_scheme s"
  shows "\<exists>r. resolve_op op idx ls s = Some r \<and>
    (\<forall>x. r = Inr x \<longrightarrow> op_ok (length ls) x \<and> ro_original_idx x = idx)"
proof (cases op)
  case (Replace a ea c)
  obtain v where v: "validate_anchor a ls s = Some v" "\<And>i. v = Inr i \<Longrightarrow> i < length ls"
    using validate_anchor_ok [OF assms] by blast
  obtain w where w: "validate_anchor (the ea) ls s = Some w" "\<And>i. w = Inr i \<Longrightarrow> i < length ls"
    using validate_anchor_ok [OF assms] by blast
  show ?thesis
  proof (cases v)
    case (Inr start)
    have "start < length ls" using v(2) Inr .
    then show ?thesis using v w Inr Replace
      by (cases ea; cases w) (auto simp: resolve_replace_def op_ok_def split: option.splits)
  qed (use v Replace in \<open>simp add: resolve_replace_def\<close>)
next
  case (InsertAfter a c)
  obtain v where v: "validate_anchor a ls s = Some v" "\<And>i. v = Inr i \<Longrightarrow> i < length ls"
    using validate_anchor_ok [OF assms] by blast
  have "eof_position ls \<le> length ls" by (simp add: eof_position_def Let_def)
  with v InsertAfter show ?thesis
    by (cases v) (auto simp: resolve_insert_def op_ok_def Suc_le_eq split: option.splits)
qed simp

lemma resolve_all_ok:
  assumes "wf_scheme s"
  shows "\<exists>r. resolve_all n idx ops ls s = Some r \<and>
    (\<forall>xs. r = Inr xs \<longrightarrow> length xs = length ops \<and> (\<forall>x \<in> set xs. op_ok (length ls) x) \<and>
       map ro_original_idx xs = [idx..<idx + length ops])"
proof (induction ops arbitrary: idx)
  case (Cons op ops)
  obtain r where r: "resolve_op op idx ls s = Some r"
    "\<And>x. r = Inr x \<Longrightarrow> op_ok (length ls) x \<and> ro_original_idx x = idx"
    using resolve_op_ok [OF assms] by blast
  obtain q where q: "resolve_all n (idx + 1) ops ls s = Some q"
    "\<And>xs. q = Inr xs \<Longrightarrow> length xs = length ops \<and> (\<forall>x \<in> set xs. op_ok (length ls) x) \<and>
       map ro_original_idx xs = [idx + 1..<idx + 1 + length ops]"
    using Cons by blast
  show ?case
  proof (cases r)
    case (Inr x)
    with r q show ?thesis by (cases q) (auto simp: upt_rec [of idx])
  qed (use r in simp)
qed simp

section \<open>Regions and snippets\<close>

lemma length_split_inclusive:
  "length (split_inclusive x) = length (filter ((=) nl) x) + (if x = [] \<or> last x = nl then 0 else 1)"
proof (induction x)
  case (Cons c x)
  have "x \<noteq> [] \<Longrightarrow> split_inclusive x \<noteq> []" by (cases x) (auto split: list.splits)
  with Cons show ?case by (cases "x = []") (auto split: list.splits)
qed simp

lemma length_split_lines: "length (split_lines x) = length (filter ((=) nl) x) + 1"
  by (cases x rule: rev_cases)
    (auto simp: split_lines_def lines_def length_split_inclusive ends_with_def)

lemma newlines_in_join: "xs \<noteq> [] \<Longrightarrow> length xs \<le> length (filter ((=) nl) (join [nl] xs)) + 1"
proof (induction xs rule: induct_list012)
  case (3 x y zs)
  then show ?case by simp
qed simp_all

lemma length_split_lines_join: "length xs \<le> length (split_lines (join [nl] xs))"
  using newlines_in_join [of xs] by (cases "xs = []") (auto simp: length_split_lines)

definition placed :: "nat \<Rightarrow> rstring list \<Rightarrow> rstring list \<Rightarrow> resolved_op \<Rightarrow> nat \<times> nat \<Rightarrow> edit_region_detail \<Rightarrow> bool" where
  "placed pre R ls op reg d \<longleftrightarrow>
     pre \<le> fst reg \<and> snd reg = fst reg + length (ro_new_lines op) \<and> snd reg \<le> pre + length R \<and>
     take (length (ro_new_lines op)) (drop (fst reg - pre) R) = ro_new_lines op \<and>
     ed_old_line d = ro_start op + 1 \<and> ed_new_line d = fst reg + 1 \<and>
     ed_old_text d = join [nl] (take (ro_end op - ro_start op) (drop (ro_start op) ls)) \<and>
     ed_new_text d = join [nl] (ro_new_lines op)"

lemma placed_shift:
  assumes "placed (pre + length P) R ls op reg d"
  shows "placed pre (P @ R) ls op reg d"
  using assms by (auto simp: placed_def)

lemma track_regions_ok:
  assumes "ordered_from pos (length ls) (as_splices T)" "\<forall>op \<in> set T. op_ok (length ls) op"
    and "int pre = int pos + shift"
    and "pre + length (splice_ranges pos (drop pos ls) (as_splices T)) < 2 ^ 64"
  shows "\<exists>regs ds. track_regions ls shift T = Some (regs, ds) \<and>
    length regs = length T \<and> length ds = length T \<and>
    (\<forall>k < length T. placed pre (splice_ranges pos (drop pos ls) (as_splices T)) ls (T ! k) (regs ! k) (ds ! k)) \<and>
    sorted_wrt (\<lambda>a b. snd a \<le> fst b) regs \<and> (\<forall>r \<in> set regs. pre \<le> fst r)"
  using assms
proof (induction T arbitrary: pos pre shift)
  case (Cons a T)
  let ?s = "ro_start a" and ?e = "ro_end a" and ?new = "ro_new_lines a"
  let ?R = "splice_ranges ?e (drop ?e ls) (as_splices T)"
  let ?P = "take (?s - pos) (drop pos ls) @ ?new"
  let ?start = "pre + (?s - pos)"
  have ord: "pos \<le> ?s" "?s \<le> ?e" "?e \<le> length ls" "ordered_from ?e (length ls) (as_splices T)"
    using Cons.prems(1,2) by (auto simp: as_splices_def op_ok_def)
  have R: "splice_ranges pos (drop pos ls) (as_splices (a # T)) = ?P @ ?R"
    using ord by (simp add: as_splices_def add.commute)
  have lenP: "length ?P = ?s - pos + length ?new" using ord by simp
  have st: "int ?s + shift = int ?start" using Cons.prems(3) ord(1) by simp
  have start: "usize_of_isize (int ?s + shift) = ?start"
    using Cons.prems(4) ord unfolding st usize_of_isize_def R by (simp add: nat_mod_as_int [symmetric])
  have "int (pre + length ?P) = int ?e + (shift + int (length ?new) - int (?e - ?s))"
    using st ord lenP by simp
  moreover have "pre + length ?P + length ?R < 2 ^ 64" using Cons.prems(4) R by (simp add: add.assoc)
  ultimately obtain regs ds where IH: "track_regions ls (shift + int (length ?new) - int (?e - ?s)) T = Some (regs, ds)"
    "length regs = length T" "length ds = length T"
    "\<forall>k < length T. placed (pre + length ?P) ?R ls (T ! k) (regs ! k) (ds ! k)"
    "sorted_wrt (\<lambda>a b. snd a \<le> fst b) regs" "\<forall>r \<in> set regs. pre + length ?P \<le> fst r"
    using Cons.IH [OF ord(4)] Cons.prems(2) by (metis (no_types, lifting) list.set_intros(2))
  let ?reg = "(?start, ?start + length ?new)"
  let ?d = "\<lparr>ed_old_line = ?s + 1,
      ed_old_text = join [nl] (take (?e - ?s) (drop ?s ls)),
      ed_new_line = ?start + 1, ed_new_text = join [nl] ?new\<rparr>"
  have "track_regions ls shift (a # T) = Some (?reg # regs, ?d # ds)"
    using IH(1) ord by (auto simp: start checked_sub_def vec_range_def Let_def)
  moreover have "placed pre (?P @ ?R) ls a ?reg ?d"
    using ord by (simp add: placed_def) arith
  moreover have "\<forall>k < length T. placed pre (?P @ ?R) ls (T ! k) (regs ! k) (ds ! k)"
    using IH(4) placed_shift by blast
  moreover have "\<forall>r \<in> set regs. snd ?reg \<le> fst r \<and> pre \<le> fst r" using IH(6) lenP by fastforce
  ultimately show ?case unfolding R using IH(2,3,5)
    by (intro exI [of _ "?reg # regs"] exI [of _ "?d # ds"]) (auto simp: nth_Cons split: nat.splits)
qed (simp add: as_splices_def)

definition regions_ok :: "nat \<Rightarrow> (nat \<times> nat) list \<Rightarrow> bool" where
  "regions_ok n regs \<longleftrightarrow> (\<forall>r \<in> set regs. fst r \<le> snd r \<and> snd r \<le> n)"

lemma merge_regions_ok:
  assumes "regions_ok n regs" "n \<le> total_new" "\<forall>r \<in> set merged. fst r \<le> snd r"
  shows "\<forall>r \<in> set (merge_regions total_new merged regs). fst r \<le> snd r"
  using assms(1,3)
proof (induction regs arbitrary: merged)
  case (Cons r regs)
  note IH = Cons.IH
  obtain a b where r: "r = (a, b)" by (cases r)
  let ?c = "(a - SNIPPET_CONTEXT, min (b + SNIPPET_CONTEXT) total_new)"
  have c: "fst ?c \<le> snd ?c" using Cons.prems(1) assms(2) by (auto simp: regions_ok_def r)
  have rest: "regions_ok n regs" using Cons.prems(1) by (simp add: regions_ok_def)
  show ?case
  proof (cases merged)
    case Nil
    have "\<forall>r \<in> set (merge_regions total_new [?c] regs). fst r \<le> snd r"
      using c by (intro IH [OF rest]) simp
    with Nil show ?thesis by (simp add: r Let_def)
  next
    case (Cons m ms)
    obtain p q where m: "m = (p, q)" by (cases m)
    have "\<forall>r \<in> set (merge_regions total_new ((p, max q (snd ?c)) # ms) regs). fst r \<le> snd r"
      using \<open>\<forall>r \<in> set merged. fst r \<le> snd r\<close> Cons m by (intro IH [OF rest]) auto
    moreover have "\<forall>r \<in> set (merge_regions total_new (?c # merged) regs). fst r \<le> snd r"
      using \<open>\<forall>r \<in> set merged. fst r \<le> snd r\<close> c by (intro IH [OF rest]) auto
    ultimately show ?thesis using Cons m by (simp add: r Let_def)
  qed
qed simp

lemma format_hashline_content_total:
  "wf_scheme s \<Longrightarrow> \<exists>r. format_hashline_content c off n s = Some r"
  using dyn.generate_total [of s "split_lines c"] by (auto simp: format_hashline_content_def Let_def)

lemma snippet_parts_total:
  assumes "wf_scheme s" "\<forall>r \<in> set regs. fst r \<le> snd r"
  shows "\<exists>ps. snippet_parts c s total_new i prev regs = Some ps"
  using assms(2)
proof (induction regs arbitrary: i prev)
  case (Cons r regs)
  obtain a b where r: "r = (a, b)" by (cases r)
  obtain ps where "snippet_parts c s total_new (i + 1) b regs = Some ps" using Cons by fastforce
  moreover obtain t u where "format_hashline_content c (Some (a + 1)) (Some (b - a)) s = Some (t, u)"
    using format_hashline_content_total [OF assms(1)] by fastforce
  ultimately show ?case using Cons.prems by (simp add: r checked_sub_def Let_def)
qed simp

lemma build_snippet_total:
  assumes "wf_scheme s" "regions_ok n regs" "n \<le> total_new" "sorted (map fst regs)"
  shows "\<exists>t. build_snippet c regs total_new s = Some t"
proof (cases "regs = []")
  case False
  let ?a = "fst (hd regs) - SNIPPET_CONTEXT" and ?b = "min (snd (last regs) + SNIPPET_CONTEXT) total_new"
  have "fst (hd regs) \<le> fst (last regs)"
    using assms(4) False by (cases regs) auto
  moreover have "fst (last regs) \<le> snd (last regs)" "snd (last regs) \<le> n" "fst (hd regs) \<le> n"
    using assms(2) False by (auto simp: regions_ok_def dest: bspec [of _ _ "hd regs"] intro: order_trans)
  ultimately have "?a \<le> ?b" using assms(3) by auto
  then have sub: "checked_sub ?b ?a = Some (?b - ?a)" by (simp add: checked_sub_def)
  obtain t u where f: "format_hashline_content c (Some (?a + 1)) (Some (?b - ?a)) s = Some (t, u)"
    using format_hashline_content_total [OF assms(1)] by fastforce
  obtain ps where "snippet_parts c s total_new 0 0 (merge_regions total_new [] regs) = Some ps"
    using snippet_parts_total [OF assms(1) merge_regions_ok [OF assms(2,3)]] by fastforce
  then show ?thesis using False sub f by (simp add: build_snippet_def Let_def)
qed (simp add: build_snippet_def)

section \<open>Whole batches\<close>

lemma length_lines_le: "length (lines c) \<le> length c"
proof -
  have "length (filter ((=) nl) c) + (if c = [] \<or> last c = nl then 0 else 1) \<le> length c"
    by (induction c) auto
  then show ?thesis by (simp add: lines_def length_split_inclusive)
qed

lemma length_splice_ranges:
  "length (splice_ranges pos ls rs) \<le> length ls + sum_list (map (\<lambda>(s, n, new). length new) rs)"
proof (induction pos ls rs rule: splice_ranges.induct)
  case (2 pos ls s n new rs)
  have "length (take (s - pos) ls) + length (drop (s - pos + n) ls) \<le> length ls" by simp
  with 2 show ?case
    unfolding splice_ranges.simps length_append list.map sum_list.Cons prod.case by linarith
qed simp

lemma apply_resolved_ok:
  assumes "wf_scheme s" "compatible ops" "\<forall>op \<in> set ops. op_ok (length ls) op"
    and "length ls + sum_list (map (length \<circ> ro_new_lines) ops) < 2 ^ 64"
    and "sorted_wrt (<) (map ro_original_idx ops)"
  defines "R \<equiv> splice_ranges 0 ls (as_splices (top_down ops))"
  shows "\<exists>r a. apply_resolved ls n ops path s = Some r \<and>
    ar_output r = EditsApplied a \<and> ea_applied a = n \<and>
    ar_new_content r = Some (join [nl] R) \<and> length (ar_edit_details r) = length ops \<and>
    (\<forall>k < length ops. \<exists>reg. placed 0 R ls (top_down ops ! k) reg (ar_edit_details r ! k))"
proof -
  let ?T = "top_down ops"
  have se: "\<forall>op \<in> set ops. ro_start op \<le> ro_end op" using assms(3) by (auto simp: op_ok_def)
  have ord: "ordered_from 0 (length ls) (as_splices ?T)"
    using separated_ordered [OF top_down_separated [OF assms(2) se], of "length ls" 0] assms(3) by simp
  have lenT: "length ?T = length ops" by (metis set_top_down(2) size_mset)
  have sum: "sum_list (map (length \<circ> ro_new_lines) ?T) = sum_list (map (length \<circ> ro_new_lines) ops)"
    by (metis mset_map set_top_down(2) sum_mset_sum_list)
  have "sum_list (map (\<lambda>(s, n, new). length new) (as_splices ?T)) = sum_list (map (length \<circ> ro_new_lines) ?T)"
    by (simp add: as_splices_def comp_def)
  then have len: "length R < 2 ^ 64"
    using length_splice_ranges [of 0 ls "as_splices ?T"] assms(4) sum unfolding R_def by linarith
  obtain regs ds where t: "track_regions ls 0 ?T = Some (regs, ds)"
    "length regs = length ?T" "length ds = length ?T"
    "\<forall>k < length ?T. placed 0 R ls (?T ! k) (regs ! k) (ds ! k)"
    "sorted_wrt (\<lambda>a b. snd a \<le> fst b) regs"
    using track_regions_ok [OF ord, of 0 0] assms(3) len unfolding R_def by auto
  have ok: "regions_ok (length R) regs"
  proof -
    have "fst (regs ! k) \<le> snd (regs ! k) \<and> snd (regs ! k) \<le> length R" if "k < length regs" for k
      using t(2,4) that by (force simp: placed_def)
    then show ?thesis unfolding regions_ok_def by (metis in_set_conv_nth)
  qed
  have "sorted (map fst regs)"
    unfolding sorted_map
  proof (rule sorted_wrt_mono_rel [OF _ t(5)])
    show "\<And>x y. x \<in> set regs \<Longrightarrow> y \<in> set regs \<Longrightarrow> snd x \<le> fst y \<Longrightarrow> fst x \<le> fst y"
      using ok by (force simp: regions_ok_def)
  qed
  then obtain snip where "build_snippet (join [nl] R) (sort_key fst regs)
      (length (split_lines (join [nl] R))) s = Some snip"
    using build_snippet_total [OF assms(1) ok length_split_lines_join]
    by (auto simp: sort_key_id_if_sorted)
  moreover have placed: "\<forall>k < length ops. \<exists>reg. placed 0 R ls (?T ! k) reg (ds ! k)"
    using t(4) lenT by metis
  moreover have "splice_all (rev ?T) ls = Some R"
    using splice_all_reference [OF ord] se by (simp add: R_def)
  then have "splice_all (sort_bottom_up ops) ls = Some R" by (simp add: top_down_rev [OF assms(5)])
  ultimately show ?thesis
    using t(1,3) placed lenT
    by (simp add: apply_resolved_def Let_def top_down_rev [OF assms(5)] del: split_paired_Ex)
qed

text \<open>A bound on the lines a request can produce.\<close>

fun op_size :: "hashline_op \<Rightarrow> nat" where
  "op_size (Replace _ _ c) = length c + 1"
| "op_size (InsertAfter _ c) = length c + 1"
| "op_size (Write c) = length c + 1"

definition request_size :: "rstring \<Rightarrow> hashline_op list \<Rightarrow> nat" where
  "request_size content ops = length (split_lines content) + sum_list (map op_size ops)"

lemma sum_case_Inr_iff:
  "(case r of Inl e \<Rightarrow> Some (Inl e) | Inr x \<Rightarrow> f x) = Some (Inr y) \<longleftrightarrow> (\<exists>x. r = Inr x \<and> f x = Some (Inr y))"
  "(case r of Inl e \<Rightarrow> Some (Inl (h e)) | Inr x \<Rightarrow> f x) = Some (Inr y) \<longleftrightarrow> (\<exists>x. r = Inr x \<and> f x = Some (Inr y))"
  "(case r of Inl e \<Rightarrow> Inl e | Inr x \<Rightarrow> g x) = Inr z \<longleftrightarrow> (\<exists>x. r = Inr x \<and> g x = Inr z)"
  by (auto split: sum.splits)

lemma resolve_op_size:
  "resolve_op op idx ls s = Some (Inr x) \<Longrightarrow> length (ro_new_lines x) \<le> op_size op"
  using length_lines_le [THEN le_SucI]
  by (cases op) (auto simp: resolve_replace_def resolve_insert_def bind_eq_Some_conv sum_case_Inr_iff
      split: option.split_asm)

lemma resolve_all_size:
  "resolve_all n idx ops ls s = Some (Inr xs) \<Longrightarrow>
   sum_list (map (length \<circ> ro_new_lines) xs) \<le> sum_list (map op_size ops)"
proof (induction ops arbitrary: idx xs)
  case (Cons op ops)
  then obtain x rest where "resolve_op op idx ls s = Some (Inr x)"
    "resolve_all n (idx + 1) ops ls s = Some (Inr rest)" "xs = x # rest"
    by (auto simp: bind_eq_Some_conv sum_case_Inr_iff)
  then show ?case using Cons.IH [of "idx + 1" rest] resolve_op_size [of op idx ls s x]
    by (simp add: add_mono)
qed simp

text \<open>What a request means: the error of the first operation that does not resolve, else the
  overlap error, else the original lines with the requested lines spliced in, in one pass from the
  top.\<close>

definition answers_batch :: "rstring \<Rightarrow> resolved_op list \<Rightarrow> apply_result \<Rightarrow> bool" where
  "answers_batch content resolved r \<longleftrightarrow>
     (let ls = split_lines content; R = splice_ranges 0 ls (as_splices (top_down resolved)) in
      (\<exists>a. ar_output r = EditsApplied a \<and> ea_applied a = length resolved) \<and>
      ar_new_content r = Some (join [nl] R) \<and>
      length (ar_edit_details r) = length resolved \<and>
      (\<forall>k < length resolved. \<exists>reg. placed 0 R ls (top_down resolved ! k) reg (ar_edit_details r ! k)))"

definition refused :: "apply_result \<Rightarrow> bool" where
  "refused r \<longleftrightarrow> (\<exists>e. ar_output r = EditError e) \<and> ar_new_content r = None \<and> ar_edit_details r = []"

lemma apply_batch_ok:
  assumes "wf_scheme s" "request_size content ops < 2 ^ 64"
  obtains e r where "resolve_all (length ops) 0 ops (split_lines content) s = Some (Inl e)"
      "apply_batch content ops path s = Some r" "refused r"
  | xs r where "resolve_all (length ops) 0 ops (split_lines content) s = Some (Inr xs)"
      "length xs = length ops" "\<forall>x \<in> set xs. op_ok (length (split_lines content)) x"
      "map ro_original_idx xs = [0..<length ops]"
      "\<not> compatible xs" "apply_batch content ops path s = Some r" "refused r"
  | xs r where "resolve_all (length ops) 0 ops (split_lines content) s = Some (Inr xs)"
      "length xs = length ops" "\<forall>x \<in> set xs. op_ok (length (split_lines content)) x"
      "map ro_original_idx xs = [0..<length ops]"
      "compatible xs" "apply_batch content ops path s = Some r" "answers_batch content xs r"
proof -
  let ?ls = "split_lines content"
  obtain q where q: "resolve_all (length ops) 0 ops ?ls s = Some q"
    "\<And>xs. q = Inr xs \<Longrightarrow> length xs = length ops \<and> (\<forall>x \<in> set xs. op_ok (length ?ls) x) \<and>
       map ro_original_idx xs = [0..<0 + length ops]"
    using resolve_all_ok [OF assms(1)] by blast
  show ?thesis
  proof (cases q)
    case (Inl e)
    with q that(1) show ?thesis by (simp add: apply_batch_def refused_def failed_result_def)
  next
    case (Inr xs)
    have xs: "length xs = length ops" "\<forall>x \<in> set xs. op_ok (length ?ls) x"
      "map ro_original_idx xs = [0..<length ops]" using q(2) [OF Inr] by simp_all
    then have se: "\<forall>x \<in> set xs. ro_start x \<le> ro_end x" by (auto simp: op_ok_def)
    have R: "resolve_all (length ops) 0 ops ?ls s = Some (Inr xs)" using q Inr by simp
    show ?thesis
    proof (cases "compatible xs")
      case True
      have size: "length ?ls + sum_list (map (length \<circ> ro_new_lines) xs) < 2 ^ 64"
        using resolve_all_size [OF R] assms(2) by (simp add: request_size_def)
      have idx: "sorted_wrt (<) (map ro_original_idx xs)" unfolding xs(3) by (rule sorted_wrt_upt)
      have "check_overlaps xs = None" using True check_overlaps_None [OF se] by simp
      then have eq: "apply_batch content ops path s = apply_resolved ?ls (length ops) xs path s"
        using R by (simp add: apply_batch_def)
      obtain r where "apply_resolved ?ls (length ops) xs path s = Some r" "answers_batch content xs r"
        using apply_resolved_ok [OF assms(1) True xs(2) size idx, of "length ops" path] xs(1)
        unfolding answers_batch_def Let_def by metis
      then show ?thesis using that(3) [OF R xs True] eq by simp
    next
      case False
      then obtain err where "check_overlaps xs = Some err" using check_overlaps_None [OF se] by auto
      then show ?thesis using that(2) [OF R xs False] R
        by (simp add: apply_batch_def refused_def failed_result_def)
    qed
  qed
qed

section \<open>Properties of the edit tool\<close>

text \<open>C20. A batch of edits never panics and is all or nothing. Without a lone \<open>Write\<close>: if an
  operation does not resolve, or two resolved operations conflict, the result is an error and no
  content. Otherwise the new content is the old lines with every operation's lines spliced in, in one
  pass from the top; operations at the same place keep the order of the request; and each reported
  region names the old lines and the place in the new file where its lines really are. A lone
  \<open>Write\<close> replaces the content unless it contains anchor prefixes.\<close>

theorem apply_edits_correct:
  assumes "wf_scheme s" "request_size content ops < 2 ^ 64"
  shows "\<exists>r. apply_edits content ops path s = Some r \<and>
    (if \<exists>c. ops = [Write c] then
       (\<forall>c. ops = [Write c] \<longrightarrow>
          (if detect_anchor_prefix_in_content c = None then ar_new_content r = Some c else refused r))
     else case resolve_all (length ops) 0 ops (split_lines content) s of
            Some (Inr xs) \<Rightarrow> if compatible xs then answers_batch content xs r else refused r
          | _ \<Rightarrow> refused r)"
proof (cases "\<exists>c. ops = [Write c]")
  case True
  then obtain c where ops: "ops = [Write c]" by blast
  obtain t u where "format_hashline_content c (Some 1) (Some (min (SNIPPET_CONTEXT * 2) (length (split_lines c)))) s = Some (t, u)"
    using format_hashline_content_total [OF assms(1)] by fastforce
  then show ?thesis
    by (auto simp: ops apply_edits_def build_write_result_def Let_def refused_def failed_result_def
        split: option.splits)
next
  case False
  then have "apply_edits content ops path s = apply_batch content ops path s"
    by (auto simp: apply_edits_def split: list.splits hashline_op.splits)
  with False assms show ?thesis
    by (rule_tac apply_batch_ok [OF assms, of path]) auto
qed

theorem apply_edits_correct_witness:
  "\<exists>r. apply_edits (lit ''a'' @ [nl] @ lit ''b'') [InsertAfter (lit ''0:'') (lit ''x'')] (lit ''f'')
       (ChunkFingerprint chunk_new) = Some r \<and>
     ar_new_content r = Some (lit ''x'' @ [nl] @ lit ''a'' @ [nl] @ lit ''b'')"
proof -
  let ?ops = "[InsertAfter (lit ''0:'') (lit ''x'')]"
  let ?c = "lit ''a'' @ [nl] @ lit ''b''"
  let ?x = "\<lparr>ro_original_idx = 0, ro_start = 0, ro_end = 0, ro_new_lines = [lit ''x'']\<rparr>"
  have ls: "split_lines ?c = [lit ''a'', lit ''b'']"
    by (simp add: split_lines_def lines_def strip_line_end_def ends_with_def)
  have "detect_anchor_prefix_in_content (lit ''x'') = None" "lines (lit ''x'') = [lit ''x'']"
    by (simp_all add: detect_anchor_prefix_in_content_def lines_def strip_line_end_def
        looks_like_anchor_def trim_start_def is_whitespace_def)
  then have R: "resolve_all (length ?ops) 0 ?ops (split_lines ?c) (ChunkFingerprint chunk_new) = Some (Inr [?x])"
    by (simp add: resolve_insert_def)
  have "request_size ?c ?ops < 2 ^ 64" by (simp only: request_size_def ls) simp
  from apply_edits_correct [OF default_chunk_wf this, of "lit ''f''"]
  obtain r where r: "apply_edits ?c ?ops (lit ''f'') (ChunkFingerprint chunk_new) = Some r" "answers_batch ?c [?x] r"
    unfolding R by (auto simp del: lit_simps)
  have "splice_ranges 0 [lit ''a'', lit ''b''] (as_splices (top_down [?x])) = [lit ''x'', lit ''a'', lit ''b'']"
    by (simp add: as_splices_def top_down_def del: lit_simps)
  with r(2) have "ar_new_content r = Some (join [nl] [lit ''x'', lit ''a'', lit ''b''])"
    unfolding answers_batch_def ls Let_def by simp
  with r(1) show ?thesis by simp
qed

text \<open>C21. The overlap check is exact: it accepts a batch if and only if no two of its operations
  conflict.\<close>

theorem overlap_detection:
  assumes "\<forall>op \<in> set ops. op_ok len op"
  shows "check_overlaps ops = None \<longleftrightarrow>
    (\<forall>i j. i < length ops \<longrightarrow> j < length ops \<longrightarrow> i \<noteq> j \<longrightarrow> \<not> conflict (ops ! i) (ops ! j))"
proof -
  have se: "\<forall>op \<in> set ops. ro_start op \<le> ro_end op" using assms by (auto simp: op_ok_def)
  have sym: "conflict (ops ! i) (ops ! j) \<longleftrightarrow> conflict (ops ! j) (ops ! i)"
    if "i < length ops" "j < length ops" for i j
    using se that by (simp add: conflict_sym)
  have "check_overlaps ops = None \<longleftrightarrow> (\<forall>i j. i < j \<longrightarrow> j < length ops \<longrightarrow> \<not> conflict (ops ! i) (ops ! j))"
    by (simp add: check_overlaps_None [OF se] sorted_wrt_iff_nth_less)
  also have "\<dots> \<longleftrightarrow> (\<forall>i j. i < length ops \<longrightarrow> j < length ops \<longrightarrow> i \<noteq> j \<longrightarrow> \<not> conflict (ops ! i) (ops ! j))"
    (is "?L \<longleftrightarrow> ?R")
  proof
    assume L: ?L
    have "\<not> conflict (ops ! i) (ops ! j)" if "i < length ops" "j < length ops" "i \<noteq> j" for i j
      using L that sym [OF that(1,2)] by (cases "i < j") auto
    then show ?R by blast
  qed auto
  finally show ?thesis .
qed

theorem overlap_detection_witness:
  "check_overlaps [\<lparr>ro_original_idx = 0, ro_start = 1, ro_end = 3, ro_new_lines = []\<rparr>,
                   \<lparr>ro_original_idx = 1, ro_start = 2, ro_end = 2, ro_new_lines = []\<rparr>] \<noteq> None"
proof -
  let ?a = "\<lparr>ro_original_idx = 0, ro_start = 1, ro_end = 3, ro_new_lines = []\<rparr>"
  let ?b = "\<lparr>ro_original_idx = 1, ro_start = 2, ro_end = 2, ro_new_lines = []\<rparr>"
  have c: "conflict ([?a, ?b] ! 0) ([?a, ?b] ! 1)" by (simp add: conflict_def)
  have ok: "\<forall>op \<in> set [?a, ?b]. op_ok 5 op" by (simp add: op_ok_def)
  show ?thesis
  proof
    assume "check_overlaps [?a, ?b] = None"
    from overlap_detection [OF ok, THEN iffD1, OF this, rule_format, of 0 1] c show False by simp
  qed
qed

lemma check_parsed_Inr:
  assumes "wf_scheme s" "generate_anchors s ls = Some gs" "check_parsed t p ls s = Some (Inr i)"
  shows "i < length ls \<and> pa_line p = i + 1 \<and> agrees p (gs ! i)"
proof -
  from check_parsed_ok [OF assms(1), of t p ls] assms(3)
  have i: "i < length ls" "pa_line p = i + 1" "scheme_validate s p ls = Some Valid" by auto
  with dyn.validate_line [OF assms(1,2) i(1,2)] show ?thesis by (auto split: if_splits)
qed

lemma recover_Some:
  assumes "generate_anchors s ls = Some gs" "recover_anchor_by_suffix t ls s = Some (Some p)"
  shows "\<exists>g. filter (suffix_matches t) gs = [g] \<and> p = as_parsed g"
  using assms by (auto simp: recover_anchor_by_suffix_def as_parsed_def split: list.splits)

text \<open>C22. An accepted anchor names the line it claims. When \<open>validate_anchor\<close> answers with an
  index, the line exists and its current anchor has the local hash of the request, and the context
  when the scheme uses one, at the requested line number; or the request had no readable line number
  and exactly one line of the file has the requested suffix, and it is this one. It never panics.\<close>

theorem validate_anchor_sound:
  assumes "wf_scheme s" "generate_anchors s ls = Some gs"
  shows "\<exists>r. validate_anchor t ls s = Some r \<and> (\<forall>i. r = Inr i \<longrightarrow> i < length ls \<and>
    (case parsed_anchor_parse (strip_arrow t) of
       Some p \<Rightarrow> pa_line p = i + 1 \<and> agrees p (gs ! i)
     | None \<Rightarrow> filter (suffix_matches (strip_arrow t)) gs = [gs ! i]))"
proof -
  obtain r where r: "validate_anchor t ls s = Some r" using validate_anchor_ok [OF assms(1)] by blast
  have "i < length ls \<and> (case parsed_anchor_parse (strip_arrow t) of
       Some p \<Rightarrow> pa_line p = i + 1 \<and> agrees p (gs ! i)
     | None \<Rightarrow> filter (suffix_matches (strip_arrow t)) gs = [gs ! i])" if "r = Inr i" for i
  proof (cases "parsed_anchor_parse (strip_arrow t)")
    case (Some p)
    with r that check_parsed_Inr [OF assms] show ?thesis by (simp add: validate_anchor_def)
  next
    case None
    with r that obtain p where p: "recover_anchor_by_suffix (strip_arrow t) ls s = Some (Some p)"
      "check_parsed (strip_arrow t) p ls s = Some (Inr i)"
      by (auto simp: validate_anchor_def Let_def bind_eq_Some_conv split: option.split_asm)
    from recover_Some [OF assms(2) p(1)]
    obtain g where g: "filter (suffix_matches (strip_arrow t)) gs = [g]" "p = as_parsed g" by blast
    from check_parsed_Inr [OF assms p(2)] have i: "i < length ls" "pa_line p = i + 1" by auto
    have "g \<in> set gs" using g(1) by (metis filter_is_subset list.set_intros(1) subsetD)
    then obtain k where k: "k < length gs" "gs ! k = g" by (auto simp: in_set_conv_nth)
    moreover have "a_line (gs ! k) = k + 1" "length gs = length ls"
      using dyn.generate_numbered [OF assms] k(1) by (auto simp: well_numbered_def)
    ultimately have "k = i" using g(2) i(2) by (simp add: as_parsed_def)
    with g k i None show ?thesis by simp
  qed
  with r show ?thesis by blast
qed

theorem validate_anchor_sound_witness:
  "\<exists>gs r. generate_anchors (ChunkFingerprint chunk_new) [lit ''a''] = Some gs \<and>
     validate_anchor (lit ''7:abc:def'') [lit ''a''] (ChunkFingerprint chunk_new) = Some r \<and> (\<forall>i. r = Inr i \<longrightarrow> i < 1)"
proof -
  obtain gs where gs: "generate_anchors (ChunkFingerprint chunk_new) [lit ''a''] = Some gs"
    using default_chunk_generates by blast
  from validate_anchor_sound [OF default_chunk_wf gs, of "lit ''7:abc:def''"] gs show ?thesis by force
qed

lemma split_once_str_no: "c \<notin> set s \<Longrightarrow> split_once_str (c # p) s = None"
  by (induction s) auto

lemma anchor_text_chars:
  assumes "wf_parsed a" "c \<in> set (parsed_anchor_render a)"
  shows "c \<noteq> arrow \<and> c \<noteq> 45"
proof -
  have no: "arrow \<notin> set u \<and> 45 \<notin> set u" if l: "list_all is_ascii_lowercase (utf8_bytes u)" for u
  proof -
    have "set (utf8_char x) \<subseteq> set (utf8_bytes u)" if "x \<in> set u" for x
      using that by (auto simp: utf8_bytes_def)
    then have "arrow \<in> set u \<Longrightarrow> is_ascii_lowercase 226" "45 \<in> set u \<Longrightarrow> is_ascii_lowercase 45"
      using l by (fastforce simp: utf8_char_def list_all_iff)+
    then show ?thesis by (auto simp: is_ascii_lowercase_def)
  qed
  have "c \<in> set (dec (pa_line a)) \<or> c = colon \<or> c \<in> set (pa_local a) \<or> (\<exists>x. pa_context a = Some x \<and> c \<in> set x)"
    using assms(2) by (auto simp: parsed_anchor_render_def split: option.splits)
  then show ?thesis
    using assms(1) no dec_set [of c "pa_line a"] unfolding wf_parsed_def by fastforce
qed

lemma strip_arrow_anchor:
  assumes "wf_parsed a"
  shows "strip_arrow (parsed_anchor_render a) = parsed_anchor_render a"
    and "strip_arrow (parsed_anchor_render a @ arrow # line) = parsed_anchor_render a"
proof -
  have "arrow \<notin> set (parsed_anchor_render a)" "45 \<notin> set (parsed_anchor_render a)"
    using anchor_text_chars [OF assms] by auto
  then show "strip_arrow (parsed_anchor_render a) = parsed_anchor_render a"
    and "strip_arrow (parsed_anchor_render a @ arrow # line) = parsed_anchor_render a"
    using split_once_None [of arrow "parsed_anchor_render a"] split_once_str_no [of 45 "parsed_anchor_render a" "[62]"]
    by (simp_all add: strip_arrow_def del: split_once_None)
qed

lemma validate_fresh_anchor:
  assumes "wf_scheme s" "generate_anchors s ls = Some gs" "i < length ls" "length ls < 2 ^ 64"
    and "t = anchor_render (gs ! i) \<or> (\<exists>line. t = anchor_render (gs ! i) @ arrow # line)"
  shows "validate_anchor t ls s = Some (Inr i)"
proof -
  let ?g = "gs ! i"
  have n: "length gs = length ls" "a_line ?g = i + 1"
    using dyn.generate_numbered [OF assms(1,2)] assms(3) by (auto simp: well_numbered_def)
  then have g: "?g \<in> set gs" using assms(3) by simp
  have wf: "wf_parsed (as_parsed ?g)" by (rule generated_wf [OF assms(1,2) g assms(4)])
  have "strip_arrow t = anchor_render ?g"
    using assms(5) strip_arrow_anchor [OF wf] by (auto simp: render_as_parsed)
  then have "parsed_anchor_parse (strip_arrow t) = Some (as_parsed ?g)"
    using parse_render_parsed [OF wf] by (simp add: render_as_parsed)
  then show ?thesis
    using dyn.fresh_valid [OF assms(1,2) g] n
    by (simp add: validate_anchor_def Let_def check_parsed_def checked_sub_def as_parsed_def)
qed

lemma anchor_render_suffix: "anchor_render a = dec (a_line a) @ [colon] @ anchor_suffix a"
  by (simp add: anchor_render_def anchor_suffix_def split: option.splits)

lemma join_concat: "join [c] (x # xs) = x @ concat (map ((#) c) xs)"
  by (induction xs arbitrary: x) auto

lemma format_loop_rest:
  assumes "\<forall>(i, line) \<in> set xs. i < length gs"
  shows "format_loop gs False xs =
    (concat (map (\<lambda>(i, line). nl # dec (i + 1) @ [colon] @ anchor_suffix (gs ! i) @ [arrow] @ line) xs),
     concat (map (\<lambda>(i, line). nl # line) xs))"
  using assms by (induction xs) (auto simp: vec_get_def)

lemma format_loop_join:
  assumes "\<forall>(i, line) \<in> set xs. i < length gs"
  shows "format_loop gs True xs =
    (join [nl] (map (\<lambda>(i, line). dec (i + 1) @ [colon] @ anchor_suffix (gs ! i) @ [arrow] @ line) xs),
     join [nl] (map snd xs))"
proof (cases xs)
  case (Cons x xs')
  obtain i line where x: "x = (i, line)" by (cases x)
  have "\<forall>(i, line) \<in> set xs'. i < length gs" using assms Cons by simp
  from format_loop_rest [OF this] show ?thesis
    using assms Cons x by (simp add: vec_get_def join_concat comp_def split_def)
qed simp

text \<open>The indices of the lines a read shows.\<close>

definition read_window :: "nat option \<Rightarrow> nat option \<Rightarrow> nat \<Rightarrow> nat list" where
  "read_window off limit n = take (case limit of Some l \<Rightarrow> l | None \<Rightarrow> 2 ^ 64 - 1)
      (drop ((case off of Some o' \<Rightarrow> o' | None \<Rightarrow> 1) - 1) [0..<n])"

text \<open>C23. What the read tool prints can be handed back to the edit tool. The output is, for the
  requested window, one line per file line made of the line's anchor, an arrow and the line; the raw
  output is those lines. Each printed line, whole or cut after the anchor, is accepted by
  \<open>validate_anchor\<close> against the same file and names exactly the line it was printed for.\<close>

theorem read_then_edit:
  fixes content :: rstring and off limit :: "nat option"
  assumes "wf_scheme s" "length (split_lines content) < 2 ^ 64"
  defines "ls \<equiv> split_lines content"
  defines "W \<equiv> read_window off limit (length ls)"
  shows "\<exists>gs. generate_anchors s ls = Some gs \<and>
    format_hashline_content content off limit s =
      Some (join [nl] (map (\<lambda>i. anchor_render (gs ! i) @ [arrow] @ ls ! i) W), join [nl] (map (nth ls) W)) \<and>
    (\<forall>i \<in> set W. validate_anchor (anchor_render (gs ! i) @ [arrow] @ ls ! i) ls s = Some (Inr i) \<and>
       validate_anchor (anchor_render (gs ! i)) ls s = Some (Inr i))"
proof -
  obtain gs where gs: "generate_anchors s ls = Some gs" using dyn.generate_total [OF assms(1)] by blast
  have n: "length gs = length ls" "\<And>i. i < length ls \<Longrightarrow> a_line (gs ! i) = i + 1"
    using dyn.generate_numbered [OF assms(1) gs] by (auto simp: well_numbered_def)
  have W: "\<forall>i \<in> set W. i < length ls" unfolding W_def read_window_def by (auto dest!: in_set_takeD in_set_dropD)
  have enum: "enumerate 0 ls = map (\<lambda>i. (i, ls ! i)) [0..<length ls]"
    by (rule nth_equalityI) (simp_all add: nth_enumerate_eq)
  have win: "take (case limit of Some l \<Rightarrow> l | None \<Rightarrow> 2 ^ 64 - 1)
      (drop ((case off of Some o' \<Rightarrow> o' | None \<Rightarrow> 1) - 1) (enumerate 0 ls)) = map (\<lambda>i. (i, ls ! i)) W"
    by (simp add: enum W_def read_window_def take_map drop_map)
  have "format_loop gs True (map (\<lambda>i. (i, ls ! i)) W) =
      (join [nl] (map (\<lambda>i. anchor_render (gs ! i) @ [arrow] @ ls ! i) W), join [nl] (map (nth ls) W))"
    using W n by (subst format_loop_join) (auto simp: comp_def anchor_render_suffix intro!: arg_cong [where f = "join [nl]"])
  then have "format_hashline_content content off limit s =
      Some (join [nl] (map (\<lambda>i. anchor_render (gs ! i) @ [arrow] @ ls ! i) W), join [nl] (map (nth ls) W))"
    unfolding format_hashline_content_def Let_def using gs win by (simp add: ls_def)
  moreover have "validate_anchor (anchor_render (gs ! i) @ [arrow] @ ls ! i) ls s = Some (Inr i) \<and>
       validate_anchor (anchor_render (gs ! i)) ls s = Some (Inr i)" if "i \<in> set W" for i
    using validate_fresh_anchor [OF assms(1) gs, of i] W that assms(2) unfolding ls_def by auto
  ultimately show ?thesis using gs by blast
qed

theorem read_then_edit_witness:
  "\<exists>gs. generate_anchors (ChunkFingerprint chunk_new) [lit ''a''] = Some gs \<and>
     validate_anchor (anchor_render (gs ! 0)) [lit ''a''] (ChunkFingerprint chunk_new) = Some (Inr 0)"
proof -
  have ls: "split_lines (lit ''a'') = [lit ''a'']"
    by (simp add: split_lines_def lines_def strip_line_end_def ends_with_def)
  have W: "read_window None None (length [lit ''a'']) = [0]" by (simp add: read_window_def)
  have "length (split_lines (lit ''a'')) < 2 ^ 64" unfolding ls by simp
  from read_then_edit [OF default_chunk_wf this, of None None] show ?thesis
    unfolding ls W by (auto simp del: lit_simps)
qed

text \<open>An edit of one place of a file with CRLF line endings changes the endings of every line:
  the lines are taken without their carriage returns and joined with line feeds. Inserting one line
  at the top of a two-line CRLF file gives a file with no carriage return at all.\<close>

theorem crlf_endings_lost:
  "\<exists>r. apply_edits (lit ''a'' @ [cr, nl] @ lit ''b'' @ [cr, nl]) [InsertAfter (lit ''0:'') (lit ''x'')]
         path (ChunkFingerprint chunk_new) = Some r \<and>
     ar_new_content r = Some (lit ''x'' @ [nl] @ lit ''a'' @ [nl] @ lit ''b'' @ [nl])"
proof -
  let ?ops = "[InsertAfter (lit ''0:'') (lit ''x'')]"
  let ?c = "lit ''a'' @ [cr, nl] @ lit ''b'' @ [cr, nl]"
  let ?x = "\<lparr>ro_original_idx = 0, ro_start = 0, ro_end = 0, ro_new_lines = [lit ''x'']\<rparr>"
  have ls: "split_lines ?c = [lit ''a'', lit ''b'', []]"
    by (simp add: split_lines_def lines_def strip_line_end_def ends_with_def)
  have "detect_anchor_prefix_in_content (lit ''x'') = None" "lines (lit ''x'') = [lit ''x'']"
    by (simp_all add: detect_anchor_prefix_in_content_def lines_def strip_line_end_def
        looks_like_anchor_def trim_start_def is_whitespace_def)
  then have R: "resolve_all (length ?ops) 0 ?ops (split_lines ?c) (ChunkFingerprint chunk_new) = Some (Inr [?x])"
    by (simp add: resolve_insert_def)
  have size: "request_size ?c ?ops < 2 ^ 64" by (simp only: request_size_def ls) simp
  obtain r where r: "apply_batch ?c ?ops path (ChunkFingerprint chunk_new) = Some r" "answers_batch ?c [?x] r"
    by (rule apply_batch_ok [OF default_chunk_wf size, of path, unfolded R]) auto
  have "splice_ranges 0 [lit ''a'', lit ''b'', []] (as_splices (top_down [?x])) = [lit ''x'', lit ''a'', lit ''b'', []]"
    by (simp add: as_splices_def top_down_def del: lit_simps)
  with r(2) have "ar_new_content r = Some (join [nl] [lit ''x'', lit ''a'', lit ''b'', []])"
    unfolding answers_batch_def ls Let_def by simp
  with r(1) show ?thesis by (simp add: apply_edits_def)
qed

end
