(* ===== verification/Line_Mutation.thy ===== *)
theory Line_Mutation
  imports Hashline_Edit
begin

text \<open>
  The synthetic edits of the hashline benchmark (\<open>grok_build_hashline/mutate.rs\<close>): the mutation, its
  effect on the lines, and the outcome it reports for every original line. \<open>None\<close> is a panic of
  \<open>Vec::drain\<close> or \<open>Vec::splice\<close>. The sum of a start index and a cnt wraps at 64 bits.
\<close>

datatype mutation =
  InsertLines nat "rstring list"
| DeleteLines nat nat
| EditLine nat rstring
| ReindentLine nat rstring
| RangeRewrite nat nat "rstring list"

datatype line_outcome = Unchanged | Shifted nat | Modified | Reindented | Deleted

record mutation_result =
  mr_outcomes :: "line_outcome list"
  mr_line_delta :: int

definition unchanged_result :: "nat \<Rightarrow> mutation_result" where
  "unchanged_result n = \<lparr>mr_outcomes = replicate n Unchanged, mr_line_delta = 0\<rparr>"

definition mark_line :: "nat \<Rightarrow> line_outcome \<Rightarrow> nat \<Rightarrow> mutation_result" where
  "mark_line idx out n =
     \<lparr>mr_outcomes = map (\<lambda>i. if i = idx then out else Unchanged) [0..<n], mr_line_delta = 0\<rparr>"

fun apply_mutation :: "rstring list \<Rightarrow> mutation \<Rightarrow> (rstring list \<times> mutation_result) option" where
  "apply_mutation ls (InsertLines before_idx new) =
     (let orig_len = length ls; idx = min before_idx (length ls); cnt = length new in
      do {
        ls' \<leftarrow> insert_lines idx new ls;
        Some (ls', \<lparr>mr_outcomes = map (\<lambda>i. if i < idx then Unchanged else Shifted (i + cnt)) [0..<orig_len],
                    mr_line_delta = int cnt\<rparr>)
      })"
| "apply_mutation ls (DeleteLines start_idx cnt) =
     (let orig_len = length ls; start = start_idx;
          end = min ((start + cnt) mod 2 ^ 64) (length ls);
          actual_count = end - start in
      do {
        ls' \<leftarrow> vec_splice start end [] ls;
        Some (ls', \<lparr>mr_outcomes = map (\<lambda>i. if i < start then Unchanged else if i < end then Deleted
                                              else Shifted (i - actual_count)) [0..<orig_len],
                    mr_line_delta = - int actual_count\<rparr>)
      })"
| "apply_mutation ls (EditLine line_idx new_content) =
     (if line_idx < length ls
      then Some (ls[line_idx := new_content], mark_line line_idx Modified (length ls))
      else Some (ls, unchanged_result (length ls)))"
| "apply_mutation ls (ReindentLine line_idx new_indent) =
     (if line_idx < length ls
      then Some (ls[line_idx := new_indent @ trim_start (ls ! line_idx)], mark_line line_idx Reindented (length ls))
      else Some (ls, unchanged_result (length ls)))"
| "apply_mutation ls (RangeRewrite start_idx end_idx replacement_lines) =
     (let orig_len = length ls; start = start_idx; end = min end_idx (length ls);
          removed_count = end - start in
      do {
        ls' \<leftarrow> vec_splice start end replacement_lines ls;
        let size_delta = int (length replacement_lines) - int removed_count;
        Some (ls', \<lparr>mr_outcomes = map (\<lambda>i. if i < start then Unchanged else if i < end then Deleted
                                              else Shifted (usize_of_isize (int i + size_delta))) [0..<orig_len],
                    mr_line_delta = size_delta\<rparr>)
      })"

definition gen_insert_above :: "nat \<Rightarrow> nat \<Rightarrow> mutation" where
  "gen_insert_above before_idx cnt =
     InsertLines before_idx (map (\<lambda>i. lit ''// inserted line '' @ dec i) [0..<cnt])"

definition gen_delete :: "nat \<Rightarrow> nat \<Rightarrow> mutation" where
  "gen_delete start_idx cnt = DeleteLines start_idx cnt"

definition gen_token_edit :: "nat \<Rightarrow> rstring \<Rightarrow> mutation" where
  "gen_token_edit line_idx new_content = EditLine line_idx new_content"

definition gen_reindent :: "nat \<Rightarrow> rstring \<Rightarrow> mutation" where
  "gen_reindent line_idx new_indent = ReindentLine line_idx new_indent"

definition gen_range_rewrite :: "nat \<Rightarrow> nat \<Rightarrow> rstring list \<Rightarrow> mutation" where
  "gen_range_rewrite start_idx end_idx replacement_lines = RangeRewrite start_idx end_idx replacement_lines"

definition gen_boilerplate_insert :: "nat \<Rightarrow> rstring \<Rightarrow> nat \<Rightarrow> mutation" where
  "gen_boilerplate_insert before_idx line cnt = InsertLines before_idx (replicate cnt line)"

section \<open>The reported outcomes are true\<close>

text \<open>Where the outcome says a line went, and what it says of the line's content.\<close>

definition outcome_true :: "rstring list \<Rightarrow> rstring list \<Rightarrow> nat \<Rightarrow> line_outcome \<Rightarrow> bool" where
  "outcome_true old new i out \<longleftrightarrow>
     (case out of
        Unchanged \<Rightarrow> i < length new \<and> new ! i = old ! i
      | Shifted j \<Rightarrow> j < length new \<and> new ! j = old ! i
      | Modified \<Rightarrow> i < length new
      | Reindented \<Rightarrow> i < length new \<and> (\<exists>w. new ! i = w @ trim_start (old ! i))
      | Deleted \<Rightarrow> True)"

definition reports :: "rstring list \<Rightarrow> rstring list \<times> mutation_result \<Rightarrow> bool" where
  "reports old r \<longleftrightarrow> length (mr_outcomes (snd r)) = length old \<and>
     int (length (fst r)) = int (length old) + mr_line_delta (snd r) \<and>
     (\<forall>i < length old. outcome_true old (fst r) i (mr_outcomes (snd r) ! i))"

definition small_mutation :: "rstring list \<Rightarrow> mutation \<Rightarrow> bool" where
  "small_mutation ls m \<longleftrightarrow> length ls < 2 ^ 62 \<and>
     (case m of
        DeleteLines start cnt \<Rightarrow> start < 2 ^ 64 \<and> cnt < 2 ^ 64
      | RangeRewrite start e new \<Rightarrow> length new < 2 ^ 62
      | _ \<Rightarrow> True)"

lemma splice_nth_before: "a \<le> b \<Longrightarrow> b \<le> length xs \<Longrightarrow> i < a \<Longrightarrow> (take a xs @ new @ drop b xs) ! i = xs ! i"
  by (simp add: nth_append)

lemma splice_nth_after:
  "a \<le> b \<Longrightarrow> b \<le> i \<Longrightarrow> i < length xs \<Longrightarrow>
   (take a xs @ new @ drop b xs) ! (i + length new - (b - a)) = xs ! i"
  by (auto simp: nth_append)

lemma insert_lines_take: "idx \<le> length ls \<Longrightarrow> insert_lines idx new ls = Some (take idx ls @ new @ drop idx ls)"
  using insert_lines_eq [of "take idx ls" idx new "drop idx ls"] by simp

text \<open>Every mutation that does not panic reports the truth: one outcome per original line, an
  unchanged line is where it was, a shifted line is at the reported index, a reindented line keeps
  everything but its leading white space, and the line count changed by the reported amount. A panic
  happens only when the start of a deleted range lies beyond the file or its end beyond
  \<open>usize::MAX\<close>, or when the start of a rewritten range lies beyond its end, cut to the file.\<close>

theorem mutation_outcomes:
  assumes "small_mutation ls m"
  shows "(case apply_mutation ls m of
      Some r \<Rightarrow> reports ls r
    | None \<Rightarrow> (\<exists>start cnt. m = DeleteLines start cnt \<and> (length ls < start \<or> 2 ^ 64 \<le> start + cnt)) \<or>
        (\<exists>start e new. m = RangeRewrite start e new \<and> min e (length ls) < start))"
proof (cases m)
  case (InsertLines k new)
  show ?thesis
    by (auto simp: InsertLines insert_lines_take Let_def reports_def outcome_true_def nth_append)
next
  case (DeleteLines start cnt)
  let ?e = "min ((start + cnt) mod 2 ^ 64) (length ls)"
  show ?thesis
  proof (cases "start \<le> ?e")
    case True
    then show ?thesis using splice_nth_after [of start ?e _ ls "[]"]
      by (auto simp: DeleteLines Let_def vec_splice_def reports_def outcome_true_def nth_append)
  next
    case False
    then have "length ls < start \<or> 2 ^ 64 \<le> start + cnt"
      by (cases "start + cnt < 2 ^ 64") auto
    with False show ?thesis by (auto simp: DeleteLines Let_def vec_splice_def)
  qed
next
  case (EditLine k c)
  then show ?thesis
    by (auto simp: reports_def outcome_true_def mark_line_def unchanged_result_def)
next
  case (ReindentLine k w)
  then show ?thesis
    by (auto simp: reports_def outcome_true_def mark_line_def unchanged_result_def)
next
  case (RangeRewrite start e new)
  let ?e = "min e (length ls)"
  have conv: "usize_of_isize (int i + (int (length new) - int (?e - start))) = i + length new - (?e - start)"
    if "start \<le> ?e" "?e \<le> i" "i < length ls" for i
    using that assms by (simp add: usize_of_isize_def small_mutation_def RangeRewrite nat_mod_distrib)
  show ?thesis
  proof (cases "start \<le> ?e")
    case True
    then show ?thesis using splice_nth_after [of start ?e _ ls new] conv
      by (auto simp: RangeRewrite Let_def vec_splice_def reports_def outcome_true_def splice_nth_before)
  qed (auto simp: RangeRewrite Let_def vec_splice_def)
qed

theorem mutation_outcomes_witness:
  "case apply_mutation [lit ''a'', lit ''b'', lit ''c''] (DeleteLines 1 1) of
     Some r \<Rightarrow> reports [lit ''a'', lit ''b'', lit ''c''] r | None \<Rightarrow> False"
  using mutation_outcomes [of "[lit ''a'', lit ''b'', lit ''c'']" "DeleteLines 1 1"]
  by (simp add: small_mutation_def vec_splice_def Let_def)

text \<open>An out-of-range index does not leave the lines untouched for every mutation: deleting
  or rewriting a range that starts beyond the end of the file panics.\<close>

theorem mutation_out_of_range_panics:
  assumes "length ls < start" "start + cnt < 2 ^ 64"
  shows "apply_mutation ls (DeleteLines start cnt) = None \<and>
    apply_mutation ls (RangeRewrite start e new) = None"
  using assms by (auto simp: vec_splice_def Let_def)

theorem mutation_out_of_range_panics_witness:
  "apply_mutation [] (DeleteLines 1 0) = None \<and> apply_mutation [] (RangeRewrite 1 2 []) = None"
  using mutation_out_of_range_panics [of "[]" 1 0 2 "[]"] by simp

section \<open>Re-indentation and anchors\<close>

lemma mix_lines_hashes:
  assumes "map line_hash ls = map line_hash ls'"
  shows "mix_lines h (vec_range ls a b) = mix_lines h (vec_range ls' a b)"
proof -
  have len: "length ls = length ls'" using assms by (metis length_map)
  have fold: "foldl (\<lambda>h line. fnv_mix h (line_hash line)) h xs = foldl fnv_mix h (map line_hash xs)" for h xs
    by (induction xs arbitrary: h) auto
  have "map line_hash (take (b - a) (drop a ls)) = map line_hash (take (b - a) (drop a ls'))"
    using assms by (simp add: drop_map [symmetric] take_map [symmetric])
  then show ?thesis by (simp add: mix_lines_def vec_range_def len fold)
qed

lemma validate_hashes:
  assumes "map line_hash ls = map line_hash ls'"
  shows "scheme_validate s a ls = scheme_validate s a ls'"
proof -
  have len: "length ls = length ls'" using assms by (metis length_map)
  have nth: "i < length ls' \<Longrightarrow> line_hash (ls ! i) = line_hash (ls' ! i)" for i
    using assms by (metis len nth_map)
  have fp: "chunk_fingerprint k ls = chunk_fingerprint k ls'"
    "checkpoint_fingerprint c ls = checkpoint_fingerprint c ls'" for k c
    using mix_lines_hashes [OF assms]
    by (auto simp: chunk_fingerprint_def checkpoint_fingerprint_def len fun_eq_iff)
  show ?thesis
  proof (cases "0 < pa_line a \<and> pa_line a \<le> length ls'")
    case True
    then have "line_hash (ls ! (pa_line a - 1)) = line_hash (ls' ! (pa_line a - 1))" by (intro nth) linarith
    moreover have "line_at a ls = Some (ls ! (pa_line a - 1))" "line_at a ls' = Some (ls' ! (pa_line a - 1))"
      using True by (simp_all add: line_at_range len)
    ultimately show ?thesis
    proof (cases s)
      case (ContentOnly k)
      then show ?thesis using \<open>line_at a ls = _\<close> \<open>line_at a ls' = _\<close> \<open>line_hash _ = _\<close>
        by (simp add: content_validate_def)
    next
      case (ChunkFingerprint k)
      show ?thesis using \<open>line_at a ls = _\<close> \<open>line_at a ls' = _\<close> \<open>line_hash _ = _\<close>
        unfolding ChunkFingerprint scheme_validate.simps chunk_validate_def fp by simp
    next
      case (CheckpointChain k)
      show ?thesis using \<open>line_at a ls = _\<close> \<open>line_at a ls' = _\<close> \<open>line_hash _ = _\<close>
        unfolding CheckpointChain scheme_validate.simps checkpoint_validate_def fp by simp
    qed
  next
    case False
    then have "line_at a ls = None" "line_at a ls' = None" by (auto simp: line_at_range len)
    then show ?thesis
      by (cases s) (simp_all add: content_validate_def chunk_validate_def checkpoint_validate_def)
  qed
qed

text \<open>Re-indenting a line with white space changes no answer of \<open>validate\<close>: under every scheme,
  for every anchor, of the line itself or of any other, the result after the mutation is the result
  before it.\<close>

theorem reindent_keeps_anchors:
  assumes "list_all is_whitespace w" "apply_mutation ls (gen_reindent k w) = Some (ls', r)"
  shows "scheme_validate s a ls' = scheme_validate s a ls"
proof -
  have start: "line_hash (w @ trim_start l) = line_hash l" for l
  proof -
    have "l = takeWhile is_whitespace l @ trim_start l" by (simp add: trim_start_def)
    moreover have "list_all is_whitespace (takeWhile is_whitespace l)"
      by (auto simp: list_all_iff dest: set_takeWhileD)
    ultimately have "line_hash l = line_hash (trim_start l)"
      using line_hash_surround [of "takeWhile is_whitespace l" "[]" "trim_start l"] by simp
    then show ?thesis using line_hash_surround [OF assms(1), of "[]" "trim_start l"] by simp
  qed
  have "map line_hash ls' = map line_hash ls"
    using assms(2) start by (auto simp: gen_reindent_def map_update list_update_same_conv split: if_splits)
  then show ?thesis by (rule validate_hashes)
qed

theorem reindent_keeps_anchors_witness:
  "scheme_validate (ChunkFingerprint chunk_new) \<lparr>pa_line = 2, pa_local = lit ''abc'', pa_context = None\<rparr>
     [lit ''  x'', lit ''y''] =
   scheme_validate (ChunkFingerprint chunk_new) \<lparr>pa_line = 2, pa_local = lit ''abc'', pa_context = None\<rparr>
     [lit ''x'', lit ''y'']"
  by (rule reindent_keeps_anchors [of "lit ''  ''" "[lit ''x'', lit ''y'']" 0 _ "mark_line 0 Reindented (Suc (Suc 0))"])
    (simp_all add: gen_reindent_def is_whitespace_def trim_start_def)

end
