(* ===== verification/Message_Delivery.thy ===== *)
theory Message_Delivery
  imports Prelude "HOL-Library.Multiset"
begin

text \<open>
  Turn-bound ownership of messages (\<open>xai-message-delivery-core/src/lifecycle.rs\<close>): a message is
  admitted for a turn, projected at a safe point, committed, and handed back when the turn ends. The
  \<open>VecDeque\<close> of slots is a list, front first; the commit callback of \<open>finish_delivery\<close> is an argument
  whose error is a value. The completion handle of a delivery is opaque.
\<close>

record ('p, 'e) turn_binding =
  tb_prompt_id :: 'p
  tb_epoch :: 'e

record ('i, 's, 'c) delivery_message =
  dm_identity :: 'i
  dm_source :: 's
  dm_content :: 'c

datatype ('i, 's, 'c, 'k, 'p, 'e) owned_delivery =
  OwnedDelivery (od_binding: "('p, 'e) turn_binding")
    (od_message: "('i, 's, 'c) delivery_message") (od_completion: 'k)

datatype ('i, 's, 'c, 'k, 'p, 'e) delivery_slot =
  Pending "('i, 's, 'c, 'k, 'p, 'e) owned_delivery"
| Projecting "('i, 's, 'c, 'k, 'p, 'e) owned_delivery"
| Delivered "('i, 's, 'c, 'k, 'p, 'e) owned_delivery"

fun slot_owned :: "('i, 's, 'c, 'k, 'p, 'e) delivery_slot \<Rightarrow> ('i, 's, 'c, 'k, 'p, 'e) owned_delivery" where
  "slot_owned (Pending od) = od"
| "slot_owned (Projecting od) = od"
| "slot_owned (Delivered od) = od"

datatype terminal_cause = Completion | SoftCancel | Rewind | HardTeardown | ActorDrop

definition falls_back :: "terminal_cause \<Rightarrow> bool" where
  "falls_back cause = (cause = Completion \<or> cause = SoftCancel \<or> cause = Rewind)"

datatype ('p, 'e) terminal_target = Turn "('p, 'e) turn_binding" | All

record ('i, 's, 'c, 'k, 'p, 'e) terminal_transition =
  tt_fallbacks :: "('i, 's, 'c, 'k, 'p, 'e) owned_delivery list"
  tt_completions :: "('i, 's, 'c, 'k, 'p, 'e) owned_delivery list"

record ('i, 's, 'c, 'k, 'p, 'e) lifecycle =
  lc_slots :: "('i, 's, 'c, 'k, 'p, 'e) delivery_slot list"

definition lifecycle_default :: "('i, 's, 'c, 'k, 'p, 'e) lifecycle" where
  "lifecycle_default = \<lparr>lc_slots = []\<rparr>"

definition lifecycle_len :: "('i, 's, 'c, 'k, 'p, 'e) lifecycle \<Rightarrow> nat" where
  "lifecycle_len l = length (lc_slots l)"

definition lifecycle_is_empty :: "('i, 's, 'c, 'k, 'p, 'e) lifecycle \<Rightarrow> bool" where
  "lifecycle_is_empty l \<longleftrightarrow> lc_slots l = []"

definition contains_identity :: "('i, 's, 'c, 'k, 'p, 'e) lifecycle \<Rightarrow> 'i \<Rightarrow> bool" where
  "contains_identity l identity \<longleftrightarrow>
     list_ex (\<lambda>slot. dm_identity (od_message (slot_owned slot)) = identity) (lc_slots l)"

definition admit_pending ::
  "('i, 's, 'c, 'k, 'p, 'e) lifecycle \<Rightarrow> ('p, 'e) turn_binding \<Rightarrow> ('i, 's, 'c) delivery_message \<Rightarrow> 'k \<Rightarrow>
   ('i, 's, 'c, 'k, 'p, 'e) lifecycle \<times> (('i, 's, 'c) delivery_message + unit)" where
  "admit_pending l binding message completion =
     (if list_ex (\<lambda>slot. dm_identity (od_message (slot_owned slot)) = dm_identity message) (lc_slots l)
      then (l, Inl message)
      else (l\<lparr>lc_slots := lc_slots l @ [Pending (OwnedDelivery binding message completion)]\<rparr>, Inr ()))"

definition pending_messages ::
  "('i, 's, 'c, 'k, 'p, 'e) lifecycle \<Rightarrow> ('p, 'e) turn_binding \<Rightarrow> ('i, 's, 'c) delivery_message list" where
  "pending_messages l binding = List.map_filter (\<lambda>slot.
     case slot of
       Pending od \<Rightarrow> if od_binding od = binding then Some (od_message od) else None
     | _ \<Rightarrow> None) (lc_slots l)"

definition start_projecting ::
  "('p, 'e) turn_binding \<Rightarrow> ('i, 's, 'c, 'k, 'p, 'e) delivery_slot \<Rightarrow> ('i, 's, 'c, 'k, 'p, 'e) delivery_slot" where
  "start_projecting binding slot =
     (case slot of Pending od \<Rightarrow> if od_binding od = binding then Projecting od else slot | _ \<Rightarrow> slot)"

definition begin_delivery ::
  "('i, 's, 'c, 'k, 'p, 'e) lifecycle \<Rightarrow> ('p, 'e) turn_binding \<Rightarrow>
   ('i, 's, 'c, 'k, 'p, 'e) lifecycle \<times> ('i, 's, 'c) delivery_message list" where
  "begin_delivery l binding =
     (let messages = pending_messages l binding in
      if messages = [] then (l, messages)
      else (l\<lparr>lc_slots := map (start_projecting binding) (lc_slots l)\<rparr>, messages))"

definition projecting_messages ::
  "('i, 's, 'c, 'k, 'p, 'e) lifecycle \<Rightarrow> ('p, 'e) turn_binding \<Rightarrow> ('i, 's, 'c) delivery_message list" where
  "projecting_messages l binding = List.map_filter (\<lambda>slot.
     case slot of
       Projecting od \<Rightarrow> if od_binding od = binding then Some (od_message od) else None
     | _ \<Rightarrow> None) (lc_slots l)"

definition mark_delivered ::
  "('p, 'e) turn_binding \<Rightarrow> ('i, 's, 'c, 'k, 'p, 'e) delivery_slot \<Rightarrow> ('i, 's, 'c, 'k, 'p, 'e) delivery_slot" where
  "mark_delivered binding slot =
     (case slot of Projecting od \<Rightarrow> if od_binding od = binding then Delivered od else slot | _ \<Rightarrow> slot)"

definition finish_delivery ::
  "('i, 's, 'c, 'k, 'p, 'e) lifecycle \<Rightarrow> ('p, 'e) turn_binding \<Rightarrow>
   (('i, 's, 'c) delivery_message list \<Rightarrow> 'err + unit) \<Rightarrow>
   ('i, 's, 'c, 'k, 'p, 'e) lifecycle \<times> ('err + ('i, 's, 'c) delivery_message list)" where
  "finish_delivery l binding commit =
     (let messages = projecting_messages l binding in
      if messages = [] then (l, Inr messages)
      else case commit messages of
        Inl e \<Rightarrow> (l, Inl e)
      | Inr _ \<Rightarrow> (l\<lparr>lc_slots := map (mark_delivered binding) (lc_slots l)\<rparr>, Inr messages))"

definition target_matches ::
  "('p, 'e) terminal_target \<Rightarrow> ('i, 's, 'c, 'k, 'p, 'e) delivery_slot \<Rightarrow> bool" where
  "target_matches target slot =
     (case target of Turn binding \<Rightarrow> od_binding (slot_owned slot) = binding | All \<Rightarrow> True)"

definition slot_falls_back :: "terminal_cause \<Rightarrow> ('i, 's, 'c, 'k, 'p, 'e) delivery_slot \<Rightarrow> bool" where
  "slot_falls_back cause slot = (case slot of Pending _ \<Rightarrow> falls_back cause | _ \<Rightarrow> False)"

text \<open>The \<open>filter_map\<close> of \<open>transition\<close>, slot by slot: kept slots, fallbacks, completions.\<close>

fun transition_loop ::
  "('p, 'e) terminal_target \<Rightarrow> terminal_cause \<Rightarrow> ('i, 's, 'c, 'k, 'p, 'e) delivery_slot list \<Rightarrow>
   ('i, 's, 'c, 'k, 'p, 'e) delivery_slot list \<times> ('i, 's, 'c, 'k, 'p, 'e) terminal_transition" where
  "transition_loop target cause [] = ([], \<lparr>tt_fallbacks = [], tt_completions = []\<rparr>)"
| "transition_loop target cause (slot # slots) =
     (let (kept, t) = transition_loop target cause slots in
      if \<not> target_matches target slot then (slot # kept, t)
      else if slot_falls_back cause slot then (kept, t\<lparr>tt_fallbacks := slot_owned slot # tt_fallbacks t\<rparr>)
      else (kept, t\<lparr>tt_completions := slot_owned slot # tt_completions t\<rparr>))"

definition transition ::
  "('i, 's, 'c, 'k, 'p, 'e) lifecycle \<Rightarrow> ('p, 'e) terminal_target \<Rightarrow> terminal_cause \<Rightarrow>
   ('i, 's, 'c, 'k, 'p, 'e) lifecycle \<times> ('i, 's, 'c, 'k, 'p, 'e) terminal_transition" where
  "transition l target cause =
     (let (kept, t) = transition_loop target cause (lc_slots l) in (l\<lparr>lc_slots := kept\<rparr>, t))"

section \<open>Runs with their history\<close>

text \<open>A lifecycle together with what its callers have seen: the deliveries admitted, the messages
  committed, the deliveries handed back as fallbacks and as completions. The commit callback succeeds
  or fails; the value of its error does not matter.\<close>

record ('i, 's, 'c, 'k, 'p, 'e) delivery_run =
  dr_life :: "('i, 's, 'c, 'k, 'p, 'e) lifecycle"
  dr_admitted :: "('i, 's, 'c, 'k, 'p, 'e) owned_delivery list"
  dr_committed :: "('i, 's, 'c) delivery_message list"
  dr_fallbacks :: "('i, 's, 'c, 'k, 'p, 'e) owned_delivery list"
  dr_completions :: "('i, 's, 'c, 'k, 'p, 'e) owned_delivery list"

inductive delivery_step ::
  "('i, 's, 'c, 'k, 'p, 'e) delivery_run \<Rightarrow> ('i, 's, 'c, 'k, 'p, 'e) delivery_run \<Rightarrow> bool" where
  admit: "admit_pending (dr_life r) b m k = (l, Inr ()) \<Longrightarrow>
    delivery_step r (r\<lparr>dr_life := l, dr_admitted := OwnedDelivery b m k # dr_admitted r\<rparr>)"
| refuse: "admit_pending (dr_life r) b m k = (l, Inl m') \<Longrightarrow> delivery_step r (r\<lparr>dr_life := l\<rparr>)"
| begin_d: "begin_delivery (dr_life r) b = (l, ms) \<Longrightarrow> delivery_step r (r\<lparr>dr_life := l\<rparr>)"
| commit_ok: "finish_delivery (dr_life r) b (\<lambda>_. Inr () :: unit + unit) = (l, Inr ms) \<Longrightarrow>
    delivery_step r (r\<lparr>dr_life := l, dr_committed := ms @ dr_committed r\<rparr>)"
| commit_err: "finish_delivery (dr_life r) b (\<lambda>_. Inl () :: unit + unit) = (l, Inl ()) \<Longrightarrow> delivery_step r (r\<lparr>dr_life := l\<rparr>)"
| terminal: "transition (dr_life r) t c = (l, tr) \<Longrightarrow>
    delivery_step r (r\<lparr>dr_life := l, dr_fallbacks := tt_fallbacks tr @ dr_fallbacks r,
                       dr_completions := tt_completions tr @ dr_completions r\<rparr>)"

definition delivery_init :: "('i, 's, 'c, 'k, 'p, 'e) delivery_run \<Rightarrow> bool" where
  "delivery_init r \<longleftrightarrow> r = \<lparr>dr_life = lifecycle_default, dr_admitted = [], dr_committed = [],
     dr_fallbacks = [], dr_completions = []\<rparr>"

fun is_delivered :: "('i, 's, 'c, 'k, 'p, 'e) delivery_slot \<Rightarrow> bool" where
  "is_delivered (Delivered _) = True"
| "is_delivered _ = False"

abbreviation slot_message :: "('i, 's, 'c, 'k, 'p, 'e) delivery_slot \<Rightarrow> ('i, 's, 'c) delivery_message" where
  "slot_message slot \<equiv> od_message (slot_owned slot)"

text \<open>Accounting: every admitted delivery is in exactly one place, and every committed message
  belongs to a delivered slot or to a delivery handed back as a completion.\<close>

definition delivery_inv :: "('i, 's, 'c, 'k, 'p, 'e) delivery_run \<Rightarrow> bool" where
  "delivery_inv r \<longleftrightarrow>
     distinct (map (dm_identity \<circ> slot_message) (lc_slots (dr_life r))) \<and>
     mset (dr_admitted r) = mset (map slot_owned (lc_slots (dr_life r))) + mset (dr_fallbacks r) + mset (dr_completions r) \<and>
     mset (dr_committed r) \<subseteq># mset (map slot_message (filter is_delivered (lc_slots (dr_life r)))) +
       mset (map od_message (dr_completions r)) \<and>
     mset (map slot_message (filter is_delivered (lc_slots (dr_life r)))) \<subseteq># mset (dr_committed r)"

lemma map_same_owned:
  assumes "\<And>s. slot_owned (f s) = slot_owned s"
  shows "map slot_owned (map f xs) = map slot_owned xs"
    and "map (dm_identity \<circ> slot_message) (map f xs) = map (dm_identity \<circ> slot_message) xs"
  using assms by auto

lemma start_projecting_owned [simp]: "slot_owned (start_projecting b s) = slot_owned s"
  by (cases s) (auto simp: start_projecting_def)

lemma mark_delivered_owned [simp]: "slot_owned (mark_delivered b s) = slot_owned s"
  by (cases s) (auto simp: mark_delivered_def)

lemma start_projecting_delivered [simp]: "is_delivered (start_projecting b s) = is_delivered s"
  by (cases s) (auto simp: start_projecting_def)

lemma delivered_after_mark:
  "mset (map slot_message (filter is_delivered (map (mark_delivered b) xs))) =
   mset (map slot_message (filter is_delivered xs)) +
   mset (List.map_filter (\<lambda>slot. case slot of
       Projecting od \<Rightarrow> if od_binding od = b then Some (od_message od) else None | _ \<Rightarrow> None) xs)"
proof (induction xs)
  case (Cons s xs)
  then show ?case by (cases s) (auto simp: mark_delivered_def map_filter_simps)
qed (simp add: map_filter_simps)

lemma transition_loop_split:
  assumes "transition_loop t c xs = (kept, tr)"
  shows "mset (map slot_owned xs) = mset (map slot_owned kept) + mset (tt_fallbacks tr) + mset (tt_completions tr)"
    and "kept = filter (\<lambda>s. \<not> target_matches t s) xs"
    and "tt_fallbacks tr = map slot_owned (filter (\<lambda>s. target_matches t s \<and> slot_falls_back c s) xs)"
    and "tt_completions tr = map slot_owned (filter (\<lambda>s. target_matches t s \<and> \<not> slot_falls_back c s) xs)"
  using assms by (induction xs arbitrary: kept tr) (auto split: prod.splits if_splits)

lemma filter_sub_mset:
  assumes "\<And>x. P x \<Longrightarrow> Q x"
  shows "mset (filter P xs) \<subseteq># mset (filter Q xs)"
  using assms by (auto simp: subseteq_mset_def)

lemma delivered_completes:
  "mset (map slot_message (filter is_delivered xs)) \<subseteq>#
     mset (map slot_message (filter is_delivered (filter (\<lambda>s. \<not> target_matches t s) xs))) +
     mset (map od_message (map slot_owned (filter (\<lambda>s. target_matches t s \<and> \<not> slot_falls_back c s) xs)))"
proof -
  let ?m = "target_matches t"
  have split: "mset (filter is_delivered xs) =
      mset (filter is_delivered (filter (\<lambda>s. \<not> ?m s) xs)) + mset (filter is_delivered (filter ?m xs))"
    by (induction xs) (simp_all del: mset_filter)
  have "\<not> slot_falls_back c s" if "is_delivered s" for s
    using that by (cases s) (auto simp: slot_falls_back_def)
  then have "mset (filter is_delivered (filter ?m xs)) \<subseteq># mset (filter (\<lambda>s. ?m s \<and> \<not> slot_falls_back c s) xs)"
    unfolding filter_filter by (intro filter_sub_mset) auto
  then have "image_mset slot_message (mset (filter is_delivered (filter ?m xs))) \<subseteq>#
      image_mset slot_message (mset (filter (\<lambda>s. ?m s \<and> \<not> slot_falls_back c s) xs))"
    by (rule image_mset_subseteq_mono)
  then show ?thesis
    unfolding mset_map split image_mset_union by (simp add: comp_def multiset.map_comp)
qed

lemma admit_pending_Inr:
  assumes "admit_pending l b m k = (l', Inr ())"
  shows "lc_slots l' = lc_slots l @ [Pending (OwnedDelivery b m k)]"
    and "dm_identity m \<notin> set (map (dm_identity \<circ> slot_message) (lc_slots l))"
  using assms by (auto simp: admit_pending_def list_ex_iff split: if_splits)

lemma begin_delivery_slots:
  assumes "begin_delivery l b = (l', ms)"
  shows "lc_slots l' = lc_slots l \<or> lc_slots l' = map (start_projecting b) (lc_slots l)"
  using assms by (auto simp: begin_delivery_def Let_def split: if_splits)

lemma finish_delivery_Inr:
  assumes "finish_delivery l b f = (l', Inr ms)"
  shows "lc_slots l' = lc_slots l \<and> ms = [] \<or>
    lc_slots l' = map (mark_delivered b) (lc_slots l) \<and> ms = projecting_messages l b"
  using assms by (auto simp: finish_delivery_def Let_def split: if_splits sum.splits)

lemma delivered_start_projecting [simp]:
  "map slot_message (filter is_delivered (map (start_projecting b) xs)) = map slot_message (filter is_delivered xs)"
  by (simp add: filter_map comp_def)

lemma owned_identities:
  assumes "map slot_owned xs = map slot_owned ys"
  shows "map (dm_identity \<circ> slot_message) xs = map (dm_identity \<circ> slot_message) ys"
proof -
  have "map (dm_identity \<circ> od_message) (map slot_owned xs) = map (dm_identity \<circ> od_message) (map slot_owned ys)"
    by (simp only: assms)
  then show ?thesis by (simp add: comp_def)
qed

lemma delivery_inv_same_life:
  assumes "delivery_inv r" "map slot_owned (lc_slots l) = map slot_owned (lc_slots (dr_life r))"
    and "map slot_message (filter is_delivered (lc_slots l)) = map slot_message (filter is_delivered (lc_slots (dr_life r)))"
  shows "delivery_inv (r\<lparr>dr_life := l\<rparr>)"
  using assms owned_identities [OF assms(2)]
  unfolding delivery_inv_def by (simp del: mset_map mset_filter map_map)

lemma delivery_step_inv:
  assumes "delivery_inv r" "delivery_step r r'"
  shows "delivery_inv r'"
  using assms(2,1)
proof cases
  case (terminal t c l tr)
  obtain kept where k: "transition_loop t c (lc_slots (dr_life r)) = (kept, tr)" "l = (dr_life r)\<lparr>lc_slots := kept\<rparr>"
    using terminal(2) by (auto simp: transition_def split: prod.splits)
  note split = transition_loop_split [OF k(1)]
  let ?D = "\<lambda>xs. mset (map slot_message (filter is_delivered xs))"
  let ?xs = "lc_slots (dr_life r)"
  have inv: "distinct (map (dm_identity \<circ> slot_message) ?xs)"
    "mset (dr_committed r) \<subseteq># ?D ?xs + mset (map od_message (dr_completions r))"
    "?D ?xs \<subseteq># mset (dr_committed r)"
    using assms(1) by (auto simp: delivery_inv_def)
  have "mset (dr_committed r) \<subseteq># ?D kept + mset (map od_message (tt_completions tr @ dr_completions r))"
  proof -
    have "?D ?xs \<subseteq># ?D kept + mset (map od_message (tt_completions tr))"
      using delivered_completes [of ?xs t c] unfolding split(2,4) .
    then have "?D ?xs + mset (map od_message (dr_completions r)) \<subseteq>#
        ?D kept + mset (map od_message (tt_completions tr)) + mset (map od_message (dr_completions r))"
      by (rule subset_mset.add_right_mono)
    with inv(2) have "mset (dr_committed r) \<subseteq>#
        ?D kept + mset (map od_message (tt_completions tr)) + mset (map od_message (dr_completions r))"
      by (rule subset_mset.order_trans)
    then show ?thesis by (simp add: add.assoc)
  qed
  moreover have "?D kept \<subseteq># mset (dr_committed r)"
  proof -
    have "?D kept \<subseteq># ?D ?xs" unfolding split(2) mset_map
filter_filter
      by (intro image_mset_subseteq_mono filter_sub_mset) simp
    then show ?thesis using inv(3) by (rule subset_mset.order_trans)
  qed
  moreover have "distinct (map (dm_identity \<circ> slot_message) kept)"
    using inv(1) unfolding split(2) by (rule distinct_map_filter)
  ultimately show ?thesis
    using assms(1) split(1) k(2) terminal(1) by (simp add: delivery_inv_def)
next
  case (admit b m k l)
  with admit_pending_Inr [OF admit(2)] assms(1) show ?thesis by (simp add: delivery_inv_def)
next
  case (refuse b m k l m')
  then have "l = dr_life r" by (auto simp: admit_pending_def split: if_splits)
  then show ?thesis using delivery_inv_same_life [OF assms(1), of l] refuse by simp
next
  case (begin_d b l ms)
  then show ?thesis
    using begin_delivery_slots [OF begin_d(2)] delivery_inv_same_life [OF assms(1), of l]
    by (auto simp: map_same_owned)
next
  case (commit_ok b l ms)
  from finish_delivery_Inr [OF commit_ok(2)] show ?thesis
  proof
    assume "lc_slots l = lc_slots (dr_life r) \<and> ms = []"
    then show ?thesis using delivery_inv_same_life [OF assms(1), of l] commit_ok(1) by simp
  next
    assume l: "lc_slots l = map (mark_delivered b) (lc_slots (dr_life r)) \<and> ms = projecting_messages (dr_life r) b"
    let ?D = "\<lambda>xs. mset (map slot_message (filter is_delivered xs))"
    have D: "?D (lc_slots l) = ?D (lc_slots (dr_life r)) + mset ms"
      using l delivered_after_mark [of b "lc_slots (dr_life r)"] by (simp add: projecting_messages_def)
    have o: "map slot_owned (lc_slots l) = map slot_owned (lc_slots (dr_life r))"
      using l map_same_owned(1) [of "mark_delivered b"] by simp
    show ?thesis
      using assms(1) commit_ok(1) D o owned_identities [OF o]
      unfolding delivery_inv_def by (simp add: add.commute add.left_commute del: mset_map mset_filter map_map)
  qed
next
  case (commit_err b l)
  then have "l = dr_life r" by (auto simp: finish_delivery_def Let_def split: if_splits)
  then show ?thesis using delivery_inv_same_life [OF assms(1), of l] commit_err by simp
qed

lemma delivery_init_inv: "delivery_init r \<Longrightarrow> delivery_inv r"
  by (simp add: delivery_init_def delivery_inv_def lifecycle_default_def)

interpretation delivery: invariant_system delivery_init delivery_step delivery_inv
  by unfold_locales (auto intro: delivery_init_inv delivery_step_inv)

section \<open>Properties of message delivery\<close>

text \<open>C25. Accounting over every run: each admitted delivery is in exactly one place, still owned, or
  handed back once as a fallback, or once as a completion. Commits never outnumber admissions, and a
  delivery that fell back was not committed: the committed messages together with the fallen-back
  ones are part of the admitted ones. No two owned deliveries have the same identity.\<close>

theorem delivery_accounting:
  assumes "delivery_init r0" "delivery_step\<^sup>*\<^sup>* r0 r"
  shows "mset (dr_admitted r) =
      mset (map slot_owned (lc_slots (dr_life r))) + mset (dr_fallbacks r) + mset (dr_completions r) \<and>
    mset (dr_committed r) + mset (map od_message (dr_fallbacks r)) \<subseteq># mset (map od_message (dr_admitted r)) \<and>
    distinct (map (dm_identity \<circ> slot_message) (lc_slots (dr_life r)))"
proof -
  have inv: "delivery_inv r" using delivery.reachable_inv [OF assms] .
  let ?xs = "lc_slots (dr_life r)"
  have "mset (map slot_message (filter is_delivered ?xs)) \<subseteq># mset (map slot_message ?xs)"
    unfolding mset_map by (intro image_mset_subseteq_mono) simp
  then have "mset (map slot_message (filter is_delivered ?xs)) + mset (map od_message (dr_completions r)) \<subseteq>#
      mset (map slot_message ?xs) + mset (map od_message (dr_completions r))"
    by (rule subset_mset.add_right_mono)
  with inv have "mset (dr_committed r) \<subseteq># mset (map slot_message ?xs) + mset (map od_message (dr_completions r))"
    unfolding delivery_inv_def by (meson subset_mset.order_trans)
  then have "mset (dr_committed r) + mset (map od_message (dr_fallbacks r)) \<subseteq>#
      mset (map slot_message ?xs) + mset (map od_message (dr_completions r)) + mset (map od_message (dr_fallbacks r))"
    by (rule subset_mset.add_right_mono)
  also have "\<dots> = mset (map od_message (dr_admitted r))"
    using inv by (simp add: delivery_inv_def comp_def multiset.map_comp add.assoc add.commute add.left_commute)
  finally show ?thesis using inv by (simp add: delivery_inv_def)
qed

theorem delivery_accounting_witness:
  "\<exists>r. delivery_step\<^sup>*\<^sup>*
      \<lparr>dr_life = lifecycle_default, dr_admitted = [], dr_committed = [], dr_fallbacks = [], dr_completions = []\<rparr> r \<and>
     dr_admitted r = [OwnedDelivery \<lparr>tb_prompt_id = 1::nat, tb_epoch = 1::nat\<rparr>
        \<lparr>dm_identity = 7::nat, dm_source = (), dm_content = ()\<rparr> ()] \<and>
     mset (dr_committed r) + mset (map od_message (dr_fallbacks r)) \<subseteq># mset (map od_message (dr_admitted r))"
proof -
  let ?b = "\<lparr>tb_prompt_id = 1::nat, tb_epoch = 1::nat\<rparr>"
  let ?m = "\<lparr>dm_identity = 7::nat, dm_source = (), dm_content = ()\<rparr>"
  let ?r0 = "\<lparr>dr_life = lifecycle_default, dr_admitted = [], dr_committed = [], dr_fallbacks = [], dr_completions = []\<rparr>"
  let ?l = "\<lparr>lc_slots = [Pending (OwnedDelivery ?b ?m ())]\<rparr>"
  have "admit_pending (dr_life ?r0) ?b ?m () = (?l, Inr ())"
    by (simp add: admit_pending_def lifecycle_default_def)
  from admit [OF this] have "delivery_step\<^sup>*\<^sup>* ?r0 (?r0\<lparr>dr_life := ?l, dr_admitted := [OwnedDelivery ?b ?m ()]\<rparr>)"
    by auto
  from delivery_accounting [OF _ this] this show ?thesis
    by (intro exI [of _ "?r0\<lparr>dr_life := ?l, dr_admitted := [OwnedDelivery ?b ?m ()]\<rparr>"])
      (simp add: delivery_init_def)
qed

lemma start_projecting_idle: "pending_messages l b = [] \<Longrightarrow> map (start_projecting b) (lc_slots l) = lc_slots l"
proof -
  have "List.map_filter f xs = [] \<Longrightarrow> s \<in> set xs \<Longrightarrow> f s = None" for f :: "_ \<Rightarrow> 'z option" and xs s
    by (auto simp: map_filter_def filter_empty_conv)
  moreover assume "pending_messages l b = []"
  ultimately show ?thesis unfolding pending_messages_def
    by (intro map_idI) (force simp: start_projecting_def split: delivery_slot.splits if_splits)
qed

lemma mark_delivered_idle: "projecting_messages l b = [] \<Longrightarrow> map (mark_delivered b) (lc_slots l) = lc_slots l"
proof -
  have "List.map_filter f xs = [] \<Longrightarrow> s \<in> set xs \<Longrightarrow> f s = None" for f :: "_ \<Rightarrow> 'z option" and xs s
    by (auto simp: map_filter_def filter_empty_conv)
  moreover assume "projecting_messages l b = []"
  ultimately show ?thesis unfolding projecting_messages_def
    by (intro map_idI) (force simp: mark_delivered_def split: delivery_slot.splits if_splits)
qed

text \<open>One delivery, step by step. \<open>begin_delivery\<close> returns the pending messages of the turn in the
  order of admission and moves exactly those slots to projecting; afterwards none of the turn is
  pending. \<open>finish_delivery\<close> hands the projecting messages of the turn to the commit callback; if
  that fails nothing changes and its error is returned, otherwise exactly those slots become
  delivered. Slots of other turns keep their phase and every slot its place.\<close>

theorem delivery_phases:
  "begin_delivery l b = (l\<lparr>lc_slots := map (start_projecting b) (lc_slots l)\<rparr>, pending_messages l b) \<and>
   pending_messages (fst (begin_delivery l b)) b = [] \<and>
   finish_delivery l b commit =
     (if projecting_messages l b = [] then (l, Inr [])
      else case commit (projecting_messages l b) of
        Inl e \<Rightarrow> (l, Inl e)
      | Inr _ \<Rightarrow> (l\<lparr>lc_slots := map (mark_delivered b) (lc_slots l)\<rparr>, Inr (projecting_messages l b))) \<and>
   projecting_messages (fst (finish_delivery l b (\<lambda>_. Inr () :: 'err + unit))) b = [] \<and>
   (od_binding (slot_owned s) \<noteq> b \<longrightarrow> start_projecting b s = s \<and> mark_delivered b s = s)"
proof -
  have none: "List.map_filter f (map g xs) = []" if "\<And>s. f (g s) = None" for f :: "'y \<Rightarrow> 'z option" and g :: "'x \<Rightarrow> 'y" and xs
    using that by (induction xs) (auto simp: map_filter_simps)
  have b: "begin_delivery l b = (l\<lparr>lc_slots := map (start_projecting b) (lc_slots l)\<rparr>, pending_messages l b)"
    using start_projecting_idle [of l b] by (simp add: begin_delivery_def Let_def)
  moreover have "pending_messages (fst (begin_delivery l b)) b = []"
    unfolding b pending_messages_def by (auto intro!: none simp: start_projecting_def split: delivery_slot.splits)
  moreover have "fst (finish_delivery l b (\<lambda>_. Inr () :: 'err + unit)) = l\<lparr>lc_slots := map (mark_delivered b) (lc_slots l)\<rparr>"
    using mark_delivered_idle [of l b] by (simp add: finish_delivery_def Let_def)
  then have "projecting_messages (fst (finish_delivery l b (\<lambda>_. Inr () :: 'err + unit))) b = []"
    unfolding projecting_messages_def by (auto intro!: none simp: mark_delivered_def split: delivery_slot.splits)
  ultimately show ?thesis
    by (auto simp: finish_delivery_def Let_def start_projecting_def mark_delivered_def split: delivery_slot.splits sum.splits)
qed

theorem delivery_phases_witness:
  "pending_messages (fst (begin_delivery (lifecycle_default :: (nat, nat, nat, nat, nat, nat) lifecycle)
      \<lparr>tb_prompt_id = 1, tb_epoch = 1\<rparr>)) \<lparr>tb_prompt_id = 1, tb_epoch = 1\<rparr> = []"
  using delivery_phases [of lifecycle_default "\<lparr>tb_prompt_id = 1, tb_epoch = 1\<rparr>"] by blast

text \<open>The end of a turn: \<open>transition\<close> removes exactly the slots of the target. Under a cause that
  falls back, the pending ones come back as fallbacks in order and all others as completions; under
  a hard teardown or an actor drop nothing falls back. Ending all turns leaves no slot.\<close>

theorem transition_partition:
  "transition l target cause =
     (l\<lparr>lc_slots := filter (\<lambda>s. \<not> target_matches target s) (lc_slots l)\<rparr>,
      \<lparr>tt_fallbacks = map slot_owned (filter (\<lambda>s. target_matches target s \<and> slot_falls_back cause s) (lc_slots l)),
       tt_completions = map slot_owned (filter (\<lambda>s. target_matches target s \<and> \<not> slot_falls_back cause s) (lc_slots l))\<rparr>) \<and>
   (cause = HardTeardown \<or> cause = ActorDrop \<longrightarrow> tt_fallbacks (snd (transition l target cause)) = []) \<and>
   lc_slots (fst (transition l All cause)) = []"
proof -
  have "transition l t cause =
     (l\<lparr>lc_slots := filter (\<lambda>s. \<not> target_matches t s) (lc_slots l)\<rparr>,
      \<lparr>tt_fallbacks = map slot_owned (filter (\<lambda>s. target_matches t s \<and> slot_falls_back cause s) (lc_slots l)),
       tt_completions = map slot_owned (filter (\<lambda>s. target_matches t s \<and> \<not> slot_falls_back cause s) (lc_slots l))\<rparr>)" for t
  proof -
    obtain kept tr where k: "transition_loop t cause (lc_slots l) = (kept, tr)" by fastforce
    with transition_loop_split [OF k] show ?thesis by (simp add: transition_def)
  qed
  then show ?thesis
    by (auto simp: slot_falls_back_def falls_back_def target_matches_def filter_empty_conv split: delivery_slot.splits)
qed

theorem transition_partition_witness:
  "tt_fallbacks (snd (transition (lifecycle_default :: (nat, nat, nat, nat, nat, nat) lifecycle) All ActorDrop)) = []"
  using transition_partition [of lifecycle_default All ActorDrop] by blast

end
