(* ===== verification/Agent_Identity.thy ===== *)
theory Agent_Identity
  imports Rust_Strings
begin

text \<open>
  Agent identities, delivery addresses and operation authorisation
  (\<open>xai-message-delivery-core/src/identity.rs\<close>, \<open>address.rs\<close> and \<open>envelope.rs\<close>). Entropy is the
  host's argument, an unsigned integer of 128 bits, printed in lowercase hexadecimal.
\<close>

unbundle bit_operations_syntax

fun hex :: "nat \<Rightarrow> rstring" where
  "hex n = (if n < 10 then [48 + n] else if n < 16 then [87 + n]
            else hex (n div 16) @ [if n mod 16 < 10 then 48 + n mod 16 else 87 + n mod 16])"

declare hex.simps [simp del]

type_synonym u128 = "128 word"

section \<open>Identities\<close>

definition AGENT_PREFIX :: rstring where "AGENT_PREFIX = lit ''ag1.''"
definition ATTEMPT_PREFIX :: rstring where "ATTEMPT_PREFIX = lit ''at1.''"
definition UUID_TOKEN_LEN :: nat where "UUID_TOKEN_LEN = 36"
definition UUID_HYPHENS :: "nat list" where "UUID_HYPHENS = [8, 13, 18, 23]"
definition UUID_V7_INDEX :: nat where "UUID_V7_INDEX = 14"
definition UUID_VARIANT_INDEX :: nat where "UUID_VARIANT_INDEX = 19"

datatype agent_id = AgentId rstring
datatype attempt_id = AttemptId rstring

definition is_lower_hex :: "u8 \<Rightarrow> bool" where
  "is_lower_hex b \<longleftrightarrow> 48 \<le> b \<and> b \<le> 57 \<or> 97 \<le> b \<and> b \<le> 102"

definition is_uuid_v7 :: "rstring \<Rightarrow> bool" where
  "is_uuid_v7 token \<longleftrightarrow>
     (let bytes = utf8_bytes token in
      length bytes = UUID_TOKEN_LEN \<and>
      list_all (\<lambda>(index, byte). if List.member UUID_HYPHENS index then byte = 45 else is_lower_hex byte)
        (enumerate 0 bytes) \<and>
      bytes ! UUID_V7_INDEX = 55 \<and>
      (bytes ! UUID_VARIANT_INDEX = 56 \<or> bytes ! UUID_VARIANT_INDEX = 57 \<or>
       bytes ! UUID_VARIANT_INDEX = 97 \<or> bytes ! UUID_VARIANT_INDEX = 98))"

definition parse_prefixed :: "rstring \<Rightarrow> rstring \<Rightarrow> rstring option" where
  "parse_prefixed token prefix =
     (let token = trim token in
      case strip_prefix prefix token of
        None \<Rightarrow> None
      | Some rest \<Rightarrow>
          if rest = [] \<or> \<not> list_all is_lower_hex (utf8_bytes rest) then None else Some token)"

definition agent_mint :: "u128 \<Rightarrow> agent_id" where
  "agent_mint entropy = AgentId (AGENT_PREFIX @ hex (unat entropy))"

definition agent_parse :: "rstring \<Rightarrow> agent_id option" where
  "agent_parse token =
     (let token = trim token in
      if is_uuid_v7 token then Some (AgentId token)
      else map_option AgentId (parse_prefixed token AGENT_PREFIX))"

definition agent_from_uuid_v7 :: "rstring \<Rightarrow> agent_id option" where
  "agent_from_uuid_v7 token = (if is_uuid_v7 token then Some (AgentId token) else None)"

fun agent_as_str :: "agent_id \<Rightarrow> rstring" where
  "agent_as_str (AgentId s) = s"

definition attempt_mint :: "u128 \<Rightarrow> attempt_id" where
  "attempt_mint entropy = AttemptId (ATTEMPT_PREFIX @ hex (unat entropy))"

definition attempt_parse :: "rstring \<Rightarrow> attempt_id option" where
  "attempt_parse token = map_option AttemptId (parse_prefixed token ATTEMPT_PREFIX)"

fun attempt_as_str :: "attempt_id \<Rightarrow> rstring" where
  "attempt_as_str (AttemptId s) = s"

datatype identity_action =
  Start agent_id attempt_id | Resume agent_id attempt_id | Fork agent_id attempt_id

definition next_identity :: "agent_id option \<Rightarrow> bool \<Rightarrow> u128 \<Rightarrow> u128 \<Rightarrow> identity_action" where
  "next_identity previous fork agent_entropy attempt_entropy =
     (let attempt = attempt_mint attempt_entropy in
      case previous of
        None \<Rightarrow> Start (agent_mint agent_entropy) attempt
      | Some agent \<Rightarrow> if fork then Fork (agent_mint agent_entropy) attempt else Resume agent attempt)"

section \<open>Addresses\<close>

definition ADDRESS_PREFIX :: rstring where "ADDRESS_PREFIX = lit ''aa1.''"

datatype agent_address = AgentAddress rstring

definition ascii_lower :: "rchar \<Rightarrow> rchar" where
  "ascii_lower c = (if 65 \<le> c \<and> c \<le> 90 then c + 32 else c)"

definition eq_ignore_ascii_case :: "rstring \<Rightarrow> rstring \<Rightarrow> bool" where
  "eq_ignore_ascii_case a b \<longleftrightarrow> map ascii_lower a = map ascii_lower b"

definition is_presentable :: "rstring \<Rightarrow> bool" where
  "is_presentable token \<longleftrightarrow> token \<noteq> [] \<and> \<not> eq_ignore_ascii_case token (lit ''null'') \<and>
     \<not> eq_ignore_ascii_case token (lit ''none'') \<and> \<not> eq_ignore_ascii_case token (lit ''undefined'')"

definition address_mint :: "u128 \<Rightarrow> agent_address" where
  "address_mint entropy = AgentAddress (ADDRESS_PREFIX @ hex (unat entropy))"

definition address_parse :: "rstring \<Rightarrow> agent_address option" where
  "address_parse token =
     (let token = trim token in if \<not> is_presentable token then None else Some (AgentAddress token))"

fun address_as_str :: "agent_address \<Rightarrow> rstring" where
  "address_as_str (AgentAddress s) = s"

definition mint_child_address :: "bool \<Rightarrow> u128 \<Rightarrow> agent_address option" where
  "mint_child_address workflow entropy = (if workflow then None else Some (address_mint entropy))"

definition advertised_address :: "rstring option \<Rightarrow> bool \<Rightarrow> rstring option" where
  "advertised_address stored workflow =
     (if workflow then None
      else case stored of
        Some token \<Rightarrow> if address_parse token \<noteq> None then Some token else None
      | None \<Rightarrow> None)"

datatype address_presence = Active | PendingPresence | Gone

record address_candidate =
  ac_stored_address :: "rstring option"
  ac_session_id :: rstring
  ac_owner_match :: bool
  ac_generation_current :: bool
  ac_workflow :: bool
  ac_presence :: address_presence

datatype address_decision =
  Owned address_presence | RawSessionId | Foreign | StaleAddress | WorkflowNotAddressable | Unresolved

definition resolve_address :: "rstring \<Rightarrow> address_candidate option \<Rightarrow> address_decision" where
  "resolve_address presented candidate =
     (case candidate of
        None \<Rightarrow> Unresolved
      | Some c \<Rightarrow>
          let presented = trim presented;
              address_match = (case ac_stored_address c of Some stored \<Rightarrow> stored = presented | None \<Rightarrow> False)
          in if ac_session_id c = presented \<and> \<not> address_match then RawSessionId
             else if \<not> address_match then Unresolved
             else if ac_workflow c then WorkflowNotAddressable
             else if \<not> ac_owner_match c then Foreign
             else if \<not> ac_generation_current c \<or> ac_presence c = Gone then StaleAddress
             else Owned (ac_presence c))"

section \<open>Operations\<close>

datatype operation = Queue | Steer | Interject | InterruptAndSend

datatype operation_set = OperationSet u8

definition QUEUE :: operation_set where "QUEUE = OperationSet (push_bit 0 1)"
definition QUEUE_AND_STEER :: operation_set where
  "QUEUE_AND_STEER = OperationSet (push_bit 0 1 OR push_bit 1 1)"
definition QUEUE_STEER_AND_INTERJECT :: operation_set where
  "QUEUE_STEER_AND_INTERJECT = OperationSet (push_bit 0 1 OR push_bit 1 1 OR push_bit 2 1)"

fun operation_flag :: "operation \<Rightarrow> u8" where
  "operation_flag Queue = push_bit 0 1"
| "operation_flag Steer = push_bit 1 1"
| "operation_flag Interject = push_bit 2 1"
| "operation_flag InterruptAndSend = push_bit 3 1"

fun operations_contain :: "operation_set \<Rightarrow> operation \<Rightarrow> bool" where
  "operations_contain (OperationSet bits) op \<longleftrightarrow> bits AND operation_flag op \<noteq> 0"

datatype authorized_operation = AuthorizedOperation operation
datatype unsupported_operation = UnsupportedOperation operation

definition authorize_operation :: "operation_set \<Rightarrow> operation \<Rightarrow> unsupported_operation + authorized_operation" where
  "authorize_operation allowed requested =
     (if operations_contain allowed requested then Inr (AuthorizedOperation requested)
      else Inl (UnsupportedOperation requested))"

section \<open>Lemmas\<close>

lemma hex_chars: "c \<in> set (hex n) \<Longrightarrow> 48 \<le> c \<and> c \<le> 57 \<or> 97 \<le> c \<and> c \<le> 102"
proof (induction n rule: hex.induct)
  case (1 n)
  show ?case
  proof (cases "n < 16")
    case True
    then show ?thesis using 1(2) by (subst (asm) hex.simps) (auto split: if_splits)
  next
    case False
    have "n mod 16 < 16" by simp
    with False 1 show ?thesis by (subst (asm) (2) hex.simps) (auto split: if_splits)
  qed
qed

lemma hex_nonempty [simp]: "hex n \<noteq> []"
  by (subst hex.simps) simp

definition hex_digit :: "rchar \<Rightarrow> nat" where
  "hex_digit c = (if c < 58 then c - 48 else c - 87)"

lemma hex_value: "foldl (\<lambda>v c. 16 * v + hex_digit c) 0 (hex n) = n"
proof (induction n rule: hex.induct)
  case (1 n)
  show ?case
  proof (cases "n < 16")
    case True
    then show ?thesis by (subst hex.simps) (auto simp: hex_digit_def)
  next
    case False
    have "n mod 16 < 16" by simp
    with False 1 show ?thesis by (subst hex.simps) (auto simp: hex_digit_def)
  qed
qed

lemma hex_inject [simp]: "hex m = hex n \<longleftrightarrow> m = n"
  by (metis hex_value)

lemma hex_bytes: "list_all is_lower_hex (utf8_bytes (hex n))"
proof -
  have "list_all is_lower_hex (utf8_char c)" if "48 \<le> c \<and> c \<le> 57 \<or> 97 \<le> c \<and> c \<le> 102" for c
    using that by (auto simp: utf8_char_def is_lower_hex_def word_le_nat_alt unat_of_nat)
  then have "\<forall>c \<in> set (hex n). list_all is_lower_hex (utf8_char c)" using hex_chars by blast
  then show ?thesis by (auto simp: utf8_bytes_def list_all_iff)
qed

lemma token_trim:
  assumes "p \<noteq> []" "\<not> is_whitespace (hd p)"
  shows "trim (p @ hex n) = p @ hex n"
proof (rule trim_id)
  have "last (p @ hex n) \<in> set (hex n)" by simp
  from hex_chars [OF this] show "\<not> is_whitespace (last (p @ hex n))"
    by (simp only: is_whitespace_def) linarith
qed (use assms in auto)

lemmas prefix_defs = AGENT_PREFIX_def ATTEMPT_PREFIX_def ADDRESS_PREFIX_def

lemma parse_prefixed_mint:
  "p \<noteq> [] \<Longrightarrow> \<not> is_whitespace (hd p) \<Longrightarrow> parse_prefixed (p @ hex n) p = Some (p @ hex n)"
  by (simp add: parse_prefixed_def token_trim hex_bytes)

lemma not_uuid_prefix: "c < 128 \<Longrightarrow> c \<noteq> 45 \<Longrightarrow> \<not> is_lower_hex (of_nat c) \<Longrightarrow> \<not> is_uuid_v7 (a # c # s)"
proof
  assume c: "c < 128" "\<not> is_lower_hex (of_nat c)" and u: "is_uuid_v7 (a # c # s)"
  have "\<exists>i. i < 5 \<and> utf8_bytes (a # c # s) ! i = of_nat c \<and> 0 < i \<and> i < length (utf8_bytes (a # c # s))"
    using c(1) by (intro exI [of _ "length (utf8_char a)"]) (auto simp: utf8_char_def nth_append)
  then obtain i where i: "i < 5" "utf8_bytes (a # c # s) ! i = of_nat c" "i < length (utf8_bytes (a # c # s))" by blast
  have "\<not> List.member UUID_HYPHENS i" using i(1) by (auto simp: UUID_HYPHENS_def)
  then have "is_lower_hex (utf8_bytes (a # c # s) ! i)"
    using u i(3) unfolding is_uuid_v7_def Let_def list_all_length
    by (auto simp: nth_enumerate_eq dest!: spec [of _ i])
  with c(2) i(2) show False by simp
qed

lemma agent_token_not_uuid: "\<not> is_uuid_v7 (lit ''ag1.'' @ t)" "\<not> is_uuid_v7 (lit ''at1.'' @ t)"
  using not_uuid_prefix [of 103 97 "[49, 46] @ t"] not_uuid_prefix [of 116 97 "[49, 46] @ t"]
  by (simp_all add: is_lower_hex_def)

section \<open>Properties\<close>

text \<open>Minted tokens. Every minted agent id, attempt id and address parses back to itself, also
  with white space around it; minting is injective in the entropy; and a minted attempt id is no
  agent id, nor the reverse.\<close>

theorem identity_tokens:
  assumes "list_all is_whitespace w" "list_all is_whitespace v"
  shows "agent_parse (w @ agent_as_str (agent_mint x) @ v) = Some (agent_mint x) \<and>
    attempt_parse (w @ attempt_as_str (attempt_mint x) @ v) = Some (attempt_mint x) \<and>
    address_parse (w @ address_as_str (address_mint x) @ v) = Some (address_mint x) \<and>
    (agent_mint x = agent_mint y \<longleftrightarrow> x = y) \<and> (attempt_mint x = attempt_mint y \<longleftrightarrow> x = y) \<and>
    (address_mint x = address_mint y \<longleftrightarrow> x = y) \<and>
    agent_parse (attempt_as_str (attempt_mint x)) = None \<and>
    attempt_parse (agent_as_str (agent_mint x)) = None"
proof -
  have p: "AGENT_PREFIX \<noteq> []" "\<not> is_whitespace (hd AGENT_PREFIX)" "ATTEMPT_PREFIX \<noteq> []"
    "\<not> is_whitespace (hd ATTEMPT_PREFIX)" "ADDRESS_PREFIX \<noteq> []" "\<not> is_whitespace (hd ADDRESS_PREFIX)"
    by (simp_all add: prefix_defs is_whitespace_def)
  note tr = trim_surround [OF assms] token_trim [OF p(1,2)] token_trim [OF p(3,4)] token_trim [OF p(5,6)]
  note mint = parse_prefixed_mint [OF p(1,2)] parse_prefixed_mint [OF p(3,4)]
  have uuid: "\<not> is_uuid_v7 (AGENT_PREFIX @ t)" "\<not> is_uuid_v7 (ATTEMPT_PREFIX @ t)" for t
    using agent_token_not_uuid by (simp_all add: prefix_defs)
  have other: "strip_prefix AGENT_PREFIX (ATTEMPT_PREFIX @ t) = None" "strip_prefix ATTEMPT_PREFIX (AGENT_PREFIX @ t) = None" for t
    by (simp_all add: strip_prefix_def prefix_defs)
  have present: "is_presentable (ADDRESS_PREFIX @ t)" for t
    by (simp add: is_presentable_def prefix_defs eq_ignore_ascii_case_def ascii_lower_def)
  have pre: "parse_prefixed (w @ ATTEMPT_PREFIX @ hex n @ v) ATTEMPT_PREFIX = Some (ATTEMPT_PREFIX @ hex n)" for n
    using mint(2) [of n] tr(1) [of "ATTEMPT_PREFIX @ hex n"] tr(3) by (simp add: parse_prefixed_def)
  show ?thesis
    using tr(1) [of "AGENT_PREFIX @ hex (unat x)"] tr(1) [of "ADDRESS_PREFIX @ hex (unat x)"] tr(2-) mint uuid other present pre
    by (simp add: agent_parse_def agent_mint_def attempt_parse_def attempt_mint_def address_parse_def
        address_mint_def Let_def parse_prefixed_def word_unat_eq_iff)
qed

theorem identity_tokens_witness:
  "agent_parse (lit '' '' @ agent_as_str (agent_mint 255)) = Some (agent_mint 255)"
  using identity_tokens [of "lit '' ''" "[]" 255 0] by (simp add: is_whitespace_def)

text \<open>Addressing is a capability. A presented token is \<open>Owned\<close> exactly when the candidate stores
  that very address, is no workflow child, belongs to the caller, is of the current generation and
  not gone. A session id alone is never enough, even when it equals the token, and an authorised
  operation is one whose bit is in the allowed set.\<close>

theorem resolve_address_owned:
  "(resolve_address presented candidate = Owned p \<longleftrightarrow>
     (\<exists>c. candidate = Some c \<and> ac_stored_address c = Some (trim presented) \<and> \<not> ac_workflow c \<and>
        ac_owner_match c \<and> ac_generation_current c \<and> ac_presence c = p \<and> p \<noteq> Gone)) \<and>
   (resolve_address presented candidate = RawSessionId \<longleftrightarrow>
     (\<exists>c. candidate = Some c \<and> ac_session_id c = trim presented \<and> ac_stored_address c \<noteq> Some (trim presented))) \<and>
   (authorize_operation QUEUE op = Inr (AuthorizedOperation op) \<longleftrightarrow> op = Queue) \<and>
   (authorize_operation QUEUE_AND_STEER op = Inr (AuthorizedOperation op) \<longleftrightarrow> op = Queue \<or> op = Steer) \<and>
   (authorize_operation QUEUE_STEER_AND_INTERJECT op = Inr (AuthorizedOperation op) \<longleftrightarrow> op \<noteq> InterruptAndSend)"
  by (cases op) (auto simp: resolve_address_def Let_def authorize_operation_def QUEUE_def QUEUE_AND_STEER_def
      QUEUE_STEER_AND_INTERJECT_def split: option.splits)

end
