(* ===== verification/Compaction_Fit.thy ===== *)
theory Compaction_Fit
  imports Compaction_Select
begin

text \<open>
  Fitting the input of the summariser to a token budget (\<open>intra_compaction/fit.rs\<close>): the
  ordered ladder of stages, and the clipping of a text to a byte budget. Counting an item
  (\<open>ItemTokenCounter\<close>) is an argument; casts between \<open>usize\<close> and \<open>u32\<close> truncate as in the
  source. \<open>None\<close> is a panic on a slice out of range. Logging is left out.
\<close>

section \<open>Definitions\<close>

datatype fit_rung = Verbatim | HistoryTurnSelected | ToolTruncated | StepTurnsSelected | Emergency

record 't fit_plan =
  llm_turns :: "'t list"
  tokens_raw :: u32
  tokens_fit :: u32
  rung :: fit_rung
  items_truncated :: u32
  history_turns_omitted :: u32
  step_turns_omitted :: u32

definition sum_tokens :: "('t \<Rightarrow> u32) \<Rightarrow> 't list \<Rightarrow> u32" where
  "sum_tokens counter turns = foldl saturating_add_u32 0 (map counter turns)"

definition token_counts :: "('t \<Rightarrow> u32) \<Rightarrow> 't list \<Rightarrow> u32 list" where
  "token_counts counter turns = map counter turns"

definition concat_turns :: "'t list \<Rightarrow> 't list \<Rightarrow> 't list" where
  "concat_turns history steps = history @ steps"

definition shrink_item_to_token_budget :: "('t, 'z) builder_ops_scheme \<Rightarrow> 't \<Rightarrow> u32 \<Rightarrow> 't" where
  "shrink_item_to_token_budget ops item max_tokens =
     truncate_payload_for_compaction ops item max_tokens"

definition shrink_oversized_tool_results ::
  "('t, 'z) builder_ops_scheme \<Rightarrow> 't list \<Rightarrow> ('t \<Rightarrow> u32) \<Rightarrow> u32 \<Rightarrow> 't list \<times> u32" where
  "shrink_oversized_tool_results ops turns counter max_tokens =
     (let oversized = (\<lambda>t. is_tool_result ops t \<and> max_tokens < counter t)
      in (map (\<lambda>t. if oversized t then shrink_item_to_token_budget ops t max_tokens else t) turns,
          of_nat (length (filter oversized turns))))"

definition keep_recent_under_budget ::
  "('t, 'z) builder_ops_scheme \<Rightarrow> 't list \<Rightarrow> u32 list \<Rightarrow> u32 \<Rightarrow> ('t list \<times> u32) option option" where
  "keep_recent_under_budget ops turns counts budget =
     (if turns = [] then Some (Some ([], 0))
      else if budget = 0 then Some (Some ([], of_nat (length turns)))
      else if sum_counts counts \<le> budget then Some (Some (turns, 0))
      else do {
        selected \<leftarrow> select_turns_to_compact ops counts turns budget 0;
        case selected of
          None \<Rightarrow> Some None
        | Some plan \<Rightarrow> do {
            keep \<leftarrow> slice_from turns (split_idx plan);
            Some (Some (keep, of_nat (split_idx plan))) } })"

definition plan_ok ::
  "'t list \<Rightarrow> 't list \<Rightarrow> ('t \<Rightarrow> u32) \<Rightarrow> u32 \<Rightarrow> fit_rung \<Rightarrow> u32 \<Rightarrow> u32 \<Rightarrow> u32 \<Rightarrow> 't fit_plan" where
  "plan_ok history steps counter raw r truncated hist_omitted step_omitted =
     (let turns = concat_turns history steps
      in \<lparr>llm_turns = turns, tokens_raw = raw, tokens_fit = sum_tokens counter turns, rung = r,
          items_truncated = truncated, history_turns_omitted = hist_omitted,
          step_turns_omitted = step_omitted\<rparr>)"

text \<open>
  Stages 1 and 3 shorten one side with the same statements: the remaining turns, their counts
  and the number of turns dropped.
\<close>

definition select_side ::
  "('t, 'z) builder_ops_scheme \<Rightarrow> 't list \<Rightarrow> u32 list \<Rightarrow> u32 \<Rightarrow> ('t list \<times> u32 list \<times> u32) option" where
  "select_side ops turns counts side_budget =
     (if side_budget < sum_counts counts then do {
        kept \<leftarrow> keep_recent_under_budget ops turns counts side_budget;
        case kept of
          Some (keep, omitted) \<Rightarrow> do {
            counts' \<leftarrow> slice_from counts (unat omitted);
            Some (keep, counts', omitted) }
        | None \<Rightarrow> Some ([], [], of_nat (length turns)) }
      else Some (turns, counts, 0))"

definition emergency_source ::
  "'t list \<Rightarrow> 't list \<Rightarrow> 't list \<Rightarrow> 't list \<Rightarrow> u32 \<Rightarrow> u32 \<Rightarrow> 't list \<times> u32 \<times> u32" where
  "emergency_source history steps hist step hist_omitted step_omitted =
     (let combined = concat_turns hist step
      in if combined = [] then
           (concat_turns history steps,
            if steps = [] then (of_nat (length history - 1), 0)
            else (of_nat (length history), of_nat (length steps - 1)))
         else if step = [] then
           (combined, saturating_add_u32 hist_omitted (of_nat (length hist - 1)), step_omitted)
         else
           (combined, saturating_add_u32 hist_omitted (of_nat (length hist)),
            saturating_add_u32 step_omitted (of_nat (length step - 1))))"

definition fit_emergency ::
  "('t, 'z) builder_ops_scheme \<Rightarrow> ('t \<Rightarrow> u32) \<Rightarrow> u32 \<Rightarrow> u32 \<Rightarrow> u32 \<Rightarrow> 't list \<times> u32 \<times> u32 \<Rightarrow> 't fit_plan" where
  "fit_emergency ops counter budget raw truncated source =
     (case source of (turns, hist_omitted, step_omitted) \<Rightarrow>
        if turns = [] then
          \<lparr>llm_turns = [], tokens_raw = raw, tokens_fit = 0, rung = Emergency,
           items_truncated = truncated, history_turns_omitted = hist_omitted,
           step_turns_omitted = step_omitted\<rparr>
        else
          let newest = [shrink_item_to_token_budget ops (last turns) budget]
          in \<lparr>llm_turns = newest, tokens_raw = raw, tokens_fit = sum_tokens counter newest,
              rung = Emergency, items_truncated = saturating_add_u32 truncated 1,
              history_turns_omitted = hist_omitted, step_turns_omitted = step_omitted\<rparr>)"

definition fit_steps_stage ::
  "('t, 'z) builder_ops_scheme \<Rightarrow> 't list \<Rightarrow> 't list \<Rightarrow> ('t \<Rightarrow> u32) \<Rightarrow> u32 \<Rightarrow> u32 \<Rightarrow> u32 \<Rightarrow>
   't list \<Rightarrow> 't list \<Rightarrow> u32 list \<Rightarrow> u32 list \<Rightarrow> u32 \<Rightarrow> 't fit_plan option" where
  "fit_steps_stage ops history steps counter budget raw truncated hist step hist_counts step_counts
     hist_omitted =
     (let hist_tokens = sum_counts hist_counts
      in do {
        (step', step_counts', step_omitted) \<leftarrow>
          (if hist_tokens < budget then select_side ops step step_counts (budget - hist_tokens)
           else Some ([], [], of_nat (length step)));
        if saturating_add_u32 (sum_counts hist_counts) (sum_counts step_counts') \<le> budget
           \<and> (hist \<noteq> [] \<or> step' \<noteq> [])
        then Some (plan_ok hist step' counter raw StepTurnsSelected truncated hist_omitted step_omitted)
        else Some (fit_emergency ops counter budget raw truncated
                     (emergency_source history steps hist step' hist_omitted step_omitted)) })"

definition fit_tools_stage ::
  "('t, 'z) builder_ops_scheme \<Rightarrow> 't list \<Rightarrow> 't list \<Rightarrow> ('t \<Rightarrow> u32) \<Rightarrow> u32 \<Rightarrow> u32 \<Rightarrow>
   't list \<Rightarrow> 't list \<Rightarrow> u32 \<Rightarrow> 't fit_plan option" where
  "fit_tools_stage ops history steps counter budget raw hist step hist_omitted =
     (let (hist2, n1) = shrink_oversized_tool_results ops hist counter budget;
          (step2, n2) = shrink_oversized_tool_results ops step counter budget;
          truncated = saturating_add_u32 n1 n2;
          hist_counts = token_counts counter hist2;
          step_counts = token_counts counter step2
      in if saturating_add_u32 (sum_counts hist_counts) (sum_counts step_counts) \<le> budget
         then Some (plan_ok hist2 step2 counter raw ToolTruncated truncated hist_omitted 0)
         else fit_steps_stage ops history steps counter budget raw truncated hist2 step2
                hist_counts step_counts hist_omitted)"

definition fit_turns_for_summarizer ::
  "('t, 'z) builder_ops_scheme \<Rightarrow> 't list \<Rightarrow> 't list \<Rightarrow> ('t \<Rightarrow> u32) \<Rightarrow> u32 \<Rightarrow> 't fit_plan option" where
  "fit_turns_for_summarizer ops history steps counter budget =
     (let hist_counts = token_counts counter history;
          step_counts = token_counts counter steps;
          raw = saturating_add_u32 (sum_counts hist_counts) (sum_counts step_counts)
      in if budget = 0 then
           Some \<lparr>llm_turns = [], tokens_raw = raw, tokens_fit = 0, rung = Emergency,
                 items_truncated = 0, history_turns_omitted = of_nat (length history),
                 step_turns_omitted = of_nat (length steps)\<rparr>
         else if raw \<le> budget then Some (plan_ok history steps counter raw Verbatim 0 0 0)
         else
           let steps_tokens = sum_counts step_counts
           in do {
             (hist, hist_counts', hist_omitted) \<leftarrow>
               (if steps_tokens < budget
                then select_side ops history hist_counts (budget - steps_tokens)
                else Some ([], [], of_nat (length history)));
             if saturating_add_u32 (sum_counts hist_counts') (sum_counts step_counts) \<le> budget
             then Some (plan_ok hist steps counter raw HistoryTurnSelected 0 hist_omitted 0)
             else fit_tools_stage ops history steps counter budget raw hist steps hist_omitted })"

subsection \<open>Clipping a text\<close>

text \<open>
  A Rust string is its UTF-8 bytes; \<open>is_char_boundary\<close> holds at the ends and before every byte
  that is not a continuation byte.
\<close>

definition is_char_boundary :: "u8 list \<Rightarrow> nat \<Rightarrow> bool" where
  "is_char_boundary bs i \<longleftrightarrow>
     i = 0 \<or> i = length bs \<or> (i < length bs \<and> (bs ! i < 128 \<or> 192 \<le> bs ! i))"

fun boundary_loop :: "u8 list \<Rightarrow> nat \<Rightarrow> nat" where
  "boundary_loop bs 0 = 0"
| "boundary_loop bs (Suc n) = (if \<not> is_char_boundary bs (Suc n) then boundary_loop bs n else Suc n)"

definition MARKER_RESERVE :: nat where
  "MARKER_RESERVE = 64"

definition truncation_marker :: "nat \<Rightarrow> rstring" where
  "truncation_marker dropped =
     [nl] @ lit ''[... truncated '' @ dec dropped @ lit '' bytes to fit the compaction window ...]''"

text \<open>
  Slicing a string off a character boundary panics (\<open>None\<close>). A 64-bit \<open>usize\<close> holds
  \<open>4 * u32::MAX\<close>, so that the saturating multiplication is exact.
\<close>

definition truncate_text_to_token_budget :: "rstring \<Rightarrow> u32 \<Rightarrow> u8 list option" where
  "truncate_text_to_token_budget text max_tokens =
     (let bs = utf8_bytes text;
          max_bytes = unat max_tokens * 4
      in if length bs \<le> max_bytes then Some bs
         else
           let keep = max_bytes - MARKER_RESERVE;
               end_idx = boundary_loop bs (min keep (length bs));
               dropped = length bs - end_idx
           in if is_char_boundary bs end_idx
              then Some (take end_idx bs @ utf8_bytes (truncation_marker dropped))
              else None)"

definition truncate_text_for_compaction :: "rstring \<Rightarrow> u32 \<Rightarrow> u8 list option" where
  "truncate_text_for_compaction text max_tokens = truncate_text_to_token_budget text max_tokens"

section \<open>Lemmas on the ladder\<close>

lemma sum_tokens_counts: "sum_tokens counter turns = sum_counts (map counter turns)"
  by (simp add: sum_tokens_def sum_counts_def)

lemma sum_counts_Nil [simp]: "sum_counts [] = 0"
  by (simp add: sum_counts_def)

lemma saturating_add_u32_zero [simp]: "saturating_add_u32 0 a = a" "saturating_add_u32 a 0 = a"
  by (simp_all add: word_unat_eq_iff saturating_add_u32_unat)

lemma sum_counts_append: "sum_counts (cs @ ds) = saturating_add_u32 (sum_counts cs) (sum_counts ds)"
  by (simp add: word_unat_eq_iff sum_counts_unat saturating_add_u32_unat min_def)

lemma fits_from_sum: "fits_from counts b i \<longleftrightarrow> sum_counts (drop i counts) \<le> b"
  by (simp add: fits_from_def word_le_nat_alt sum_counts_unat)

lemma of_nat_u32_inv: "n < 2 ^ 32 \<Longrightarrow> unat (of_nat n :: u32) = n"
  by (simp add: unat_of_nat)

text \<open>What one side is cut to: nothing is dropped, or the best split, or everything.\<close>

definition side_cut ::
  "('t, 'z) item_ops_scheme \<Rightarrow> ('t \<Rightarrow> u32) \<Rightarrow> 't list \<Rightarrow> u32 \<Rightarrow> nat \<Rightarrow> bool" where
  "side_cut ops counter turns b n \<longleftrightarrow>
     (if fits_from (map counter turns) b 0 then n = 0
      else if \<exists>s. best_split ops (map counter turns) turns b s
        then best_split ops (map counter turns) turns b n
        else n = length turns)"

lemma side_cut_fits:
  assumes "side_cut ops counter turns b n"
  shows "n \<le> length turns" "sum_tokens counter (drop n turns) \<le> b"
  using assms
  by (auto simp: side_cut_def best_split_def fits_from_sum drop_map sum_tokens_counts
      split: if_splits)

lemma select_side_cut:
  assumes len: "length turns < 2 ^ 32" and b: "0 < b"
  shows "\<exists>n. side_cut ops counter turns b n \<and>
    select_side ops turns (map counter turns) b =
      Some (drop n turns, map counter (drop n turns), of_nat n)"
proof (cases "fits_from (map counter turns) b 0")
  case True
  then show ?thesis by (auto simp: select_side_def side_cut_def fits_from_sum)
next
  case False
  let ?cs = "map counter turns"
  have over: "b < sum_counts ?cs" using False by (simp add: fits_from_sum)
  then have "turns \<noteq> []" by auto
  obtain r where r: "select_turns_to_compact ops ?cs turns b 0 = Some r"
    "case r of
       Some p \<Rightarrow> \<not> fits_from ?cs b 0 \<and> best_split ops ?cs turns b (split_idx p) \<and>
         tokens_to_compact p = sum_counts (take (split_idx p) ?cs) \<and> 0 \<le> tokens_to_compact p
     | None \<Rightarrow> turns = [] \<or> fits_from ?cs b 0 \<or> (\<forall>s. \<not> best_split ops ?cs turns b s) \<or>
         (\<exists>s. best_split ops ?cs turns b s \<and> sum_counts (take s ?cs) < 0)"
    using select_cases [of ?cs turns ops b 0] by auto
  have keep: "keep_recent_under_budget ops turns ?cs b =
      (case r of None \<Rightarrow> Some None
       | Some p \<Rightarrow> Some (Some (drop (split_idx p) turns, of_nat (split_idx p))))"
    using r over b \<open>turns \<noteq> []\<close>
    by (auto simp: keep_recent_under_budget_def slice_from_def best_split_def split: option.splits)
  show ?thesis
  proof (cases r)
    case None
    then have "side_cut ops counter turns b (length turns)"
      using r False \<open>turns \<noteq> []\<close> by (auto simp: side_cut_def word_less_nat_alt)
    then show ?thesis using keep over None by (auto simp: select_side_def)
  next
    case (Some p)
    then have best: "best_split ops ?cs turns b (split_idx p)" using r by simp
    then have "split_idx p < length turns" by (simp add: best_split_def)
    then have "unat (of_nat (split_idx p) :: u32) = split_idx p" using len by (simp add: unat_of_nat)
    then have "select_side ops turns ?cs b =
        Some (drop (split_idx p) turns, map counter (drop (split_idx p) turns), of_nat (split_idx p))"
      using keep over Some \<open>split_idx p < length turns\<close>
      by (simp add: select_side_def slice_from_def drop_map)
    moreover have "side_cut ops counter turns b (split_idx p)"
      using best False by (auto simp: side_cut_def)
    ultimately show ?thesis by blast
  qed
qed

lemma saturating_add_u32_le:
  assumes "a \<le> b - c" "c \<le> b"
  shows "saturating_add_u32 a c \<le> b"
proof -
  have "unat (b - c) = unat b - unat c" using assms(2) by (simp add: unat_sub)
  then show ?thesis using assms u32_le_max [of b]
    by (simp add: word_le_nat_alt saturating_add_u32_unat del: u32_le_max)
qed

definition shrunk_steps ::
  "('t, 'z) builder_ops_scheme \<Rightarrow> ('t \<Rightarrow> u32) \<Rightarrow> u32 \<Rightarrow> 't list \<Rightarrow> 't list" where
  "shrunk_steps ops counter budget turns =
     map (\<lambda>t. if is_tool_result ops t \<and> budget < counter t
              then truncate_payload_for_compaction ops t budget else t) turns"

lemma length_shrunk_steps [simp]: "length (shrunk_steps ops counter budget turns) = length turns"
  by (simp add: shrunk_steps_def)

lemma shrink_oversized_fst:
  "shrink_oversized_tool_results ops turns counter budget =
     (shrunk_steps ops counter budget turns,
      of_nat (length (filter (\<lambda>t. is_tool_result ops t \<and> budget < counter t) turns)))"
  by (simp add: shrink_oversized_tool_results_def shrink_item_to_token_budget_def shrunk_steps_def
      Let_def)

text \<open>What is dropped of the history when the steps alone fit.\<close>

definition history_cut ::
  "('t, 'z) item_ops_scheme \<Rightarrow> ('t \<Rightarrow> u32) \<Rightarrow> 't list \<Rightarrow> 't list \<Rightarrow> u32 \<Rightarrow> nat \<Rightarrow> bool" where
  "history_cut ops counter history steps budget n \<longleftrightarrow>
     (if sum_tokens counter steps < budget
      then side_cut ops counter history (budget - sum_tokens counter steps) n
      else n = length history)"

lemma sum_tokens_append:
  "sum_tokens counter (xs @ ys) =
     saturating_add_u32 (sum_tokens counter xs) (sum_tokens counter ys)"
  by (simp add: sum_tokens_counts sum_counts_append)

lemma plan_ok_simps [simp]:
  "llm_turns (plan_ok h s counter raw r t ho so) = h @ s"
  "tokens_fit (plan_ok h s counter raw r t ho so) = sum_tokens counter (h @ s)"
  "rung (plan_ok h s counter raw r t ho so) = r"
  "tokens_raw (plan_ok h s counter raw r t ho so) = raw"
  "items_truncated (plan_ok h s counter raw r t ho so) = t"
  "history_turns_omitted (plan_ok h s counter raw r t ho so) = ho"
  "step_turns_omitted (plan_ok h s counter raw r t ho so) = so"
  by (simp_all add: plan_ok_def concat_turns_def Let_def)

lemma fit_verbatim:
  assumes "budget \<noteq> 0" "sum_tokens counter (history @ steps) \<le> budget"
  shows "fit_turns_for_summarizer ops history steps counter budget =
    Some (plan_ok history steps counter (sum_tokens counter (history @ steps)) Verbatim 0 0 0)"
  using assms
  by (simp add: fit_turns_for_summarizer_def token_counts_def sum_counts_append sum_tokens_counts
      Let_def)

lemma fit_history:
  assumes "budget < sum_tokens counter (history @ steps)" "sum_tokens counter steps \<le> budget"
    "0 < budget" "length history < 2 ^ 32"
  shows "\<exists>n. history_cut ops counter history steps budget n \<and> n \<le> length history \<and>
    sum_tokens counter (drop n history @ steps) \<le> budget \<and>
    fit_turns_for_summarizer ops history steps counter budget =
      Some (plan_ok (drop n history) steps counter (sum_tokens counter (history @ steps))
        HistoryTurnSelected 0 (of_nat n) 0)"
proof (cases "sum_tokens counter steps < budget")
  case True
  then have "0 < budget - sum_tokens counter steps"
    by (simp add: word_less_nat_alt unat_sub_if')
  from select_side_cut [OF assms(4) this, of ops counter]
  obtain n where n: "side_cut ops counter history (budget - sum_tokens counter steps) n"
    "select_side ops history (map counter history) (budget - sum_tokens counter steps) =
      Some (drop n history, map counter (drop n history), of_nat n)" by blast
  have fits: "sum_tokens counter (drop n history @ steps) \<le> budget"
    using side_cut_fits [OF n(1)] assms(2) by (simp add: sum_tokens_append saturating_add_u32_le)
  have "fit_turns_for_summarizer ops history steps counter budget =
      Some (plan_ok (drop n history) steps counter (sum_tokens counter (history @ steps))
        HistoryTurnSelected 0 (of_nat n) 0)"
    using assms True n(2) fits
    by (simp add: fit_turns_for_summarizer_def token_counts_def sum_counts_append
        sum_tokens_counts Let_def not_le)
  then show ?thesis using n(1) True fits side_cut_fits(1) [OF n(1)] by (auto simp: history_cut_def)
next
  case False
  then have "fit_turns_for_summarizer ops history steps counter budget =
      Some (plan_ok [] steps counter (sum_tokens counter (history @ steps))
        HistoryTurnSelected 0 (of_nat (length history)) 0)"
    using assms
    by (simp add: fit_turns_for_summarizer_def token_counts_def sum_counts_append
        sum_tokens_counts Let_def not_le)
  then show ?thesis using False assms(2)
    by (auto simp: history_cut_def intro!: exI [of _ "length history"])
qed

lemma steps_le_all: "sum_tokens counter steps \<le> sum_tokens counter (history @ steps)"
  by (simp add: word_le_nat_alt sum_tokens_counts sum_counts_unat)

lemma fit_beyond_history:
  assumes "budget < sum_tokens counter steps" "0 < budget"
  shows "fit_turns_for_summarizer ops history steps counter budget =
    fit_tools_stage ops history steps counter budget (sum_tokens counter (history @ steps)) []
      steps (of_nat (length history))"
proof -
  have "budget < sum_tokens counter (history @ steps)"
    using assms(1) steps_le_all order.strict_trans2 by blast
  moreover have "\<not> sum_tokens counter steps < budget" "\<not> sum_tokens counter steps \<le> budget"
    "budget \<noteq> 0" "\<not> sum_tokens counter (history @ steps) \<le> budget"
    using assms calculation by auto
  ultimately show ?thesis
    by (simp add: fit_turns_for_summarizer_def token_counts_def sum_counts_append
        sum_tokens_counts Let_def)
qed

lemma fit_tools:
  "sum_tokens counter (shrunk_steps ops counter budget steps) \<le> budget \<Longrightarrow>
   \<exists>t. fit_tools_stage ops history steps counter budget raw [] steps ho =
     Some (plan_ok [] (shrunk_steps ops counter budget steps) counter raw ToolTruncated t ho 0)"
  by (auto simp: fit_tools_stage_def shrink_oversized_fst token_counts_def sum_tokens_counts
      shrunk_steps_def [of _ _ _ "[]"] Let_def)

lemma fit_steps_or_emergency:
  assumes over: "budget < sum_tokens counter (shrunk_steps ops counter budget steps)"
    and b: "0 < budget" and len: "length steps < 2 ^ 32"
  defines "shrunk \<equiv> shrunk_steps ops counter budget steps"
  shows "\<exists>n t. side_cut ops counter shrunk budget n \<and>
    fit_tools_stage ops history steps counter budget raw [] steps ho =
      Some (if n < length steps
        then plan_ok [] (drop n shrunk) counter raw StepTurnsSelected t ho (of_nat n)
        else fit_emergency ops counter budget raw t
          (history @ steps, of_nat (length history), of_nat (length steps - 1)))"
proof -
  have nonempty: "steps \<noteq> []" using over by (auto simp: shrunk_steps_def sum_tokens_counts)
  have "length shrunk < 2 ^ 32" using len by (simp add: shrunk_def)
  from select_side_cut [OF this b, of ops counter]
  obtain n where n: "side_cut ops counter shrunk budget n"
    "select_side ops shrunk (map counter shrunk) budget =
      Some (drop n shrunk, map counter (drop n shrunk), of_nat n)" by blast
  have n_le: "n \<le> length steps" "sum_counts (map counter (drop n shrunk)) \<le> budget"
    using side_cut_fits [OF n(1)] by (simp_all add: shrunk_def sum_tokens_counts)
  let ?t = "of_nat (length (filter (\<lambda>t. is_tool_result ops t \<and> budget < counter t) steps)) :: u32"
  have stage: "fit_tools_stage ops history steps counter budget raw [] steps ho =
      fit_steps_stage ops history steps counter budget raw ?t [] shrunk []
        (map counter shrunk) ho"
    using over unfolding shrunk_def
    by (auto simp: fit_tools_stage_def shrink_oversized_fst token_counts_def sum_tokens_counts
        shrunk_steps_def [of _ _ _ "[]"] Let_def)
  have "fit_steps_stage ops history steps counter budget raw ?t [] shrunk [] (map counter shrunk) ho =
      Some (if n < length steps
        then plan_ok [] (drop n shrunk) counter raw StepTurnsSelected ?t ho (of_nat n)
        else fit_emergency ops counter budget raw ?t
          (history @ steps, of_nat (length history), of_nat (length steps - 1)))"
  proof (cases "n < length steps")
    case True
    then have "drop n shrunk \<noteq> []" by (simp add: shrunk_def)
    then show ?thesis using True n(2) n_le(2) b by (simp add: fit_steps_stage_def)
  next
    case False
    then have "drop n shrunk = []" by (simp add: shrunk_def)
    then show ?thesis using False n(2) b nonempty
      by (simp add: fit_steps_stage_def emergency_source_def concat_turns_def)
  qed
  then show ?thesis
    unfolding stage by (intro exI [of _ n] exI [of _ ?t] conjI n(1))
qed

section \<open>Lemmas on clipping\<close>

definition scalar_values :: "rstring \<Rightarrow> bool" where
  "scalar_values s \<longleftrightarrow> list_all (\<lambda>c. c < 1114112) s"

lemma length_utf8_char: "length (utf8_char c) = char_utf8_len c"
  by (simp add: utf8_char_def char_utf8_len_def)

lemma utf8_char_boundaries:
  assumes "c < 1114112"
  shows "utf8_char c ! 0 < 128 \<or> 192 \<le> utf8_char c ! 0"
    "0 < i \<Longrightarrow> i < length (utf8_char c) \<Longrightarrow> \<not> (utf8_char c ! i < 128 \<or> 192 \<le> utf8_char c ! i)"
proof -
  have cont: "\<not> ((of_nat (128 + n mod 64) :: u8) < 128 \<or> 192 \<le> (of_nat (128 + n mod 64) :: u8))" for n
  proof -
    have "unat (of_nat (128 + n mod 64) :: u8) = 128 + n mod 64"
      by (subst unat_of_nat) simp
    then show ?thesis by (simp add: word_less_nat_alt word_le_nat_alt del: of_nat_add)
  qed
  have lead: "192 \<le> (of_nat n :: u8)" if "192 \<le> n" "n < 256" for n
    using that by (simp add: word_le_nat_alt unat_of_nat)
  have ascii: "(of_nat c :: u8) < 128" if "c < 128"
    using that by (simp add: word_less_nat_alt unat_of_nat)
  show "utf8_char c ! 0 < 128 \<or> 192 \<le> utf8_char c ! 0"
    using assms ascii lead by (simp add: utf8_char_def del: of_nat_add)
  show "\<not> (utf8_char c ! i < 128 \<or> 192 \<le> utf8_char c ! i)"
    if "0 < i" "i < length (utf8_char c)"
    using that cont
    by (auto simp: utf8_char_def nth_Cons' less_Suc_eq simp del: of_nat_add split: if_splits)
qed

lemma length_utf8_bytes: "length (utf8_bytes s) = utf8_len s"
  by (induction s) (simp_all add: utf8_len_def length_utf8_char)

lemma utf8_len_append [simp]: "utf8_len (s @ t) = utf8_len s + utf8_len t"
  by (simp add: utf8_len_def)

lemma utf8_len_ascii: "list_all (\<lambda>c. c < 128) s \<Longrightarrow> utf8_len s = length s"
  by (induction s) (simp_all add: utf8_len_def char_utf8_len_def)

lemma char_boundary_take:
  assumes "scalar_values s" "is_char_boundary (utf8_bytes s) i" "i \<le> utf8_len s"
  shows "\<exists>k \<le> length s. take i (utf8_bytes s) = utf8_bytes (take k s) \<and> utf8_len (take k s) = i"
  using assms
proof (induction s arbitrary: i)
  case (Cons c s)
  have c: "c < 1114112" and s: "scalar_values s" using Cons.prems(1) by (auto simp: scalar_values_def)
  let ?l = "char_utf8_len c"
  have len: "utf8_len (c # s) = ?l + utf8_len s" by (simp add: utf8_len_def)
  show ?case
  proof (cases "i < ?l")
    case True
    have "i = 0"
    proof (rule ccontr)
      assume "i \<noteq> 0"
      then have "\<not> (utf8_char c ! i < 128 \<or> 192 \<le> utf8_char c ! i)"
        using utf8_char_boundaries(2) [OF c] True by (simp add: length_utf8_char)
      moreover have "utf8_bytes (c # s) ! i = utf8_char c ! i"
        using True by (simp add: nth_append length_utf8_char)
      ultimately show False
        using Cons.prems(2) \<open>i \<noteq> 0\<close> True
        by (auto simp: is_char_boundary_def length_utf8_char)
    qed
    then show ?thesis by (intro exI [of _ 0]) (simp add: utf8_len_def)
  next
    case False
    then have "is_char_boundary (utf8_bytes s) (i - ?l)"
      using Cons.prems(2,3)
      by (auto simp: is_char_boundary_def nth_append length_utf8_char length_utf8_bytes len)
    moreover have "i - ?l \<le> utf8_len s" using Cons.prems(3) len by linarith
    ultimately obtain k where "k \<le> length s" "take (i - ?l) (utf8_bytes s) = utf8_bytes (take k s)"
      "utf8_len (take k s) = i - ?l"
      using Cons.IH [OF s, of "i - ?l"] by blast
    then show ?thesis using False
      by (intro exI [of _ "Suc k"]) (simp add: length_utf8_char utf8_len_def)
  qed
qed (auto simp: utf8_len_def)

lemma boundary_loop_spec:
  "boundary_loop bs n \<le> n \<and> is_char_boundary bs (boundary_loop bs n) \<and>
   (\<forall>j. boundary_loop bs n < j \<and> j \<le> n \<longrightarrow> \<not> is_char_boundary bs j)"
proof (induction n)
  case 0
  then show ?case by (auto simp: is_char_boundary_def)
next
  case (Suc n)
  then show ?case using le_Suc_eq by auto
qed

lemma take_char_boundary:
  assumes "scalar_values s" "k \<le> length s"
  shows "is_char_boundary (utf8_bytes s) (utf8_len (take k s))"
  using assms
proof (induction s arbitrary: k)
  case (Cons c s)
  show ?case
  proof (cases k)
    case 0
    then show ?thesis by (simp add: is_char_boundary_def utf8_len_def)
  next
    case (Suc j)
    have "is_char_boundary (utf8_bytes s) (utf8_len (take j s))"
      using Cons Suc by (simp add: scalar_values_def)
    moreover have "utf8_len (take k (c # s)) = char_utf8_len c + utf8_len (take j s)"
      using Suc by (simp add: utf8_len_def)
    moreover have "is_char_boundary (utf8_bytes (c # s)) (char_utf8_len c)"
    proof (cases s)
      case (Cons d t)
      then have d: "d < 1114112" using Cons.prems(1) by (simp add: scalar_values_def)
      have "0 < length (utf8_char d)" by (simp add: utf8_char_def)
      then show ?thesis using utf8_char_boundaries(1) [OF d] Cons
        by (simp add: is_char_boundary_def nth_append length_utf8_char)
    qed (simp add: is_char_boundary_def length_utf8_char)
    ultimately show ?thesis
      by (auto simp: is_char_boundary_def nth_append length_utf8_char)
  qed
qed (simp add: is_char_boundary_def utf8_len_def)

lemma length_dec_le: "n < 10 ^ k \<Longrightarrow> 0 < k \<Longrightarrow> length (dec n) \<le> k"
proof (induction k arbitrary: n)
  case (Suc k)
  show ?case
  proof (cases "n < 10")
    case True
    then show ?thesis by (subst dec.simps) simp
  next
    case False
    then have "0 < k" using Suc.prems(1) by (cases k) auto
    moreover have "n div 10 < 10 ^ k" using Suc.prems(1) by (simp add: div_less_iff_less_mult)
    ultimately have "length (dec (n div 10)) \<le> k" by (rule Suc.IH [rotated])
    then show ?thesis using False by (subst dec.simps) simp
  qed
qed simp

lemma utf8_len_marker: "utf8_len (truncation_marker n) = 56 + length (dec n)"
proof -
  have "list_all (\<lambda>c. c < 128) (truncation_marker n)"
    using dec_set [of _ n] by (fastforce simp: truncation_marker_def list_all_iff)
  then show ?thesis by (simp add: utf8_len_ascii) (simp add: truncation_marker_def)
qed

section \<open>Properties\<close>

definition sample_builder :: "(bool \<times> u32) builder_ops" where
  "sample_builder = \<lparr>role = (\<lambda>t. if fst t then Tool else Assistant), item_text = (\<lambda>_. None),
     is_tool_result = fst, has_tool_requests = (\<lambda>t. \<not> fst t),
     is_compaction_summary = (\<lambda>_. False), attachment_refs = (\<lambda>_. []),
     compaction_summary_item = (\<lambda>_. (False, 1)), strip_tool_content = Some,
     truncate_payload_for_compaction = (\<lambda>t n. (fst t, n))\<rparr>"

lemma history_cut_all:
  assumes "history_cut ops counter history [] budget n" "0 < budget" "budget < sum_tokens counter history"
  shows "n = length history \<longleftrightarrow> (\<nexists>n. best_split ops (map counter history) history budget n)"
proof -
  have "side_cut ops counter history budget n" "\<not> fits_from (map counter history) budget 0"
    using assms by (simp_all add: history_cut_def fits_from_sum sum_tokens_counts)
  then show ?thesis unfolding side_cut_def by (auto simp: best_split_def split: if_splits)
qed



text \<open>The first stage can hand over nothing at all: with no steps, a conversation whose newest turn
  alone exceeds the budget is fitted to the empty plan, reported as \<open>HistoryTurnSelected\<close>. The
  last stage, which exists so that an empty plan is never returned, is not reached.
\<close>

theorem fit_history_only_empty_plan:
  assumes "history \<noteq> []" "0 < budget" "budget < counter (last history)" "length history < 2 ^ 32"
  shows "\<exists>p. fit_turns_for_summarizer ops history [] counter budget = Some p \<and>
    llm_turns p = [] \<and> tokens_fit p = 0 \<and> rung p = HistoryTurnSelected"
proof -
  have suffix: "budget < sum_tokens counter (drop n history)" if "n < length history" for n
  proof -
    have "drop n history = butlast (drop n history) @ [last history]"
      using append_butlast_last_id [of "drop n history"] that by simp
    then obtain xs where "drop n history = xs @ [last history]" by blast
    then have "min u32_max (unat (counter (last history))) \<le> unat (sum_tokens counter (drop n history))"
      by (auto simp: sum_tokens_counts sum_counts_unat)
    then show ?thesis using assms(3) by (simp add: word_less_nat_alt)
  qed
  have "budget < sum_tokens counter (history @ [])" using suffix [of 0] assms(1) by simp
  from fit_history [OF this _ assms(2,4), of ops]
  obtain n where n: "n \<le> length history" "sum_tokens counter (drop n history) \<le> budget"
    "fit_turns_for_summarizer ops history [] counter budget =
      Some (plan_ok (drop n history) [] counter (sum_tokens counter (history @ []))
        HistoryTurnSelected 0 (of_nat n) 0)"
    by (auto simp: sum_tokens_counts)
  then have "n = length history" using suffix [of n] by (meson le_neq_implies_less leD)
  then show ?thesis using n by (simp add: sum_tokens_counts)
qed

theorem fit_history_only_empty_plan_witness:
  "[(False, 900)] \<noteq> [] \<and> 0 < (100 :: u32) \<and> 100 < snd (last [(False, 900 :: u32)]) \<and>
   length [(False, 900)] < 2 ^ 32 \<and>
   (\<exists>p. fit_turns_for_summarizer sample_builder [(False, 900)] [] snd 100 = Some p \<and>
     llm_turns p = [] \<and> tokens_fit p = 0 \<and> rung p = HistoryTurnSelected)"
  by (intro conjI fit_history_only_empty_plan) simp_all

text \<open>Clipping a text never slices inside a character. A text within the byte budget is returned
  unchanged; otherwise the result is the longest prefix of whole characters that leaves the
  reserve free, followed by the marker with the exact number of bytes dropped. For texts below
  100 MB and budgets of at least 16 tokens the result respects the byte budget, marker included.
\<close>

theorem truncate_text_bounds:
  fixes max_tokens :: u32
  assumes "scalar_values text"
  defines "max_bytes \<equiv> 4 * unat max_tokens"
  shows "\<exists>out. truncate_text_to_token_budget text max_tokens = Some out \<and>
    (if utf8_len text \<le> max_bytes then out = utf8_bytes text
     else \<exists>k < length text.
       out = utf8_bytes (take k text @ truncation_marker (utf8_len (drop k text))) \<and>
       utf8_len (take k text) \<le> max_bytes - MARKER_RESERVE \<and>
       max_bytes - MARKER_RESERVE < utf8_len (take (Suc k) text) \<and>
       (MARKER_RESERVE \<le> max_bytes \<and> utf8_len text < 10 ^ 8 \<longrightarrow> length out \<le> max_bytes))"
proof (cases "utf8_len text \<le> max_bytes")
  case True
  then show ?thesis
    by (simp add: truncate_text_to_token_budget_def length_utf8_bytes max_bytes_def mult.commute Let_def)
next
  case False
  let ?bs = "utf8_bytes text"
  let ?keep = "max_bytes - MARKER_RESERVE"
  let ?e = "boundary_loop ?bs ?keep"
  have keep: "min ?keep (length ?bs) = ?keep" using False by (simp add: length_utf8_bytes)
  note spec = boundary_loop_spec [of ?bs ?keep]
  have "?e \<le> utf8_len text" using spec False by linarith
  from char_boundary_take [OF assms(1) spec [THEN conjunct2, THEN conjunct1] this]
  obtain k where k: "k \<le> length text" "take ?e ?bs = utf8_bytes (take k text)"
    "utf8_len (take k text) = ?e" by blast
  have less: "k < length text"
  proof (rule ccontr)
    assume "\<not> k < length text"
    then have "?e = utf8_len text" using k by simp
    then show False using spec [THEN conjunct1] False by linarith
  qed
  have "utf8_len text = utf8_len (take k text) + utf8_len (drop k text)"
    by (metis append_take_drop_id utf8_len_append)
  then have dropped: "length ?bs - ?e = utf8_len (drop k text)"
    using k(3) by (simp add: length_utf8_bytes)
  let ?out = "utf8_bytes (take k text @ truncation_marker (utf8_len (drop k text)))"
  have out: "truncate_text_to_token_budget text max_tokens = Some ?out"
    using False keep spec k(2) dropped
    by (simp add: truncate_text_to_token_budget_def length_utf8_bytes max_bytes_def Let_def
        mult.commute)
  have "?keep < utf8_len (take (Suc k) text)"
  proof (rule ccontr)
    assume "\<not> ?keep < utf8_len (take (Suc k) text)"
    moreover have "?e < utf8_len (take (Suc k) text)"
      using less k(3) by (simp add: take_Suc_conv_app_nth utf8_len_def char_utf8_len_def)
    ultimately show False
      using spec take_char_boundary [OF assms(1), of "Suc k"] less by (meson Suc_leI not_less)
  qed
  moreover have "length ?out \<le> max_bytes"
    if "MARKER_RESERVE \<le> max_bytes" "utf8_len text < 10 ^ 8"
  proof -
    have "utf8_len (drop k text) < 10 ^ 8" using dropped that(2) by (simp add: length_utf8_bytes)
    then have "length (dec (utf8_len (drop k text))) \<le> 8" by (rule length_dec_le) simp
    then show ?thesis using that(1) k(3) spec [THEN conjunct1]
      by (simp add: length_utf8_bytes utf8_len_marker MARKER_RESERVE_def del: utf8_bytes_simps)
  qed
  ultimately show ?thesis using False out less k(3) spec by auto
qed

theorem truncate_text_bounds_witness:
  "scalar_values (replicate 70 8364) \<and>
   (\<exists>out. truncate_text_to_token_budget (replicate 70 8364) 20 = Some out \<and> length out \<le> 80)"
proof -
  have "scalar_values (replicate 70 8364)" by (simp add: scalar_values_def list_all_iff)
  moreover have "utf8_len (replicate 70 8364) = 210"
    by (simp add: utf8_len_def char_utf8_len_def sum_list_replicate)
  ultimately show ?thesis
    using truncate_text_bounds [of "replicate 70 8364" 20] by (auto simp: MARKER_RESERVE_def)
qed

end
