(* ===== verification/Compaction_History.thy ===== *)
theory Compaction_History
  imports Compaction_Select Text_Search
begin

text \<open>
  History compaction (\<open>history/filter.rs\<close>, \<open>history/validate.rs\<close>, \<open>history/types.rs\<close>): which
  items reach the summariser, how the queries of the user are carried verbatim from one
  compaction to the next, and the checks on a summary. Texts are lists of Unicode scalar values;
  the cursor of the source's scanning loop is represented by the text behind it. Logging is
  left out.
\<close>

section \<open>Definitions\<close>

datatype compaction_strategy = Basic | DivideAndConquer | FullReplace

definition strategy_label :: "compaction_strategy \<Rightarrow> string" where
  "strategy_label s = (case s of Basic \<Rightarrow> ''basic'' | DivideAndConquer \<Rightarrow> ''divide_and_conquer''
     | FullReplace \<Rightarrow> ''full_replace'')"

definition keep_turn_for_basic_compaction :: "('t, 'z) item_ops_scheme \<Rightarrow> 't \<Rightarrow> bool" where
  "keep_turn_for_basic_compaction ops turn =
     (case role ops turn of
        System \<Rightarrow> False
      | Developer \<Rightarrow> is_compaction_summary ops turn
      | _ \<Rightarrow> True)"

definition filter_turns_for_basic :: "('t, 'z) item_ops_scheme \<Rightarrow> 't list \<Rightarrow> 't list" where
  "filter_turns_for_basic ops turns = filter (keep_turn_for_basic_compaction ops) turns"

definition filter_turns_for_inter_compaction :: "('t, 'z) builder_ops_scheme \<Rightarrow> 't list \<Rightarrow> 't list" where
  "filter_turns_for_inter_compaction ops turns =
     List.map_filter (\<lambda>turn. case role ops turn of
        Tool \<Rightarrow> None
      | System \<Rightarrow> None
      | Developer \<Rightarrow> if is_compaction_summary ops turn then Some turn else None
      | User \<Rightarrow> Some turn
      | Assistant \<Rightarrow> strip_tool_content ops turn) turns"

definition start_tag :: rstring where
  "start_tag = lit ''<grok_user_queries>''"

definition end_tag :: rstring where
  "end_tag = lit ''</grok_user_queries>''"

text \<open>\<open>rest\<close> collects the trimmed, non-empty pieces outside the blocks, one per line.\<close>

definition push_rest :: "rstring \<Rightarrow> rstring \<Rightarrow> rstring" where
  "push_rest rest piece =
     (let p = trim piece
      in if p = [] then rest else if rest = [] then p else rest @ [nl] @ p)"

function split_loop :: "rstring \<Rightarrow> rstring list \<Rightarrow> rstring \<Rightarrow> rstring list \<times> rstring" where
  "split_loop remaining user_sections rest =
     (case find_str start_tag remaining of
        None \<Rightarrow> (user_sections, push_rest rest remaining)
      | Some start \<Rightarrow>
          (case find_str end_tag (drop start remaining) of
             None \<Rightarrow> (user_sections, push_rest rest remaining)
           | Some e \<Rightarrow>
               let block_len = e + length end_tag
               in split_loop (drop (start + block_len) remaining)
                    (user_sections @ [take block_len (drop start remaining)])
                    (push_rest rest (take start remaining))))"
  by pat_completeness auto
termination
proof (relation "measure (\<lambda>(remaining, _, _). length remaining)")
  fix remaining rest :: rstring and sections :: "rstring list" and start e n
  assume a: "find_str start_tag remaining = Some start" "n = e + length end_tag"
  then have "remaining \<noteq> []" by (cases remaining) (auto simp: start_tag_def)
  moreover have "0 < n" using a(2) by (simp add: end_tag_def)
  ultimately show "((drop (start + n) remaining, sections @ [take n (drop start remaining)],
      push_rest rest (take start remaining)), remaining, sections, rest)
    \<in> measure (\<lambda>(remaining, _, _). length remaining)" by simp
qed simp

declare split_loop.simps [simp del]

definition split_prior_compaction_text :: "rstring \<Rightarrow> rstring option \<times> rstring" where
  "split_prior_compaction_text text =
     (let (user_sections, rest) = split_loop text [] []
      in if user_sections = [] then (None, text) else (Some (join [nl] user_sections), rest))"

definition truncate_middle :: "rstring \<Rightarrow> nat \<Rightarrow> rstring option" where
  "truncate_middle msg max_chars =
     (let char_count = length msg
      in if char_count \<le> max_chars then None
         else
           let front_len = max_chars div 2;
               back_len = max_chars - front_len
           in Some (take front_len msg @ lit ''...[truncated]...'' @ drop (char_count - back_len) msg))"

definition attachment_line :: "compaction_file_ref \<Rightarrow> rstring" where
  "attachment_line r =
     lit ''<grok_file id='' @ [dq] @ file_id r @ [dq] @ lit '' name='' @ [dq] @ file_name r @ [dq]
     @ lit '' />'' @ [nl]"

text \<open>What one item contributes to the block; \<open>None\<close> when it is skipped.\<close>

definition query_element :: "('t, 'z) item_ops_scheme \<Rightarrow> nat \<Rightarrow> 't \<Rightarrow> rstring option" where
  "query_element ops threshold turn =
     (if role ops turn \<noteq> User then None
      else
        let text = (case item_text ops turn of None \<Rightarrow> [] | Some t \<Rightarrow> t);
            attachments = attachment_refs ops turn
        in if text = [] \<and> attachments = [] then None
           else Some (lit ''<grok_query>''
             @ (case truncate_middle text threshold of Some truncated \<Rightarrow> truncated | None \<Rightarrow> text)
             @ (if attachments = [] then [] else [nl] @ concat (map attachment_line attachments))
             @ lit ''</grok_query>'' @ [nl]))"

definition extract_user_queries_from_turns ::
  "('t, 'z) item_ops_scheme \<Rightarrow> 't list \<Rightarrow> u32 \<Rightarrow> rstring option" where
  "extract_user_queries_from_turns ops turns user_truncate_chars =
     (let elements = List.map_filter (query_element ops (unat user_truncate_chars)) turns
      in if elements = [] then None
         else Some (start_tag @ [nl] @ concat elements @ end_tag))"

record 't separated_history_turns =
  turns_for_llm :: "'t list"
  prior_user_queries :: "rstring option"
  has_prior_compaction :: bool

definition append_section :: "rstring option \<Rightarrow> rstring \<Rightarrow> rstring option" where
  "append_section prior section =
     (case prior of Some existing \<Rightarrow> Some (existing @ [nl] @ section) | None \<Rightarrow> Some section)"

definition separate_step ::
  "('t, 'z) builder_ops_scheme \<Rightarrow> 't separated_history_turns \<Rightarrow> 't \<Rightarrow> 't separated_history_turns" where
  "separate_step ops acc turn =
     (if is_compaction_summary ops turn then
        let content = (case item_text ops turn of None \<Rightarrow> [] | Some t \<Rightarrow> t);
            (user_section, rest) = split_prior_compaction_text content;
            prior = (case user_section of
                       Some user_sec \<Rightarrow> append_section (prior_user_queries acc) user_sec
                     | None \<Rightarrow> prior_user_queries acc);
            turns = (if rest \<noteq> [] then turns_for_llm acc @ [compaction_summary_item ops rest]
                     else turns_for_llm acc)
        in \<lparr>turns_for_llm = turns, prior_user_queries = prior, has_prior_compaction = True\<rparr>
      else acc\<lparr>turns_for_llm := turns_for_llm acc @ [turn]\<rparr>)"

definition separate_prior_user_queries ::
  "('t, 'z) builder_ops_scheme \<Rightarrow> 't list \<Rightarrow> 't separated_history_turns" where
  "separate_prior_user_queries ops turns =
     foldl (separate_step ops)
       \<lparr>turns_for_llm = [], prior_user_queries = None, has_prior_compaction = False\<rparr> turns"

definition extract_prior_user_queries :: "('t, 'z) builder_ops_scheme \<Rightarrow> 't list \<Rightarrow> rstring option" where
  "extract_prior_user_queries ops turns = prior_user_queries (separate_prior_user_queries ops turns)"

definition assemble_user_queries_preamble :: "rstring option \<Rightarrow> rstring option \<Rightarrow> rstring" where
  "assemble_user_queries_preamble prior current =
     (case prior of Some p \<Rightarrow> p @ [nl, nl] | None \<Rightarrow> [])
     @ (case current of Some c \<Rightarrow> c @ [nl, nl] | None \<Rightarrow> [])"

definition build_user_queries_preamble ::
  "('t, 'z) builder_ops_scheme \<Rightarrow> 't list \<Rightarrow> rstring option \<Rightarrow> rstring" where
  "build_user_queries_preamble ops turns current =
     assemble_user_queries_preamble (extract_prior_user_queries ops turns) current"

definition wrap_chunk_analysis :: "nat \<Rightarrow> rstring \<Rightarrow> rstring" where
  "wrap_chunk_analysis index thinking =
     (let trimmed = trim thinking
      in if trimmed = [] then []
         else lit ''<chunk_analysis index='' @ [dq] @ dec index @ [dq] @ lit ''>'' @ [nl] @ trimmed
           @ [nl] @ lit ''</chunk_analysis>'' @ [nl, nl])"

datatype compaction_validation_error = EmptyContent | UnbalancedChunkTags nat nat

definition validate_compaction_text ::
  "rstring \<Rightarrow> compaction_strategy \<Rightarrow> compaction_validation_error + unit" where
  "validate_compaction_text text strategy =
     (if trim text = [] then Inl EmptyContent
      else if strategy = DivideAndConquer then
        let open_count = matches_count (lit ''<chunk_summary'') text;
            close_count = matches_count (lit ''</chunk_summary>'') text
        in if open_count \<noteq> close_count then Inl (UnbalancedChunkTags open_count close_count)
           else Inr ()
      else Inr ())"

section \<open>Lemmas on the scanning loop\<close>

lemma tags_nonempty [simp]: "start_tag \<noteq> []" "end_tag \<noteq> []"
  by (simp_all add: start_tag_def end_tag_def)

lemma nl_not_in_tags [simp]: "nl \<notin> set start_tag" "nl \<notin> set end_tag"
  by (simp_all add: start_tag_def end_tag_def)

text \<open>A text without a complete block: no closing tag at or behind an opening one.\<close>

definition block_free :: "rstring \<Rightarrow> bool" where
  "block_free s \<longleftrightarrow> (\<forall>i j. occurs start_tag s i \<and> occurs end_tag s j \<longrightarrow> j < i)"

definition tag_free :: "rstring \<Rightarrow> bool" where
  "tag_free s \<longleftrightarrow> (\<forall>i. \<not> occurs start_tag s i)"

lemma block_free_substring: "block_free (u @ v @ w) \<Longrightarrow> block_free v"
  unfolding block_free_def by (metis nat_add_left_cancel_less occurs_middle)

lemma tag_free_substring: "tag_free (u @ v @ w) \<Longrightarrow> tag_free v"
  unfolding tag_free_def by (metis occurs_middle)

lemma tag_free_block_free: "tag_free s \<Longrightarrow> block_free s"
  by (simp add: tag_free_def block_free_def)

lemma tag_free_join: "tag_free u \<Longrightarrow> tag_free v \<Longrightarrow> tag_free (u @ nl # v)"
  unfolding tag_free_def using occurs_stop [of start_tag u nl v] by fastforce

lemma block_free_join: "tag_free u \<Longrightarrow> block_free v \<Longrightarrow> block_free (u @ nl # v)"
proof -
  assume u: "tag_free u" and v: "block_free v"
  have "j < i" if s: "occurs start_tag (u @ nl # v) i" and e: "occurs end_tag (u @ nl # v) j" for i j
  proof -
    obtain i' where i: "i = Suc (length u + i')" "occurs start_tag v i'"
      using occurs_stop [OF s] u by (auto simp: tag_free_def)
    consider "occurs end_tag u j" | j' where "j = Suc (length u + j')" "occurs end_tag v j'"
      using occurs_stop [OF e] by auto
    then show ?thesis
    proof cases
      case 1
      then show ?thesis using i(1) occurs_length by fastforce
    next
      case 2
      then show ?thesis using i v by (auto simp: block_free_def)
    qed
  qed
  then show ?thesis by (auto simp: block_free_def)
qed

lemma push_rest_props:
  assumes "tag_free rest"
  shows "tag_free piece \<Longrightarrow> tag_free (push_rest rest piece)"
    "block_free piece \<Longrightarrow> block_free (push_rest rest piece)"
proof -
  obtain u w where "piece = u @ trim piece @ w" using trim_substring by blast
  then have "tag_free piece \<Longrightarrow> tag_free (trim piece)" "block_free piece \<Longrightarrow> block_free (trim piece)"
    using tag_free_substring block_free_substring by metis+
  then show "tag_free piece \<Longrightarrow> tag_free (push_rest rest piece)"
    "block_free piece \<Longrightarrow> block_free (push_rest rest piece)"
    using assms tag_free_join block_free_join tag_free_block_free
    by (auto simp: push_rest_def Let_def)
qed

lemma scan_stops:
  assumes "find_str start_tag t = None \<or>
    (\<exists>i. find_str start_tag t = Some i \<and> find_str end_tag (drop i t) = None)"
  shows "block_free t"
  using assms
proof
  assume "find_str start_tag t = None"
  then show ?thesis by (simp add: find_str_None block_free_def)
next
  assume "\<exists>i. find_str start_tag t = Some i \<and> find_str end_tag (drop i t) = None"
  then obtain i where i: "occurs start_tag t i" "\<forall>j < i. \<not> occurs start_tag t j"
    "\<forall>j. \<not> occurs end_tag (drop i t) j" by (auto simp: find_str_Some find_str_None)
  have "\<not> occurs end_tag t j" if "i \<le> j" for j
  proof -
    have "i \<le> length t" using i(1) by (simp add: occurs_def)
    then have "occurs end_tag t j \<longleftrightarrow> occurs end_tag (drop i t) (j - i)"
      using occurs_drop [of i t end_tag "j - i"] that by simp
    then show ?thesis using i(3) by simp
  qed
  then show ?thesis using i(2) unfolding block_free_def by (meson linorder_not_less order.trans)
qed

lemma block_free_scan:
  assumes "block_free t"
  shows "split_loop t secs rest = (secs, push_rest rest t)"
proof (cases "find_str start_tag t")
  case None
  then show ?thesis by (subst split_loop.simps) simp
next
  case (Some i)
  have "\<not> occurs end_tag (drop i t) j" for j
  proof
    assume "occurs end_tag (drop i t) j"
    moreover have "i \<le> length t" using Some by (simp add: find_str_Some occurs_def)
    ultimately have "occurs end_tag t (i + j)" by (simp add: occurs_drop)
    then show False using assms Some by (auto simp: block_free_def find_str_Some)
  qed
  then have "find_str end_tag (drop i t) = None" by (simp add: find_str_None)
  then show ?thesis using Some by (subst split_loop.simps) simp
qed

lemma split_loop_rest_block_free:
  "tag_free rest \<Longrightarrow> block_free (snd (split_loop t secs rest))"
proof (induction t secs rest rule: split_loop.induct)
  case (1 t secs rest)
  show ?case
  proof (cases "block_free t")
    case True
    then show ?thesis using 1(2) by (simp add: block_free_scan push_rest_props(2))
  next
    case False
    then obtain i e where i: "find_str start_tag t = Some i" "find_str end_tag (drop i t) = Some e"
      using scan_stops by (metis option.exhaust)
    have "tag_free (take i t)"
    proof -
      have "\<not> occurs start_tag (take i t) j" for j
      proof
        assume o: "occurs start_tag (take i t) j"
        then have "j < i" using occurs_length [OF o] by (simp add: start_tag_def)
        moreover have "occurs start_tag t j"
          using occurs_middle [OF o, of "[]" "drop i t"] by simp
        ultimately show False using i(1) by (simp add: find_str_Some)
      qed
      then show ?thesis by (simp add: tag_free_def)
    qed
    then have "tag_free (push_rest rest (take i t))" by (rule push_rest_props(1) [OF 1(2)])
    then show ?thesis using 1(1) [OF i refl] i by (subst split_loop.simps) (simp add: Let_def)
  qed
qed

lemma split_prior_rest_block_free: "block_free (snd (split_prior_compaction_text text))"
proof (cases "fst (split_loop text [] []) = []")
  case True
  have "block_free text"
  proof (rule ccontr)
    assume "\<not> block_free text"
    then obtain i e where "find_str start_tag text = Some i" "find_str end_tag (drop i text) = Some e"
      using scan_stops by (metis option.exhaust)
    then have "\<exists>t s r. split_loop text [] [] = split_loop t [s] r"
      by (subst (1) split_loop.simps) (auto simp: Let_def)
    moreover have "length secs \<le> length (fst (split_loop t secs r))" for t secs r
    proof (induction t secs r rule: split_loop.induct)
      case (1 t secs r)
      then show ?case
        by (subst split_loop.simps) (fastforce simp: Let_def split: option.splits)
    qed
    ultimately show False using True by (metis length_Cons list.size(3) not_less_eq_eq zero_le)
  qed
  then show ?thesis using True by (auto simp: split_prior_compaction_text_def split: prod.splits)
next
  case False
  have "tag_free []" by (simp add: tag_free_def occurs_Nil)
  then have "block_free (snd (split_loop text [] []))" by (rule split_loop_rest_block_free)
  then show ?thesis using False by (auto simp: split_prior_compaction_text_def split: prod.splits)
qed

lemma split_prior_block_free: "block_free text \<Longrightarrow> split_prior_compaction_text text = (None, text)"
  by (simp add: split_prior_compaction_text_def block_free_scan)

section \<open>Lemmas on blocks\<close>

text \<open>A complete block: it opens with the tag and its first closing tag is its end.\<close>

definition is_section :: "rstring \<Rightarrow> bool" where
  "is_section u \<longleftrightarrow> starts_with u start_tag \<and> find_str end_tag u = Some (length u - length end_tag)"

lemma section_scan:
  assumes "list_all is_whitespace w" "is_section u"
  shows "split_loop (w @ u @ t) secs rest = split_loop t (secs @ [u]) rest"
proof -
  let ?n = "length u - length end_tag"
  have e: "occurs end_tag u ?n" "\<forall>j < ?n. \<not> occurs end_tag u j"
    using assms(2) by (simp_all add: is_section_def find_str_Some)
  have len: "length end_tag \<le> length u" using occurs_length [OF e(1)] by simp
  have "occurs start_tag u 0" using assms(2) by (simp add: is_section_def occurs_def)
  then have "occurs start_tag (w @ u @ t) (length w)" using occurs_middle [of start_tag u 0 w t] by simp
  moreover have "\<not> occurs start_tag (w @ u @ t) j" if "j < length w" for j
  proof
    assume "occurs start_tag (w @ u @ t) j"
    then have "(w @ u @ t) ! j = 60"
      using occurs_hd [of 60 "tl start_tag"] by (simp add: start_tag_def)
    moreover have "is_whitespace (w ! j)" using that assms(1) by (simp add: list_all_length)
    ultimately show False using that by (simp add: nth_append is_whitespace_def)
  qed
  ultimately have start: "find_str start_tag (w @ u @ t) = Some (length w)"
    by (simp add: find_str_Some)
  have "occurs end_tag (u @ t) ?n" using occurs_middle [OF e(1), of "[]" t] by simp
  moreover have "\<not> occurs end_tag (u @ t) j" if "j < ?n" for j
    using that e(2) occurs_append_left [of j end_tag u t] by simp
  ultimately have "find_str end_tag (u @ t) = Some ?n" by (simp add: find_str_Some)
  then show ?thesis using start assms(1) len
    by (subst split_loop.simps) (simp add: push_rest_def Let_def)
qed

lemma sections_scan:
  "us \<noteq> [] \<Longrightarrow> list_all is_section us \<Longrightarrow> list_all is_whitespace w \<Longrightarrow>
   split_loop (w @ join [nl] us @ t) secs rest = split_loop t (secs @ us) rest"
proof (induction us arbitrary: w secs)
  case (Cons u us)
  show ?case
  proof (cases "us = []")
    case True
    then show ?thesis using Cons.prems section_scan [of w u t] by simp
  next
    case False
    have "split_loop (w @ join [nl] (u # us) @ t) secs rest =
        split_loop (w @ u @ ([nl] @ join [nl] us @ t)) secs rest"
      using False by (simp add: join_Cons)
    also have "\<dots> = split_loop ([nl] @ join [nl] us @ t) (secs @ [u]) rest"
      using Cons.prems by (intro section_scan) simp_all
    also have "\<dots> = split_loop t ((secs @ [u]) @ us) rest"
      using Cons.prems False by (intro Cons.IH) (simp_all add: is_whitespace_def)
    finally show ?thesis by simp
  qed
qed simp

text \<open>The closing tag does not begin in a text, whatever follows.\<close>

definition end_safe :: "rstring \<Rightarrow> bool" where
  "end_safe x \<longleftrightarrow> (\<forall>y j. j < length x \<longrightarrow> \<not> occurs end_tag (x @ y) j)"

lemma end_safe_Nil [simp]: "end_safe []"
  by (simp add: end_safe_def)

lemma end_safe_Cons: "end_safe (c # x) \<longleftrightarrow> (\<forall>y. \<not> starts_with (c # x @ y) end_tag) \<and> end_safe x"
  by (simp add: end_safe_def All_less_Suc2 occurs_0_Cons) blast

lemma end_safe_append: "end_safe x \<Longrightarrow> end_safe z \<Longrightarrow> end_safe (x @ z)"
proof -
  assume x: "end_safe x" and z: "end_safe z"
  have "\<not> occurs end_tag ((x @ z) @ y) j" if "j < length (x @ z)" for y j
  proof (cases "j < length x")
    case True
    then show ?thesis using x by (simp add: end_safe_def)
  next
    case False
    then show ?thesis
      using z that occurs_append_right [of end_tag x "z @ y" "j - length x"]
      by (simp add: end_safe_def)
  qed
  then show ?thesis by (simp add: end_safe_def)
qed

lemma end_safe_concat: "list_all end_safe xs \<Longrightarrow> end_safe (concat xs)"
  by (induction xs) (auto intro: end_safe_append)

lemma end_safe_text:
  assumes "\<not> contains_str t end_tag" "end_safe (c # x)" "c \<notin> set (tl end_tag)"
  shows "end_safe (t @ c # x)"
proof -
  have "\<not> occurs end_tag ((t @ c # x) @ y) j" if "j < length (t @ c # x)" for y j
  proof (cases "j < length t")
    case True
    show ?thesis
    proof
      assume "occurs end_tag ((t @ c # x) @ y) j"
      then have "starts_with (drop j t @ c # x @ y) end_tag" using True by (simp add: occurs_def)
      then have "starts_with (drop j t) end_tag"
        using starts_with_stop_tl [of "drop j t"] True assms(3) by simp
      then show False using assms(1) True by (auto simp: contains_str_iff occurs_def)
    qed
  next
    case False
    then show ?thesis
      using assms(2) that occurs_append_right [of end_tag t "(c # x) @ y" "j - length t"]
      by (simp add: end_safe_def)
  qed
  then show ?thesis by (simp add: end_safe_def)
qed

lemma contains_after_safe:
  assumes "end_safe x" "\<not> contains_str t end_tag"
  shows "\<not> contains_str (x @ t) end_tag"
proof -
  have "\<not> occurs end_tag (x @ t) j" for j
    using assms occurs_append_right [of end_tag x t "j - length x"]
    by (cases "j < length x") (simp_all add: end_safe_def contains_str_iff)
  then show ?thesis by (simp add: contains_str_iff)
qed

lemma contains_substring: "\<not> contains_str (u @ v @ w) p \<Longrightarrow> \<not> contains_str v p"
  by (auto simp: contains_str_iff dest: occurs_middle)

lemmas literal_safe = end_safe_Cons end_tag_def

lemma truncate_middle_safe:
  assumes "truncate_middle t n = Some t'" "\<not> contains_str t end_tag"
  shows "\<not> contains_str t' end_tag"
proof -
  obtain a b where t': "t' = take a t @ lit ''...[truncated]...'' @ drop b t"
    using assms(1) by (auto simp: truncate_middle_def Let_def split: if_splits)
  have "\<not> contains_str (take a t) end_tag" "\<not> contains_str (drop b t) end_tag"
    using contains_substring [of "[]" "take a t" "drop a t"]
      contains_substring [of "take b t" "drop b t" "[]"] assms(2) by simp_all
  moreover have "end_safe (lit ''...[truncated]...'')" by (simp add: literal_safe)
  ultimately have "end_safe (take a t @ lit ''...[truncated]...'')"
    using end_safe_text [of "take a t"] by (simp add: end_tag_def)
  then show ?thesis
    using contains_after_safe \<open>\<not> contains_str (drop b t) end_tag\<close> unfolding t'
    by (metis append_assoc)
qed

lemma attachment_line_safe:
  assumes "\<not> contains_str (file_id r) end_tag" "\<not> contains_str (file_name r) end_tag"
  shows "end_safe (attachment_line r)"
proof -
  have "end_safe (file_name r @ dq # lit '' />'' @ [nl])"
    by (rule end_safe_text [OF assms(2)]) (simp_all add: literal_safe)
  then have "end_safe (lit '' name='' @ dq # file_name r @ dq # lit '' />'' @ [nl])"
    by (simp add: literal_safe)
  then have "end_safe (file_id r @ dq # lit '' name='' @ dq # file_name r @ dq # lit '' />'' @ [nl])"
    by (intro end_safe_text [OF assms(1)]) (simp_all add: literal_safe)
  then show ?thesis by (simp add: attachment_line_def literal_safe)
qed

text \<open>No text of the user and no name of an attachment contains the closing tag.\<close>

definition queries_ok :: "('t, 'z) item_ops_scheme \<Rightarrow> 't list \<Rightarrow> bool" where
  "queries_ok ops turns \<longleftrightarrow> list_all (\<lambda>t. role ops t = User \<longrightarrow>
     (case item_text ops t of Some x \<Rightarrow> \<not> contains_str x end_tag | None \<Rightarrow> True) \<and>
     list_all (\<lambda>r. \<not> contains_str (file_id r) end_tag \<and> \<not> contains_str (file_name r) end_tag)
       (attachment_refs ops t)) turns"

lemma contains_Nil [simp]: "\<not> contains_str [] end_tag"
  by (simp add: contains_str_def)

lemma query_element_safe:
  assumes "queries_ok ops [turn]" "query_element ops n turn = Some el"
  shows "end_safe el"
proof -
  define t where "t = (case item_text ops turn of None \<Rightarrow> [] | Some t \<Rightarrow> t)"
  define t' where "t' = (case truncate_middle t n of Some truncated \<Rightarrow> truncated | None \<Rightarrow> t)"
  define as where "as = attachment_refs ops turn"
  have user: "role ops turn = User" using assms(2) by (simp add: query_element_def split: if_splits)
  have el: "el = lit ''<grok_query>'' @ t'
      @ (if as = [] then [] else [nl] @ concat (map attachment_line as)) @ lit ''</grok_query>'' @ [nl]"
    using assms(2) user
    unfolding query_element_def Let_def t_def [symmetric] as_def [symmetric] t'_def [symmetric]
    by (simp split: if_splits)
  have t: "\<not> contains_str t end_tag"
    using assms(1) user by (auto simp: queries_ok_def t_def split: option.splits)
  then have t': "\<not> contains_str t' end_tag"
    using truncate_middle_safe [of t n] by (auto simp: t'_def split: option.splits)
  have "list_all end_safe (map attachment_line as)"
    using assms(1) user attachment_line_safe by (auto simp: queries_ok_def list_all_iff as_def)
  then have "end_safe (concat (map attachment_line as))" by (rule end_safe_concat)
  moreover have close: "end_safe (lit ''</grok_query>'' @ [nl])" by (simp add: literal_safe)
  ultimately have atts: "end_safe (nl # concat (map attachment_line as) @ lit ''</grok_query>'' @ [nl])"
    using end_safe_append by (simp add: end_safe_Cons end_tag_def)
  have "end_safe (t' @ nl # concat (map attachment_line as) @ lit ''</grok_query>'' @ [nl])"
    by (rule end_safe_text [OF t' atts]) (simp add: end_tag_def)
  moreover have "end_safe (t' @ lit ''</grok_query>'' @ [nl])"
    using end_safe_text [OF t', of 60] close by (simp add: end_tag_def)
  ultimately have "end_safe (t' @ (if as = [] then [] else [nl] @ concat (map attachment_line as))
      @ lit ''</grok_query>'' @ [nl])" by simp
  moreover have "end_safe (lit ''<grok_query>'')" by (simp add: literal_safe)
  ultimately show ?thesis unfolding el by (metis end_safe_append)
qed

lemma extract_is_section:
  assumes "queries_ok ops turns" "extract_user_queries_from_turns ops turns n = Some q"
  shows "is_section q"
proof -
  define els where "els = List.map_filter (query_element ops (unat n)) turns"
  have q: "q = (start_tag @ [nl] @ concat els) @ end_tag"
    using assms(2) by (auto simp: extract_user_queries_from_turns_def els_def Let_def split: if_splits)
  have "end_safe el" if el: "el \<in> set els" for el
  proof -
    obtain turn where "turn \<in> set turns" "query_element ops (unat n) turn = Some el"
      using el by (auto simp: els_def map_filter_def)
    then show ?thesis using query_element_safe [of ops turn] assms(1)
      by (auto simp: queries_ok_def list_all_iff)
  qed
  then have "end_safe (concat els)" by (intro end_safe_concat) (simp add: list_all_iff)
  moreover have "end_safe (start_tag @ [nl])" by (simp add: literal_safe start_tag_def)
  ultimately have safe: "end_safe (start_tag @ [nl] @ concat els)"
    using end_safe_append by fastforce
  have "occurs end_tag q (length (start_tag @ [nl] @ concat els))"
    unfolding q by (simp add: occurs_def starts_with_def)
  then have "find_str end_tag q = Some (length q - length end_tag)"
    using safe unfolding find_str_Some by (auto simp: q end_safe_def)
  then show ?thesis by (simp add: is_section_def q)
qed

lemma preamble_scan:
  assumes "us \<noteq> []" "list_all is_section us" "is_section q" "block_free summary"
  shows "split_prior_compaction_text
      (assemble_user_queries_preamble (Some (join [nl] us)) (Some q) @ summary) =
    (Some (join [nl] (us @ [q])), trim summary)"
proof -
  have ws: "list_all is_whitespace [nl, nl]" by (simp add: is_whitespace_def)
  have "tag_free []" by (simp add: tag_free_def occurs_Nil)
  then have free: "block_free ([nl, nl] @ summary)"
    using block_free_join [of "[]"] assms(4) by simp
  have "split_loop (assemble_user_queries_preamble (Some (join [nl] us)) (Some q) @ summary) [] [] =
      split_loop ([] @ join [nl] us @ ([nl, nl] @ q @ [nl, nl] @ summary)) [] []"
    by (simp add: assemble_user_queries_preamble_def)
  also have "\<dots> = split_loop ([nl, nl] @ q @ [nl, nl] @ summary) us []"
    using sections_scan [OF assms(1,2), of "[]"] by simp
  also have "\<dots> = split_loop ([nl, nl] @ summary) (us @ [q]) []"
    using section_scan [OF ws assms(3)] by blast
  also have "\<dots> = (us @ [q], push_rest [] ([nl, nl] @ summary))"
    by (rule block_free_scan [OF free])
  also have "push_rest [] ([nl, nl] @ summary) = trim summary"
    using trim_surround [of "[nl, nl]" "[]" summary] ws by (simp add: push_rest_def Let_def)
  finally show ?thesis by (simp add: split_prior_compaction_text_def)
qed

text \<open>The items handed to the summariser, and the queries collected, item by item.\<close>

definition item_content :: "('t, 'z) item_ops_scheme \<Rightarrow> 't \<Rightarrow> rstring" where
  "item_content ops turn = (case item_text ops turn of None \<Rightarrow> [] | Some t \<Rightarrow> t)"

definition stripped :: "('t, 'z) builder_ops_scheme \<Rightarrow> 't \<Rightarrow> 't option" where
  "stripped ops turn =
     (if is_compaction_summary ops turn then
        let rest = snd (split_prior_compaction_text (item_content ops turn))
        in if rest = [] then None else Some (compaction_summary_item ops rest)
      else Some turn)"

definition carried :: "('t, 'z) builder_ops_scheme \<Rightarrow> 't \<Rightarrow> rstring option" where
  "carried ops turn =
     (if is_compaction_summary ops turn
      then fst (split_prior_compaction_text (item_content ops turn)) else None)"

definition join_opt :: "rstring list \<Rightarrow> rstring option" where
  "join_opt xs = (if xs = [] then None else Some (join [nl] xs))"

lemma join_snoc: "xs \<noteq> [] \<Longrightarrow> join sep (xs @ [x]) = join sep xs @ sep @ x"
proof (induction xs)
  case (Cons a xs)
  then show ?case by (cases "xs = []") (auto simp: join_Cons)
qed simp

lemma append_section_join: "append_section (join_opt xs) s = join_opt (xs @ [s])"
  by (simp add: append_section_def join_opt_def join_snoc)

lemma separate_step_acc:
  "separate_step ops \<lparr>turns_for_llm = ts, prior_user_queries = join_opt qs, has_prior_compaction = b\<rparr> turn =
   \<lparr>turns_for_llm = ts @ (case stripped ops turn of None \<Rightarrow> [] | Some t \<Rightarrow> [t]),
    prior_user_queries = join_opt (qs @ (case carried ops turn of None \<Rightarrow> [] | Some q \<Rightarrow> [q])),
    has_prior_compaction = (b \<or> is_compaction_summary ops turn)\<rparr>"
  by (auto simp: separate_step_def stripped_def carried_def item_content_def append_section_join
      Let_def split: prod.splits option.splits)

lemma map_filter_Cons:
  "List.map_filter f (x # xs) = (case f x of None \<Rightarrow> [] | Some y \<Rightarrow> [y]) @ List.map_filter f xs"
  by (simp add: map_filter_simps split: option.split)

lemma separate_foldl:
  "foldl (separate_step ops)
     \<lparr>turns_for_llm = ts, prior_user_queries = join_opt qs, has_prior_compaction = b\<rparr> turns =
   \<lparr>turns_for_llm = ts @ List.map_filter (stripped ops) turns,
    prior_user_queries = join_opt (qs @ List.map_filter (carried ops) turns),
    has_prior_compaction = (b \<or> (\<exists>t \<in> set turns. is_compaction_summary ops t))\<rparr>"
proof (induction turns arbitrary: ts qs b)
  case Nil
  then show ?case by (simp add: map_filter_simps)
next
  case (Cons t turns)
  then show ?case
    by (simp only: foldl_Cons separate_step_acc map_filter_Cons append_assoc) auto
qed

lemma separate_items:
  "separate_prior_user_queries ops turns =
   \<lparr>turns_for_llm = List.map_filter (stripped ops) turns,
    prior_user_queries = join_opt (List.map_filter (carried ops) turns),
    has_prior_compaction = (\<exists>t \<in> set turns. is_compaction_summary ops t)\<rparr>"
  using separate_foldl [of ops "[]" "[]" False turns]
  by (simp add: separate_prior_user_queries_def join_opt_def)

section \<open>Properties\<close>

text \<open>The queries of the user survive repeated compaction. When the queries of the current turns
  are extracted into a block, put behind the blocks of earlier compactions and in front of a
  summary without a block of its own, then splitting the stored text again gives back exactly
  the earlier blocks and the new one, in order, and the trimmed summary; provided no query and
  no attachment name contains the closing tag, which the source does not escape.
\<close>

theorem user_queries_survive:
  assumes "queries_ok ops turns" "extract_user_queries_from_turns ops turns n = Some q"
    "us \<noteq> []" "list_all is_section us" "block_free summary"
  shows "split_prior_compaction_text
      (assemble_user_queries_preamble (Some (join [nl] us)) (Some q) @ summary) =
    (Some (join [nl] (us @ [q])), trim summary) \<and> list_all is_section (us @ [q])"
  using preamble_scan [OF assms(3,4) extract_is_section [OF assms(1,2)] assms(5)]
    extract_is_section [OF assms(1,2)] assms(4) by simp

definition query_ops :: "rstring item_ops" where
  "query_ops = \<lparr>role = (\<lambda>_. User), item_text = Some, is_tool_result = (\<lambda>_. False),
     has_tool_requests = (\<lambda>_. False), is_compaction_summary = (\<lambda>_. False),
     attachment_refs = (\<lambda>_. [])\<rparr>"

theorem user_queries_survive_witness:
  "\<exists>q. extract_user_queries_from_turns query_ops [lit ''fix it''] 100 = Some q \<and>
     split_prior_compaction_text
       (assemble_user_queries_preamble (Some (start_tag @ end_tag)) (Some q) @ lit ''done '') =
     (Some (start_tag @ end_tag @ [nl] @ q), lit ''done'')"
proof -
  obtain q where q: "extract_user_queries_from_turns query_ops [lit ''fix it''] 100 = Some q"
    by (simp add: extract_user_queries_from_turns_def map_filter_simps query_element_def
        query_ops_def truncate_middle_def Let_def)
  have ok: "queries_ok query_ops [lit ''fix it'']"
    by (simp add: queries_ok_def query_ops_def contains_str_def end_tag_def)
  have sec: "list_all is_section [start_tag @ end_tag]"
    by (simp add: is_section_def start_tag_def end_tag_def)
  have "find_str start_tag (lit ''done '') = None" by (simp add: start_tag_def)
  then have free: "block_free (lit ''done '')" using scan_stops by blast
  have "trim (lit ''done '') = lit ''done''"
    by (simp add: trim_def trim_start_def trim_end_def is_whitespace_def)
  then show ?thesis
    using user_queries_survive [OF ok q _ sec free] q
    by (intro exI [of _ q]) simp
qed

text \<open>What the summariser sees holds no complete block of earlier queries: splitting any text is
  idempotent, and separating the items a second time finds nothing more to carry over and
  changes nothing, provided the item built to carry a summary is recognised as one and returns
  its text.
\<close>

theorem separate_idempotent:
  fixes ops :: "('t, 'z) builder_ops_scheme" and turns :: "'t list"
  assumes "\<And>t. is_compaction_summary ops (compaction_summary_item ops t)"
    and "\<And>t. item_text ops (compaction_summary_item ops t) = Some t"
  defines "out \<equiv> turns_for_llm (separate_prior_user_queries ops turns)"
  shows "prior_user_queries (separate_prior_user_queries ops out) = None \<and>
    turns_for_llm (separate_prior_user_queries ops out) = out \<and>
    split_prior_compaction_text (snd (split_prior_compaction_text text)) =
      (None, snd (split_prior_compaction_text text))"
proof -
  have idem: "split_prior_compaction_text (snd (split_prior_compaction_text s)) =
      (None, snd (split_prior_compaction_text s))" for s
    by (rule split_prior_block_free [OF split_prior_rest_block_free])
  have out: "out = List.map_filter (stripped ops) turns" by (simp add: out_def separate_items)
  have stable: "carried ops t = None \<and> stripped ops t = Some t" if "stripped ops u = Some t" for t u
    using that assms idem
    by (auto simp: carried_def stripped_def item_content_def Let_def split: if_splits)
  have "List.map_filter (carried ops) (List.map_filter (stripped ops) ts) = [] \<and>
      List.map_filter (stripped ops) (List.map_filter (stripped ops) ts) =
        List.map_filter (stripped ops) ts" for ts
    by (induction ts) (auto simp: map_filter_simps stable split: option.splits)
  then show ?thesis using idem by (simp add: separate_items out join_opt_def)
qed

definition summary_ops :: "rstring builder_ops" where
  "summary_ops = \<lparr>role = (\<lambda>_. Developer), item_text = Some, is_tool_result = (\<lambda>_. False),
     has_tool_requests = (\<lambda>_. False), is_compaction_summary = (\<lambda>_. True),
     attachment_refs = (\<lambda>_. []), compaction_summary_item = id, strip_tool_content = Some,
     truncate_payload_for_compaction = (\<lambda>t _. t)\<rparr>"

theorem separate_idempotent_witness:
  "(let turns = [start_tag @ end_tag @ lit ''sum'']; out = turns_for_llm (separate_prior_user_queries summary_ops turns)
    in prior_user_queries (separate_prior_user_queries summary_ops turns) = Some (start_tag @ end_tag) \<and>
       out = [lit ''sum''] \<and>
       prior_user_queries (separate_prior_user_queries summary_ops out) = None \<and>
       turns_for_llm (separate_prior_user_queries summary_ops out) = out)"
proof -
  let ?turns = "[start_tag @ end_tag @ lit ''sum'']"
  have sec: "is_section (start_tag @ end_tag)"
    by (simp add: is_section_def start_tag_def end_tag_def)
  have free: "block_free (lit ''sum'')" using scan_stops by (simp add: start_tag_def)
  have "split_loop (start_tag @ end_tag @ lit ''sum'') [] [] = ([start_tag @ end_tag], lit ''sum'')"
    using section_scan [of "[]" "start_tag @ end_tag" "lit ''sum''" "[]" "[]"] sec
      block_free_scan [OF free]
    by (simp add: push_rest_def trim_def trim_start_def trim_end_def is_whitespace_def)
  then have "separate_prior_user_queries summary_ops ?turns =
      \<lparr>turns_for_llm = [lit ''sum''], prior_user_queries = Some (start_tag @ end_tag),
       has_prior_compaction = True\<rparr>"
    by (simp add: separate_items map_filter_simps stripped_def carried_def item_content_def
        split_prior_compaction_text_def summary_ops_def join_opt_def)
  moreover have "prior_user_queries (separate_prior_user_queries summary_ops
        (turns_for_llm (separate_prior_user_queries summary_ops ?turns))) = None \<and>
      turns_for_llm (separate_prior_user_queries summary_ops
        (turns_for_llm (separate_prior_user_queries summary_ops ?turns))) =
      turns_for_llm (separate_prior_user_queries summary_ops ?turns)"
    using separate_idempotent [of summary_ops ?turns] by (simp add: summary_ops_def)
  ultimately show ?thesis unfolding Let_def by simp
qed

end
