(* ===== verification/Compaction_Apply.thy ===== *)
theory Compaction_Apply
  imports Compaction_Fit Compaction_History Compaction_Summary Float64 "HOL-Library.Sublist"
begin

text \<open>
  The orchestration of a compaction inside the agent loop (\<open>intra_compaction/config.rs\<close>,
  \<open>trigger.rs\<close>, \<open>traits.rs\<close>, \<open>compact.rs\<close>): when it triggers, and the passes that select,
  sample, guard and commit. The stream processor that owns the conversation is a record of its
  methods over an arbitrary state, the model call a function of the pass, the items, the prompt and
  the number of the attempt, so that no two calls of a run need agree, and the rendered prompt
  templates are arguments, those of the history prompt with the error they may end in. A pass returns its result, the
  state behind it and the observer's callbacks; \<open>None\<close> is a panic. Elapsed times, sleeping and
  logging are left out.
\<close>

section \<open>Configuration and trigger\<close>

datatype intra_mode = ModeFullReplace | StepsOnly | HistoryOnly | HistoryThenSteps
datatype intra_summarizer = Shared | Legacy

record intra_config =
  enabled :: bool
  mode :: intra_mode
  trigger_threshold_percent :: u8
  min_steps_before_compact :: u32
  min_compactable_tokens :: u32
  max_reduction_ratio :: f64
  compaction_model_name :: "rstring option"
  sampling_timeout_secs :: u64
  max_attempts :: u32
  retry_delay_secs :: u64
  compaction_version :: rstring
  summarizer :: intra_summarizer
  target_threshold_percent :: u8
  steps_trigger_ratio :: f64
  user_message_truncate_chars :: u32

definition DEFAULT_COMPACTION_MODEL_NAME :: rstring where
  "DEFAULT_COMPACTION_MODEL_NAME = lit ''grok-4.20''"

text \<open>The two ratios are the \<open>f64\<close> nearest to 0.8 and 0.3.\<close>

definition default_intra_config :: intra_config where
  "default_intra_config =
     \<lparr>enabled = False, mode = ModeFullReplace, trigger_threshold_percent = 85,
      min_steps_before_compact = 3, min_compactable_tokens = 5000,
      max_reduction_ratio = Fin (3602879701896397 / 4503599627370496),
      compaction_model_name = Some DEFAULT_COMPACTION_MODEL_NAME, sampling_timeout_secs = 120,
      max_attempts = 2, retry_delay_secs = 3, compaction_version = lit ''intra-v1'',
      summarizer = Shared, target_threshold_percent = 50,
      steps_trigger_ratio = Fin (5404319552844595 / 18014398509481984),
      user_message_truncate_chars = 3000\<rparr>"

definition effective_compaction_model_name :: "intra_config \<Rightarrow> rstring" where
  "effective_compaction_model_name policy =
     (case compaction_model_name policy of
        Some name \<Rightarrow> if trim name \<noteq> [] then trim name else DEFAULT_COMPACTION_MODEL_NAME
      | None \<Rightarrow> DEFAULT_COMPACTION_MODEL_NAME)"

record intra_trigger =
  last_prompt_tokens :: u32
  context_window :: u32
  trigger_percent :: u8
  trigger_step :: u32

text \<open>\<open>(window as u64 * percent as u64 / 100) as u32\<close>: exact in 64 bits, then truncated.\<close>

definition percent_of :: "u32 \<Rightarrow> u8 \<Rightarrow> u32" where
  "percent_of window p = of_nat (unat window * unat p div 100)"

definition should_compact :: "intra_config \<Rightarrow> u32 \<Rightarrow> u32 \<Rightarrow> u32 \<Rightarrow> intra_trigger option" where
  "should_compact policy last_tokens window current_step =
     (if \<not> enabled policy then None
      else if window = 0 then None
      else if mode policy \<noteq> ModeFullReplace \<and> current_step < min_steps_before_compact policy then None
      else if last_tokens \<le> percent_of window (trigger_threshold_percent policy) then None
      else Some \<lparr>last_prompt_tokens = last_tokens, context_window = window,
                 trigger_percent = of_nat (min (unat last_tokens * 100 div unat window) 100),
                 trigger_step = current_step\<rparr>)"

section \<open>Results, errors and the interfaces of the passes\<close>

record intra_result =
  tokens_before :: u32
  tokens_after :: u32
  turns_compacted :: u32
  result_summary :: rstring

datatype intra_error =
    NothingToCompact | Timeout | EmptyResponse
  | InsufficientReduction u32 u32
  | InvalidSplit nat nat
  | Unsupported
  | SamplerBuild rstring | SamplerStart rstring | SamplerStream rstring
  | ContextOverflow rstring
  | ApplyFailed rstring

definition error_status_label :: "intra_error \<Rightarrow> string" where
  "error_status_label err = (case err of
     NothingToCompact \<Rightarrow> ''nothing_to_compact'' | Timeout \<Rightarrow> ''timeout''
   | EmptyResponse \<Rightarrow> ''empty_response'' | InsufficientReduction _ _ \<Rightarrow> ''insufficient_reduction''
   | InvalidSplit _ _ \<Rightarrow> ''invalid_split'' | Unsupported \<Rightarrow> ''unsupported''
   | SamplerBuild _ \<Rightarrow> ''sampler_build'' | SamplerStart _ \<Rightarrow> ''sampler_start''
   | SamplerStream _ \<Rightarrow> ''sampler_stream'' | ContextOverflow _ \<Rightarrow> ''context_overflow''
   | ApplyFailed _ \<Rightarrow> ''apply'')"

datatype compaction_target = TargetSteps | TargetHistory | TargetFullReplace

definition target_label :: "compaction_target \<Rightarrow> string" where
  "target_label t = (case t of TargetSteps \<Rightarrow> ''steps'' | TargetHistory \<Rightarrow> ''history''
     | TargetFullReplace \<Rightarrow> ''full_replace'')"

record ('s, 't) stream_proc =
  get_accumulated :: "'s \<Rightarrow> 't list"
  get_history :: "'s \<Rightarrow> 't list"
  replace_with_compaction :: "compaction_target \<Rightarrow> nat \<Rightarrow> 't \<Rightarrow> 's \<Rightarrow> intra_error option \<times> 's"

definition get_all_turns :: "('s, 't) stream_proc \<Rightarrow> 's \<Rightarrow> 't list" where
  "get_all_turns proc s = get_history proc s @ get_accumulated proc s"

datatype intra_event =
    OnSuccess compaction_target u32 u32 u32
  | OnError string

record compaction_prompt =
  prompt_system :: rstring
  prompt_user :: rstring

text \<open>What every pass is given: the item traits, the counter, the processor, the model, the
  policy and the texts of the prompts.\<close>

record ('s, 't) pass_env =
  ops :: "'t builder_ops"
  counter :: "'t \<Rightarrow> u32"
  proc :: "('s, 't) stream_proc"
  sampler :: "compaction_target \<Rightarrow> 't list \<Rightarrow> compaction_prompt \<Rightarrow> nat \<Rightarrow> compaction_sample_error + llm_compaction_output"
  policy :: intra_config
  steps_prompt :: compaction_prompt
  history_developer_prompt :: "rstring + rstring"
  history_user_prompt :: "rstring + rstring"
  summary_prompt :: rstring

section \<open>Sampling\<close>

definition is_transient :: "intra_error \<Rightarrow> bool" where
  "is_transient err = (case err of
     Timeout \<Rightarrow> True | EmptyResponse \<Rightarrow> True | SamplerStream _ \<Rightarrow> True | SamplerStart _ \<Rightarrow> True
   | _ \<Rightarrow> False)"

definition compaction_sample_error_to_intra :: "compaction_sample_error \<Rightarrow> intra_error" where
  "compaction_sample_error_to_intra err = (case err of
     SampleTimeout _ _ \<Rightarrow> Timeout
   | SampleBuild msg \<Rightarrow> SamplerBuild msg
   | SampleStart msg \<Rightarrow> SamplerStart msg
   | SampleContextOverflow msg \<Rightarrow> ContextOverflow msg
   | SampleEmptyResponse \<Rightarrow> EmptyResponse
   | SampleOther msg \<Rightarrow>
       if contains_str msg (lit ''Failed to build'') then SamplerBuild msg
       else if contains_str msg (lit ''Failed to start'') then SamplerStart msg
       else if contains_str msg (lit ''no response channel content'') then EmptyResponse
       else SamplerStream msg)"

function legacy_loop ::
  "(nat \<Rightarrow> compaction_sample_error + llm_compaction_output) \<Rightarrow> nat \<Rightarrow> nat \<Rightarrow> intra_error option \<Rightarrow>
   intra_error + rstring" where
  "legacy_loop call max_att attempt last_err =
     (if max_att < attempt then Inl (case last_err of Some e \<Rightarrow> e | None \<Rightarrow> EmptyResponse)
      else case call attempt of
        Inr output \<Rightarrow> Inr (response output)
      | Inl e \<Rightarrow>
          let err = compaction_sample_error_to_intra e
          in if is_transient err \<and> attempt < max_att
             then legacy_loop call max_att (attempt + 1) (Some err) else Inl err)"
  by pat_completeness auto
termination
  by (relation "measure (\<lambda>(_, m, a, _). Suc m - a)") auto

declare legacy_loop.simps [simp del]

definition sample_compaction_with_retries ::
  "('s, 't) pass_env \<Rightarrow> compaction_target \<Rightarrow> 't list \<Rightarrow> compaction_prompt \<Rightarrow> intra_error + rstring" where
  "sample_compaction_with_retries env target turns prompt =
     legacy_loop (sampler env target turns prompt) (max (unat (max_attempts (policy env))) 1) 1 None"

definition sample_shared_summary_with_retries ::
  "('s, 't) pass_env \<Rightarrow> compaction_target \<Rightarrow> 't list \<Rightarrow> intra_error + rstring" where
  "sample_shared_summary_with_retries env target turns =
     (let prompt = \<lparr>prompt_system = [], prompt_user = summary_prompt env\<rparr>
      in case fst (sample_summary_with_retries (sampler env target turns prompt) (max_attempts (policy env))) of
        Inr out \<Rightarrow> Inr (format_compact_summary (sampled_text out))
      | Inl (RetryEmpty _) \<Rightarrow> Inl EmptyResponse
      | Inl (RetryFailure message deterministic context_overflow _) \<Rightarrow>
          Inl (if context_overflow then ContextOverflow message
               else if deterministic then SamplerBuild message
               else SamplerStream message))"

definition build_prompt_for_target ::
  "('s, 't) pass_env \<Rightarrow> compaction_target \<Rightarrow> (intra_error + compaction_prompt) option" where
  "build_prompt_for_target env target = (case target of
     TargetSteps \<Rightarrow> Some (Inr (steps_prompt env))
   | TargetHistory \<Rightarrow>
       Some (case history_developer_prompt env of
               Inl e \<Rightarrow> Inl (SamplerBuild e)
             | Inr system_text \<Rightarrow>
                 (case history_user_prompt env of
                    Inl e \<Rightarrow> Inl (SamplerBuild e)
                  | Inr user_text \<Rightarrow> Inr \<lparr>prompt_system = system_text, prompt_user = user_text\<rparr>))
   | TargetFullReplace \<Rightarrow> None)"

definition append_reminder_block :: "rstring \<Rightarrow> rstring option \<Rightarrow> rstring" where
  "append_reminder_block summary reminder = (case reminder of
     Some r \<Rightarrow> if trim r \<noteq> [] then summary @ [nl, nl] @ r else summary
   | None \<Rightarrow> summary)"

section \<open>The passes\<close>

type_synonym 's pass_outcome = "(intra_error + intra_result) \<times> 's \<times> intra_event list"

definition reduction_limit :: "u32 \<Rightarrow> f64 \<Rightarrow> u32" where
  "reduction_limit before ratio = of_nat (f64_as_nat u32_max (f64_mul (Fin (of_nat (unat before))) ratio))"

text \<open>The guard against a useless summary, the commit and the result.\<close>

definition guard_and_commit ::
  "('s, 't) pass_env \<Rightarrow> compaction_target \<Rightarrow> nat \<Rightarrow> u32 \<Rightarrow> rstring \<Rightarrow> 's \<Rightarrow> 's pass_outcome" where
  "guard_and_commit env target n before text s =
     (let item = compaction_summary_item (ops env) text;
          after = counter env item
      in if 0 < before \<and> reduction_limit before (max_reduction_ratio (policy env)) < after
         then (Inl (InsufficientReduction before after), s, [])
         else case replace_with_compaction (proc env) target n item s of
           (Some e, s') \<Rightarrow> (Inl e, s', [])
         | (None, s') \<Rightarrow>
             (Inr \<lparr>tokens_before = before, tokens_after = after, turns_compacted = of_nat n,
                   result_summary = text\<rparr>,
              s', [OnSuccess target before after (of_nat n)]))"

definition target_view :: "('s, 't) pass_env \<Rightarrow> compaction_target \<Rightarrow> 's \<Rightarrow> 't list option" where
  "target_view env target s = (case target of
     TargetSteps \<Rightarrow> Some (get_accumulated (proc env) s)
   | TargetHistory \<Rightarrow> Some (get_history (proc env) s)
   | TargetFullReplace \<Rightarrow> None)"

definition pass_input ::
  "('s, 't) pass_env \<Rightarrow> compaction_target \<Rightarrow> 't list \<Rightarrow> 't list \<times> rstring option" where
  "pass_input env target turns =
     (if target = TargetHistory
      then let separated = separate_prior_user_queries (ops env) turns
           in (turns_for_llm separated, prior_user_queries separated)
      else (turns, None))"

definition pass_summary ::
  "('s, 't) pass_env \<Rightarrow> compaction_target \<Rightarrow> 't list \<Rightarrow> (intra_error + rstring) option" where
  "pass_summary env target turns = (case summarizer (policy env) of
     Legacy \<Rightarrow> do { prompt \<leftarrow> build_prompt_for_target env target;
                     Some (case prompt of
                             Inl e \<Rightarrow> Inl e
                           | Inr p \<Rightarrow> sample_compaction_with_retries env target turns p) }
   | Shared \<Rightarrow> Some (sample_shared_summary_with_retries env target turns))"

definition final_summary_text ::
  "('s, 't) pass_env \<Rightarrow> compaction_target \<Rightarrow> 't list \<Rightarrow> rstring option \<Rightarrow> rstring \<Rightarrow> rstring" where
  "final_summary_text env target turns prior text =
     (if target = TargetHistory
      then let current = extract_user_queries_from_turns (ops env) turns
                           (user_message_truncate_chars (policy env));
               preamble = assemble_user_queries_preamble prior current
           in if preamble = [] then text else preamble @ text
      else text)"

definition compact_one_pass ::
  "('s, 't) pass_env \<Rightarrow> intra_trigger \<Rightarrow> compaction_target \<Rightarrow> 's \<Rightarrow> 's pass_outcome option" where
  "compact_one_pass env trigger target s =
     do {
       source_turns \<leftarrow> target_view env target s;
       if source_turns = [] then Some (Inl NothingToCompact, s, [])
       else do {
         selected \<leftarrow> select_turns_to_compact (ops env) (map (counter env) source_turns) source_turns
           (percent_of (context_window trigger) (target_threshold_percent (policy env)))
           (min_compactable_tokens (policy env));
         case selected of
           None \<Rightarrow> Some (Inl NothingToCompact, s, [])
         | Some plan \<Rightarrow> do {
             turns \<leftarrow> vec_range source_turns 0 (split_idx plan);
             let (llm_input, prior) = pass_input env target turns
             in do {
               sampled \<leftarrow> pass_summary env target llm_input;
               Some (case sampled of
                       Inl e \<Rightarrow> (Inl e, s, [])
                     | Inr text \<Rightarrow>
                         guard_and_commit env target (split_idx plan) (tokens_to_compact plan)
                           (final_summary_text env target turns prior text) s) } } } }"

definition apply_steps_compaction ::
  "('s, 't) pass_env \<Rightarrow> intra_trigger \<Rightarrow> 's \<Rightarrow> 's pass_outcome option" where
  "apply_steps_compaction env trigger s = compact_one_pass env trigger TargetSteps s"

definition apply_history_compaction ::
  "('s, 't) pass_env \<Rightarrow> intra_trigger \<Rightarrow> 's \<Rightarrow> 's pass_outcome option" where
  "apply_history_compaction env trigger s = compact_one_pass env trigger TargetHistory s"

text \<open>
  The token sum of a full replacement does not saturate (\<open>Iterator::sum\<close>): it wraps in a
  release build.
\<close>

definition full_replace_input ::
  "('s, 't) pass_env \<Rightarrow> u32 option \<Rightarrow> 't list \<Rightarrow> 't list \<Rightarrow> 't list option option" where
  "full_replace_input env summarizer_input_budget history_turns step_turns =
     (case summarizer_input_budget of
        Some budget \<Rightarrow> do {
          plan \<leftarrow> fit_turns_for_summarizer (ops env) history_turns step_turns (counter env) budget;
          Some (if llm_turns plan = [] \<or> tokens_fit plan = 0 then None else Some (llm_turns plan)) }
      | None \<Rightarrow> Some (Some (history_turns @ step_turns)))"

definition apply_full_replace_compaction ::
  "('s, 't) pass_env \<Rightarrow> rstring option \<Rightarrow> u32 option \<Rightarrow> 's \<Rightarrow> 's pass_outcome option" where
  "apply_full_replace_compaction env active_reminder summarizer_input_budget s =
     (let history_turns = get_history (proc env) s;
          step_turns = get_accumulated (proc env) s;
          total_turns = length history_turns + length step_turns;
          before = sum_list (map (counter env) (history_turns @ step_turns))
      in if total_turns = 0 then Some (Inl NothingToCompact, s, [])
         else if before < min_compactable_tokens (policy env) then Some (Inl NothingToCompact, s, [])
         else do {
           fitted \<leftarrow> full_replace_input env summarizer_input_budget history_turns step_turns;
           Some (case fitted of
             None \<Rightarrow> (Inl NothingToCompact, s, [])
           | Some turns \<Rightarrow>
               (case sample_shared_summary_with_retries env TargetFullReplace turns of
                  Inl e \<Rightarrow> (Inl e, s, [])
                | Inr text \<Rightarrow>
                    guard_and_commit env TargetFullReplace total_turns before
                      (append_reminder_block text active_reminder) s)) })"

text \<open>Token counts of the two views as \<open>u64\<close>, and the threshold of the second pass.\<close>

definition wide_tokens :: "('s, 't) pass_env \<Rightarrow> 't list \<Rightarrow> u64" where
  "wide_tokens env turns = sum_list (map (\<lambda>t. of_nat (unat (counter env t))) turns)"

definition should_compact_steps :: "('s, 't) pass_env \<Rightarrow> 's \<Rightarrow> bool" where
  "should_compact_steps env s =
     (let steps_tokens = wide_tokens env (get_accumulated (proc env) s);
          history_tokens = wide_tokens env (get_history (proc env) s);
          threshold = f64_as_nat (2 ^ 64 - 1)
            (f64_ceil (f64_mul (Fin (f64_round (of_nat (unat history_tokens))))
                               (steps_trigger_ratio (policy env))))
      in threshold < unat steps_tokens)"

definition join_results :: "intra_result \<Rightarrow> intra_result \<Rightarrow> intra_result" where
  "join_results h s =
     \<lparr>tokens_before = saturating_add_u32 (tokens_before h) (tokens_before s),
      tokens_after = saturating_add_u32 (tokens_after h) (tokens_after s),
      turns_compacted = saturating_add_u32 (turns_compacted h) (turns_compacted s),
      result_summary =
        (if result_summary h \<noteq> [] \<and> result_summary s \<noteq> []
         then result_summary h @ [nl, nl] @ result_summary s
         else if result_summary h \<noteq> [] then result_summary h else result_summary s)\<rparr>"

definition apply_history_then_steps ::
  "('s, 't) pass_env \<Rightarrow> intra_trigger \<Rightarrow> 's \<Rightarrow> 's pass_outcome option" where
  "apply_history_then_steps env trigger s =
     do {
       (history_result, s1, ev1) \<leftarrow> apply_history_compaction env trigger s;
       if (case history_result of Inl e \<Rightarrow> e \<noteq> NothingToCompact | Inr _ \<Rightarrow> False)
       then Some (history_result, s1, ev1)
       else if \<not> should_compact_steps env s1 then Some (history_result, s1, ev1)
       else do {
         (steps_result, s2, ev2) \<leftarrow> apply_steps_compaction env trigger s1;
         Some (case (history_result, steps_result) of
                 (Inr h, Inr st) \<Rightarrow> (Inr (join_results h st), s2, ev1 @ ev2)
               | (Inr h, Inl e) \<Rightarrow>
                   (if e = NothingToCompact then Inr h else Inl e, s2, ev1 @ ev2)
               | (Inl _, r) \<Rightarrow> (r, s2, ev1 @ ev2)) } }"

definition apply_intra_compaction ::
  "('s, 't) pass_env \<Rightarrow> intra_trigger \<Rightarrow> rstring option \<Rightarrow> u32 option \<Rightarrow> 's \<Rightarrow> 's pass_outcome option" where
  "apply_intra_compaction env trigger active_reminder summarizer_input_budget s =
     do {
       (result, s', ev) \<leftarrow> (case mode (policy env) of
          ModeFullReplace \<Rightarrow>
            apply_full_replace_compaction env active_reminder summarizer_input_budget s
        | StepsOnly \<Rightarrow> apply_steps_compaction env trigger s
        | HistoryOnly \<Rightarrow> apply_history_compaction env trigger s
        | HistoryThenSteps \<Rightarrow> apply_history_then_steps env trigger s);
       Some (result, s',
             ev @ (case result of Inl e \<Rightarrow> [OnError (error_status_label e)] | Inr _ \<Rightarrow> [])) }"

section \<open>Lemmas on rounding and the trigger\<close>

lemma reduction_limit_le:
  assumes "ratio = Fin r" "r \<le> 1" "0 < before"
  shows "reduction_limit before ratio \<le> before"
proof -
  let ?x = "of_nat (unat before) * r :: rat"
  have m: "0 < unat before" "unat before < 2 ^ 52"
    using assms(3) u32_le_max [of before] by (simp_all add: word_less_nat_alt del: u32_le_max)
  have "f64_as_nat u32_max (Fin (f64_round ?x)) \<le> unat before"
  proof (cases "0 \<le> r")
    case True
    then have "?x \<le> of_nat (unat before)" using assms(2) by (intro mult_left_le of_nat_0_le_iff)
    moreover have "0 \<le> ?x" using True by (intro mult_nonneg_nonneg of_nat_0_le_iff)
    ultimately have "f64_round ?x \<le> of_nat (unat before)" using m by (intro f64_round_le)
    then have "\<lfloor>f64_round ?x\<rfloor> \<le> int (unat before)" by (simp add: floor_le_iff)
    then show ?thesis by (simp add: f64_as_nat_def nat_le_iff min.coboundedI2)
  next
    case False
    then have "?x < 0" using m(1) by (intro mult_pos_neg) (simp_all only: of_nat_0_less_iff not_le)
    moreover obtain n d where q: "quotient_of ?x = (n, d)" by fastforce
    ultimately have "of_int n / of_int d < (0 :: rat)" using quotient_of_div [OF q] by metis
    then have "n < 0" using quotient_of_denom_pos [OF q] by (simp add: divide_less_0_iff)
    moreover have "0 \<le> f64_round_pos a b" for a b
      by (auto simp: f64_round_pos_def Let_def f64_ratio_def)
    ultimately have "f64_round ?x \<le> 0" using q by (simp only: f64_round_def) simp
    then show ?thesis by (simp add: f64_as_nat_def)
  qed
  then have "unat (of_nat (f64_as_nat u32_max (Fin (f64_round ?x))) :: u32) \<le> unat before"
    by (rule order_trans [rotated]) (simp only: unat_of_nat mod_less_eq_dividend)
  then show ?thesis by (simp add: reduction_limit_def assms(1) word_le_nat_alt)
qed

lemma percent_of_exact: "unat p \<le> 100 \<Longrightarrow> unat (percent_of window p) = unat window * unat p div 100"
proof -
  assume "unat p \<le> 100"
  then have "unat window * unat p div 100 \<le> unat window * 100 div 100"
    by (intro div_le_mono mult_le_mono2)
  then have "unat window * unat p div 100 < 2 ^ 32"
    using u32_le_max [of window] by (simp del: u32_le_max)
  then show ?thesis by (simp add: percent_of_def unat_of_nat)
qed

section \<open>Lemmas on the passes\<close>

text \<open>The items a pass may replace, and what it did: a summary item replaced the first \<open>n\<close> of them,
  or the processor was asked to and refused.\<close>

definition pass_view :: "('s, 't) pass_env \<Rightarrow> compaction_target \<Rightarrow> 's \<Rightarrow> 't list" where
  "pass_view env target s = (case target of
     TargetSteps \<Rightarrow> get_accumulated (proc env) s
   | TargetHistory \<Rightarrow> get_history (proc env) s
   | TargetFullReplace \<Rightarrow> get_all_turns (proc env) s)"

definition pass_committed ::
  "('s, 't) pass_env \<Rightarrow> compaction_target \<Rightarrow> nat \<Rightarrow> u32 \<Rightarrow> 's \<Rightarrow> intra_result \<Rightarrow> 's \<Rightarrow> bool" where
  "pass_committed env target n before s r s' \<longleftrightarrow>
     (let item = compaction_summary_item (ops env) (result_summary r) in
        n \<le> length (pass_view env target s) \<and>
        replace_with_compaction (proc env) target n item s = (None, s') \<and>
        r = \<lparr>tokens_before = before, tokens_after = counter env item, turns_compacted = of_nat n,
             result_summary = result_summary r\<rparr> \<and>
        (before = 0 \<or> tokens_after r \<le> reduction_limit before (max_reduction_ratio (policy env))))"

definition pass_refused ::
  "('s, 't) pass_env \<Rightarrow> compaction_target \<Rightarrow> 's \<Rightarrow> intra_error \<Rightarrow> 's \<Rightarrow> bool" where
  "pass_refused env target s e s' \<longleftrightarrow>
     (\<exists>n text. n \<le> length (pass_view env target s) \<and>
        replace_with_compaction (proc env) target n (compaction_summary_item (ops env) text) s = (Some e, s'))"

definition success_event :: "compaction_target \<Rightarrow> intra_result \<Rightarrow> intra_event" where
  "success_event target r = OnSuccess target (tokens_before r) (tokens_after r) (turns_compacted r)"

lemma guard_and_commit_cases:
  assumes "n \<le> length (pass_view env target s)" "guard_and_commit env target n before text s = (r, s', ev)"
  shows "case r of
      Inl e \<Rightarrow> ev = [] \<and> (s' = s \<or> pass_refused env target s e s')
    | Inr res \<Rightarrow> pass_committed env target n before s res s' \<and> ev = [success_event target res] \<and>
        result_summary res = text"
  using assms
  by (auto simp: guard_and_commit_def pass_committed_def success_event_def pass_refused_def Let_def
      not_less word_gt_0 split: if_splits prod.splits option.splits sum.splits)

definition pass_target_tokens :: "('s, 't) pass_env \<Rightarrow> intra_trigger \<Rightarrow> u32" where
  "pass_target_tokens env trigger =
     percent_of (context_window trigger) (target_threshold_percent (policy env))"

lemma one_pass_cases:
  assumes target: "target \<noteq> TargetFullReplace"
  shows "\<exists>r s' ev. compact_one_pass env trigger target s = Some (r, s', ev) \<and>
    (case r of
       Inl e \<Rightarrow> ev = [] \<and> (s' = s \<or> pass_refused env target s e s')
     | Inr res \<Rightarrow> ev = [success_event target res] \<and>
         (\<exists>n view. view = pass_view env target s \<and>
            \<not> fits_from (map (counter env) view) (pass_target_tokens env trigger) 0 \<and>
            best_split (ops env) (map (counter env) view) view (pass_target_tokens env trigger) n \<and>
            min_compactable_tokens (policy env) \<le> sum_counts (take n (map (counter env) view)) \<and>
            pass_committed env target n (sum_counts (take n (map (counter env) view))) s res s'))"
proof -
  define view where "view = pass_view env target s"
  have view: "target_view env target s = Some view"
    using target by (cases target) (simp_all add: target_view_def pass_view_def view_def)
  let ?cs = "map (counter env) view" and ?b = "pass_target_tokens env trigger"
  let ?mc = "min_compactable_tokens (policy env)"
  obtain sel where sel: "select_turns_to_compact (ops env) ?cs view ?b ?mc = Some sel"
    "case sel of Some p \<Rightarrow> \<not> fits_from ?cs ?b 0 \<and> best_split (ops env) ?cs view ?b (split_idx p) \<and>
       tokens_to_compact p = sum_counts (take (split_idx p) ?cs) \<and> ?mc \<le> tokens_to_compact p
     | None \<Rightarrow> True"
    using select_cases [of ?cs view "ops env" ?b ?mc] by (auto split: option.splits)
  show ?thesis
  proof (cases "view = [] \<or> sel = None")
    case True
    then have "compact_one_pass env trigger target s = Some (Inl NothingToCompact, s, [])"
      using view sel(1) by (auto simp: compact_one_pass_def pass_target_tokens_def)
    then show ?thesis by simp
  next
    case False
    then obtain plan where plan: "sel = Some plan" "view \<noteq> []" by auto
    let ?n = "split_idx plan" and ?turns = "take (split_idx plan) view"
    have best: "best_split (ops env) ?cs view ?b ?n" using sel(2) plan by simp
    then have range: "vec_range view 0 ?n = Some ?turns" by (simp add: vec_range_def best_split_def)
    obtain input prior where input: "pass_input env target ?turns = (input, prior)" by fastforce
    obtain sampled where sampled: "pass_summary env target input = Some sampled"
      using target by (cases "summarizer (policy env)"; cases target)
        (auto simp: pass_summary_def build_prompt_for_target_def)
    have pass: "compact_one_pass env trigger target s = Some (case sampled of
          Inl e \<Rightarrow> (Inl e, s, [])
        | Inr text \<Rightarrow> guard_and_commit env target ?n (tokens_to_compact plan)
            (final_summary_text env target ?turns prior text) s)"
      using view sel(1) plan range input sampled
      by (simp add: compact_one_pass_def pass_target_tokens_def)
    show ?thesis
    proof (cases sampled)
      case (Inl e)
      then show ?thesis using pass by simp
    next
      case (Inr sm)
      obtain r s' ev where out: "guard_and_commit env target ?n (tokens_to_compact plan)
          (final_summary_text env target ?turns prior sm) s = (r, s', ev)"
        using prod_cases3 by blast
      show ?thesis
        using guard_and_commit_cases [OF _ out] pass Inr out sel(2) plan best
        by (auto simp: best_split_def view_def [symmetric] split: sum.splits)
    qed
  qed
qed

lemma full_replace_cases:
  assumes len: "length (get_history (proc env) s) < 2 ^ 32" "length (get_accumulated (proc env) s) < 2 ^ 32"
  shows "\<exists>r s' ev. apply_full_replace_compaction env reminder budget s = Some (r, s', ev) \<and>
    (case r of
       Inl e \<Rightarrow> ev = [] \<and> (s' = s \<or> pass_refused env TargetFullReplace s e s')
     | Inr res \<Rightarrow> ev = [success_event TargetFullReplace res] \<and>
         pass_committed env TargetFullReplace (length (get_all_turns (proc env) s))
           (sum_list (map (counter env) (get_all_turns (proc env) s))) s res s')"
proof -
  let ?h = "get_history (proc env) s" and ?a = "get_accumulated (proc env) s"
  have fit: "\<exists>p. fit_turns_for_summarizer (ops env) ?h ?a (counter env) b = Some p" for b
  proof (cases "b = 0")
    case True
    then show ?thesis by (simp add: fit_turns_for_summarizer_def Let_def)
  next
    case False
    then have b: "0 < b" by (simp add: word_gt_0)
    consider "sum_tokens (counter env) (?h @ ?a) \<le> b"
      | "b < sum_tokens (counter env) (?h @ ?a)" "sum_tokens (counter env) ?a \<le> b"
      | "b < sum_tokens (counter env) ?a" using not_le by blast
    then show ?thesis
    proof cases
      case 1
      then show ?thesis using fit_verbatim [OF False 1] by blast
    next
      case 2
      then show ?thesis using fit_history [OF 2 b len(1)] by blast
    next
      case 3
      show ?thesis
        unfolding fit_beyond_history [OF 3 b]
        using fit_tools fit_steps_or_emergency [OF _ b len(2)] by (meson not_le)
    qed
  qed
  have "\<exists>x. full_replace_input env budget ?h ?a = Some x"
    using fit by (cases budget) (auto simp: full_replace_input_def bind_eq_Some_conv)
  then obtain x where x: "full_replace_input env budget ?h ?a = Some x" by blast
  consider (none) "apply_full_replace_compaction env reminder budget s = Some (Inl NothingToCompact, s, [])"
    | (turns) turns where "apply_full_replace_compaction env reminder budget s =
        Some (case sample_shared_summary_with_retries env TargetFullReplace turns of
            Inl e \<Rightarrow> (Inl e, s, [])
          | Inr text \<Rightarrow> guard_and_commit env TargetFullReplace (length ?h + length ?a)
              (sum_list (map (counter env) (?h @ ?a))) (append_reminder_block text reminder) s)"
  proof (cases "length ?h + length ?a = 0 \<or>
      sum_list (map (counter env) (?h @ ?a)) < min_compactable_tokens (policy env) \<or> x = None")
    case True
    then show ?thesis by (intro that(1)) (auto simp: apply_full_replace_compaction_def Let_def x)
  next
    case False
    then obtain turns where turns: "x = Some turns" by auto
    show ?thesis
      by (rule that(2) [of turns])
        (use False in \<open>auto simp: apply_full_replace_compaction_def Let_def x turns
          simp del: map_append sum_list_append\<close>)
  qed
  then show ?thesis
  proof cases
    case none
    then show ?thesis by simp
  next
    case turns
    show ?thesis
    proof (cases "sample_shared_summary_with_retries env TargetFullReplace turns")
      case (Inl e)
      then show ?thesis using turns by simp
    next
      case (Inr sm)
      obtain r s' ev where out: "guard_and_commit env TargetFullReplace (length ?h + length ?a)
          (sum_list (map (counter env) (?h @ ?a))) (append_reminder_block sm reminder) s = (r, s', ev)"
        using prod_cases3 by blast
      show ?thesis using guard_and_commit_cases [OF _ out] turns Inr out
        by (auto simp: get_all_turns_def pass_view_def split: sum.splits)
    qed
  qed
qed

section \<open>Concrete instances\<close>

text \<open>A processor over two lists and a model that only fails on steps of one size, for the
  concrete instances below.\<close>

definition demo_proc :: "((bool \<times> u32) list \<times> (bool \<times> u32) list, bool \<times> u32) stream_proc" where
  "demo_proc = \<lparr>get_accumulated = snd, get_history = fst,
     replace_with_compaction = (\<lambda>target n item s. case target of
       TargetSteps \<Rightarrow> (None, (fst s, item # drop n (snd s)))
     | TargetHistory \<Rightarrow> (None, (item # drop n (fst s), snd s))
     | TargetFullReplace \<Rightarrow> (None, ([item], [])))\<rparr>"

definition demo_env ::
  "intra_mode \<Rightarrow> ((bool \<times> u32) list \<times> (bool \<times> u32) list, bool \<times> u32) pass_env" where
  "demo_env m = \<lparr>ops = sample_builder, counter = snd, proc = demo_proc,
     sampler = (\<lambda>_ turns _ _. if snd (hd turns) = 61 then Inl (SampleBuild [])
                 else Inr \<lparr>response = lit ''ok'', thinking = []\<rparr>),
     policy = default_intra_config\<lparr>enabled := True, mode := m, min_compactable_tokens := 10,
       max_reduction_ratio := Fin (1 / 2), summarizer := Legacy, steps_trigger_ratio := Fin 0\<rparr>,
     steps_prompt = \<lparr>prompt_system = [], prompt_user = []\<rparr>,
     history_developer_prompt = Inr [], history_user_prompt = Inr [], summary_prompt = []\<rparr>"

definition demo_trigger :: intra_trigger where
  "demo_trigger = \<lparr>last_prompt_tokens = 90, context_window = 100, trigger_percent = 90, trigger_step = 5\<rparr>"

lemma demo_limit: "reduction_limit 60 (Fin (1 / 2)) = 30"
proof -
  have "quotient_of (60 * (1 / 2)) = (30, 1)" by (simp add: quotient_of_rat_of_int)
  moreover have "f64_round_pos 30 1 = 30"
    by (simp add: f64_round_pos_def floor_log2.simps round_half_even_def Let_def)
  ultimately have "f64_round (60 * (1 / 2)) = 30" by (simp add: f64_round_def)
  then show ?thesis by (simp add: reduction_limit_def f64_as_nat_def)
qed

lemmas demo_simps = demo_env_def demo_proc_def demo_trigger_def default_intra_config_def
  sample_builder_def

lemma demo_select:
  "c = 60 \<or> c = 61 \<Longrightarrow>
   select_turns_to_compact sample_builder [c, 30] [(False, c), (False, 30)] (percent_of 100 50) 10 =
     Some (Some \<lparr>split_idx = 1, tokens_to_compact = c\<rparr>)"
  by (auto simp: select_turns_to_compact_def snap_to_safe_boundary_def saturating_add_u32_def
      sum_counts_def vec_get_def vec_range_def sample_builder_def percent_of_def)

lemma demo_input:
  "pass_input (demo_env m) target [(False, c)] = ([(False, c)], None)"
  "final_summary_text (demo_env m) target [(False, c)] None t = t"
  by (auto simp: pass_input_def final_summary_text_def demo_simps separate_prior_user_queries_def
      separate_step_def extract_user_queries_from_turns_def map_filter_simps query_element_def
      assemble_user_queries_preamble_def Let_def)

lemma demo_sample:
  "target \<noteq> TargetFullReplace \<Longrightarrow> pass_summary (demo_env m) target [(False, c)] =
     Some (if c = 61 then Inl (SamplerBuild []) else Inr (lit ''ok''))"
  by (cases target)
    (auto simp: pass_summary_def build_prompt_for_target_def sample_compaction_with_retries_def
      legacy_loop.simps [of _ _ "Suc 0"] demo_simps compaction_sample_error_to_intra_def is_transient_def)

lemma demo_history_pass:
  "compact_one_pass (demo_env m) demo_trigger TargetHistory ([(False, 60), (False, 30)], st) =
     Some (Inr \<lparr>tokens_before = 60, tokens_after = 1, turns_compacted = 1, result_summary = lit ''ok''\<rparr>,
           ([(False, 1), (False, 30)], st), [OnSuccess TargetHistory 60 1 1])"
proof -
  have "guard_and_commit (demo_env m) TargetHistory 1 60 (lit ''ok'') ([(False, 60), (False, 30)], st) =
     (Inr \<lparr>tokens_before = 60, tokens_after = 1, turns_compacted = 1, result_summary = lit ''ok''\<rparr>,
      ([(False, 1), (False, 30)], st), [OnSuccess TargetHistory 60 1 1])"
    by (simp add: guard_and_commit_def demo_simps demo_limit Let_def)
  moreover have "target_view (demo_env m) TargetHistory ([(False, 60), (False, 30)], st) =
      Some [(False, 60), (False, 30)]" by (simp add: target_view_def demo_simps)
  moreover have "ops (demo_env m) = sample_builder" "counter (demo_env m) = snd"
    "target_threshold_percent (policy (demo_env m)) = 50"
    "min_compactable_tokens (policy (demo_env m)) = 10" "context_window demo_trigger = 100"
    by (simp_all add: demo_env_def default_intra_config_def demo_trigger_def)
  ultimately show ?thesis
    by (simp add: compact_one_pass_def demo_select vec_range_def demo_input demo_sample del: lit_simps)
qed

lemma demo_steps_pass:
  "compact_one_pass (demo_env m) demo_trigger TargetSteps (h, [(False, 61), (False, 30)]) =
     Some (Inl (SamplerBuild []), (h, [(False, 61), (False, 30)]), [])"
proof -
  have "target_view (demo_env m) TargetSteps (h, [(False, 61), (False, 30)]) =
      Some [(False, 61), (False, 30)]" by (simp add: target_view_def demo_simps)
  moreover have "ops (demo_env m) = sample_builder" "counter (demo_env m) = snd"
    "target_threshold_percent (policy (demo_env m)) = 50"
    "min_compactable_tokens (policy (demo_env m)) = 10" "context_window demo_trigger = 100"
    by (simp_all add: demo_env_def default_intra_config_def demo_trigger_def)
  ultimately show ?thesis
    by (simp add: compact_one_pass_def demo_select vec_range_def demo_input demo_sample)
qed

lemma demo_second_pass: "should_compact_steps (demo_env m) (h, [(False, 61), (False, 30)])"
  by (simp add: should_compact_steps_def wide_tokens_def demo_simps f64_round_def f64_round_pos_def
      f64_ceil_def f64_as_nat_def Let_def)

section \<open>Properties\<close>

text \<open>For a threshold of at most 100 percent the trigger decision is exact integer arithmetic: a
  compaction starts exactly when it is enabled, the window is known, enough steps have been
  made (which only the partial modes require) and the prompt uses more than the threshold
  percentage of the window; the reported percentage is then at least the threshold and at
  most 100.
\<close>

theorem should_compact_exact:
  assumes "unat (trigger_threshold_percent c) \<le> 100"
  shows "(should_compact c used window step \<noteq> None \<longleftrightarrow>
      enabled c \<and> window \<noteq> 0 \<and> (mode c = ModeFullReplace \<or> min_steps_before_compact c \<le> step) \<and>
      unat window * unat (trigger_threshold_percent c) < unat used * 100) \<and>
    (\<forall>t. should_compact c used window step = Some t \<longrightarrow>
      last_prompt_tokens t = used \<and> context_window t = window \<and> trigger_step t = step \<and>
      trigger_threshold_percent c \<le> trigger_percent t \<and> trigger_percent t \<le> 100)"
proof -
  let ?p = "unat (trigger_threshold_percent c)"
  have le: "used \<le> percent_of window (trigger_threshold_percent c) \<longleftrightarrow>
      unat used * 100 \<le> unat window * ?p"
    by (simp add: word_le_nat_alt percent_of_exact [OF assms] less_eq_div_iff_mult_less_eq)
  have pct: "trigger_threshold_percent c \<le> of_nat (min (unat used * 100 div unat window) 100) \<and>
      (of_nat (min (unat used * 100 div unat window) 100) :: u8) \<le> 100"
    if "window \<noteq> 0" "unat window * ?p < unat used * 100"
  proof -
    let ?q = "min (unat used * 100 div unat window) 100"
    have "0 < unat window" using that(1) by (simp add: unat_gt_0)
    then have "?p \<le> unat used * 100 div unat window"
      using that(2) by (simp add: less_eq_div_iff_mult_less_eq mult.commute)
    then have "?p \<le> ?q" using assms by simp
    moreover have "unat (of_nat ?q :: u8) = ?q" by (simp add: unat_of_nat)
    ultimately show ?thesis by (simp add: word_le_nat_alt)
  qed
  show ?thesis
    using le pct by (auto simp: should_compact_def not_less not_le split: if_splits)
qed

theorem should_compact_exact_witness:
  "unat (trigger_threshold_percent (default_intra_config\<lparr>enabled := True\<rparr>)) \<le> 100 \<and>
   should_compact (default_intra_config\<lparr>enabled := True\<rparr>) 851 1000 0 \<noteq> None \<and>
   should_compact (default_intra_config\<lparr>enabled := True\<rparr>) 850 1000 0 = None"
proof -
  have p: "unat (trigger_threshold_percent (default_intra_config\<lparr>enabled := True\<rparr>)) \<le> 100"
    by (simp add: default_intra_config_def)
  show ?thesis
    using should_compact_exact [OF p, of 851 1000 0] should_compact_exact [OF p, of 850 1000 0] p
    by (simp add: default_intra_config_def)
qed

lemma committed_before: "pass_committed env target n b s res s' \<Longrightarrow> tokens_before res = b"
  by (simp add: pass_committed_def Let_def) (metis intra_result.select_convs(1))

lemma committed_shrinks:
  assumes "pass_committed env target n b s res s'" "max_reduction_ratio (policy env) = Fin q" "q \<le> 1"
    "0 < tokens_before res"
  shows "tokens_after res \<le> tokens_before res"
proof -
  note b = committed_before [OF assms(1)]
  then have "tokens_after res \<le> reduction_limit b (Fin q)"
    using assms by (auto simp: pass_committed_def Let_def)
  also have "\<dots> \<le> b" using reduction_limit_le [of "Fin q" q b] assms b by simp
  finally show ?thesis using b by simp
qed

text \<open>C30. A steps or history pass never panics. Either nothing is reported, and the conversation is as
  it was or as a refused replacement left it, or it commits exactly one summary item in place of the
  oldest items up to the earliest safe split whose tail fits the target share of the window. A
  committed pass reports the sizes of what it replaced and of the summary, compacted at least the
  configured minimum, and with a ratio of at most 1 never enlarges the conversation.
\<close>
theorem one_pass_commits:
  assumes "target \<noteq> TargetFullReplace"
  shows "\<exists>r s' ev. compact_one_pass env trigger target s = Some (r, s', ev) \<and>
    (case r of
       Inl e \<Rightarrow> ev = [] \<and> (s' = s \<or> pass_refused env target s e s')
     | Inr res \<Rightarrow> ev = [success_event target res] \<and>
         (\<exists>n view. view = pass_view env target s \<and> 0 < n \<and>
            best_split (ops env) (map (counter env) view) view (pass_target_tokens env trigger) n \<and>
            token_sum (drop n (map (counter env) view)) \<le> unat (pass_target_tokens env trigger) \<and>
            min_compactable_tokens (policy env) \<le> tokens_before res \<and>
            pass_committed env target n (sum_counts (take n (map (counter env) view))) s res s' \<and>
            (\<forall>q. max_reduction_ratio (policy env) = Fin q \<and> q \<le> 1 \<and> 0 < tokens_before res \<longrightarrow>
               tokens_after res \<le> tokens_before res)))"
proof -
  obtain r s' ev where pass: "compact_one_pass env trigger target s = Some (r, s', ev)"
    and cases: "case r of
       Inl e \<Rightarrow> ev = [] \<and> (s' = s \<or> pass_refused env target s e s')
     | Inr res \<Rightarrow> ev = [success_event target res] \<and>
         (\<exists>n view. view = pass_view env target s \<and>
            \<not> fits_from (map (counter env) view) (pass_target_tokens env trigger) 0 \<and>
            best_split (ops env) (map (counter env) view) view (pass_target_tokens env trigger) n \<and>
            min_compactable_tokens (policy env) \<le> sum_counts (take n (map (counter env) view)) \<and>
            pass_committed env target n (sum_counts (take n (map (counter env) view))) s res s')"
    using one_pass_cases [OF assms, of env trigger s] by blast
  show ?thesis
  proof (cases r)
    case (Inl e)
    then show ?thesis using pass cases by simp
  next
    case (Inr res)
    then obtain n view where n: "view = pass_view env target s"
      "\<not> fits_from (map (counter env) view) (pass_target_tokens env trigger) 0"
      "best_split (ops env) (map (counter env) view) view (pass_target_tokens env trigger) n"
      "min_compactable_tokens (policy env) \<le> sum_counts (take n (map (counter env) view))"
      "pass_committed env target n (sum_counts (take n (map (counter env) view))) s res s'"
      "ev = [success_event target res]" using cases by auto
    note exact = best_split_exact [OF n(2,3)]
    show ?thesis
      using pass Inr n exact committed_before [OF n(5)] committed_shrinks [OF n(5)]
      by (intro exI [of _ r] exI [of _ s'] exI [of _ ev]) auto
  qed
qed

theorem one_pass_commits_witness:
  "TargetHistory \<noteq> TargetFullReplace \<and>
   (\<exists>res s'. compact_one_pass (demo_env HistoryOnly) demo_trigger TargetHistory
       ([(False, 60), (False, 30)], []) = Some (Inr res, s', [success_event TargetHistory res]) \<and>
     tokens_after res \<le> tokens_before res)"
proof -
  have "max_reduction_ratio (policy (demo_env HistoryOnly)) = Fin (1 / 2)"
    by (simp add: demo_env_def)
  then show ?thesis
    using one_pass_commits [of TargetHistory "demo_env HistoryOnly" demo_trigger
        "([(False, 60), (False, 30)], [])"]
    unfolding demo_history_pass by auto
qed

text \<open>The passes a mode may commit, in order; passes committed one after the other; the result that
  stands for them; and the report of an error.\<close>

fun mode_targets :: "intra_mode \<Rightarrow> compaction_target list" where
  "mode_targets ModeFullReplace = [TargetFullReplace]"
| "mode_targets StepsOnly = [TargetSteps]"
| "mode_targets HistoryOnly = [TargetHistory]"
| "mode_targets HistoryThenSteps = [TargetHistory, TargetSteps]"

fun committed_passes ::
  "('s, 't) pass_env \<Rightarrow> 's \<Rightarrow> (compaction_target \<times> intra_result) list \<Rightarrow> 's \<Rightarrow> bool" where
  "committed_passes env s [] s' = (s' = s)"
| "committed_passes env s ((target, r) # ps) s' =
     (\<exists>n b s1. pass_committed env target n b s r s1 \<and> committed_passes env s1 ps s')"

fun joined_result :: "intra_result list \<Rightarrow> intra_result option" where
  "joined_result [] = None"
| "joined_result [r] = Some r"
| "joined_result (r # rs) = map_option (join_results r) (joined_result rs)"

fun error_events :: "intra_error + intra_result \<Rightarrow> intra_event list" where
  "error_events (Inl e) = [OnError (error_status_label e)]"
| "error_events (Inr _) = []"

definition pass_ended ::
  "('s, 't) pass_env \<Rightarrow> compaction_target \<Rightarrow> 's \<Rightarrow> intra_error + intra_result \<Rightarrow> 's \<Rightarrow> intra_event list \<Rightarrow> bool" where
  "pass_ended env target s r s' ev \<longleftrightarrow>
     (case r of
        Inl e \<Rightarrow> ev = [] \<and> (s' = s \<or> pass_refused env target s e s')
      | Inr res \<Rightarrow> ev = [success_event target res] \<and> (\<exists>n b. pass_committed env target n b s res s'))"

lemma pass_ended_simps [simp]:
  "pass_ended env target s (Inl e) s' ev \<longleftrightarrow> ev = [] \<and> (s' = s \<or> pass_refused env target s e s')"
  "pass_ended env target s (Inr res) s' ev \<longleftrightarrow>
     ev = [success_event target res] \<and> (\<exists>n b. pass_committed env target n b s res s')"
  by (simp_all add: pass_ended_def)

lemma one_pass_ended:
  "target \<noteq> TargetFullReplace \<Longrightarrow>
   \<exists>r s' ev. compact_one_pass env trigger target s = Some (r, s', ev) \<and> pass_ended env target s r s' ev"
  using one_pass_cases [of target env trigger s] unfolding pass_ended_def by (fastforce split: sum.splits)

lemma full_replace_ended:
  "length (get_history (proc env) s) < 2 ^ 32 \<Longrightarrow> length (get_accumulated (proc env) s) < 2 ^ 32 \<Longrightarrow>
   \<exists>r s' ev. apply_full_replace_compaction env reminder budget s = Some (r, s', ev) \<and>
     pass_ended env TargetFullReplace s r s' ev"
  using full_replace_cases [of env s reminder budget] unfolding pass_ended_def by (fastforce split: sum.splits)

text \<open>How a run ends behind the passes \<open>ps\<close> it committed, in state \<open>s1\<close>.\<close>

definition run_ended ::
  "('s, 't) pass_env \<Rightarrow> 's \<Rightarrow> (compaction_target \<times> intra_result) list \<Rightarrow> 's \<Rightarrow>
   intra_error + intra_result \<Rightarrow> 's \<Rightarrow> intra_event list \<Rightarrow> bool" where
  "run_ended env s ps s1 r s' ev \<longleftrightarrow>
     committed_passes env s ps s1 \<and>
     ev = map (\<lambda>(target, res). success_event target res) ps @ error_events r \<and>
     (case r of
        Inr res \<Rightarrow> joined_result (map snd ps) = Some res \<and> s' = s1
      | Inl e \<Rightarrow> s' = s1 \<or> (\<exists>target \<in> set (mode_targets (mode (policy env))). pass_refused env target s1 e s'))"

lemma single_run_ended:
  assumes "pass_ended env target s r s' ev" "mode_targets (mode (policy env)) = [target]"
  shows "\<exists>ps s1. run_ended env s ps s1 r s' (ev @ error_events r) \<and> subseq (map fst ps) [target] \<and>
    (\<forall>e. r = Inl e \<longrightarrow> ps = [])"
proof (cases r)
  case (Inl e)
  then show ?thesis
    using assms by (intro exI [of _ "[]"] exI [of _ s]) (auto simp: run_ended_def)
next
  case (Inr res)
  then show ?thesis
    using assms by (intro exI [of _ "[(target, res)]"] exI [of _ s']) (auto simp: run_ended_def)
qed

text \<open>A processor that answers \<open>NothingToCompact\<close>, if it ever does, has changed nothing.\<close>

definition nothing_is_unchanged :: "('s, 't) stream_proc \<Rightarrow> bool" where
  "nothing_is_unchanged p \<longleftrightarrow>
     (\<forall>target n item s s'. replace_with_compaction p target n item s = (Some NothingToCompact, s') \<longrightarrow> s' = s)"

lemma refused_nothing:
  "nothing_is_unchanged (proc env) \<Longrightarrow> pass_refused env target s NothingToCompact s' \<Longrightarrow> s' = s"
  by (auto simp: nothing_is_unchanged_def pass_refused_def)

lemma two_pass_run_ended:
  assumes mode: "mode (policy env) = HistoryThenSteps" and quiet: "nothing_is_unchanged (proc env)"
  shows "\<exists>r s' ev ps s1. apply_history_then_steps env trigger s = Some (r, s', ev) \<and>
    run_ended env s ps s1 r s' (ev @ error_events r) \<and> subseq (map fst ps) [TargetHistory, TargetSteps] \<and>
    (\<forall>e. r = Inl e \<and> ps \<noteq> [] \<longrightarrow> map fst ps = [TargetHistory] \<and> e \<noteq> NothingToCompact) \<and>
    (TargetSteps \<in> set (map fst ps) \<longrightarrow>
       (\<exists>s0. committed_passes env s (filter (\<lambda>p. fst p = TargetHistory) ps) s0 \<and> should_compact_steps env s0))"
proof -
  obtain h s1 ev1 where h: "apply_history_compaction env trigger s = Some (h, s1, ev1)"
    "pass_ended env TargetHistory s h s1 ev1"
    using one_pass_ended [of TargetHistory env trigger s] by (auto simp: apply_history_compaction_def)
  obtain t s2 ev2 where t: "apply_steps_compaction env trigger s1 = Some (t, s2, ev2)"
    "pass_ended env TargetSteps s1 t s2 ev2"
    using one_pass_ended [of TargetSteps env trigger s1] by (auto simp: apply_steps_compaction_def)
  note defs = run_ended_def mode
  show ?thesis
  proof (cases h)
    case (Inl e)
    show ?thesis
    proof (cases "e = NothingToCompact \<and> should_compact_steps env s1")
      case False
      then have "apply_history_then_steps env trigger s = Some (h, s1, [])"
        using h Inl by (auto simp: apply_history_then_steps_def)
      then show ?thesis
        using h(2) Inl by (intro exI [of _ h] exI [of _ s1] exI [of _ "[]"] exI [of _ s]) (auto simp: defs)
    next
      case True
      then have same: "s1 = s" using h(2) Inl refused_nothing [OF quiet] by auto
      have run: "apply_history_then_steps env trigger s = Some (t, s2, ev2)"
        using True h t(1) Inl by (simp add: apply_history_then_steps_def)
      show ?thesis
      proof (cases t)
        case (Inl e')
        then show ?thesis using run t(2) same
          by (intro exI [of _ t] exI [of _ s2] exI [of _ "[]"] exI [of _ s]) (auto simp: defs)
      next
        case (Inr st)
        then show ?thesis using run t(2) same True
          by (intro exI [of _ t] exI [of _ s2] exI [of _ ev2] exI [of _ "[(TargetSteps, st)]"] exI [of _ s2])
            (auto simp: defs)
      qed
    qed
  next
    case (Inr res)
    show ?thesis
    proof (cases "should_compact_steps env s1 \<and> t \<noteq> Inl NothingToCompact")
      case False
      then have "apply_history_then_steps env trigger s = Some (h, s1, ev1)"
        using h t Inr refused_nothing [OF quiet] by (auto simp: apply_history_then_steps_def)
      then show ?thesis using h(2) Inr
        by (intro exI [of _ h] exI [of _ s1] exI [of _ ev1] exI [of _ "[(TargetHistory, res)]"] exI [of _ s1])
          (auto simp: defs)
    next
      case True
      show ?thesis
      proof (cases t)
        case (Inl e)
        then have "apply_history_then_steps env trigger s = Some (Inl e, s2, ev1)"
          using True h t Inr by (simp add: apply_history_then_steps_def)
        then show ?thesis using h(2) t(2) Inr Inl True
          by (intro exI [of _ "Inl e"] exI [of _ s2] exI [of _ ev1] exI [of _ "[(TargetHistory, res)]"] exI [of _ s1])
            (auto simp: defs)
      next
        case steps: (Inr st)
        then have "apply_history_then_steps env trigger s = Some (Inr (join_results res st), s2, ev1 @ ev2)"
          using True h t Inr by (simp add: apply_history_then_steps_def)
        then show ?thesis using h(2) t(2) Inr steps True
          by (intro exI [of _ "Inr (join_results res st)"] exI [of _ s2] exI [of _ "ev1 @ ev2"]
              exI [of _ "[(TargetHistory, res), (TargetSteps, st)]"] exI [of _ s2])
            (auto simp: defs; blast)
      qed
    qed
  qed
qed

text \<open>C31.
  The top-level operation never panics on histories of fewer than \<open>2\<^sup>32\<close> items. Whatever the mode,
  there is a list of passes it committed, in the order of the mode and each at most once: the events
  it sends are one success per committed pass and then, when it ends in an error, that error's label.
  A success is the result of the one committed pass or, in the two-pass mode, the joined result of
  both, and the state is the one the last commit left. Behind an error the state is the one the
  commits before it left, unless the processor itself refused a replacement and changed it. Only the
  two-pass mode can fail behind a commit, that of its history pass, so that there the conversation is
  not unchanged on error; and the steps pass of that mode commits only where the accumulated steps
  outweigh the configured share of the history. The processor is assumed to have changed nothing
  where it answers \<open>NothingToCompact\<close>.
\<close>

theorem apply_intra_outcome:
  assumes "nothing_is_unchanged (proc env)"
    "length (get_history (proc env) s) < 2 ^ 32" "length (get_accumulated (proc env) s) < 2 ^ 32"
  shows "\<exists>r s' ev ps s1. apply_intra_compaction env trigger reminder budget s = Some (r, s', ev) \<and>
    subseq (map fst ps) (mode_targets (mode (policy env))) \<and>
    committed_passes env s ps s1 \<and>
    ev = map (\<lambda>(target, res). success_event target res) ps @ error_events r \<and>
    (case r of
       Inr res \<Rightarrow> joined_result (map snd ps) = Some res \<and> s' = s1
     | Inl e \<Rightarrow>
         (s' = s1 \<or> (\<exists>target \<in> set (mode_targets (mode (policy env))). pass_refused env target s1 e s')) \<and>
         (ps \<noteq> [] \<longrightarrow> mode (policy env) = HistoryThenSteps \<and> map fst ps = [TargetHistory] \<and> e \<noteq> NothingToCompact)) \<and>
    (mode (policy env) = HistoryThenSteps \<and> TargetSteps \<in> set (map fst ps) \<longrightarrow>
       (\<exists>s0. committed_passes env s (filter (\<lambda>p. fst p = TargetHistory) ps) s0 \<and> should_compact_steps env s0))"
proof (cases "mode (policy env)")
  case ModeFullReplace
  then obtain r s' ev ps s1 where "apply_full_replace_compaction env reminder budget s = Some (r, s', ev)"
    "run_ended env s ps s1 r s' (ev @ error_events r)" "subseq (map fst ps) [TargetFullReplace]" "\<forall>e. r = Inl e \<longrightarrow> ps = []"
    using full_replace_ended [OF assms(2,3), of reminder budget] single_run_ended by fastforce
  then show ?thesis using ModeFullReplace
    by (intro exI [of _ r] exI [of _ s'] exI [of _ "ev @ error_events r"] exI [of _ ps] exI [of _ s1])
      (auto simp: apply_intra_compaction_def run_ended_def split: sum.splits)
next
  case StepsOnly
  then obtain r s' ev ps s1 where "compact_one_pass env trigger TargetSteps s = Some (r, s', ev)"
    "run_ended env s ps s1 r s' (ev @ error_events r)" "subseq (map fst ps) [TargetSteps]" "\<forall>e. r = Inl e \<longrightarrow> ps = []"
    using one_pass_ended [of TargetSteps env trigger s] single_run_ended by fastforce
  then show ?thesis using StepsOnly
    by (intro exI [of _ r] exI [of _ s'] exI [of _ "ev @ error_events r"] exI [of _ ps] exI [of _ s1])
      (auto simp: apply_intra_compaction_def apply_steps_compaction_def run_ended_def split: sum.splits)
next
  case HistoryOnly
  then obtain r s' ev ps s1 where "compact_one_pass env trigger TargetHistory s = Some (r, s', ev)"
    "run_ended env s ps s1 r s' (ev @ error_events r)" "subseq (map fst ps) [TargetHistory]" "\<forall>e. r = Inl e \<longrightarrow> ps = []"
    using one_pass_ended [of TargetHistory env trigger s] single_run_ended by fastforce
  then show ?thesis using HistoryOnly
    by (intro exI [of _ r] exI [of _ s'] exI [of _ "ev @ error_events r"] exI [of _ ps] exI [of _ s1])
      (auto simp: apply_intra_compaction_def apply_history_compaction_def run_ended_def split: sum.splits)
next
  case HistoryThenSteps
  then obtain r s' ev ps s1 where "apply_history_then_steps env trigger s = Some (r, s', ev)"
    "run_ended env s ps s1 r s' (ev @ error_events r)" "subseq (map fst ps) [TargetHistory, TargetSteps]"
    "\<forall>e. r = Inl e \<and> ps \<noteq> [] \<longrightarrow> map fst ps = [TargetHistory] \<and> e \<noteq> NothingToCompact"
    "TargetSteps \<in> set (map fst ps) \<longrightarrow>
       (\<exists>s0. committed_passes env s (filter (\<lambda>p. fst p = TargetHistory) ps) s0 \<and> should_compact_steps env s0)"
    using two_pass_run_ended [OF _ assms(1)] by metis
  then show ?thesis using HistoryThenSteps
    by (intro exI [of _ r] exI [of _ s'] exI [of _ "ev @ error_events r"] exI [of _ ps] exI [of _ s1])
      (auto simp: apply_intra_compaction_def run_ended_def split: sum.splits)
qed

lemma demo_quiet: "nothing_is_unchanged (proc (demo_env m))"
  by (auto simp: nothing_is_unchanged_def demo_env_def demo_proc_def split: compaction_target.splits)

definition demo_state :: "(bool \<times> u32) list \<times> (bool \<times> u32) list" where
  "demo_state = ([(False, 60), (False, 30)], [(False, 61), (False, 30)])"

lemma demo_two_passes:
  "apply_intra_compaction (demo_env HistoryThenSteps) demo_trigger None None demo_state =
     Some (Inl (SamplerBuild []), ([(False, 1), (False, 30)], [(False, 61), (False, 30)]),
           [OnSuccess TargetHistory 60 1 1, OnError ''sampler_build''])"
proof -
  have "mode (policy (demo_env HistoryThenSteps)) = HistoryThenSteps" by (simp add: demo_env_def)
  then show ?thesis
    by (simp add: apply_intra_compaction_def apply_history_then_steps_def apply_history_compaction_def
        apply_steps_compaction_def demo_history_pass demo_steps_pass demo_second_pass demo_state_def
        error_status_label_def)
qed

theorem apply_intra_outcome_witness:
  "nothing_is_unchanged (proc (demo_env HistoryThenSteps)) \<and>
   length (get_history (proc (demo_env HistoryThenSteps)) demo_state) < 2 ^ 32 \<and>
   length (get_accumulated (proc (demo_env HistoryThenSteps)) demo_state) < 2 ^ 32 \<and>
   (\<exists>s' h s1. apply_intra_compaction (demo_env HistoryThenSteps) demo_trigger None None demo_state =
        Some (Inl (SamplerBuild []), s', [success_event TargetHistory h, OnError ''sampler_build'']) \<and>
      committed_passes (demo_env HistoryThenSteps) demo_state [(TargetHistory, h)] s1)"
proof -
  have len: "length (get_history (proc (demo_env HistoryThenSteps)) demo_state) < 2 ^ 32"
    "length (get_accumulated (proc (demo_env HistoryThenSteps)) demo_state) < 2 ^ 32"
    by (simp_all add: demo_simps demo_state_def)
  obtain r s' ev ps s1 where all: "apply_intra_compaction (demo_env HistoryThenSteps) demo_trigger None None demo_state =
      Some (r, s', ev)" "committed_passes (demo_env HistoryThenSteps) demo_state ps s1"
    "ev = map (\<lambda>(target, res). success_event target res) ps @ error_events r"
    using apply_intra_outcome [OF demo_quiet len, of demo_trigger None None] by blast
  then have run: "committed_passes (demo_env HistoryThenSteps) demo_state ps s1"
    "[OnSuccess TargetHistory 60 1 1, OnError ''sampler_build''] =
       map (\<lambda>(target, res). success_event target res) ps @ [OnError (error_status_label (SamplerBuild []))]"
    unfolding demo_two_passes by auto
  then obtain h where "ps = [(TargetHistory, h)]" "success_event TargetHistory h = OnSuccess TargetHistory 60 1 1"
    by (cases ps; cases "tl ps") (auto simp: success_event_def)
  then show ?thesis using run(1) len demo_quiet demo_two_passes by metis
qed

text \<open>
  The documentation of the top-level operation says that the conversation is left unchanged on
  every error. In the two-pass mode it is not, even for a processor that never refuses: when the
  steps pass fails behind a successful history pass, the error is returned and the history stays
  compacted.
\<close>

theorem history_then_steps_error_commits:
  "\<exists>(env :: ((bool \<times> u32) list \<times> (bool \<times> u32) list, bool \<times> u32) pass_env) trigger s e s' ev.
     (\<forall>target n item s. fst (replace_with_compaction (proc env) target n item s) = None) \<and>
     apply_intra_compaction env trigger None None s = Some (Inl e, s', ev) \<and> s' \<noteq> s"
proof -
  have "fst (replace_with_compaction (proc (demo_env HistoryThenSteps)) target n item s) = None" for target n item s
    by (cases target) (simp_all add: demo_env_def demo_proc_def)
  moreover have "([(False, 1), (False, 30)], [(False, 61), (False, 30)]) \<noteq> demo_state"
    by (simp add: demo_state_def)
  ultimately show ?thesis using demo_two_passes by blast
qed

end
