(* ===== verification/Spec2Isabelle.thy ===== *)
theory Spec2Isabelle
  imports Queue_Runs Breaker_Registry Chat_Runs Grokcraft_Client Breaker_Concurrent Retry_Policy
    Patch_Parser Line_Mutation Message_Delivery Agent_Identity Compaction_Apply Prompt_Rewind
    Chat_Prep
begin

text \<open>
  A verification development of GrokCraft: the Grok coding agent (\<open>src/grok-build\<close>, a Rust workspace)
  with the Grokcraft client that mirrors its sessions to a web relay. The paths below are relative to
  \<open>src/grok-build/crates\<close>.

  \<^bold>\<open>The program and the parts modelled.\<close> The agent keeps a conversation with a language model, runs the
  tools the model asks for, and keeps the conversation within the model's window. The development
  follows that path from the inside out.

  \<^item> \<^emph>\<open>The conversation and its keeper.\<close> \<open>codegen/xai-grok-sampling-types\<close> defines the items of a
    conversation; \<open>codegen/xai-chat-state\<close> is the actor that owns it: it takes commands from a mailbox,
    changes its state, writes every change to disk and builds the requests for the model.
    \<open>Conversation\<close> holds the items with their constructors and accessors; \<open>History_Repair\<close> the repairs
    that keep every tool call answered; \<open>Prompt_Rewind\<close> the cut at a prompt; \<open>Token_Estimate\<close> the token
    estimates and the compaction gate; \<open>Usage_Ledger\<close> the billing ledgers; \<open>Chat_Prep\<close> the fitting of a
    conversation and its rebuilding after a compaction; \<open>Request_Prune\<close> the pruning of old results and
    the system head; \<open>Image_Budget\<close> the byte budget of images; \<open>Chat_Queries\<close> the read-only queries;
    \<open>Chat_State\<close> the state record (\<open>ChatState\<close>) and every handler of \<open>actor/mutations.rs\<close>,
    \<open>actor/request_builder.rs\<close> and \<open>actor/queries.rs\<close>; \<open>Chat_Actor\<close> the command type and its dispatch
    (\<open>actor/mod.rs\<close>); \<open>Chat_Invariants\<close> and \<open>Chat_Runs\<close> what holds over runs of commands.
  \<^item> \<^emph>\<open>Compaction.\<close> \<open>common/xai-grok-compaction\<close> shortens a conversation that grows too long.
    \<open>Compaction_Select\<close> chooses the split point, \<open>Compaction_Fit\<close> fits the summariser's input into its
    budget, \<open>Compaction_History\<close> filters the history and carries the user's queries through repeated
    compactions, \<open>Compaction_Summary\<close> cleans a summary and drives the retry loop around the sampler, and
    \<open>Compaction_Apply\<close> is the orchestration in the agent loop.
  \<^item> \<^emph>\<open>Editing tools.\<close> \<open>codegen/xai-grok-tools\<close>: \<open>Apply_Patch\<close> and \<open>Patch_Parser\<close> are the patch engine
    (\<open>codex/apply_patch\<close>); \<open>Line_Hash\<close>, \<open>Anchor_Scheme\<close>, \<open>Hashline_Edit\<close> and \<open>Line_Mutation\<close> the hashline
    tools (\<open>grok_build_hashline\<close>).
  \<^item> \<^emph>\<open>Delivery between agents.\<close> \<open>common/xai-message-delivery-core\<close>: \<open>Message_Delivery\<close> is the turn-bound
    ownership of messages, \<open>Agent_Identity\<close> the identities, addresses and authorisation.
  \<^item> \<^emph>\<open>The prompt queue.\<close> A session of \<open>codegen/xai-grok-shell\<close> queues the prompts of its clients, wakes of
    background work and messages of a parent agent, and runs them one turn at a time. \<open>Interjection\<close> is the
    buffer of messages for the running turn and their framing (\<open>common/xai-interjection-core\<close>);
    \<open>Prompt_Queue\<close> the origins, rows, combining rules and wire form (\<open>session/mod.rs\<close>, \<open>queue_mutation.rs\<close>,
    \<open>codegen/xai-prompt-queue\<close>); \<open>Queue_Ops\<close> the state behind the session's lock and its handlers
    (\<open>acp_session.rs\<close>, \<open>acp_session_impl/prompt_queue.rs\<close>, \<open>interjection.rs\<close>, \<open>turn_task.rs\<close> and the parts of
    \<open>notification_drain.rs\<close>, \<open>turn_end.rs\<close>, \<open>cancel.rs\<close>, \<open>tool_calls.rs\<close> and \<open>parent_message.rs\<close> that change the
    queue); \<open>Queue_Steps\<close> and \<open>Queue_Runs\<close> what holds over their interleavings.
  \<^item> \<^emph>\<open>Network resilience.\<close> \<open>common/xai-circuit-breaker\<close>: \<open>Sliding_Window\<close>, \<open>Circuit_Breaker\<close> (one call at
    a time), \<open>Breaker_Concurrent\<close> (calls interleaved at their atomic accesses), \<open>Breaker_Registry\<close> (one
    breaker per key) and \<open>Retry_Policy\<close>.
  \<^item> \<^emph>\<open>The Grokcraft client.\<close> \<open>codegen/xai-grokcraft\<close>: \<open>Json_Codec\<close> has the reading and writing rules of
    \<open>serde\<close> as a locale of codecs, \<open>Grokcraft_Protocol\<close> every frame of the wire protocol, and
    \<open>Grokcraft_Client\<close> the identity on disk, the hub, a connection and the reconnecting loop.
  \<open>Prelude\<close>, \<open>Rust_Strings\<close>, \<open>Text_Search\<close>, \<open>Utf8_Slice\<close> and \<open>Float64\<close> are what the components share:
  machine integers, strings as lists of Unicode scalar values with their UTF-8 lengths, string search,
  and the part of binary64 arithmetic the sources use.

  \<^bold>\<open>How the model corresponds to the code.\<close> A struct is a \<open>record\<close> with the struct's fields, an enum a
  \<open>datatype\<close> with its constructors (a prefix is added where names would clash), a method a definition that
  takes the state and returns it changed. A loop is a recursive function of the same shape, named after the
  function it belongs to; where the recursion is not structural its termination is proved. Machine integers
  keep their width (\<open>u32\<close>, \<open>u64\<close> as words) where the code saturates or wraps; lengths of data in memory
  are natural numbers. \<open>f64\<close> values are rationals with the infinities and NaN, rounded to 53 bits after each
  operation. A panic is \<open>None\<close> and a \<open>Result\<close> a sum type with the error on the left. Calls to a logger, a
  persistence back end or a socket are appended to a log in the state. There is no fuel: every function is
  total.

  \<^bold>\<open>What comes from outside\<close> is an argument: the model behind the sampler and its stream processor, the token
  counter and the item operations of the compaction crate (records of functions),
  the clock readings of the breaker, the acknowledgements of the persistence layer, the sizes of opaque JSON
  fields (\<open>frame\<close>), the entropy of minted tokens, the \<open>url\<close> crate, the answers of the network and of the
  file system. Where a theorem relies on their behaviour it is a hypothesis, and its witness discharges it
  for a concrete function.

  \<^bold>\<open>What the theorems show.\<close>

  \<^item> \<^emph>\<open>Chat state.\<close> Over every run of commands without a restored snapshot the writes keep the disk in step
    with the memory, and the turn capture stays inside the conversation (an instance of the locale
    \<open>invariant_system\<close> over an \<open>inductive\<close> step relation with a mailbox), provided that writes succeed and the
    store answers as promised; a captured turn is what was pushed in it, up to images a command strips and
    results pruning clears, unless the stored history is repaired; a request is always built and every call
    in it is answered. Where no turn repeats a call id, repair gives one result per call and changes nothing
    else; rewinding cuts where a turn opens; the compacted history is paired and keeps the last query, trimmed,
    unless it is empty or holds one of the tags; pruning goes by the age of a turn; ledgers are saturated sums;
    the image budget takes out the oldest images, no more than it must, and never panics; the threshold
    arithmetic equals the exact comparison.
  \<^item> \<^emph>\<open>Compaction.\<close> The split is optimal among the safe boundaries; the fit climbs its ladder stage by
    stage, and the one case in which it hands over nothing is characterised; user queries survive compactions
    verbatim; the retry loop ends and reports each attempt once; a pass either commits one summary or leaves
    the conversation as it was, or as the processor left it on refusing; each mode sends one event per committed
    pass, and only the two-pass mode can fail behind a commit.
  \<^item> \<^emph>\<open>Editing.\<close> Back-to-front replacement equals a front-to-back copy, patches never panic, printing and parsing
    a patch is the identity, a hashline batch is all or nothing, overlap detection is exact, and every line
    the read tool prints is accepted by the edit tool for that line.
  \<^item> \<^emph>\<open>Delivery.\<close> Each admitted message is owned, or handed back exactly once, over every run.
  \<^item> \<^emph>\<open>Breaker.\<close> Reachable breakers keep their mirrors and counters; admission is exact; any interleaving of
    checks claims at most the permitted probes; a call that runs alone refines to the sequential operation.
  \<^item> \<^emph>\<open>Prompt queue.\<close> In any sequence of the handlers every accepted prompt is settled once and only runtime
    wakes are dropped; the controls never touch the running turn; reordering is a stable sort over the
    movable slots; a hold delays a turn by ten minutes at most; combining loses no text; a completion frees
    the turn and the gate; an aborted drain of interjections is undone; broadcasts round-trip. A step is one
    section under the session's lock: a completion (\<open>handle_completion\<close>) is three of them, between which other
    handlers may run, and the definition of the whole handler is their composition.
  \<^item> \<^emph>\<open>Grokcraft.\<close> Both directions of the protocol round-trip, also past unknown fields; a connection answers
    and surfaces exactly what its inputs ask for; a pairing lasts; a refused token leads to a new pairing.
  Where the code and its comments disagree, or the code does not do what it means to, a theorem or a lemma
  shows the behaviour: a repair of the stored history loses an untaken turn capture, the reconnect delay never
  resets, a summariser input can be fitted to an empty plan, a two-pass compaction can fail behind a commit, an
  image-only prompt is lost as an anchor by a compaction, a probe counter can be raced, and others.

  \<^bold>\<open>Locales.\<close> \<open>invariant_system\<close> (a step relation with an invariant) is interpreted for the breaker, the
  interleaved breaker, message delivery and the chat actor. \<open>codec\<close> (a writer and a reader) is
  interpreted for every scalar, enum and struct of the wire protocol, the queue broadcast and the stored identity. \<open>anchor_scheme\<close> (what
  every scheme of line anchors promises to the edit tool) is interpreted for each scheme of the sources. \<open>event_buffer\<close> (pushing, draining and restoring) is
  interpreted for the queue of interjections.

  \<^bold>\<open>Not modelled.\<close> The terminal interface (\<open>xai-grok-pager\<close> and its rendering
  crates), the rest of the shell that hosts a session (\<open>xai-grok-shell\<close>: the turn itself, goals,
  hooks, configuration), the workspace with its permission manager, the sandbox, memory, hooks, the MCP client,
  markdown rendering, telemetry, login, updates and the other crates listed in the manifest: they are mostly
  input and output around third-party crates (terminals, file systems, processes, HTTP, databases, tree-sitter),
  and what they compute rests on values those crates return. The relay itself is TypeScript
  (\<open>src/cloud\<close>). Three simplifications remain. A struct is read from a JSON object, not from an array of its
  fields, which \<open>serde\<close> would also accept. The running token estimate of the actor
  (\<open>estimated_since_model\<close>) is a natural number, like the lengths it sums. What an item's JSON holds beside its
  text and images counts in the image budget with a size given by \<open>frame\<close>. Within the modelled crates tracing, metrics, the \<open>serde\<close> text format,
  the request and response records of the sampling types, and the compaction texts about running tasks are left
  out.
\<close>

end
